(* ===== verification/Prelude.thy ===== *)
theory Prelude
  imports Main "HOL-Library.Word" "HOL-Library.Monad_Syntax"
begin

unbundle bit_operations_syntax

text \<open>
  Shared vocabulary of the development: the machine types of the C and nesC sources, byte
  memories with bounds-checked reads and writes (a C access outside its object is the value
  None), and the lemmas on them the components use.
\<close>

section \<open>Machine types\<close>

type_synonym u8 = "8 word"
type_synonym u16 = "16 word"
type_synonym u32 = "32 word"
type_synonym u64 = "64 word"

text \<open>Collections: bounds facts of byte memories, and definitions unfolded by computation.\<close>

named_theorems mem_simps
named_theorems word_bounds

lemma unat_u8_lt: "unat (x :: u8) < 256"
  using unsigned_less [of x] by simp

lemma unat_u16_lt: "unat (x :: u16) < 65536"
  using unsigned_less [of x] by simp

lemma unat_u32_lt: "unat (x :: u32) < 4294967296"
  using unsigned_less [of x] by simp

lemma unat_ucast_u8_u16 [simp]: "unat (ucast (x :: u8) :: u16) = unat x"
  using unat_u8_lt [of x] by (simp add: unsigned_ucast_eq take_bit_nat_eq_self)

lemma unat_ucast_u8_u32 [simp]: "unat (ucast (x :: u8) :: u32) = unat x"
  using unat_u8_lt [of x] by (simp add: unsigned_ucast_eq take_bit_nat_eq_self)

lemma unat_ucast_u16_u32 [simp]: "unat (ucast (x :: u16) :: u32) = unat x"
  using unat_u16_lt [of x] by (simp add: unsigned_ucast_eq take_bit_nat_eq_self)

text \<open>Two bytes as a big-endian 16-bit word.\<close>

lemma unat_high_byte: "unat (push_bit 8 (ucast (a :: u8)) :: u16) = unat a * 256"
  using unat_u8_lt [of a] by (simp add: push_bit_eq_mult unat_word_ariths)

lemma unat_two_bytes:
  "unat (push_bit 8 (ucast (a :: u8)) OR ucast (b :: u8) :: u16) = unat a * 256 + unat b"
proof -
  have "push_bit 8 (ucast a) OR ucast b = (push_bit 8 (ucast a) + ucast b :: u16)"
  proof (rule disjunctive_add [symmetric])
    show "\<not> bit (push_bit 8 (ucast a) :: u16) n \<or> \<not> bit (ucast b :: u16) n" for n
      using bit_imp_le_length [of b n] by (auto simp: bit_simps)
  qed
  then show ?thesis
    using unat_u8_lt [of a] unat_u8_lt [of b] by (simp add: unat_word_ariths unat_high_byte)
qed

section \<open>Byte memories\<close>

text \<open>
  A C object is its list of bytes; a pointer into it is an index. A read or a write that
  leaves the object is None: undefined behaviour in C is never given a value.
\<close>

type_synonym bytes = "u8 list"

definition rd8 :: "bytes \<Rightarrow> nat \<Rightarrow> u8 option" where
  "rd8 m i = (if i < length m then Some (m ! i) else None)"

definition rdn :: "bytes \<Rightarrow> nat \<Rightarrow> nat \<Rightarrow> bytes option" where
  "rdn m i n = (if i + n \<le> length m then Some (take n (drop i m)) else None)"

definition wr8 :: "bytes \<Rightarrow> nat \<Rightarrow> u8 \<Rightarrow> bytes option" where
  "wr8 m i b = (if i < length m then Some (m[i := b]) else None)"

definition wrn :: "bytes \<Rightarrow> nat \<Rightarrow> bytes \<Rightarrow> bytes option" where
  "wrn m i bs =
     (if i + length bs \<le> length m
      then Some (take i m @ bs @ drop (i + length bs) m) else None)"

lemma rd8_Some [mem_simps]: "i < length m \<Longrightarrow> rd8 m i = Some (m ! i)"
  by (simp add: rd8_def)

lemma wr8_Some [mem_simps]: "i < length m \<Longrightarrow> wr8 m i b = Some (m[i := b])"
  by (simp add: wr8_def)

lemma wrn_Some [mem_simps]:
  "i + length bs \<le> length m \<Longrightarrow> wrn m i bs = Some (take i m @ bs @ drop (i + length bs) m)"
  by (simp add: wrn_def)

lemma rdn_Some [mem_simps]: "i + n \<le> length m \<Longrightarrow> rdn m i n = Some (take n (drop i m))"
  by (simp add: rdn_def)

lemma rdn_length: "rdn m i n = Some bs \<Longrightarrow> length bs = n"
  by (auto simp: rdn_def split: if_splits)

lemma wr8_length: "wr8 m i b = Some m' \<Longrightarrow> length m' = length m"
  by (auto simp: wr8_def split: if_splits)

lemma wrn_length: "wrn m i bs = Some m' \<Longrightarrow> length m' = length m"
  by (auto simp: wrn_def split: if_splits)

lemma wrn_bound: "wrn m i bs = Some m' \<Longrightarrow> i + length bs \<le> length m"
  by (auto simp: wrn_def split: if_splits)

lemma wr8_wrn: "wr8 m i b = wrn m i [b]"
  by (auto simp: wr8_def wrn_def upd_conv_take_nth_drop)

lemma wrn_nth:
  "wrn m i bs = Some m' \<Longrightarrow> k < length m \<Longrightarrow>
   m' ! k = (if i \<le> k \<and> k < i + length bs then bs ! (k - i) else m ! k)"
  by (auto simp: wrn_def nth_append min_def split: if_splits)

lemma wrn_append:
  "wrn m i (xs @ ys) = Option.bind (wrn m i xs) (\<lambda>m'. wrn m' (i + length xs) ys)"
  by (auto simp: wrn_def ac_simps)

lemma rdn_wrn_same: "wrn m i bs = Some m' \<Longrightarrow> rdn m' i (length bs) = Some bs"
  by (auto simp: wrn_def rdn_def split: if_splits)

lemma rdn_nth: "rdn m i n = Some bs \<Longrightarrow> k < n \<Longrightarrow> bs ! k = m ! (i + k)"
  by (auto simp: rdn_def split: if_splits)

lemma take_wrn: "wrn m i bs = Some m' \<Longrightarrow> take i m' = take i m"
  by (auto simp: wrn_def split: if_splits)

lemma drop_wrn: "wrn m i bs = Some m' \<Longrightarrow> i + length bs \<le> k \<Longrightarrow> drop k m' = drop k m"
  by (auto simp: wrn_def split: if_splits)

lemma rdn_wrn_before:
  "wrn m i bs = Some m' \<Longrightarrow> k + n \<le> i \<Longrightarrow> rdn m' k n = rdn m k n"
  by (auto simp: wrn_def rdn_def drop_append take_append drop_take split: if_splits)

lemma rdn_wrn_after:
  "wrn m i bs = Some m' \<Longrightarrow> i + length bs \<le> k \<Longrightarrow> rdn m' k n = rdn m k n"
  by (auto simp: rdn_def drop_wrn dest: wrn_length)

lemma rdn_wrn_take:
  "wrn m i bs = Some m' \<Longrightarrow> n \<le> length bs \<Longrightarrow> rdn m' i n = Some (take n bs)"
  by (auto simp: wrn_def rdn_def split: if_splits)

text \<open>Reads and writes at a signed offset, for pointer arithmetic in C ints: a negative offset or
  a negative length (a huge \<open>size_t\<close>) leaves every object.\<close>

definition rdz :: "bytes \<Rightarrow> int \<Rightarrow> int \<Rightarrow> bytes option" where
  "rdz m i n = (if 0 \<le> i \<and> 0 \<le> n then rdn m (nat i) (nat n) else None)"

definition wrz :: "bytes \<Rightarrow> int \<Rightarrow> bytes \<Rightarrow> bytes option" where
  "wrz m i bs = (if 0 \<le> i then wrn m (nat i) bs else None)"

lemma rdz_Some [mem_simps]:
  "0 \<le> i \<Longrightarrow> 0 \<le> n \<Longrightarrow> i + n \<le> int (length m) \<Longrightarrow>
   rdz m i n = Some (take (nat n) (drop (nat i) m))"
  by (simp add: rdz_def rdn_def nat_add_distrib [symmetric] nat_le_iff)

lemma wrz_Some [mem_simps]:
  "0 \<le> i \<Longrightarrow> i + int (length bs) \<le> int (length m) \<Longrightarrow>
   wrz m i bs = Some (take (nat i) m @ bs @ drop (nat i + length bs) m)"
  by (simp add: wrz_def wrn_def nat_le_iff)

lemma rdz_int [simp]: "rdz m (int i) (int n) = rdn m i n" "rdz m 0 (int n) = rdn m 0 n"
  by (simp_all add: rdz_def)

lemma wrz_int [simp]: "wrz m (int i) bs = wrn m i bs" "wrz m 0 bs = wrn m 0 bs"
  by (simp_all add: wrz_def)

lemma wrn_ok: "i + length bs \<le> length m \<Longrightarrow> \<exists>m'. wrn m i bs = Some m'"
  by (simp add: wrn_def)

lemma rdz_length: "rdz m i n = Some bs \<Longrightarrow> int (length bs) = n"
  by (auto simp: rdz_def dest: rdn_length split: if_splits)

lemma wrz_length: "wrz m i bs = Some m' \<Longrightarrow> length m' = length m"
  by (auto simp: wrz_def dest: wrn_length split: if_splits)

text \<open>A C int converted to \<open>size_t\<close> on an LP64 host, and a wider value converted to int.\<close>

definition to_size_t :: "int \<Rightarrow> nat" where
  "to_size_t n = nat (n mod 2 ^ 64)"

definition to_int :: "int \<Rightarrow> int" where
  "to_int n = (n + 2 ^ 31) mod 2 ^ 32 - 2 ^ 31"

lemma to_int_small: "- (2 ^ 31) \<le> n \<Longrightarrow> n < 2 ^ 31 \<Longrightarrow> to_int n = n"
  by (simp add: to_int_def)

lemma to_size_t_nat: "n < 2 ^ 64 \<Longrightarrow> to_size_t (int n) = n"
  by (simp add: to_size_t_def)

lemma to_int_nat: "n < 2 ^ 31 \<Longrightarrow> to_int (int n) = int n"
  by (simp add: to_int_small)

lemma to_size_t_nonneg: "0 \<le> n \<Longrightarrow> n < 2 ^ 64 \<Longrightarrow> to_size_t n = nat n"
  by (simp add: to_size_t_def)

section \<open>Arithmetic of circular indices\<close>

lemma mod_shift_neq: "i < j \<Longrightarrow> j < i + n \<Longrightarrow> (h + i) mod n \<noteq> (h + j) mod (n :: nat)"
proof
  assume ij: "i < j" and n: "j < i + n" and "(h + i) mod n = (h + j) mod n"
  then have "n dvd (h + j) - (h + i)"
    by (metis add_le_mono less_imp_le mod_eq_dvd_iff_nat order_refl)
  with ij n show False by (auto dest: dvd_imp_le)
qed

section \<open>Options\<close>

lemma bind_Some_iff: "Option.bind x f = Some y \<longleftrightarrow> (\<exists>z. x = Some z \<and> f z = Some y)"
  by (cases x) auto

end
