(* ===== verification/QueueC.thy ===== *)
theory QueueC
  imports Prelude
begin

text \<open>
  The bounded FIFO of \<open>tos/system/QueueC.nc\<close>, the building block of the AirTight MAC's
  packet buffers: a circular array with head, tail and size counters of eight bits. The
  contract its users rely on is the locale \<open>bounded_fifo\<close>; the model is an instance of it.
\<close>

section \<open>TinyOS error codes\<close>

datatype error_t = SUCCESS | FAIL | ESIZE | ECANCEL | EOFF | EBUSY | EINVAL | ERETRY
  | ERESERVE | EALREADY | ENOMEM | ENOACK | ETIMEOUT

section \<open>State and commands\<close>

text \<open>The module's variables; QUEUE_SIZE is the length of the array.\<close>

record 'a queue =
  q_queue :: "'a list"
  q_head :: u8
  q_tail :: u8
  q_size :: u8

definition Queue_init :: "u8 \<Rightarrow> 'a \<Rightarrow> 'a queue" where
  "Queue_init QUEUE_SIZE z =
     \<lparr>q_queue = replicate (unat QUEUE_SIZE) z, q_head = 0, q_tail = 0, q_size = 0\<rparr>"

definition Queue_empty :: "'a queue \<Rightarrow> bool" where
  "Queue_empty q \<longleftrightarrow> q_size q = 0"

definition Queue_full :: "u8 \<Rightarrow> 'a queue \<Rightarrow> bool" where
  "Queue_full QUEUE_SIZE q \<longleftrightarrow> QUEUE_SIZE \<le> q_size q"

definition Queue_size :: "'a queue \<Rightarrow> u8" where
  "Queue_size q = q_size q"

definition Queue_maxSize :: "u8 \<Rightarrow> 'a queue \<Rightarrow> u8" where
  "Queue_maxSize QUEUE_SIZE q = QUEUE_SIZE"

definition Queue_head :: "'a queue \<Rightarrow> 'a" where
  "Queue_head q = q_queue q ! unat (q_head q)"

definition Queue_dequeue :: "u8 \<Rightarrow> 'a queue \<Rightarrow> 'a \<times> 'a queue" where
  "Queue_dequeue QUEUE_SIZE q =
     (let t = Queue_head q in
      if \<not> Queue_empty q then
        let h = q_head q + 1;
            h' = (if h = QUEUE_SIZE then 0 else h)
        in (t, q\<lparr>q_head := h', q_size := q_size q - 1\<rparr>)
      else (t, q))"

definition Queue_enqueue :: "u8 \<Rightarrow> 'a queue \<Rightarrow> 'a \<Rightarrow> error_t \<times> 'a queue" where
  "Queue_enqueue QUEUE_SIZE q newVal =
     (if Queue_size q < Queue_maxSize QUEUE_SIZE q then
        let arr = (q_queue q)[unat (q_tail q) := newVal];
            t = q_tail q + 1;
            t' = (if t = QUEUE_SIZE then 0 else t)
        in (SUCCESS, q\<lparr>q_queue := arr, q_tail := t', q_size := q_size q + 1\<rparr>)
      else (FAIL, q))"

definition Queue_element :: "u8 \<Rightarrow> 'a queue \<Rightarrow> u8 \<Rightarrow> 'a" where
  "Queue_element QUEUE_SIZE q idx =
     (let i = idx + q_head q;
          j = (if QUEUE_SIZE \<le> i then i - QUEUE_SIZE else i)
      in q_queue q ! unat j)"


section \<open>The contract of a bounded FIFO\<close>

text \<open>Operations of a client, and what it observes: the status of an enqueue, the element
  a dequeue gives, None when the queue was empty.\<close>

datatype 'a fifo_op = Enq 'a | Deq

datatype 'a fifo_obs = Status error_t | Elem "'a option"

fun fifo_spec :: "nat \<Rightarrow> 'a list \<Rightarrow> 'a fifo_op list \<Rightarrow> 'a fifo_obs list" where
  "fifo_spec n xs [] = []"
| "fifo_spec n xs (Enq x # ops) =
     (if length xs < n then Status SUCCESS # fifo_spec n (xs @ [x]) ops
      else Status FAIL # fifo_spec n xs ops)"
| "fifo_spec n [] (Deq # ops) = Elem None # fifo_spec n [] ops"
| "fifo_spec n (x # xs) (Deq # ops) = Elem (Some x) # fifo_spec n xs ops"

fun fifo_run :: "('q \<Rightarrow> 'a \<Rightarrow> error_t \<times> 'q) \<Rightarrow> ('q \<Rightarrow> 'a \<times> 'q) \<Rightarrow> ('q \<Rightarrow> bool)
    \<Rightarrow> 'q \<Rightarrow> 'a fifo_op list \<Rightarrow> 'a fifo_obs list" where
  "fifo_run enq deq emp q [] = []"
| "fifo_run enq deq emp q (Enq x # ops) =
     Status (fst (enq q x)) # fifo_run enq deq emp (snd (enq q x)) ops"
| "fifo_run enq deq emp q (Deq # ops) =
     Elem (if emp q then None else Some (fst (deq q))) # fifo_run enq deq emp (snd (deq q)) ops"

locale bounded_fifo =
  fixes enq :: "'q \<Rightarrow> 'a \<Rightarrow> error_t \<times> 'q"
    and deq :: "'q \<Rightarrow> 'a \<times> 'q"
    and head :: "'q \<Rightarrow> 'a"
    and emp :: "'q \<Rightarrow> bool"
    and contents :: "'q \<Rightarrow> 'a list"
    and inv :: "'q \<Rightarrow> bool"
    and cap :: nat
  assumes cap_le: "inv q \<Longrightarrow> length (contents q) \<le> cap"
    and emp_iff: "inv q \<Longrightarrow> emp q \<longleftrightarrow> contents q = []"
    and inv_enq: "inv q \<Longrightarrow> inv (snd (enq q x))"
    and inv_deq: "inv q \<Longrightarrow> inv (snd (deq q))"
    and enq_room: "inv q \<Longrightarrow> length (contents q) < cap \<Longrightarrow>
      fst (enq q x) = SUCCESS \<and> contents (snd (enq q x)) = contents q @ [x]"
    and enq_full: "inv q \<Longrightarrow> length (contents q) = cap \<Longrightarrow> enq q x = (FAIL, q)"
    and head_hd: "inv q \<Longrightarrow> contents q \<noteq> [] \<Longrightarrow> head q = hd (contents q)"
    and deq_hd: "inv q \<Longrightarrow> contents q \<noteq> [] \<Longrightarrow> fst (deq q) = hd (contents q)"
    and deq_tl: "inv q \<Longrightarrow> contents (snd (deq q)) = tl (contents q)"
begin

lemma deq_Cons:
  "inv q \<Longrightarrow> contents q = x # xs \<Longrightarrow> fst (deq q) = x \<and> contents (snd (deq q)) = xs"
  using deq_hd [of q] deq_tl [of q] by simp

lemma run_spec: "inv q \<Longrightarrow> fifo_run enq deq emp q ops = fifo_spec cap (contents q) ops"
proof (induction ops arbitrary: q)
  case Nil
  then show ?case by simp
next
  case (Cons op ops)
  show ?case
  proof (cases op)
    case (Enq x)
    from Cons.prems have le: "length (contents q) \<le> cap" by (rule cap_le)
    show ?thesis
    proof (cases "length (contents q) < cap")
      case True
      with Enq Cons show ?thesis by (simp add: enq_room inv_enq)
    next
      case False
      with le have "length (contents q) = cap" by simp
      with Enq Cons show ?thesis by (simp add: enq_full)
    qed
  next
    case Deq
    with Cons show ?thesis
      by (cases "contents q") (simp_all add: emp_iff inv_deq deq_hd deq_tl)
  qed
qed

end

section \<open>QueueC is a bounded FIFO\<close>

definition queue_inv :: "u8 \<Rightarrow> 'a queue \<Rightarrow> bool" where
  "queue_inv N q \<longleftrightarrow>
     0 < unat N \<and> length (q_queue q) = unat N \<and> unat (q_head q) < unat N \<and>
     unat (q_size q) \<le> unat N \<and>
     unat (q_tail q) = (unat (q_head q) + unat (q_size q)) mod unat N"

definition q_contents :: "u8 \<Rightarrow> 'a queue \<Rightarrow> 'a list" where
  "q_contents N q =
     map (\<lambda>i. q_queue q ! ((unat (q_head q) + i) mod unat N)) [0..<unat (q_size q)]"

lemma unat_Suc_u8: "unat (x :: u8) < unat (y :: u8) \<Longrightarrow> unat (x + 1) = Suc (unat x)"
  by unat_arith

lemma wrap_index:
  fixes x N :: u8
  assumes "unat x < unat N"
  shows "unat (if x + 1 = N then 0 else x + 1) = Suc (unat x) mod unat N"
proof (cases "x + 1 = N")
  case True
  with unat_Suc_u8 [OF assms] show ?thesis by simp
next
  case False
  with unat_Suc_u8 [OF assms] have "Suc (unat x) \<noteq> unat N" by (metis unsigned_word_eqI)
  with False unat_Suc_u8 [OF assms] assms show ?thesis by simp
qed

lemma length_q_contents [simp]: "length (q_contents N q) = unat (q_size q)"
  by (simp add: q_contents_def)

lemma queue_inv_tail: "queue_inv N q \<Longrightarrow> unat (q_tail q) < unat N"
  by (simp add: queue_inv_def)

lemma queue_inv_init: "N \<noteq> 0 \<Longrightarrow> queue_inv N (Queue_init N z)"
  by (simp add: queue_inv_def Queue_init_def unat_gt_0)

lemma q_contents_init: "q_contents N (Queue_init N z) = []"
  by (simp add: q_contents_def Queue_init_def)

lemma Queue_enqueue_room:
  assumes inv: "queue_inv N q" and room: "unat (q_size q) < unat N"
  shows "fst (Queue_enqueue N q x) = SUCCESS"
    and "queue_inv N (snd (Queue_enqueue N q x))"
    and "q_contents N (snd (Queue_enqueue N q x)) = q_contents N q @ [x]"
proof -
  let ?n = "unat N" and ?h = "unat (q_head q)" and ?s = "unat (q_size q)"
  from room have lt: "q_size q < N" by (simp add: word_less_nat_alt)
  have tail: "unat (q_tail q) = (?h + ?s) mod ?n" using inv by (simp add: queue_inv_def)
  have wrap: "unat (if q_tail q + 1 = N then 0 else q_tail q + 1) = Suc (?h + ?s) mod ?n"
    using wrap_index [OF queue_inv_tail [OF inv]] by (simp add: tail mod_Suc_eq)
  have sz: "unat (q_size q + 1) = Suc ?s" using room by (rule unat_Suc_u8)
  show "fst (Queue_enqueue N q x) = SUCCESS"
    using lt by (simp add: Queue_enqueue_def Queue_size_def Queue_maxSize_def Let_def)
  show "queue_inv N (snd (Queue_enqueue N q x))"
    using inv lt wrap sz room
    by (simp add: queue_inv_def Queue_enqueue_def Queue_size_def Queue_maxSize_def Let_def)
  have ne: "(?h + i) mod ?n \<noteq> (?h + ?s) mod ?n" if "i < ?s" for i
    using that room by (intro mod_shift_neq) simp_all
  show "q_contents N (snd (Queue_enqueue N q x)) = q_contents N q @ [x]"
    using inv lt sz ne ne [symmetric]
    by (auto simp: q_contents_def Queue_enqueue_def Queue_size_def Queue_maxSize_def Let_def
        tail queue_inv_def)
qed


lemma Queue_enqueue_full:
  assumes "queue_inv N q" and "unat (q_size q) = unat N"
  shows "Queue_enqueue N q x = (FAIL, q)"
  using assms by (simp add: Queue_enqueue_def Queue_size_def Queue_maxSize_def word_less_nat_alt)

lemma Queue_dequeue_empty: "q_size q = 0 \<Longrightarrow> snd (Queue_dequeue N q) = q"
  by (simp add: Queue_dequeue_def Queue_empty_def Let_def)

lemma Queue_dequeue_nonempty:
  assumes inv: "queue_inv N q" and ne: "q_size q \<noteq> 0"
  shows "queue_inv N (snd (Queue_dequeue N q))"
    and "q_contents N (snd (Queue_dequeue N q)) = tl (q_contents N q)"
    and "fst (Queue_dequeue N q) = hd (q_contents N q)"
    and "Queue_head q = hd (q_contents N q)"
    and "unat (q_size (snd (Queue_dequeue N q))) < unat (q_size q)"
proof -
  let ?n = "unat N" and ?h = "unat (q_head q)" and ?s = "unat (q_size q)"
  from inv have h: "?h < ?n" by (simp add: queue_inv_def)
  note wrap = wrap_index [OF h]
  from ne have pos: "0 < ?s" by (simp add: unat_gt_0)
  have sz: "unat (q_size q - 1) = ?s - 1" using ne by (rule unat_minus_one)
  have shift: "(Suc ?h mod ?n + i) mod ?n = (?h + Suc i) mod ?n" for i
    by (simp add: mod_add_left_eq)
  have idx: "(Suc ?h mod ?n + (?s - 1)) mod ?n = (?h + ?s) mod ?n"
    using pos shift [of "?s - 1"] by simp
  have upt: "[0..<?s] = 0 # map Suc [0..<?s - 1]"
    using pos by (simp add: map_Suc_upt upt_conv_Cons)
  show "queue_inv N (snd (Queue_dequeue N q))"
    using inv ne h idx
    by (auto simp: queue_inv_def Queue_dequeue_def Queue_empty_def Let_def wrap sz)
  show hd: "Queue_head q = hd (q_contents N q)"
    using pos h by (simp add: q_contents_def Queue_head_def hd_map upt_conv_Cons)
  then show "fst (Queue_dequeue N q) = hd (q_contents N q)"
    by (simp add: Queue_dequeue_def Let_def)
  show "q_contents N (snd (Queue_dequeue N q)) = tl (q_contents N q)"
    using ne shift upt
    by (simp add: q_contents_def Queue_dequeue_def Queue_empty_def Let_def wrap sz comp_def)
  show "unat (q_size (snd (Queue_dequeue N q))) < ?s"
    using ne pos by (simp add: Queue_dequeue_def Queue_empty_def Let_def sz)
qed

lemma Queue_empty_iff: "Queue_empty q \<longleftrightarrow> q_contents N q = []"
  by (simp add: Queue_empty_def q_contents_def unat_eq_zero)

interpretation queuec: bounded_fifo
  "Queue_enqueue N" "Queue_dequeue N" Queue_head Queue_empty "q_contents N" "queue_inv N" "unat N"
  for N :: u8
proof unfold_locales
  fix q :: "'a queue" and x :: 'a
  assume inv: "queue_inv N q"
  show "length (q_contents N q) \<le> unat N" using inv by (simp add: queue_inv_def)
  show "Queue_empty q \<longleftrightarrow> q_contents N q = []" by (rule Queue_empty_iff)
  show "queue_inv N (snd (Queue_enqueue N q x))"
    using inv Queue_enqueue_room(2) [OF inv] Queue_enqueue_full [OF inv]
    by (cases "unat (q_size q) < unat N") (auto simp: queue_inv_def)
  show "queue_inv N (snd (Queue_dequeue N q))"
    using inv by (cases "q_size q = 0") (simp_all add: Queue_dequeue_empty Queue_dequeue_nonempty)
  show "q_contents N (snd (Queue_dequeue N q)) = tl (q_contents N q)"
    using inv Queue_empty_iff [of q N] by (cases "q_size q = 0")
      (simp_all add: Queue_dequeue_empty Queue_dequeue_nonempty Queue_empty_def)
  show "fst (Queue_enqueue N q x) = SUCCESS \<and>
      q_contents N (snd (Queue_enqueue N q x)) = q_contents N q @ [x]"
    if "length (q_contents N q) < unat N"
    using Queue_enqueue_room [OF inv] that by simp
  show "Queue_enqueue N q x = (FAIL, q)" if "length (q_contents N q) = unat N"
    using Queue_enqueue_full [OF inv] that by simp
  assume "q_contents N q \<noteq> []"
  then have ne: "q_size q \<noteq> 0" using Queue_empty_iff [of q N] by (simp add: Queue_empty_def)
  show "Queue_head q = hd (q_contents N q)" by (rule Queue_dequeue_nonempty(4) [OF inv ne])
  show "fst (Queue_dequeue N q) = hd (q_contents N q)"
    by (rule Queue_dequeue_nonempty(3) [OF inv ne])
qed

text \<open>The element command addresses the buffer from its head: the i-th element of the queue.\<close>

lemma Queue_element_contents:
  assumes inv: "queue_inv N q" and i: "unat i < unat (q_size q)" and N: "unat N \<le> 128"
  shows "Queue_element N q i = q_contents N q ! unat i"
proof -
  let ?n = "unat N" and ?h = "unat (q_head q)"
  from inv have h: "?h < ?n" and s: "unat (q_size q) \<le> ?n" by (simp_all add: queue_inv_def)
  with i N have add: "unat (i + q_head q) = unat i + ?h"
    by (simp add: unat_word_ariths)
  have "unat (if N \<le> i + q_head q then i + q_head q - N else i + q_head q) = (?h + unat i) mod ?n"
  proof (cases "?n \<le> unat i + ?h")
    case True
    then have le: "N \<le> i + q_head q" using add by (simp add: word_le_nat_alt)
    then have "unat (i + q_head q - N) = unat i + ?h - ?n"
      using add by (simp add: unat_sub)
    with le True i s h show ?thesis
      by (simp add: add.commute [of ?h] le_mod_geq)
  next
    case False
    then show ?thesis using add by (simp add: word_le_nat_alt add.commute)
  qed
  then show ?thesis using i by (simp add: Queue_element_def Let_def q_contents_def)
qed

end
