(* ===== verification/PrioCritQueue.thy ===== *)
theory PrioCritQueue
  imports QueueC
begin

text \<open>
  The AirTight MAC's packet buffer, \<open>apps/MCCTable/PrioCritQueueP.nc\<close>: three bounded FIFOs,
  one per priority level (1 is served first), each of HI or LO criticality. The wiring of
  \<open>PrioCritQueueC.nc\<close> makes each of the three a \<open>QueueC\<close> of QUEUE_SIZE elements.
\<close>

section \<open>Parameters and state\<close>

record pcq_params =
  QUEUE_SIZE :: u8
  hiCrit1 :: u8
  hiCrit2 :: u8
  hiCrit3 :: u8

record 'a pcq =
  prio1Queue :: "'a queue"
  prio2Queue :: "'a queue"
  prio3Queue :: "'a queue"
  null_elt :: 'a

definition QUEUE_COUNT :: u8 where
  "QUEUE_COUNT = 3"

definition PCQ_init :: "pcq_params \<Rightarrow> 'a \<Rightarrow> 'a pcq" where
  "PCQ_init c z =
     \<lparr>prio1Queue = Queue_init (QUEUE_SIZE c) z, prio2Queue = Queue_init (QUEUE_SIZE c) z,
      prio3Queue = Queue_init (QUEUE_SIZE c) z, null_elt = z\<rparr>"

section \<open>Commands\<close>

definition PCQ_empty :: "'a pcq \<Rightarrow> bool" where
  "PCQ_empty q \<longleftrightarrow>
     Queue_empty (prio1Queue q) \<and> Queue_empty (prio2Queue q) \<and> Queue_empty (prio3Queue q)"

definition PCQ_full :: "pcq_params \<Rightarrow> 'a pcq \<Rightarrow> bool" where
  "PCQ_full c q \<longleftrightarrow>
     Queue_full (QUEUE_SIZE c) (prio1Queue q) \<or> Queue_full (QUEUE_SIZE c) (prio2Queue q) \<or>
     Queue_full (QUEUE_SIZE c) (prio3Queue q)"

definition PCQ_size :: "'a pcq \<Rightarrow> u8" where
  "PCQ_size q = Queue_size (prio1Queue q) + Queue_size (prio2Queue q) + Queue_size (prio3Queue q)"

definition PCQ_maxSize :: "pcq_params \<Rightarrow> u8" where
  "PCQ_maxSize c = QUEUE_SIZE c * QUEUE_COUNT"

definition PCQ_head :: "'a pcq \<Rightarrow> 'a \<times> error_t" where
  "PCQ_head q =
     (if \<not> Queue_empty (prio1Queue q) then (Queue_head (prio1Queue q), SUCCESS)
      else if \<not> Queue_empty (prio2Queue q) then (Queue_head (prio2Queue q), SUCCESS)
      else if \<not> Queue_empty (prio3Queue q) then (Queue_head (prio3Queue q), SUCCESS)
      else (null_elt q, FAIL))"

definition PCQ_headHI :: "pcq_params \<Rightarrow> 'a pcq \<Rightarrow> 'a \<times> error_t" where
  "PCQ_headHI c q =
     (if hiCrit1 c \<noteq> 0 \<and> \<not> Queue_empty (prio1Queue q) then (Queue_head (prio1Queue q), SUCCESS)
      else if hiCrit2 c \<noteq> 0 \<and> \<not> Queue_empty (prio2Queue q)
        then (Queue_head (prio2Queue q), SUCCESS)
      else if hiCrit3 c \<noteq> 0 \<and> \<not> Queue_empty (prio3Queue q)
        then (Queue_head (prio3Queue q), SUCCESS)
      else (null_elt q, FAIL))"

text \<open>A dequeue of one of the three queues, as the nesC call through its interface does it.\<close>

definition deq1 :: "pcq_params \<Rightarrow> 'a pcq \<Rightarrow> 'a \<times> 'a pcq" where
  "deq1 c q = (let (t, r) = Queue_dequeue (QUEUE_SIZE c) (prio1Queue q)
               in (t, q\<lparr>prio1Queue := r\<rparr>))"

definition deq2 :: "pcq_params \<Rightarrow> 'a pcq \<Rightarrow> 'a \<times> 'a pcq" where
  "deq2 c q = (let (t, r) = Queue_dequeue (QUEUE_SIZE c) (prio2Queue q)
               in (t, q\<lparr>prio2Queue := r\<rparr>))"

definition deq3 :: "pcq_params \<Rightarrow> 'a pcq \<Rightarrow> 'a \<times> 'a pcq" where
  "deq3 c q = (let (t, r) = Queue_dequeue (QUEUE_SIZE c) (prio3Queue q)
               in (t, q\<lparr>prio3Queue := r\<rparr>))"

definition PCQ_dequeue :: "pcq_params \<Rightarrow> 'a pcq \<Rightarrow> 'a \<times> 'a pcq" where
  "PCQ_dequeue c q =
     (if \<not> Queue_empty (prio1Queue q) then deq1 c q
      else if \<not> Queue_empty (prio2Queue q) then deq2 c q
      else if \<not> Queue_empty (prio3Queue q) then deq3 c q
      else (null_elt q, q))"

definition PCQ_dequeueHI :: "pcq_params \<Rightarrow> 'a pcq \<Rightarrow> 'a \<times> 'a pcq" where
  "PCQ_dequeueHI c q =
     (if hiCrit1 c \<noteq> 0 \<and> \<not> Queue_empty (prio1Queue q) then deq1 c q
      else if hiCrit2 c \<noteq> 0 \<and> \<not> Queue_empty (prio2Queue q) then deq2 c q
      else if hiCrit3 c \<noteq> 0 \<and> \<not> Queue_empty (prio3Queue q) then deq3 c q
      else (null_elt q, q))"

definition PCQ_enqueue :: "pcq_params \<Rightarrow> 'a pcq \<Rightarrow> 'a \<Rightarrow> u8 \<Rightarrow> error_t \<times> 'a pcq" where
  "PCQ_enqueue c q newVal prio =
     (if prio = 1 then
        let (e, r) = Queue_enqueue (QUEUE_SIZE c) (prio1Queue q) newVal
        in (e, q\<lparr>prio1Queue := r\<rparr>)
      else if prio = 2 then
        let (e, r) = Queue_enqueue (QUEUE_SIZE c) (prio2Queue q) newVal
        in (e, q\<lparr>prio2Queue := r\<rparr>)
      else if prio = 3 then
        let (e, r) = Queue_enqueue (QUEUE_SIZE c) (prio3Queue q) newVal
        in (e, q\<lparr>prio3Queue := r\<rparr>)
      else (FAIL, q))"

definition PCQ_dequeuePrio :: "pcq_params \<Rightarrow> 'a pcq \<Rightarrow> u8 \<Rightarrow> 'a \<times> 'a pcq" where
  "PCQ_dequeuePrio c q prio =
     (if prio = 1 then deq1 c q else if prio = 2 then deq2 c q
      else if prio = 3 then deq3 c q else (null_elt q, q))"

definition PCQ_headPrio :: "'a pcq \<Rightarrow> u8 \<Rightarrow> 'a" where
  "PCQ_headPrio q prio =
     (if prio = 1 then Queue_head (prio1Queue q) else if prio = 2 then Queue_head (prio2Queue q)
      else if prio = 3 then Queue_head (prio3Queue q) else null_elt q)"

definition PCQ_sizePrio :: "'a pcq \<Rightarrow> u8 \<Rightarrow> u8" where
  "PCQ_sizePrio q prio =
     (if prio = 1 then Queue_size (prio1Queue q) else if prio = 2 then Queue_size (prio2Queue q)
      else if prio = 3 then Queue_size (prio3Queue q) else 0)"

text \<open>The loop \<open>while (size() > 0) dequeue();\<close> of the two clearing commands.\<close>

function drain :: "u8 \<Rightarrow> 'a queue \<Rightarrow> 'a queue" where
  "drain N q = (if 0 < Queue_size q then drain N (snd (Queue_dequeue N q)) else q)"
  by pat_completeness auto
termination
proof (relation "measure (\<lambda>(N, q). unat (q_size q))")
  fix N :: u8 and q :: "'a queue"
  assume "0 < Queue_size q"
  then have "q_size q \<noteq> 0" by (simp add: Queue_size_def word_gt_0)
  then have "unat (q_size q - 1) < unat (q_size q)"
    by (simp add: unat_minus_one unat_gt_0)
  with \<open>q_size q \<noteq> 0\<close>
  show "((N, snd (Queue_dequeue N q)), (N, q)) \<in> measure (\<lambda>(N, q). unat (q_size q))"
    by (simp add: Queue_dequeue_def Queue_empty_def Let_def)
qed simp

declare drain.simps [simp del]

definition PCQ_clear :: "pcq_params \<Rightarrow> 'a pcq \<Rightarrow> 'a pcq" where
  "PCQ_clear c q =
     (let q1 = q\<lparr>prio1Queue := drain (QUEUE_SIZE c) (prio1Queue q)\<rparr>;
          q2 = q1\<lparr>prio2Queue := drain (QUEUE_SIZE c) (prio2Queue q1)\<rparr>
      in q2\<lparr>prio3Queue := drain (QUEUE_SIZE c) (prio3Queue q2)\<rparr>)"

definition PCQ_clearLO :: "pcq_params \<Rightarrow> 'a pcq \<Rightarrow> 'a pcq" where
  "PCQ_clearLO c q =
     (let q1 = (if hiCrit1 c = 0
                then q\<lparr>prio1Queue := drain (QUEUE_SIZE c) (prio1Queue q)\<rparr> else q);
          q2 = (if hiCrit2 c = 0
                then q1\<lparr>prio2Queue := drain (QUEUE_SIZE c) (prio2Queue q1)\<rparr> else q1)
      in (if hiCrit3 c = 0
          then q2\<lparr>prio3Queue := drain (QUEUE_SIZE c) (prio3Queue q2)\<rparr> else q2))"

definition PCQ_sizeHI :: "pcq_params \<Rightarrow> 'a pcq \<Rightarrow> u8" where
  "PCQ_sizeHI c q =
     (let s0 = 0;
          s1 = (if hiCrit1 c \<noteq> 0 then s0 + Queue_size (prio1Queue q) else s0);
          s2 = (if hiCrit2 c \<noteq> 0 then s1 + Queue_size (prio2Queue q) else s1)
      in (if hiCrit3 c \<noteq> 0 then s2 + Queue_size (prio3Queue q) else s2))"

definition PCQ_sizeLO :: "pcq_params \<Rightarrow> 'a pcq \<Rightarrow> u8" where
  "PCQ_sizeLO c q =
     (let s0 = 0;
          s1 = (if hiCrit1 c = 0 then s0 + Queue_size (prio1Queue q) else s0);
          s2 = (if hiCrit2 c = 0 then s1 + Queue_size (prio2Queue q) else s1)
      in (if hiCrit3 c = 0 then s2 + Queue_size (prio3Queue q) else s2))"

definition PCQ_sizeLO_Q1 :: "pcq_params \<Rightarrow> 'a pcq \<Rightarrow> u8" where
  "PCQ_sizeLO_Q1 c q = (if hiCrit1 c = 0 then Queue_size (prio1Queue q) else 0)"

definition PCQ_sizeLO_Q2 :: "pcq_params \<Rightarrow> 'a pcq \<Rightarrow> u8" where
  "PCQ_sizeLO_Q2 c q = (if hiCrit2 c = 0 then Queue_size (prio2Queue q) else 0)"

definition PCQ_sizeLO_Q3 :: "pcq_params \<Rightarrow> 'a pcq \<Rightarrow> u8" where
  "PCQ_sizeLO_Q3 c q = (if hiCrit3 c = 0 then Queue_size (prio3Queue q) else 0)"

section \<open>Invariant and abstraction\<close>

definition pcq_inv :: "pcq_params \<Rightarrow> 'a pcq \<Rightarrow> bool" where
  "pcq_inv c q \<longleftrightarrow>
     queue_inv (QUEUE_SIZE c) (prio1Queue q) \<and> queue_inv (QUEUE_SIZE c) (prio2Queue q) \<and>
     queue_inv (QUEUE_SIZE c) (prio3Queue q)"

text \<open>The three levels as lists, and the order in which they are served.\<close>

abbreviation con1 :: "pcq_params \<Rightarrow> 'a pcq \<Rightarrow> 'a list" where
  "con1 c q \<equiv> q_contents (QUEUE_SIZE c) (prio1Queue q)"
abbreviation con2 :: "pcq_params \<Rightarrow> 'a pcq \<Rightarrow> 'a list" where
  "con2 c q \<equiv> q_contents (QUEUE_SIZE c) (prio2Queue q)"
abbreviation con3 :: "pcq_params \<Rightarrow> 'a pcq \<Rightarrow> 'a list" where
  "con3 c q \<equiv> q_contents (QUEUE_SIZE c) (prio3Queue q)"

definition pcq_contents :: "pcq_params \<Rightarrow> 'a pcq \<Rightarrow> 'a list" where
  "pcq_contents c q = con1 c q @ con2 c q @ con3 c q"

definition pcq_hi_contents :: "pcq_params \<Rightarrow> 'a pcq \<Rightarrow> 'a list" where
  "pcq_hi_contents c q =
     (if hiCrit1 c \<noteq> 0 then con1 c q else []) @ (if hiCrit2 c \<noteq> 0 then con2 c q else []) @
     (if hiCrit3 c \<noteq> 0 then con3 c q else [])"


lemma queue_inv_size_le: "queue_inv N q \<Longrightarrow> unat (q_size q) \<le> unat N"
  by (simp add: queue_inv_def)

lemma pcq_inv_init: "QUEUE_SIZE c \<noteq> 0 \<Longrightarrow> pcq_inv c (PCQ_init c z)"
  by (simp add: pcq_inv_def PCQ_init_def queue_inv_init)

lemma pcq_contents_init: "pcq_contents c (PCQ_init c z) = []"
  by (simp add: pcq_contents_def PCQ_init_def q_contents_init)

lemma drain_inv: "queue_inv N q \<Longrightarrow> queue_inv N (drain N q)"
proof (induction N q rule: drain.induct)
  case (1 N q)
  then show ?case
    by (cases "0 < Queue_size q") (simp_all add: drain.simps [of N q] queuec.inv_deq)
qed

lemma drain_size: "q_size (drain N q) = 0"
proof (induction N q rule: drain.induct)
  case (1 N q)
  then show ?case
    by (cases "0 < Queue_size q")
      (simp_all add: drain.simps [of N q] Queue_size_def word_gt_0)
qed

lemma drain_contents [simp]: "q_contents N (drain N q) = []"
  by (simp add: q_contents_def drain_size)

lemma drain_empty: "q_size q = 0 \<Longrightarrow> drain N q = q"
  by (simp add: drain.simps [of N q] Queue_size_def)

lemmas pcq_cmds = deq1_def deq2_def deq3_def PCQ_dequeue_def PCQ_dequeueHI_def
  PCQ_enqueue_def PCQ_dequeuePrio_def PCQ_clear_def PCQ_clearLO_def Let_def case_prod_beta

lemma pcq_inv_dequeue: "pcq_inv c q \<Longrightarrow> pcq_inv c (snd (PCQ_dequeue c q))"
  by (simp add: pcq_inv_def pcq_cmds queuec.inv_deq)

lemma pcq_inv_dequeueHI: "pcq_inv c q \<Longrightarrow> pcq_inv c (snd (PCQ_dequeueHI c q))"
  by (simp add: pcq_inv_def pcq_cmds queuec.inv_deq)

lemma pcq_inv_dequeuePrio: "pcq_inv c q \<Longrightarrow> pcq_inv c (snd (PCQ_dequeuePrio c q prio))"
  by (simp add: pcq_inv_def pcq_cmds queuec.inv_deq)

lemma pcq_inv_enqueue: "pcq_inv c q \<Longrightarrow> pcq_inv c (snd (PCQ_enqueue c q x prio))"
  by (simp add: pcq_inv_def pcq_cmds queuec.inv_enq)

lemma pcq_inv_clear: "pcq_inv c q \<Longrightarrow> pcq_inv c (PCQ_clear c q)"
  by (simp add: pcq_inv_def pcq_cmds drain_inv)

lemma pcq_inv_clearLO: "pcq_inv c q \<Longrightarrow> pcq_inv c (PCQ_clearLO c q)"
  by (simp add: pcq_inv_def pcq_cmds drain_inv)

section \<open>Service order\<close>

lemma pcq_level_head:
  assumes "pcq_inv c q"
  shows "Queue_empty (prio1Queue q) \<longleftrightarrow> con1 c q = []"
    and "Queue_empty (prio2Queue q) \<longleftrightarrow> con2 c q = []"
    and "Queue_empty (prio3Queue q) \<longleftrightarrow> con3 c q = []"
    and "con1 c q = x # xs \<Longrightarrow> Queue_head (prio1Queue q) = x"
    and "con2 c q = x # xs \<Longrightarrow> Queue_head (prio2Queue q) = x"
    and "con3 c q = x # xs \<Longrightarrow> Queue_head (prio3Queue q) = x"
  using assms
    queuec.head_hd [of "QUEUE_SIZE c" "prio1Queue q"]
    queuec.head_hd [of "QUEUE_SIZE c" "prio2Queue q"]
    queuec.head_hd [of "QUEUE_SIZE c" "prio3Queue q"]
  by (simp_all add: pcq_inv_def queuec.emp_iff)

lemma PCQ_head_spec:
  assumes "pcq_inv c q"
  shows "PCQ_head q =
    (case pcq_contents c q of [] \<Rightarrow> (null_elt q, FAIL) | x # _ \<Rightarrow> (x, SUCCESS))"
  by (cases "con1 c q"; cases "con2 c q"; cases "con3 c q")
    (simp_all add: PCQ_head_def pcq_contents_def pcq_level_head [OF assms])

lemma PCQ_headHI_spec:
  assumes "pcq_inv c q"
  shows "PCQ_headHI c q =
    (case pcq_hi_contents c q of [] \<Rightarrow> (null_elt q, FAIL) | x # _ \<Rightarrow> (x, SUCCESS))"
  by (cases "con1 c q"; cases "con2 c q"; cases "con3 c q")
    (simp_all add: PCQ_headHI_def pcq_hi_contents_def pcq_level_head [OF assms])

lemma PCQ_dequeue_contents:
  assumes "pcq_inv c q"
  shows "pcq_contents c (snd (PCQ_dequeue c q)) = tl (pcq_contents c q)"
  using assms
  by (simp add: pcq_cmds pcq_contents_def pcq_level_head [OF assms])
    (simp add: pcq_inv_def queuec.deq_tl)

lemma PCQ_dequeue_fst:
  assumes "pcq_inv c q"
  shows "fst (PCQ_dequeue c q) = fst (PCQ_head q)"
  using assms
  by (simp add: pcq_cmds PCQ_head_def Queue_dequeue_def Queue_empty_def)

lemma PCQ_head_FAIL_empty:
  "snd (PCQ_head q) = FAIL \<longleftrightarrow> PCQ_empty q"
  by (simp add: PCQ_head_def PCQ_empty_def)

lemma PCQ_empty_size: "PCQ_empty q \<Longrightarrow> PCQ_size q = 0"
  by (simp add: PCQ_empty_def PCQ_size_def Queue_empty_def Queue_size_def)

lemma PCQ_size_contents:
  assumes "pcq_inv c q" and "3 * unat (QUEUE_SIZE c) < 256"
  shows "unat (PCQ_size q) = length (pcq_contents c q)"
proof -
  have "unat (q_size (prio1Queue q)) + unat (q_size (prio2Queue q))
      + unat (q_size (prio3Queue q)) < 256"
    using assms by (auto simp: pcq_inv_def dest!: queue_inv_size_le)
  then show ?thesis
    by (simp add: PCQ_size_def Queue_size_def pcq_contents_def unat_word_ariths)
qed

lemma PCQ_sizeHI_LO: "PCQ_sizeHI c q + PCQ_sizeLO c q = PCQ_size q"
  by (simp add: PCQ_sizeHI_def PCQ_sizeLO_def PCQ_size_def)

lemma PCQ_sizeLO_sum:
  "PCQ_sizeLO c q = PCQ_sizeLO_Q1 c q + PCQ_sizeLO_Q2 c q + PCQ_sizeLO_Q3 c q"
  by (simp add: PCQ_sizeLO_def PCQ_sizeLO_Q1_def PCQ_sizeLO_Q2_def PCQ_sizeLO_Q3_def Let_def)

lemma PCQ_clear_contents: "pcq_contents c (PCQ_clear c q) = []"
  by (simp add: pcq_contents_def pcq_cmds)

lemma PCQ_clear_empty: "PCQ_empty (PCQ_clear c q)"
  by (simp add: PCQ_empty_def pcq_cmds Queue_empty_def drain_size)

lemma PCQ_clearLO_contents: "pcq_contents c (PCQ_clearLO c q) = pcq_hi_contents c q"
  by (simp add: pcq_contents_def pcq_hi_contents_def pcq_cmds)

lemma PCQ_clearLO_hi: "pcq_hi_contents c (PCQ_clearLO c q) = pcq_hi_contents c q"
  by (simp add: pcq_hi_contents_def pcq_cmds)

text \<open>The list of one priority level, and what the commands do to it.\<close>

definition pcq_level :: "pcq_params \<Rightarrow> 'a pcq \<Rightarrow> u8 \<Rightarrow> 'a list" where
  "pcq_level c q prio =
     (if prio = 1 then con1 c q else if prio = 2 then con2 c q
      else if prio = 3 then con3 c q else [])"

lemma PCQ_enqueue_level:
  assumes "pcq_inv c q" and "prio \<in> {1, 2, 3}"
    and "length (pcq_level c q prio) < unat (QUEUE_SIZE c)"
  shows "fst (PCQ_enqueue c q x prio) = SUCCESS"
    and "pcq_level c (snd (PCQ_enqueue c q x prio)) p =
      (if p = prio then pcq_level c q prio @ [x] else pcq_level c q p)"
  using assms
  by (auto simp: pcq_level_def pcq_cmds pcq_inv_def queuec.enq_room split: if_splits)

lemma PCQ_enqueue_level_full:
  assumes "pcq_inv c q" and "prio \<in> {1, 2, 3}"
    and "length (pcq_level c q prio) = unat (QUEUE_SIZE c)"
  shows "PCQ_enqueue c q x prio = (FAIL, q)"
  using assms
  by (auto simp: pcq_level_def pcq_cmds pcq_inv_def queuec.enq_full split: if_splits)

lemma PCQ_dequeuePrio_level:
  assumes "pcq_inv c q"
  shows "pcq_level c (snd (PCQ_dequeuePrio c q prio)) p =
    (if p = prio then tl (pcq_level c q prio) else pcq_level c q p)"
  using assms by (auto simp: pcq_level_def pcq_cmds pcq_inv_def queuec.deq_tl)

lemma PCQ_sizePrio_level:
  "pcq_inv c q \<Longrightarrow> unat (PCQ_sizePrio q prio) = length (pcq_level c q prio)"
  by (simp add: PCQ_sizePrio_def pcq_level_def Queue_size_def)

end
