(* ===== verification/TdmaMac.thy ===== *)
theory TdmaMac
  imports PrioCritQueue
begin

text \<open>
  The AirTight mixed-criticality TDMA MAC, \<open>apps/MCCTable/TdmaMacP.nc\<close>, with its packet
  format \<open>MCCPackets.h\<close>. One definition per nesC command, event or function; each handler
  maps the module's variables to their new values and appends the calls it makes to other
  components to the log \<open>m_out\<close>. What those components answer (the local time, the result of
  a send, whether a packet was acknowledged) is an argument. Packets queued for transmission
  live in \<open>forwardPktBuffer\<close> and the priority queue holds pointers into it, as in the code.
\<close>

section \<open>Packets and slot table (MCCPackets.h)\<close>

datatype crit = LO | HI

datatype action = A_IDLE | A_TX | A_LISTEN

record mccpacket =
  mp_crit_level :: crit
  mp_flow_id :: u8
  mp_priority :: u8
  mp_c :: u8
  mp_src :: u8
  mp_dst :: u8
  mp_hop_src :: u8
  mp_hop_dst :: u8
  mp_seq_num :: u8
  mp_local_retransmits :: u8
  mp_enqueueSlot :: u16
  mp_hopSendSlot :: u16
  mp_burst_num :: u8
  mp_inject_time :: u32
  mp_send_time :: u32
  mp_failed_ack_stats :: u8
  mp_data :: "u8 list"

record mccrecord =
  rr_seq_num :: u16
  rr_flow_id :: u8

record mccsend_record =
  sr_seq_num :: u16
  sr_flow_id :: u8
  sr_inject_time :: u32
  sr_send_time :: u32

record notification =
  nt_rootId :: u16
  nt_faultActivity :: u8
  nt_sinkSlot :: u16

definition zero_pkt :: mccpacket where
  "zero_pkt =
     \<lparr>mp_crit_level = LO, mp_flow_id = 0, mp_priority = 0, mp_c = 0, mp_src = 0, mp_dst = 0,
      mp_hop_src = 0, mp_hop_dst = 0, mp_seq_num = 0, mp_local_retransmits = 0,
      mp_enqueueSlot = 0, mp_hopSendSlot = 0, mp_burst_num = 0, mp_inject_time = 0,
      mp_send_time = 0, mp_failed_ack_stats = 0, mp_data = [0, 0, 0]\<rparr>"

section \<open>Constants\<close>

definition MCCBUF_DEPTH_PER_PRIO :: nat where "MCCBUF_DEPTH_PER_PRIO = 20"
definition MCCBUF_PRIOS :: nat where "MCCBUF_PRIOS = 3"
definition SLOT_LENGTH_MILLIS :: u16 where "SLOT_LENGTH_MILLIS = 100"
definition SLOTS_IN_FRAME :: u8 where "SLOTS_IN_FRAME = 6"
definition MAX_C_COUNT :: u8 where "MAX_C_COUNT = 3"
definition CRIT_CHANGE_THRESHOLD :: u8 where "CRIT_CHANGE_THRESHOLD = 2"
definition MCC_HI_CRIT_RT_LIMIT :: u8 where "MCC_HI_CRIT_RT_LIMIT = 4"
definition MCC_LO_CRIT_RT_LIMIT :: u8 where "MCC_LO_CRIT_RT_LIMIT = 2"
definition MIN_PRIO :: u8 where "MIN_PRIO = 1"
definition MAX_PRIO :: u8 where "MAX_PRIO = 3"
definition MAX_SLOTS :: nat where "MAX_SLOTS = 10"
definition MAX_NODES :: nat where "MAX_NODES = 5"
definition RECEPTION_HISTORY_STORAGE :: nat where "RECEPTION_HISTORY_STORAGE = 50"
definition SENDING_HISTORY_STORAGE :: nat where "SENDING_HISTORY_STORAGE = 50"
definition FAULT_PERIOD_INTERVAL_SLOTS :: u16 where "FAULT_PERIOD_INTERVAL_SLOTS = 100"
definition SINK_SLOT_FAULT_OFFSET :: u16 where "SINK_SLOT_FAULT_OFFSET = 15"
definition FAULT_LENGTH_SLOTS :: u8 where "FAULT_LENGTH_SLOTS = 15"
definition SINK_NODE_ID :: u16 where "SINK_NODE_ID = 0"
definition AM_BROADCAST_ADDR :: u16 where "AM_BROADCAST_ADDR = 0xFFFF"

lemmas mac_consts = MCCBUF_DEPTH_PER_PRIO_def MCCBUF_PRIOS_def SLOT_LENGTH_MILLIS_def
  SLOTS_IN_FRAME_def MAX_C_COUNT_def CRIT_CHANGE_THRESHOLD_def MCC_HI_CRIT_RT_LIMIT_def
  MCC_LO_CRIT_RT_LIMIT_def MIN_PRIO_def MAX_PRIO_def MAX_SLOTS_def MAX_NODES_def
  RECEPTION_HISTORY_STORAGE_def SENDING_HISTORY_STORAGE_def FAULT_PERIOD_INTERVAL_SLOTS_def
  SINK_SLOT_FAULT_OFFSET_def FAULT_LENGTH_SLOTS_def SINK_NODE_ID_def AM_BROADCAST_ADDR_def

section \<open>State\<close>

text \<open>The calls the module makes to the components it uses, and the events it signals.\<close>

datatype mac_event =
    FaultTimerStart u32 | LedsSet u8 | PrintfFlush | RadioStart | RadioStop | SlotterStop
  | SlotterSync u8 | SetSlotLength u32 | SetFrameLength u8
  | RequestAck mccpacket | DataSend u8 mccpacket | DataCancel | NotificationSend u16 notification
  | SigStartDone error_t | SigSendDone error_t | SigReceive mccpacket

text \<open>Deployment: the node's address, the queue's parameters and the compile-time switch
  \<open>USE_FAULTS\<close> (left undefined in the source).\<close>

record mac_params =
  TOS_NODE_ID :: u16
  queue_params :: pcq_params
  USE_FAULTS :: bool

record mac =
  m_init :: bool
  m_requestStop :: bool
  m_radioOff :: bool
  m_phyLock :: bool
  m_prevSlot :: u8
  m_activeFault :: bool
  m_hiCritMode :: bool
  m_tableNotSetup :: bool
  m_inSync :: u8
  m_discarded :: "u8 list"
  m_localSlot :: u16
  m_node_ack_fails :: u8
  m_max_node_ack_fails :: u8
  m_mccSchedTable :: "action list"
  m_forwardPktBuffer :: "mccpacket list"
  m_receptionHistory :: "mccrecord list"
  m_sentHistory :: "mccsend_record list"
  m_selfDataPkt :: mccpacket
  m_selfNotificationPkt :: notification
  m_slotterInit :: bool
  m_slotSize :: u32
  m_currentSlot :: u8
  m_superFrameLength :: u8
  m_currFrameSize :: u8
  m_sequenceCount :: u16
  m_nbReceivedPkts :: "u16 list"
  m_src :: u16
  m_i :: u8
  m_forwardQueue :: "nat option pcq"
  m_out :: "mac_event list"

text \<open>The state before boot: static variables are zero but for their initialisers.\<close>

definition mac_static :: "mac_params \<Rightarrow> mac" where
  "mac_static p =
     \<lparr>m_init = False, m_requestStop = False, m_radioOff = False, m_phyLock = False,
      m_prevSlot = 0, m_activeFault = False, m_hiCritMode = False, m_tableNotSetup = True,
      m_inSync = 0, m_discarded = [0, 0, 0], m_localSlot = 0, m_node_ack_fails = 0,
      m_max_node_ack_fails = 0, m_mccSchedTable = replicate MAX_SLOTS A_IDLE,
      m_forwardPktBuffer = replicate (MCCBUF_DEPTH_PER_PRIO * MCCBUF_PRIOS) zero_pkt,
      m_receptionHistory =
        replicate RECEPTION_HISTORY_STORAGE \<lparr>rr_seq_num = 0, rr_flow_id = 0\<rparr>,
      m_sentHistory =
        replicate SENDING_HISTORY_STORAGE
          \<lparr>sr_seq_num = 0, sr_flow_id = 0, sr_inject_time = 0, sr_send_time = 0\<rparr>,
      m_selfDataPkt = zero_pkt,
      m_selfNotificationPkt = \<lparr>nt_rootId = 0, nt_faultActivity = 0, nt_sinkSlot = 0\<rparr>,
      m_slotterInit = False, m_slotSize = 0, m_currentSlot = 0, m_superFrameLength = 0,
      m_currFrameSize = 0, m_sequenceCount = 0, m_nbReceivedPkts = replicate MAX_NODES 0,
      m_src = 0, m_i = 0, m_forwardQueue = PCQ_init (queue_params p) None, m_out = []\<rparr>"

definition emit :: "mac_event \<Rightarrow> mac \<Rightarrow> mac" where
  "emit e s = s\<lparr>m_out := m_out s @ [e]\<rparr>"


section \<open>Faults, criticality mode and the slot table\<close>

definition mcc_fault_triggered :: "u8 \<Rightarrow> mac \<Rightarrow> mac" where
  "mcc_fault_triggered slot_timings s =
     (if m_activeFault s = False then
        let fault_end_delay = ucast slot_timings * SLOT_LENGTH_MILLIS
        in emit (FaultTimerStart (ucast fault_end_delay)) (s\<lparr>m_activeFault := True\<rparr>)
      else s)"

definition check_fault_should_be_triggered :: "mac_params \<Rightarrow> u16 \<Rightarrow> mac \<Rightarrow> mac" where
  "check_fault_should_be_triggered p sink_slot s =
     (if USE_FAULTS p then
        let offset = (sink_slot mod FAULT_PERIOD_INTERVAL_SLOTS) - SINK_SLOT_FAULT_OFFSET
        in if 0 < offset \<and> offset < 6 then mcc_fault_triggered FAULT_LENGTH_SLOTS s else s
      else s)"

text \<open>Reads of the slot table; None outside its MAX_SLOTS entries.\<close>

definition get_mcc_action :: "action list \<Rightarrow> u8 \<Rightarrow> action option" where
  "get_mcc_action table slot =
     (if unat slot < length table then Some (table ! unat slot) else None)"

definition mcc_should_receive :: "action list \<Rightarrow> u8 \<Rightarrow> bool option" where
  "mcc_should_receive table slot =
     (if unat slot < length table then Some (table ! unat slot = A_LISTEN) else None)"

definition mcc_register_failed_ack :: "mac \<Rightarrow> mac" where
  "mcc_register_failed_ack s =
     (let s1 = s\<lparr>m_node_ack_fails := m_node_ack_fails s + 1\<rparr>
      in if m_max_node_ack_fails s1 < m_node_ack_fails s1
         then s1\<lparr>m_max_node_ack_fails := m_node_ack_fails s1\<rparr> else s1)"

definition mcc_clear_node_ack_fails :: "mac \<Rightarrow> mac" where
  "mcc_clear_node_ack_fails s = s\<lparr>m_node_ack_fails := 0\<rparr>"

definition add_discarded :: "nat \<Rightarrow> u8 \<Rightarrow> mac \<Rightarrow> mac" where
  "add_discarded k n s = s\<lparr>m_discarded := (m_discarded s)[k := m_discarded s ! k + n]\<rparr>"

definition mcc_check_to_go_high :: "mac_params \<Rightarrow> mac \<Rightarrow> mac" where
  "mcc_check_to_go_high p s =
     (if m_hiCritMode s = False then
        if CRIT_CHANGE_THRESHOLD \<le> m_node_ack_fails s then
          let c = queue_params p;
              s1 = s\<lparr>m_hiCritMode := True\<rparr>;
              s2 = add_discarded 0 (PCQ_sizeLO_Q1 c (m_forwardQueue s1)) s1;
              s3 = add_discarded 1 (PCQ_sizeLO_Q2 c (m_forwardQueue s2)) s2;
              s4 = add_discarded 2 (PCQ_sizeLO_Q3 c (m_forwardQueue s3)) s3
          in s4\<lparr>m_forwardQueue := PCQ_clearLO c (m_forwardQueue s4)\<rparr>
        else s
      else s)"

definition mcc_return_to_lo_mode :: "mac \<Rightarrow> mac" where
  "mcc_return_to_lo_mode s = s\<lparr>m_hiCritMode := False, m_node_ack_fails := 0\<rparr>"

definition setup_temp_mcc_table :: "mac_params \<Rightarrow> mac \<Rightarrow> mac" where
  "setup_temp_mcc_table p s =
     (if m_tableNotSetup s then
        let t0 = fold (\<lambda>slot t. t[slot := A_LISTEN]) [0..<8] (m_mccSchedTable s);
            t1 = (if TOS_NODE_ID p = 0 then t0[2 := A_TX] else t0);
            t2 = (if TOS_NODE_ID p = 1 then t1[3 := A_TX] else t1);
            t3 = (if TOS_NODE_ID p = 2 then t2[4 := A_TX] else t2);
            t4 = (if TOS_NODE_ID p = 3 then t3[5 := A_TX] else t3);
            t5 = (if TOS_NODE_ID p = 4 then t4[0 := A_TX] else t4)
        in s\<lparr>m_mccSchedTable := t5, m_tableNotSetup := False\<rparr>
      else s)"

text \<open>Through the pointer of the queue's head into the packet buffer.\<close>

definition mcc_increase_retransmit_counter :: "nat \<Rightarrow> mac \<Rightarrow> mac" where
  "mcc_increase_retransmit_counter k s =
     (let pkt = m_forwardPktBuffer s ! k
      in s\<lparr>m_forwardPktBuffer := (m_forwardPktBuffer s)
            [k := pkt\<lparr>mp_local_retransmits := mp_local_retransmits pkt + 1\<rparr>]\<rparr>)"

definition mcc_check_should_dequeue_packet :: "mccpacket \<Rightarrow> mac \<Rightarrow> bool" where
  "mcc_check_should_dequeue_packet mccpkt s \<longleftrightarrow>
     (if mp_crit_level mccpkt = HI then MCC_HI_CRIT_RT_LIMIT \<le> m_node_ack_fails s
      else MCC_LO_CRIT_RT_LIMIT \<le> m_node_ack_fails s)"

definition route_next_hop :: "mac_params \<Rightarrow> u8 \<Rightarrow> u8" where
  "route_next_hop p dst =
     (let n1 = (if (TOS_NODE_ID p = 1 \<or> TOS_NODE_ID p = 2) \<and> (dst = 3 \<or> dst = 4)
                then 0 else dst)
      in if (TOS_NODE_ID p = 3 \<or> TOS_NODE_ID p = 4) \<and> (dst = 1 \<or> dst = 2) then 0 else n1)"

text \<open>The loop \<open>for (i = n - 1; i > 0; i--) h[i] = h[i-1]\<close> of the two history tables.\<close>

definition roll_right :: "nat \<Rightarrow> 'a list \<Rightarrow> 'a list" where
  "roll_right n h = fold (\<lambda>i h. h[i := h ! (i - 1)]) (rev [1..<n]) h"

definition record_packet_reception :: "mccpacket \<Rightarrow> mac \<Rightarrow> mac" where
  "record_packet_reception pkt s =
     (let h = roll_right RECEPTION_HISTORY_STORAGE (m_receptionHistory s)
      in s\<lparr>m_i := 0, m_receptionHistory :=
            h[0 := \<lparr>rr_seq_num = ucast (mp_seq_num pkt), rr_flow_id = mp_flow_id pkt\<rparr>]\<rparr>)"

definition record_successfully_sent_frame :: "mccpacket \<Rightarrow> mac \<Rightarrow> mac" where
  "record_successfully_sent_frame pkt s =
     (let h = roll_right SENDING_HISTORY_STORAGE (m_sentHistory s)
      in s\<lparr>m_i := 0, m_sentHistory :=
            h[0 := \<lparr>sr_seq_num = ucast (mp_seq_num pkt), sr_flow_id = mp_flow_id pkt,
                    sr_inject_time = mp_inject_time pkt, sr_send_time = mp_send_time pkt\<rparr>]\<rparr>)"

section \<open>Booting and power control\<close>

definition Boot_booted :: "mac \<Rightarrow> mac" where
  "Boot_booted s = emit RadioStart s"

definition Init_init :: "mac_params \<Rightarrow> mac \<Rightarrow> error_t \<times> mac" where
  "Init_init p s =
     (let s1 = s\<lparr>m_currentSlot := 0xFF, m_discarded := [0, 0, 0], m_slotSize := 10,
            m_inSync := 0, m_sequenceCount := 0, m_node_ack_fails := 0,
            m_init := False, m_requestStop := False, m_radioOff := True, m_phyLock := False,
            m_slotterInit := False, m_superFrameLength := SLOTS_IN_FRAME,
            m_currFrameSize := SLOTS_IN_FRAME\<rparr>;
          s2 = s1\<lparr>m_nbReceivedPkts :=
            fold (\<lambda>i t. t[i := 0]) [0..<MAX_NODES] (m_nbReceivedPkts s1)\<rparr>;
          s3 = s2\<lparr>m_receptionHistory :=
            fold (\<lambda>i t. t[0 := \<lparr>rr_seq_num = 0, rr_flow_id = 0\<rparr>])
              [0..<RECEPTION_HISTORY_STORAGE] (m_receptionHistory s2),
            m_i := of_nat RECEPTION_HISTORY_STORAGE\<rparr>
      in (SUCCESS, if m_tableNotSetup s3 then setup_temp_mcc_table p s3 else s3))"

definition MacPowerControl_start :: "error_t \<Rightarrow> mac \<Rightarrow> error_t \<times> mac" where
  "MacPowerControl_start radio_res s = (radio_res, emit RadioStart s)"

definition MacPowerControl_stop :: "mac \<Rightarrow> error_t \<times> mac" where
  "MacPowerControl_stop s =
     (SUCCESS, emit RadioStop (emit SlotterStop (s\<lparr>m_requestStop := True\<rparr>)))"

definition RadioPowerControl_startDone :: "mac_params \<Rightarrow> error_t \<Rightarrow> mac \<Rightarrow> mac" where
  "RadioPowerControl_startDone p error s =
     (let s1 = s\<lparr>m_radioOff := False\<rparr>
      in if m_init s1 = False then
           let s2 = (if TOS_NODE_ID p = SINK_NODE_ID
                     then emit (SetFrameLength (m_superFrameLength s1)) (emit (SlotterSync 1) s1)
                     else s1)
           in emit (SigStartDone error) (s2\<lparr>m_init := True\<rparr>)
         else s1)"

definition RadioPowerControl_stopDone :: "mac \<Rightarrow> mac" where
  "RadioPowerControl_stopDone s =
     (if m_requestStop s then s\<lparr>m_requestStop := False, m_radioOff := True\<rparr> else s)"

section \<open>Transmission slots\<close>

text \<open>The choice of the packet to send: the pointer, the queue's status, and the new state.\<close>

definition tx_select :: "mac_params \<Rightarrow> mac \<Rightarrow> nat option \<times> error_t \<times> mac" where
  "tx_select p s =
     (let q = m_forwardQueue s;
          (fwd1, has1, s1) =
            (if m_hiCritMode s then
               (case PCQ_headHI (queue_params p) q of
                  (f, e) \<Rightarrow> (f, e, if e = FAIL then mcc_return_to_lo_mode s else s))
             else (None, SUCCESS, s));
          (fwd, has_pkt) =
            (if m_hiCritMode s1 = False \<or> has1 = FAIL then PCQ_head q else (fwd1, has1));
          s2 = (if has_pkt = FAIL then mcc_clear_node_ack_fails s1 else s1)
      in (fwd, has_pkt, s2))"

text \<open>The body for a selected packet \<open>pkt\<close>: fill selfDataPkt and hand it to the radio.\<close>

definition tx_send :: "mac_params \<Rightarrow> u32 \<Rightarrow> error_t \<Rightarrow> mccpacket \<Rightarrow> mac \<Rightarrow> mac" where
  "tx_send p local_time send_res pkt s =
     (let d = pkt\<lparr>mp_hop_src := ucast (TOS_NODE_ID p),
                  mp_hop_dst := route_next_hop p (mp_dst pkt),
                  mp_send_time := local_time,
                  mp_failed_ack_stats := m_node_ack_fails s\<rparr>;
          s1 = s\<lparr>m_selfDataPkt := d\<rparr>
      in if m_phyLock s1 = False then
           let s2 = (if m_radioOff s1 then emit RadioStart s1 else s1);
               s3 = (if m_activeFault s2 = False
                     then emit (RequestAck (m_selfDataPkt s2)) s2 else s2);
               d' = d\<lparr>mp_hopSendSlot := m_localSlot s3, mp_data := m_discarded s3\<rparr>;
               s4 = s3\<lparr>m_selfDataPkt := d', m_discarded := [0, 0, 0]\<rparr>;
               s5 = emit (DataSend (mp_hop_dst d') d') s4
           in if send_res = SUCCESS then s5\<lparr>m_phyLock := True\<rparr> else s5
         else s1)"

text \<open>
  None: the node spins for ever (\<open>while (1)\<close>) or reads through a pointer that is not in the
  packet buffer.
\<close>

definition handle_tx_slot :: "mac_params \<Rightarrow> u32 \<Rightarrow> error_t \<Rightarrow> mac \<Rightarrow> mac option" where
  "handle_tx_slot p local_time send_res s =
     (case tx_select p s of (fwd, has_pkt, s2) \<Rightarrow>
        if has_pkt = FAIL \<and> 0 < PCQ_size (m_forwardQueue s2) then None
        else if has_pkt = SUCCESS then
          (case fwd of
             None \<Rightarrow> None
           | Some k \<Rightarrow>
               if k < length (m_forwardPktBuffer s2)
               then Some (tx_send p local_time send_res (m_forwardPktBuffer s2 ! k) s2)
               else None)
        else Some s2)"

text \<open>C's remainder of the complemented slot number, as the byte the LEDs get.\<close>

definition hi_leds :: "u8 \<Rightarrow> u8" where
  "hi_leds slot = - ((slot + 1) mod 8)"

definition slot_leds :: "u8 \<Rightarrow> mac \<Rightarrow> mac" where
  "slot_leds slot s =
     (if m_activeFault s then emit (LedsSet 1) s
      else if m_hiCritMode s then emit (LedsSet (hi_leds slot)) s
      else emit (LedsSet (slot mod 8)) s)"

definition sink_notify :: "mac_params \<Rightarrow> error_t \<Rightarrow> u16 \<Rightarrow> mac \<Rightarrow> mac" where
  "sink_notify p notif_res local_slot s =
     (let n = (m_selfNotificationPkt s)\<lparr>nt_rootId := TOS_NODE_ID p, nt_sinkSlot := local_slot\<rparr>;
          s1 = s\<lparr>m_selfNotificationPkt := n\<rparr>
      in if \<not> m_phyLock s1 then
           let s2 = emit (NotificationSend AM_BROADCAST_ADDR n) s1
           in if notif_res = SUCCESS then s2\<lparr>m_phyLock := True\<rparr> else s2
         else s1)"

text \<open>The atomic block at the head of the slot event.\<close>

definition slot_begin :: "mac_params \<Rightarrow> u8 \<Rightarrow> mac \<Rightarrow> mac" where
  "slot_begin p slot s =
     (let s1 = (if m_tableNotSetup s then setup_temp_mcc_table p s else s);
          s2 = s1\<lparr>m_currentSlot := slot\<rparr>;
          s3 = (if m_prevSlot s2 \<noteq> slot then s2\<lparr>m_localSlot := m_localSlot s2 + 1\<rparr> else s2)
      in s3\<lparr>m_prevSlot := slot\<rparr>)"

definition Slotter_slot ::
  "mac_params \<Rightarrow> u32 \<Rightarrow> error_t \<Rightarrow> error_t \<Rightarrow> u8 \<Rightarrow> mac \<Rightarrow> mac option" where
  "Slotter_slot p local_time send_res notif_res slot s =
     (let s3 = slot_begin p slot s;
          local_slot = m_localSlot s3;
          s4 = emit PrintfFlush (slot_leds slot s3)
      in do {
        scheduled_action \<leftarrow> get_mcc_action (m_mccSchedTable s4) slot;
        let s5 = (if slot = 1 \<and> TOS_NODE_ID p = SINK_NODE_ID
                  then sink_notify p notif_res local_slot s4 else s4);
        if slot \<noteq> 1 \<and> scheduled_action = A_TX
        then handle_tx_slot p local_time send_res s5 else Some s5
      })"

section \<open>Admitting packets\<close>

text \<open>
  The address of \<open>forwardPktBuffer[size][prio]\<close> in a row-major array of MCCBUF_PRIOS
  columns; None when the packet would be written outside the array.
\<close>

definition buffer_index :: "u8 \<Rightarrow> u8 \<Rightarrow> nat" where
  "buffer_index sz prio = unat sz * MCCBUF_PRIOS + unat prio"

definition mcc_enqueue_to_buffers ::
  "mac_params \<Rightarrow> mccpacket \<Rightarrow> u32 \<Rightarrow> mac \<Rightarrow> (error_t \<times> mac) option" where
  "mcc_enqueue_to_buffers p packetToEnqueue injectTime s =
     (let prio = mp_priority packetToEnqueue
      in if MIN_PRIO \<le> prio \<and> prio \<le> MAX_PRIO then
           let k = buffer_index (PCQ_sizePrio (m_forwardQueue s) prio) prio;
               b = packetToEnqueue\<lparr>mp_local_retransmits := 0, mp_enqueueSlot := m_localSlot s,
                     mp_inject_time := injectTime\<rparr>
           in if k < length (m_forwardPktBuffer s) then
                let s1 = s\<lparr>m_forwardPktBuffer := (m_forwardPktBuffer s)[k := b]\<rparr>;
                    r = PCQ_enqueue (queue_params p) (m_forwardQueue s1) (Some k) (mp_priority b)
                in Some (SUCCESS, s1\<lparr>m_forwardQueue := snd r\<rparr>)
              else None
         else Some (FAIL, s))"

text \<open>The loop over c_count; \<open>localTimes c_count\<close> is the local time read in that iteration. The
  packet is the application's own, which the loop writes.\<close>

fun send_loop :: "mac_params \<Rightarrow> (u8 \<Rightarrow> u32) \<Rightarrow> u8 \<Rightarrow> u8 list \<Rightarrow> mccpacket \<Rightarrow> error_t \<Rightarrow> mac
    \<Rightarrow> (error_t \<times> mccpacket \<times> mac) option" where
  "send_loop p localTimes base_seq_num [] pkt res s = Some (res, pkt, s)"
| "send_loop p localTimes base_seq_num (c_count # cs) pkt res s =
     (let pkt' = pkt\<lparr>mp_burst_num := c_count, mp_seq_num := base_seq_num + c_count\<rparr>
      in case mcc_enqueue_to_buffers p pkt' (localTimes c_count) s of
           None \<Rightarrow> None
         | Some (loop_res, s') \<Rightarrow>
             send_loop p localTimes base_seq_num cs pkt'
               (if loop_res \<noteq> SUCCESS then loop_res else res) s')"

definition MacSend_send :: "mac_params \<Rightarrow> (u8 \<Rightarrow> u32) \<Rightarrow> mccpacket \<Rightarrow> mac
    \<Rightarrow> (error_t \<times> mccpacket \<times> mac) option" where
  "MacSend_send p localTimes packetToEnqueue s =
     (let c_count_lim = (if MAX_C_COUNT < mp_c packetToEnqueue then MAX_C_COUNT
                         else mp_c packetToEnqueue);
          base_seq_num = mp_seq_num packetToEnqueue;
          c = mp_c packetToEnqueue
      in if m_hiCritMode s \<and> mp_crit_level packetToEnqueue = LO then
           let s1 = (if mp_priority packetToEnqueue = 1 then add_discarded 0 c s else s);
               s2 = (if mp_priority packetToEnqueue = 2 then add_discarded 1 c s1 else s1);
               s3 = (if mp_priority packetToEnqueue = 3 then add_discarded 2 c s2 else s2)
           in Some (SUCCESS, packetToEnqueue, s3)
         else send_loop p localTimes base_seq_num (map of_nat [0..<unat c_count_lim])
                packetToEnqueue SUCCESS s)"

definition MacSend_cancel :: "error_t \<Rightarrow> mac \<Rightarrow> error_t \<times> mac" where
  "MacSend_cancel radio_res s = (radio_res, emit DataCancel s)"

section \<open>Radio events\<close>

definition phyNotificationSend_sendDone :: "error_t \<Rightarrow> mac \<Rightarrow> mac" where
  "phyNotificationSend_sendDone error s = emit (SigSendDone error) (s\<lparr>m_phyLock := False\<rparr>)"

definition phyNotificationReceive_receive :: "mac_params \<Rightarrow> u16 \<Rightarrow> u16 \<Rightarrow> mac \<Rightarrow> mac" where
  "phyNotificationReceive_receive p source sinkSlot s =
     (let s1 = s\<lparr>m_src := source\<rparr>
      in if TOS_NODE_ID p \<noteq> SINK_NODE_ID \<and> m_src s1 = SINK_NODE_ID then
           let s2 = emit (SlotterSync 1) (check_fault_should_be_triggered p sinkSlot s1)
           in if m_slotterInit s2 = False
              then s2\<lparr>m_slotterInit := True,
                      m_forwardQueue := PCQ_clear (queue_params p) (m_forwardQueue s2)\<rparr>
              else s2
         else s1)"

definition valid_prio :: "u8 \<Rightarrow> bool" where
  "valid_prio prio \<longleftrightarrow> MIN_PRIO \<le> prio \<and> prio \<le> MAX_PRIO"

definition dequeue_prio :: "mac_params \<Rightarrow> u8 \<Rightarrow> mac \<Rightarrow> mac" where
  "dequeue_prio p prio s =
     s\<lparr>m_forwardQueue := snd (PCQ_dequeuePrio (queue_params p) (m_forwardQueue s) prio)\<rparr>"

text \<open>The branch of a missing acknowledgement.\<close>

definition ack_failed :: "mac_params \<Rightarrow> mccpacket \<Rightarrow> mac \<Rightarrow> mac" where
  "ack_failed p acked s =
     (let sentPrio = mp_priority acked;
          s1 = mcc_check_to_go_high p (mcc_register_failed_ack s);
          s2 = (if 4 \<le> m_node_ack_fails s1
                then s1\<lparr>m_forwardQueue := PCQ_clear (queue_params p) (m_forwardQueue s1),
                        m_node_ack_fails := 0, m_hiCritMode := False\<rparr>
                else s1)
      in if mcc_check_should_dequeue_packet acked s2 then
           (if valid_prio sentPrio then dequeue_prio p sentPrio s2 else s2)
         else if valid_prio sentPrio then
           (case PCQ_headPrio (m_forwardQueue s2) sentPrio of
              None \<Rightarrow> s2
            | Some k \<Rightarrow> mcc_increase_retransmit_counter k s2)
         else s2)"

definition phyDataSend_sendDone :: "mac_params \<Rightarrow> bool \<Rightarrow> error_t \<Rightarrow> mac \<Rightarrow> mac" where
  "phyDataSend_sendDone p wasAcked error s =
     (let acked = m_selfDataPkt s;
          sentPrio = mp_priority acked;
          s1 = (if wasAcked \<and> m_activeFault s = False then
                  let r = record_successfully_sent_frame acked s
                  in if valid_prio sentPrio then dequeue_prio p sentPrio r else r
                else ack_failed p acked s)
      in emit (SigSendDone error) (s1\<lparr>m_phyLock := False\<rparr>))"

text \<open>The packet is for this node: record it, count it by its source, and signal it. None: the
  count is written outside nbReceivedPkts.\<close>

definition receive_own :: "mccpacket \<Rightarrow> mac \<Rightarrow> mac option" where
  "receive_own pkt s =
     (let s1 = record_packet_reception pkt s;
          n = unat (mp_src pkt)
      in if n < length (m_nbReceivedPkts s1) then
           Some (emit (SigReceive pkt)
             (s1\<lparr>m_nbReceivedPkts :=
               (m_nbReceivedPkts s1)[n := m_nbReceivedPkts s1 ! n + 1]\<rparr>))
         else None)"

text \<open>
  None: the packet is stored outside the buffer, counted outside nbReceivedPkts, or the slot
  table is read outside its entries.
\<close>

definition phyDataReceive_receive :: "mac_params \<Rightarrow> u32 \<Rightarrow> mccpacket \<Rightarrow> mac \<Rightarrow> mac option" where
  "phyDataReceive_receive p localTime pkt s =
     (let slot = m_currentSlot s; receivedDest = mp_dst pkt
      in if mp_src pkt = 0x69 \<and> mp_dst pkt = 0x23 then Some (mcc_fault_triggered (mp_c pkt) s)
         else do {
           s1 \<leftarrow> (if ucast receivedDest \<noteq> TOS_NODE_ID p \<and> \<not> m_activeFault s
                 then map_option snd (mcc_enqueue_to_buffers p pkt localTime s) else Some s);
           expected \<leftarrow> mcc_should_receive (m_mccSchedTable s1) slot;
           let s2 = (if expected then s1 else emit PrintfFlush s1);
           if ucast receivedDest = TOS_NODE_ID p then receive_own pkt s2 else Some s2
         })"

section \<open>Frame configuration and the fault timer\<close>

definition Frame_setSlotLength :: "u32 \<Rightarrow> mac \<Rightarrow> mac" where
  "Frame_setSlotLength slotTimeBms s =
     (let s1 = s\<lparr>m_slotSize := slotTimeBms\<rparr> in emit (SetSlotLength (m_slotSize s1)) s1)"

definition Frame_setFrameLength :: "u8 \<Rightarrow> mac \<Rightarrow> mac" where
  "Frame_setFrameLength numSlots s =
     (let s1 = s\<lparr>m_currFrameSize := numSlots\<rparr> in emit (SetFrameLength (m_currFrameSize s1)) s1)"

definition Frame_getSlotLength :: "u32 \<Rightarrow> mac \<Rightarrow> u32 \<times> mac" where
  "Frame_getSlotLength configured s = (configured, s\<lparr>m_slotSize := configured\<rparr>)"

definition Frame_getFrameLength :: "u8 \<Rightarrow> mac \<Rightarrow> u8" where
  "Frame_getFrameLength configured s = configured"

definition FaultClearTimer_fired :: "mac \<Rightarrow> mac" where
  "FaultClearTimer_fired s = s\<lparr>m_activeFault := False\<rparr>"

end
