(* ===== verification/TdmaMacProps.thy ===== *)
theory TdmaMacProps
  imports TdmaMac
begin

text \<open>
  Correctness of the AirTight MAC: the invariant of its variables and that every handler keeps
  it, over all reachable states; and the behaviour of the transmission, acknowledgement and
  admission paths, errors of the code included.
\<close>

section \<open>The invariant\<close>

text \<open>
  A queue of packet pointers: its array holds only null pointers and pointers into one column
  of the packet buffer, and no element in the queue is null.
\<close>

definition ptr_in_column :: "nat \<Rightarrow> nat option \<Rightarrow> bool" where
  "ptr_in_column col x \<longleftrightarrow>
     (case x of None \<Rightarrow> True | Some k \<Rightarrow> k < MCCBUF_DEPTH_PER_PRIO * MCCBUF_PRIOS \<and> k mod MCCBUF_PRIOS = col)"

definition ptr_queue_ok :: "u8 \<Rightarrow> nat \<Rightarrow> nat option queue \<Rightarrow> bool" where
  "ptr_queue_ok N col q \<longleftrightarrow>
     queue_inv N q \<and> list_all (ptr_in_column col) (q_queue q) \<and> None \<notin> set (q_contents N q)"

definition mac_store_ok :: "mac_params \<Rightarrow> mac \<Rightarrow> bool" where
  "mac_store_ok p s \<longleftrightarrow>
     ptr_queue_ok (QUEUE_SIZE (queue_params p)) 1 (prio1Queue (m_forwardQueue s)) \<and>
     ptr_queue_ok (QUEUE_SIZE (queue_params p)) 2 (prio2Queue (m_forwardQueue s)) \<and>
     ptr_queue_ok (QUEUE_SIZE (queue_params p)) 0 (prio3Queue (m_forwardQueue s)) \<and>
     length (m_forwardPktBuffer s) = MCCBUF_DEPTH_PER_PRIO * MCCBUF_PRIOS \<and>
     length (m_discarded s) = 3 \<and> length (m_mccSchedTable s) = MAX_SLOTS \<and>
     length (m_nbReceivedPkts s) = MAX_NODES \<and>
     length (m_receptionHistory s) = RECEPTION_HISTORY_STORAGE \<and>
     length (m_sentHistory s) = SENDING_HISTORY_STORAGE"

text \<open>Rolling a history and storing in its first entry drops the oldest record.\<close>

lemma length_roll [simp]: "length (fold (\<lambda>i h. h[i := h ! (i - k)]) is h) = length h"
  by (induction "is" arbitrary: h) simp_all

lemma length_clear_loop: "length (fold (\<lambda>i t. t[k := x]) is h) = length h"
  by (induction "is" arbitrary: h) simp_all

lemma length_roll_right [simp]: "length (roll_right n h) = length h"
  unfolding roll_right_def by (rule length_roll)

lemma nth_roll:
  "k < length h \<Longrightarrow> i < length h \<Longrightarrow>
   fold (\<lambda>i h. h[i := h ! (i - 1)]) (rev [1..<Suc k]) h ! i = (if 1 \<le> i \<and> i \<le> k then h ! (i - 1) else h ! i)"
proof (induction k arbitrary: h)
  case (Suc k)
  then show ?case using Suc.IH [of "h[Suc k := h ! k]"] by (auto simp: nth_list_update)
qed simp

lemma roll_right_store:
  assumes "length h = Suc k"
  shows "(roll_right (Suc k) h)[0 := x] = x # butlast h"
proof (rule nth_equalityI)
  show "length ((roll_right (Suc k) h)[0 := x]) = length (x # butlast h)" using assms by simp
  fix i assume "i < length ((roll_right (Suc k) h)[0 := x])"
  then have "i < length h" by simp
  then have "roll_right (Suc k) h ! i = (if 1 \<le> i \<and> i \<le> k then h ! (i - 1) else h ! i)"
    using nth_roll [of k h i] assms by (simp only: roll_right_def)
  then show "(roll_right (Suc k) h)[0 := x] ! i = (x # butlast h) ! i"
    using assms \<open>i < length h\<close> by (cases i) (simp_all add: nth_butlast)
qed

lemma roll_right_50: "length h = 50 \<Longrightarrow> (roll_right 50 h)[0 := x] = x # butlast h"
  using roll_right_store [of h 49] by simp

text \<open>The criticality mode is a function of the failure counter, which stays below four.\<close>

definition mac_crit_ok :: "mac \<Rightarrow> bool" where
  "mac_crit_ok s \<longleftrightarrow>
     (m_hiCritMode s \<longleftrightarrow> CRIT_CHANGE_THRESHOLD \<le> m_node_ack_fails s) \<and>
     m_node_ack_fails s < MCC_HI_CRIT_RT_LIMIT"

definition mac_inv :: "mac_params \<Rightarrow> mac \<Rightarrow> bool" where
  "mac_inv p s \<longleftrightarrow> mac_store_ok p s \<and> mac_crit_ok s"

lemmas mac_inv_defs = mac_inv_def mac_store_ok_def mac_crit_ok_def

text \<open>The deployed queue depth.\<close>

definition mac_params_ok :: "mac_params \<Rightarrow> bool" where
  "mac_params_ok p \<longleftrightarrow> QUEUE_SIZE (queue_params p) = 20"

lemma ptr_queue_ok_init: "N \<noteq> 0 \<Longrightarrow> ptr_queue_ok N col (Queue_init N None)"
  by (simp add: ptr_queue_ok_def queue_inv_init q_contents_init)
    (simp add: Queue_init_def list_all_iff ptr_in_column_def)

lemma dequeue_array: "q_queue (snd (Queue_dequeue N q)) = q_queue q"
  by (simp add: Queue_dequeue_def Let_def)

lemma ptr_queue_ok_dequeue:
  assumes "ptr_queue_ok N col q"
  shows "ptr_queue_ok N col (snd (Queue_dequeue N q))"
  using assms list.set_sel(2) [of "q_contents N q" None]
  by (cases "q_contents N q = []")
    (auto simp: ptr_queue_ok_def queuec.inv_deq queuec.deq_tl dequeue_array)

lemma ptr_queue_ok_enqueue:
  assumes q: "ptr_queue_ok N col q" and k: "ptr_in_column col (Some k)"
  shows "ptr_queue_ok N col (snd (Queue_enqueue N q (Some k)))"
proof -
  from q have inv: "queue_inv N q" by (simp add: ptr_queue_ok_def)
  have arr: "list_all (ptr_in_column col) (q_queue (snd (Queue_enqueue N q (Some k))))"
    using q k set_update_subset_insert [of "q_queue q"]
    by (auto simp: ptr_queue_ok_def Queue_enqueue_def Let_def list_all_iff)
  show ?thesis
  proof (cases "unat (q_size q) < unat N")
    case True
    with q inv arr show ?thesis
      by (simp add: ptr_queue_ok_def queuec.inv_enq queuec.enq_room)
  next
    case False
    with inv have "unat (q_size q) = unat N" by (simp add: queue_inv_def)
    with q inv show ?thesis by (simp add: queuec.enq_full)
  qed
qed

lemma ptr_queue_ok_drain: "ptr_queue_ok N col q \<Longrightarrow> ptr_queue_ok N col (drain N q)"
proof (induction N q rule: drain.induct)
  case (1 N q)
  then show ?case
    by (cases "0 < Queue_size q") (simp_all add: drain.simps [of N q] ptr_queue_ok_dequeue)
qed

lemma ptr_queue_ok_head:
  assumes "ptr_queue_ok N col q"
  shows "ptr_in_column col (Queue_head q)"
  using assms by (simp add: ptr_queue_ok_def Queue_head_def queue_inv_def list_all_length)

lemma ptr_queue_ok_inv: "ptr_queue_ok N col q \<Longrightarrow> queue_inv N q"
  by (simp add: ptr_queue_ok_def)

lemma mac_inv_pcq: "mac_inv p s \<Longrightarrow> pcq_inv (queue_params p) (m_forwardQueue s)"
  by (auto simp: mac_inv_defs pcq_inv_def dest: ptr_queue_ok_inv)

lemma fails_lt_4: "(x :: u8) < 4 \<Longrightarrow> unat x < 4"
  by (simp add: word_less_nat_alt)

section \<open>Every handler keeps the invariant\<close>

lemma mac_inv_static: "mac_params_ok p \<Longrightarrow> mac_inv p (mac_static p)"
  by (simp add: mac_inv_defs mac_params_ok_def mac_static_def PCQ_init_def ptr_queue_ok_init
      mac_consts)

lemma mac_inv_emit [simp]: "mac_inv p (emit e s) = mac_inv p s"
  by (simp add: mac_inv_defs emit_def)

lemma mac_inv_fault: "mac_inv p s \<Longrightarrow> mac_inv p (mcc_fault_triggered n s)"
  by (auto simp: mcc_fault_triggered_def Let_def) (simp add: mac_inv_defs)

lemma mac_inv_check_fault: "mac_inv p s \<Longrightarrow> mac_inv p (check_fault_should_be_triggered p n s)"
  by (simp add: check_fault_should_be_triggered_def Let_def mac_inv_fault)

lemma mac_inv_setup_table: "mac_inv p s \<Longrightarrow> mac_inv p (setup_temp_mcc_table p s)"
  by (simp add: mac_inv_defs setup_temp_mcc_table_def Let_def upt_rec)

lemma mac_inv_clear:
  "mac_inv p s \<Longrightarrow>
   mac_inv p (s\<lparr>m_forwardQueue := PCQ_clear (queue_params p) (m_forwardQueue s)\<rparr>)"
  by (simp add: mac_inv_defs PCQ_clear_def Let_def ptr_queue_ok_drain)

lemma mac_inv_dequeue_prio: "mac_inv p s \<Longrightarrow> mac_inv p (dequeue_prio p prio s)"
  by (simp add: mac_inv_defs dequeue_prio_def pcq_cmds ptr_queue_ok_dequeue)

lemma mac_inv_increase: "mac_inv p s \<Longrightarrow> mac_inv p (mcc_increase_retransmit_counter k s)"
  by (simp add: mac_inv_defs mcc_increase_retransmit_counter_def Let_def)

lemma mac_inv_lo_mode: "mac_inv p s \<Longrightarrow> mac_inv p (mcc_return_to_lo_mode s)"
  by (simp add: mac_inv_defs mcc_return_to_lo_mode_def mac_consts)

lemma mac_inv_histories [simp]:
  "mac_inv p (record_packet_reception pkt s) = mac_inv p s"
  "mac_inv p (record_successfully_sent_frame pkt s) = mac_inv p s"
  by (simp_all add: mac_inv_defs record_packet_reception_def record_successfully_sent_frame_def
      Let_def)


lemma store_register: "mac_store_ok p s \<Longrightarrow> mac_store_ok p (mcc_register_failed_ack s)"
  by (simp add: mac_store_ok_def mcc_register_failed_ack_def Let_def)

lemma store_go_high: "mac_store_ok p s \<Longrightarrow> mac_store_ok p (mcc_check_to_go_high p s)"
  by (simp add: mac_store_ok_def mcc_check_to_go_high_def add_discarded_def Let_def
      PCQ_clearLO_def ptr_queue_ok_drain)

lemma store_clear:
  "mac_store_ok p s \<Longrightarrow>
   mac_store_ok p (s\<lparr>m_forwardQueue := PCQ_clear (queue_params p) (m_forwardQueue s),
     m_node_ack_fails := n, m_hiCritMode := b\<rparr>)"
  by (simp add: mac_store_ok_def PCQ_clear_def Let_def ptr_queue_ok_drain)

lemma go_high_crit:
  "m_node_ack_fails (mcc_check_to_go_high p s) = m_node_ack_fails s"
  "m_hiCritMode (mcc_check_to_go_high p s) \<longleftrightarrow> m_hiCritMode s \<or> 2 \<le> m_node_ack_fails s"
  by (simp_all add: mcc_check_to_go_high_def add_discarded_def Let_def mac_consts)

lemma register_crit:
  "m_node_ack_fails (mcc_register_failed_ack s) = m_node_ack_fails s + 1"
  "m_hiCritMode (mcc_register_failed_ack s) = m_hiCritMode s"
  by (simp_all add: mcc_register_failed_ack_def Let_def)

text \<open>The state of \<open>ack_failed\<close> after its three mode updates, before the queue is touched.\<close>

definition after_fail :: "mac_params \<Rightarrow> mac \<Rightarrow> mac" where
  "after_fail p s =
     (let s1 = mcc_check_to_go_high p (mcc_register_failed_ack s)
      in if 4 \<le> m_node_ack_fails s1
         then s1\<lparr>m_forwardQueue := PCQ_clear (queue_params p) (m_forwardQueue s1),
                 m_node_ack_fails := 0, m_hiCritMode := False\<rparr>
         else s1)"

lemma ack_failed_after_fail:
  "ack_failed p acked s =
    (let s2 = after_fail p s; sentPrio = mp_priority acked
     in if mcc_check_should_dequeue_packet acked s2 then
          (if valid_prio sentPrio then dequeue_prio p sentPrio s2 else s2)
        else if valid_prio sentPrio then
          (case PCQ_headPrio (m_forwardQueue s2) sentPrio of
             None \<Rightarrow> s2 | Some k \<Rightarrow> mcc_increase_retransmit_counter k s2)
        else s2)"
  by (simp only: ack_failed_def after_fail_def Let_def)

lemma after_fail_crit:
  assumes "mac_crit_ok s"
  shows "mac_crit_ok (after_fail p s)"
    and "m_node_ack_fails (after_fail p s) =
      (if m_node_ack_fails s = 3 then 0 else m_node_ack_fails s + 1)"
proof -
  let ?n = "m_node_ack_fails s"
  have n: "?n = 0 \<or> ?n = 1 \<or> ?n = 2 \<or> ?n = 3"
    using assms by (simp add: mac_crit_ok_def mac_consts) unat_arith
  from n show "m_node_ack_fails (after_fail p s) = (if ?n = 3 then 0 else ?n + 1)"
    by (auto simp: after_fail_def Let_def go_high_crit register_crit word_le_nat_alt)
  from n assms show "mac_crit_ok (after_fail p s)"
    by (auto simp: mac_crit_ok_def mac_consts after_fail_def Let_def go_high_crit register_crit
        word_le_nat_alt word_less_nat_alt)
qed

lemma mac_inv_after_fail: "mac_inv p s \<Longrightarrow> mac_inv p (after_fail p s)"
  by (auto simp: mac_inv_def after_fail_crit)
    (simp add: after_fail_def Let_def store_clear store_go_high store_register)

lemma mac_inv_ack_failed:
  assumes "mac_inv p s"
  shows "mac_inv p (ack_failed p acked s)"
  using mac_inv_after_fail [OF assms]
  by (simp add: ack_failed_after_fail Let_def mac_inv_dequeue_prio mac_inv_increase
      split: option.split)

lemma mac_inv_phyLock [simp]: "mac_inv p (s\<lparr>m_phyLock := b\<rparr>) = mac_inv p s"
  by (simp add: mac_inv_defs)

lemma mac_inv_sendDone: "mac_inv p s \<Longrightarrow> mac_inv p (phyDataSend_sendDone p a e s)"
  by (simp add: phyDataSend_sendDone_def Let_def mac_inv_ack_failed mac_inv_dequeue_prio)

lemma mac_inv_notification:
  "mac_inv p s \<Longrightarrow> mac_inv p (phyNotificationReceive_receive p source slot s)"
proof -
  assume "mac_inv p s"
  then have "mac_inv p (s\<lparr>m_src := source\<rparr>)" by (simp add: mac_inv_defs)
  then have c: "mac_inv p (check_fault_should_be_triggered p slot (s\<lparr>m_src := source\<rparr>))"
    by (rule mac_inv_check_fault)
  then have "mac_inv p ((emit (SlotterSync 1)
      (check_fault_should_be_triggered p slot (s\<lparr>m_src := source\<rparr>)))\<lparr>m_slotterInit := True\<rparr>)"
    by (simp add: mac_inv_defs emit_def)
  from mac_inv_clear [OF this] c \<open>mac_inv p (s\<lparr>m_src := source\<rparr>)\<close> show ?thesis
    by (auto simp: phyNotificationReceive_receive_def Let_def)
qed

section \<open>Admission\<close>

lemma prio_cases: "valid_prio prio \<longleftrightarrow> prio = 1 \<or> prio = 2 \<or> prio = 3"
  by (simp add: valid_prio_def mac_consts) unat_arith

lemma enqueue_valid:
  "MIN_PRIO \<le> prio \<and> prio \<le> MAX_PRIO \<longleftrightarrow> prio = 1 \<or> prio = 2 \<or> prio = 3"
  using prio_cases by (simp add: valid_prio_def)

lemma mac_inv_enqueue:
  assumes inv: "mac_inv p s" and r: "mcc_enqueue_to_buffers p pkt t s = Some (e, s')"
  shows "mac_inv p s'"
proof (cases "MIN_PRIO \<le> mp_priority pkt \<and> mp_priority pkt \<le> MAX_PRIO")
  case False
  with r inv show ?thesis by (auto simp: mcc_enqueue_to_buffers_def Let_def split: if_splits)
next
  case True
  let ?k = "buffer_index (PCQ_sizePrio (m_forwardQueue s) (mp_priority pkt)) (mp_priority pkt)"
  from r True have k: "?k < length (m_forwardPktBuffer s)"
    by (auto simp: mcc_enqueue_to_buffers_def Let_def split: if_splits)
  have col: "ptr_in_column (unat (mp_priority pkt) mod 3) (Some ?k)"
    using k inv by (simp add: ptr_in_column_def mac_inv_defs buffer_index_def MCCBUF_PRIOS_def)
  from True have "mp_priority pkt = 1 \<or> mp_priority pkt = 2 \<or> mp_priority pkt = 3"
    by (simp add: enqueue_valid)
  with r True k inv col show ?thesis
    by (elim disjE) (auto simp: mcc_enqueue_to_buffers_def Let_def mac_inv_defs PCQ_enqueue_def
        case_prod_beta ptr_queue_ok_enqueue)
qed

lemma mac_inv_send_loop:
  "mac_inv p s \<Longrightarrow> send_loop p ts b cs pkt res s = Some (e, pkt', s') \<Longrightarrow> mac_inv p s'"
  by (induction p ts b cs pkt res s rule: send_loop.induct)
    (auto simp: Let_def split: option.splits prod.splits dest: mac_inv_enqueue)

lemma mac_inv_add_discarded: "mac_inv p s \<Longrightarrow> mac_inv p (add_discarded k n s)"
  by (simp add: mac_inv_defs add_discarded_def)

lemma mac_inv_send:
  "mac_inv p s \<Longrightarrow> MacSend_send p ts pkt s = Some (e, pkt', s') \<Longrightarrow> mac_inv p s'"
  by (auto simp: MacSend_send_def Let_def mac_inv_add_discarded split: if_splits
      dest: mac_inv_send_loop)

lemma mac_inv_receive_own: "mac_inv p s \<Longrightarrow> receive_own pkt s = Some s' \<Longrightarrow> mac_inv p s'"
proof -
  assume inv: "mac_inv p s" and r: "receive_own pkt s = Some s'"
  have "mac_inv p (x\<lparr>m_nbReceivedPkts := (m_nbReceivedPkts x)[n := v]\<rparr>)" if "mac_inv p x" for x n v
    using that by (simp add: mac_inv_defs)
  with inv r show ?thesis by (auto simp: receive_own_def Let_def split: if_splits)
qed

lemma mac_inv_receive:
  assumes inv: "mac_inv p s" and r: "phyDataReceive_receive p t pkt s = Some s'"
  shows "mac_inv p s'"
  using inv r
  by (auto simp: phyDataReceive_receive_def Let_def bind_Some_iff mac_inv_fault
      split: if_splits dest: mac_inv_enqueue mac_inv_receive_own
        mac_inv_receive_own [OF mac_inv_emit [THEN iffD2]])

section \<open>Transmission slots\<close>

lemma contents_not_null:
  assumes "mac_inv p s" and "x \<in> set (pcq_contents (queue_params p) (m_forwardQueue s))"
  obtains k where "x = Some k" and "k < MCCBUF_DEPTH_PER_PRIO * MCCBUF_PRIOS"
proof -
  have mem: "y \<in> set (q_queue q)" if "y \<in> set (q_contents N q)" and "queue_inv N q"
    for y :: "nat option" and N q
    using that by (auto simp: q_contents_def queue_inv_def)
  from assms have "x \<noteq> None"
    by (cases x) (auto simp: mac_inv_defs pcq_contents_def ptr_queue_ok_def)
  moreover from assms have "\<exists>col. ptr_in_column col x"
    by (auto simp: mac_inv_defs pcq_contents_def ptr_queue_ok_def list_all_iff dest!: mem)
  ultimately show ?thesis using that by (auto simp: ptr_in_column_def split: option.splits)
qed

lemma hi_contents_subset: "set (pcq_hi_contents c q) \<subseteq> set (pcq_contents c q)"
  by (auto simp: pcq_hi_contents_def pcq_contents_def)

definition lo_if_hi :: "mac \<Rightarrow> mac" where
  "lo_if_hi s = (if m_hiCritMode s then mcc_return_to_lo_mode s else s)"

lemma lo_if_hi_frame [simp]:
  "m_forwardQueue (lo_if_hi s) = m_forwardQueue s" "m_hiCritMode (lo_if_hi s) = False"
  "m_forwardPktBuffer (lo_if_hi s) = m_forwardPktBuffer s" "m_phyLock (lo_if_hi s) = m_phyLock s"
  "m_out (lo_if_hi s) = m_out s" "m_radioOff (lo_if_hi s) = m_radioOff s"
  "m_activeFault (lo_if_hi s) = m_activeFault s" "m_discarded (lo_if_hi s) = m_discarded s"
  by (simp_all add: lo_if_hi_def mcc_return_to_lo_mode_def)

lemma mac_inv_lo_if_hi: "mac_inv p s \<Longrightarrow> mac_inv p (lo_if_hi s)"
  by (simp add: lo_if_hi_def mac_inv_lo_mode)

text \<open>What the selection of a packet gives: nothing to send, the first HI packet, or the first
  packet of all when the node is in LO mode or has no HI packet.\<close>

lemma tx_select_spec:
  assumes inv: "mac_inv p s"
  shows "tx_select p s =
    (case (if m_hiCritMode s then pcq_hi_contents (queue_params p) (m_forwardQueue s) else []) of
       x # _ \<Rightarrow> (x, SUCCESS, s)
     | [] \<Rightarrow>
         (case pcq_contents (queue_params p) (m_forwardQueue s) of
            x # _ \<Rightarrow> (x, SUCCESS, lo_if_hi s)
          | [] \<Rightarrow> (null_elt (m_forwardQueue s), FAIL, mcc_clear_node_ack_fails (lo_if_hi s))))"
proof -
  note heads = PCQ_head_spec [OF mac_inv_pcq [OF inv]] PCQ_headHI_spec [OF mac_inv_pcq [OF inv]]
  show ?thesis
    by (cases "pcq_hi_contents (queue_params p) (m_forwardQueue s)";
        cases "pcq_contents (queue_params p) (m_forwardQueue s)")
      (simp_all add: tx_select_def heads Let_def lo_if_hi_def mcc_return_to_lo_mode_def)
qed

lemma mac_inv_tx_send: "mac_inv p s \<Longrightarrow> mac_inv p (tx_send p t r pkt s)"
  by (simp add: tx_send_def Let_def) (simp add: mac_inv_defs emit_def)

lemma mac_inv_clear_fails:
  "mac_inv p s \<Longrightarrow> \<not> m_hiCritMode s \<Longrightarrow> mac_inv p (mcc_clear_node_ack_fails s)"
  by (simp add: mac_inv_defs mcc_clear_node_ack_fails_def mac_consts)

text \<open>A transmission slot never spins in \<open>while (1)\<close> and never follows a stray pointer.\<close>

lemma handle_tx_slot_returns:
  assumes inv: "mac_inv p s"
  obtains s' where "handle_tx_slot p t r s = Some s'" and "mac_inv p s'"
proof -
  let ?c = "queue_params p" and ?q = "m_forwardQueue s"
  note result = that
  have send: thesis if sel: "tx_select p s = (x, SUCCESS, s2)" and x: "x \<in> set (pcq_contents ?c ?q)"
    and s2: "mac_inv p s2" for x s2
  proof -
    from inv x obtain k where k: "x = Some k" "k < MCCBUF_DEPTH_PER_PRIO * MCCBUF_PRIOS"
      by (rule contents_not_null)
    moreover have "length (m_forwardPktBuffer s2) = MCCBUF_DEPTH_PER_PRIO * MCCBUF_PRIOS"
      using s2 by (simp add: mac_inv_defs)
    ultimately show thesis using result sel s2
      by (simp add: handle_tx_slot_def mac_inv_tx_send)
  qed
  show thesis
  proof (cases "if m_hiCritMode s then pcq_hi_contents ?c ?q else []")
    case (Cons x xs)
    then have "x \<in> set (pcq_hi_contents ?c ?q)" by (auto split: if_splits)
    then have x: "x \<in> set (pcq_contents ?c ?q)" by (rule subsetD [OF hi_contents_subset])
    show thesis by (rule send [OF _ x inv]) (simp add: tx_select_spec [OF inv] Cons)
  next
    case Nil
    show thesis
    proof (cases "pcq_contents ?c ?q")
      case (Cons x xs)
      then have x: "x \<in> set (pcq_contents ?c ?q)" by simp
      show thesis
        by (rule send [OF _ x mac_inv_lo_if_hi [OF inv]])
          (simp add: tx_select_spec [OF inv] Nil Cons)
    next
      case empty: Nil
      have "PCQ_empty ?q"
        using PCQ_head_FAIL_empty [of ?q] PCQ_head_spec [OF mac_inv_pcq [OF inv]] empty by simp
      then have "PCQ_size ?q = 0" by (rule PCQ_empty_size)
      with result mac_inv_clear_fails [OF mac_inv_lo_if_hi [OF inv]] show thesis
        by (simp add: handle_tx_slot_def tx_select_spec [OF inv] Nil empty
            mcc_clear_node_ack_fails_def)
    qed
  qed
qed


section \<open>Reachable states\<close>

inductive mac_step :: "mac_params \<Rightarrow> mac \<Rightarrow> mac \<Rightarrow> bool" for p :: mac_params where
  booted: "mac_step p s (Boot_booted s)"
| start: "mac_step p s (snd (MacPowerControl_start r s))"
| stop: "mac_step p s (snd (MacPowerControl_stop s))"
| startDone: "mac_step p s (RadioPowerControl_startDone p e s)"
| stopDone: "mac_step p s (RadioPowerControl_stopDone s)"
| slot: "Slotter_slot p t r n sl s = Some s' \<Longrightarrow> mac_step p s s'"
| send: "MacSend_send p ts pkt s = Some (e, pkt', s') \<Longrightarrow> mac_step p s s'"
| cancel: "mac_step p s (snd (MacSend_cancel e s))"
| notifDone: "mac_step p s (phyNotificationSend_sendDone e s)"
| notif: "mac_step p s (phyNotificationReceive_receive p src sl s)"
| dataDone: "mac_step p s (phyDataSend_sendDone p acked e s)"
| data: "phyDataReceive_receive p t pkt s = Some s' \<Longrightarrow> mac_step p s s'"
| slotLength: "mac_step p s (Frame_setSlotLength n s)"
| frameLength: "mac_step p s (Frame_setFrameLength k s)"
| getSlotLength: "mac_step p s (snd (Frame_getSlotLength n s))"
| faultClear: "mac_step p s (FaultClearTimer_fired s)"

inductive mac_reachable :: "mac_params \<Rightarrow> mac \<Rightarrow> bool" for p :: mac_params where
  power_on: "mac_reachable p (mac_static p)"
| init: "mac_reachable p (snd (Init_init p (mac_static p)))"
| step: "mac_reachable p s \<Longrightarrow> mac_step p s s' \<Longrightarrow> mac_reachable p s'"

lemma fold_update_length [simp]: "length (fold (\<lambda>i t. t[f i := g i]) is t) = length t"
  by (induction "is" arbitrary: t) simp_all

lemma mac_inv_Init: "mac_params_ok p \<Longrightarrow> mac_inv p (snd (Init_init p (mac_static p)))"
proof -
  assume ok: "mac_params_ok p"
  have *: "mac_inv p (s\<lparr>m_currentSlot := a, m_discarded := [0, 0, 0], m_slotSize := b,
            m_inSync := c, m_sequenceCount := d, m_node_ack_fails := 0,
            m_init := e, m_requestStop := f, m_radioOff := g, m_phyLock := h,
            m_slotterInit := i, m_superFrameLength := j, m_currFrameSize := k,
            m_nbReceivedPkts := fold (\<lambda>i t. t[i := 0]) is (m_nbReceivedPkts s),
            m_receptionHistory := l, m_i := m\<rparr>)"
    if "mac_inv p s" "\<not> m_hiCritMode s" "length l = length (m_receptionHistory s)" for s a b c d e f g h i j k l m "is"
    using that by (simp add: mac_inv_defs mac_consts)
  have "\<not> m_hiCritMode (mac_static p)" by (simp add: mac_static_def)
  from * [OF mac_inv_static [OF ok] this] show ?thesis
    by (simp add: Init_init_def Let_def mac_inv_setup_table length_clear_loop)
qed

lemma mac_inv_slot_begin: "mac_inv p s \<Longrightarrow> mac_inv p (slot_begin p slot s)"
proof -
  have "mac_inv p (x\<lparr>m_currentSlot := a, m_localSlot := b, m_prevSlot := c\<rparr>) = mac_inv p x"
    "mac_inv p (x\<lparr>m_currentSlot := a, m_prevSlot := c\<rparr>) = mac_inv p x" for x a b c
    by (simp_all add: mac_inv_defs)
  then show "mac_inv p s \<Longrightarrow> mac_inv p (slot_begin p slot s)"
    by (simp add: slot_begin_def Let_def mac_inv_setup_table)
qed

lemma mac_inv_sink_notify: "mac_inv p s \<Longrightarrow> mac_inv p (sink_notify p n l s)"
proof -
  have "mac_inv p (x\<lparr>m_selfNotificationPkt := c\<rparr>) = mac_inv p x" for x c
    by (simp add: mac_inv_defs)
  then show "mac_inv p s \<Longrightarrow> mac_inv p (sink_notify p n l s)"
    by (simp add: sink_notify_def Let_def)
qed

lemma slot_leds_inv [simp]: "mac_inv p (slot_leds slot s) = mac_inv p s"
  by (simp add: slot_leds_def)

lemma slot_leds_table [simp]: "m_mccSchedTable (emit e (slot_leds slot s)) = m_mccSchedTable s"
  by (simp add: slot_leds_def emit_def)

lemma mac_inv_slot:
  assumes inv: "mac_inv p s" and sl: "unat slot < MAX_SLOTS"
  obtains s' where "Slotter_slot p t r n slot s = Some s'" and "mac_inv p s'"
proof -
  have beg: "mac_inv p (slot_begin p slot s)" by (rule mac_inv_slot_begin [OF inv])
  then have "length (m_mccSchedTable (slot_begin p slot s)) = MAX_SLOTS"
    by (simp add: mac_inv_defs)
  with sl obtain a where a: "get_mcc_action (m_mccSchedTable (slot_begin p slot s)) slot = Some a"
    by (simp add: get_mcc_action_def)
  define s5 where "s5 = (if slot = 1 \<and> TOS_NODE_ID p = SINK_NODE_ID
    then sink_notify p n (m_localSlot (slot_begin p slot s)) (emit PrintfFlush (slot_leds slot (slot_begin p slot s)))
    else emit PrintfFlush (slot_leds slot (slot_begin p slot s)))"
  have s5: "mac_inv p s5" using beg by (auto simp: s5_def mac_inv_sink_notify)
  have eq: "Slotter_slot p t r n slot s =
      (if slot \<noteq> 1 \<and> a = A_TX then handle_tx_slot p t r s5 else Some s5)"
    using a by (simp add: Slotter_slot_def s5_def Let_def)
  from s5 obtain s' where "handle_tx_slot p t r s5 = Some s'" "mac_inv p s'"
    by (rule handle_tx_slot_returns)
  with that eq s5 show thesis by (cases "slot \<noteq> 1 \<and> a = A_TX") simp_all
qed

lemma Slotter_slot_range:
  assumes inv: "mac_inv p s" and some: "Slotter_slot p t r n slot s = Some s'"
  shows "unat slot < MAX_SLOTS"
proof (rule ccontr)
  assume "\<not> unat slot < MAX_SLOTS"
  moreover have "length (m_mccSchedTable (slot_begin p slot s)) = MAX_SLOTS"
    using mac_inv_slot_begin [OF inv] by (simp add: mac_inv_defs)
  ultimately show False
    using some by (simp add: Slotter_slot_def Let_def get_mcc_action_def)
qed

lemma mac_step_inv: "mac_step p s s' \<Longrightarrow> mac_inv p s \<Longrightarrow> mac_inv p s'"
proof (induction rule: mac_step.induct)
  case (slot t r n sl s s')
  then show ?case using mac_inv_slot [OF slot(2) Slotter_slot_range [OF slot(2) slot(1)]]
    by (metis option.inject)
next
  case (startDone s e)
  have "mac_inv p (x\<lparr>m_radioOff := b\<rparr>) = mac_inv p x" "mac_inv p (x\<lparr>m_init := b\<rparr>) = mac_inv p x"
    for x b by (simp_all add: mac_inv_defs)
  with startDone show ?case by (simp add: RadioPowerControl_startDone_def Let_def)
next
  case (stop s)
  have "mac_inv p (s\<lparr>m_requestStop := True\<rparr>) = mac_inv p s" by (simp add: mac_inv_defs)
  with stop show ?case by (simp add: MacPowerControl_stop_def)
next
  case (stopDone s)
  then show ?case by (simp add: RadioPowerControl_stopDone_def mac_inv_defs)
next
  case (slotLength s n)
  have "mac_inv p (s\<lparr>m_slotSize := n\<rparr>) = mac_inv p s" by (simp add: mac_inv_defs)
  with slotLength show ?case by (simp add: Frame_setSlotLength_def Let_def)
next
  case (frameLength s k)
  have "mac_inv p (s\<lparr>m_currFrameSize := k\<rparr>) = mac_inv p s" by (simp add: mac_inv_defs)
  with frameLength show ?case by (simp add: Frame_setFrameLength_def Let_def)
next
  case (getSlotLength s n)
  then show ?case by (simp add: Frame_getSlotLength_def mac_inv_defs)
next
  case (faultClear s)
  then show ?case by (simp add: FaultClearTimer_fired_def mac_inv_defs)
qed (auto simp: Boot_booted_def MacPowerControl_start_def MacSend_cancel_def
    phyNotificationSend_sendDone_def mac_inv_sendDone mac_inv_notification
    intro: mac_inv_send mac_inv_receive)

lemma mac_reachable_inv: "mac_reachable p s \<Longrightarrow> mac_params_ok p \<Longrightarrow> mac_inv p s"
  by (induction rule: mac_reachable.induct)
    (auto intro: mac_inv_static mac_inv_Init mac_step_inv)

end
