(* ===== verification/AirtightProperties.thy ===== *)
theory AirtightProperties
  imports TdmaMacProps
begin

text \<open>
  What the AirTight MAC does on its transmission, acknowledgement and admission paths: the
  properties of \<open>apps/MCCTable/TdmaMacP.nc\<close> over its reachable states, with closed witnesses on
  a deployed configuration, and the paths on which the code loses or overwrites packets.
\<close>

section \<open>A deployed node\<close>

text \<open>Node 3 with the criticality settings of \<open>priocrit0.nc\<close>: priority 1 LO, 2 and 3 HI.\<close>

definition node3 :: mac_params where
  "node3 = \<lparr>TOS_NODE_ID = 3,
     queue_params = \<lparr>QUEUE_SIZE = 20, hiCrit1 = 0, hiCrit2 = 1, hiCrit3 = 1\<rparr>,
     USE_FAULTS = False\<rparr>"

lemma node3_ok [simp]: "mac_params_ok node3"
  by (simp add: mac_params_ok_def node3_def)

lemma node3_power_on [simp]: "mac_reachable node3 (mac_static node3)"
  by (rule mac_reachable.power_on)

lemma static_level [simp]: "pcq_level (queue_params p) (m_forwardQueue (mac_static p)) lv = []"
  by (simp add: mac_static_def pcq_level_def PCQ_init_def q_contents_init)

lemma static_modes [simp]: "\<not> m_hiCritMode (mac_static p)" "\<not> m_phyLock (mac_static p)"
  "m_node_ack_fails (mac_static p) = 0"
  by (simp_all add: mac_static_def)

text \<open>Runs of node 3: a send by the application (one frame of priority 1, with a flow id), a slot,
  and the radio's report on the last frame.\<close>

datatype op3 = Send u8 | Slot u8 | Acked | Unacked

definition step3 :: "op3 \<Rightarrow> mac \<Rightarrow> mac" where
  "step3 x s =
     (case x of
        Send f \<Rightarrow>
          (case MacSend_send node3 (\<lambda>_. 0)
              (zero_pkt\<lparr>mp_crit_level := HI, mp_priority := 1, mp_c := 1, mp_flow_id := f\<rparr>) s of
             Some (_, _, s') \<Rightarrow> s' | None \<Rightarrow> s)
      | Slot k \<Rightarrow> (case Slotter_slot node3 0 SUCCESS SUCCESS k s of Some s' \<Rightarrow> s' | None \<Rightarrow> s)
      | Acked \<Rightarrow> phyDataSend_sendDone node3 True SUCCESS s
      | Unacked \<Rightarrow> phyDataSend_sendDone node3 False SUCCESS s)"

definition run3 :: "op3 list \<Rightarrow> mac" where
  "run3 ops = fold step3 ops (mac_static node3)"

lemma step3_reachable: "mac_reachable node3 s \<Longrightarrow> mac_reachable node3 (step3 x s)"
  by (auto simp: step3_def split: op3.split option.split intro: mac_reachable.step mac_step.intros)

lemma run3_reachable: "mac_reachable node3 (run3 ops)"
proof -
  have "mac_reachable node3 s \<Longrightarrow> mac_reachable node3 (fold step3 ops s)" for s
    by (induction ops arbitrary: s) (simp_all add: step3_reachable)
  then show ?thesis by (simp add: run3_def)
qed

section \<open>Lemmas for the properties\<close>

definition service_order :: "mac_params \<Rightarrow> mac \<Rightarrow> nat option list" where
  "service_order p s =
     (if m_hiCritMode s \<and> pcq_hi_contents (queue_params p) (m_forwardQueue s) \<noteq> []
      then pcq_hi_contents (queue_params p) (m_forwardQueue s)
      else pcq_contents (queue_params p) (m_forwardQueue s))"

lemma service_order_subset:
  "set (service_order p s) \<subseteq> set (pcq_contents (queue_params p) (m_forwardQueue s))"
  by (auto simp: service_order_def dest: subsetD [OF hi_contents_subset])

lemma handle_tx_slot_spec:
  assumes inv: "mac_inv p s"
  shows "handle_tx_slot p t r s =
    (case service_order p s of
       [] \<Rightarrow> Some (mcc_clear_node_ack_fails (lo_if_hi s))
     | x # _ \<Rightarrow> Some (tx_send p t r (m_forwardPktBuffer s ! the x)
         (if m_hiCritMode s \<and> pcq_hi_contents (queue_params p) (m_forwardQueue s) = []
          then mcc_return_to_lo_mode s else s)))"
proof (cases "service_order p s")
  case Nil
  then have e: "pcq_contents (queue_params p) (m_forwardQueue s) = []"
    "pcq_hi_contents (queue_params p) (m_forwardQueue s) = []"
    using hi_contents_subset [of "queue_params p" "m_forwardQueue s"]
    by (auto simp: service_order_def split: if_splits)
  have "PCQ_empty (m_forwardQueue s)"
    using PCQ_head_FAIL_empty [of "m_forwardQueue s"] PCQ_head_spec [OF mac_inv_pcq [OF inv]] e
    by simp
  then have "PCQ_size (m_forwardQueue s) = 0" by (rule PCQ_empty_size)
  then show ?thesis using Nil
    by (simp add: handle_tx_slot_def tx_select_spec [OF inv] e mcc_clear_node_ack_fails_def)
next
  case (Cons x xs)
  then have "x \<in> set (pcq_contents (queue_params p) (m_forwardQueue s))"
    using service_order_subset [of p s] by auto
  with inv obtain k where k: "x = Some k" "k < MCCBUF_DEPTH_PER_PRIO * MCCBUF_PRIOS"
    by (rule contents_not_null)
  moreover have "length (m_forwardPktBuffer s) = MCCBUF_DEPTH_PER_PRIO * MCCBUF_PRIOS"
    using inv by (simp add: mac_inv_defs)
  ultimately show ?thesis using Cons
    by (auto simp: handle_tx_slot_def tx_select_spec [OF inv] service_order_def lo_if_hi_def
        mcc_return_to_lo_mode_def split: list.splits if_splits)
qed

lemma after_fail_queue:
  assumes "mac_crit_ok s"
  shows "m_forwardQueue (after_fail p s) =
    (if m_node_ack_fails s = 3 then PCQ_clear (queue_params p) (m_forwardQueue s)
     else if m_node_ack_fails s = 1 then PCQ_clearLO (queue_params p) (m_forwardQueue s)
     else m_forwardQueue s)"
proof -
  have "m_node_ack_fails s = 0 \<or> m_node_ack_fails s = 1 \<or> m_node_ack_fails s = 2 \<or>
      m_node_ack_fails s = 3"
    using assms by (simp add: mac_crit_ok_def mac_consts) unat_arith
  with assms show ?thesis
    by (elim disjE) (simp_all add: after_fail_def Let_def mcc_check_to_go_high_def
        mcc_register_failed_ack_def add_discarded_def mac_crit_ok_def mac_consts word_le_nat_alt)
qed


text \<open>Whether a priority level is of HI criticality.\<close>

definition hi_level :: "pcq_params \<Rightarrow> u8 \<Rightarrow> bool" where
  "hi_level c lv \<longleftrightarrow> (lv = 1 \<and> hiCrit1 c \<noteq> 0) \<or> (lv = 2 \<and> hiCrit2 c \<noteq> 0) \<or> (lv = 3 \<and> hiCrit3 c \<noteq> 0)"

lemma clear_level: "pcq_level c (PCQ_clear c q) lv = []"
  by (simp add: pcq_level_def pcq_cmds)

lemma clearLO_level:
  "pcq_level c (PCQ_clearLO c q) lv = (if hi_level c lv then pcq_level c q lv else [])"
  by (simp add: pcq_level_def hi_level_def pcq_cmds)

lemma pcq_level_valid: "pcq_level c q lv \<noteq> [] \<Longrightarrow> valid_prio lv"
  by (auto simp: pcq_level_def prio_cases split: if_splits)

lemma increase_frame [simp]:
  "m_forwardQueue (mcc_increase_retransmit_counter k s) = m_forwardQueue s"
  "m_node_ack_fails (mcc_increase_retransmit_counter k s) = m_node_ack_fails s"
  "m_hiCritMode (mcc_increase_retransmit_counter k s) = m_hiCritMode s"
  by (simp_all add: mcc_increase_retransmit_counter_def Let_def)

lemma dequeue_prio_frame [simp]:
  "m_node_ack_fails (dequeue_prio p lv s) = m_node_ack_fails s"
  "m_hiCritMode (dequeue_prio p lv s) = m_hiCritMode s"
  by (simp_all add: dequeue_prio_def)

lemma after_fail_level:
  assumes inv: "mac_inv p s"
  shows "pcq_level (queue_params p) (m_forwardQueue (after_fail p s)) lv =
    (if m_node_ack_fails s = 3 \<or> m_node_ack_fails s = 1 \<and> \<not> hi_level (queue_params p) lv
     then [] else pcq_level (queue_params p) (m_forwardQueue s) lv)"
  using inv by (simp add: mac_inv_def after_fail_queue clear_level clearLO_level)

text \<open>The packet at the head of the buffer is dropped from a level when its criticality allows no
  further attempt.\<close>

lemma ack_failed_level:
  assumes inv: "mac_inv p s"
  shows "pcq_level (queue_params p) (m_forwardQueue (ack_failed p acked s)) lv =
    (let l = pcq_level (queue_params p) (m_forwardQueue (after_fail p s)) lv
     in if lv = mp_priority acked \<and> mcc_check_should_dequeue_packet acked (after_fail p s)
        then tl l else l)"
proof -
  have q: "pcq_inv (queue_params p) (m_forwardQueue (after_fail p s))"
    by (rule mac_inv_pcq [OF mac_inv_after_fail [OF inv]])
  have "pcq_level (queue_params p) x lv = []" if "\<not> valid_prio lv" for x :: "nat option pcq"
    using that pcq_level_valid [of "queue_params p" x lv] by blast
  with q show ?thesis
    by (auto simp: ack_failed_after_fail Let_def dequeue_prio_def PCQ_dequeuePrio_level
        split: option.splits)
qed

section \<open>Admission\<close>

lemma pcq_level_le:
  assumes "mac_inv p s"
  shows "length (pcq_level (queue_params p) (m_forwardQueue s) lv)
    \<le> unat (QUEUE_SIZE (queue_params p))"
  using mac_inv_pcq [OF assms]
  by (auto simp: pcq_level_def pcq_inv_def dest!: queue_inv_size_le)

lemma enqueue_spec:
  assumes inv: "mac_inv p s" and ok: "mac_params_ok p" and prio: "valid_prio (mp_priority pkt)"
  shows "let c = queue_params p; prio = mp_priority pkt; l = pcq_level c (m_forwardQueue s) prio;
           k = length l * MCCBUF_PRIOS + unat prio
         in case mcc_enqueue_to_buffers p pkt t s of
              None \<Rightarrow> length (m_forwardPktBuffer s) \<le> k \<and> (length l = 20 \<or> length l = 19 \<and> prio = 3)
            | Some (e, s') \<Rightarrow> k < length (m_forwardPktBuffer s) \<and> length l \<le> 19 \<and> \<not> (length l = 19 \<and> prio = 3) \<and> e = SUCCESS \<and>
                pcq_level c (m_forwardQueue s') lv =
                  (if lv = prio then l @ [Some k] else pcq_level c (m_forwardQueue s) lv) \<and>
                m_forwardPktBuffer s' = (m_forwardPktBuffer s)[k := pkt
                  \<lparr>mp_local_retransmits := 0, mp_enqueueSlot := m_localSlot s, mp_inject_time := t\<rparr>]"
proof -
  let ?c = "queue_params p" and ?q = "m_forwardQueue s" and ?pr = "mp_priority pkt"
  let ?l = "pcq_level ?c ?q ?pr"
  have N: "unat (QUEUE_SIZE ?c) = 20" using ok by (simp add: mac_params_ok_def)
  have q: "pcq_inv ?c ?q" by (rule mac_inv_pcq [OF inv])
  have le: "length ?l \<le> 20" using pcq_level_le [OF inv] N by simp
  have buf: "length (m_forwardPktBuffer s) = 60" using inv by (simp add: mac_inv_defs mac_consts)
  have idx: "buffer_index (PCQ_sizePrio ?q ?pr) ?pr = length ?l * MCCBUF_PRIOS + unat ?pr"
    by (simp add: buffer_index_def PCQ_sizePrio_level [OF q])
  have set: "?pr \<in> {1, 2, 3}" using prio by (simp add: prio_cases)
  show ?thesis
  proof (cases "length ?l * 3 + unat ?pr < 60")
    case True
    with set have "length ?l < unat (QUEUE_SIZE ?c)" using N by auto
    from PCQ_enqueue_level [OF q set this] show ?thesis
      using True prio buf set
      by (auto simp: Let_def mcc_enqueue_to_buffers_def idx valid_prio_def MCCBUF_PRIOS_def)
  next
    case False
    with set le have "length ?l = 20 \<or> length ?l = 19 \<and> ?pr = 3" by auto
    with False buf prio show ?thesis
      by (simp add: Let_def mcc_enqueue_to_buffers_def idx valid_prio_def MCCBUF_PRIOS_def)
  qed
qed

lemma send_loop_spec:
  assumes "mac_inv p s" and "mac_params_ok p" and "valid_prio (mp_priority pkt)"
    and "length (pcq_level (queue_params p) (m_forwardQueue s) (mp_priority pkt)) + length cs < 20"
  shows "\<exists>pkt' s'. send_loop p ts b cs pkt SUCCESS s = Some (SUCCESS, pkt', s') \<and>
    pcq_level (queue_params p) (m_forwardQueue s') (mp_priority pkt) =
      pcq_level (queue_params p) (m_forwardQueue s) (mp_priority pkt) @
      map (\<lambda>i. Some ((length (pcq_level (queue_params p) (m_forwardQueue s) (mp_priority pkt)) + i)
              * MCCBUF_PRIOS + unat (mp_priority pkt))) [0..<length cs]"
  using assms
proof (induction cs arbitrary: pkt s)
  case Nil
  then show ?case by simp
next
  case (Cons x xs)
  let ?c = "queue_params p" and ?pr = "mp_priority pkt"
  let ?l = "pcq_level ?c (m_forwardQueue s) ?pr"
  let ?pkt = "pkt\<lparr>mp_burst_num := x, mp_seq_num := b + x\<rparr>"
  have pr: "valid_prio (mp_priority ?pkt)" using Cons.prems by simp
  obtain s1 where s1: "mcc_enqueue_to_buffers p ?pkt (ts x) s = Some (SUCCESS, s1)"
    and l1: "pcq_level ?c (m_forwardQueue s1) ?pr = ?l @ [Some (length ?l * MCCBUF_PRIOS + unat ?pr)]"
    using enqueue_spec [OF Cons.prems(1,2) pr, where t = "ts x" and lv = ?pr] Cons.prems(4)
    by (cases "mcc_enqueue_to_buffers p ?pkt (ts x) s") (auto simp: Let_def)
  have i1: "mac_inv p s1" by (rule mac_inv_enqueue [OF Cons.prems(1) s1])
  show ?case
    using Cons.IH [OF i1 Cons.prems(2) pr] Cons.prems(4) s1 l1
    by (simp add: upt_conv_Cons map_Suc_upt [symmetric] o_def del: upt_Suc)
qed

lemma send3_level:
  assumes r: "mac_reachable node3 s" and lo: "\<not> m_hiCritMode s"
    and room: "length (pcq_level (queue_params node3) (m_forwardQueue s) 1) < 19"
  shows "pcq_level (queue_params node3) (m_forwardQueue (step3 (Send f) s)) 1 =
      pcq_level (queue_params node3) (m_forwardQueue s) 1 @
        [Some (length (pcq_level (queue_params node3) (m_forwardQueue s) 1) * 3 + 1)] \<and>
    mp_flow_id (m_forwardPktBuffer (step3 (Send f) s) !
      (length (pcq_level (queue_params node3) (m_forwardQueue s) 1) * 3 + 1)) = f"
proof -
  let ?p = "zero_pkt\<lparr>mp_crit_level := HI, mp_priority := 1, mp_c := 1, mp_flow_id := f,
    mp_burst_num := 0, mp_seq_num := 0\<rparr>"
  have inv: "mac_inv node3 s" by (rule mac_reachable_inv [OF r node3_ok])
  then have "length (m_forwardPktBuffer s) = 60" by (simp add: mac_inv_defs mac_consts)
  then show ?thesis
    using enqueue_spec [OF inv node3_ok, where pkt = ?p and t = 0 and lv = 1] lo room
    by (cases "mcc_enqueue_to_buffers node3 ?p 0 s")
      (auto simp: step3_def MacSend_send_def Let_def prio_cases MCCBUF_PRIOS_def MAX_C_COUNT_def
        zero_pkt_def)
qed

lemma acked3_level:
  assumes r: "mac_reachable node3 s" and "\<not> m_activeFault s"
    and "mp_priority (m_selfDataPkt s) = 1"
  shows "pcq_level (queue_params node3) (m_forwardQueue (step3 Acked s)) 1 =
    tl (pcq_level (queue_params node3) (m_forwardQueue s) 1)"
proof -
  have "pcq_inv (queue_params node3) (m_forwardQueue s)"
    by (rule mac_inv_pcq [OF mac_reachable_inv [OF r node3_ok]])
  with assms(2,3) show ?thesis
    by (simp add: step3_def phyDataSend_sendDone_def Let_def dequeue_prio_def emit_def prio_cases
        record_successfully_sent_frame_def PCQ_dequeuePrio_level)
qed

text \<open>The counter counts missing acknowledgements since it was last cleared, not in a row: one that
  arrives leaves it alone.\<close>

lemma ack_keeps_fail_count:
  "\<not> m_activeFault s \<Longrightarrow> m_node_ack_fails (phyDataSend_sendDone p True e s) = m_node_ack_fails s \<and>
     m_hiCritMode (phyDataSend_sendDone p True e s) = m_hiCritMode s"
  by (simp add: phyDataSend_sendDone_def Let_def emit_def record_successfully_sent_frame_def dequeue_prio_def)

lemma acked3_hi: "\<not> m_activeFault s \<Longrightarrow> m_hiCritMode (step3 Acked s) = m_hiCritMode s"
  by (simp add: step3_def phyDataSend_sendDone_def Let_def emit_def
      record_successfully_sent_frame_def)

lemma pcq_levels_small:
  assumes "pcq_inv c q" and "3 * unat (QUEUE_SIZE c) < 256"
  shows "unat (q_size (prio1Queue q)) + unat (q_size (prio2Queue q))
      + unat (q_size (prio3Queue q)) < 256"
  using assms by (auto simp: pcq_inv_def dest!: queue_inv_size_le)

section \<open>Properties\<close>

text \<open>C1: In every reachable state of the MAC (booted with or without its Init, through any sequence of
  its commands and events) the invariant holds: HI mode is on exactly when the counter of missing
  acknowledgements (which an acknowledgement does not reset: \<open>ack_keeps_fail_count\<close>) stands at two or
  three, it never stands higher, every level of the queue is well formed and holds only pointers into its own column of the
  packet buffer, and the buffer and all tables have their declared sizes.\<close>

theorem mac_reachable_invariant:
  assumes "mac_params_ok p" and "mac_reachable p s"
  shows "mac_inv p s"
  using assms mac_reachable_inv by blast

theorem mac_reachable_invariant_witness:
  "mac_inv node3 (phyDataSend_sendDone node3 False SUCCESS (Boot_booted (mac_static node3)))"
  by (rule mac_reachable_invariant [OF node3_ok])
    (rule mac_reachable.step [OF mac_reachable.step [OF node3_power_on mac_step.booted]
        mac_step.dataDone])

text \<open>C8: In a reachable state the slot event returns, with the invariant kept, exactly for the
  slots of the schedule table: it never enters the \<open>while (1)\<close> of the transmission slot and never
  sends through a stray pointer.\<close>

theorem Slotter_slot_total:
  assumes "mac_params_ok p" and "mac_reachable p s"
  shows "(\<exists>s'. Slotter_slot p t r n slot s = Some s' \<and> mac_inv p s') \<longleftrightarrow> unat slot < MAX_SLOTS"
  using mac_reachable_inv [OF assms(2,1)] Slotter_slot_range mac_inv_slot by metis

theorem Slotter_slot_total_witness:
  "\<exists>s'. Slotter_slot node3 7 SUCCESS SUCCESS 5 (mac_static node3) = Some s' \<and> mac_inv node3 s'"
  using Slotter_slot_total [OF node3_ok node3_power_on, of 7 SUCCESS SUCCESS 5]
  by (simp add: MAX_SLOTS_def)

text \<open>C6: What a transmission slot sends: in HI mode the first packet of the HI levels in priority
  order; in LO mode, or with no HI packet queued (then HI mode is left and the failure count
  reset), the first packet of all levels in priority order; with nothing queued it sends nothing
  and resets the failure count.\<close>

theorem handle_tx_slot_policy:
  assumes "mac_params_ok p" and "mac_reachable p s"
  shows "handle_tx_slot p t r s =
    (case service_order p s of
       [] \<Rightarrow> Some (mcc_clear_node_ack_fails (lo_if_hi s))
     | x # _ \<Rightarrow> Some (tx_send p t r (m_forwardPktBuffer s ! the x)
         (if m_hiCritMode s \<and> pcq_hi_contents (queue_params p) (m_forwardQueue s) = []
          then mcc_return_to_lo_mode s else s)))"
  by (rule handle_tx_slot_spec [OF mac_reachable_inv [OF assms(2,1)]])

theorem handle_tx_slot_policy_witness:
  "handle_tx_slot node3 7 SUCCESS (mac_static node3) =
     Some (mcc_clear_node_ack_fails (lo_if_hi (mac_static node3)))"
  using handle_tx_slot_policy [OF node3_ok node3_power_on, of 7 SUCCESS]
  by (simp add: service_order_def mac_static_def pcq_contents_init)

text \<open>C7: What a missing acknowledgement does in a reachable state: the failure count goes up, to
  zero after the fourth; HI mode is on exactly after the second and third; the second empties the
  LO levels, the fourth all of them; the head of the unacknowledged packet's own level is dropped
  as well when the packet is LO and two or three failures are counted.\<close>

theorem ack_failed_escalation:
  assumes "mac_params_ok p" and "mac_reachable p s"
  shows "m_node_ack_fails (ack_failed p acked s) =
      (if m_node_ack_fails s = 3 then 0 else m_node_ack_fails s + 1) \<and>
    (m_hiCritMode (ack_failed p acked s) \<longleftrightarrow> m_node_ack_fails s \<in> {1, 2}) \<and>
    pcq_level (queue_params p) (m_forwardQueue (ack_failed p acked s)) lv =
      (let l = (if m_node_ack_fails s = 3 \<or>
                   m_node_ack_fails s = 1 \<and> \<not> hi_level (queue_params p) lv
                then [] else pcq_level (queue_params p) (m_forwardQueue s) lv)
       in if lv = mp_priority acked \<and> mp_crit_level acked = LO \<and> m_node_ack_fails s \<in> {1, 2}
          then tl l else l)"
proof -
  let ?n = "m_node_ack_fails s"
  have inv: "mac_inv p s" by (rule mac_reachable_inv [OF assms(2,1)])
  then have n: "?n = 0 \<or> ?n = 1 \<or> ?n = 2 \<or> ?n = 3"
    by (simp add: mac_inv_defs mac_consts) unat_arith
  have af: "mac_crit_ok (after_fail p s)"
    "m_node_ack_fails (after_fail p s) = (if ?n = 3 then 0 else ?n + 1)"
    using after_fail_crit [of s p] inv by (simp_all add: mac_inv_def)
  then have hi: "m_hiCritMode (after_fail p s) \<longleftrightarrow> ?n \<in> {1, 2}"
    using n by (auto simp: mac_crit_ok_def mac_consts word_le_nat_alt)
  have "mcc_check_should_dequeue_packet acked (after_fail p s) \<longleftrightarrow>
      mp_crit_level acked = LO \<and> ?n \<in> {1, 2}"
    using n af by (cases "mp_crit_level acked")
      (auto simp: mcc_check_should_dequeue_packet_def mac_consts word_le_nat_alt)
  moreover have "m_node_ack_fails (ack_failed p acked s) = m_node_ack_fails (after_fail p s)"
    "m_hiCritMode (ack_failed p acked s) = m_hiCritMode (after_fail p s)"
    by (simp_all add: ack_failed_after_fail Let_def split: option.split)
  ultimately show ?thesis using af hi
    by (simp add: ack_failed_level [OF inv] after_fail_level [OF inv])
qed

theorem ack_failed_escalation_witness:
  "m_node_ack_fails (ack_failed node3 zero_pkt (mac_static node3)) = 1 \<and>
   \<not> m_hiCritMode (ack_failed node3 zero_pkt (mac_static node3))"
  using ack_failed_escalation [OF node3_ok node3_power_on, of zero_pkt 1]
  by (simp add: mac_static_def)


text \<open>C9: Admission of one packet of a valid priority, in a reachable state. Exactly with 20 packets queued
  at the level, or 19 at priority 3, the row of the level's length lies past the end of
  forwardPktBuffer and the code writes outside it. Otherwise it returns SUCCESS, the packet joins the
  tail of its level, stored inside the buffer in that row, and no other level or row changes.\<close>

theorem enqueue_to_buffers_spec:
  assumes "mac_params_ok p" and "mac_reachable p s" and "valid_prio (mp_priority pkt)"
  shows "let c = queue_params p; prio = mp_priority pkt; l = pcq_level c (m_forwardQueue s) prio;
           k = length l * MCCBUF_PRIOS + unat prio
         in case mcc_enqueue_to_buffers p pkt t s of
              None \<Rightarrow> length (m_forwardPktBuffer s) \<le> k \<and> (length l = 20 \<or> length l = 19 \<and> prio = 3)
            | Some (e, s') \<Rightarrow> k < length (m_forwardPktBuffer s) \<and> length l \<le> 19 \<and> \<not> (length l = 19 \<and> prio = 3) \<and> e = SUCCESS \<and>
                pcq_level c (m_forwardQueue s') lv =
                  (if lv = prio then l @ [Some k] else pcq_level c (m_forwardQueue s) lv) \<and>
                m_forwardPktBuffer s' = (m_forwardPktBuffer s)[k := pkt
                  \<lparr>mp_local_retransmits := 0, mp_enqueueSlot := m_localSlot s, mp_inject_time := t\<rparr>]"
  by (rule enqueue_spec [OF mac_reachable_inv [OF assms(2,1)] assms(1,3)])

theorem enqueue_to_buffers_spec_witness:
  "\<exists>s'. mcc_enqueue_to_buffers node3 (zero_pkt\<lparr>mp_priority := 2\<rparr>) 9 (mac_static node3)
     = Some (SUCCESS, s')"
  using enqueue_to_buffers_spec [OF node3_ok node3_power_on, where pkt = "zero_pkt\<lparr>mp_priority := 2\<rparr>" and t = 9
      and lv = 2]
  by (auto simp: Let_def prio_cases split: option.splits prod.splits)

text \<open>The MAC's send, out of HI mode or for a HI packet of a valid priority, admits
  \<open>min(c, MAX_C_COUNT)\<close> frames to the packet's level, in consecutive buffer rows from the level's
  length on, and returns SUCCESS, when the level has room for three more below row 19.\<close>

theorem MacSend_send_burst:
  assumes "mac_params_ok p" and "mac_reachable p s" and "valid_prio (mp_priority pkt)"
    and "m_hiCritMode s \<longrightarrow> mp_crit_level pkt = HI"
    and "length (pcq_level (queue_params p) (m_forwardQueue s) (mp_priority pkt)) + 3 < 20"
  shows "\<exists>pkt' s'. MacSend_send p ts pkt s = Some (SUCCESS, pkt', s') \<and>
    pcq_level (queue_params p) (m_forwardQueue s') (mp_priority pkt) =
      pcq_level (queue_params p) (m_forwardQueue s) (mp_priority pkt) @
      map (\<lambda>i. Some ((length (pcq_level (queue_params p) (m_forwardQueue s) (mp_priority pkt)) + i)
              * MCCBUF_PRIOS + unat (mp_priority pkt)))
        [0..<min (unat (mp_c pkt)) 3]"
proof -
  let ?lim = "if MAX_C_COUNT < mp_c pkt then MAX_C_COUNT else mp_c pkt"
  have lim: "unat ?lim = min (unat (mp_c pkt)) 3"
    by (simp add: MAX_C_COUNT_def word_less_nat_alt min_def)
  have run: "MacSend_send p ts pkt s =
      send_loop p ts (mp_seq_num pkt) (map of_nat [0..<unat ?lim]) pkt SUCCESS s"
    using assms(4) by (auto simp: MacSend_send_def Let_def)
  show ?thesis unfolding run lim
    using send_loop_spec [OF mac_reachable_inv [OF assms(2,1)] assms(1,3), of
        "map of_nat [0..<min (unat (mp_c pkt)) 3]" ts "mp_seq_num pkt"] assms(5)
    by simp
qed

theorem MacSend_send_burst_witness:
  "\<exists>pkt' s'. MacSend_send node3 (\<lambda>_. 0) (zero_pkt\<lparr>mp_priority := 1, mp_c := 9\<rparr>) (mac_static node3)
      = Some (SUCCESS, pkt', s') \<and>
    pcq_level (queue_params node3) (m_forwardQueue s') 1 = [Some 1, Some 4, Some 7]"
  using MacSend_send_burst [OF node3_ok node3_power_on, of "zero_pkt\<lparr>mp_priority := 1, mp_c := 9\<rparr>"
      "\<lambda>_. 0"]
  by (simp add: prio_cases upt_rec MCCBUF_PRIOS_def)

text \<open>C11: When a transmission slot fires while a frame is still in flight (phyLock set), nothing is
  sent, yet selfDataPkt is replaced by the packet now selected: the priority the pending sendDone
  will dequeue is that packet's, not the priority of the frame the radio sent.\<close>

theorem tx_while_locked_replaces_packet:
  assumes "mac_params_ok p" and "mac_reachable p s" and "m_phyLock s"
    and "service_order p s = Some k # rest"
  shows "\<exists>s'. handle_tx_slot p t r s = Some s' \<and> m_out s' = m_out s \<and>
    mp_priority (m_selfDataPkt s') = mp_priority (m_forwardPktBuffer s ! k) \<and>
    (valid_prio (mp_priority (m_forwardPktBuffer s ! k)) \<and> \<not> m_activeFault s \<longrightarrow>
      pcq_level (queue_params p) (m_forwardQueue (phyDataSend_sendDone p True e s'))
          (mp_priority (m_forwardPktBuffer s ! k)) =
        tl (pcq_level (queue_params p) (m_forwardQueue s)
          (mp_priority (m_forwardPktBuffer s ! k))))"
proof -
  have inv: "mac_inv p s" by (rule mac_reachable_inv [OF assms(2,1)])
  define u where "u = (if m_hiCritMode s \<and> pcq_hi_contents (queue_params p) (m_forwardQueue s) = []
    then mcc_return_to_lo_mode s else s)"
  have u: "m_out u = m_out s" "m_forwardQueue u = m_forwardQueue s" "m_phyLock u"
    "m_activeFault u = m_activeFault s"
    using assms(3) by (simp_all add: u_def mcc_return_to_lo_mode_def)
  define v where "v = tx_send p t r (m_forwardPktBuffer s ! k) u"
  have v: "handle_tx_slot p t r s = Some v" "m_out v = m_out s"
    "m_forwardQueue v = m_forwardQueue s" "m_activeFault v = m_activeFault s"
    "mp_priority (m_selfDataPkt v) = mp_priority (m_forwardPktBuffer s ! k)"
    using u assms(4)
    by (simp_all add: handle_tx_slot_spec [OF inv] u_def [symmetric] v_def)
      (simp_all add: v_def tx_send_def Let_def)
  have fwd: "m_forwardQueue (record_successfully_sent_frame x y) = m_forwardQueue y" for x y
    by (simp add: record_successfully_sent_frame_def Let_def)
  from v show ?thesis
    by (auto simp: phyDataSend_sendDone_def Let_def dequeue_prio_def emit_def fwd
        PCQ_dequeuePrio_level [OF mac_inv_pcq [OF inv]])
qed


theorem tx_while_locked_witness:
  "\<exists>s'. handle_tx_slot node3 0 SUCCESS (run3 [Send 1, Slot 5]) = Some s' \<and>
     m_out s' = m_out (run3 [Send 1, Slot 5])"
proof -
  have "m_phyLock (run3 [Send 1, Slot 5]) \<and>
      service_order node3 (run3 [Send 1, Slot 5]) = Some 1 # []" by code_simp
  with tx_while_locked_replaces_packet [OF node3_ok run3_reachable, of "[Send 1, Slot 5]" 1 "[]"]
  show ?thesis by blast
qed

text \<open>C12: On node 3 a packet can be lost in the buffer: there is a reachable state in which level 1 holds
  two queue entries that are the same pointer, after two sends, a transmission with its
  acknowledgement and a third send, because the buffer row of a new packet is the current length
  of its level.\<close>

theorem buffer_row_reused:
  "\<exists>s. mac_reachable node3 s \<and>
     pcq_level (queue_params node3) (m_forwardQueue s) 1 = [Some 4, Some 4] \<and>
     mp_flow_id (m_forwardPktBuffer s ! 4) = 3"
proof -
  define s4 where "s4 = run3 [Send 1, Send 2, Slot 5]"
  have s4: "pcq_level (queue_params node3) (m_forwardQueue s4) 1 = [Some 1, Some 4] \<and>
      \<not> m_hiCritMode s4 \<and> \<not> m_activeFault s4 \<and> mp_priority (m_selfDataPkt s4) = 1"
    unfolding s4_def by code_simp
  have r4: "mac_reachable node3 s4" unfolding s4_def by (rule run3_reachable)
  have r5: "mac_reachable node3 (step3 Acked s4)" by (rule step3_reachable [OF r4])
  have s5: "pcq_level (queue_params node3) (m_forwardQueue (step3 Acked s4)) 1 = [Some 4]"
    "\<not> m_hiCritMode (step3 Acked s4)"
    using s4 by (simp_all add: acked3_level [OF r4] acked3_hi)
  have "mac_reachable node3 (step3 (Send 3) (step3 Acked s4))" by (rule step3_reachable [OF r5])
  with send3_level [OF r5 s5(2), of 3] s5(1) show ?thesis by auto
qed

text \<open>C10: A data frame addressed to this node, other than the fault-injection frame, is handled in a
  reachable state exactly when a slot of the table is current and its source is one of the
  MAX_NODES nodes; otherwise the code reads past the slot table or counts it outside
  nbReceivedPkts. When handled, the frame is signalled to the application, counted, and put at
  the head of the reception history, whose oldest record is dropped.\<close>

theorem receive_own_frame:
  assumes "mac_params_ok p" and "mac_reachable p s"
    and "ucast (mp_dst pkt) = TOS_NODE_ID p" and "mp_src pkt \<noteq> 0x69 \<or> mp_dst pkt \<noteq> 0x23"
  shows "case phyDataReceive_receive p t pkt s of
      None \<Rightarrow> MAX_SLOTS \<le> unat (m_currentSlot s) \<or> MAX_NODES \<le> unat (mp_src pkt)
    | Some s' \<Rightarrow> unat (m_currentSlot s) < MAX_SLOTS \<and> unat (mp_src pkt) < MAX_NODES \<and>
        last (m_out s') = SigReceive pkt \<and>
        m_receptionHistory s' = \<lparr>rr_seq_num = ucast (mp_seq_num pkt), rr_flow_id = mp_flow_id pkt\<rparr> #
          butlast (m_receptionHistory s) \<and>
        m_nbReceivedPkts s' = (m_nbReceivedPkts s)
          [unat (mp_src pkt) := m_nbReceivedPkts s ! unat (mp_src pkt) + 1] \<and>
        m_forwardQueue s' = m_forwardQueue s"
proof -
  have inv: "mac_inv p s" by (rule mac_reachable_inv [OF assms(2,1)])
  then have "length (m_mccSchedTable s) = MAX_SLOTS" "length (m_nbReceivedPkts s) = MAX_NODES"
    "length (m_receptionHistory s) = 50"
    by (simp_all add: mac_inv_defs RECEPTION_HISTORY_STORAGE_def)
  with assms(3,4) show ?thesis
    by (auto simp: phyDataReceive_receive_def Let_def mcc_should_receive_def receive_own_def
        record_packet_reception_def emit_def roll_right_50 RECEPTION_HISTORY_STORAGE_def)
qed

theorem receive_own_frame_witness:
  "phyDataReceive_receive node3 0 (zero_pkt\<lparr>mp_dst := 3, mp_src := 7\<rparr>) (mac_static node3) = None"
  using receive_own_frame [OF node3_ok node3_power_on, of "zero_pkt\<lparr>mp_dst := 3, mp_src := 7\<rparr>" 0]
  by (auto simp: node3_def MAX_NODES_def split: option.splits)


text \<open>C13: A \<open>QueueC\<close> of capacity N at boot behaves as a FIFO of at most N elements: over every
  sequence of enqueues and dequeues it reports the same statuses and elements as the list
  specification; a full queue refuses with FAIL, an empty one gives nothing.\<close>

theorem QueueC_refines_fifo:
  assumes "N \<noteq> 0"
  shows "fifo_run (Queue_enqueue N) (Queue_dequeue N) Queue_empty (Queue_init N z) ops =
    fifo_spec (unat N) [] ops"
  using queuec.run_spec [OF queue_inv_init [OF assms], of z ops] by (simp add: q_contents_init)

theorem QueueC_refines_fifo_witness:
  "fifo_run (Queue_enqueue 1) (Queue_dequeue 1) Queue_empty (Queue_init 1 (0 :: nat))
     [Enq 4, Enq 5, Deq, Deq] = [Status SUCCESS, Status FAIL, Elem (Some 4), Elem None]"
  using QueueC_refines_fifo [of 1 0 "[Enq 4, Enq 5, Deq, Deq]"] by simp

text \<open>C14: The priority-criticality queue serves its levels in priority order and each level first in,
  first out: dequeue gives and removes the first element of that order; dropping the LO levels
  leaves exactly the HI elements in their order, as many fewer as sizeLO counted.\<close>

theorem PrioCritQueue_service:
  assumes "pcq_inv c q" and "3 * unat (QUEUE_SIZE c) < 256"
  shows "(case pcq_contents c q of
       [] \<Rightarrow> PCQ_empty q \<and> PCQ_dequeue c q = (null_elt q, q)
     | x # xs \<Rightarrow> fst (PCQ_dequeue c q) = x \<and> pcq_contents c (snd (PCQ_dequeue c q)) = xs \<and>
         PCQ_head q = (x, SUCCESS)) \<and>
    pcq_contents c (PCQ_clearLO c q) = pcq_hi_contents c q \<and>
    unat (PCQ_size (PCQ_clearLO c q)) = unat (PCQ_size q) - unat (PCQ_sizeLO c q)"
proof -
  have "unat (PCQ_sizeLO c q) + length (pcq_hi_contents c q) = length (pcq_contents c q)"
    using pcq_levels_small [OF assms]
    by (simp add: PCQ_sizeLO_def Queue_size_def pcq_hi_contents_def pcq_contents_def Let_def
        unat_word_ariths)
  moreover have "unat (PCQ_size (PCQ_clearLO c q)) = length (pcq_hi_contents c q)"
    "unat (PCQ_size q) = length (pcq_contents c q)"
    using PCQ_size_contents [OF assms] PCQ_size_contents [OF pcq_inv_clearLO assms(2), OF assms(1)]
    by (simp_all add: PCQ_clearLO_contents)
  ultimately show ?thesis
    using PCQ_dequeue_contents [OF assms(1)] PCQ_dequeue_fst [OF assms(1)]
      PCQ_head_spec [OF assms(1)] PCQ_head_FAIL_empty [of q]
    by (cases "pcq_contents c q")
      (simp_all add: PCQ_clearLO_contents PCQ_dequeue_def PCQ_empty_def)
qed

theorem PrioCritQueue_service_witness:
  "let c = queue_params node3;
       q = snd (PCQ_enqueue c (snd (PCQ_enqueue c (PCQ_init c (0 :: nat)) 8 3)) 7 1)
   in PCQ_head q = (7, SUCCESS) \<and> pcq_contents c (PCQ_clearLO c q) = [8]"
proof -
  define c where "c = queue_params node3"
  define q where "q = snd (PCQ_enqueue c (snd (PCQ_enqueue c (PCQ_init c (0 :: nat)) 8 3)) 7 1)"
  have con: "pcq_contents c q = [7, 8]" "pcq_hi_contents c q = [8]"
    unfolding q_def c_def by code_simp+
  have c: "QUEUE_SIZE c \<noteq> 0" "3 * unat (QUEUE_SIZE c) < 256" by (simp_all add: c_def node3_def)
  have "pcq_inv c q" unfolding q_def by (intro pcq_inv_enqueue pcq_inv_init c)
  from PrioCritQueue_service [OF this c(2)] con show ?thesis
    by (simp add: Let_def q_def [symmetric] c_def [symmetric])
qed

end
