(* ===== verification/GenericSlotter.thy ===== *)
theory GenericSlotter
  imports QueueC
begin

text \<open>
  The slot clock of the MAC, \<open>tos/system/GenericSlotterP.nc\<close>: an alarm that counts slots modulo the
  frame length and signals each. \<open>now\<close> is what \<open>Alarm.getNow\<close> answers. The event \<open>Slotter.slot\<close> is
  a parameter: what its handler does to the rest of the node (\<open>'e\<close>) and to the slotter. \<open>alarm\<close> is
  the delay of the last \<open>Alarm.start\<close> that was neither stopped nor has fired.
\<close>

record slotter =
  sl_slot :: u8
  slotLength :: u32
  frameLength :: u8
  sl_sync :: bool
  nextFire :: u32
  alarm :: "u32 option"

definition slotter_static :: slotter where
  "slotter_static = \<lparr>sl_slot = 0, slotLength = 0, frameLength = 0, sl_sync = False, nextFire = 0, alarm = None\<rparr>"

definition Slotter_init :: "slotter \<Rightarrow> error_t \<times> slotter" where
  "Slotter_init s = (SUCCESS, s\<lparr>slotLength := 320, frameLength := 17, sl_sync := False\<rparr>)"

definition AsyncStdControl_start :: "u32 \<Rightarrow> slotter \<Rightarrow> error_t \<times> slotter" where
  "AsyncStdControl_start now s = (SUCCESS, s\<lparr>nextFire := now + slotLength s\<rparr>)"

definition AsyncStdControl_stop :: "slotter \<Rightarrow> error_t \<times> slotter" where
  "AsyncStdControl_stop s = (SUCCESS, s\<lparr>alarm := None\<rparr>)"

text \<open>\<open>(slot + 1) % frameLength\<close>, computed in an int; None is the division by zero.\<close>

definition next_slot :: "slotter \<Rightarrow> u8 option" where
  "next_slot s =
     (if frameLength s = 0 then None else Some (of_nat ((unat (sl_slot s) + 1) mod unat (frameLength s))))"

definition Alarm_fired ::
    "(u8 \<Rightarrow> 'e \<times> slotter \<Rightarrow> ('e \<times> slotter) option) \<Rightarrow> u32 \<Rightarrow> 'e \<times> slotter \<Rightarrow> ('e \<times> slotter) option" where
  "Alarm_fired signal_slot now es = do {
     let (e, s) = es;
     let s = s\<lparr>nextFire := now + slotLength s\<rparr>;
     slot \<leftarrow> next_slot s;
     (e, s) \<leftarrow> signal_slot slot (e, s\<lparr>sl_slot := slot\<rparr>);
     Some (e, s\<lparr>alarm := Some (slotLength s)\<rparr>)
   }"

definition SlotterControl_synchronize ::
    "(u8 \<Rightarrow> 'e \<times> slotter \<Rightarrow> ('e \<times> slotter) option) \<Rightarrow> u32 \<Rightarrow> u8 \<Rightarrow> 'e \<times> slotter \<Rightarrow> ('e \<times> slotter) option" where
  "SlotterControl_synchronize signal_slot now toSlot es =
     (let (e, s) = es in Alarm_fired signal_slot now (e, s\<lparr>sl_slot := toSlot - 1, alarm := None\<rparr>))"

definition SlotterControl_stop :: "slotter \<Rightarrow> slotter" where
  "SlotterControl_stop s = s\<lparr>alarm := None\<rparr>"

definition FrameConfiguration_setSlotLength :: "u32 \<Rightarrow> slotter \<Rightarrow> slotter" where
  "FrameConfiguration_setSlotLength slotTimeBms s = s\<lparr>slotLength := slotTimeBms\<rparr>"

definition FrameConfiguration_setFrameLength :: "u8 \<Rightarrow> slotter \<Rightarrow> slotter" where
  "FrameConfiguration_setFrameLength numSlots s = s\<lparr>frameLength := numSlots\<rparr>"

definition FrameConfiguration_getSlotLength :: "slotter \<Rightarrow> u32" where
  "FrameConfiguration_getSlotLength s = slotLength s"

definition FrameConfiguration_getFrameLength :: "slotter \<Rightarrow> u8" where
  "FrameConfiguration_getFrameLength s = frameLength s"

definition SlotterControl_getSlot :: "slotter \<Rightarrow> u8" where
  "SlotterControl_getSlot s = sl_slot s"

definition SlotterControl_getRemaining :: "u32 \<Rightarrow> slotter \<Rightarrow> u32" where
  "SlotterControl_getRemaining now s = (if nextFire s > now then nextFire s - now else 0)"

definition SlotterControl_isSynchornized :: "slotter \<Rightarrow> bool" where
  "SlotterControl_isSynchornized s = sl_sync s"

section \<open>The slots signalled\<close>

lemma next_slot_Some: "frameLength s \<noteq> 0 \<Longrightarrow> next_slot s = Some (of_nat ((unat (sl_slot s) + 1) mod unat (frameLength s)))"
  by (simp add: next_slot_def)

text \<open>Synchronising to a slot of the frame signals that slot next; slot 0 is missed, because the
  byte wraps to 255 before one is added in an int.\<close>

lemma synchronize_slot:
  assumes "frameLength s \<noteq> 0" and "toSlot < frameLength s"
  shows "next_slot (s\<lparr>sl_slot := toSlot - 1\<rparr>) = Some (if toSlot = 0 then of_nat (256 mod unat (frameLength s)) else toSlot)"
proof (cases "toSlot = 0")
  case True
  have "unat (- 1 :: u8) = 255" by code_simp
  then show ?thesis using assms(1) True by (simp add: next_slot_def)
next
  case False
  then have "unat (toSlot - 1) + 1 = unat toSlot" by (simp add: unat_minus_one unat_gt_0 Suc_diff_1)
  moreover have "unat toSlot < unat (frameLength s)" using assms(2) by (simp add: word_less_nat_alt)
  ultimately show ?thesis using assms(1) False by (simp add: next_slot_def)
qed

section \<open>The handler of the slot event\<close>

text \<open>What the slotter asks of the component that handles its event: the handler leaves the slotter
  alone, returns for every slot of the frame and keeps the component's invariant. Then an alarm, and a
  synchronisation, move one slot on, run the handler for that slot and arm the alarm again.\<close>

locale slot_handler =
  fixes signal :: "u8 \<Rightarrow> 'e \<times> slotter \<Rightarrow> ('e \<times> slotter) option"
    and handle :: "u8 \<Rightarrow> 'e \<Rightarrow> 'e option"
    and inv :: "'e \<Rightarrow> bool"
    and slots :: nat
  assumes signal_handles: "signal k (e, s) = map_option (\<lambda>e. (e, s)) (handle k e)"
    and handle_returns: "inv e \<Longrightarrow> unat k < slots \<Longrightarrow> \<exists>e'. handle k e = Some e' \<and> inv e'"
begin

lemma alarm_runs_slot:
  assumes "inv e" and "next_slot s = Some k" and "unat k < slots"
  shows "\<exists>e'. Alarm_fired signal now (e, s) =
      Some (e', s\<lparr>nextFire := now + slotLength s, sl_slot := k, alarm := Some (slotLength s)\<rparr>) \<and>
    handle k e = Some e' \<and> inv e'"
proof -
  have "next_slot (s\<lparr>nextFire := now + slotLength s\<rparr>) = Some k" using assms(2) by (simp add: next_slot_def split: if_splits)
  then show ?thesis using handle_returns [OF assms(1,3)] by (auto simp: Alarm_fired_def signal_handles)
qed

lemma synchronize_runs_slot:
  assumes "inv e" and "frameLength s \<noteq> 0" and "k \<noteq> 0" and "k < frameLength s" and "unat k < slots"
  shows "\<exists>e'. SlotterControl_synchronize signal now k (e, s) =
      Some (e', s\<lparr>nextFire := now + slotLength s, sl_slot := k, alarm := Some (slotLength s)\<rparr>) \<and>
    handle k e = Some e' \<and> inv e'"
proof -
  have "next_slot (s\<lparr>sl_slot := k - 1, alarm := None\<rparr>) = Some k"
    using synchronize_slot [OF assms(2,4)] assms(3) by (simp add: next_slot_def split: if_splits)
  from alarm_runs_slot [OF assms(1) this assms(5), of now] show ?thesis by (auto simp: SlotterControl_synchronize_def)
qed

end

end
