(* ===== verification/AirtightApp.thy ===== *)
theory AirtightApp
  imports TdmaMac
begin

text \<open>
  The application on the MAC: the periodic traffic sources \<open>TXFlowP.nc\<close> and \<open>MCCP.nc\<close>, which hands
  their packets to the MAC. What the timers and tasks are asked to do is part of the state: a timer
  is the delay it was last started with, \<open>fl_posted\<close> whether the task \<open>send\<close> waits to run.
\<close>

definition SLOT_LENGTH_FREQUENCY_CORRECTED :: u32 where "SLOT_LENGTH_FREQUENCY_CORRECTED = 115"
definition FLOW_INIT_TIMER :: u32 where "FLOW_INIT_TIMER = 1000"

section \<open>Flows (TXFlowP)\<close>

text \<open>The parameters of the generic module, then its variables.\<close>

record txflow =
  flow_num :: u8
  dest_id :: u8
  crit_level :: crit
  periodSlots :: u8
  deadlineSlots :: u8
  fl_c :: u8
  fl_priority :: u8
  fl_packetsSent :: u8
  fl_packet :: mccpacket
  fl_busy :: bool
  fl_timer :: "u32 option"
  fl_posted :: bool

definition TXFlowC :: "u8 \<Rightarrow> u8 \<Rightarrow> crit \<Rightarrow> u8 \<Rightarrow> u8 \<Rightarrow> u8 \<Rightarrow> u8 \<Rightarrow> txflow" where
  "TXFlowC num dest cl period deadline c prio =
     \<lparr>flow_num = num, dest_id = dest, crit_level = cl, periodSlots = period, deadlineSlots = deadline, fl_c = c,
      fl_priority = prio, fl_packetsSent = 0, fl_packet = zero_pkt, fl_busy = False, fl_timer = None, fl_posted = False\<rparr>"

definition setup_mcc_app_packet :: "mac_params \<Rightarrow> txflow \<Rightarrow> mccpacket \<Rightarrow> mccpacket" where
  "setup_mcc_app_packet p f mccpkt =
     mccpkt\<lparr>mp_crit_level := crit_level f, mp_flow_id := flow_num f, mp_priority := fl_priority f, mp_c := fl_c f,
       mp_src := ucast (TOS_NODE_ID p), mp_dst := dest_id f, mp_hop_src := ucast (TOS_NODE_ID p), mp_hop_dst := 0,
       mp_burst_num := 0, mp_seq_num := fl_packetsSent f\<rparr>"

definition ms_timer :: "txflow \<Rightarrow> u32" where
  "ms_timer f = ucast (periodSlots f) * SLOT_LENGTH_FREQUENCY_CORRECTED"

definition TXFlow_booted :: "txflow \<Rightarrow> txflow" where
  "TXFlow_booted f =
     f\<lparr>fl_packetsSent := 0, fl_timer := Some (FLOW_INIT_TIMER + SLOT_LENGTH_FREQUENCY_CORRECTED * ucast (flow_num f))\<rparr>"

definition SendTimer_fired :: "txflow \<Rightarrow> txflow" where
  "SendTimer_fired f = f\<lparr>fl_timer := Some (ms_timer f), fl_posted := True\<rparr>"

text \<open>The task \<open>send\<close> up to its call of \<open>AppSend.send\<close>, and from the answer on.\<close>

definition send_before :: "mac_params \<Rightarrow> txflow \<Rightarrow> txflow" where
  "send_before p f = f\<lparr>fl_posted := False, fl_packet := setup_mcc_app_packet p f (fl_packet f)\<rparr>"

definition send_after :: "error_t \<Rightarrow> txflow \<Rightarrow> txflow" where
  "send_after res f = (if res = SUCCESS then f\<lparr>fl_busy := True\<rparr> else f)"

text \<open>\<open>own\<close>: the message is the module's packet.\<close>

definition AppSend_sendDone :: "bool \<Rightarrow> txflow \<Rightarrow> txflow" where
  "AppSend_sendDone own f =
     (if own then f\<lparr>fl_packetsSent := fl_packetsSent f + mp_c (fl_packet f), fl_busy := False\<rparr> else f)"

section \<open>The application (MCCP)\<close>

record mccp =
  a_packetsSent :: u16
  a_packetsReceived :: u16
  a_sends :: bool
  a_slotSize :: u32
  a_curFrameSize :: u8

definition mccp_static :: mccp where
  "mccp_static = \<lparr>a_packetsSent = 0, a_packetsReceived = 0, a_sends = False, a_slotSize = 0, a_curFrameSize = 0\<rparr>"

text \<open>Before its call of \<open>MacControl.start\<close>.\<close>

definition MCCP_booted :: "mccp \<Rightarrow> mccp" where
  "MCCP_booted a = a\<lparr>a_sends := False, a_packetsSent := 0, a_packetsReceived := 0\<rparr>"

text \<open>With the slot and frame length it then configures.\<close>

definition MacControl_startDone :: "mccp \<Rightarrow> u32 \<times> u8 \<times> mccp" where
  "MacControl_startDone a =
     (let a = a\<lparr>a_slotSize := ucast SLOT_LENGTH_MILLIS * 32, a_curFrameSize := SLOTS_IN_FRAME\<rparr>
      in (a_slotSize a, a_curFrameSize a, a))"

definition MacSend_sendDone :: "bool \<Rightarrow> mccp \<Rightarrow> mccp" where
  "MacSend_sendDone own a = (if own then a\<lparr>a_packetsSent := a_packetsSent a + 1, a_sends := False\<rparr> else a)"

definition MacReceive_receive :: "mccp \<Rightarrow> mccp" where
  "MacReceive_receive a = a\<lparr>a_packetsReceived := a_packetsReceived a + 1\<rparr>"

text \<open>The flows are wired to one \<open>FlowSend\<close>: its \<open>sendDone\<close> is signalled to all of them.\<close>

definition FlowSend_sendDone :: "nat \<Rightarrow> txflow list \<Rightarrow> txflow list" where
  "FlowSend_sendDone i fs = map (\<lambda>(j, f). AppSend_sendDone (j = i) f) (zip [0..<length fs] fs)"

text \<open>\<open>FlowSend.send\<close> for the packet of flow \<open>i\<close>, a component of the node, which the MAC may write.\<close>

definition FlowSend_send ::
    "mac_params \<Rightarrow> (u8 \<Rightarrow> u32) \<Rightarrow> nat \<Rightarrow> txflow list \<times> mac \<Rightarrow> (error_t \<times> txflow list \<times> mac) option" where
  "FlowSend_send p localTimes i s = do {
     let (fs, mac) = s;
     (code, pkt, mac) \<leftarrow> MacSend_send p localTimes (fl_packet (fs ! i)) mac;
     Some (code, FlowSend_sendDone i (fs[i := (fs ! i)\<lparr>fl_packet := pkt\<rparr>]), mac)
   }"

definition FlowSend_cancel :: error_t where
  "FlowSend_cancel = FAIL"

definition TXFlow_send ::
    "mac_params \<Rightarrow> (u8 \<Rightarrow> u32) \<Rightarrow> nat \<Rightarrow> txflow list \<times> mac \<Rightarrow> (txflow list \<times> mac) option" where
  "TXFlow_send p localTimes i s = do {
     let (fs, mac) = s;
     (res, fs, mac) \<leftarrow> FlowSend_send p localTimes i (fs[i := send_before p (fs ! i)], mac);
     Some (fs[i := send_after res (fs ! i)], mac)
   }"

end
