(* ===== verification/AirtightNode.thy ===== *)
theory AirtightNode
  imports GenericSlotter AirtightApp TdmaMacProps
begin

text \<open>
  A node as \<open>MCCC.nc\<close> and \<open>TdmaMacC.nc\<close> wire it: the MAC on its slotter, the application and its
  flows on the MAC. A call between the components is carried out where it is made: the slot event a
  synchronisation signals runs inside the handler that asked for it. The radio, the clock and the
  timers are the events of the node; a handler runs to its end before the next event. \<open>Init.init\<close> of
  the MAC is exported by \<open>TdmaMacC\<close> and wired by nobody, and its \<open>Boot\<close> is not wired at all, so the
  MAC starts from its static variables and the application's start call is what turns the radio on.
\<close>

section \<open>The node\<close>

record mote =
  n_mac :: mac
  n_slotter :: slotter
  n_app :: mccp
  n_flows :: "txflow list"

text \<open>What the slot event of the MAC asks the radio and the clock: the local time and the results of
  sending data and of sending a notification.\<close>

type_synonym slot_answers = "u32 \<times> error_t \<times> error_t"

definition signal_slot :: "mac_params \<Rightarrow> slot_answers \<Rightarrow> u8 \<Rightarrow> mac \<times> slotter \<Rightarrow> (mac \<times> slotter) option" where
  "signal_slot p ans slot ms =
     (let (local_time, send_res, notif_res) = ans; (mac, sl) = ms
      in map_option (\<lambda>mac. (mac, sl)) (Slotter_slot p local_time send_res notif_res slot mac))"

datatype node_event =
    RadioStarted u32 slot_answers error_t
  | RadioStopped
  | AlarmFires u32 slot_answers
  | NotificationArrives u32 slot_answers u16 u16
  | NotificationSent error_t
  | DataArrives u32 mccpacket
  | DataSent bool error_t
  | FlowTimer nat
  | FlowSends nat "u8 \<Rightarrow> u32"
  | FaultEnds

section \<open>Booting\<close>

text \<open>\<open>MainC\<close> initialises the slotter and boots the application, which starts the MAC, and the flows.\<close>

definition node_boot :: "mac_params \<Rightarrow> error_t \<Rightarrow> txflow list \<Rightarrow> mote" where
  "node_boot p radio_res fs =
     \<lparr>n_mac = snd (MacPowerControl_start radio_res (mac_static p)),
      n_slotter = snd (Slotter_init slotter_static),
      n_app = MCCP_booted mccp_static,
      n_flows = map TXFlow_booted fs\<rparr>"

section \<open>Handlers\<close>

definition node_sync :: "mac_params \<Rightarrow> u32 \<Rightarrow> slot_answers \<Rightarrow> u8 \<Rightarrow> mote \<Rightarrow> mote option" where
  "node_sync p now ans toSlot n = do {
     (mac, sl) \<leftarrow> SlotterControl_synchronize (signal_slot p ans) now toSlot (emit (SlotterSync toSlot) (n_mac n), n_slotter n);
     Some (n\<lparr>n_mac := mac, n_slotter := sl\<rparr>)
   }"

definition node_setFrameLength :: "u8 \<Rightarrow> mote \<Rightarrow> mote" where
  "node_setFrameLength k n =
     n\<lparr>n_mac := emit (SetFrameLength k) (n_mac n), n_slotter := FrameConfiguration_setFrameLength k (n_slotter n)\<rparr>"

text \<open>The application's \<open>startDone\<close>, through the \<open>FrameConfiguration\<close> the MAC provides.\<close>

definition node_startDone :: "error_t \<Rightarrow> mote \<Rightarrow> mote" where
  "node_startDone error n =
     (let (sz, len, a) = MacControl_startDone (n_app n);
          mac = emit (SigStartDone error) (n_mac n)
      in n\<lparr>n_app := a, n_mac := Frame_setFrameLength len (Frame_setSlotLength sz mac),
           n_slotter := FrameConfiguration_setFrameLength len (FrameConfiguration_setSlotLength sz (n_slotter n))\<rparr>)"

definition radio_started :: "mac_params \<Rightarrow> u32 \<Rightarrow> slot_answers \<Rightarrow> error_t \<Rightarrow> mote \<Rightarrow> mote option" where
  "radio_started p now ans error n = do {
     let n = n\<lparr>n_mac := (n_mac n)\<lparr>m_radioOff := False\<rparr>\<rparr>;
     if m_init (n_mac n) = False then do {
       n \<leftarrow> (if TOS_NODE_ID p = SINK_NODE_ID then do {
               n \<leftarrow> node_sync p now ans 1 n;
               Some (node_setFrameLength (m_superFrameLength (n_mac n)) n)
             }
             else Some n);
       Some (node_startDone error (n\<lparr>n_mac := (n_mac n)\<lparr>m_init := True\<rparr>\<rparr>))
     }
     else Some n
   }"

definition alarm_fires :: "mac_params \<Rightarrow> u32 \<Rightarrow> slot_answers \<Rightarrow> mote \<Rightarrow> mote option" where
  "alarm_fires p now ans n = do {
     (mac, sl) \<leftarrow> Alarm_fired (signal_slot p ans) now (n_mac n, (n_slotter n)\<lparr>alarm := None\<rparr>);
     Some (n\<lparr>n_mac := mac, n_slotter := sl\<rparr>)
   }"

definition first_sync :: "mac_params \<Rightarrow> mac \<Rightarrow> mac" where
  "first_sync p s =
     (if m_slotterInit s = False
      then s\<lparr>m_slotterInit := True, m_forwardQueue := PCQ_clear (queue_params p) (m_forwardQueue s)\<rparr> else s)"

definition notification_arrives :: "mac_params \<Rightarrow> u32 \<Rightarrow> slot_answers \<Rightarrow> u16 \<Rightarrow> u16 \<Rightarrow> mote \<Rightarrow> mote option" where
  "notification_arrives p now ans source sinkSlot n = do {
     let n = n\<lparr>n_mac := (n_mac n)\<lparr>m_src := source\<rparr>\<rparr>;
     if TOS_NODE_ID p \<noteq> SINK_NODE_ID \<and> m_src (n_mac n) = SINK_NODE_ID then do {
       n \<leftarrow> node_sync p now ans 1 (n\<lparr>n_mac := check_fault_should_be_triggered p sinkSlot (n_mac n)\<rparr>);
       Some (n\<lparr>n_mac := first_sync p (n_mac n)\<rparr>)
     }
     else Some n
   }"

text \<open>The calls and signals a handler of the MAC has added to its log.\<close>

definition new_events :: "mac \<Rightarrow> mac \<Rightarrow> mac_event list" where
  "new_events old new = drop (length (m_out old)) (m_out new)"

definition is_receive :: "mac_event \<Rightarrow> bool" where
  "is_receive e \<longleftrightarrow> (case e of SigReceive _ \<Rightarrow> True | _ \<Rightarrow> False)"

definition data_arrives :: "mac_params \<Rightarrow> u32 \<Rightarrow> mccpacket \<Rightarrow> mote \<Rightarrow> mote option" where
  "data_arrives p localTime pkt n = do {
     mac \<leftarrow> phyDataReceive_receive p localTime pkt (n_mac n);
     Some (n\<lparr>n_mac := mac,
       n_app := (if list_ex is_receive (new_events (n_mac n) mac) then MacReceive_receive (n_app n) else n_app n)\<rparr>)
   }"

text \<open>The message of these events is the MAC's own.\<close>

definition data_sent :: "mac_params \<Rightarrow> bool \<Rightarrow> error_t \<Rightarrow> mote \<Rightarrow> mote" where
  "data_sent p wasAcked error n =
     n\<lparr>n_mac := phyDataSend_sendDone p wasAcked error (n_mac n), n_app := MacSend_sendDone False (n_app n)\<rparr>"

definition notification_sent :: "error_t \<Rightarrow> mote \<Rightarrow> mote" where
  "notification_sent error n =
     n\<lparr>n_mac := phyNotificationSend_sendDone error (n_mac n), n_app := MacSend_sendDone False (n_app n)\<rparr>"

definition flow_timer :: "nat \<Rightarrow> mote \<Rightarrow> mote" where
  "flow_timer i n = n\<lparr>n_flows := (n_flows n)[i := SendTimer_fired (n_flows n ! i)]\<rparr>"

definition flow_sends :: "mac_params \<Rightarrow> nat \<Rightarrow> (u8 \<Rightarrow> u32) \<Rightarrow> mote \<Rightarrow> mote option" where
  "flow_sends p i localTimes n = do {
     (fs, mac) \<leftarrow> TXFlow_send p localTimes i (n_flows n, n_mac n);
     Some (n\<lparr>n_flows := fs, n_mac := mac\<rparr>)
   }"

section \<open>Runs\<close>

text \<open>When an event can occur: an armed alarm fires, a radio that was started receives, a frame that
  is being sent is done, a started timer fires, a posted task runs.\<close>

fun enabled :: "node_event \<Rightarrow> mote \<Rightarrow> bool" where
  "enabled (RadioStarted _ _ _) n = True"
| "enabled RadioStopped n = True"
| "enabled (AlarmFires _ _) n = (alarm (n_slotter n) \<noteq> None)"
| "enabled (NotificationArrives _ _ _ _) n = m_init (n_mac n)"
| "enabled (NotificationSent _) n = m_phyLock (n_mac n)"
| "enabled (DataArrives _ _) n = m_init (n_mac n)"
| "enabled (DataSent _ _) n = m_phyLock (n_mac n)"
| "enabled (FlowTimer i) n = (i < length (n_flows n) \<and> fl_timer (n_flows n ! i) \<noteq> None)"
| "enabled (FlowSends i _) n = (i < length (n_flows n) \<and> fl_posted (n_flows n ! i))"
| "enabled FaultEnds n = m_activeFault (n_mac n)"

fun node_step :: "mac_params \<Rightarrow> node_event \<Rightarrow> mote \<Rightarrow> mote option" where
  "node_step p (RadioStarted now ans error) n = radio_started p now ans error n"
| "node_step p RadioStopped n = Some (n\<lparr>n_mac := RadioPowerControl_stopDone (n_mac n)\<rparr>)"
| "node_step p (AlarmFires now ans) n = alarm_fires p now ans n"
| "node_step p (NotificationArrives now ans source sinkSlot) n = notification_arrives p now ans source sinkSlot n"
| "node_step p (NotificationSent error) n = Some (notification_sent error n)"
| "node_step p (DataArrives localTime pkt) n = data_arrives p localTime pkt n"
| "node_step p (DataSent wasAcked error) n = Some (data_sent p wasAcked error n)"
| "node_step p (FlowTimer i) n = Some (flow_timer i n)"
| "node_step p (FlowSends i localTimes) n = flow_sends p i localTimes n"
| "node_step p FaultEnds n = Some (n\<lparr>n_mac := FaultClearTimer_fired (n_mac n)\<rparr>)"

inductive node_run :: "mac_params \<Rightarrow> txflow list \<Rightarrow> node_event list \<Rightarrow> mote \<Rightarrow> bool" for p :: mac_params and fs :: "txflow list" where
  boot: "node_run p fs [] (node_boot p radio_res fs)"
| step: "node_run p fs es n \<Longrightarrow> enabled e n \<Longrightarrow> node_step p e n = Some n' \<Longrightarrow> node_run p fs (es @ [e]) n'"

inductive_cases node_run_snoc: "node_run p fs (es @ [e]) n"

section \<open>The deployed nodes\<close>

text \<open>The queue parameters of \<open>TdmaMacC.nc\<close> and the flows of \<open>MCCC.nc\<close>.\<close>

definition airtight_node :: "u16 \<Rightarrow> mac_params" where
  "airtight_node k =
     \<lparr>TOS_NODE_ID = k, queue_params = \<lparr>QUEUE_SIZE = of_nat MCCBUF_DEPTH_PER_PRIO, hiCrit1 = 0, hiCrit2 = 0, hiCrit3 = 0\<rparr>,
      USE_FAULTS = False\<rparr>"

definition MCCC_flows :: "txflow list" where
  "MCCC_flows = [TXFlowC 1 2 LO 30 30 2 2, TXFlowC 2 0 LO 26 13 1 1]"

end
