(* ===== verification/AirtightNodeProps.thy ===== *)
theory AirtightNodeProps
  imports AirtightNode
begin

text \<open>
  What holds of a whole node over its runs: the slotter never stops or leaves the frame, a node
  transmits only in its own slots, and the flows number their packets without gaps.
\<close>

section \<open>What the handlers of the MAC leave alone\<close>

definition kept :: "mac \<Rightarrow> bool \<times> bool \<times> action list \<times> u8" where
  "kept s = (m_init s, m_tableNotSetup s, m_mccSchedTable s, m_currentSlot s)"

lemma kept_updates [simp]:
  "kept (s\<lparr>m_radioOff := b\<rparr>) = kept s" "kept (s\<lparr>m_src := a\<rparr>) = kept s" "kept (s\<lparr>m_phyLock := b\<rparr>) = kept s"
  "kept (s\<lparr>m_activeFault := b\<rparr>) = kept s" "kept (emit e s) = kept s"
  "kept (s\<lparr>m_forwardQueue := q\<rparr>) = kept s" "kept (s\<lparr>m_selfDataPkt := d\<rparr>) = kept s"
  "kept (s\<lparr>m_forwardPktBuffer := f\<rparr>) = kept s" "kept (s\<lparr>m_node_ack_fails := x\<rparr>) = kept s"
  "kept (s\<lparr>m_hiCritMode := b\<rparr>) = kept s" "kept (s\<lparr>m_discarded := ds\<rparr>) = kept s"
  "kept (s\<lparr>m_max_node_ack_fails := x\<rparr>) = kept s" "kept (s\<lparr>m_slotterInit := b\<rparr>) = kept s"
  "kept (s\<lparr>m_nbReceivedPkts := r\<rparr>) = kept s" "kept (s\<lparr>m_i := x\<rparr>) = kept s"
  "kept (s\<lparr>m_receptionHistory := h\<rparr>) = kept s" "kept (s\<lparr>m_sentHistory := h'\<rparr>) = kept s"
  "kept (s\<lparr>m_slotSize := t\<rparr>) = kept s" "kept (s\<lparr>m_currFrameSize := x\<rparr>) = kept s"
  "kept (s\<lparr>m_requestStop := b\<rparr>) = kept s" "kept (s\<lparr>m_selfNotificationPkt := np\<rparr>) = kept s"
  by (simp_all add: kept_def emit_def)

lemma kept_parts [simp]:
  "kept (mcc_fault_triggered n s) = kept s" "kept (check_fault_should_be_triggered p k s) = kept s"
  "kept (add_discarded j d s) = kept s" "kept (dequeue_prio p prio s) = kept s"
  "kept (mcc_register_failed_ack s) = kept s" "kept (mcc_increase_retransmit_counter i s) = kept s"
  "kept (mcc_return_to_lo_mode s) = kept s" "kept (mcc_clear_node_ack_fails s) = kept s"
  "kept (record_packet_reception pkt s) = kept s" "kept (record_successfully_sent_frame pkt s) = kept s"
  "kept (sink_notify p e ls s) = kept s" "kept (slot_leds sl s) = kept s"
  by (simp_all add: mcc_fault_triggered_def check_fault_should_be_triggered_def add_discarded_def dequeue_prio_def
      mcc_register_failed_ack_def mcc_increase_retransmit_counter_def mcc_return_to_lo_mode_def mcc_clear_node_ack_fails_def
      record_packet_reception_def record_successfully_sent_frame_def sink_notify_def slot_leds_def Let_def kept_def emit_def)

lemma kept_go_high [simp]: "kept (mcc_check_to_go_high p s) = kept s"
  by (simp add: mcc_check_to_go_high_def Let_def)

lemma kept_ack_failed [simp]: "kept (ack_failed p pkt s) = kept s"
  by (simp add: ack_failed_def Let_def split: option.splits)

lemma kept_sendDone [simp]:
  "kept (phyDataSend_sendDone p acked e s) = kept s" "kept (phyNotificationSend_sendDone e s) = kept s"
  "kept (RadioPowerControl_stopDone s) = kept s" "kept (FaultClearTimer_fired s) = kept s"
  "kept (Frame_setSlotLength n s) = kept s" "kept (Frame_setFrameLength k s) = kept s" "kept (first_sync p s) = kept s"
  by (simp_all add: phyDataSend_sendDone_def phyNotificationSend_sendDone_def RadioPowerControl_stopDone_def first_sync_def
      FaultClearTimer_fired_def Frame_setSlotLength_def Frame_setFrameLength_def Let_def)

lemma kept_enqueue: "mcc_enqueue_to_buffers p pkt t s = Some (e, s') \<Longrightarrow> kept s' = kept s"
  by (auto simp: mcc_enqueue_to_buffers_def Let_def split: if_splits)

lemma kept_send_loop: "send_loop p ts base cs pkt res s = Some (e, pkt', s') \<Longrightarrow> kept s' = kept s"
  by (induction p ts base cs pkt res s rule: send_loop.induct) (auto simp: Let_def kept_enqueue split: option.splits)

lemma kept_send: "MacSend_send p ts pkt s = Some (e, pkt', s') \<Longrightarrow> kept s' = kept s"
  by (auto simp: MacSend_send_def Let_def kept_send_loop split: if_splits)

lemma kept_receive: "phyDataReceive_receive p t pkt s = Some s' \<Longrightarrow> kept s' = kept s"
  by (auto simp: phyDataReceive_receive_def receive_own_def Let_def kept_enqueue split: if_splits bind_splits)

lemma kept_tx: "handle_tx_slot p t r s = Some s' \<Longrightarrow> kept s' = kept s"
  by (auto simp: handle_tx_slot_def tx_select_def tx_send_def Let_def split: if_splits prod.splits option.splits)

section \<open>The slot table\<close>

definition sched_table :: "mac_params \<Rightarrow> action list" where
  "sched_table p = m_mccSchedTable (setup_temp_mcc_table p (mac_static p))"

definition table_ok :: "mac_params \<Rightarrow> mac \<Rightarrow> bool" where
  "table_ok p s \<longleftrightarrow> m_mccSchedTable s = (if m_tableNotSetup s then replicate MAX_SLOTS A_IDLE else sched_table p)"

text \<open>The slot a node sends data in; nodes above 4 have none. Slot 1 is the sink's, for notifications.\<close>

definition data_slot :: "mac_params \<Rightarrow> u8 option" where
  "data_slot p =
     (if TOS_NODE_ID p = 0 then Some 2 else if TOS_NODE_ID p = 1 then Some 3 else if TOS_NODE_ID p = 2 then Some 4
      else if TOS_NODE_ID p = 3 then Some 5 else if TOS_NODE_ID p = 4 then Some 0 else None)"

lemma sched_table_eq:
  "sched_table p = (let t = replicate 8 A_LISTEN @ [A_IDLE, A_IDLE] in case data_slot p of None \<Rightarrow> t | Some k \<Rightarrow> t[unat k := A_TX])"
proof -
  have "fold (\<lambda>slot t. t[slot := A_LISTEN]) [0..<8] (replicate 10 A_IDLE) = replicate 8 A_LISTEN @ [A_IDLE, A_IDLE]"
    by (simp add: upt_rec numeral_eq_Suc)
  then show ?thesis
    by (auto simp: sched_table_def setup_temp_mcc_table_def mac_static_def data_slot_def MAX_SLOTS_def Let_def)
qed

lemma sched_table_tx: "get_mcc_action (sched_table p) slot = Some A_TX \<longleftrightarrow> data_slot p = Some slot"
proof (cases "unat slot < 10")
  case True
  have "k = slot \<longleftrightarrow> unat k = unat slot" for k :: u8 by (simp add: word_unat_eq_iff)
  moreover have "(replicate 8 A_LISTEN @ [A_IDLE, A_IDLE]) ! unat slot \<noteq> A_TX"
    using True by (auto simp: nth_append nth_Cons')
  moreover have "unat k < 10" if "data_slot p = Some k" for k using that by (auto simp: data_slot_def split: if_splits)
  ultimately show ?thesis
    using True by (auto simp: sched_table_eq get_mcc_action_def Let_def nth_list_update split: option.splits)
next
  case False
  moreover have "unat k < 10" if "data_slot p = Some k" for k using that by (auto simp: data_slot_def split: if_splits)
  moreover have "length (sched_table p) = 10" by (simp add: sched_table_eq Let_def split: option.splits)
  ultimately show ?thesis by (auto simp: get_mcc_action_def)
qed

lemma table_ok_kept: "kept s' = kept s \<Longrightarrow> table_ok p s' = table_ok p s"
  by (simp add: kept_def table_ok_def)

lemma setup_table: "table_ok p s \<Longrightarrow> m_tableNotSetup s \<Longrightarrow> m_mccSchedTable (setup_temp_mcc_table p s) = sched_table p"
  by (simp add: table_ok_def sched_table_def setup_temp_mcc_table_def mac_static_def Let_def)

lemma slot_begin_ok:
  assumes "table_ok p s"
  shows "m_mccSchedTable (slot_begin p slot s) = sched_table p" "\<not> m_tableNotSetup (slot_begin p slot s)"
    "m_init (slot_begin p slot s) = m_init s" "m_currentSlot (slot_begin p slot s) = slot" "m_out (slot_begin p slot s) = m_out s"
proof -
  have "m_tableNotSetup (setup_temp_mcc_table p s) = False" "m_init (setup_temp_mcc_table p s) = m_init s"
    "m_out (setup_temp_mcc_table p s) = m_out s"
    by (simp_all add: setup_temp_mcc_table_def Let_def)
  with assms setup_table [OF assms]
  show "m_mccSchedTable (slot_begin p slot s) = sched_table p" "\<not> m_tableNotSetup (slot_begin p slot s)"
    "m_init (slot_begin p slot s) = m_init s" "m_currentSlot (slot_begin p slot s) = slot" "m_out (slot_begin p slot s) = m_out s"
    by (auto simp: slot_begin_def Let_def table_ok_def)
qed

definition is_transmission :: "mac_event \<Rightarrow> bool" where
  "is_transmission e \<longleftrightarrow> (case e of DataSend _ _ \<Rightarrow> True | NotificationSend _ _ \<Rightarrow> True | _ \<Rightarrow> False)"

definition transmits :: "mac \<Rightarrow> mac \<Rightarrow> bool" where
  "transmits old new \<longleftrightarrow> list_ex is_transmission (new_events old new)"

lemma slot_event:
  assumes "Slotter_slot p t r nr slot s = Some s'" and "table_ok p s"
  shows "m_init s' = m_init s \<and> table_ok p s' \<and> m_currentSlot s' = slot \<and>
    (transmits s s' \<longrightarrow> data_slot p = Some slot \<and> slot \<noteq> 1 \<or> TOS_NODE_ID p = SINK_NODE_ID \<and> slot = 1)"
proof -
  define s3 where "s3 = slot_begin p slot s"
  note b = slot_begin_ok [OF assms(2), of slot, folded s3_def]
  define s5 where "s5 = (if slot = 1 \<and> TOS_NODE_ID p = SINK_NODE_ID then sink_notify p nr (m_localSlot s3) (emit PrintfFlush (slot_leds slot s3))
    else emit PrintfFlush (slot_leds slot s3))"
  have k5: "kept s5 = kept s3" by (simp add: s5_def)
  obtain a where a: "get_mcc_action (sched_table p) slot = Some a"
    "(if slot \<noteq> 1 \<and> a = A_TX then handle_tx_slot p t r s5 else Some s5) = Some s'"
    using assms(1) b(1) unfolding s5_def by (auto simp: Slotter_slot_def s3_def [symmetric] Let_def split: bind_splits)
  have k: "kept s' = kept s3" using a(2) k5 kept_tx by (auto split: if_splits)
  have "data_slot p = Some slot \<and> slot \<noteq> 1 \<or> TOS_NODE_ID p = SINK_NODE_ID \<and> slot = 1" if "transmits s s'"
  proof (rule ccontr)
    assume not: "\<not> ?thesis"
    then have "s5 = emit PrintfFlush (slot_leds slot s3)" "\<not> (slot \<noteq> 1 \<and> a = A_TX)"
      using a(1) sched_table_tx [of p slot] by (auto simp: s5_def)
    then have "s' = emit PrintfFlush (slot_leds slot s3)" using a(2) by (auto split: if_splits)
    then have "new_events s s' = [LedsSet 1, PrintfFlush] \<or> new_events s s' = [LedsSet (hi_leds slot), PrintfFlush] \<or>
        new_events s s' = [LedsSet (slot mod 8), PrintfFlush]"
      using b(5) by (auto simp: new_events_def slot_leds_def emit_def)
    then show False using that by (auto simp: transmits_def is_transmission_def)
  qed
  moreover have "table_ok p s'" using k b(1,2) by (simp add: kept_def table_ok_def)
  ultimately show ?thesis using k b(3,4) by (simp add: kept_def)
qed

section \<open>The invariant of a node\<close>

text \<open>Before the radio has started the slotter is as initialised; afterwards it has the frame of
  \<open>SlotTiming.h\<close>, six slots of 100 ms at 32 kHz.\<close>

definition node_inv :: "mac_params \<Rightarrow> mote \<Rightarrow> bool" where
  "node_inv p n \<longleftrightarrow> mac_inv p (n_mac n) \<and> table_ok p (n_mac n) \<and> sl_slot (n_slotter n) < 6 \<and>
     (if m_init (n_mac n) then frameLength (n_slotter n) = 6 \<and> slotLength (n_slotter n) = 3200
      else frameLength (n_slotter n) = 17 \<and> alarm (n_slotter n) = None \<and> sl_slot (n_slotter n) = 0)"

lemma node_inv_boot: "mac_params_ok p \<Longrightarrow> node_inv p (node_boot p r fs)"
proof -
  assume "mac_params_ok p"
  then have "mac_inv p (emit RadioStart (mac_static p))" by (simp add: mac_inv_static)
  moreover have "table_ok p (emit RadioStart (mac_static p))" "\<not> m_init (emit RadioStart (mac_static p))"
    by (simp_all add: table_ok_def mac_static_def emit_def)
  ultimately show ?thesis
    by (simp add: node_inv_def node_boot_def Slotter_init_def slotter_static_def MacPowerControl_start_def)
qed

text \<open>A handler that keeps the MAC's invariant and leaves the rest alone.\<close>

lemma node_inv_mac:
  assumes "node_inv p n" and "mac_inv p mac" and "kept mac = kept (n_mac n)" and "n_slotter n' = n_slotter n" and "n_mac n' = mac"
  shows "node_inv p n'"
  using assms table_ok_kept [OF assms(3), of p] by (simp add: node_inv_def kept_def)

lemma node_inv_mac_step:
  assumes "node_inv p n" and "mac_step p (n_mac n) mac" and "kept mac = kept (n_mac n)" and "n_slotter n' = n_slotter n"
    and "n_mac n' = mac"
  shows "node_inv p n'"
  using assms(1) by (intro node_inv_mac [OF assms(1) mac_step_inv [OF assms(2)] assms(3-5)]) (simp add: node_inv_def)

lemma wrap_slot: "(k :: u8) < 6 \<Longrightarrow> (of_nat ((unat k + 1) mod 6) :: u8) < 6"
  by (simp add: word_less_nat_alt unat_of_nat)

text \<open>The alarm: the next slot of the frame, its event in the MAC, and the alarm armed again.\<close>

interpretation mac_slots: slot_handler "signal_slot p (t, r, nr)" "Slotter_slot p t r nr" "\<lambda>s. mac_inv p s \<and> table_ok p s" MAX_SLOTS
  for p t r nr
proof unfold_locales
  show "signal_slot p (t, r, nr) k (e, s) = map_option (\<lambda>e. (e, s)) (Slotter_slot p t r nr k e)" for k :: u8 and e s
    by (cases "Slotter_slot p t r nr k e") (simp_all add: signal_slot_def)
next
  fix e and k :: u8
  assume "mac_inv p e \<and> table_ok p e" and "unat k < MAX_SLOTS"
  then show "\<exists>e'. Slotter_slot p t r nr k e = Some e' \<and> mac_inv p e' \<and> table_ok p e'"
    using mac_inv_slot [of p e] slot_event by metis
qed

lemma sync_1:
  assumes "mac_inv p (n_mac n)" and "table_ok p (n_mac n)" and "frameLength (n_slotter n) = 6 \<or> frameLength (n_slotter n) = 17"
  shows "\<exists>mac'. node_sync p now (t, r, nr) 1 n = Some (n\<lparr>n_mac := mac', n_slotter :=
      (n_slotter n)\<lparr>sl_slot := 1, alarm := Some (slotLength (n_slotter n)), nextFire := now + slotLength (n_slotter n)\<rparr>\<rparr>) \<and>
    Slotter_slot p t r nr 1 (emit (SlotterSync 1) (n_mac n)) = Some mac' \<and>
    mac_inv p mac' \<and> table_ok p mac' \<and> m_init mac' = m_init (n_mac n) \<and> m_currentSlot mac' = 1"
proof -
  have "table_ok p (emit (SlotterSync 1) (n_mac n))" "m_init (emit (SlotterSync 1) (n_mac n)) = m_init (n_mac n)"
    using assms(2) table_ok_kept [OF kept_updates(5)] by (simp_all add: emit_def)
  moreover have "mac_inv p (emit (SlotterSync 1) (n_mac n))" using assms(1) by simp
  ultimately show ?thesis
    using mac_slots.synchronize_runs_slot [of p "emit (SlotterSync 1) (n_mac n)" "n_slotter n" 1 t r nr now] assms(3)
      slot_event [of p t r nr 1 "emit (SlotterSync 1) (n_mac n)"]
    by (auto simp: node_sync_def MAX_SLOTS_def)
qed

lemma mac_inv_config: "mac_inv p s \<Longrightarrow> mac_inv p (Frame_setFrameLength k (Frame_setSlotLength m s))"
  using mac_step_inv [OF mac_step.slotLength [of p s m]] mac_step_inv [OF mac_step.frameLength [of p "Frame_setSlotLength m s" k]] by simp

lemma mac_inv_flags [simp]:
  "mac_inv p (s\<lparr>m_init := b\<rparr>) = mac_inv p s" "mac_inv p (s\<lparr>m_radioOff := b\<rparr>) = mac_inv p s" "mac_inv p (s\<lparr>m_src := a\<rparr>) = mac_inv p s"
  by (simp_all add: mac_inv_defs)

lemma startDone_inv:
  assumes "mac_inv p (n_mac n)" and "table_ok p (n_mac n)" and "sl_slot (n_slotter n) < 6"
  shows "node_inv p (node_startDone e (n\<lparr>n_mac := (n_mac n)\<lparr>m_init := True\<rparr>\<rparr>)) \<and>
    m_init (n_mac (node_startDone e (n\<lparr>n_mac := (n_mac n)\<lparr>m_init := True\<rparr>\<rparr>))) \<and>
    alarm (n_slotter (node_startDone e (n\<lparr>n_mac := (n_mac n)\<lparr>m_init := True\<rparr>\<rparr>))) = alarm (n_slotter n)"
proof -
  define mac where "mac = emit (SigStartDone e) ((n_mac n)\<lparr>m_init := True\<rparr>)"
  define mac' where "mac' = Frame_setFrameLength 6 (Frame_setSlotLength 3200 mac)"
  have "mac_inv p mac" using assms(1) by (simp add: mac_def)
  then have "mac_inv p mac'" unfolding mac'_def by (rule mac_inv_config)
  moreover have "kept mac' = kept mac" by (simp add: mac'_def)
  moreover have "table_ok p mac" "m_init mac" using assms(2) by (simp_all add: mac_def table_ok_def emit_def)
  ultimately have "mac_inv p mac'" "table_ok p mac'" "m_init mac'" using table_ok_kept [of mac' mac p] by (simp_all add: kept_def)
  then show ?thesis
    using assms(3)
    by (simp add: node_inv_def node_startDone_def MacControl_startDone_def SLOT_LENGTH_MILLIS_def SLOTS_IN_FRAME_def Let_def mac_def mac'_def
        FrameConfiguration_setFrameLength_def FrameConfiguration_setSlotLength_def)
qed

lemma node_inv_radio_started:
  assumes "node_inv p n"
  shows "\<exists>n'. radio_started p now (t, r, nr) e n = Some n' \<and> node_inv p n' \<and> m_init (n_mac n') \<and>
    (TOS_NODE_ID p = SINK_NODE_ID \<and> \<not> m_init (n_mac n) \<longrightarrow> alarm (n_slotter n') \<noteq> None)"
proof -
  define n1 where "n1 = n\<lparr>n_mac := (n_mac n)\<lparr>m_radioOff := False\<rparr>\<rparr>"
  have i1: "node_inv p n1" using assms by (simp add: node_inv_def n1_def table_ok_def)
  show ?thesis
  proof (cases "m_init (n_mac n)")
    case True
    then show ?thesis using i1 by (simp add: radio_started_def n1_def)
  next
    case False
    then have f: "mac_inv p (n_mac n1)" "table_ok p (n_mac n1)" "frameLength (n_slotter n1) = 17" "sl_slot (n_slotter n1) < 6"
      using i1 by (simp_all add: node_inv_def n1_def)
    show ?thesis
    proof (cases "TOS_NODE_ID p = SINK_NODE_ID")
      case True
      from sync_1 [OF f(1,2)] f(3) obtain mac' where
        s: "node_sync p now (t, r, nr) 1 n1 = Some (n1\<lparr>n_mac := mac', n_slotter :=
            (n_slotter n1)\<lparr>sl_slot := 1, alarm := Some (slotLength (n_slotter n1)), nextFire := now + slotLength (n_slotter n1)\<rparr>\<rparr>)"
          (is "_ = Some ?n2") "mac_inv p mac'" "table_ok p mac'" by blast
      define n3 where "n3 = node_setFrameLength (m_superFrameLength mac') ?n2"
      have al: "alarm (n_slotter n3) \<noteq> None" by (simp add: n3_def node_setFrameLength_def FrameConfiguration_setFrameLength_def)
      have "mac_inv p (n_mac n3)" "table_ok p (n_mac n3)" "sl_slot (n_slotter n3) < 6"
        using s(2,3) table_ok_kept [OF kept_updates(5)] by (simp_all add: n3_def node_setFrameLength_def FrameConfiguration_setFrameLength_def)
      from startDone_inv [OF this] show ?thesis
        using True False s(1) al by (simp add: radio_started_def n1_def [symmetric] n3_def) (simp add: n1_def)
    next
      case no: False
      then show ?thesis using startDone_inv [OF f(1,2,4)] False by (simp add: radio_started_def n1_def)
    qed
  qed
qed

lemma node_inv_alarm:
  assumes "node_inv p n" and "alarm (n_slotter n) \<noteq> None" and "slot = of_nat ((unat (sl_slot (n_slotter n)) + 1) mod 6)"
  shows "\<exists>n'. alarm_fires p now (t, r, nr) n = Some n' \<and> node_inv p n' \<and> sl_slot (n_slotter n') = slot \<and>
    m_currentSlot (n_mac n') = slot \<and> alarm (n_slotter n') = Some 3200 \<and> Slotter_slot p t r nr slot (n_mac n) = Some (n_mac n')"
proof -
  have i: "m_init (n_mac n)" "frameLength (n_slotter n) = 6" "slotLength (n_slotter n) = 3200" "sl_slot (n_slotter n) < 6"
    "mac_inv p (n_mac n)" "table_ok p (n_mac n)"
    using assms(1,2) by (auto simp: node_inv_def split: if_splits)
  have "next_slot ((n_slotter n)\<lparr>alarm := None\<rparr>) = Some slot" using i(2) assms(3) by (simp add: next_slot_def)
  moreover have "slot < 6" using wrap_slot [OF i(4)] assms(3) by simp
  ultimately obtain mac' where "Alarm_fired (signal_slot p (t, r, nr)) now (n_mac n, (n_slotter n)\<lparr>alarm := None\<rparr>) =
      Some (mac', (n_slotter n)\<lparr>nextFire := now + 3200, sl_slot := slot, alarm := Some 3200\<rparr>)"
      "Slotter_slot p t r nr slot (n_mac n) = Some mac'" "mac_inv p mac'" "table_ok p mac'" "m_init mac' = m_init (n_mac n)" "m_currentSlot mac' = slot"
    using mac_slots.alarm_runs_slot [of p "n_mac n" "(n_slotter n)\<lparr>alarm := None\<rparr>" slot t r nr now]
      slot_event [of p t r nr slot "n_mac n"] i by (auto simp: MAX_SLOTS_def word_less_nat_alt)
  then show ?thesis using i \<open>slot < 6\<close> by (simp add: alarm_fires_def node_inv_def)
qed

lemma mac_inv_first_sync: "mac_inv p s \<Longrightarrow> mac_inv p (first_sync p s)"
proof -
  have "mac_inv p (x\<lparr>m_slotterInit := b, m_forwardQueue := q\<rparr>) = mac_inv p (x\<lparr>m_forwardQueue := q\<rparr>)" for x b q
    by (simp add: mac_inv_defs)
  then show "mac_inv p s \<Longrightarrow> mac_inv p (first_sync p s)" by (simp add: first_sync_def mac_inv_clear)
qed

lemma node_inv_notification:
  assumes "node_inv p n" and "m_init (n_mac n)"
  shows "\<exists>n'. notification_arrives p now (t, r, nr) source k n = Some n' \<and> node_inv p n' \<and>
    (TOS_NODE_ID p \<noteq> SINK_NODE_ID \<and> source = SINK_NODE_ID \<longrightarrow> sl_slot (n_slotter n') = 1 \<and> alarm (n_slotter n') = Some 3200)"
proof (cases "TOS_NODE_ID p \<noteq> SINK_NODE_ID \<and> source = SINK_NODE_ID")
  case True
  have i: "frameLength (n_slotter n) = 6" "slotLength (n_slotter n) = 3200" "mac_inv p (n_mac n)" "table_ok p (n_mac n)"
    using assms by (simp_all add: node_inv_def)
  define m1 where "m1 = check_fault_should_be_triggered p k ((n_mac n)\<lparr>m_src := source\<rparr>)"
  have "kept m1 = kept (n_mac n)" by (simp add: m1_def)
  moreover have "mac_inv p m1" using i(3) by (simp add: m1_def mac_inv_check_fault)
  ultimately have m1: "mac_inv p m1" "table_ok p m1" "m_init m1" using i(4) table_ok_kept [of m1 "n_mac n" p] assms(2) by (simp_all add: kept_def)
  then obtain m2 where m2: "node_sync p now (t, r, nr) 1 (n\<lparr>n_mac := m1\<rparr>) = Some (n\<lparr>n_mac := m2, n_slotter :=
        (n_slotter n)\<lparr>sl_slot := 1, alarm := Some 3200, nextFire := now + 3200\<rparr>\<rparr>)"
      "mac_inv p m2" "table_ok p m2" "m_init m2"
    using sync_1 [of p "n\<lparr>n_mac := m1\<rparr>" now t r nr] i(1,2) by auto
  have "notification_arrives p now (t, r, nr) source k n = Some (n\<lparr>n_mac := first_sync p m2, n_slotter :=
        (n_slotter n)\<lparr>sl_slot := 1, alarm := Some 3200, nextFire := now + 3200\<rparr>\<rparr>)"
    using True m2(1) by (simp add: notification_arrives_def m1_def)
  moreover have "table_ok p (first_sync p m2)" "m_init (first_sync p m2)" using m2(3,4) table_ok_kept [of "first_sync p m2" m2 p] 
    by (simp_all add: first_sync_def)
  ultimately show ?thesis using i m2(2) by (simp add: node_inv_def mac_inv_first_sync)
next
  case False
  have "node_inv p (n\<lparr>n_mac := (n_mac n)\<lparr>m_src := source\<rparr>\<rparr>)" using assms(1) by (simp add: node_inv_def table_ok_def)
  then show ?thesis using False by (auto simp: notification_arrives_def)
qed

lemma TXFlow_send_mac:
  assumes "TXFlow_send p ts i (fs, mac) = Some (fs', mac')" and "i < length fs"
  shows "\<exists>code pkt. MacSend_send p ts (setup_mcc_app_packet p (fs ! i) (fl_packet (fs ! i))) mac = Some (code, pkt, mac')"
  using assms by (auto simp: TXFlow_send_def FlowSend_send_def send_before_def split: bind_splits)

lemma node_inv_step:
  assumes "node_inv p n" and "enabled e n" and "node_step p e n = Some n'"
  shows "node_inv p n'"
proof (cases e)
  case (RadioStarted now ans err)
  obtain t r nr where "ans = (t, r, nr)" by (cases ans)
  then show ?thesis using node_inv_radio_started [OF assms(1), of now t r nr err] assms(3) RadioStarted by auto
next
  case (AlarmFires now ans)
  obtain t r nr where "ans = (t, r, nr)" by (cases ans)
  then show ?thesis using node_inv_alarm [OF assms(1) _ refl, of now t r nr] assms(2,3) AlarmFires by auto
next
  case (NotificationArrives now ans source k)
  obtain t r nr where "ans = (t, r, nr)" by (cases ans)
  then show ?thesis using node_inv_notification [OF assms(1), of now t r nr source k] assms(2,3) NotificationArrives by auto
next
  case RadioStopped
  then show ?thesis using assms(3) by (auto intro!: node_inv_mac_step [OF assms(1) mac_step.stopDone])
next
  case (NotificationSent err)
  then show ?thesis using assms(3) by (auto intro!: node_inv_mac_step [OF assms(1) mac_step.notifDone] simp: notification_sent_def)
next
  case (DataArrives t pkt)
  then obtain mac where mac: "phyDataReceive_receive p t pkt (n_mac n) = Some mac" "n_mac n' = mac" "n_slotter n' = n_slotter n"
    using assms(3) by (auto simp: data_arrives_def split: bind_splits)
  show ?thesis by (rule node_inv_mac_step [OF assms(1) mac_step.data [OF mac(1)] kept_receive [OF mac(1)] mac(3,2)])
next
  case (DataSent acked err)
  then show ?thesis using assms(3) by (auto intro!: node_inv_mac_step [OF assms(1) mac_step.dataDone] simp: data_sent_def)
next
  case (FlowTimer i)
  then show ?thesis using assms(1,3) by (auto simp: node_inv_def flow_timer_def)
next
  case (FlowSends i ts)
  then obtain fs mac where s: "TXFlow_send p ts i (n_flows n, n_mac n) = Some (fs, mac)" "n_mac n' = mac" "n_slotter n' = n_slotter n"
    using assms(3) by (auto simp: flow_sends_def split: bind_splits)
  then obtain code pkt pkt' where m: "MacSend_send p ts pkt (n_mac n) = Some (code, pkt', mac)"
    using TXFlow_send_mac [OF s(1)] assms(2) FlowSends by auto
  show ?thesis by (rule node_inv_mac_step [OF assms(1) mac_step.send [OF m] kept_send [OF m] s(3,2)])
next
  case FaultEnds
  then show ?thesis using assms(3) by (auto intro!: node_inv_mac_step [OF assms(1) mac_step.faultClear])
qed

lemma node_run_inv: "node_run p fs es n \<Longrightarrow> mac_params_ok p \<Longrightarrow> node_inv p n"
  by (induction rule: node_run.induct) (auto intro: node_inv_boot node_inv_step)

section \<open>Slots\<close>

text \<open>Events that are alarms, and the run of \<open>k\<close> of them.\<close>

fun alarms :: "mac_params \<Rightarrow> (u32 \<times> slot_answers) list \<Rightarrow> mote \<Rightarrow> mote option" where
  "alarms p [] n = Some n"
| "alarms p ((now, ans) # as) n = Option.bind (node_step p (AlarmFires now ans) n) (alarms p as)"

lemma alarms_run:
  assumes "node_inv p n" and "alarm (n_slotter n) \<noteq> None"
  shows "\<exists>n'. alarms p as n = Some n' \<and> node_inv p n' \<and> alarm (n_slotter n') \<noteq> None \<and>
    unat (sl_slot (n_slotter n')) = (unat (sl_slot (n_slotter n)) + length as) mod 6 \<and>
    (as \<noteq> [] \<longrightarrow> m_currentSlot (n_mac n') = sl_slot (n_slotter n'))"
  using assms
proof (induction "as" arbitrary: n)
  case Nil
  have "unat (sl_slot (n_slotter n)) < 6" using Nil.prems(1) by (simp add: node_inv_def word_less_nat_alt)
  then show ?case using Nil.prems by simp
next
  case (Cons a as)
  obtain now t r nr where a: "a = (now, (t, r, nr))" by (metis prod_cases3 surj_pair)
  from node_inv_alarm [OF Cons.prems refl, of now t r nr] obtain n1 where
    n1: "alarm_fires p now (t, r, nr) n = Some n1" "node_inv p n1" "m_currentSlot (n_mac n1) = sl_slot (n_slotter n1)"
    "alarm (n_slotter n1) \<noteq> None" "sl_slot (n_slotter n1) = of_nat ((unat (sl_slot (n_slotter n)) + 1) mod 6)" by auto
  have "unat (sl_slot (n_slotter n1)) = (unat (sl_slot (n_slotter n)) + 1) mod 6"
    using n1(5) by (simp add: unat_of_nat)
  moreover from Cons.IH [OF n1(2,4)] obtain n2 where n2: "alarms p as n1 = Some n2" "node_inv p n2" "alarm (n_slotter n2) \<noteq> None"
    "unat (sl_slot (n_slotter n2)) = (unat (sl_slot (n_slotter n1)) + length as) mod 6"
    "as \<noteq> [] \<longrightarrow> m_currentSlot (n_mac n2) = sl_slot (n_slotter n2)" by blast
  ultimately have "unat (sl_slot (n_slotter n2)) = (unat (sl_slot (n_slotter n)) + length (a # as)) mod 6"
    by (simp add: mod_simps)
  moreover have "m_currentSlot (n_mac n2) = sl_slot (n_slotter n2)" using n2(1,5) n1(3) by (cases "as") auto
  ultimately show ?case using a n1(1) n2(1-3) by simp
qed

lemma airtight_node_ok [simp]: "mac_params_ok (airtight_node k)" "TOS_NODE_ID (airtight_node k) = k"
  by (simp_all add: mac_params_ok_def airtight_node_def MCCBUF_DEPTH_PER_PRIO_def)

lemma node_run_Cons: "enabled e (node_boot p r fs) \<Longrightarrow> node_step p e (node_boot p r fs) = Some n' \<Longrightarrow> node_run p fs [e] n'"
  using node_run.step [OF node_run.boot, of e p r fs n'] by simp

lemma started:
  "\<exists>n. node_run (airtight_node k) fs [RadioStarted 0 (0, SUCCESS, SUCCESS) SUCCESS] n \<and> m_init (n_mac n) \<and>
    (k = 0 \<longrightarrow> alarm (n_slotter n) \<noteq> None)"
proof -
  note inv = node_inv_boot [OF airtight_node_ok(1) [of k], of SUCCESS fs]
  have "\<not> m_init (n_mac (node_boot (airtight_node k) SUCCESS fs))"
    by (simp add: node_boot_def MacPowerControl_start_def mac_static_def emit_def)
  then obtain n where n: "radio_started (airtight_node k) 0 (0, SUCCESS, SUCCESS) SUCCESS (node_boot (airtight_node k) SUCCESS fs) = Some n"
    "m_init (n_mac n)" "k = 0 \<longrightarrow> alarm (n_slotter n) \<noteq> None"
    using node_inv_radio_started [OF inv, where now = 0 and t = 0 and r = SUCCESS and nr = SUCCESS and e = SUCCESS]
    by (auto simp: SINK_NODE_ID_def)
  then show ?thesis using node_run_Cons [of "RadioStarted 0 (0, SUCCESS, SUCCESS) SUCCESS" "airtight_node k" SUCCESS fs n] by auto
qed

text \<open>C3: A node that has booted keeps its slots: whatever has happened before, once its alarm is
  armed every alarm event returns (the MAC's \<open>while (1)\<close> and stray reads are never reached), after
  \<open>k\<close> of them the slotter is \<open>k\<close> slots further in the frame of six, the MAC is in the same slot, and
  the alarm is armed again.\<close>

theorem node_keeps_slots:
  assumes "mac_params_ok p" and "node_run p fs es n" and "alarm (n_slotter n) \<noteq> None"
  shows "\<exists>n'. alarms p as n = Some n' \<and> alarm (n_slotter n') \<noteq> None \<and>
    unat (sl_slot (n_slotter n')) = (unat (sl_slot (n_slotter n)) + length as) mod 6 \<and>
    (as \<noteq> [] \<longrightarrow> m_currentSlot (n_mac n') = sl_slot (n_slotter n'))"
  using alarms_run [OF node_run_inv [OF assms(2,1)] assms(3)] by blast

theorem node_keeps_slots_witness:
  "\<exists>n n'. node_run (airtight_node 0) MCCC_flows [RadioStarted 0 (0, SUCCESS, SUCCESS) SUCCESS] n \<and>
     alarms (airtight_node 0) (replicate 8 (0, (0, SUCCESS, SUCCESS))) n = Some n' \<and> alarm (n_slotter n') \<noteq> None"
proof -
  obtain n where n: "node_run (airtight_node 0) MCCC_flows [RadioStarted 0 (0, SUCCESS, SUCCESS) SUCCESS] n" "alarm (n_slotter n) \<noteq> None"
    using started [of 0 MCCC_flows] by auto
  from node_keeps_slots [OF airtight_node_ok(1) this, of "replicate 8 (0, (0, SUCCESS, SUCCESS))"] n(1) show ?thesis by blast
qed

text \<open>C4: The notification of the sink brings a node into slot 1 with its alarm armed, whatever the node
  did before; \<open>k\<close> alarms later it is in slot \<open>1 + k\<close> of the frame.\<close>

theorem node_synchronises:
  assumes "mac_params_ok p" and "node_run p fs es n" and "m_init (n_mac n)" and "TOS_NODE_ID p \<noteq> SINK_NODE_ID"
  shows "\<exists>n1 n2. node_step p (NotificationArrives now ans SINK_NODE_ID k) n = Some n1 \<and> sl_slot (n_slotter n1) = 1 \<and>
    alarms p as n1 = Some n2 \<and> unat (sl_slot (n_slotter n2)) = (1 + length as) mod 6"
proof -
  obtain t r nr where ans: "ans = (t, r, nr)" by (cases ans)
  from node_inv_notification [OF node_run_inv [OF assms(2,1)] assms(3), of now t r nr SINK_NODE_ID k] obtain n1 where
    n1: "notification_arrives p now (t, r, nr) SINK_NODE_ID k n = Some n1" "node_inv p n1" "sl_slot (n_slotter n1) = 1"
    "alarm (n_slotter n1) = Some 3200" using assms(4) by auto
  then show ?thesis using alarms_run [OF n1(2), of "as"] ans by force
qed

theorem node_synchronises_witness:
  "\<exists>n n1 n2. node_run (airtight_node 3) MCCC_flows [RadioStarted 0 (0, SUCCESS, SUCCESS) SUCCESS] n \<and>
     node_step (airtight_node 3) (NotificationArrives 7 (0, SUCCESS, SUCCESS) SINK_NODE_ID 5) n = Some n1 \<and>
     alarms (airtight_node 3) (replicate 10 (0, (0, SUCCESS, SUCCESS))) n1 = Some n2 \<and> unat (sl_slot (n_slotter n2)) = 5"
proof -
  obtain n where n: "node_run (airtight_node 3) MCCC_flows [RadioStarted 0 (0, SUCCESS, SUCCESS) SUCCESS] n" "m_init (n_mac n)"
    using started [of 3 MCCC_flows] by auto
  have "TOS_NODE_ID (airtight_node 3) \<noteq> SINK_NODE_ID" by (simp add: SINK_NODE_ID_def)
  from node_synchronises [OF airtight_node_ok(1) n this, of 7 "(0, SUCCESS, SUCCESS)" 5 "replicate 10 (0, (0, SUCCESS, SUCCESS))"] n(1)
  show ?thesis by auto
qed

text \<open>C2: No two nodes transmit in the same slot: of two nodes with different addresses, each after any
  run, at most one sends a frame in the event of a given slot.\<close>

theorem tdma_collision_free:
  assumes "mac_params_ok p" and "node_run p fs es n" and "mac_params_ok q" and "node_run q gs ds m"
    and "TOS_NODE_ID p \<noteq> TOS_NODE_ID q"
    and "Slotter_slot p t r nr slot (n_mac n) = Some s" and "Slotter_slot q t' r' nr' slot (n_mac m) = Some s'"
  shows "\<not> (transmits (n_mac n) s \<and> transmits (n_mac m) s')"
proof -
  have "table_ok p (n_mac n)" "table_ok q (n_mac m)"
    using node_run_inv [OF assms(2,1)] node_run_inv [OF assms(4,3)] by (simp_all add: node_inv_def)
  then show ?thesis
    using slot_event [OF assms(6)] slot_event [OF assms(7)] assms(5)
    by (auto simp: data_slot_def SINK_NODE_ID_def split: if_splits)
qed

theorem tdma_collision_free_witness:
  "\<exists>n m s s'. node_run (airtight_node 1) MCCC_flows [] n \<and> node_run (airtight_node 2) MCCC_flows [] m \<and>
     Slotter_slot (airtight_node 1) 0 SUCCESS SUCCESS 3 (n_mac n) = Some s \<and>
     Slotter_slot (airtight_node 2) 0 SUCCESS SUCCESS 3 (n_mac m) = Some s' \<and> \<not> (transmits (n_mac n) s \<and> transmits (n_mac m) s')"
proof -
  define n where "n k = node_boot (airtight_node k) SUCCESS MCCC_flows" for k
  have run: "node_run (airtight_node k) MCCC_flows [] (n k)" for k unfolding n_def by (rule node_run.boot)
  have "\<exists>s. Slotter_slot (airtight_node k) 0 SUCCESS SUCCESS 3 (n_mac (n k)) = Some s" for k
    using mac_inv_slot [of "airtight_node k" "n_mac (n k)" 3] node_run_inv [OF run [of k]]
    by (auto simp: node_inv_def MAX_SLOTS_def) metis
  then obtain s s' where "Slotter_slot (airtight_node 1) 0 SUCCESS SUCCESS 3 (n_mac (n 1)) = Some s"
    "Slotter_slot (airtight_node 2) 0 SUCCESS SUCCESS 3 (n_mac (n 2)) = Some s'" by blast
  with tdma_collision_free [OF airtight_node_ok(1) run airtight_node_ok(1) run _ this] run show ?thesis by fastforce
qed

section \<open>Flows\<close>

lemma send_loop_c: "send_loop p ts base cs pkt res s = Some (e, pkt', s') \<Longrightarrow> mp_c pkt' = mp_c pkt"
  by (induction p ts base cs pkt res s rule: send_loop.induct) (auto simp: Let_def split: option.splits)

lemma MacSend_send_c: "MacSend_send p ts pkt s = Some (e, pkt', s') \<Longrightarrow> mp_c pkt' = mp_c pkt"
  by (auto simp: MacSend_send_def Let_def send_loop_c split: if_splits)

text \<open>The parameters of a flow, and a flow whose counter is \<open>k\<close> messages of \<open>c\<close> frames.\<close>

definition params :: "txflow \<Rightarrow> u8 \<times> u8 \<times> crit \<times> u8 \<times> u8" where
  "params f = (flow_num f, dest_id f, crit_level f, fl_c f, fl_priority f)"

definition flow_at :: "nat \<Rightarrow> txflow \<Rightarrow> txflow \<Rightarrow> bool" where
  "flow_at k f0 f \<longleftrightarrow> params f = params f0 \<and> fl_packetsSent f = of_nat k * fl_c f0"

lemma length_sendDone [simp]: "length (FlowSend_sendDone i fs) = length fs"
  by (simp add: FlowSend_sendDone_def)

lemma nth_sendDone: "j < length fs \<Longrightarrow> FlowSend_sendDone i fs ! j = AppSend_sendDone (j = i) (fs ! j)"
  by (simp add: FlowSend_sendDone_def)

lemma TXFlow_send_flows:
  assumes "TXFlow_send p ts i (fs, mac) = Some (fs', mac')" and "i < length fs"
  shows "length fs' = length fs" "params (fs' ! i) = params (fs ! i)" "fl_packetsSent (fs' ! i) = fl_packetsSent (fs ! i) + fl_c (fs ! i)"
    "j < length fs \<Longrightarrow> j \<noteq> i \<Longrightarrow> fs' ! j = fs ! j"
  using assms
  by (auto simp: TXFlow_send_def FlowSend_send_def send_before_def send_after_def nth_sendDone AppSend_sendDone_def params_def
      setup_mcc_app_packet_def dest!: MacSend_send_c split: bind_splits)

fun sends_of :: "nat \<Rightarrow> node_event list \<Rightarrow> nat" where
  "sends_of i [] = 0"
| "sends_of i (e # es) = (case e of FlowSends j _ \<Rightarrow> if j = i then Suc (sends_of i es) else sends_of i es | _ \<Rightarrow> sends_of i es)"

lemma sends_of_snoc: "sends_of i (es @ [e]) = sends_of i es + (case e of FlowSends j _ \<Rightarrow> if j = i then 1 else 0 | _ \<Rightarrow> 0)"
  by (induction es) (auto split: node_event.splits)

lemma flows_kept [simp]:
  "n_flows (node_startDone e n) = n_flows n" "n_flows (node_setFrameLength k n) = n_flows n"
  by (simp_all add: node_startDone_def node_setFrameLength_def Let_def split: prod.split)

lemma node_sync_flows: "node_sync p now ans k n = Some n' \<Longrightarrow> n_flows n' = n_flows n"
  by (auto simp: node_sync_def split: bind_splits)

lemma node_step_flows:
  assumes "node_step p e n = Some n'" and "\<forall>i ts. e \<noteq> FlowSends i ts" and "\<forall>i. e \<noteq> FlowTimer i"
  shows "n_flows n' = n_flows n"
  using assms
  by (cases e) (auto simp: radio_started_def alarm_fires_def notification_arrives_def data_arrives_def data_sent_def
      notification_sent_def Let_def dest!: node_sync_flows split: bind_splits if_splits)

lemma flows_run:
  assumes "node_run p fs es n"
  shows "length (n_flows n) = length fs \<and> (\<forall>i < length fs. flow_at (sends_of i es) (fs ! i) (n_flows n ! i))"
  using assms
proof (induction rule: node_run.induct)
  case (boot r)
  then show ?case by (simp add: node_boot_def flow_at_def params_def TXFlow_booted_def)
next
  case (step es n e n')
  show ?case
  proof (cases e)
    case (FlowSends i ts)
    then obtain mac where s: "TXFlow_send p ts i (n_flows n, n_mac n) = Some (n_flows n', mac)" and i: "i < length (n_flows n)"
      using step(2,3) by (auto simp: flow_sends_def split: bind_splits)
    note f = TXFlow_send_flows [OF s i]
    have "flow_at (sends_of j (es @ [e])) (fs ! j) (n_flows n' ! j)" if "j < length fs" for j
      using step.IH that f(2,3) f(4) [of j] FlowSends
      by (cases "j = i") (auto simp: sends_of_snoc flow_at_def params_def algebra_simps)
    then show ?thesis using step.IH f(1) by simp
  next
    case (FlowTimer i)
    then show ?thesis using step.IH step(2,3)
      by (auto simp: sends_of_snoc flow_timer_def SendTimer_fired_def flow_at_def params_def nth_list_update)
  qed (use step.IH node_step_flows [OF step(3)] in \<open>simp_all add: sends_of_snoc\<close>)
qed

text \<open>C5: The \<open>k\<close>-th message of a flow, counted from 0, reaches the MAC with the flow's destination,
  priority and criticality and with the number \<open>k * c\<close> modulo 256, whatever the node has done in
  between and whether or not the MAC accepted the messages before it.\<close>

theorem flow_messages_numbered:
  assumes "node_run p fs (es @ [FlowSends i ts]) n"
  shows "\<exists>n0 code pkt pkt'. node_run p fs es n0 \<and> MacSend_send p ts pkt (n_mac n0) = Some (code, pkt', n_mac n) \<and>
    mp_seq_num pkt = of_nat (sends_of i es) * fl_c (fs ! i) \<and> mp_flow_id pkt = flow_num (fs ! i) \<and> mp_c pkt = fl_c (fs ! i) \<and>
    mp_priority pkt = fl_priority (fs ! i) \<and> mp_crit_level pkt = crit_level (fs ! i) \<and> mp_dst pkt = dest_id (fs ! i) \<and>
    mp_src pkt = ucast (TOS_NODE_ID p)"
proof -
  obtain n0 where n0: "node_run p fs es n0" "enabled (FlowSends i ts) n0" "node_step p (FlowSends i ts) n0 = Some n"
    using assms by (rule node_run_snoc) auto
  then obtain fs' where s: "TXFlow_send p ts i (n_flows n0, n_mac n0) = Some (fs', n_mac n)" "i < length (n_flows n0)"
    by (auto simp: flow_sends_def split: bind_splits)
  have "flow_at (sends_of i es) (fs ! i) (n_flows n0 ! i)" using flows_run [OF n0(1)] s(2) by simp
  then show ?thesis
    using TXFlow_send_mac [OF s] n0(1) by (fastforce simp: flow_at_def params_def setup_mcc_app_packet_def)
qed

definition fired_node :: mote where
  "fired_node = flow_timer 1 (node_boot (airtight_node 1) SUCCESS MCCC_flows)"

theorem flow_messages_numbered_witness:
  "\<exists>n n0 code pkt pkt'. node_run (airtight_node 1) MCCC_flows ([FlowTimer 1] @ [FlowSends 1 (\<lambda>_. 0)]) n \<and>
     node_run (airtight_node 1) MCCC_flows [FlowTimer 1] n0 \<and>
     MacSend_send (airtight_node 1) (\<lambda>_. 0) pkt (n_mac n0) = Some (code, pkt', n_mac n) \<and> mp_flow_id pkt = 2 \<and> mp_seq_num pkt = 0"
proof -
  have "\<not> Option.is_none (node_step (airtight_node 1) (FlowSends 1 (\<lambda>_. 0)) fired_node)" by code_simp
  then obtain n where n: "node_step (airtight_node 1) (FlowSends 1 (\<lambda>_. 0)) fired_node = Some n" by (auto simp: Option.is_none_def)
  have "node_run (airtight_node 1) MCCC_flows [FlowTimer 1] fired_node"
    by (rule node_run_Cons [where r = SUCCESS]) (simp_all add: fired_node_def node_boot_def MCCC_flows_def TXFlow_booted_def)
  from node_run.step [OF this _ n] have run: "node_run (airtight_node 1) MCCC_flows ([FlowTimer 1] @ [FlowSends 1 (\<lambda>_. 0)]) n"
    by (simp add: fired_node_def flow_timer_def node_boot_def MCCC_flows_def SendTimer_fired_def)
  from flow_messages_numbered [OF run] obtain n0 code pkt pkt' where
    m: "node_run (airtight_node 1) MCCC_flows [FlowTimer 1] n0" "MacSend_send (airtight_node 1) (\<lambda>_. 0) pkt (n_mac n0) = Some (code, pkt', n_mac n)"
    "mp_seq_num pkt = of_nat (sends_of 1 [FlowTimer 1]) * fl_c (MCCC_flows ! 1)" "mp_flow_id pkt = flow_num (MCCC_flows ! 1)" by blast
  have "mp_flow_id pkt = 2" "mp_seq_num pkt = 0" using m(3,4) by (simp_all add: MCCC_flows_def TXFlowC_def)
  then show ?thesis using m(1,2) run by blast
qed

end
