(* ===== verification/CircBuf.thy ===== *)
theory CircBuf
  imports Prelude
begin

text \<open>
  The circular buffer of the TCP implementation, \<open>libtcp/circ.c\<close>: a window of a byte stream
  addressed by 32-bit sequence numbers. The buffer's data region is its own byte object, so that
  every access outside it is the value None; \<open>data_head\<close> is the offset of the head in it.
\<close>

section \<open>State and operations\<close>

record circ_buf =
  cb_data :: bytes
  data_head :: int
  data_len :: u16
  head_seqno :: u32

abbreviation cb_cap :: "circ_buf \<Rightarrow> int" where
  "cb_cap b \<equiv> uint (data_len b)"

text \<open>
  \<open>data\<close> is the memory handed over, \<open>hdr\<close> the size of the header at its start. The length, an
  int, is compared with \<open>sizeof\<close> as a \<open>size_t\<close>. None: the data region would not lie in the
  memory handed over.
\<close>

definition circ_buf_init :: "nat \<Rightarrow> bytes \<Rightarrow> int \<Rightarrow> u32 \<Rightarrow> (int \<times> circ_buf option) option" where
  "circ_buf_init hdr data len seqno =
     (if to_size_t len < hdr then Some (-1, None)
      else
        let dl = of_int (len - int hdr) :: u16
        in if hdr + unat dl \<le> length data
           then Some (0, Some \<lparr>cb_data = take (unat dl) (drop hdr data), data_head = 0,
                               data_len = dl, head_seqno = seqno\<rparr>)
           else None)"

definition circ_get_seqno :: "circ_buf \<Rightarrow> u32" where
  "circ_get_seqno b = head_seqno b"

definition circ_set_seqno :: "circ_buf \<Rightarrow> u32 \<Rightarrow> circ_buf" where
  "circ_set_seqno b seqno = b\<lparr>head_seqno := seqno\<rparr>"

text \<open>The pointer for a sequence number, as an offset from \<open>data_start\<close>, and the bytes from there
  to the end of the buffer.\<close>

definition get_ptr_off_1 :: "circ_buf \<Rightarrow> u32 \<Rightarrow> int \<Rightarrow> int \<times> int" where
  "get_ptr_off_1 b sseqno len =
     (let endptr = cb_cap b;
          offset = sint (sseqno - head_seqno b);
          writeptr = (if data_head b + offset < endptr then data_head b + offset
                      else offset - (endptr - data_head b));
          w_len = (if endptr < writeptr + len then endptr - writeptr else len)
      in (writeptr, w_len))"

text \<open>The loop \<open>while (data_head > data_start + data_len) data_head -= data_len\<close>; None: it does not
  end, on an empty data region.\<close>

function wrap_head :: "int \<Rightarrow> int \<Rightarrow> int option" where
  "wrap_head dl h =
     (if dl < h then (if dl \<le> 0 then None else wrap_head dl (h - dl)) else Some h)"
  by pat_completeness auto
termination by (relation "measure (\<lambda>(dl, h). nat h)") auto

declare wrap_head.simps [simp del]

definition circ_shorten_head :: "circ_buf \<Rightarrow> u32 \<Rightarrow> circ_buf option" where
  "circ_shorten_head b seqno =
     (let offset = sint (seqno - head_seqno b);
          b1 = b\<lparr>head_seqno := seqno\<rparr>
      in map_option (\<lambda>h. b1\<lparr>data_head := h\<rparr>) (wrap_head (cb_cap b1) (data_head b1 + offset)))"

text \<open>The caller's array \<open>data\<close> is written from its start; the result is the count and that array.\<close>

definition circ_buf_read :: "circ_buf \<Rightarrow> u32 \<Rightarrow> bytes \<Rightarrow> int \<Rightarrow> (int \<times> bytes) option" where
  "circ_buf_read b sseqno data len =
     (case get_ptr_off_1 b sseqno len of (readptr, r_len) \<Rightarrow> do {
        src \<leftarrow> rdz (cb_data b) readptr r_len;
        data1 \<leftarrow> wrz data 0 src;
        if r_len \<noteq> len then
          let r_len2 = min (len - r_len) (data_head b)
          in do {
            src2 \<leftarrow> rdz (cb_data b) 0 r_len2;
            data2 \<leftarrow> wrz data1 r_len src2;
            Some (r_len + r_len2, data2)
          }
        else Some (r_len, data1)
      })"

definition circ_buf_write :: "circ_buf \<Rightarrow> u32 \<Rightarrow> bytes \<Rightarrow> int \<Rightarrow> (int \<times> circ_buf) option" where
  "circ_buf_write b sseqno data len =
     (if head_seqno b + ucast (data_len b) < sseqno then Some (-1, b)
      else if len = 0 then Some (0, b)
      else
        case get_ptr_off_1 b sseqno len of (writeptr, w_len) \<Rightarrow> do {
          src \<leftarrow> rdz data 0 w_len;
          mem1 \<leftarrow> wrz (cb_data b) writeptr src;
          if w_len \<noteq> len then
            let w_len2 = min (len - w_len) (data_head b)
            in do {
              src2 \<leftarrow> rdz data w_len w_len2;
              mem2 \<leftarrow> wrz mem1 0 src2;
              Some (0, b\<lparr>cb_data := mem2\<rparr>)
            }
          else Some (0, b\<lparr>cb_data := mem1\<rparr>)
        })"

section \<open>The contract of a stream window\<close>

text \<open>
  A window of \<open>cap\<close> bytes on a stream: bytes are put and read at offsets from its head, in any
  order, and the head advances.
\<close>

text \<open>Segments of a stream, put in any order and overlapping at will: each segment is an offset and
  a length, its bytes are the stream's.\<close>

fun put_all :: "('b \<Rightarrow> nat \<Rightarrow> bytes \<Rightarrow> 'b option) \<Rightarrow> bytes \<Rightarrow> (nat \<times> nat) list \<Rightarrow> 'b \<Rightarrow> 'b option"
  where
  "put_all put s [] b = Some b"
| "put_all put s ((off, n) # segs) b =
     Option.bind (put b off (take n (drop off s))) (put_all put s segs)"

locale stream_window =
  fixes put :: "'b \<Rightarrow> nat \<Rightarrow> bytes \<Rightarrow> 'b option"
    and get :: "'b \<Rightarrow> nat \<Rightarrow> nat \<Rightarrow> bytes option"
    and advance :: "'b \<Rightarrow> nat \<Rightarrow> 'b option"
    and window :: "'b \<Rightarrow> bytes"
    and inv :: "'b \<Rightarrow> bool"
  assumes put_window: "inv b \<Longrightarrow> off + length d \<le> length (window b) \<Longrightarrow>
      \<exists>b'. put b off d = Some b' \<and> inv b' \<and>
        window b' = take off (window b) @ d @ drop (off + length d) (window b)"
    and get_window: "inv b \<Longrightarrow> off + n \<le> length (window b) \<Longrightarrow>
      get b off n = Some (take n (drop off (window b)))"
    and advance_window: "inv b \<Longrightarrow> n \<le> length (window b) \<Longrightarrow>
      \<exists>b'. advance b n = Some b' \<and> (inv b' \<longrightarrow> window b' = drop n (window b) @ take n (window b))"
begin

lemma put_get:
  assumes "inv b" and "off + length d \<le> length (window b)"
  shows "\<exists>b'. put b off d = Some b' \<and> inv b' \<and> get b' off (length d) = Some d"
  using put_window [OF assms] get_window assms by fastforce

lemma reassembly:
  assumes "inv b" and "length s \<le> length (window b)"
    and "\<forall>(off, n) \<in> set segs. off + n \<le> length s"
  shows "\<exists>b'. put_all put s segs b = Some b' \<and> inv b' \<and> length (window b') = length (window b) \<and>
    (\<forall>i < length s. window b' ! i =
      (if \<exists>(off, n) \<in> set segs. off \<le> i \<and> i < off + n then s ! i else window b ! i))"
  using assms
proof (induction segs arbitrary: b)
  case Nil
  then show ?case by simp
next
  case (Cons seg segs)
  obtain off n where seg: "seg = (off, n)" by (cases seg)
  have n: "off + n \<le> length s" using Cons.prems(3) seg by simp
  have len: "length (take n (drop off s)) = n" using n by simp
  obtain b1 where b1: "put b off (take n (drop off s)) = Some b1" "inv b1"
    "window b1 = take off (window b) @ take n (drop off s) @ drop (off + n) (window b)"
    using put_window [OF Cons.prems(1), of off "take n (drop off s)"] n Cons.prems(2) len by auto
  have l1: "length (window b1) = length (window b)"
    using b1(3) n Cons.prems(2) by simp
  have w1: "window b1 ! i = (if off \<le> i \<and> i < off + n then s ! i else window b ! i)"
    if "i < length s" for i
    using that n Cons.prems(2) by (auto simp: b1(3) nth_append min_def)
  obtain b' where b': "put_all put s segs b1 = Some b'" "inv b'"
    "length (window b') = length (window b1)"
    "\<forall>i < length s. window b' ! i =
      (if \<exists>(off, n) \<in> set segs. off \<le> i \<and> i < off + n then s ! i else window b1 ! i)"
    using Cons.IH [OF b1(2)] Cons.prems l1 by auto
  then show ?case using b1(1) l1 w1 seg by auto
qed

end

section \<open>The circular buffer is a stream window\<close>

text \<open>The head may stand one past the last byte; sequence numbers do not wrap within the window.\<close>

definition circ_inv :: "circ_buf \<Rightarrow> bool" where
  "circ_inv b \<longleftrightarrow>
     length (cb_data b) = unat (data_len b) \<and> 0 < unat (data_len b) \<and>
     0 \<le> data_head b \<and> data_head b \<le> cb_cap b \<and>
     unat (head_seqno b) + unat (data_len b) < 2 ^ 32"

definition circ_window :: "circ_buf \<Rightarrow> bytes" where
  "circ_window b = rotate (nat (data_head b)) (cb_data b)"

definition circ_put :: "circ_buf \<Rightarrow> nat \<Rightarrow> bytes \<Rightarrow> circ_buf option" where
  "circ_put b off d =
     (case circ_buf_write b (circ_get_seqno b + of_nat off) d (int (length d)) of
        Some (rc, b') \<Rightarrow> if rc = 0 then Some b' else None
      | None \<Rightarrow> None)"

definition circ_get :: "circ_buf \<Rightarrow> nat \<Rightarrow> nat \<Rightarrow> bytes option" where
  "circ_get b off n =
     (case circ_buf_read b (circ_get_seqno b + of_nat off) (replicate n 0) (int n) of
        Some (rc, d) \<Rightarrow> if rc = int n then Some d else None
      | None \<Rightarrow> None)"

definition circ_advance :: "circ_buf \<Rightarrow> nat \<Rightarrow> circ_buf option" where
  "circ_advance b n = circ_shorten_head b (circ_get_seqno b + of_nat n)"

lemma circ_put_seqno: "circ_put b off d = Some b' \<Longrightarrow> head_seqno b' = head_seqno b \<and> data_len b' = data_len b"
  by (auto simp: circ_put_def circ_buf_write_def Let_def bind_Some_iff split: option.splits prod.splits if_splits)

lemma sint_of_nat_u32: "n < 2 ^ 31 \<Longrightarrow> sint (of_nat n :: u32) = int n"
  by (simp add: signed_of_nat signed_take_bit_int_eq_self)

lemma length_circ_window [simp]: "length (circ_window b) = length (cb_data b)"
  by (simp add: circ_window_def)

text \<open>A memory that changed exactly at the places of a segment of the window.\<close>

lemma rotate_update:
  assumes "length m' = length m" and "off + length d \<le> length m"
    and "\<And>i. i < length m \<Longrightarrow> m' ! ((h + i) mod length m) =
      (if off \<le> i \<and> i < off + length d then d ! (i - off) else m ! ((h + i) mod length m))"
  shows "rotate h m' = take off (rotate h m) @ d @ drop (off + length d) (rotate h m)"
  by (rule nth_equalityI) (use assms in \<open>auto simp: nth_rotate nth_append min_def\<close>)

lemma wrap_index_cases:
  assumes "h \<le> c" and "i < (c :: nat)"
  shows "(h + i) mod c = (if h + i < c then h + i else h + i - c)"
  using assms by (simp add: le_mod_geq)

lemma get_ptr_off_1_spec:
  assumes "circ_inv b" and "off < 65536"
  shows "get_ptr_off_1 b (head_seqno b + of_nat off) len =
    (let p = (if data_head b + int off < cb_cap b then data_head b + int off
              else data_head b + int off - cb_cap b)
     in (p, if cb_cap b < p + len then cb_cap b - p else len))"
  using assms by (simp add: get_ptr_off_1_def sint_of_nat_u32 Let_def)

lemma circ_write_allowed:
  assumes inv: "circ_inv b" and off: "off \<le> unat (data_len b)"
  shows "\<not> head_seqno b + ucast (data_len b) < head_seqno b + of_nat off"
proof -
  have "unat (head_seqno b + ucast (data_len b)) = unat (head_seqno b) + unat (data_len b)"
    using inv by (simp add: circ_inv_def unat_word_ariths)
  moreover have "unat (head_seqno b + of_nat off) = unat (head_seqno b) + off"
    using inv off by (simp add: circ_inv_def unat_word_ariths unat_of_nat)
  ultimately show ?thesis using off by (simp add: word_less_nat_alt)
qed

text \<open>The memory a write leaves: the segment of the window is the data, the rest is unchanged.\<close>

lemma circ_write_memory:
  assumes inv: "circ_inv b" and le: "off + length d \<le> unat (data_len b)" and ne: "d \<noteq> []"
    and h: "h = nat (data_head b)" and c: "c = unat (data_len b)"
  obtains m' where
    "circ_buf_write b (head_seqno b + of_nat off) d (int (length d)) =
      Some (0, b\<lparr>cb_data := m'\<rparr>)"
    and "length m' = c"
    and "\<And>i. i < c \<Longrightarrow> m' ! ((h + i) mod c) =
      (if off \<le> i \<and> i < off + length d then d ! (i - off) else cb_data b ! ((h + i) mod c))"
proof -
  let ?m = "cb_data b" and ?n = "length d"
  have h': "data_head b = int h" "h \<le> c" and lm: "length ?m = c" and cap: "cb_cap b = int c"
    using inv by (simp_all add: circ_inv_def h c le_nat_iff nat_le_iff)
  have c': "c < 65536" by (simp add: c unat_u16_lt)
  have off: "off < 65536" "off \<le> unat (data_len b)" "off + ?n \<le> c" using le c' by (simp_all add: c)
  note wdef = circ_buf_write_def circ_write_allowed [OF inv off(2)] ne
  note ptr = get_ptr_off_1_spec [OF inv off(1), unfolded Let_def h'(1) cap]
  consider (inner) "h + off + ?n \<le> c" "h + off < c" | (across) "h + off < c" "c < h + off + ?n"
    | (outer) "c \<le> h + off" by linarith
  then show thesis
  proof cases
    case inner
    obtain m' where m': "wrn ?m (h + off) d = Some m'"
      using wrn_ok [of "h + off" d ?m] inner lm by auto
    have "get_ptr_off_1 b (head_seqno b + of_nat off) (int ?n) = (int (h + off), int ?n)"
      using inner by (simp add: ptr)
    then have "circ_buf_write b (head_seqno b + of_nat off) d (int ?n) = Some (0, b\<lparr>cb_data := m'\<rparr>)"
      using m' by (simp only: wdef) (simp add: rdn_def ne del: of_nat_add)
    moreover have "m' ! ((h + i) mod c) = (if off \<le> i \<and> i < off + ?n then d ! (i - off)
        else ?m ! ((h + i) mod c))" if "i < c" for i
      unfolding wrap_index_cases [OF h'(2) that]
      using that inner lm h'(2) wrn_nth [OF m', of "h + i"] wrn_nth [OF m', of "h + i - c"]
      by (cases "h + i < c") auto
    ultimately show thesis using that wrn_length [OF m'] lm by blast
  next
    case across
    define k where "k = c - (h + off)"
    obtain m1 where m1: "wrn ?m (h + off) (take k d) = Some m1"
      using wrn_ok [of "h + off" "take k d" ?m] across lm by (auto simp: k_def)
    have lk: "length (take k d) = k" "length (drop k d) = ?n - k" using across by (auto simp: k_def)
    obtain m2 where m2: "wrn m1 0 (drop k d) = Some m2"
      using wrn_ok [of 0 "drop k d" m1] lm off(3) wrn_length [OF m1] by fastforce
    have mi: "min (int ?n - int k) (int h) = int (?n - k)" "k < ?n"
      using across off(3) h'(2) by (auto simp: k_def)
    have "get_ptr_off_1 b (head_seqno b + of_nat off) (int ?n) = (int (h + off), int k)"
      using across by (simp add: ptr k_def of_nat_diff)
    then have "circ_buf_write b (head_seqno b + of_nat off) d (int ?n) = Some (0, b\<lparr>cb_data := m2\<rparr>)"
      using m1 m2 mi by (simp only: wdef)
        (simp add: rdn_def ne h'(1) Let_def lk del: of_nat_add of_nat_diff)
    moreover have "m2 ! ((h + i) mod c) = (if off \<le> i \<and> i < off + ?n then d ! (i - off)
        else ?m ! ((h + i) mod c))" if "i < c" for i
      unfolding wrap_index_cases [OF h'(2) that]
      using that across lm h'(2) off(3) wrn_length [OF m1] lk
      by (cases "h + i < c") (auto simp: wrn_nth [OF m1] wrn_nth [OF m2] k_def)
    ultimately show thesis using that wrn_length [OF m1] wrn_length [OF m2] lm by metis
  next
    case outer
    have "h + off - c + ?n \<le> c" using off(3) h'(2) by linarith
    with lm obtain m' where m': "wrn ?m (h + off - c) d = Some m'"
      using wrn_ok [of "h + off - c" d ?m] by auto
    have "get_ptr_off_1 b (head_seqno b + of_nat off) (int ?n) = (int (h + off - c), int ?n)"
      using outer off(3) h'(2) by (simp add: ptr of_nat_diff)
    then have "circ_buf_write b (head_seqno b + of_nat off) d (int ?n) = Some (0, b\<lparr>cb_data := m'\<rparr>)"
      using m' by (simp only: wdef) (simp add: rdn_def ne del: of_nat_add of_nat_diff)
    moreover have "m' ! ((h + i) mod c) = (if off \<le> i \<and> i < off + ?n then d ! (i - off)
        else ?m ! ((h + i) mod c))" if "i < c" for i
      unfolding wrap_index_cases [OF h'(2) that]
      using that outer lm h'(2) off(3) by (cases "h + i < c") (auto simp: wrn_nth [OF m'])
    ultimately show thesis using that wrn_length [OF m'] lm by blast
  qed
qed


lemma circ_put_window:
  assumes inv: "circ_inv b" and le: "off + length d \<le> length (circ_window b)"
  shows "\<exists>b'. circ_put b off d = Some b' \<and> circ_inv b' \<and>
    circ_window b' = take off (circ_window b) @ d @ drop (off + length d) (circ_window b)"
proof (cases "d = []")
  case True
  moreover have "\<not> head_seqno b + ucast (data_len b) < head_seqno b + of_nat off"
    using circ_write_allowed [OF inv] le inv by (simp add: circ_inv_def)
  ultimately show ?thesis
    using inv by (simp add: circ_put_def circ_get_seqno_def circ_buf_write_def)
next
  case False
  let ?c = "unat (data_len b)"
  have lm: "length (cb_data b) = ?c" using inv by (simp add: circ_inv_def)
  with le have "off + length d \<le> ?c" by simp
  then obtain m' where m': "circ_buf_write b (head_seqno b + of_nat off) d (int (length d)) =
      Some (0, b\<lparr>cb_data := m'\<rparr>)" "length m' = ?c"
    "\<And>i. i < ?c \<Longrightarrow> m' ! ((nat (data_head b) + i) mod ?c) =
      (if off \<le> i \<and> i < off + length d then d ! (i - off)
       else cb_data b ! ((nat (data_head b) + i) mod ?c))"
    using circ_write_memory [OF inv _ False refl refl] by metis
  have "rotate (nat (data_head b)) m' = take off (rotate (nat (data_head b)) (cb_data b)) @ d @
      drop (off + length d) (rotate (nat (data_head b)) (cb_data b))"
    by (rule rotate_update) (use m' lm le in simp_all)
  then show ?thesis using m' inv
    by (simp add: circ_put_def circ_get_seqno_def circ_window_def circ_inv_def)
qed

text \<open>A read gives the segment of the window.\<close>

lemma circ_get_window:
  assumes inv: "circ_inv b" and le: "off + n \<le> length (circ_window b)"
  shows "circ_get b off n = Some (take n (drop off (circ_window b)))"
proof -
  let ?m = "cb_data b"
  define h where "h = nat (data_head b)"
  define c where "c = unat (data_len b)"
  have h': "data_head b = int h" "h \<le> c" and lm: "length ?m = c" and cap: "cb_cap b = int c"
    using inv by (simp_all add: circ_inv_def h_def c_def le_nat_iff nat_le_iff)
  have c': "c < 65536" by (simp add: c_def unat_u16_lt)
  have off: "off < 65536" "off + n \<le> c" using le lm c' by simp_all
  note ptr = get_ptr_off_1_spec [OF inv off(1), unfolded Let_def h'(1) cap]
  have win: "take n (drop off (circ_window b)) = map (\<lambda>i. ?m ! ((h + off + i) mod c)) [0..<n]"
    by (rule nth_equalityI)
      (use off lm in \<open>auto simp: circ_window_def nth_rotate h_def ac_simps\<close>)
  consider (inner) "h + off + n \<le> c" "h + off < c" | (across) "h + off < c" "c < h + off + n"
    | (outer) "c \<le> h + off" by linarith
  then show ?thesis
  proof cases
    case inner
    have "get_ptr_off_1 b (head_seqno b + of_nat off) (int n) = (int (h + off), int n)"
      using inner by (simp add: ptr)
    moreover have "rdn ?m (h + off) n = Some (take n (drop (h + off) ?m))"
      using inner lm by (simp add: rdn_def)
    ultimately have "circ_get b off n = Some (take n (drop (h + off) ?m))"
      using inner lm
      by (simp add: circ_get_def circ_get_seqno_def circ_buf_read_def wrn_def del: of_nat_add)
    also have "take n (drop (h + off) ?m) = map (\<lambda>i. ?m ! ((h + off + i) mod c)) [0..<n]"
      by (rule nth_equalityI) (use inner lm in auto)
    finally show ?thesis by (simp add: win)
  next
    case across
    define k where "k = c - (h + off)"
    have mi: "min (int n - int k) (int h) = int (n - k)" "k < n" "n - k \<le> c"
      using across off h'(2) by (auto simp: k_def)
    have "get_ptr_off_1 b (head_seqno b + of_nat off) (int n) = (int (h + off), int k)"
      using across by (simp add: ptr k_def of_nat_diff)
    moreover have "rdn ?m (h + off) k = Some (drop (h + off) ?m)"
      "rdn ?m 0 (n - k) = Some (take (n - k) ?m)"
      using across lm mi by (simp_all add: rdn_def k_def)
    ultimately have "circ_get b off n = Some (drop (h + off) ?m @ take (n - k) ?m)"
      using across lm mi
      by (simp add: circ_get_def circ_get_seqno_def circ_buf_read_def wrn_def Let_def h'(1) k_def
          del: of_nat_add of_nat_diff)
    also have "drop (h + off) ?m @ take (n - k) ?m = map (\<lambda>i. ?m ! ((h + off + i) mod c)) [0..<n]"
      by (rule nth_equalityI)
        (use across lm mi in \<open>auto simp: nth_append k_def le_mod_geq ac_simps\<close>)
    finally show ?thesis by (simp add: win)
  next
    case outer
    have p: "h + off - c + n \<le> c" using outer off h'(2) by simp
    have "get_ptr_off_1 b (head_seqno b + of_nat off) (int n) = (int (h + off - c), int n)"
      using outer off h'(2) by (simp add: ptr of_nat_diff)
    moreover have "rdn ?m (h + off - c) n = Some (take n (drop (h + off - c) ?m))"
      using p lm by (simp add: rdn_def)
    ultimately have "circ_get b off n = Some (take n (drop (h + off - c) ?m))"
      using p lm
      by (simp add: circ_get_def circ_get_seqno_def circ_buf_read_def wrn_def
          del: of_nat_add of_nat_diff)
    also have "take n (drop (h + off - c) ?m) = map (\<lambda>i. ?m ! ((h + off + i) mod c)) [0..<n]"
      by (rule nth_equalityI) (use outer p lm in \<open>auto simp: le_mod_geq\<close>)
    finally show ?thesis by (simp add: win)
  qed
qed

text \<open>The head advances: the window turns.\<close>

lemma wrap_head_fixed: "0 < dl \<Longrightarrow> 0 \<le> h \<Longrightarrow> h \<le> 2 * dl \<Longrightarrow>
  wrap_head dl h = Some (if h \<le> dl then h else h - dl)"
  by (simp add: wrap_head.simps [of dl h] wrap_head.simps [of dl "h - dl"])

lemma circ_advance_window:
  assumes inv: "circ_inv b" and le: "n \<le> length (circ_window b)"
  shows "\<exists>b'. circ_advance b n = Some b' \<and>
    (circ_inv b' \<longrightarrow> circ_window b' = drop n (circ_window b) @ take n (circ_window b))"
    and "circ_advance b n = Some b' \<Longrightarrow> unat (head_seqno b) + n + unat (data_len b) < 2 ^ 32 \<Longrightarrow>
      circ_inv b' \<and> head_seqno b' = head_seqno b + of_nat n"
proof -
  define h where "h = nat (data_head b)"
  define c where "c = unat (data_len b)"
  have h': "data_head b = int h" "h \<le> c" and lm: "length (cb_data b) = c"
    and cap: "cb_cap b = int c" and pos: "0 < c"
    using inv by (simp_all add: circ_inv_def h_def c_def le_nat_iff nat_le_iff)
  have n: "n \<le> c" "n < 65536" using le lm unat_u16_lt [of "data_len b"] by (simp_all add: c_def)
  then have "sint (of_nat n :: u32) = int n" by (simp add: sint_of_nat_u32)
  moreover have "wrap_head (int c) (int h + int n) =
      Some (if h + n \<le> c then int (h + n) else int (h + n - c))"
    using wrap_head_fixed [of "int c" "int h + int n"] pos h'(2) n(1) by (auto simp: of_nat_diff)
  ultimately have adv: "circ_advance b n = Some (b\<lparr>head_seqno := head_seqno b + of_nat n,
      data_head := (if h + n \<le> c then int (h + n) else int (h + n - c))\<rparr>)"
    by (simp add: circ_advance_def circ_get_seqno_def circ_shorten_head_def Let_def h' cap)
  have "rotate (if h + n \<le> c then h + n else h + n - c) m = drop n (rotate h m) @ take n (rotate h m)"
    if "length m = c" for m :: bytes
  proof (rule nth_equalityI)
    fix i assume "i < length (rotate (if h + n \<le> c then h + n else h + n - c) m)"
    then have i: "i < c" using that by simp
    have "((if h + n \<le> c then h + n else h + n - c) + i) mod c = (h + n + i) mod c"
      by (auto simp: le_mod_geq)
    moreover have "(drop n (rotate h m) @ take n (rotate h m)) ! i = m ! ((h + n + i) mod c)"
      using i that n(1) by (auto simp: nth_append nth_rotate le_mod_geq ac_simps)
    ultimately show "rotate (if h + n \<le> c then h + n else h + n - c) m ! i =
        (drop n (rotate h m) @ take n (rotate h m)) ! i"
      using i that by (auto simp: nth_rotate)
  qed (use that n in simp)
  from this [OF lm] show "\<exists>b'. circ_advance b n = Some b' \<and>
      (circ_inv b' \<longrightarrow> circ_window b' = drop n (circ_window b) @ take n (circ_window b))"
    unfolding adv by (cases "h + n \<le> c")
      (simp_all add: circ_window_def h'(1) nat_add_distrib nat_diff_distrib)
  assume "circ_advance b n = Some b'" "unat (head_seqno b) + n + unat (data_len b) < 2 ^ 32"
  then show "circ_inv b' \<and> head_seqno b' = head_seqno b + of_nat n"
    using inv n(1) h'(2) cap unfolding adv
    by (cases "h + n \<le> c") (auto simp: circ_inv_def unat_word_ariths unat_of_nat c_def [symmetric])
qed

interpretation circ: stream_window circ_put circ_get circ_advance circ_window circ_inv
  by unfold_locales (rule circ_put_window circ_get_window circ_advance_window(1); assumption)+

section \<open>Reading into any array\<close>

lemma wrn_all: "length buf = length src \<Longrightarrow> wrn buf 0 src = Some src"
  by (simp add: wrn_def)

lemma circ_read_dest:
  assumes "circ_buf_read b s (replicate n 0) (int n) = Some (int n, d)" and "length buf = n"
  shows "circ_buf_read b s buf (int n) = Some (int n, d)"
proof -
  obtain p r where pr: "get_ptr_off_1 b s (int n) = (p, r)" by fastforce
  obtain src where src: "rdz (cb_data b) p r = Some src" and w: "wrz (replicate n 0) 0 src \<noteq> None"
    using assms(1) by (auto simp: circ_buf_read_def pr bind_Some_iff)
  have len: "int (length src) = r" using src by (rule rdz_length)
  have le: "length src \<le> n" using w by (auto simp: wrz_def wrn_def split: if_splits)
  show ?thesis
  proof (cases "r = int n")
    case True
    then have "length src = n" using len by simp
    then show ?thesis using assms True src by (simp add: circ_buf_read_def pr wrn_all)
  next
    case False
    define k where "k = min (int n - r) (data_head b)"
    have "r + k = int n"
      using assms(1) False src w by (auto simp: circ_buf_read_def pr bind_Some_iff k_def Let_def)
    moreover obtain src2 where s2: "rdz (cb_data b) 0 k = Some src2"
      using assms(1) False src w by (auto simp: circ_buf_read_def pr bind_Some_iff k_def Let_def)
    ultimately have n: "length src + length src2 = n" using len rdz_length [OF s2] by simp
    have two: "Option.bind (wrz m 0 src) (\<lambda>m. wrz m r src2) = Some (src @ src2)" if "length m = n" for m
      using that n by (auto simp: wrz_def wrn_def len [symmetric])
    have eq: "circ_buf_read b s m (int n) =
        Option.bind (Option.bind (wrz m 0 src) (\<lambda>m. wrz m r src2)) (\<lambda>d. Some (r + k, d))" for m
      unfolding circ_buf_read_def pr prod.case src k_def Option.bind.simps Let_def if_P [OF False]
        s2 [unfolded k_def] by (simp add: Option.bind_assoc)
    have "circ_buf_read b s m (int n) = Some (r + k, src @ src2)" if "length m = n" for m
      by (simp only: eq two [OF that] Option.bind.simps)
    from this [of buf] this [of "replicate n 0"] show ?thesis using assms by simp
  qed
qed

lemma circ_read_window:
  assumes "circ_inv b" and "off + n \<le> length (circ_window b)" and "length buf = n"
  shows "circ_buf_read b (head_seqno b + of_nat off) buf (int n) = Some (int n, take n (drop off (circ_window b)))"
proof (rule circ_read_dest [OF _ assms(3)])
  have "circ_get b off n = Some (take n (drop off (circ_window b)))" by (rule circ_get_window [OF assms(1,2)])
  then show "circ_buf_read b (head_seqno b + of_nat off) (replicate n 0) (int n) =
      Some (int n, take n (drop off (circ_window b)))"
    unfolding circ_get_def circ_get_seqno_def by (simp split: option.splits prod.splits if_splits)
qed

section \<open>Properties\<close>

definition circ10 :: circ_buf where
  "circ10 = \<lparr>cb_data = [0, 1, 2, 3, 4, 5, 6, 7, 8, 9], data_head = 5, data_len = 10,
     head_seqno = 1000\<rparr>"

lemma circ10_inv: "circ_inv circ10"
  by (simp add: circ_inv_def circ10_def)

text \<open>The offsets the segments cover.\<close>

definition written :: "(nat \<times> nat) list \<Rightarrow> nat \<Rightarrow> bool" where
  "written segs i \<longleftrightarrow> (\<exists>(off, n) \<in> set segs. off \<le> i \<and> i < off + n)"

lemma put_all_seqno: "put_all circ_put s segs b = Some b' \<Longrightarrow> head_seqno b' = head_seqno b \<and> data_len b' = data_len b"
proof (induction segs arbitrary: b)
  case (Cons seg segs)
  obtain off n where "seg = (off, n)" by (cases seg)
  with Cons.prems obtain b1 where "circ_put b off (take n (drop off s)) = Some b1" "put_all circ_put s segs b1 = Some b'"
    by (auto simp: bind_Some_iff)
  then show ?case using Cons.IH circ_put_seqno by metis
qed simp

lemma circ_read_after_advance:
  assumes "circ_inv b" and "k \<le> off" and "off + n \<le> length (circ_window b)" and "length buf = n"
    and "unat (head_seqno b) + k + unat (data_len b) < 2 ^ 32"
  shows "\<exists>b'. circ_shorten_head b (head_seqno b + of_nat k) = Some b' \<and> circ_inv b' \<and>
    circ_buf_read b' (head_seqno b + of_nat off) buf (int n) = Some (int n, take n (drop off (circ_window b)))"
proof -
  have k: "k \<le> length (circ_window b)" using assms(2,3) by simp
  obtain b' where b': "circ_advance b k = Some b'" "circ_inv b'" "head_seqno b' = head_seqno b + of_nat k"
    "circ_window b' = drop k (circ_window b) @ take k (circ_window b)"
    using circ_advance_window [OF assms(1) k] assms(5) by blast
  have "off - k + n \<le> length (circ_window b')" using b'(4) assms(2,3) by simp
  from circ_read_window [OF b'(2) this assms(4)]
  have "circ_buf_read b' (head_seqno b + of_nat off) buf (int n) = Some (int n, take n (drop (off - k) (circ_window b')))"
    using assms(2) by (simp add: b'(3) of_nat_diff)
  moreover have "take n (drop (off - k) (circ_window b')) = take n (drop off (circ_window b))"
    using assms(2,3) by (simp add: b'(4))
  ultimately show ?thesis using b'(1,2) by (auto simp: circ_advance_def circ_get_seqno_def)
qed

text \<open>C31: Segments of a byte stream written into the circular buffer in any order, with any
  overlaps, at their sequence numbers, are read back as the stream: each write succeeds and stays
  inside the buffer, reading any stretch the segments cover returns its bytes, before and after the head
  is moved to any number up to the start of the stretch, and the window keeps its old bytes at the
  offsets not covered. The numbers from the head to one buffer's length past the stream must not wrap.\<close>

theorem circ_buf_reassembly:
  assumes "circ_inv b" and "length s \<le> unat (data_len b)"
    and "unat (head_seqno b) + length s + unat (data_len b) < 2 ^ 32"
    and "\<forall>(off, n) \<in> set segs. off + n \<le> length s"
  shows "\<exists>b'. put_all circ_put s segs b = Some b' \<and> circ_inv b' \<and>
    (\<forall>i < length s. circ_window b' ! i = (if written segs i then s ! i else circ_window b ! i)) \<and>
    (\<forall>off n buf. off + n \<le> length s \<and> length buf = n \<and> (\<forall>i \<in> {off..<off + n}. written segs i) \<longrightarrow>
      circ_buf_read b' (circ_get_seqno b + of_nat off) buf (int n) = Some (int n, take n (drop off s)) \<and>
      (\<forall>k \<le> off. \<exists>b''. circ_shorten_head b' (circ_get_seqno b + of_nat k) = Some b'' \<and> circ_inv b'' \<and>
        circ_buf_read b'' (circ_get_seqno b + of_nat off) buf (int n) = Some (int n, take n (drop off s))))"
proof -
  have "length s \<le> length (circ_window b)" using assms(1,2) by (simp add: circ_inv_def)
  from circ.reassembly [OF assms(1) this assms(4), folded written_def] obtain b' where
    b': "put_all circ_put s segs b = Some b'" "circ_inv b'" "length (circ_window b') = length (circ_window b)"
      "\<forall>i < length s. circ_window b' ! i = (if written segs i then s ! i else circ_window b ! i)" by blast
  note sq = put_all_seqno [OF b'(1)]
  {
    fix off n and buf :: bytes
    assume st: "off + n \<le> length s \<and> length buf = n \<and> (\<forall>i \<in> {off..<off + n}. written segs i)"
    then have le: "off + n \<le> length (circ_window b')" using b'(3) \<open>length s \<le> length (circ_window b)\<close> by simp
    have bytes: "take n (drop off (circ_window b')) = take n (drop off s)"
      by (rule nth_equalityI) (use st le b'(4) in auto)
    from circ_read_window [OF b'(2) le] st
    have "circ_buf_read b' (circ_get_seqno b + of_nat off) buf (int n) = Some (int n, take n (drop off s))"
      by (simp add: bytes sq circ_get_seqno_def)
    moreover have "\<exists>b''. circ_shorten_head b' (circ_get_seqno b + of_nat k) = Some b'' \<and> circ_inv b'' \<and>
        circ_buf_read b'' (circ_get_seqno b + of_nat off) buf (int n) = Some (int n, take n (drop off s))" if "k \<le> off" for k
      using circ_read_after_advance [OF b'(2) that le, of buf] st that assms(3)
      by (simp add: bytes sq circ_get_seqno_def)
    ultimately have "circ_buf_read b' (circ_get_seqno b + of_nat off) buf (int n) = Some (int n, take n (drop off s)) \<and>
      (\<forall>k \<le> off. \<exists>b''. circ_shorten_head b' (circ_get_seqno b + of_nat k) = Some b'' \<and> circ_inv b'' \<and>
        circ_buf_read b'' (circ_get_seqno b + of_nat off) buf (int n) = Some (int n, take n (drop off s)))" by blast
  }
  then show ?thesis using b' by (intro exI [of _ b']) blast
qed

theorem circ_buf_reassembly_witness:
  "\<exists>b' b''. put_all circ_put [11, 12, 13, 14, 15, 16, 17, 18] [(4, 4), (0, 3), (2, 3)] circ10 = Some b' \<and>
     circ_buf_read b' 1000 [0, 0, 0, 0, 0, 0, 0, 0] 8 = Some (8, [11, 12, 13, 14, 15, 16, 17, 18]) \<and>
     circ_shorten_head b' 1003 = Some b'' \<and> circ_buf_read b'' 1004 [0, 0] 2 = Some (2, [15, 16])"
proof -
  let ?s = "[11, 12, 13, 14, 15, 16, 17, 18] :: bytes" and ?segs = "[(4, 4), (0, 3), (2, 3)]"
  have all: "\<forall>i \<in> {off..<off + n}. written ?segs i" if "off + n \<le> 8" for off n
    using that by (simp add: written_def) auto
  have "length ?s \<le> unat (data_len circ10)" "unat (head_seqno circ10) + length ?s + unat (data_len circ10) < 2 ^ 32"
    "\<forall>(off, n) \<in> set ?segs. off + n \<le> length ?s" "circ_get_seqno circ10 = 1000"
    by (simp_all add: circ10_def circ_get_seqno_def)
  note w = circ_buf_reassembly [OF circ10_inv this(1-3), unfolded this(4)]
  then obtain b' where b': "put_all circ_put ?s ?segs circ10 = Some b'" and
    rd: "\<And>off n buf. off + n \<le> length ?s \<and> length buf = n \<and> (\<forall>i \<in> {off..<off + n}. written ?segs i) \<Longrightarrow>
      circ_buf_read b' (1000 + of_nat off) buf (int n) = Some (int n, take n (drop off ?s)) \<and>
      (\<forall>k \<le> off. \<exists>b''. circ_shorten_head b' (1000 + of_nat k) = Some b'' \<and> circ_inv b'' \<and>
        circ_buf_read b'' (1000 + of_nat off) buf (int n) = Some (int n, take n (drop off ?s)))" by blast
  from rd [of 0 8 "[0, 0, 0, 0, 0, 0, 0, 0]"] all [of 0 8]
  have "circ_buf_read b' 1000 [0, 0, 0, 0, 0, 0, 0, 0] 8 = Some (8, ?s)" by simp
  moreover have "\<forall>k \<le> 4. \<exists>b''. circ_shorten_head b' (1000 + of_nat k) = Some b'' \<and> circ_inv b'' \<and>
      circ_buf_read b'' (1000 + of_nat 4) [0, 0] (int 2) = Some (int 2, take 2 (drop 4 ?s))"
    using rd [of 4 2 "[0, 0]"] all [of 4 2] by simp
  then obtain b'' where "circ_shorten_head b' (1000 + of_nat 3) = Some b''"
    "circ_buf_read b'' (1000 + of_nat 4) [0, 0] (int 2) = Some (int 2, take 2 (drop 4 ?s))"
    by (auto dest: spec [of _ 3])
  ultimately show ?thesis using b' by (intro exI [of _ b'] exI [of _ b'']) simp
qed

text \<open>What is written into the window at a sequence number is read back from there, for every
  segment inside the window, on both sides of the end of the buffer; the read fills the caller's
  array and returns its length.\<close>

theorem circ_buf_write_read:
  assumes "circ_inv b" and "off + length d \<le> unat (data_len b)"
  shows "\<exists>b'. circ_buf_write b (circ_get_seqno b + of_nat off) d (int (length d)) = Some (0, b') \<and>
    circ_inv b' \<and>
    circ_buf_read b' (circ_get_seqno b' + of_nat off) (replicate (length d) 0) (int (length d)) =
      Some (int (length d), d)"
proof -
  have "off + length d \<le> length (circ_window b)" using assms by (simp add: circ_inv_def)
  from circ.put_get [OF assms(1) this] show ?thesis
    by (auto simp: circ_put_def circ_get_def split: option.splits prod.splits if_splits)
qed

theorem circ_buf_write_read_witness:
  "\<exists>b'. circ_buf_write circ10 1003 [21, 22, 23, 24] 4 = Some (0, b') \<and> circ_inv b' \<and>
     circ_buf_read b' (head_seqno b' + 3) [0, 0, 0, 0] 4 = Some (4, [21, 22, 23, 24])"
  using circ_buf_write_read [OF circ10_inv, of 3 "[21, 22, 23, 24]"]
  by (simp add: circ10_def circ_get_seqno_def)

text \<open>Near the end of the sequence space the buffer refuses data that lies inside its window:
  when \<open>head_seqno + data_len\<close> wraps past zero, every write whose own number has not wrapped is
  answered with -1.\<close>

theorem circ_buf_write_seqno_wrap:
  assumes "2 ^ 32 \<le> unat (head_seqno b) + unat (data_len b)"
    and "unat (head_seqno b) + off < 2 ^ 32"
  shows "circ_buf_write b (circ_get_seqno b + of_nat off) d len = Some (-1, b)"
proof -
  have "unat (head_seqno b + ucast (data_len b)) = unat (head_seqno b) + unat (data_len b) - 2 ^ 32"
    using assms(1) unat_u16_lt [of "data_len b"] unat_u32_lt [of "head_seqno b"]
    by (simp add: unat_word_ariths le_mod_geq)
  moreover have "unat (head_seqno b + of_nat off) = unat (head_seqno b) + off"
    using assms(2) by (simp add: unat_word_ariths unat_of_nat)
  ultimately have "head_seqno b + ucast (data_len b) < head_seqno b + of_nat off"
    using unat_u16_lt [of "data_len b"] assms(1) by (simp add: word_less_nat_alt)
  then show ?thesis by (simp add: circ_buf_write_def circ_get_seqno_def)
qed

theorem circ_buf_write_seqno_wrap_witness:
  "circ_buf_write (circ10\<lparr>head_seqno := 0xFFFFFFFE\<rparr>) 0xFFFFFFFF [7] 1 =
     Some (-1, circ10\<lparr>head_seqno := 0xFFFFFFFE\<rparr>)"
  using circ_buf_write_seqno_wrap [of "circ10\<lparr>head_seqno := 0xFFFFFFFE\<rparr>" 1 "[7]" 1]
  by (simp add: circ10_def circ_get_seqno_def)

text \<open>A write that starts beyond the end of the buffer is clipped at that end and not at the
  head: past the window it reports success and overwrites the bytes at the head, which are the
  next to be read.\<close>

theorem circ_buf_write_overruns_head:
  "circ_buf_read circ10 1000 [0, 0] 2 = Some (2, [5, 6]) \<and>
   (case circ_buf_write circ10 1006 [21, 22, 23, 24, 25, 26, 27, 28, 29] 9 of
      Some (rc, b') \<Rightarrow> rc = 0 \<and> circ_buf_read b' 1000 [0, 0] 2 = Some (2, [25, 26])
    | None \<Rightarrow> False)"
  by code_simp

end
