(* ===== verification/Iovec.thy ===== *)
theory Iovec
  imports Prelude
begin

text \<open>
  Scatter/gather buffers of blip, \<open>lib6lowpan/iovec.c\<close>. A chain of \<open>struct ip_iovec\<close> is the
  list of its elements; each base is a byte object of its own (the chains the sources build
  never point twice into one object). Lengths are \<open>size_t\<close>, offsets are ints, converted as C
  converts them.
\<close>

section \<open>Chains and operations\<close>

record iovec =
  iov_base :: bytes
  iov_len :: nat

text \<open>The loop that skips the elements before \<open>offset\<close>, with its \<open>cur_offset\<close>.\<close>

fun iov_skip :: "iovec list \<Rightarrow> int \<Rightarrow> int \<Rightarrow> iovec list \<times> int" where
  "iov_skip [] cur_offset offset = ([], cur_offset)"
| "iov_skip (iov # iovs) cur_offset offset =
     (if (to_size_t cur_offset + iov_len iov) mod 2 ^ 64 \<le> to_size_t offset
      then iov_skip iovs (to_int (cur_offset + int (iov_len iov))) offset
      else (iov # iovs, cur_offset))"

text \<open>The copying loop; \<open>at\<close> is the place in \<open>buf\<close> reached. \<open>MIN\<close> compares as \<open>size_t\<close>.\<close>

definition size_min :: "int \<Rightarrow> int \<Rightarrow> int" where
  "size_min x y = (if to_size_t x < to_size_t y then to_int x else to_int y)"

fun iov_copy :: "iovec list \<Rightarrow> int \<Rightarrow> int \<Rightarrow> int \<Rightarrow> int \<Rightarrow> bytes \<Rightarrow> (int \<times> bytes) option" where
  "iov_copy [] cur_offset offset len written buf = Some (written, buf)"
| "iov_copy (iov # iovs) cur_offset offset len written buf =
     (if 0 < len then
        let start = offset - cur_offset;
            len_here = size_min (int (iov_len iov) - start) len
        in do {
          src \<leftarrow> rdz (iov_base iov) start len_here;
          buf' \<leftarrow> wrz buf written src;
          iov_copy iovs (cur_offset + start + len_here) (offset + len_here) (len - len_here)
            (written + len_here) buf'
        }
      else Some (written, buf))"

definition iov_read :: "iovec list \<Rightarrow> int \<Rightarrow> int \<Rightarrow> bytes \<Rightarrow> (int \<times> bytes) option" where
  "iov_read iov offset len buf =
     (case iov_skip iov 0 offset of (iovs, cur_offset) \<Rightarrow>
        if iovs = [] then Some (0, buf) else iov_copy iovs cur_offset offset len 0 buf)"

fun iov_len_from :: "iovec list \<Rightarrow> int \<Rightarrow> int" where
  "iov_len_from [] rv = rv"
| "iov_len_from (iov # iovs) rv = iov_len_from iovs (to_int (rv + int (iov_len iov)))"

definition iov_len_total :: "iovec list \<Rightarrow> int" where
  "iov_len_total iov = iov_len_from iov 0"

definition iov_prefix :: "iovec list \<Rightarrow> bytes \<Rightarrow> nat \<Rightarrow> iovec list" where
  "iov_prefix iov buf len = \<lparr>iov_base = buf, iov_len = len\<rparr> # iov"

text \<open>
  \<open>iov_update\<close>: the elements before \<open>offset\<close> are passed (None: the chain ends first and NULL is
  read), then \<open>buf\<close> is copied over the chain. The variable \<open>written\<close> stays 0: the loop ends by
  \<open>len\<close>, which counts down.
\<close>

fun iov_write :: "iovec list \<Rightarrow> int \<Rightarrow> int \<Rightarrow> int \<Rightarrow> bytes \<Rightarrow> iovec list option" where
  "iov_write [] offset len at_buf buf = Some []"
| "iov_write (iov # iovs) offset len at_buf buf =
     (if 0 < len then
        let writelen = size_min (int (iov_len iov) - offset) len
        in do {
          src \<leftarrow> rdz buf at_buf writelen;
          base' \<leftarrow> wrz (iov_base iov) offset src;
          iovs' \<leftarrow> iov_write iovs 0 (len - writelen) (at_buf + writelen) buf;
          Some (iov\<lparr>iov_base := base'\<rparr> # iovs')
        }
      else Some (iov # iovs))"

fun iov_update_from :: "iovec list \<Rightarrow> int \<Rightarrow> int \<Rightarrow> bytes \<Rightarrow> iovec list option" where
  "iov_update_from [] offset len buf = None"
| "iov_update_from (iov # iovs) offset len buf =
     (if iov_len iov \<le> to_size_t offset
      then map_option (Cons iov) (iov_update_from iovs (to_int (offset - int (iov_len iov))) len buf)
      else iov_write (iov # iovs) offset len 0 buf)"

definition iov_update :: "iovec list \<Rightarrow> int \<Rightarrow> int \<Rightarrow> bytes \<Rightarrow> (int \<times> iovec list) option" where
  "iov_update iov offset len buf = map_option (Pair 0) (iov_update_from iov offset len buf)"

section \<open>The bytes of a chain\<close>

definition iov_ok :: "iovec list \<Rightarrow> bool" where
  "iov_ok iov \<longleftrightarrow>
     (\<forall>v \<in> set iov. iov_len v \<le> length (iov_base v)) \<and> sum_list (map iov_len iov) < 2 ^ 31"

definition iov_bytes :: "iovec list \<Rightarrow> bytes" where
  "iov_bytes iov = concat (map (\<lambda>v. take (iov_len v) (iov_base v)) iov)"

lemma iov_bytes_simps [simp]:
  "iov_bytes [] = []"
  "iov_bytes (v # vs) = take (iov_len v) (iov_base v) @ iov_bytes vs"
  by (simp_all add: iov_bytes_def)

lemma iov_ok_Cons:
  "iov_ok (v # vs) \<Longrightarrow> iov_len v \<le> length (iov_base v) \<and> iov_len v < 2 ^ 31 \<and> iov_ok vs"
  by (simp add: iov_ok_def)

lemma length_iov_bytes: "iov_ok iov \<Longrightarrow> length (iov_bytes iov) = sum_list (map iov_len iov)"
  by (induction iov) (simp_all add: iov_ok_def)

lemma iov_bytes_bound: "iov_ok iov \<Longrightarrow> length (iov_bytes iov) < 2 ^ 31"
  using length_iov_bytes by (simp add: iov_ok_def)

lemma size_min_nat: "x < 2 ^ 31 \<Longrightarrow> y < 2 ^ 31 \<Longrightarrow> size_min (int x) (int y) = int (min x y)"
  by (simp add: size_min_def to_size_t_nat to_int_nat min_def)

lemma iov_skip_spec:
  assumes "iov_ok iov" and "cur + sum_list (map iov_len iov) < 2 ^ 31" and "off < 2 ^ 31"
    and "cur \<le> off"
  obtains vs cur' where "iov_skip iov (int cur) (int off) = (vs, int cur')" and "iov_ok vs"
    and "cur' \<le> off" and "drop (off - cur) (iov_bytes iov) = drop (off - cur') (iov_bytes vs)"
    and "vs = [] \<or> off - cur' < iov_len (hd vs)"
  using assms
proof (induction iov arbitrary: cur thesis)
  case Nil
  then show ?case by simp
next
  case (Cons v iovs)
  from iov_ok_Cons [OF Cons.prems(2)]
  have v: "iov_len v \<le> length (iov_base v)" "iov_ok iovs" by simp_all
  have sz: "to_size_t (int cur) = cur" "to_size_t (int off) = off"
    "to_int (int cur + int (iov_len v)) = int (cur + iov_len v)"
    using Cons.prems by (simp_all add: to_size_t_nat to_int_small)
  show ?case
  proof (cases "cur + iov_len v \<le> off")
    case True
    then obtain vs cur' where r: "iov_skip iovs (int (cur + iov_len v)) (int off) = (vs, int cur')"
      "iov_ok vs" "cur' \<le> off"
      "drop (off - (cur + iov_len v)) (iov_bytes iovs) = drop (off - cur') (iov_bytes vs)"
      "vs = [] \<or> off - cur' < iov_len (hd vs)"
      using Cons.IH [of "cur + iov_len v"] v(2) Cons.prems by auto
    have "drop (off - cur) (iov_bytes (v # iovs)) = drop (off - (cur + iov_len v)) (iov_bytes iovs)"
      using v(1) True by simp
    with r True Cons.prems sz show ?thesis by (intro Cons.prems(1) [of vs cur']) simp_all
  next
    case False
    with Cons.prems sz show ?thesis by (intro Cons.prems(1) [of "v # iovs" cur]) simp_all
  qed
qed

text \<open>One step of the copying loops: the part of a segment in the first element.\<close>

lemma segment_step:
  assumes "st \<le> length X" and "n = min len (length X + length Y - st)"
    and "h = min (length X - st) len"
  shows "take n (drop st (X @ Y)) = take h (drop st X) @ take (n - h) Y"
    and "drop (st + n) (X @ Y) = drop (st + h) X @ drop (n - h) Y"
    and "h \<le> n" and "n - h = min (len - h) (length Y)"
proof -
  show "h \<le> n" "n - h = min (len - h) (length Y)" using assms by linarith+
  consider (short) "h = length X - st" "length X \<le> st + n" | (all) "h = n" "st + n \<le> length X"
    using assms by linarith
  then have "take n (drop st (X @ Y)) = take h (drop st X) @ take (n - h) Y \<and>
      drop (st + n) (X @ Y) = drop (st + h) X @ drop (n - h) Y"
  proof cases
    case short
    then have "n - h = st + n - length X" using assms(1) by linarith
    with short assms(1) show ?thesis by simp
  next
    case all
    then show ?thesis using assms(1) by simp
  qed
  then show "take n (drop st (X @ Y)) = take h (drop st X) @ take (n - h) Y"
    and "drop (st + n) (X @ Y) = drop (st + h) X @ drop (n - h) Y" by blast+
qed

lemma iov_copy_spec:
  assumes "iov_ok vs" and "cur \<le> off" and "vs = [] \<or> off - cur \<le> iov_len (hd vs)"
    and "len < 2 ^ 31"
    and "n = min len (length (iov_bytes vs) - (off - cur))" and "w + n \<le> length buf"
  shows "iov_copy vs (int cur) (int off) (int len) (int w) buf =
    Some (int (w + n), take w buf @ take n (drop (off - cur) (iov_bytes vs)) @ drop (w + n) buf)"
  using assms
proof (induction vs arbitrary: cur off len w buf n)
  case Nil
  then show ?case by simp
next
  case (Cons v vs)
  from iov_ok_Cons [OF Cons.prems(1)]
  have v: "iov_len v \<le> length (iov_base v)" "iov_len v < 2 ^ 31" "iov_ok vs" by simp_all
  show ?case
  proof (cases "len = 0")
    case True
    with Cons.prems show ?thesis by simp
  next
    case False
    define st where "st = off - cur"
    define h where "h = min (iov_len v - st) len"
    have st: "int off - int cur = int st" "st \<le> iov_len v"
      using Cons.prems(2,3) by (simp_all add: st_def of_nat_diff)
    have h: "size_min (int (iov_len v) - int st) (int len) = int h"
      using size_min_nat [of "iov_len v - st" len] st(2) v(2) Cons.prems(4)
      by (simp add: h_def of_nat_diff)
    have src: "rdn (iov_base v) st h = Some (take h (drop st (iov_base v)))"
      using v(1) st(2) by (simp add: rdn_def h_def)
    have lenb: "length (iov_bytes (v # vs)) = iov_len v + length (iov_bytes vs)"
      using v(1) by simp
    define X where "X = take (iov_len v) (iov_base v)"
    have X: "length X = iov_len v" "iov_bytes (v # vs) = X @ iov_bytes vs"
      using v(1) by (simp_all add: X_def)
    have n: "n = min len (length X + length (iov_bytes vs) - st)"
      using Cons.prems(5) lenb X(1) by (simp add: st_def del: iov_bytes_simps)
    have "h \<le> iov_len v - st" by (simp add: h_def)
    then have tX: "take h (drop st X) = take h (drop st (iov_base v))"
      by (simp add: X_def drop_take min_absorb1)
    have stX: "st \<le> length X" and hX: "h = min (length X - st) len" using X(1) st(2) h_def by simp_all
    note seg = segment_step [OF stX n hX, unfolded tX, folded X(2)]
    note hn = seg(3)
    have lsrc: "length (take h (drop st (iov_base v))) = h"
      using v(1) st(2) by (simp add: h_def)
    define buf' where "buf' = take w buf @ take h (drop st (iov_base v)) @ drop (w + h) buf"
    have wr: "wrn buf w (take h (drop st (iov_base v))) = Some buf'"
      using Cons.prems(6) hn lsrc by (simp add: wrn_def buf'_def)
    have lb: "length buf' = length buf"
      using Cons.prems(6) hn lsrc by (simp add: buf'_def)
    define m where "m = n - h"
    have m: "m = min (len - h) (length (iov_bytes vs) - 0)" using seg(4) by (simp add: m_def)
    have "iov_copy vs (int (off + h)) (int (off + h)) (int (len - h)) (int (w + h)) buf' =
        Some (int (w + h + m), take (w + h) buf' @ take m (drop (off + h - (off + h)) (iov_bytes vs))
          @ drop (w + h + m) buf')"
      by (rule Cons.IH) (use v m lb Cons.prems(4,6) hn in \<open>auto simp: m_def\<close>)
    moreover have "iov_copy (v # vs) (int cur) (int off) (int len) (int w) buf =
        iov_copy vs (int (off + h)) (int (off + h)) (int (len - h)) (int (w + h)) buf'"
    proof -
      have "int cur + int st + int h = int (off + h)" "int off + int h = int (off + h)"
        "int len - int h = int (len - h)" "int w + int h = int (w + h)" "0 < int len"
        using Cons.prems(2) False by (simp_all add: st_def h_def of_nat_diff)
      then show ?thesis
        by (simp only: iov_copy.simps st h Let_def rdz_int wrz_int src wr Option.bind.simps if_True)
    qed
    ultimately have "iov_copy (v # vs) (int cur) (int off) (int len) (int w) buf =
        Some (int (w + n), take (w + h) buf' @ take m (iov_bytes vs) @ drop (w + n) buf')"
      using hn by (simp add: m_def)
    moreover have "take (w + h) buf' = take w buf @ take h (drop st (iov_base v))"
      using Cons.prems(6) hn lsrc by (simp add: buf'_def)
    moreover have "drop (w + n) buf' = drop (w + n) buf"
      using Cons.prems(6) hn lsrc by (simp add: buf'_def add.commute [of n w])
    moreover note seg(1) [folded m_def]
    ultimately show ?thesis by (simp add: st_def)
  qed
qed

lemma iov_len_total_spec: "iov_ok iov \<Longrightarrow> iov_len_total iov = int (length (iov_bytes iov))"
proof -
  have "iov_len_from iov (int n) = int (n + sum_list (map iov_len iov))"
    if "n + sum_list (map iov_len iov) < 2 ^ 31" for n iov
    using that
  proof (induction iov arbitrary: n)
    case (Cons v vs)
    then have "to_int (int n + int (iov_len v)) = int (n + iov_len v)" by (simp add: to_int_small)
    then show ?case using Cons.IH [of "n + iov_len v"] Cons.prems by (simp add: ac_simps)
  qed simp
  from this [of 0 iov] show "iov_ok iov \<Longrightarrow> ?thesis"
    by (simp add: iov_len_total_def length_iov_bytes) (simp add: iov_ok_def)
qed

lemma iov_write_spec:
  assumes "iov_ok vs" and "vs = [] \<or> off \<le> iov_len (hd vs)" and "len < 2 ^ 31"
    and "n = min len (length (iov_bytes vs) - off)" and "a + len \<le> length buf"
  shows "\<exists>vs'. iov_write vs (int off) (int len) (int a) buf = Some vs' \<and>
    map iov_len vs' = map iov_len vs \<and> iov_ok vs' \<and>
    iov_bytes vs' = take off (iov_bytes vs) @ take n (drop a buf) @ drop (off + n) (iov_bytes vs)"
  using assms
proof (induction vs arbitrary: off len a n)
  case Nil
  then show ?case by (simp add: iov_ok_def)
next
  case (Cons v vs)
  from iov_ok_Cons [OF Cons.prems(1)]
  have v: "iov_len v \<le> length (iov_base v)" "iov_len v < 2 ^ 31" "iov_ok vs" by simp_all
  have off: "off \<le> iov_len v" using Cons.prems(2) by simp
  show ?case
  proof (cases "len = 0")
    case True
    with Cons.prems show ?thesis by (simp del: iov_bytes_simps)
  next
    case False
    define h where "h = min (iov_len v - off) len"
    have h: "size_min (int (iov_len v) - int off) (int len) = int h"
      using size_min_nat [of "iov_len v - off" len] off v(2) Cons.prems(3)
      by (simp add: h_def of_nat_diff)
    have hl: "h \<le> len" "off + h \<le> iov_len v" using off by (simp_all add: h_def)
    have src: "rdn buf a h = Some (take h (drop a buf))" "length (take h (drop a buf)) = h"
      using Cons.prems(5) hl by (simp_all add: rdn_def)
    define base' where "base' = take off (iov_base v) @ take h (drop a buf) @ drop (off + h) (iov_base v)"
    have wr: "wrn (iov_base v) off (take h (drop a buf)) = Some base'"
      using src(2) hl v(1) by (simp add: wrn_def base'_def)
    have lb: "length base' = length (iov_base v)" using wrn_length [OF wr] .
    have lenb: "length (iov_bytes (v # vs)) = iov_len v + length (iov_bytes vs)"
      using v(1) by simp
    define X where "X = take (iov_len v) (iov_base v)"
    have X: "length X = iov_len v" "iov_bytes (v # vs) = X @ iov_bytes vs"
      using v(1) by (simp_all add: X_def)
    have n: "n = min len (length X + length (iov_bytes vs) - off)"
      using Cons.prems(4) lenb X(1) by (simp del: iov_bytes_simps)
    have oX: "off \<le> length X" and hX: "h = min (length X - off) len" using X(1) off h_def by simp_all
    note seg = segment_step [OF oX n hX, folded X(2)]
    have hn: "h \<le> n" and m: "n - h = min (len - h) (length (iov_bytes vs) - 0)"
      and drp: "drop (off + n) (iov_bytes (v # vs)) = drop (off + h) X @ drop (n - h) (iov_bytes vs)"
      using seg by simp_all
    have "len - h < 2 ^ 31" "a + h + (len - h) \<le> length buf" using Cons.prems(3,5) hl by simp_all
    from Cons.IH [OF v(3) _ this(1) m this(2)]
    obtain vs' where vs': "iov_write vs (int 0) (int (len - h)) (int (a + h)) buf = Some vs'"
      "map iov_len vs' = map iov_len vs" "iov_ok vs'"
      "iov_bytes vs' = take 0 (iov_bytes vs) @ take (n - h) (drop (a + h) buf) @
        drop (0 + (n - h)) (iov_bytes vs)"
      by auto
    have "int len - int h = int (len - h)" "int a + int h = int (a + h)" "0 < int len"
      using hl False by simp_all
    then have run: "iov_write (v # vs) (int off) (int len) (int a) buf =
        Some (v\<lparr>iov_base := base'\<rparr> # vs')"
      using vs'(1) [unfolded int_ops(1)] by (simp only: iov_write.simps h Let_def rdz_int wrz_int src
          wr Option.bind.simps if_True)
    have ok: "iov_ok (v\<lparr>iov_base := base'\<rparr> # vs')"
      using Cons.prems(1) vs'(2,3) lb by (auto simp: iov_ok_def)
    have "take (iov_len v) base' = take off X @ take h (drop a buf) @ drop (off + h) X"
      using hl v(1) src(2) off by (simp add: base'_def X_def drop_take)
    moreover have "drop (off + h) X = [] \<or> n - h = 0"
      using hn m hl off X(1) by (auto simp: h_def min_def)
    moreover have "take n (drop a buf) = take h (drop a buf) @ take (n - h) (drop (a + h) buf)"
      using hn take_add [of h "n - h" "drop a buf"] by (simp add: add.commute)
    moreover have "take off (iov_bytes (v # vs)) = take off X"
      unfolding X(2) using oX by simp
    ultimately have "iov_bytes (v\<lparr>iov_base := base'\<rparr> # vs') =
        take off (iov_bytes (v # vs)) @ take n (drop a buf) @ drop (off + n) (iov_bytes (v # vs))"
      unfolding drp using vs'(4) by auto
    then show ?thesis using run ok vs'(2) by simp
  qed
qed

lemma iov_update_spec:
  assumes "iov_ok vs" and "off < length (iov_bytes vs)" and "len \<le> length buf" and "len < 2 ^ 31"
    and "n = min len (length (iov_bytes vs) - off)"
  shows "\<exists>vs'. iov_update_from vs (int off) (int len) buf = Some vs' \<and>
    map iov_len vs' = map iov_len vs \<and> iov_ok vs' \<and>
    iov_bytes vs' = take off (iov_bytes vs) @ take n buf @ drop (off + n) (iov_bytes vs)"
  using assms
proof (induction vs arbitrary: off)
  case Nil
  then show ?case by simp
next
  case (Cons v vs)
  from iov_ok_Cons [OF Cons.prems(1)]
  have v: "iov_len v \<le> length (iov_base v)" "iov_len v < 2 ^ 31" "iov_ok vs" by simp_all
  have sz: "to_size_t (int off) = off"
    using iov_bytes_bound [OF Cons.prems(1)] Cons.prems(2) by (simp add: to_size_t_nat)
  show ?case
  proof (cases "iov_len v \<le> off")
    case True
    have i: "to_int (int off - int (iov_len v)) = int (off - iov_len v)"
      using True iov_bytes_bound [OF Cons.prems(1)] Cons.prems(2) by (simp add: to_int_small of_nat_diff)
    have n: "n = min len (length (iov_bytes vs) - (off - iov_len v))"
      and lt: "off - iov_len v < length (iov_bytes vs)"
      using Cons.prems(2,5) True v(1) by simp_all
    obtain vs' where vs': "iov_update_from vs (int (off - iov_len v)) (int len) buf = Some vs'"
      "map iov_len vs' = map iov_len vs" "iov_ok vs'"
      "iov_bytes vs' = take (off - iov_len v) (iov_bytes vs) @ take n buf @
        drop (off - iov_len v + n) (iov_bytes vs)"
      using Cons.IH [OF v(3) lt Cons.prems(3,4) n] by auto
    have "iov_ok (v # vs')" using Cons.prems(1) vs'(2,3) by (auto simp: iov_ok_def)
    with vs' True v(1) sz i show ?thesis by simp
  next
    case False
    have "iov_update_from (v # vs) (int off) (int len) buf =
        iov_write (v # vs) (int off) (int len) (int 0) buf"
      using False sz by simp
    then show ?thesis
      using iov_write_spec [OF Cons.prems(1) _ Cons.prems(4,5), of 0 buf] False Cons.prems(3) by simp
  qed
qed

lemma iov_read_spec:
  assumes "iov_ok iov" and "off < 2 ^ 31" and "len < 2 ^ 31"
    and "n = min len (length (iov_bytes iov) - off)" and "n \<le> length buf"
  shows "iov_read iov (int off) (int len) buf =
    Some (int n, take n (drop off (iov_bytes iov)) @ drop n buf)"
proof -
  have "0 + sum_list (map iov_len iov) < 2 ^ 31" using assms(1) by (simp add: iov_ok_def)
  from iov_skip_spec [OF assms(1) this assms(2)] obtain vs cur' where
    s: "iov_skip iov 0 (int off) = (vs, int cur')" "iov_ok vs" "cur' \<le> off"
      "drop off (iov_bytes iov) = drop (off - cur') (iov_bytes vs)"
      "vs = [] \<or> off - cur' < iov_len (hd vs)"
    by auto
  have "length (iov_bytes iov) - off = length (iov_bytes vs) - (off - cur')"
    using arg_cong [OF s(4), of length] by simp
  then have n: "n = min len (length (iov_bytes vs) - (off - cur'))" using assms(4) by simp
  show ?thesis
  proof (cases "vs = []")
    case True
    with s n assms(5) show ?thesis by (simp add: iov_read_def)
  next
    case False
    with s iov_copy_spec [OF s(2,3) _ assms(3) n, of 0 buf] assms(5) show ?thesis
      by (auto simp: iov_read_def)
  qed
qed

section \<open>Properties\<close>

text \<open>Reading from a chain at an offset copies the chain's bytes from there into the caller's
  buffer, as many as asked for or as the chain has, returns that count, and leaves the rest of the
  buffer as it was; the chain's element boundaries do not show.\<close>

theorem iov_read_flat:
  assumes "iov_ok iov" and "off < 2 ^ 31" and "len < 2 ^ 31"
    and "n = min len (length (iov_bytes iov) - off)" and "n \<le> length buf"
  shows "iov_read iov (int off) (int len) buf =
    Some (int n, take n (drop off (iov_bytes iov)) @ drop n buf)"
  using assms by (rule iov_read_spec)

theorem iov_read_flat_witness:
  "iov_read [\<lparr>iov_base = [1, 2, 3], iov_len = 2\<rparr>, \<lparr>iov_base = [4, 5], iov_len = 2\<rparr>] 1 5 [0, 0, 0, 9]
     = Some (3, [2, 4, 5, 9])"
proof -
  let ?iov = "[\<lparr>iov_base = [1, 2, 3], iov_len = 2\<rparr>, \<lparr>iov_base = [4, 5], iov_len = 2\<rparr>]"
  have ok: "iov_ok ?iov" by (simp add: iov_ok_def)
  have n: "3 = min 5 (length (iov_bytes ?iov) - 1)" by simp
  show ?thesis using iov_read_flat [OF ok _ _ n, of "[0, 0, 0, 9]"] by simp
qed

text \<open>Updating a chain from an offset inside it overwrites exactly the bytes from there, up to the
  end of the chain, and keeps the chain's shape; the result, meant to be the number of bytes
  written, is always 0.\<close>

theorem iov_update_flat:
  assumes "iov_ok iov" and "off < length (iov_bytes iov)" and "len \<le> length buf" and "len < 2 ^ 31"
    and "n = min len (length (iov_bytes iov) - off)"
  shows "\<exists>iov'. iov_update iov (int off) (int len) buf = Some (0, iov') \<and>
    map iov_len iov' = map iov_len iov \<and> iov_ok iov' \<and>
    iov_bytes iov' = take off (iov_bytes iov) @ take n buf @ drop (off + n) (iov_bytes iov)"
  using iov_update_spec [OF assms] by (auto simp: iov_update_def)

theorem iov_update_flat_witness:
  "\<exists>iov'. iov_update [\<lparr>iov_base = [1, 2, 3], iov_len = 2\<rparr>, \<lparr>iov_base = [4, 5], iov_len = 2\<rparr>] 1 2 [8, 9]
     = Some (0, iov') \<and> iov_bytes iov' = [1, 8, 9, 5]"
  using iov_update_flat [of "[\<lparr>iov_base = [1, 2, 3], iov_len = 2\<rparr>, \<lparr>iov_base = [4, 5], iov_len = 2\<rparr>]"
      1 2 "[8, 9]" 2]
  by (auto simp: iov_ok_def)

end
