(* ===== verification/InCksum.thy ===== *)
theory InCksum
  imports Iovec
begin

text \<open>
  The Internet checksum of blip, \<open>lib6lowpan/in_cksum.c\<close> (the branch compiled, \<open>#if 1\<close>), over a
  scatter/gather chain, and the checksum of an upper-layer message with its IPv6 pseudo-header.
\<close>

section \<open>The code\<close>

text \<open>The loop over one element: the index, the 16-bit word being put together, the sum.\<close>

function cksum_element :: "bytes \<Rightarrow> nat \<Rightarrow> nat \<Rightarrow> u16 \<Rightarrow> u32 \<Rightarrow> (u16 \<times> u32) option" where
  "cksum_element w n i cur acc =
     (if i < n then do {
        b \<leftarrow> rd8 w i;
        if i mod 2 = 0 then
          let cur1 = cur OR push_bit 8 (ucast b)
          in if i + 1 = n then cksum_element w n (i + 1) 0 (acc + ucast cur1)
             else cksum_element w n (i + 1) cur1 acc
        else cksum_element w n (i + 1) 0 (acc + ucast (cur OR ucast b))
      }
      else Some (cur, acc))"
  by pat_completeness auto
termination by (relation "measure (\<lambda>(w, n, i, cur, acc). n - i)") auto

declare cksum_element.simps [simp del]

fun cksum_chain :: "iovec list \<Rightarrow> u16 \<Rightarrow> u32 \<Rightarrow> u32 option" where
  "cksum_chain [] cur acc = Some acc"
| "cksum_chain (v # vs) cur acc =
     (if iov_len v = 0 then cksum_chain vs cur acc
      else case cksum_element (iov_base v) (iov_len v) 0 cur acc of
        None \<Rightarrow> None
      | Some (cur', acc') \<Rightarrow> cksum_chain vs cur' acc')"

function cksum_fold :: "u32 \<Rightarrow> u32" where
  "cksum_fold acc =
     (if 0xffff < acc then cksum_fold ((acc AND 0xffff) + drop_bit 16 acc) else acc)"
  by pat_completeness auto

text \<open>The result is the complement of the 16-bit sum as an int.\<close>

definition fold_nat :: "nat \<Rightarrow> nat" where
  "fold_nat s = s mod 65536 + s div 65536"

lemma unat_fold_step: "unat ((acc AND 0xffff) + drop_bit 16 acc :: u32) = fold_nat (unat acc)"
proof -
  have a: "unat (acc AND 0xffff) = unat acc mod 65536"
    using take_bit_eq_mask [of 16 "unat acc"]
    by (simp add: unsigned_and_eq take_bit_eq_mod mask_eq_exp_minus_1)
  have d: "unat (drop_bit 16 acc) = unat acc div 65536"
    by (simp add: drop_bit_eq_div unat_div)
  have "unat acc div 65536 < 65536" using unat_u32_lt [of acc] by simp
  then have "unat acc mod 65536 + unat acc div 65536 < 4294967296" by simp
  then show ?thesis by (simp add: fold_nat_def unat_word_ariths a d)
qed

lemma fold_nat_less: "65535 < s \<Longrightarrow> fold_nat s < s"
proof -
  assume "65535 < s"
  then have "0 < s div 65536" by (simp add: div_greater_zero_iff)
  moreover have "s = 65536 * (s div 65536) + s mod 65536" by simp
  ultimately show ?thesis unfolding fold_nat_def by linarith
qed

termination cksum_fold
proof (relation "measure unat")
  fix acc :: u32
  assume "0xffff < acc"
  then have "65535 < unat acc" by (simp add: word_less_nat_alt)
  then show "((acc AND 0xffff) + drop_bit 16 acc, acc) \<in> measure unat"
    using fold_nat_less unat_fold_step [of acc] by simp
qed simp

declare cksum_fold.simps [simp del]

definition in_cksum :: "iovec list \<Rightarrow> int option" where
  "in_cksum vec = map_option (\<lambda>acc. - uint (ucast (cksum_fold acc) :: u16) - 1) (cksum_chain vec 0 0)"

text \<open>The fields of the fixed IPv6 header that the code uses; \<open>htonl\<close> on the little-endian host
  puts the bytes of the value in network order.\<close>

definition htonl_bytes :: "u32 \<Rightarrow> bytes" where
  "htonl_bytes x =
     [ucast (drop_bit 24 x), ucast (drop_bit 16 x), ucast (drop_bit 8 x), ucast x]"

definition msg_cksum :: "bytes \<Rightarrow> bytes \<Rightarrow> iovec list \<Rightarrow> u8 \<Rightarrow> u16 option" where
  "msg_cksum ip6_src ip6_dst data nxt_hdr =
     (let hdr = htonl_bytes (of_int (iov_len_total data)) @ htonl_bytes (ucast nxt_hdr);
          cksum_vec = iov_prefix (iov_prefix (iov_prefix data hdr 8) ip6_dst 16) ip6_src 16
      in map_option of_int (in_cksum cksum_vec))"

section \<open>What it computes\<close>

text \<open>The sum of the big-endian 16-bit words of a byte string, padded with a zero byte; and the
  one's complement residue of a sum, with zero only for zero (RFC 1071).\<close>

fun word_sum :: "bytes \<Rightarrow> nat" where
  "word_sum [] = 0"
| "word_sum [a] = unat a * 256"
| "word_sum (a # b # bs) = unat a * 256 + unat b + word_sum bs"

definition chain_sum :: "iovec list \<Rightarrow> nat" where
  "chain_sum vec = sum_list (map (\<lambda>v. word_sum (take (iov_len v) (iov_base v))) vec)"

definition oc_norm :: "nat \<Rightarrow> nat" where
  "oc_norm s = (if s = 0 then 0 else (s - 1) mod 65535 + 1)"

lemma oc_norm_le: "oc_norm s \<le> 65535"
  unfolding oc_norm_def using mod_less_divisor [of 65535 "s - 1"] by (cases "s = 0") auto

lemma oc_norm_small: "s \<le> 65535 \<Longrightarrow> oc_norm s = s"
  by (simp add: oc_norm_def)

lemma oc_norm_add: "oc_norm (s + 65535) = (if s = 0 then 65535 else oc_norm s)"
proof (cases "s = 0")
  case False
  then have "s + 65535 - 1 = (s - 1) + 65535" by simp
  then show ?thesis using False by (simp only: oc_norm_def mod_add_self2) simp
qed (simp add: oc_norm_def)

lemma oc_norm_mult: "0 < s \<Longrightarrow> oc_norm (s + k * 65535) = oc_norm s"
proof (induction k)
  case (Suc k)
  have "s + Suc k * 65535 = (s + k * 65535) + 65535" by simp
  with Suc show ?case by (simp only: oc_norm_add) simp
qed simp

lemma oc_norm_fold: "oc_norm (fold_nat s) = oc_norm s"
proof (cases "s div 65536 = 0")
  case False
  have s: "s = fold_nat s + (s div 65536) * 65535" by (simp add: fold_nat_def)
  have "0 < fold_nat s" using False by (simp add: fold_nat_def)
  from oc_norm_mult [OF this, of "s div 65536"] s show ?thesis by simp
qed (simp add: fold_nat_def div_eq_0_iff)

lemma cksum_fold_norm: "unat (cksum_fold acc) = oc_norm (unat acc)"
proof (induction acc rule: cksum_fold.induct)
  case (1 acc)
  show ?case
  proof (cases "0xffff < acc")
    case True
    with 1 show ?thesis
      by (simp add: cksum_fold.simps [of acc] unat_fold_step oc_norm_fold)
  next
    case False
    then have "unat acc \<le> 65535" by (simp add: word_less_nat_alt)
    with False show ?thesis by (simp add: cksum_fold.simps [of acc] oc_norm_small)
  qed
qed

lemma in_cksum_norm:
  "in_cksum vec = map_option (\<lambda>acc. - int (oc_norm (unat acc)) - 1) (cksum_chain vec 0 0)"
proof -
  have "unat (cksum_fold acc) < 65536" for acc
    using oc_norm_le [of "unat acc"] by (simp add: cksum_fold_norm)
  then have "uint (ucast (cksum_fold acc) :: u16) = int (oc_norm (unat acc))" for acc
    by (simp add: cksum_fold_norm unsigned_ucast_eq take_bit_nat_eq_self uint_nat)
  then show ?thesis by (simp add: in_cksum_def)
qed

lemma word_sum_two:
  "Suc i < length xs \<Longrightarrow>
   word_sum (drop i xs) = unat (xs ! i) * 256 + unat (xs ! Suc i) + word_sum (drop (Suc (Suc i)) xs)"
  by (simp add: Cons_nth_drop_Suc [symmetric])

lemma of_nat_unat_eq: "unat (x :: u16) = k \<Longrightarrow> (ucast x :: u32) = of_nat k"
  by (rule unsigned_word_eqI) (use unat_u16_lt [of x] in \<open>auto simp: unat_of_nat\<close>)

lemma cksum_element_done [simp]: "cksum_element w n n cur acc = Some (cur, acc)"
  by (subst cksum_element.simps) simp

lemma cksum_element_spec:
  assumes "even i" and "i \<le> n" and "n \<le> length w"
  shows "cksum_element w n i 0 acc = Some (0, acc + of_nat (word_sum (drop i (take n w))))"
  using assms
proof (induction "n - i" arbitrary: i acc rule: less_induct)
  case less
  show ?case
  proof (cases "i < n")
    case False
    with less.prems show ?thesis by (subst cksum_element.simps) simp
  next
    case True
    have hi: "(ucast (push_bit 8 (ucast (w ! i)) :: u16) :: u32) = of_nat (unat (w ! i) * 256)"
      by (rule of_nat_unat_eq) (rule unat_high_byte)
    show ?thesis
    proof (cases "i + 1 = n")
      case end_odd: True
      have "drop i (take n w) = [w ! i]"
        using end_odd less.prems Cons_nth_drop_Suc [of i w, symmetric]
        by (simp add: drop_take end_odd [symmetric])
      then show ?thesis
        using True end_odd less.prems hi
        by (simp add: cksum_element.simps [of w n i] cksum_element.simps [of w n "Suc i"] rd8_Some
            mod_0_imp_dvd Let_def)
    next
      case False
      with True have i2: "i + 2 \<le> n" by simp
      let ?a = "w ! i" and ?b = "w ! Suc i"
      have "cksum_element w n i 0 acc =
          cksum_element w n (i + 2) 0 (acc + of_nat (unat ?a * 256 + unat ?b))"
        using i2 less.prems of_nat_unat_eq [OF unat_two_bytes, of ?a ?b]
        by (simp add: cksum_element.simps [of w n i] cksum_element.simps [of w n "Suc i"] rd8_Some
            mod_Suc Let_def)
      also have "\<dots> = Some (0, acc + of_nat (unat ?a * 256 + unat ?b) +
          of_nat (word_sum (drop (i + 2) (take n w))))"
        using less.hyps [of "i + 2"] i2 less.prems by simp
      also have "word_sum (drop i (take n w)) =
          unat ?a * 256 + unat ?b + word_sum (drop (i + 2) (take n w))"
        using word_sum_two [of i "take n w"] i2 less.prems by simp
      then have "acc + of_nat (unat ?a * 256 + unat ?b) + of_nat (word_sum (drop (i + 2) (take n w)))
          = acc + of_nat (word_sum (drop i (take n w)))" by (simp add: add.assoc)
      finally show ?thesis .
    qed
  qed
qed

lemma cksum_chain_spec:
  assumes "\<forall>v \<in> set vec. iov_len v \<le> length (iov_base v)"
  shows "cksum_chain vec 0 acc = Some (acc + of_nat (chain_sum vec))"
  using assms
proof (induction vec arbitrary: acc)
  case (Cons v vs)
  then have "cksum_element (iov_base v) (iov_len v) 0 0 acc =
      Some (0, acc + of_nat (word_sum (take (iov_len v) (iov_base v))))"
    using cksum_element_spec [of 0 "iov_len v" "iov_base v" acc] by simp
  with Cons show ?case by (simp add: chain_sum_def add.assoc)
qed (simp add: chain_sum_def)

lemma in_cksum_spec:
  assumes "iov_ok vec" and "chain_sum vec < 2 ^ 32"
  shows "in_cksum vec = Some (- int (oc_norm (chain_sum vec)) - 1)"
  using assms cksum_chain_spec [of vec 0]
  by (simp add: in_cksum_norm iov_ok_def unat_of_nat)

lemma word_sum_append: "even (length xs) \<Longrightarrow> word_sum (xs @ ys) = word_sum xs + word_sum ys"
  by (induction xs rule: word_sum.induct) simp_all

lemma word_sum_le: "word_sum xs \<le> 65535 * ((length xs + 1) div 2)"
proof (induction xs rule: word_sum.induct)
  case (2 a)
  then show ?case using unat_u8_lt [of a] by simp
next
  case (3 a b bs)
  then show ?case using unat_u8_lt [of a] unat_u8_lt [of b] by simp
qed simp

section \<open>Properties\<close>

text \<open>The reference of RFC 1071, on the message as one byte string: its big-endian 16-bit words, an odd
  last byte padded with zero, are added in one's complement, each carry going back into the sum.\<close>

fun words16 :: "bytes \<Rightarrow> nat list" where
  "words16 [] = []"
| "words16 [a] = [unat a * 256]"
| "words16 (a # b # bs) = (unat a * 256 + unat b) # words16 bs"

definition oc_add :: "nat \<Rightarrow> nat \<Rightarrow> nat" where
  "oc_add a b = (if 65535 < a + b then a + b - 65535 else a + b)"

definition rfc1071_sum :: "bytes \<Rightarrow> nat" where
  "rfc1071_sum bs = foldl oc_add 0 (words16 bs)"

lemma word_sum_words: "word_sum bs = sum_list (words16 bs)"
  by (induction bs rule: word_sum.induct) simp_all

lemma words16_less: "w \<in> set (words16 bs) \<Longrightarrow> w \<le> 65535"
proof (induction bs rule: words16.induct)
  case (2 a)
  then show ?case using unat_u8_lt [of a] by simp
next
  case (3 a b bs)
  then show ?case using unat_u8_lt [of a] unat_u8_lt [of b] by auto
qed simp

lemma oc_norm_oc_add:
  assumes "b \<le> 65535"
  shows "oc_add (oc_norm s) b = oc_norm (s + b)"
proof -
  have "oc_norm (s + b) = oc_norm (oc_norm s + b)"
  proof (cases "s = 0")
    case False
    then have "s = oc_norm s + (s - 1) div 65535 * 65535" "0 < oc_norm s"
      using div_mult_mod_eq [of "s - 1" 65535] by (simp_all add: oc_norm_def)
    then have "s + b = (oc_norm s + b) + (s - 1) div 65535 * 65535" "0 < oc_norm s + b" by linarith+
    then show ?thesis using oc_norm_mult by metis
  qed (simp add: oc_norm_def)
  also have "\<dots> = oc_add (oc_norm s) b"
  proof (cases "65535 < oc_norm s + b")
    case True
    then have "oc_norm s + b = (oc_norm s + b - 65535) + 65535" by simp
    then have "oc_norm (oc_norm s + b) = oc_norm (oc_norm s + b - 65535)"
      using oc_norm_add [of "oc_norm s + b - 65535"] True by simp
    then show ?thesis using True assms oc_norm_le [of s] by (simp add: oc_add_def oc_norm_small)
  qed (simp add: oc_add_def oc_norm_small)
  finally show ?thesis by simp
qed

lemma foldl_oc_add: "\<forall>w \<in> set ws. w \<le> 65535 \<Longrightarrow> foldl oc_add (oc_norm s) ws = oc_norm (s + sum_list ws)"
  by (induction ws arbitrary: s) (simp_all add: oc_norm_oc_add add.assoc)

lemma rfc1071_sum_norm: "rfc1071_sum bs = oc_norm (word_sum bs)"
  using foldl_oc_add [of "words16 bs" 0] words16_less by (simp add: rfc1071_sum_def word_sum_words oc_norm_def)

lemma chain_sum_even:
  assumes "iov_ok vec" and "\<forall>v \<in> set (butlast vec). even (iov_len v)"
  shows "chain_sum vec = word_sum (iov_bytes vec)"
  using assms
proof (induction vec)
  case (Cons v vs)
  have "word_sum (take (iov_len v) (iov_base v) @ iov_bytes vs) =
      word_sum (take (iov_len v) (iov_base v)) + word_sum (iov_bytes vs)"
  proof (cases "vs = []")
    case False
    then have "even (length (take (iov_len v) (iov_base v)))"
      using Cons.prems by (simp add: iov_ok_def min_absorb2)
    then show ?thesis by (rule word_sum_append)
  qed (simp add: iov_bytes_def)
  moreover have "chain_sum vs = word_sum (iov_bytes vs)"
    using Cons by (cases vs) (simp_all add: iov_ok_def chain_sum_def iov_bytes_def)
  ultimately show ?case by (simp add: chain_sum_def iov_bytes_def)
qed (simp add: chain_sum_def iov_bytes_def)

text \<open>C32: The checksum of a message of up to 65537 words, cut into elements that all but the last have an
  even length, is the complement of the RFC 1071 sum of its bytes: no carry is lost, the folding
  loop ends, and how the message is cut does not matter. (An odd element in the middle is padded on its
  own, as the comment in the code warns: \<open>in_cksum_odd_element\<close>.)\<close>

theorem in_cksum_is_rfc1071:
  assumes "iov_ok vec" and "\<forall>v \<in> set (butlast vec). even (iov_len v)" and "length (iov_bytes vec) \<le> 131074"
  shows "in_cksum vec = Some (- int (rfc1071_sum (iov_bytes vec)) - 1)"
proof -
  have "(length (iov_bytes vec) + 1) div 2 \<le> 65537" using assms(3) by simp
  then have "65535 * ((length (iov_bytes vec) + 1) div 2) < 2 ^ 32" by simp
  then have "chain_sum vec < 2 ^ 32"
    using word_sum_le [of "iov_bytes vec"] chain_sum_even [OF assms(1,2)] by linarith
  then show ?thesis
    using in_cksum_spec [OF assms(1)] by (simp add: rfc1071_sum_norm chain_sum_even [OF assms(1,2)])
qed

theorem in_cksum_is_rfc1071_witness:
  "in_cksum [\<lparr>iov_base = [0x00, 0x01, 0xf2, 0x03], iov_len = 4\<rparr>,
     \<lparr>iov_base = [0xf4, 0xf5, 0xf6, 0xf7], iov_len = 4\<rparr>] = Some (- 0xddf2 - 1)"
  using in_cksum_is_rfc1071 [of "[\<lparr>iov_base = [0x00, 0x01, 0xf2, 0x03], iov_len = 4\<rparr>,
     \<lparr>iov_base = [0xf4, 0xf5, 0xf6, 0xf7], iov_len = 4\<rparr>]"]
  by (simp add: iov_ok_def iov_bytes_def rfc1071_sum_def oc_add_def)

text \<open>The comment's warning: the same two bytes in one element and in two have different checksums.\<close>

theorem in_cksum_odd_element:
  "in_cksum [\<lparr>iov_base = [1, 2], iov_len = 2\<rparr>] = Some (- 0x102 - 1) \<and>
   in_cksum [\<lparr>iov_base = [1], iov_len = 1\<rparr>, \<lparr>iov_base = [2], iov_len = 1\<rparr>] = Some (- 0x300 - 1)"
  by (simp add: in_cksum_spec iov_ok_def chain_sum_def oc_norm_def)

text \<open>A receiver accepts what the sender checksummed: when the sender's checksum, computed over a
  non-zero message whose checksum field is zero, is put into that field, the checksum of the
  whole is zero (in its 16 bits).\<close>

theorem in_cksum_verifies:
  assumes "iov_ok vec" and "iov_ok vec'" and "0 < chain_sum vec"
    and "chain_sum vec' = chain_sum vec + unat (ck :: u16)" and "chain_sum vec' < 2 ^ 32"
    and "map_option of_int (in_cksum vec) = Some ck"
  shows "map_option of_int (in_cksum vec') = Some (0 :: u16)"
proof -
  let ?s = "chain_sum vec"
  have n: "oc_norm ?s \<le> 65535" by (rule oc_norm_le)
  have "in_cksum vec = Some (- int (oc_norm ?s) - 1)"
    using assms(1,4,5) by (intro in_cksum_spec) simp_all
  moreover have m1: "(65535 :: u16) = - 1" by simp
  define k where "k = 65535 - oc_norm ?s"
  ultimately have "ck = of_nat k"
    using n assms(6) unfolding k_def of_nat_diff [OF n] of_nat_numeral m1 by auto
  moreover have "k < 65536" by (simp add: k_def)
  ultimately have ck: "unat ck = 65535 - oc_norm ?s" by (simp add: unat_of_nat flip: k_def)
  have "oc_norm ?s = (?s - 1) mod 65535 + 1" using assms(3) by (simp add: oc_norm_def)
  moreover have "?s = ((?s - 1) div 65535) * 65535 + (?s - 1) mod 65535 + 1"
    using assms(3) div_mult_mod_eq [of "?s - 1" 65535] by linarith
  ultimately have "chain_sum vec' = 65535 + ((?s - 1) div 65535) * 65535"
    using assms(4) ck n by linarith
  then have "oc_norm (chain_sum vec') = 65535"
    using oc_norm_mult [of 65535] by (simp add: oc_norm_small)
  then have "in_cksum vec' = Some (- 65535 - 1)"
    using in_cksum_spec [OF assms(2,5)] by simp
  then show ?thesis by simp
qed

theorem in_cksum_verifies_witness:
  "map_option of_int (in_cksum [\<lparr>iov_base = [0x12, 0x34, 0xed, 0xcb], iov_len = 4\<rparr>]) = Some (0 :: u16)"
  using in_cksum_verifies [where vec = "[\<lparr>iov_base = [0x12, 0x34, 0, 0], iov_len = 4\<rparr>]"
      and vec' = "[\<lparr>iov_base = [0x12, 0x34, 0xed, 0xcb], iov_len = 4\<rparr>]" and ck = "0xedcb"]
    in_cksum_spec [of "[\<lparr>iov_base = [0x12, 0x34, 0, 0], iov_len = 4\<rparr>]"]
  by (simp add: iov_ok_def chain_sum_def oc_norm_def)

end
