(* ===== verification/NwByte.thy ===== *)
theory NwByte
  imports Prelude
begin

text \<open>
  Byte order: loads and stores of 16- and 32-bit integers on the little-endian hosts blip is
  built for, and the conversions of \<open>lib6lowpan/nwbyte.h\<close> and \<open>utility.c\<close>.
\<close>

section \<open>Loads and stores\<close>

definition ld16 :: "u8 \<Rightarrow> u8 \<Rightarrow> u16" where
  "ld16 a b = ucast a OR push_bit 8 (ucast b)"

definition st16 :: "u16 \<Rightarrow> bytes" where
  "st16 x = [ucast x, ucast (drop_bit 8 x)]"

definition ld32 :: "u8 \<Rightarrow> u8 \<Rightarrow> u8 \<Rightarrow> u8 \<Rightarrow> u32" where
  "ld32 a b c d = ucast a OR push_bit 8 (ucast b) OR push_bit 16 (ucast c) OR push_bit 24 (ucast d)"

definition st32 :: "u32 \<Rightarrow> bytes" where
  "st32 x = [ucast x, ucast (drop_bit 8 x), ucast (drop_bit 16 x), ucast (drop_bit 24 x)]"

section \<open>Conversions\<close>

definition htons :: "u16 \<Rightarrow> u16" where
  "htons x = (push_bit 8 x OR drop_bit 8 x) AND 0xffff"

abbreviation ntohs :: "u16 \<Rightarrow> u16" where
  "ntohs \<equiv> htons"

definition leton16 :: "u16 \<Rightarrow> u16" where
  "leton16 x = htons x"

definition letohs :: "u16 \<Rightarrow> u16" where
  "letohs x = x"

definition htole16 :: "u16 \<Rightarrow> u16" where
  "htole16 x = x"

definition ntohl :: "u32 \<Rightarrow> u32" where
  "ntohl i =
     (let lo = ucast i :: u16;
          hi = ucast (drop_bit 16 i) :: u16;
          lo1 = push_bit 8 lo OR drop_bit 8 lo;
          hi1 = push_bit 8 hi OR drop_bit 8 hi
      in push_bit 16 (ucast lo1) OR ucast hi1)"

abbreviation htonl :: "u32 \<Rightarrow> u32" where
  "htonl \<equiv> ntohl"

text \<open>The value of bytes in network order.\<close>

definition be16 :: "u8 \<Rightarrow> u8 \<Rightarrow> u16" where
  "be16 a b = push_bit 8 (ucast a) OR ucast b"

definition be32 :: "u8 \<Rightarrow> u8 \<Rightarrow> u8 \<Rightarrow> u8 \<Rightarrow> u32" where
  "be32 a b c d = push_bit 24 (ucast a) OR push_bit 16 (ucast b) OR push_bit 8 (ucast c) OR ucast d"

section \<open>Laws\<close>

lemmas nwbyte_defs = ld16_def st16_def ld32_def st32_def htons_def ntohl_def be16_def be32_def

text \<open>Bits past the width.\<close>

lemma bit_wide:
  "8 \<le> n \<Longrightarrow> bit (x :: u8) n = False"
  "16 \<le> n \<Longrightarrow> bit (y :: u16) n = False"
  "32 \<le> n \<Longrightarrow> bit (z :: u32) n = False"
  using bit_imp_le_length [of x n] bit_imp_le_length [of y n] bit_imp_le_length [of z n] by auto

lemma mask16 [simp]: "(x :: u16) AND 0xffff = x"
proof -
  have "(0xffff :: u16) = - 1" by simp
  then show ?thesis by (simp only: and.right_neutral)
qed

lemmas nwbyte_bits = nwbyte_defs bit_simps bit_wide Let_def

lemma ld16_st16 [simp]: "ld16 (ucast x) (ucast (drop_bit 8 x)) = x"
  by (rule bit_word_eqI) (auto simp: nwbyte_bits not_less le_add_diff_inverse)

lemma st16_ld16 [simp]: "st16 (ld16 a b) = [a, b]"
  by (auto simp: nwbyte_bits intro!: bit_word_eqI)

lemma be16_bytes [simp]: "be16 (ucast (drop_bit 8 x)) (ucast x) = x"
  by (rule bit_word_eqI) (auto simp: nwbyte_bits not_less le_add_diff_inverse)

lemma htons_htons [simp]: "htons (htons x) = x"
  by (rule bit_word_eqI) (auto simp: nwbyte_bits)

lemma htons_ld16 [simp]: "htons (ld16 a b) = be16 a b"
  by (rule bit_word_eqI) (auto simp: nwbyte_bits)

lemma st16_htons_be16 [simp]: "st16 (htons (be16 a b)) = [a, b]"
  by (auto simp: nwbyte_bits intro!: bit_word_eqI)

lemma bit_ld32: "bit (ld32 a b c d) n \<longleftrightarrow>
  (if n < 8 then bit a n else if n < 16 then bit b (n - 8) else if n < 24 then bit c (n - 16)
   else if n < 32 then bit d (n - 24) else False)"
  by (simp add: ld32_def bit_simps bit_wide) (auto simp: bit_wide)

lemma bit_be32: "bit (be32 a b c d) n \<longleftrightarrow>
  (if n < 8 then bit d n else if n < 16 then bit c (n - 8) else if n < 24 then bit b (n - 16)
   else if n < 32 then bit a (n - 24) else False)"
  by (simp add: be32_def bit_simps bit_wide) (auto simp: bit_wide)

lemma bit_ntohl: "bit (ntohl x) n \<longleftrightarrow>
  (if n < 8 then bit x (n + 24) else if n < 16 then bit x (n + 8) else if n < 24 then bit x (n - 8)
   else if n < 32 then bit x (n - 24) else False)"
  by (simp add: ntohl_def Let_def bit_simps bit_wide) (auto simp: bit_wide add.commute)

lemma four_bytes: "n < 32 \<Longrightarrow> n < 8 \<or> (8 \<le> n \<and> n < 16) \<or> (16 \<le> n \<and> n < 24) \<or> (24 \<le> n \<and> n < (32 :: nat))"
  by linarith

lemma ntohl_ld32 [simp]: "ntohl (ld32 a b c d) = be32 a b c d"
proof (rule bit_word_eqI)
  fix n assume "n < LENGTH(32)"
  then have "n < 32" by simp
  then show "bit (ntohl (ld32 a b c d)) n = bit (be32 a b c d) n"
    using four_bytes [OF \<open>n < 32\<close>] by (elim disjE) (auto simp: bit_ntohl bit_ld32 bit_be32)
qed

lemma ntohl_ntohl [simp]: "ntohl (ntohl x) = x"
proof (rule bit_word_eqI)
  fix n assume "n < LENGTH(32)"
  then have "n < 32" by simp
  then show "bit (ntohl (ntohl x)) n = bit x n"
    using four_bytes [OF \<open>n < 32\<close>] by (elim disjE) (auto simp: bit_ntohl)
qed

lemma st32_ld32 [simp]: "st32 (ld32 a b c d) = [a, b, c, d]"
  by (auto simp: nwbyte_bits intro!: bit_word_eqI)

lemma st32_htonl: "st32 (htonl x) =
  [ucast (drop_bit 24 x), ucast (drop_bit 16 x), ucast (drop_bit 8 x), ucast x]"
  unfolding st32_def list.inject
  by (intro conjI refl; rule bit_word_eqI; simp add: bit_ntohl bit_simps add.commute)

end
