(* ===== verification/Ieee154.thy ===== *)
theory Ieee154
  imports NwByte
begin

text \<open>
  IEEE 802.15.4 addresses and frame headers: \<open>tos/types/Ieee154.h\<close>,
  \<open>lib6lowpan/ieee154_header.c\<close> and the address hash of \<open>utility.c\<close>. An address is its 2-bit mode
  and the eight bytes of the union of short and extended address.
\<close>

section \<open>Types\<close>

type_synonym ieee_mode = "2 word"

definition IEEE154_ADDR_NONE :: ieee_mode where "IEEE154_ADDR_NONE = 0"
definition IEEE154_ADDR_SHORT :: ieee_mode where "IEEE154_ADDR_SHORT = 2"
definition IEEE154_ADDR_EXT :: ieee_mode where "IEEE154_ADDR_EXT = 3"
definition IEEE154_MIN_HDR_SZ :: nat where "IEEE154_MIN_HDR_SZ = 6"
definition IEEE154_TYPE_DATA :: u16 where "IEEE154_TYPE_DATA = 1"

text \<open>Bit positions in the frame control field.\<close>

definition IEEE154_FCF_FRAME_TYPE :: nat where "IEEE154_FCF_FRAME_TYPE = 0"
definition IEEE154_FCF_INTRAPAN :: nat where "IEEE154_FCF_INTRAPAN = 6"
definition IEEE154_FCF_DEST_ADDR_MODE :: nat where "IEEE154_FCF_DEST_ADDR_MODE = 10"
definition IEEE154_FCF_SRC_ADDR_MODE :: nat where "IEEE154_FCF_SRC_ADDR_MODE = 14"

lemmas ieee154_consts = IEEE154_ADDR_NONE_def IEEE154_ADDR_SHORT_def IEEE154_ADDR_EXT_def
  IEEE154_MIN_HDR_SZ_def IEEE154_TYPE_DATA_def IEEE154_FCF_FRAME_TYPE_def
  IEEE154_FCF_INTRAPAN_def IEEE154_FCF_DEST_ADDR_MODE_def IEEE154_FCF_SRC_ADDR_MODE_def

record ieee154_addr =
  a_mode :: ieee_mode
  a_union :: bytes

record ieee154_frame_addr =
  ieee_src :: ieee154_addr
  ieee_dst :: ieee154_addr
  ieee_dstpan :: u16

definition i_saddr :: "ieee154_addr \<Rightarrow> u16" where
  "i_saddr a = ld16 (a_union a ! 0) (a_union a ! 1)"

definition i_laddr :: "ieee154_addr \<Rightarrow> bytes" where
  "i_laddr a = take 8 (a_union a)"

definition addr_ok :: "ieee154_addr \<Rightarrow> bool" where
  "addr_ok a \<longleftrightarrow> length (a_union a) = 8"

definition frame_ok :: "ieee154_frame_addr \<Rightarrow> bool" where
  "frame_ok f \<longleftrightarrow> addr_ok (ieee_src f) \<and> addr_ok (ieee_dst f)"

section \<open>The header\<close>

definition ieee154_hashaddr :: "ieee154_addr \<Rightarrow> u16" where
  "ieee154_hashaddr a =
     (if a_mode a = IEEE154_ADDR_SHORT then i_saddr a
      else if a_mode a = IEEE154_ADDR_EXT then
        fold (\<lambda>i hash. hash + ld16 (i_laddr a ! (2 * i)) (i_laddr a ! (2 * i + 1))) [0..<4] 0
      else 0)"

definition copy_addr :: "ieee154_addr \<Rightarrow> bytes \<Rightarrow> nat \<Rightarrow> (bytes \<times> nat) option" where
  "copy_addr a buf p =
     (if a_mode a = IEEE154_ADDR_SHORT then
        let tmpval = i_saddr a in map_option (\<lambda>b. (b, p + 2)) (wrn buf p (st16 tmpval))
      else map_option (\<lambda>b. (b, p + 8)) (wrn buf p (i_laddr a)))"

definition pack_fcf :: "ieee154_frame_addr \<Rightarrow> u16" where
  "pack_fcf frame =
     push_bit IEEE154_FCF_FRAME_TYPE IEEE154_TYPE_DATA
     OR push_bit IEEE154_FCF_SRC_ADDR_MODE (ucast (a_mode (ieee_src frame)))
     OR push_bit IEEE154_FCF_DEST_ADDR_MODE (ucast (a_mode (ieee_dst frame)))
     OR push_bit IEEE154_FCF_INTRAPAN 1"

text \<open>The buffer, and the pointer past the header; \<open>cnt\<close> is not used by the code.\<close>

definition pack_ieee154_header ::
  "bytes \<Rightarrow> nat \<Rightarrow> ieee154_frame_addr \<Rightarrow> (bytes \<times> nat) option" where
  "pack_ieee154_header buf cnt frame = do {
     (b1, p1) \<leftarrow> copy_addr (ieee_dst frame) buf IEEE154_MIN_HDR_SZ;
     (b2, p2) \<leftarrow> copy_addr (ieee_src frame) b1 p1;
     let fcf = pack_fcf frame;
     b3 \<leftarrow> wr8 b2 1 (ucast fcf);
     b4 \<leftarrow> wr8 b3 2 (ucast (drop_bit 8 fcf));
     b5 \<leftarrow> wr8 b4 4 (ucast (ieee_dstpan frame));
     b6 \<leftarrow> wr8 b5 5 (ucast (drop_bit 8 (ieee_dstpan frame)));
     Some (b6, p2)
   }"

text \<open>Unpacking one address: the result code, the pointer, the length left, the address.\<close>

definition unpack_addr ::
  "bytes \<Rightarrow> nat \<Rightarrow> nat \<Rightarrow> ieee154_addr \<Rightarrow> (int \<times> nat \<times> nat \<times> ieee154_addr) option" where
  "unpack_addr buf p len a =
     (if a_mode a = IEEE154_ADDR_SHORT then
        if len < 2 then Some (-1, p, len, a)
        else map_option (\<lambda>bs. (0, p + 2, len - 2, a\<lparr>a_union := bs @ drop 2 (a_union a)\<rparr>)) (rdn buf p 2)
      else if a_mode a = IEEE154_ADDR_EXT then
        if len < 8 then Some (-1, p, len, a)
        else map_option (\<lambda>bs. (0, p + 8, len - 8, a\<lparr>a_union := bs\<rparr>)) (rdn buf p 8)
      else Some (0, p, len, a))"

definition unpack_ieee154_hdr ::
  "bytes \<Rightarrow> nat \<Rightarrow> nat \<Rightarrow> ieee154_frame_addr \<Rightarrow> (int \<times> nat \<times> nat \<times> ieee154_frame_addr) option" where
  "unpack_ieee154_hdr buf p len frame =
     (if len < IEEE154_MIN_HDR_SZ then Some (-1, p, len, frame)
      else do {
        h \<leftarrow> rdn buf p IEEE154_MIN_HDR_SZ;
        let fcf = (push_bit 8 (ucast (h ! 2)) OR ucast (h ! 1) :: u16);
        let f1 = frame\<lparr>ieee_dstpan := htole16 (push_bit 8 (ucast (h ! 5)) OR ucast (h ! 4)),
                   ieee_src := (ieee_src frame)
                     \<lparr>a_mode := ucast (drop_bit IEEE154_FCF_SRC_ADDR_MODE fcf AND 3)\<rparr>,
                   ieee_dst := (ieee_dst frame)
                     \<lparr>a_mode := ucast (drop_bit IEEE154_FCF_DEST_ADDR_MODE fcf AND 3)\<rparr>\<rparr>;
        (r1, p1, l1, d) \<leftarrow> unpack_addr buf (p + IEEE154_MIN_HDR_SZ) (len - IEEE154_MIN_HDR_SZ)
                             (ieee_dst f1);
        let f2 = f1\<lparr>ieee_dst := d\<rparr>;
        if r1 < 0 then Some (-1, p1, l1, f2)
        else do {
          (r2, p2, l2, s) \<leftarrow> unpack_addr buf p1 l1 (ieee_src f2);
          Some (if r2 < 0 then -1 else 0, p2, l2, f2\<lparr>ieee_src := s\<rparr>)
        }
      })"

section \<open>Lemmas\<close>

definition addr_size :: "ieee154_addr \<Rightarrow> nat" where
  "addr_size a = (if a_mode a = IEEE154_ADDR_SHORT then 2 else 8)"

text \<open>The bytes an address puts on the air, low byte first.\<close>

definition addr_wire :: "ieee154_addr \<Rightarrow> bytes" where
  "addr_wire a = take (addr_size a) (a_union a)"

lemma addr_wire_length: "addr_ok a \<Longrightarrow> length (addr_wire a) = addr_size a"
  by (simp add: addr_wire_def addr_ok_def addr_size_def)

lemma saddr_wire: "length u = 8 \<Longrightarrow> [u ! 0, u ! 1] = take 2 u"
  by (cases u rule: list.exhaust; cases "tl u") (auto simp: take_Cons' numeral_2_eq_2)

lemma copy_addr_wire:
  "addr_ok a \<Longrightarrow> copy_addr a buf p = map_option (\<lambda>b. (b, p + addr_size a)) (wrn buf p (addr_wire a))"
  using saddr_wire [of "a_union a"]
  by (simp add: copy_addr_def addr_size_def addr_wire_def i_saddr_def i_laddr_def addr_ok_def)

lemma fcf_modes:
  "ucast (drop_bit 14 (pack_fcf f) AND 3) = a_mode (ieee_src f)"
  "ucast (drop_bit 10 (pack_fcf f) AND 3) = a_mode (ieee_dst f)"
proof -
  have three: "(3 :: u16) = mask 2" by (simp add: mask_eq_exp_minus_1)
  have wide: "2 \<le> n \<Longrightarrow> \<not> bit (m :: ieee_mode) n" for m n
    using bit_imp_le_length [of m n] by auto
  show "ucast (drop_bit 14 (pack_fcf f) AND 3) = a_mode (ieee_src f)"
    "ucast (drop_bit 10 (pack_fcf f) AND 3) = a_mode (ieee_dst f)"
    unfolding three
    by (rule bit_word_eqI; auto simp: pack_fcf_def ieee154_consts bit_simps wide)+
qed

definition frame_addr_eq :: "ieee154_frame_addr \<Rightarrow> ieee154_frame_addr \<Rightarrow> bool" where
  "frame_addr_eq f g \<longleftrightarrow>
     ieee_dstpan f = ieee_dstpan g \<and>
     a_mode (ieee_src f) = a_mode (ieee_src g) \<and> a_mode (ieee_dst f) = a_mode (ieee_dst g) \<and>
     addr_wire (ieee_src f) = addr_wire (ieee_src g) \<and>
     addr_wire (ieee_dst f) = addr_wire (ieee_dst g)"

definition addr_present :: "ieee154_addr \<Rightarrow> bool" where
  "addr_present a \<longleftrightarrow> a_mode a = IEEE154_ADDR_SHORT \<or> a_mode a = IEEE154_ADDR_EXT"

lemma unpack_addr_wire:
  assumes "addr_present a" and "addr_ok b" and "addr_ok a" and "a_mode b = a_mode a"
    and "p + addr_size a \<le> length buf" and "take (addr_size a) (drop p buf) = addr_wire a"
    and "addr_size a \<le> len"
  shows "\<exists>c. unpack_addr buf p len b = Some (0, p + addr_size a, len - addr_size a, c) \<and>
    a_mode c = a_mode a \<and> addr_wire c = addr_wire a \<and> addr_ok c"
  using assms
  by (auto simp: unpack_addr_def addr_present_def addr_size_def addr_ok_def addr_wire_def rdn_def
      ieee154_consts)

text \<open>Unpacking reads inside the bytes it is told of, whatever they are.\<close>

lemma unpack_addr_safe:
  assumes "p + len \<le> length buf"
  shows "\<exists>r p' len' a'. unpack_addr buf p len a = Some (r, p', len', a') \<and> p' + len' = p + len \<and>
    (addr_ok a \<longrightarrow> addr_ok a') \<and> a_mode a' = a_mode a"
  using assms by (auto simp: unpack_addr_def rdn_def addr_ok_def)

text \<open>What packing leaves in the buffer: the control field, the PAN and the addresses in wire order;
  bytes 0 (length) and 3 (sequence number) are the driver's.\<close>

lemma pack_ieee154_header_spec:
  assumes ok: "frame_ok f" and ds: "ds = addr_size (ieee_dst f)" and ss: "ss = addr_size (ieee_src f)"
    and room: "6 + ds + ss \<le> length buf"
  shows "\<exists>b. pack_ieee154_header buf cnt f = Some (b, 6 + ds + ss) \<and> length b = length buf \<and>
    b ! 1 = ucast (pack_fcf f) \<and> b ! 2 = ucast (drop_bit 8 (pack_fcf f)) \<and>
    b ! 4 = ucast (ieee_dstpan f) \<and> b ! 5 = ucast (drop_bit 8 (ieee_dstpan f)) \<and>
    b ! 0 = buf ! 0 \<and> b ! 3 = buf ! 3 \<and>
    rdn b 6 ds = Some (addr_wire (ieee_dst f)) \<and> rdn b (6 + ds) ss = Some (addr_wire (ieee_src f)) \<and>
    drop (6 + ds + ss) b = drop (6 + ds + ss) buf"
proof -
  have wl: "length (addr_wire (ieee_dst f)) = ds" "length (addr_wire (ieee_src f)) = ss"
    using ok by (simp_all add: frame_ok_def addr_wire_length ds ss)
  obtain b1 where b1: "wrn buf 6 (addr_wire (ieee_dst f)) = Some b1"
    using wrn_ok [of 6 "addr_wire (ieee_dst f)" buf] room wl by auto
  have l1: "length b1 = length buf" by (rule wrn_length [OF b1])
  obtain b2 where b2: "wrn b1 (6 + ds) (addr_wire (ieee_src f)) = Some b2"
    using wrn_ok [of "6 + ds" "addr_wire (ieee_src f)" b1] room wl l1 by auto
  have l2: "length b2 = length buf" using wrn_length [OF b2] l1 by simp
  define b where "b = b2[1 := ucast (pack_fcf f), 2 := ucast (drop_bit 8 (pack_fcf f)),
    4 := ucast (ieee_dstpan f), 5 := ucast (drop_bit 8 (ieee_dstpan f))]"
  have len: "6 \<le> length b2" using room l2 by simp
  have run: "pack_ieee154_header buf cnt f = Some (b, 6 + ds + ss)"
    using ok b1 b2 len
    by (simp add: pack_ieee154_header_def frame_ok_def copy_addr_wire IEEE154_MIN_HDR_SZ_def
        wr8_Some b_def Let_def ds [symmetric] ss [symmetric])
  have dr: "drop k b = drop k b2" if "6 \<le> k" for k using that by (simp add: b_def)
  have rd: "rdn b k n = rdn b2 k n" if "6 \<le> k" for k n
    using that dr by (simp add: rdn_def b_def)
  have "rdn b2 6 ds = Some (addr_wire (ieee_dst f))"
    using rdn_wrn_before [OF b2, of 6 ds] rdn_wrn_same [OF b1] wl by simp
  moreover have "rdn b2 (6 + ds) ss = Some (addr_wire (ieee_src f))"
    using rdn_wrn_same [OF b2] wl by simp
  moreover have "drop (6 + ds + ss) b2 = drop (6 + ds + ss) buf"
    using drop_wrn [OF b2, of "6 + ds + ss"] drop_wrn [OF b1, of "6 + ds + ss"] wl by simp
  moreover have "3 < length b1" "3 < length buf" "0 < length b1" "0 < length buf"
    using len l1 l2 by linarith+
  then have "b2 ! 0 = buf ! 0" "b2 ! 3 = buf ! 3"
    using wrn_nth [OF b2, of 0] wrn_nth [OF b1, of 0] wrn_nth [OF b2, of 3] wrn_nth [OF b1, of 3]
    by simp_all
  ultimately show ?thesis using run len l2 by (simp add: rd dr b_def [symmetric]) (simp add: b_def)
qed

section \<open>Properties\<close>

text \<open>C30: A packed 802.15.4 header unpacks to the frame addressing it was packed from, for short and
  extended addresses in every combination: the same PAN, modes and addresses, with the whole
  header consumed.\<close>

theorem ieee154_header_roundtrip:
  assumes "frame_ok f" and "frame_ok g" and "addr_present (ieee_src f)" and "addr_present (ieee_dst f)"
    and "6 + addr_size (ieee_dst f) + addr_size (ieee_src f) \<le> length buf"
  shows "\<exists>b n g'. pack_ieee154_header buf cnt f = Some (b, n) \<and>
    unpack_ieee154_hdr b 0 n g = Some (0, n, 0, g') \<and> frame_addr_eq g' f"
proof -
  let ?d = "ieee_dst f" and ?s = "ieee_src f"
  obtain b where b: "pack_ieee154_header buf cnt f = Some (b, 6 + addr_size ?d + addr_size ?s)"
    "length b = length buf" "b ! 1 = ucast (pack_fcf f)" "b ! 2 = ucast (drop_bit 8 (pack_fcf f))"
    "b ! 4 = ucast (ieee_dstpan f)" "b ! 5 = ucast (drop_bit 8 (ieee_dstpan f))"
    "rdn b 6 (addr_size ?d) = Some (addr_wire ?d)"
    "rdn b (6 + addr_size ?d) (addr_size ?s) = Some (addr_wire ?s)"
    using pack_ieee154_header_spec [OF assms(1) refl refl assms(5)] by blast
  define n where "n = 6 + addr_size ?d + addr_size ?s"
  have rd6: "rdn b 0 6 = Some (take 6 b)" using assms(5) b(2) by (simp add: rdn_def)
  have f: "push_bit 8 (ucast (take 6 b ! 2)) OR ucast (take 6 b ! 1) = pack_fcf f"
    "htole16 (push_bit 8 (ucast (take 6 b ! 5)) OR ucast (take 6 b ! 4)) = ieee_dstpan f"
    using b be16_bytes by (simp_all add: be16_def htole16_def)
  define d0 where "d0 = (ieee_dst g)\<lparr>a_mode := a_mode ?d\<rparr>"
  define s0 where "s0 = (ieee_src g)\<lparr>a_mode := a_mode ?s\<rparr>"
  have ok: "addr_ok d0" "addr_ok s0" "addr_ok ?d" "addr_ok ?s" "a_mode d0 = a_mode ?d"
    "a_mode s0 = a_mode ?s"
    using assms(1,2) by (simp_all add: frame_ok_def addr_ok_def d0_def s0_def)
  have "take (addr_size ?d) (drop 6 b) = addr_wire ?d"
    "take (addr_size ?s) (drop (6 + addr_size ?d) b) = addr_wire ?s"
    using b(7,8) by (auto simp: rdn_def split: if_splits)
  then obtain d' s' where d': "unpack_addr b 6 (n - 6) d0 =
        Some (0, 6 + addr_size ?d, n - 6 - addr_size ?d, d')"
      "a_mode d' = a_mode ?d" "addr_wire d' = addr_wire ?d"
    and s': "unpack_addr b (6 + addr_size ?d) (n - 6 - addr_size ?d) s0 =
        Some (0, 6 + addr_size ?d + addr_size ?s, n - 6 - addr_size ?d - addr_size ?s, s')"
      "a_mode s' = a_mode ?s" "addr_wire s' = addr_wire ?s"
    using unpack_addr_wire [OF assms(4) ok(1) ok(3) ok(5), of 6 b "n - 6"]
      unpack_addr_wire [OF assms(3) ok(2) ok(4) ok(6), of "6 + addr_size ?d" b "n - 6 - addr_size ?d"]
      assms(5) b(2) by (auto simp: n_def)
  have "unpack_ieee154_hdr b 0 n g =
      Some (0, n, 0, \<lparr>ieee_src = s', ieee_dst = d', ieee_dstpan = ieee_dstpan f\<rparr>)"
    unfolding unpack_ieee154_hdr_def IEEE154_MIN_HDR_SZ_def rd6 Let_def Option.bind.simps f
      IEEE154_FCF_SRC_ADDR_MODE_def IEEE154_FCF_DEST_ADDR_MODE_def fcf_modes
    using d'(1) s'(1) by (simp add: d0_def s0_def n_def)
  with b(1) d' s' show ?thesis by (auto simp: frame_addr_eq_def n_def)
qed


definition short_frame :: ieee154_frame_addr where
  "short_frame = \<lparr>ieee_src = \<lparr>a_mode = 3, a_union = [1, 2, 3, 4, 5, 6, 7, 8]\<rparr>,
     ieee_dst = \<lparr>a_mode = 2, a_union = [0xCD, 0xAB, 0, 0, 0, 0, 0, 0]\<rparr>, ieee_dstpan = 0x22\<rparr>"

theorem ieee154_header_roundtrip_witness:
  "\<exists>b n g'. pack_ieee154_header (replicate 20 0) 20 short_frame = Some (b, n) \<and>
     unpack_ieee154_hdr b 0 n short_frame = Some (0, n, 0, g') \<and> frame_addr_eq g' short_frame"
  by (rule ieee154_header_roundtrip)
    (simp_all add: frame_ok_def addr_ok_def addr_present_def addr_size_def short_frame_def
      IEEE154_ADDR_SHORT_def IEEE154_ADDR_EXT_def)

text \<open>Unpacking an 802.15.4 header reads only the \<open>len\<close> bytes it is given, whatever they hold, and
  accounts for each of them: what it consumes and what is left add up to \<open>len\<close>.\<close>

theorem unpack_ieee154_hdr_safe:
  assumes "p + len \<le> length buf"
  shows "\<exists>r p' len' g. unpack_ieee154_hdr buf p len f = Some (r, p', len', g) \<and>
    p' + len' = p + len \<and> (r = 0 \<or> r = -1)"
proof (cases "len < 6")
  case True
  then show ?thesis by (simp add: unpack_ieee154_hdr_def IEEE154_MIN_HDR_SZ_def)
next
  case False
  with assms have h: "rdn buf p 6 = Some (take 6 (drop p buf))" by (simp add: rdn_def)
  have "p + 6 + (len - 6) \<le> length buf" using assms False by simp
  note safe = unpack_addr_safe [OF this]
  show ?thesis
  proof -
    let ?fcf = "push_bit 8 (ucast (take 6 (drop p buf) ! 2)) OR ucast (take 6 (drop p buf) ! 1) :: u16"
    let ?d = "(ieee_dst f)\<lparr>a_mode := ucast (drop_bit 10 ?fcf AND 3)\<rparr>"
    let ?s = "(ieee_src f)\<lparr>a_mode := ucast (drop_bit 14 ?fcf AND 3)\<rparr>"
    obtain r1 p1 l1 d where d: "unpack_addr buf (p + 6) (len - 6) ?d = Some (r1, p1, l1, d)"
      "p1 + l1 = p + 6 + (len - 6)"
      using safe [of ?d] by blast
    then have "p1 + l1 \<le> length buf" using assms False by simp
    from unpack_addr_safe [OF this, of ?s] obtain r2 p2 l2 s where
      s: "unpack_addr buf p1 l1 ?s = Some (r2, p2, l2, s)" "p2 + l2 = p1 + l1"
      by blast
    show ?thesis
      using False h d s
      by (auto simp: unpack_ieee154_hdr_def IEEE154_MIN_HDR_SZ_def IEEE154_FCF_SRC_ADDR_MODE_def
          IEEE154_FCF_DEST_ADDR_MODE_def Let_def)
  qed
qed

theorem unpack_ieee154_hdr_safe_witness:
  "\<exists>r p' len' g. unpack_ieee154_hdr [0, 0x41, 0xEC, 0, 0x22] 0 5 short_frame = Some (r, p', len', g) \<and>
     p' + len' = 5 \<and> (r = 0 \<or> r = -1)"
  using unpack_ieee154_hdr_safe [of 0 5 "[0, 0x41, 0xEC, 0, 0x22]" short_frame] by simp

text \<open>A frame with no destination address does not round-trip: packing writes eight bytes for
  every address that is not short, while unpacking reads none for an absent one, so the source
  address is read from the bytes of the destination.\<close>

theorem pack_absent_address_bug:
  "case pack_ieee154_header (replicate 22 0) 22
      (short_frame\<lparr>ieee_dst := \<lparr>a_mode = 0, a_union = [9, 9, 9, 9, 9, 9, 9, 9]\<rparr>\<rparr>) of
     Some (b, n) \<Rightarrow>
       (case unpack_ieee154_hdr b 0 n short_frame of
          Some (r, p, len, g) \<Rightarrow> n = 22 \<and> r = 0 \<and> len = 8 \<and>
            i_laddr (ieee_src g) = [9, 9, 9, 9, 9, 9, 9, 9]
        | None \<Rightarrow> False)
   | None \<Rightarrow> False"
  by code_simp

end
