(* ===== verification/LowpanTypes.thy ===== *)
theory LowpanTypes
  imports Ieee154 Iovec
begin

text \<open>
  Constants and types of the 6LoWPAN library: the dispatch and header-compression values of
  \<open>6lowpan.h\<close>, the IPv6 header of \<open>ip.h\<close> as its 40 bytes with accessors for its fields, and the
  packet and fragment structures of \<open>lib6lowpan.h\<close>.
\<close>

section \<open>Constants\<close>

definition LOWMSG_MESH_LEN :: nat where "LOWMSG_MESH_LEN = 5"
definition LOWMSG_BCAST_LEN :: nat where "LOWMSG_BCAST_LEN = 2"
definition LOWMSG_FRAG1_LEN :: nat where "LOWMSG_FRAG1_LEN = 4"
definition LOWMSG_FRAGN_LEN :: nat where "LOWMSG_FRAGN_LEN = 5"
definition LOWPAN_IPHC_SAM_SHIFT :: nat where "LOWPAN_IPHC_SAM_SHIFT = 4"
definition LOWPAN_IPHC_DAM_SHIFT :: nat where "LOWPAN_IPHC_DAM_SHIFT = 0"

definition LOWPAN_NALP_PATTERN :: u8 where "LOWPAN_NALP_PATTERN = 0x0"
definition LOWPAN_MESH_PATTERN :: u8 where "LOWPAN_MESH_PATTERN = 0x2"
definition LOWPAN_FRAG1_PATTERN :: u8 where "LOWPAN_FRAG1_PATTERN = 0x18"
definition LOWPAN_FRAGN_PATTERN :: u8 where "LOWPAN_FRAGN_PATTERN = 0x1c"
definition LOWPAN_BCAST_PATTERN :: u8 where "LOWPAN_BCAST_PATTERN = 0x50"
definition LOWPAN_IPV6_PATTERN :: u8 where "LOWPAN_IPV6_PATTERN = 0x41"
definition LOWPAN_MESH_V_MASK :: u8 where "LOWPAN_MESH_V_MASK = 0x20"
definition LOWPAN_MESH_F_MASK :: u8 where "LOWPAN_MESH_F_MASK = 0x10"
definition LOWPAN_MESH_HOPS_MASK :: u8 where "LOWPAN_MESH_HOPS_MASK = 0x0f"

definition LOWPAN_DISPATCH_BYTE_MASK :: u8 where "LOWPAN_DISPATCH_BYTE_MASK = 0xe0"
definition LOWPAN_DISPATCH_BYTE_VAL :: u8 where "LOWPAN_DISPATCH_BYTE_VAL = 0x60"
definition LOWPAN_IPHC_TF_MASK :: u8 where "LOWPAN_IPHC_TF_MASK = 0x18"
definition LOWPAN_IPHC_TF_NONE :: u8 where "LOWPAN_IPHC_TF_NONE = 0x18"
definition LOWPAN_IPHC_TF_ECN_DSCP :: u8 where "LOWPAN_IPHC_TF_ECN_DSCP = 0x10"
definition LOWPAN_IPHC_TF_ECN_FL :: u8 where "LOWPAN_IPHC_TF_ECN_FL = 0x08"
definition LOWPAN_IPHC_TF_ECN_DSCP_FL :: u8 where "LOWPAN_IPHC_TF_ECN_DSCP_FL = 0x00"
definition LOWPAN_IPHC_NH_MASK :: u8 where "LOWPAN_IPHC_NH_MASK = 0x04"
definition LOWPAN_IPHC_NH_INLINE :: u8 where "LOWPAN_IPHC_NH_INLINE = 0"
definition LOWPAN_IPHC_HLIM_MASK :: u8 where "LOWPAN_IPHC_HLIM_MASK = 0x03"
definition LOWPAN_IPHC_HLIM_NONE :: u8 where "LOWPAN_IPHC_HLIM_NONE = 0x00"
definition LOWPAN_IPHC_HLIM_1 :: u8 where "LOWPAN_IPHC_HLIM_1 = 0x01"
definition LOWPAN_IPHC_HLIM_64 :: u8 where "LOWPAN_IPHC_HLIM_64 = 0x02"
definition LOWPAN_IPHC_HLIM_255 :: u8 where "LOWPAN_IPHC_HLIM_255 = 0x03"
definition LOWPAN_IPHC_CID_MASK :: u8 where "LOWPAN_IPHC_CID_MASK = 0x80"
definition LOWPAN_IPHC_CID_PRESENT :: u8 where "LOWPAN_IPHC_CID_PRESENT = 0x80"
definition LOWPAN_IPHC_M :: u8 where "LOWPAN_IPHC_M = 0x08"
definition LOWPAN_IPHC_AC_CONTEXT :: u8 where "LOWPAN_IPHC_AC_CONTEXT = 0x04"
definition LOWPAN_IPHC_AM_MASK :: u8 where "LOWPAN_IPHC_AM_MASK = 0x3"
definition LOWPAN_IPHC_AM_128 :: u8 where "LOWPAN_IPHC_AM_128 = 0x0"
definition LOWPAN_IPHC_AM_64 :: u8 where "LOWPAN_IPHC_AM_64 = 0x1"
definition LOWPAN_IPHC_AM_16 :: u8 where "LOWPAN_IPHC_AM_16 = 0x2"
definition LOWPAN_IPHC_AM_0 :: u8 where "LOWPAN_IPHC_AM_0 = 0x3"
definition LOWPAN_IPHC_AM_M :: u8 where "LOWPAN_IPHC_AM_M = 0x08"
definition LOWPAN_IPHC_AM_M_128 :: u8 where "LOWPAN_IPHC_AM_M_128 = 0x0"
definition LOWPAN_IPHC_AM_M_48 :: u8 where "LOWPAN_IPHC_AM_M_48 = 0x1"
definition LOWPAN_IPHC_AM_M_32 :: u8 where "LOWPAN_IPHC_AM_M_32 = 0x2"
definition LOWPAN_IPHC_AM_M_8 :: u8 where "LOWPAN_IPHC_AM_M_8 = 0x3"
definition LOWPAN_NHC_IPV6_MASK :: u8 where "LOWPAN_NHC_IPV6_MASK = 0xf0"
definition LOWPAN_NHC_IPV6_PATTERN :: u8 where "LOWPAN_NHC_IPV6_PATTERN = 0xe0"
definition LOWPAN_NHC_EID_MASK :: u8 where "LOWPAN_NHC_EID_MASK = 0xe"
definition LOWPAN_NHC_EID_HOP :: u8 where "LOWPAN_NHC_EID_HOP = 0x0"
definition LOWPAN_NHC_EID_ROUTING :: u8 where "LOWPAN_NHC_EID_ROUTING = 0x2"
definition LOWPAN_NHC_EID_FRAG :: u8 where "LOWPAN_NHC_EID_FRAG = 0x4"
definition LOWPAN_NHC_EID_DEST :: u8 where "LOWPAN_NHC_EID_DEST = 0x6"
definition LOWPAN_NHC_EID_MOBILE :: u8 where "LOWPAN_NHC_EID_MOBILE = 0x8"
definition LOWPAN_NHC_EID_IPV6 :: u8 where "LOWPAN_NHC_EID_IPV6 = 0xe"
definition LOWPAN_NHC_NH :: u8 where "LOWPAN_NHC_NH = 0x1"
definition LOWPAN_NHC_UDP_MASK :: u8 where "LOWPAN_NHC_UDP_MASK = 0xf8"
definition LOWPAN_NHC_UDP_PATTERN :: u8 where "LOWPAN_NHC_UDP_PATTERN = 0xf0"
definition LOWPAN_NHC_UDP_CKSUM :: u8 where "LOWPAN_NHC_UDP_CKSUM = 0x4"
definition LOWPAN_NHC_UDP_PORT_MASK :: u8 where "LOWPAN_NHC_UDP_PORT_MASK = 0x3"
definition LOWPAN_NHC_UDP_PORT_FULL :: u8 where "LOWPAN_NHC_UDP_PORT_FULL = 0x0"
definition LOWPAN_NHC_UDP_PORT_SRC_FULL :: u8 where "LOWPAN_NHC_UDP_PORT_SRC_FULL = 0x1"
definition LOWPAN_NHC_UDP_PORT_DST_FULL :: u8 where "LOWPAN_NHC_UDP_PORT_DST_FULL = 0x2"
definition LOWPAN_NHC_UDP_PORT_SHORT :: u8 where "LOWPAN_NHC_UDP_PORT_SHORT = 0x3"

definition IANA_UDP :: u8 where "IANA_UDP = 17"
definition IPV6_HOP :: u8 where "IPV6_HOP = 0"
definition IPV6_IPV6 :: u8 where "IPV6_IPV6 = 41"
definition IPV6_ROUTING :: u8 where "IPV6_ROUTING = 43"
definition IPV6_FRAG :: u8 where "IPV6_FRAG = 44"
definition IPV6_DEST :: u8 where "IPV6_DEST = 60"
definition IPV6_MOBILITY :: u8 where "IPV6_MOBILITY = 135"
definition IPV6_TLV_PAD1 :: u8 where "IPV6_TLV_PAD1 = 0"
definition IPV6_TLV_PADN :: u8 where "IPV6_TLV_PADN = 1"
definition IPV6_VERSION :: u8 where "IPV6_VERSION = 0x60"
definition IPV6_VERSION_MASK :: u8 where "IPV6_VERSION_MASK = 0xf0"

definition LOWMSG_MESH_HDR :: u8 where "LOWMSG_MESH_HDR = 0x01"
definition LOWMSG_BCAST_HDR :: u8 where "LOWMSG_BCAST_HDR = 0x02"
definition LOWMSG_FRAG1_HDR :: u8 where "LOWMSG_FRAG1_HDR = 0x04"
definition LOWMSG_FRAGN_HDR :: u8 where "LOWMSG_FRAGN_HDR = 0x08"
definition LOWMSG_NALP :: u8 where "LOWMSG_NALP = 0x10"
definition LOWMSG_IPNH_HDR :: u8 where "LOWMSG_IPNH_HDR = 0x20"
definition LOWMSG_IPV6 :: u8 where "LOWMSG_IPV6 = 0x40"

lemmas lowpan_lengths = LOWMSG_MESH_LEN_def LOWMSG_BCAST_LEN_def LOWMSG_FRAG1_LEN_def
  LOWMSG_FRAGN_LEN_def LOWPAN_IPHC_SAM_SHIFT_def LOWPAN_IPHC_DAM_SHIFT_def

lemmas lowpan_patterns = LOWPAN_NALP_PATTERN_def LOWPAN_MESH_PATTERN_def LOWPAN_FRAG1_PATTERN_def
  LOWPAN_FRAGN_PATTERN_def LOWPAN_BCAST_PATTERN_def LOWPAN_IPV6_PATTERN_def
  LOWPAN_MESH_V_MASK_def LOWPAN_MESH_F_MASK_def LOWPAN_MESH_HOPS_MASK_def
  LOWMSG_MESH_HDR_def LOWMSG_BCAST_HDR_def LOWMSG_FRAG1_HDR_def
  LOWMSG_FRAGN_HDR_def LOWMSG_NALP_def LOWMSG_IPNH_HDR_def
  LOWMSG_IPV6_def

lemmas iphc_consts = LOWPAN_DISPATCH_BYTE_MASK_def LOWPAN_DISPATCH_BYTE_VAL_def LOWPAN_IPHC_TF_MASK_def
  LOWPAN_IPHC_TF_NONE_def LOWPAN_IPHC_TF_ECN_DSCP_def LOWPAN_IPHC_TF_ECN_FL_def
  LOWPAN_IPHC_TF_ECN_DSCP_FL_def LOWPAN_IPHC_NH_MASK_def LOWPAN_IPHC_NH_INLINE_def
  LOWPAN_IPHC_HLIM_MASK_def LOWPAN_IPHC_HLIM_NONE_def LOWPAN_IPHC_HLIM_1_def
  LOWPAN_IPHC_HLIM_64_def LOWPAN_IPHC_HLIM_255_def LOWPAN_IPHC_CID_MASK_def
  LOWPAN_IPHC_CID_PRESENT_def LOWPAN_IPHC_M_def LOWPAN_IPHC_AC_CONTEXT_def
  LOWPAN_IPHC_AM_MASK_def LOWPAN_IPHC_AM_128_def LOWPAN_IPHC_AM_64_def
  LOWPAN_IPHC_AM_16_def LOWPAN_IPHC_AM_0_def LOWPAN_IPHC_AM_M_def
  LOWPAN_IPHC_AM_M_128_def LOWPAN_IPHC_AM_M_48_def LOWPAN_IPHC_AM_M_32_def
  LOWPAN_IPHC_AM_M_8_def LOWPAN_NHC_IPV6_MASK_def LOWPAN_NHC_IPV6_PATTERN_def
  LOWPAN_NHC_EID_MASK_def LOWPAN_NHC_EID_HOP_def LOWPAN_NHC_EID_ROUTING_def
  LOWPAN_NHC_EID_FRAG_def LOWPAN_NHC_EID_DEST_def LOWPAN_NHC_EID_MOBILE_def
  LOWPAN_NHC_EID_IPV6_def LOWPAN_NHC_NH_def LOWPAN_NHC_UDP_MASK_def
  LOWPAN_NHC_UDP_PATTERN_def LOWPAN_NHC_UDP_CKSUM_def LOWPAN_NHC_UDP_PORT_MASK_def
  LOWPAN_NHC_UDP_PORT_FULL_def LOWPAN_NHC_UDP_PORT_SRC_FULL_def LOWPAN_NHC_UDP_PORT_DST_FULL_def
  LOWPAN_NHC_UDP_PORT_SHORT_def

lemmas ip_consts = IANA_UDP_def IPV6_HOP_def IPV6_IPV6_def
  IPV6_ROUTING_def IPV6_FRAG_def IPV6_DEST_def
  IPV6_MOBILITY_def IPV6_TLV_PAD1_def IPV6_TLV_PADN_def
  IPV6_VERSION_def IPV6_VERSION_MASK_def

section \<open>IPv6 headers and packets\<close>

type_synonym in6_addr = bytes
type_synonym ip6_hdr = bytes

definition sizeof_ip6_hdr :: nat where "sizeof_ip6_hdr = 40"
definition sizeof_udp_hdr :: nat where "sizeof_udp_hdr = 8"
definition sizeof_ip6_ext :: nat where "sizeof_ip6_ext = 2"

lemmas struct_sizes = sizeof_ip6_hdr_def sizeof_udp_hdr_def sizeof_ip6_ext_def

definition ip6_vfc :: "ip6_hdr \<Rightarrow> u8" where "ip6_vfc h = h ! 0"
definition ip6_flow :: "ip6_hdr \<Rightarrow> u32" where "ip6_flow h = ld32 (h ! 0) (h ! 1) (h ! 2) (h ! 3)"
definition ip6_plen :: "ip6_hdr \<Rightarrow> u16" where "ip6_plen h = ld16 (h ! 4) (h ! 5)"
definition ip6_nxt :: "ip6_hdr \<Rightarrow> u8" where "ip6_nxt h = h ! 6"
definition ip6_hlim :: "ip6_hdr \<Rightarrow> u8" where "ip6_hlim h = h ! 7"
definition ip6_src :: "ip6_hdr \<Rightarrow> in6_addr" where "ip6_src h = take 16 (drop 8 h)"
definition ip6_dst :: "ip6_hdr \<Rightarrow> in6_addr" where "ip6_dst h = take 16 (drop 24 h)"

text \<open>The 16-bit words of an address as the host loads them.\<close>

definition s6_addr16 :: "in6_addr \<Rightarrow> nat \<Rightarrow> u16" where
  "s6_addr16 a i = ld16 (a ! (2 * i)) (a ! (2 * i + 1))"

record ip6_packet =
  ip6_data :: "iovec list"
  ip6_hdr :: ip6_hdr

text \<open>\<open>lm_data\<close> is the object \<open>data\<close> points to, from the pointer on; None is a null pointer.\<close>

record packed_lowmsg =
  lm_headers :: u8
  lm_len :: u8
  lm_data :: "bytes option"

text \<open>Pointers into the memory of the reconstruction buffer are offsets; None is NULL.\<close>

record ip6_metadata =
  md_sender :: ieee154_addr
  md_lqi :: u8
  md_rssi :: u8

record lowpan_reconstruct =
  r_tag :: u16
  r_source_key :: u16
  r_size :: u16
  r_buf :: "nat option"
  r_bytes_rcvd :: u16
  r_timeout :: u8
  r_app_len :: "nat option"
  r_transport_header :: "nat option"
  r_meta :: ip6_metadata

record lowpan_ctx =
  ctx_tag :: u16
  ctx_offset :: u16

text \<open>A pointer moving through an input buffer with the bytes left: the C pair \<open>buf\<close>, \<open>len\<close>.\<close>

record cursor =
  c_pos :: nat
  c_len :: nat

definition advance :: "nat \<Rightarrow> cursor \<Rightarrow> cursor" where
  "advance n c = c\<lparr>c_pos := c_pos c + n, c_len := c_len c - n\<rparr>"

lemma advance_simps [simp]:
  "c_pos (advance n c) = c_pos c + n" "c_len (advance n c) = c_len c - n"
  "advance m (advance n c) = advance (n + m) c"
  by (simp_all add: advance_def)

end
