(* ===== verification/Lowmsg.thy ===== *)
theory Lowmsg
  imports LowpanTypes
begin

text \<open>
  The 6LoWPAN mesh, broadcast and fragmentation headers of \<open>lib6lowpan_4944.c\<close>. The argument
  \<open>full\<close> is the build option \<open>LIB6LOWPAN_FULL\<close>, which adds the mesh and broadcast headers.
  None is an access outside the packet's object; pointers returned through arguments are
  results, given their old value.
\<close>

section \<open>Which headers a message has\<close>

text \<open>The headers before the fragmentation header, and all of them: offsets from \<open>data\<close>.\<close>

definition mesh_bcast_len :: "bool \<Rightarrow> u8 \<Rightarrow> nat" where
  "mesh_bcast_len full headers =
     (if full \<and> headers AND LOWMSG_MESH_HDR \<noteq> 0 then LOWMSG_MESH_LEN else 0) +
     (if full \<and> headers AND LOWMSG_BCAST_HDR \<noteq> 0 then LOWMSG_BCAST_LEN else 0)"

definition getLowpanPayload :: "bool \<Rightarrow> packed_lowmsg \<Rightarrow> nat" where
  "getLowpanPayload full msg =
     mesh_bcast_len full (lm_headers msg) +
     (if lm_headers msg AND LOWMSG_FRAG1_HDR \<noteq> 0 then LOWMSG_FRAG1_LEN else 0) +
     (if lm_headers msg AND LOWMSG_FRAGN_HDR \<noteq> 0 then LOWMSG_FRAGN_LEN else 0)"

text \<open>The test \<open>len > 0 && P(*buf)\<close>, and one step of the scan: the headers found so far, the
  position and the bytes left.\<close>

definition byte_test :: "bytes \<Rightarrow> nat \<Rightarrow> int \<Rightarrow> (u8 \<Rightarrow> bool) \<Rightarrow> bool option" where
  "byte_test data p len P = (if 0 < len then map_option P (rd8 data p) else Some False)"

type_synonym scan = "u16 \<times> nat \<times> int"

definition scan_step :: "bytes \<Rightarrow> (u8 \<Rightarrow> bool) \<Rightarrow> u8 \<Rightarrow> nat \<Rightarrow> scan \<Rightarrow> scan option" where
  "scan_step data P hdr n st =
     (case st of (headers, p, len) \<Rightarrow>
        map_option
          (\<lambda>hit. if hit then (headers OR ucast hdr, p + n, len - int n) else (headers, p, len))
          (byte_test data p len P))"

text \<open>The part of the scan that only the full build has; \<open>Inl\<close> when it returns early.\<close>

definition scan_full :: "bytes \<Rightarrow> scan \<Rightarrow> (u16 + scan) option" where
  "scan_full data st = do {
     mesh \<leftarrow> byte_test data (fst (snd st)) (snd (snd st)) (\<lambda>b. drop_bit 6 b = LOWPAN_MESH_PATTERN);
     b \<leftarrow> (if mesh then rd8 data (fst (snd st)) else Some 0);
     if mesh \<and> (b AND LOWPAN_MESH_V_MASK = 0 \<or> b AND LOWPAN_MESH_F_MASK = 0)
     then Some (Inl (ucast LOWMSG_NALP))
     else do {
       st1 \<leftarrow> scan_step data (\<lambda>b. drop_bit 6 b = LOWPAN_MESH_PATTERN) LOWMSG_MESH_HDR
                LOWMSG_MESH_LEN st;
       st2 \<leftarrow> scan_step data (\<lambda>b. b = LOWPAN_BCAST_PATTERN) LOWMSG_BCAST_HDR LOWMSG_BCAST_LEN st1;
       Some (Inr st2)
     }
   }"

definition getHeaderBitmap :: "bool \<Rightarrow> packed_lowmsg \<Rightarrow> u16 option" where
  "getHeaderBitmap full msg =
     (case lm_data msg of
        None \<Rightarrow> Some 0
      | Some data \<Rightarrow>
          let st = (0, 0, int (unat (lm_len msg)))
          in do {
            nalp \<leftarrow> byte_test data 0 (int (unat (lm_len msg))) (\<lambda>b. drop_bit 6 b = LOWPAN_NALP_PATTERN);
            if nalp then Some (ucast LOWMSG_NALP)
            else do {
              r \<leftarrow> (if full then scan_full data st else Some (Inr st));
              case r of
                Inl h \<Rightarrow> Some h
              | Inr st1 \<Rightarrow> do {
                  st2 \<leftarrow> scan_step data (\<lambda>b. drop_bit 3 b = LOWPAN_FRAG1_PATTERN) LOWMSG_FRAG1_HDR
                           LOWMSG_FRAG1_LEN st1;
                  st3 \<leftarrow> scan_step data (\<lambda>b. drop_bit 3 b = LOWPAN_FRAGN_PATTERN) LOWMSG_FRAGN_HDR
                           LOWMSG_FRAGN_LEN st2;
                  Some (fst st3)
                }
            }
          })"

section \<open>Writing the dispatch values\<close>

text \<open>One \<open>if (headers & H)\<close> block: a message, the position and the room left. \<open>Inl\<close> is
  \<open>return 1\<close>.\<close>

type_synonym setup_state = "(packed_lowmsg + packed_lowmsg \<times> bytes \<times> nat \<times> nat) option"

definition setup_step :: "u16 \<Rightarrow> u8 \<Rightarrow> nat \<Rightarrow> u8 \<Rightarrow> setup_state \<Rightarrow> setup_state" where
  "setup_step headers hdr n pattern st =
     (case st of
        Some (Inr (m, data, p, len)) \<Rightarrow>
          if headers AND ucast hdr = 0 then st
          else if len < n then Some (Inl m)
          else map_option
            (\<lambda>d. Inr (m\<lparr>lm_headers := lm_headers m OR hdr, lm_data := Some d\<rparr>, d, p + n, len - n))
            (wr8 data p pattern)
      | _ \<Rightarrow> st)"

definition setupHeaders :: "bool \<Rightarrow> packed_lowmsg \<Rightarrow> u16 \<Rightarrow> (u8 \<times> packed_lowmsg) option" where
  "setupHeaders full packed headers =
     (case lm_data packed of
        None \<Rightarrow> Some (1, packed)
      | Some data \<Rightarrow>
          let m = packed\<lparr>lm_headers := 0\<rparr>;
              st = Some (Inr (m, data, 0, unat (lm_len packed)));
              st1 = (if full then
                  setup_step headers LOWMSG_BCAST_HDR LOWMSG_BCAST_LEN LOWPAN_BCAST_PATTERN
                    (setup_step headers LOWMSG_MESH_HDR LOWMSG_MESH_LEN
                      (push_bit 6 LOWPAN_MESH_PATTERN OR LOWPAN_MESH_V_MASK OR LOWPAN_MESH_F_MASK) st)
                else st);
              st2 = setup_step headers LOWMSG_FRAGN_HDR LOWMSG_FRAGN_LEN (push_bit 3 LOWPAN_FRAGN_PATTERN)
                (setup_step headers LOWMSG_FRAG1_HDR LOWMSG_FRAG1_LEN (push_bit 3 LOWPAN_FRAG1_PATTERN) st1)
          in map_option (case_sum (Pair 1) (\<lambda>(m', _). (0, m'))) st2)"

definition hasMeshHeader :: "packed_lowmsg \<Rightarrow> u8" where
  "hasMeshHeader msg = lm_headers msg AND LOWMSG_MESH_HDR"

definition hasBcastHeader :: "packed_lowmsg \<Rightarrow> u8" where
  "hasBcastHeader msg = lm_headers msg AND LOWMSG_BCAST_HDR"

definition hasFrag1Header :: "packed_lowmsg \<Rightarrow> u8" where
  "hasFrag1Header msg = lm_headers msg AND LOWMSG_FRAG1_HDR"

definition hasFragNHeader :: "packed_lowmsg \<Rightarrow> u8" where
  "hasFragNHeader msg = lm_headers msg AND LOWMSG_FRAGN_HDR"

section \<open>Mesh and broadcast header fields\<close>

definition with_mesh :: "packed_lowmsg \<Rightarrow> 'a \<Rightarrow> (bytes \<Rightarrow> (u8 \<times> 'a) option) \<Rightarrow> (u8 \<times> 'a) option" where
  "with_mesh msg old f =
     (if hasMeshHeader msg = 0 then Some (1, old)
      else case lm_data msg of None \<Rightarrow> Some (1, old) | Some data \<Rightarrow> f data)"

definition put_data :: "packed_lowmsg \<Rightarrow> bytes \<Rightarrow> packed_lowmsg" where
  "put_data msg d = msg\<lparr>lm_data := Some d\<rparr>"

definition getMeshHopsLeft :: "packed_lowmsg \<Rightarrow> u8 \<Rightarrow> (u8 \<times> u8) option" where
  "getMeshHopsLeft msg hops =
     with_mesh msg hops (\<lambda>data. map_option (\<lambda>b. (0, b AND LOWPAN_MESH_HOPS_MASK)) (rd8 data 0))"

text \<open>The origin is at offset 1 and the final address at 3, each read when its flag is set.\<close>

definition mesh_addr_get :: "u8 \<Rightarrow> nat \<Rightarrow> packed_lowmsg \<Rightarrow> u16 \<Rightarrow> (u8 \<times> u16) option" where
  "mesh_addr_get flag off msg old =
     with_mesh msg old (\<lambda>data. do {
       b \<leftarrow> rd8 data 0;
       if b AND flag = 0 then Some (1, old)
       else map_option (\<lambda>bs. (0, ntohs (ld16 (bs ! 0) (bs ! 1)))) (rdn data off 2)
     })"

definition getMeshOriginAddr :: "packed_lowmsg \<Rightarrow> u16 \<Rightarrow> (u8 \<times> u16) option" where
  "getMeshOriginAddr = mesh_addr_get LOWPAN_MESH_V_MASK 1"

definition getMeshFinalAddr :: "packed_lowmsg \<Rightarrow> u16 \<Rightarrow> (u8 \<times> u16) option" where
  "getMeshFinalAddr = mesh_addr_get LOWPAN_MESH_F_MASK 3"

definition setMeshHopsLeft :: "packed_lowmsg \<Rightarrow> u8 \<Rightarrow> (u8 \<times> packed_lowmsg) option" where
  "setMeshHopsLeft msg hops =
     with_mesh msg msg (\<lambda>data.
       map_option (\<lambda>d. (0, put_data msg d)) (wr8 data 0 (0xb0 OR (hops AND LOWPAN_MESH_HOPS_MASK))))"

definition mesh_addr_set :: "u8 \<Rightarrow> nat \<Rightarrow> packed_lowmsg \<Rightarrow> u16 \<Rightarrow> (u8 \<times> packed_lowmsg) option" where
  "mesh_addr_set flag off msg a =
     with_mesh msg msg (\<lambda>data. do {
       b \<leftarrow> rd8 data 0;
       if b AND flag = 0 then Some (1, msg)
       else map_option (\<lambda>d. (0, put_data msg d)) (wrn data off (st16 (htons a)))
     })"

definition setMeshOriginAddr :: "packed_lowmsg \<Rightarrow> u16 \<Rightarrow> (u8 \<times> packed_lowmsg) option" where
  "setMeshOriginAddr = mesh_addr_set LOWPAN_MESH_V_MASK 1"

definition setMeshFinalAddr :: "packed_lowmsg \<Rightarrow> u16 \<Rightarrow> (u8 \<times> packed_lowmsg) option" where
  "setMeshFinalAddr = mesh_addr_set LOWPAN_MESH_F_MASK 3"

text \<open>The broadcast header, after the mesh header if there is one; 2 when its dispatch is missing.\<close>

definition with_bcast :: "packed_lowmsg \<Rightarrow> 'a \<Rightarrow> (bytes \<Rightarrow> nat \<Rightarrow> (u8 \<times> 'a) option) \<Rightarrow> (u8 \<times> 'a) option" where
  "with_bcast msg old f =
     (case lm_data msg of
        None \<Rightarrow> Some (1, old)
      | Some data \<Rightarrow>
          if hasBcastHeader msg = 0 then Some (1, old)
          else
            let p = (if hasMeshHeader msg \<noteq> 0 then LOWMSG_MESH_LEN else 0)
            in do {
              b \<leftarrow> rd8 data p;
              if b \<noteq> LOWPAN_BCAST_PATTERN then Some (2, old) else f data (p + 1)
            })"

definition getBcastSeqno :: "packed_lowmsg \<Rightarrow> u8 \<Rightarrow> (u8 \<times> u8) option" where
  "getBcastSeqno msg seqno = with_bcast msg seqno (\<lambda>data p. map_option (Pair 0) (rd8 data p))"

definition setBcastSeqno :: "packed_lowmsg \<Rightarrow> u8 \<Rightarrow> (u8 \<times> packed_lowmsg) option" where
  "setBcastSeqno msg seqno =
     with_bcast msg msg (\<lambda>data p. map_option (\<lambda>d. (0, put_data msg d)) (wr8 data p seqno))"

section \<open>Fragmentation header fields\<close>

text \<open>The fragmentation header and a test of its dispatch, common to the functions below.\<close>

definition with_frag :: "bool \<Rightarrow> u8 list \<Rightarrow> packed_lowmsg \<Rightarrow> 'a
    \<Rightarrow> (bytes \<Rightarrow> nat \<Rightarrow> u8 \<Rightarrow> (u8 \<times> 'a) option) \<Rightarrow> (u8 \<times> 'a) option" where
  "with_frag full patterns msg old f =
     (case lm_data msg of
        None \<Rightarrow> Some (1, old)
      | Some data \<Rightarrow>
          let p = mesh_bcast_len full (lm_headers msg)
          in do {
            b \<leftarrow> rd8 data p;
            if drop_bit 3 b \<notin> set patterns then Some (1, old) else f data p b
          })"

abbreviation frag_patterns :: "u8 list" where
  "frag_patterns \<equiv> [LOWPAN_FRAG1_PATTERN, LOWPAN_FRAGN_PATTERN]"

definition getFragDgramSize :: "bool \<Rightarrow> packed_lowmsg \<Rightarrow> u16 \<Rightarrow> (u8 \<times> u16) option" where
  "getFragDgramSize full msg old =
     with_frag full frag_patterns msg old (\<lambda>data p b.
       map_option (\<lambda>b1. (0, push_bit 8 (ucast (b AND 0x7)) OR ucast b1)) (rd8 data (p + 1)))"

definition getFragDgramTag :: "bool \<Rightarrow> packed_lowmsg \<Rightarrow> u16 \<Rightarrow> (u8 \<times> u16) option" where
  "getFragDgramTag full msg tag =
     with_frag full frag_patterns msg tag (\<lambda>data p b.
       map_option (\<lambda>bs. (0, ntohs (ld16 (bs ! 0) (bs ! 1)))) (rdn data (p + 2) 2))"

definition getFragDgramOffset :: "bool \<Rightarrow> packed_lowmsg \<Rightarrow> u8 \<Rightarrow> (u8 \<times> u8) option" where
  "getFragDgramOffset full msg off =
     with_frag full [LOWPAN_FRAGN_PATTERN] msg off (\<lambda>data p b.
       map_option (Pair 0) (rd8 data (p + 4)))"

definition setFragDgramSize :: "bool \<Rightarrow> packed_lowmsg \<Rightarrow> u16 \<Rightarrow> (u8 \<times> packed_lowmsg) option" where
  "setFragDgramSize full msg sz =
     with_frag full frag_patterns msg msg (\<lambda>data p b.
       let size = sz AND 0x7ff
       in map_option (\<lambda>d. (0, put_data msg d))
            (wrn data p [(b AND 0xf8) OR ucast (drop_bit 8 size), ucast (size AND 0xff)]))"

definition setFragDgramTag :: "bool \<Rightarrow> packed_lowmsg \<Rightarrow> u16 \<Rightarrow> (u8 \<times> packed_lowmsg) option" where
  "setFragDgramTag full msg tag =
     with_frag full frag_patterns msg msg (\<lambda>data p b.
       map_option (\<lambda>d. (0, put_data msg d))
         (wrn data (p + 2) [ucast (drop_bit 8 tag), ucast (tag AND 0xff)]))"

definition setFragDgramOffset :: "bool \<Rightarrow> packed_lowmsg \<Rightarrow> u8 \<Rightarrow> (u8 \<times> packed_lowmsg) option" where
  "setFragDgramOffset full msg off =
     with_frag full [LOWPAN_FRAGN_PATTERN] msg msg (\<lambda>data p b.
       map_option (\<lambda>d. (0, put_data msg d)) (wr8 data (p + 4) off))"

end
