(* ===== verification/LowmsgProps.thy ===== *)
theory LowmsgProps
  imports Lowmsg
begin

text \<open>
  Laying out 6LoWPAN headers and finding them again: the dispatch values and the fields of the
  fragmentation header round trip, in both builds of the library.
\<close>

section \<open>Facts for the proofs\<close>

lemmas lowmsg_get_defs = getFragDgramSize_def getFragDgramTag_def getFragDgramOffset_def
lemmas lowmsg_set_defs = setFragDgramSize_def setFragDgramTag_def setFragDgramOffset_def

lemma with_frag_Some:
  "with_frag full ps msg old f = Some (0, r) \<longleftrightarrow>
   (\<exists>data. lm_data msg = Some data \<and> mesh_bcast_len full (lm_headers msg) < length data \<and>
      drop_bit 3 (data ! mesh_bcast_len full (lm_headers msg)) \<in> set ps \<and>
      f data (mesh_bcast_len full (lm_headers msg)) (data ! mesh_bcast_len full (lm_headers msg)) =
        Some (0, r))"
  by (auto simp: with_frag_def rd8_def Let_def split: option.splits if_splits)

lemma put_data_simps [simp]:
  "lm_data (put_data m d) = Some d" "lm_headers (put_data m d) = lm_headers m"
  "lm_len (put_data m d) = lm_len m"
  by (simp_all add: put_data_def)

lemma put_data_inject [simp]: "put_data m d = put_data m d' \<longleftrightarrow> d = d'"
  by (metis put_data_simps(1) option.inject)

text \<open>The dispatch bits survive the upper bits of the size, and the size is read back.\<close>

lemma bit_7ff: "bit (0x7ff :: u16) m \<longleftrightarrow> m < 11"
proof -
  have "(0x7ff :: u16) = mask 11" by (simp add: mask_eq_exp_minus_1)
  then show ?thesis by (simp only: bit_mask_iff) auto
qed

lemma bit_f8: "bit (0xf8 :: u8) m \<longleftrightarrow> 3 \<le> m \<and> m < 8"
proof -
  have "(0xf8 :: u8) = push_bit 3 (mask 5)" by (simp add: mask_eq_exp_minus_1)
  then show ?thesis by (simp only: bit_push_bit_iff bit_mask_iff) auto
qed

lemma bit_07: "bit (7 :: u8) m \<longleftrightarrow> m < 3" "bit (7 :: u16) m \<longleftrightarrow> m < 3"
proof -
  have "(7 :: u8) = mask 3" "(7 :: u16) = mask 3" by (simp_all add: mask_eq_exp_minus_1)
  then show "bit (7 :: u8) m \<longleftrightarrow> m < 3" "bit (7 :: u16) m \<longleftrightarrow> m < 3"
    by (simp_all only: bit_mask_iff) auto
qed

lemma bit_ff: "bit (0xff :: u16) m \<longleftrightarrow> m < 8"
proof -
  have "(0xff :: u16) = mask 8" by (simp add: mask_eq_exp_minus_1)
  then show ?thesis by (simp only: bit_mask_iff) auto
qed

lemmas lowmsg_bits = bit_7ff bit_f8 bit_07 bit_ff bit_and_iff bit_or_iff bit_drop_bit_eq
  bit_push_bit_iff bit_ucast_iff bit_wide

lemma dispatch_keep:
  "drop_bit 3 ((b AND 0xf8) OR ucast (drop_bit 8 (sz AND 0x7ff :: u16))) = drop_bit 3 (b :: u8)"
  by (rule bit_word_eqI, simp only: lowmsg_bits) (auto simp: lowmsg_bits simp del: bit_numeral_word_iff dest: bit_imp_le_length)

lemma size_back:
  "push_bit 8 (ucast (((b AND 0xf8) OR ucast (drop_bit 8 (sz AND 0x7ff))) AND (7 :: u8))) OR
   ucast (ucast ((sz AND 0x7ff) AND 0xff) :: u8) = (sz AND 0x7ff :: u16)" (is "?l = ?r")
proof (rule bit_word_eqI)
  fix n assume "n < LENGTH(16)"
  then show "bit ?l n = bit ?r n"
    by (cases "n < 8"; simp only: lowmsg_bits) (auto simp: lowmsg_bits simp del: bit_numeral_word_iff dest: bit_imp_le_length)
qed

lemma tag_back: "be16 (ucast (drop_bit 8 t)) (ucast (t AND 0xff)) = t"
proof -
  have "(ucast (t AND 0xff) :: u8) = ucast t"
    by (rule bit_word_eqI, simp only: lowmsg_bits) (auto simp: lowmsg_bits simp del: bit_numeral_word_iff dest: bit_imp_le_length)
  then show ?thesis by simp
qed

text \<open>The fields of the fragmentation header at \<open>p\<close>, and that each setter writes its own.\<close>

definition frag_fields :: "bytes \<Rightarrow> nat \<Rightarrow> u8 \<times> u16 \<times> u16" where
  "frag_fields d p =
     (drop_bit 3 (d ! p), be16 (d ! p AND 7) (d ! (p + 1)), be16 (d ! (p + 2)) (d ! (p + 3)))"

lemma wrn_pair:
  "wrn d p [x, y] = Some d' \<longleftrightarrow> Suc p < length d \<and> d' = d[p := x, Suc p := y]"
proof (cases "Suc p < length d")
  case True
  have "take p d @ [x, y] @ drop (p + 2) d = d[p := x, Suc p := y]"
    using True by (intro nth_equalityI) (auto simp: nth_append nth_list_update nth_Cons' intro!: arg_cong [of _ _ "nth d"])
  with True show ?thesis by (auto simp: wrn_def)
qed (simp add: wrn_def)

lemma frag_fields_upd:
  "Suc p < length d \<Longrightarrow> frag_fields (d[p := x, Suc p := y]) p =
     (drop_bit 3 x, be16 (x AND 7) y, be16 (d ! (p + 2)) (d ! (p + 3)))"
  by (simp add: frag_fields_def)

lemma setFragDgramSize_fields:
  assumes "setFragDgramSize full m sz = Some (0, m')"
  shows "\<exists>d d' p t. lm_data m = Some d \<and> p = mesh_bcast_len full (lm_headers m) \<and>
    m' = put_data m d' \<and> length d' = length d \<and> p + 1 < length d \<and>
    frag_fields d' p = (fst (frag_fields d p), sz AND 0x7ff, t) \<and>
    fst (frag_fields d p) \<in> set frag_patterns"
proof -
  define p where "p = mesh_bcast_len full (lm_headers m)"
  obtain d where d: "lm_data m = Some d" and pat: "drop_bit 3 (d ! p) \<in> set frag_patterns"
    and w: "map_option (\<lambda>d. (0, put_data m d))
      (wrn d p [(d ! p AND 0xf8) OR ucast (drop_bit 8 (sz AND 0x7ff)), ucast ((sz AND 0x7ff) AND 0xff)])
      = Some (0 :: u8, m')"
    using assms unfolding setFragDgramSize_def with_frag_Some Let_def p_def by blast
  let ?x = "(d ! p AND 0xf8) OR ucast (drop_bit 8 (sz AND 0x7ff))"
  let ?y = "ucast ((sz AND 0x7ff) AND 0xff) :: u8"
  have l: "Suc p < length d" and m': "m' = put_data m (d[p := ?x, Suc p := ?y])"
    using w by (auto simp only: map_option_eq_Some wrn_pair prod.inject)
  define d' where "d' = d[p := ?x, Suc p := ?y]"
  have "frag_fields d' p =
      (drop_bit 3 (d ! p), sz AND 0x7ff, be16 (d ! (p + 2)) (d ! (p + 3)))"
    unfolding d'_def frag_fields_upd [OF l] by (simp only: be16_def dispatch_keep size_back)
  moreover have "length d' = length d" "m' = put_data m d'" by (simp_all add: d'_def m')
  moreover have "fst (frag_fields d p) = drop_bit 3 (d ! p)" by (simp add: frag_fields_def)
  ultimately show ?thesis using d pat l p_def by auto
qed

lemma setFragDgramTag_fields:
  assumes "setFragDgramTag full m tag = Some (0, m')"
  shows "\<exists>d d' p. lm_data m = Some d \<and> p = mesh_bcast_len full (lm_headers m) \<and>
    m' = put_data m d' \<and> length d' = length d \<and> p + 3 < length d \<and>
    frag_fields d' p = (fst (frag_fields d p), fst (snd (frag_fields d p)), tag) \<and>
    fst (frag_fields d p) \<in> set frag_patterns"
  using assms
  by (auto simp: setFragDgramTag_def with_frag_Some Let_def frag_fields_def
      wrn_pair tag_back numeral_3_eq_3)

lemma setFragDgramOffset_fields:
  assumes "setFragDgramOffset full m off = Some (0, m')"
  shows "\<exists>d d' p. lm_data m = Some d \<and> p = mesh_bcast_len full (lm_headers m) \<and>
    m' = put_data m d' \<and> length d' = length d \<and> p + 4 < length d \<and>
    frag_fields d' p = frag_fields d p \<and> d' ! (p + 4) = off \<and>
    fst (frag_fields d p) = LOWPAN_FRAGN_PATTERN"
  using assms
  by (auto simp: setFragDgramOffset_def with_frag_Some Let_def frag_fields_def wr8_def
      split: if_splits)

text \<open>Reading the fields.\<close>

lemma frag_get_fields:
  assumes "lm_data m = Some d" and "p = mesh_bcast_len full (lm_headers m)" and "p + 3 < length d"
    and "frag_fields d p = (pat, sz, tag)" and "pat \<in> set frag_patterns"
  shows "getFragDgramSize full m s0 = Some (0, sz)" "getFragDgramTag full m t0 = Some (0, tag)"
  using assms
  by (auto simp: getFragDgramSize_def getFragDgramTag_def with_frag_Some frag_fields_def rd8_def
      rdn_def be16_def [symmetric] numeral_3_eq_3)

text \<open>What the setup leaves and the scan finds.\<close>

lemma header_bit: "hs AND 2 ^ k = (if bit hs k then 2 ^ k else (0 :: u16))"
  by (rule bit_word_eqI) (auto simp: bit_and_iff bit_exp_iff)

lemma header_bits:
  "hs AND 1 = (if bit hs 0 then 1 else (0 :: u16))" "hs AND 2 = (if bit hs 1 then 2 else (0 :: u16))"
  "hs AND 4 = (if bit hs 2 then 4 else (0 :: u16))" "hs AND 8 = (if bit hs 3 then 8 else (0 :: u16))"
  using header_bit [of hs 0] header_bit [of hs 1] header_bit [of hs 2] header_bit [of hs 3] by simp_all

lemma header_mask:
  "hs AND 12 = (hs AND 4) OR (hs AND 8 :: u16)"
  "hs AND 15 = (hs AND 1) OR (hs AND 2) OR (hs AND 4) OR (hs AND 8 :: u16)"
proof -
  have "(12 :: u16) = 4 OR 8" "(15 :: u16) = 1 OR 2 OR 4 OR 8" by simp_all
  then show "hs AND 12 = (hs AND 4) OR (hs AND 8 :: u16)"
    "hs AND 15 = (hs AND 1) OR (hs AND 2) OR (hs AND 4) OR (hs AND 8 :: u16)"
    by (simp_all only: bit.conj_disj_distrib)
qed

lemma uint_gt: "numeral k < uint x \<longleftrightarrow> numeral k < unat x" "0 < uint x \<longleftrightarrow> 0 < unat x"
  by (simp_all only: unat_eq_nat_uint zless_nat_eq_int_zless of_nat_numeral int_ops(1))

lemmas setup_scan_defs = setupHeaders_def setup_step_def wr8_def Let_def getHeaderBitmap_def
  byte_test_def rd8_def scan_step_def scan_full_def getLowpanPayload_def mesh_bcast_len_def
  lowpan_patterns lowpan_lengths header_mask header_bits uint_gt

lemma lowmsg_setup_scan_lean:
  assumes "setupHeaders False m hs = Some (0, m')" and "lm_data m = Some d"
    and "unat (lm_len m) \<le> length d" and "hs AND ucast LOWMSG_FRAGN_HDR \<noteq> 0"
  shows "getHeaderBitmap False m' = Some (hs AND 0xc) \<and> getLowpanPayload False m' \<le> unat (lm_len m)"
  using assms by (cases "bit hs 2"; cases "bit hs 3") (auto simp: setup_scan_defs split: if_splits)

lemma lowmsg_setup_scan_full:
  assumes "setupHeaders True m hs = Some (0, m')" and "lm_data m = Some d"
    and "unat (lm_len m) \<le> length d" and "hs AND ucast LOWMSG_FRAGN_HDR \<noteq> 0"
  shows "getHeaderBitmap True m' = Some (hs AND 0xf) \<and> getLowpanPayload True m' \<le> unat (lm_len m)"
proof -
  have b3: "bit hs 3" using assms(4) by (simp add: setup_scan_defs split: if_splits)
  show ?thesis
    using assms(1-3)
    by (cases "bit hs 0"; cases "bit hs 1"; cases "bit hs 2";
        simp add: setup_scan_defs b3 not_less split: if_splits;
        (elim conjE)?; hypsubst; simp add: setup_scan_defs b3 not_less; arith)
qed

text \<open>A message whose headers were laid out for a set of headers with a FRAGN header, in either
  build, is recognised as having exactly those headers, and they fit in its length.\<close>

theorem lowmsg_setup_scan:
  assumes "setupHeaders full m hs = Some (0, m')" and "lm_data m = Some d"
    and "unat (lm_len m) \<le> length d" and "hs AND ucast LOWMSG_FRAGN_HDR \<noteq> 0"
  shows "getHeaderBitmap full m' = Some (hs AND (if full then 0xf else 0xc)) \<and>
    getLowpanPayload full m' \<le> unat (lm_len m)"
  using lowmsg_setup_scan_lean lowmsg_setup_scan_full assms by (cases full) auto

theorem lowmsg_setup_scan_witness:
  "getHeaderBitmap True \<lparr>lm_headers = 0xb, lm_len = 12,
     lm_data = Some [0xb0, 0, 0, 0, 0, 0x50, 0, 0xe0, 0, 0, 0, 0]\<rparr> = Some 0xb"
  using lowmsg_setup_scan [where full = True and hs = "0xb" and d = "[0, 0, 0, 0, 0, 0, 0, 0, 0, 0, 0, 0]"
      and m = "\<lparr>lm_headers = 0, lm_len = 12, lm_data = Some [0, 0, 0, 0, 0, 0, 0, 0, 0, 0, 0, 0]\<rparr>" and m' =
      "\<lparr>lm_headers = 0xb, lm_len = 12, lm_data = Some [0xb0, 0, 0, 0, 0, 0x50, 0, 0xe0, 0, 0, 0, 0]\<rparr>"]
  by (simp add: setup_scan_defs)

text \<open>The datagram size (modulo 2048), tag and offset written into a fragmentation header are the
  ones read back, in either build and behind mesh and broadcast headers.\<close>

theorem frag_header_roundtrip:
  assumes "setFragDgramSize full m sz = Some (0, ma)" and "setFragDgramTag full ma tag = Some (0, mb)"
  shows "getFragDgramSize full mb s = Some (0, sz AND 0x7ff) \<and>
    getFragDgramTag full mb u = Some (0, tag) \<and>
    (\<forall>off m3. setFragDgramOffset full mb off = Some (0, m3) \<longrightarrow>
       getFragDgramSize full m3 s = Some (0, sz AND 0x7ff) \<and>
       getFragDgramTag full m3 u = Some (0, tag) \<and> getFragDgramOffset full m3 v = Some (0, off))"
proof -
  obtain d d1 p t where 1: "p = mesh_bcast_len full (lm_headers m)" "ma = put_data m d1"
    "length d1 = length d" "frag_fields d1 p = (fst (frag_fields d p), sz AND 0x7ff, t)"
    "fst (frag_fields d p) \<in> set frag_patterns"
    using setFragDgramSize_fields [OF assms(1)] by blast
  obtain d2 where 2: "mb = put_data m d2" "p + 3 < length d2"
    "frag_fields d2 p = (fst (frag_fields d p), sz AND 0x7ff, tag)"
    using setFragDgramTag_fields [OF assms(2)] 1 by (auto simp: put_data_def)
  have "getFragDgramSize full m3 s = Some (0, sz AND 0x7ff)" "getFragDgramTag full m3 u = Some (0, tag)"
    "getFragDgramOffset full m3 v = Some (0, off)"
    if prems: "setFragDgramOffset full mb off = Some (0, m3)" for off m3
  proof -
    obtain d3 where 3: "m3 = put_data m d3" "p + 4 < length d3" "frag_fields d3 p = frag_fields d2 p"
      "d3 ! (p + 4) = off" "fst (frag_fields d2 p) = LOWPAN_FRAGN_PATTERN"
      using setFragDgramOffset_fields [of full mb off m3] prems 1 2 by (auto simp: put_data_def)
    show "getFragDgramSize full m3 s = Some (0, sz AND 0x7ff)" "getFragDgramTag full m3 u = Some (0, tag)"
      using 1 2 3 by (auto intro!: frag_get_fields)
    show "getFragDgramOffset full m3 v = Some (0, off)"
      using 1 2 3 by (auto simp: getFragDgramOffset_def with_frag_Some rd8_def frag_fields_def)
  qed
  moreover have "getFragDgramSize full mb s = Some (0, sz AND 0x7ff)"
    "getFragDgramTag full mb u = Some (0, tag)"
    using 1 2 by (auto intro!: frag_get_fields)
  ultimately show ?thesis by blast
qed

theorem frag_header_roundtrip_witness:
  "getFragDgramTag False (put_data \<lparr>lm_headers = 8, lm_len = 5, lm_data = None\<rparr>
     [0xe4, 0xd2, 0xab, 0xcd, 0]) 0 = Some (0, 0xabcd)"
  using frag_header_roundtrip [where full = False and m = "\<lparr>lm_headers = 8, lm_len = 5, lm_data = Some [0xe0, 0, 0, 0, 0]\<rparr>"
      and sz = "0x4d2" and ma = "put_data \<lparr>lm_headers = 8, lm_len = 5, lm_data = None\<rparr> [0xe4, 0xd2, 0, 0, 0]" and tag = "0xabcd"
      and mb = "put_data \<lparr>lm_headers = 8, lm_len = 5, lm_data = None\<rparr> [0xe4, 0xd2, 0xab, 0xcd, 0]" and u = 0]
  by (simp add: setFragDgramSize_def setFragDgramTag_def with_frag_def mesh_bcast_len_def rd8_def
      wrn_def put_data_def lowpan_patterns lowpan_lengths Let_def)

end
