(* ===== verification/LowpanPack.thy ===== *)
theory LowpanPack
  imports LowpanTypes
begin

text \<open>
  Header compression of \<open>lib6lowpan/lib6lowpan.c\<close>, the packing half (RFC 6282). Each function
  writes at a position of the output object, whose length the code never checks: None is a write
  past its end. The dispatch octets and flags the C functions update through pointers are
  returned.
\<close>

section \<open>Helpers\<close>

definition IS_LINKLOCAL :: "in6_addr \<Rightarrow> bool" where
  "IS_LINKLOCAL addr \<longleftrightarrow>
     s6_addr16 addr 0 = htons 0xfe80 \<and> s6_addr16 addr 1 = 0 \<and> s6_addr16 addr 2 = 0 \<and>
     s6_addr16 addr 3 = 0"

definition IS_UNSPECIFIED :: "in6_addr \<Rightarrow> bool" where
  "IS_UNSPECIFIED addr \<longleftrightarrow> (\<forall>i < 8. s6_addr16 addr i = 0)"

text \<open>The context functions an application supplies, with the library's own defaults.\<close>

definition lowpan_extern_read_context :: "in6_addr \<Rightarrow> int \<Rightarrow> int \<times> in6_addr" where
  "lowpan_extern_read_context addr context = (-1, addr)"

definition lowpan_extern_match_context :: "in6_addr \<Rightarrow> int" where
  "lowpan_extern_match_context addr = 0"

definition iid_eui_cmp :: "bytes \<Rightarrow> bytes \<Rightarrow> bool" where
  "iid_eui_cmp iid eui \<longleftrightarrow>
     iid ! 0 = eui ! 7 XOR 0x2 \<and> iid ! 1 = eui ! 6 \<and> iid ! 2 = eui ! 5 \<and> iid ! 3 = eui ! 4 \<and>
     iid ! 4 = eui ! 3 \<and> iid ! 5 = eui ! 2 \<and> iid ! 6 = eui ! 1 \<and> iid ! 7 = eui ! 0"

text \<open>0 when the bits of the range are zero, -1 otherwise, as the code tests them; the ranges it is
  called with are not negative. None: a byte outside \<open>buf\<close> is read.\<close>

fun bytes_zero_p :: "bytes \<Rightarrow> nat list \<Rightarrow> int option" where
  "bytes_zero_p buf [] = Some 0"
| "bytes_zero_p buf (i # is) =
     (case rd8 buf i of None \<Rightarrow> None
      | Some b \<Rightarrow> if b \<noteq> 0 then Some (-1) else bytes_zero_p buf is)"

definition bit_range_zero_p :: "bytes \<Rightarrow> nat \<Rightarrow> nat \<Rightarrow> int option" where
  "bit_range_zero_p buf start stop =
     (let start_byte = start div 8;
          end_byte = stop div 8;
          start_mask = push_bit (8 - start mod 8) 0xff :: u8;
          end_mask = push_bit (8 - stop mod 8) 0xff :: u8
      in do {
        s \<leftarrow> rd8 buf start_byte;
        if s AND start_mask \<noteq> 0 then Some (-1)
        else do {
          e \<leftarrow> rd8 buf end_byte;
          if e AND end_mask \<noteq> 0 then Some (-1)
          else bytes_zero_p buf [start_byte..<end_byte]
        }
      })"

section \<open>Packing the fields of the IPv6 header\<close>

definition emit_bytes :: "bytes \<Rightarrow> nat \<Rightarrow> bytes \<Rightarrow> 'a \<Rightarrow> (bytes \<times> nat \<times> 'a) option" where
  "emit_bytes buf p bs x = map_option (\<lambda>b. (b, p + length bs, x)) (wrn buf p bs)"

definition pack_tcfl :: "bytes \<Rightarrow> nat \<Rightarrow> ip6_hdr \<Rightarrow> u8 \<Rightarrow> (bytes \<times> nat \<times> u8) option" where
  "pack_tcfl buf p hdr dispatch =
     (let flow = ntohl (ip6_flow hdr) AND 0x000fffff;
          tc = ucast (drop_bit 20 (ntohl (ip6_flow hdr)) AND 0xff) :: u8
      in if flow = 0 \<and> tc = 0 then Some (buf, p, dispatch OR LOWPAN_IPHC_TF_NONE)
         else if flow = 0 then
           emit_bytes buf p [drop_bit 2 tc OR push_bit 6 tc] (dispatch OR LOWPAN_IPHC_TF_ECN_DSCP)
         else if tc AND 0x3 = tc then
           emit_bytes buf p
             [push_bit 6 tc OR (ucast (drop_bit 16 flow) AND 0x0f), ucast (drop_bit 8 flow),
              ucast flow]
             (dispatch OR LOWPAN_IPHC_TF_ECN_FL)
         else
           emit_bytes buf p
             [drop_bit 2 tc OR push_bit 6 tc, ucast (drop_bit 16 flow) AND 0x0f,
              ucast (drop_bit 8 flow), ucast flow]
             (dispatch OR LOWPAN_IPHC_TF_ECN_DSCP_FL))"

definition nhc_header :: "u8 \<Rightarrow> bool" where
  "nhc_header nxt \<longleftrightarrow>
     nxt = IPV6_HOP \<or> nxt = IPV6_ROUTING \<or> nxt = IPV6_FRAG \<or> nxt = IPV6_DEST \<or>
     nxt = IPV6_MOBILITY \<or> nxt = IPV6_IPV6"

definition pack_nh :: "bytes \<Rightarrow> nat \<Rightarrow> ip6_hdr \<Rightarrow> u8 \<Rightarrow> (bytes \<times> nat \<times> u8) option" where
  "pack_nh buf p hdr dispatch =
     (if nhc_header (ip6_nxt hdr) \<or> ip6_nxt hdr = IANA_UDP
      then Some (buf, p, dispatch OR LOWPAN_IPHC_NH_MASK)
      else emit_bytes buf p [ip6_nxt hdr] dispatch)"

definition pack_hlim :: "bytes \<Rightarrow> nat \<Rightarrow> ip6_hdr \<Rightarrow> u8 \<Rightarrow> (bytes \<times> nat \<times> u8) option" where
  "pack_hlim buf p hdr dispatch =
     (if ip6_hlim hdr = 1 then Some (buf, p, dispatch OR LOWPAN_IPHC_HLIM_1)
      else if ip6_hlim hdr = 64 then Some (buf, p, dispatch OR LOWPAN_IPHC_HLIM_64)
      else if ip6_hlim hdr = 255 then Some (buf, p, dispatch OR LOWPAN_IPHC_HLIM_255)
      else emit_bytes buf p [ip6_hlim hdr] (dispatch OR LOWPAN_IPHC_HLIM_NONE))"

definition pack_linklocal ::
  "bytes \<Rightarrow> nat \<Rightarrow> in6_addr \<Rightarrow> ieee154_addr \<Rightarrow> (bytes \<times> nat \<times> u8) option" where
  "pack_linklocal buf p addr l2addr =
     (if s6_addr16 addr 4 = 0 \<and> s6_addr16 addr 5 = 0 \<and> s6_addr16 addr 6 = 0 then
        emit_bytes buf p (take 2 (drop 14 addr)) LOWPAN_IPHC_AM_16
      else if (s6_addr16 addr 5 = htons 0x00ff \<and> s6_addr16 addr 6 = htons 0xfe00 \<and>
               a_mode l2addr = IEEE154_ADDR_SHORT \<and>
               s6_addr16 addr 7 = htons (letohs (i_saddr l2addr))) \<or>
              (a_mode l2addr = IEEE154_ADDR_EXT \<and> iid_eui_cmp (drop 8 addr) (i_laddr l2addr)) then
        Some (buf, p, LOWPAN_IPHC_AM_0)
      else emit_bytes buf p (take 8 (drop 8 addr)) LOWPAN_IPHC_AM_64)"

definition pack_with_context ::
  "bytes \<Rightarrow> nat \<Rightarrow> in6_addr \<Rightarrow> nat \<Rightarrow> ieee154_addr \<Rightarrow> (bytes \<times> nat \<times> u8) option" where
  "pack_with_context buf p addr context_match_len l2addr =
     (if context_match_len = 128 then Some (buf, p, LOWPAN_IPHC_AC_CONTEXT OR LOWPAN_IPHC_AM_0)
      else do {
        z112 \<leftarrow> bit_range_zero_p addr context_match_len 112;
        if z112 = 0 then
          emit_bytes buf p (take 2 (drop 14 addr)) (LOWPAN_IPHC_AC_CONTEXT OR LOWPAN_IPHC_AM_16)
        else do {
          z64 \<leftarrow> bit_range_zero_p addr context_match_len 64;
          if z64 = 0 then
            if a_mode l2addr = IEEE154_ADDR_EXT \<and> iid_eui_cmp (drop 8 addr) (i_laddr l2addr)
            then Some (buf, p, LOWPAN_IPHC_AC_CONTEXT OR LOWPAN_IPHC_AM_0)
            else emit_bytes buf p (take 8 (drop 8 addr))
                   (LOWPAN_IPHC_AC_CONTEXT OR LOWPAN_IPHC_AM_64)
          else emit_bytes buf p (take 16 addr)
                 ((LOWPAN_IPHC_AC_CONTEXT OR LOWPAN_IPHC_AM_128) AND NOT LOWPAN_IPHC_AC_CONTEXT)
        }
      })"

text \<open>Non-multicast addresses. \<open>context_match_len\<close> is the (unsigned) length its caller passes.\<close>

definition pack_address ::
  "bytes \<Rightarrow> nat \<Rightarrow> in6_addr \<Rightarrow> nat \<Rightarrow> ieee154_addr \<Rightarrow> (bytes \<times> nat \<times> u8) option" where
  "pack_address buf p addr context_match_len l2addr =
     (if IS_LINKLOCAL addr then pack_linklocal buf p addr l2addr
      else if 0 < context_match_len then pack_with_context buf p addr context_match_len l2addr
      else if IS_UNSPECIFIED addr then
        Some (buf, p, LOWPAN_IPHC_AC_CONTEXT OR LOWPAN_IPHC_AM_128)
      else emit_bytes buf p (take 16 addr) LOWPAN_IPHC_AM_128)"

definition pack_multicast :: "bytes \<Rightarrow> nat \<Rightarrow> in6_addr \<Rightarrow> (bytes \<times> nat \<times> u8) option" where
  "pack_multicast buf p addr = do {
     z120 \<leftarrow> (if s6_addr16 addr 0 = htons 0xff02 then bit_range_zero_p addr 16 120 else Some (-1));
     if z120 = 0 then emit_bytes buf p [addr ! 15] LOWPAN_IPHC_AM_M_8
     else do {
       z104 \<leftarrow> bit_range_zero_p addr 16 104;
       if z104 = 0 then emit_bytes buf p (addr ! 1 # take 3 (drop 13 addr)) LOWPAN_IPHC_AM_M_32
       else do {
         z88 \<leftarrow> bit_range_zero_p addr 16 88;
         if z88 = 0 then emit_bytes buf p (addr ! 1 # take 5 (drop 11 addr)) LOWPAN_IPHC_AM_M_48
         else emit_bytes buf p (take 16 addr) LOWPAN_IPHC_AM_M_128
       }
     }
   }"

section \<open>Packing the header chain\<close>

text \<open>The results are the code's int, the output object, and the pointer into it with the room left.\<close>

definition pack_nhc_udp ::
  "bytes \<Rightarrow> cursor \<Rightarrow> ip6_packet \<Rightarrow> int \<Rightarrow> (int \<times> bytes \<times> cursor) option" where
  "pack_nhc_udp dest c packet offset =
     (if c_len c < 7 then Some (-1, dest, c)
      else do {
        (n, udp) \<leftarrow> iov_read (ip6_data packet) offset (int sizeof_udp_hdr) (replicate sizeof_udp_hdr 0);
        if n \<noteq> int sizeof_udp_hdr then Some (-1, dest, c)
        else do {
          d1 \<leftarrow> wr8 dest (c_pos c) (LOWPAN_NHC_UDP_PATTERN OR LOWPAN_NHC_UDP_PORT_FULL);
          d2 \<leftarrow> wrn d1 (c_pos c + 1) (take 4 udp);
          d3 \<leftarrow> wrn d2 (c_pos c + 5) (take 2 (drop 6 udp));
          Some (int sizeof_udp_hdr, d3, advance 7 c)
        }
      })"

text \<open>The loop of \<open>__ipnh_real_length\<close> over the options: it ends with the offsets reached, or with the
  result the function returns early; each round moves on by at least one byte.\<close>

function tlv_loop :: "iovec list \<Rightarrow> int \<Rightarrow> int \<Rightarrow> int \<Rightarrow> (u8 + int \<times> int) option" where
  "tlv_loop pkt stop offset end_offset =
     (if stop \<le> offset then Some (Inr (offset, end_offset))
      else case iov_read pkt offset 2 [0, 0] of
        None \<Rightarrow> None
      | Some (n, tlv) \<Rightarrow>
          if n \<noteq> 2 then Some (Inl (of_int (-1)))
          else if tlv ! 0 = IPV6_TLV_PAD1 then tlv_loop pkt stop (offset + 1) end_offset
          else
            let offset' = offset + 2 + uint (tlv ! 1)
            in tlv_loop pkt stop offset' (if tlv ! 0 \<noteq> IPV6_TLV_PADN then offset' else end_offset))"
  by pat_completeness auto
termination
  by (relation "measure (\<lambda>(pkt, stop, offset, end_offset). nat (stop - offset))")
    (auto intro: less_le_trans [of _ 0])

declare tlv_loop.simps [simp del]

definition ipnh_real_length :: "u8 \<Rightarrow> iovec list \<Rightarrow> int \<Rightarrow> u8 option" where
  "ipnh_real_length type pkt offset = do {
     (n, ext) \<leftarrow> iov_read pkt offset 2 [0, 0];
     if n \<noteq> 2 then Some 0
     else
       let ext_bytes = (uint (ext ! 1) + 1) * 8
       in if type \<noteq> IPV6_HOP \<and> type \<noteq> IPV6_DEST then Some (of_int ext_bytes)
          else do {
            r \<leftarrow> tlv_loop pkt (ext_bytes + offset) (offset + 2) (offset + 2);
            Some (case r of
                Inl rc \<Rightarrow> rc
              | Inr (off, end_offset) \<Rightarrow>
                  if off - offset \<noteq> ext_bytes then 0 else of_int (end_offset - offset))
          }
   }"

definition nhc_eid :: "u8 \<Rightarrow> u8 option" where
  "nhc_eid type =
     (if type = IPV6_HOP then Some LOWPAN_NHC_EID_HOP
      else if type = IPV6_ROUTING then Some LOWPAN_NHC_EID_ROUTING
      else if type = IPV6_FRAG then Some LOWPAN_NHC_EID_FRAG
      else if type = IPV6_DEST then Some LOWPAN_NHC_EID_DEST
      else if type = IPV6_MOBILITY then Some LOWPAN_NHC_EID_MOBILE
      else None)"

text \<open>Room is counted by a \<open>size_t\<close>, which wraps below zero.\<close>

definition advance_size_t :: "nat \<Rightarrow> cursor \<Rightarrow> cursor" where
  "advance_size_t n c =
     \<lparr>c_pos = c_pos c + n, c_len = to_size_t (int (c_len c) - int n)\<rparr>"

text \<open>The result also has the type of the next header, the out-parameter \<open>type\<close>. The payload is read
  straight into the output: \<open>iov_read\<close> with the object from the pointer on.\<close>

definition pack_nhc_ipv6_ext ::
  "bytes \<Rightarrow> cursor \<Rightarrow> u8 \<Rightarrow> ip6_packet \<Rightarrow> int \<Rightarrow> (int \<times> bytes \<times> cursor \<times> u8) option" where
  "pack_nhc_ipv6_ext dest c type packet offset = do {
     (n, ext) \<leftarrow> iov_read (ip6_data packet) offset 2 [0, 0];
     if n \<noteq> 2 then Some (-1, dest, c, type)
     else if c_len c < unat (ext ! 1) then Some (-1, dest, c, type)
     else do {
       d0 \<leftarrow> wr8 dest (c_pos c) LOWPAN_NHC_IPV6_PATTERN;
       case nhc_eid type of
         None \<Rightarrow> Some (-1, d0, c, type)
       | Some eid \<Rightarrow> do {
           d1 \<leftarrow> wr8 d0 (c_pos c) (LOWPAN_NHC_IPV6_PATTERN OR eid);
           real_len \<leftarrow> ipnh_real_length type (ip6_data packet) offset;
           if real_len = 0 then Some (-1, d1, c, type)
           else
             let nxt = ext ! 0
             in do {
               (d2, c2) \<leftarrow>
                 (if nhc_header nxt \<or> nxt = IANA_UDP then
                    map_option (\<lambda>d. (d, c))
                      (wr8 d1 (c_pos c) (LOWPAN_NHC_IPV6_PATTERN OR eid OR LOWPAN_NHC_NH))
                  else
                    map_option (\<lambda>d. (d, advance_size_t 1 c)) (wr8 d1 (c_pos c + 1) nxt));
               let c3 = advance_size_t 1 c2;
               d3 \<leftarrow> wr8 d2 (c_pos c3) (real_len - 2);
               let c4 = advance_size_t 1 c3;
               (m, body) \<leftarrow> iov_read (ip6_data packet) (offset + 2) (uint real_len - 2)
                 (drop (c_pos c4) d3);
               let d4 = take (c_pos c4) d3 @ body;
               if m \<noteq> uint real_len - 2 then Some (-1, d4, c4, nxt)
               else Some ((uint (ext ! 1) + 1) * 8, d4, advance_size_t (nat (uint real_len - 2)) c4,
                          nxt)
             }
         }
     }
   }"

text \<open>The loop of \<open>pack_nhc_chain\<close>: each round moves the offset by at least eight, so it ends when the
  packet does; \<open>fuel\<close> bounds its rounds, and None stands for running out of it.\<close>

fun nhc_chain_loop :: "nat \<Rightarrow> bytes \<Rightarrow> cursor \<Rightarrow> u8 \<Rightarrow> ip6_packet \<Rightarrow> int
    \<Rightarrow> (int \<times> bytes \<times> cursor \<times> u8) option" where
  "nhc_chain_loop 0 dest c nxt packet offset = None"
| "nhc_chain_loop (Suc fuel) dest c nxt packet offset =
     (if nhc_header nxt then
        case pack_nhc_ipv6_ext dest c nxt packet offset of
          None \<Rightarrow> None
        | Some (rv, dest', c', nxt') \<Rightarrow>
            if rv < 0 then Some (-1, dest', c', nxt')
            else nhc_chain_loop fuel dest' c' nxt' packet (offset + rv)
      else Some (offset, dest, c, nxt))"

definition pack_nhc_chain :: "bytes \<Rightarrow> cursor \<Rightarrow> ip6_packet \<Rightarrow> (int \<times> bytes \<times> cursor) option" where
  "pack_nhc_chain dest c packet = do {
     (offset, d1, c1, nxt) \<leftarrow>
       nhc_chain_loop (length (iov_bytes (ip6_data packet)) + 2) dest c (ip6_nxt (ip6_hdr packet))
         packet 0;
     if offset < 0 then Some (-1, d1, c1)
     else if nxt = IANA_UDP then do {
       (rv, d2, c2) \<leftarrow> pack_nhc_udp d1 c1 packet offset;
       Some (if rv < 0 then -1 else offset + rv, d2, c2)
     }
     else Some (offset, d1, c1)
   }"

text \<open>
  Packing the IPv6 header at \<open>p\<close>: the result is the output object and the pointer past the
  packed header, \<open>Inl\<close> when the version is wrong and NULL is returned. \<open>match\<close> is
  \<open>lowpan_extern_match_context\<close>, whose int result is stored in a \<open>uint8_t\<close>.
\<close>

definition lowpan_pack_headers ::
  "(in6_addr \<Rightarrow> int) \<Rightarrow> ip6_packet \<Rightarrow> ieee154_frame_addr \<Rightarrow> bytes \<Rightarrow> nat
    \<Rightarrow> (unit + bytes \<times> nat) option" where
  "lowpan_pack_headers match packet frame buf p =
     (let hdr = ip6_hdr packet
      in if ip6_vfc hdr AND IPV6_VERSION_MASK \<noteq> IPV6_VERSION then Some (Inl ())
         else do {
           b0 \<leftarrow> wrn buf p [LOWPAN_DISPATCH_BYTE_VAL, 0];
           (b1, p1, disp1) \<leftarrow> pack_tcfl b0 (p + 2) hdr LOWPAN_DISPATCH_BYTE_VAL;
           (b2, p2, disp2) \<leftarrow> pack_nh b1 p1 hdr disp1;
           (b3, p3, disp3) \<leftarrow> pack_hlim b2 p2 hdr disp2;
           b4 \<leftarrow> wr8 b3 p disp3;
           (b5, p5, sflags) \<leftarrow> pack_address b4 p3 (ip6_src hdr)
             (unat (of_int (match (ip6_src hdr)) :: u8)) (ieee_src frame);
           let addressing = push_bit LOWPAN_IPHC_SAM_SHIFT sflags;
           b6 \<leftarrow> wr8 b5 (p + 1) addressing;
           if ip6_dst hdr ! 0 \<noteq> 0xff then do {
             (b7, p7, dflags) \<leftarrow> pack_address b6 p5 (ip6_dst hdr)
               (unat (of_int (match (ip6_dst hdr)) :: u8)) (ieee_dst frame);
             b8 \<leftarrow> wr8 b7 (p + 1) (addressing OR push_bit LOWPAN_IPHC_DAM_SHIFT dflags);
             Some (Inr (b8, p7))
           }
           else do {
             (b7, p7, dflags) \<leftarrow> pack_multicast b6 p5 (ip6_dst hdr);
             b8 \<leftarrow> wr8 b7 (p + 1)
               (addressing OR (push_bit LOWPAN_IPHC_DAM_SHIFT dflags OR LOWPAN_IPHC_AM_M));
             Some (Inr (b8, p7))
           }
         })"

end
