(* ===== verification/LowpanUnpack.thy ===== *)
theory LowpanUnpack
  imports LowpanPack
begin

text \<open>
  Header decompression of \<open>lib6lowpan/lib6lowpan.c\<close> (RFC 6282): from a received buffer, a byte
  object with a cursor, into the reconstruction buffer, a part of a memory object. Results carry
  the C int the function returns; None is an access outside an object.
\<close>

section \<open>State\<close>

record unpack_state =
  us_mem :: bytes
  us_dest :: cursor
  us_cur :: cursor
  us_recon :: lowpan_reconstruct
  us_recalc :: u8

type_synonym unpack_res = "(int \<times> unpack_state) option"

text \<open>The idiom \<open>ret = f(...); if (ret < 0) return ret;\<close>.\<close>

definition then_ok :: "unpack_res \<Rightarrow> (unpack_state \<Rightarrow> unpack_res) \<Rightarrow> unpack_res" where
  "then_ok r f = (case r of None \<Rightarrow> None | Some (ret, s) \<Rightarrow> if ret < 0 then Some (ret, s) else f s)"

definition store :: "nat \<Rightarrow> bytes \<Rightarrow> unpack_state \<Rightarrow> unpack_state option" where
  "store i bs s = map_option (\<lambda>m. s\<lparr>us_mem := m\<rparr>) (wrn (us_mem s) i bs)"

definition eat :: "nat \<Rightarrow> unpack_state \<Rightarrow> unpack_state" where
  "eat n s = s\<lparr>us_cur := advance n (us_cur s)\<rparr>"

definition fill :: "nat \<Rightarrow> unpack_state \<Rightarrow> unpack_state" where
  "fill n s = s\<lparr>us_dest := advance n (us_dest s)\<rparr>"

abbreviation in_len :: "unpack_state \<Rightarrow> nat" where "in_len s \<equiv> c_len (us_cur s)"

text \<open>The byte \<open>(*buf)[k]\<close>, and a run of bytes from \<open>*buf\<close>.\<close>

definition peek :: "bytes \<Rightarrow> unpack_state \<Rightarrow> nat \<Rightarrow> u8 option" where
  "peek buf s k = rd8 buf (c_pos (us_cur s) + k)"

definition peek_n :: "bytes \<Rightarrow> unpack_state \<Rightarrow> nat \<Rightarrow> bytes option" where
  "peek_n buf s n = rdn buf (c_pos (us_cur s)) n"

section \<open>Fields of the IPv6 header\<close>

definition unpack_context ::
  "u8 \<Rightarrow> bytes \<Rightarrow> unpack_state \<Rightarrow> (int \<times> (int \<times> int) \<times> unpack_state) option" where
  "unpack_context dispatch buf s =
     (if dispatch AND LOWPAN_IPHC_CID_MASK = LOWPAN_IPHC_CID_PRESENT then
        if in_len s < 1 then Some (-1, (0, 0), s)
        else map_option
          (\<lambda>b. (0, (uint (drop_bit 4 b AND 0xf), uint (b AND 0xf)), eat 1 s)) (peek buf s 0)
      else Some (0, (0, 0), s))"

text \<open>The flow word from the traffic class and the three flow label octets.\<close>

definition tcfl_word :: "u8 \<Rightarrow> u8 \<Rightarrow> u8 \<Rightarrow> u8 \<Rightarrow> u32" where
  "tcfl_word tc fl2 fl1 fl0 =
     htonl (push_bit 28 0x6 OR push_bit 20 (ucast tc) OR push_bit 16 (ucast fl2) OR
            push_bit 8 (ucast fl1) OR ucast fl0)"

definition unpack_tcfl :: "nat \<Rightarrow> u8 \<Rightarrow> bytes \<Rightarrow> unpack_state \<Rightarrow> unpack_res" where
  "unpack_tcfl hdr dispatch buf s =
     (let tf = dispatch AND LOWPAN_IPHC_TF_MASK;
          put = (\<lambda>w s'. map_option (Pair 0) (store hdr (st32 w) s'))
      in if tf = LOWPAN_IPHC_TF_ECN_DSCP then
           if in_len s < 1 then Some (-1, s)
           else do {
             b \<leftarrow> peek_n buf s 1;
             put (tcfl_word (drop_bit 6 (b ! 0) OR push_bit 2 (b ! 0)) 0 0 0) (eat 1 s)
           }
         else if tf = LOWPAN_IPHC_TF_ECN_FL then
           if in_len s < 3 then Some (-1, s)
           else do {
             b \<leftarrow> peek_n buf s 3;
             put (tcfl_word (drop_bit 6 (b ! 0)) (b ! 0 AND 0x0f) (b ! 1) (b ! 2)) (eat 3 s)
           }
         else if tf = LOWPAN_IPHC_TF_ECN_DSCP_FL then
           if in_len s < 4 then Some (-1, s)
           else do {
             b \<leftarrow> peek_n buf s 4;
             put (tcfl_word (drop_bit 6 (b ! 0) OR push_bit 2 (b ! 0)) (b ! 1 AND 0x0f)
                   (b ! 2) (b ! 3)) (eat 4 s)
           }
         else put (tcfl_word 0 0 0 0) s)"

definition unpack_nh :: "nat \<Rightarrow> u8 \<Rightarrow> bytes \<Rightarrow> unpack_state \<Rightarrow> unpack_res" where
  "unpack_nh hdr dispatch buf s =
     (if dispatch AND LOWPAN_IPHC_NH_MASK = LOWPAN_IPHC_NH_INLINE then
        if in_len s < 1 then Some (-1, s)
        else do { b \<leftarrow> peek buf s 0; map_option (Pair 0) (store (hdr + 6) [b] (eat 1 s)) }
      else Some (0, s))"

definition unpack_hlim :: "nat \<Rightarrow> u8 \<Rightarrow> bytes \<Rightarrow> unpack_state \<Rightarrow> unpack_res" where
  "unpack_hlim hdr dispatch buf s =
     (let hl = dispatch AND LOWPAN_IPHC_HLIM_MASK
      in if hl = LOWPAN_IPHC_HLIM_1 then map_option (Pair 0) (store (hdr + 7) [1] s)
         else if hl = LOWPAN_IPHC_HLIM_64 then map_option (Pair 0) (store (hdr + 7) [64] s)
         else if hl = LOWPAN_IPHC_HLIM_255 then map_option (Pair 0) (store (hdr + 7) [255] s)
         else if in_len s < 1 then Some (-1, s)
         else do { b \<leftarrow> peek buf s 0; map_option (Pair 0) (store (hdr + 7) [b] (eat 1 s)) })"

section \<open>Addresses\<close>

text \<open>The interface identifier made from an extended address: reversed, universal bit flipped.\<close>

definition eui_iid :: "ieee154_addr \<Rightarrow> bytes" where
  "eui_iid frame = (let r = rev (i_laddr frame) in r[0 := r ! 0 XOR 0x2])"

definition set_iid :: "in6_addr \<Rightarrow> bytes \<Rightarrow> in6_addr" where
  "set_iid addr iid = take 8 addr @ iid"

definition set_word7 :: "in6_addr \<Rightarrow> u16 \<Rightarrow> in6_addr" where
  "set_word7 addr w = addr[14 := st16 w ! 0, 15 := st16 w ! 1]"

definition link_local_zero :: in6_addr where
  "link_local_zero = st16 (htons 0xfe80) @ replicate 14 0"

text \<open>An address read from the buffer and written by \<open>put\<close>.\<close>

definition addr_inline :: "nat \<Rightarrow> (bytes \<Rightarrow> in6_addr) \<Rightarrow> in6_addr \<Rightarrow> bytes \<Rightarrow> unpack_state
    \<Rightarrow> (int \<times> in6_addr \<times> unpack_state) option" where
  "addr_inline n put addr buf s =
     (if in_len s < n then Some (-1, addr, s)
      else map_option (\<lambda>bs. (0, put bs, eat n s)) (peek_n buf s n))"

definition unpack_address :: "(in6_addr \<Rightarrow> int \<Rightarrow> int \<times> in6_addr) \<Rightarrow> u8 \<Rightarrow> int \<Rightarrow> bytes
    \<Rightarrow> ieee154_addr \<Rightarrow> unpack_state \<Rightarrow> (int \<times> in6_addr \<times> unpack_state) option" where
  "unpack_address read_ctx dispatch context buf frame s =
     (let zero = replicate 16 0; am = dispatch AND LOWPAN_IPHC_AM_MASK
      in if dispatch AND LOWPAN_IPHC_AC_CONTEXT = 0 then
           if am = LOWPAN_IPHC_AM_128 then addr_inline 16 (\<lambda>bs. bs) zero buf s
           else if am = LOWPAN_IPHC_AM_64 then
             addr_inline 8 (set_iid link_local_zero) zero buf s
           else if am = LOWPAN_IPHC_AM_16 then
             addr_inline 2 (\<lambda>bs. take 14 link_local_zero @ bs) zero buf s
           else if a_mode frame = IEEE154_ADDR_EXT then
             Some (0, set_iid link_local_zero (eui_iid frame), s)
           else
             Some (0, set_word7 (link_local_zero[11 := 0xff, 12 := 0xfe])
                        (leton16 (i_saddr frame)), s)
         else if am = LOWPAN_IPHC_AM_128 then Some (0, zero, s)
         else
           let (ctxlen, addr) = read_ctx zero context;
               s1 = s\<lparr>us_recalc := 1\<rparr>
           in if am = LOWPAN_IPHC_AM_64 then addr_inline 8 (set_iid addr) addr buf s1
              else if am = LOWPAN_IPHC_AM_16 then
                addr_inline 2 (\<lambda>bs. take 14 addr @ bs) addr buf s1
              else if ctxlen \<le> 64 \<and> a_mode frame = IEEE154_ADDR_EXT then
                Some (0, set_iid addr (eui_iid frame), s1)
              else if ctxlen \<le> 112 then
                Some (0, set_word7 (take 8 addr @ replicate 8 0) (leton16 (i_saddr frame)), s1)
              else Some (0, addr, s1))"

definition unpack_multicast ::
  "u8 \<Rightarrow> bytes \<Rightarrow> unpack_state \<Rightarrow> (int \<times> in6_addr \<times> unpack_state) option" where
  "unpack_multicast dispatch buf s =
     (let zero = replicate 16 0;
          am = dispatch AND LOWPAN_IPHC_AM_MASK;
          copy = (\<lambda>amount. addr_inline (amount + 1)
                    (\<lambda>bs. [0xff, bs ! 0] @ replicate (14 - amount) 0 @ drop 1 bs) zero buf s)
      in if dispatch AND LOWPAN_IPHC_AC_CONTEXT = 0 then
           if am = LOWPAN_IPHC_AM_M_128 then addr_inline 16 (\<lambda>bs. bs) zero buf s
           else if am = LOWPAN_IPHC_AM_M_48 then copy 5
           else if am = LOWPAN_IPHC_AM_M_32 then copy 3
           else addr_inline 1 (\<lambda>bs. st16 (htons 0xff02) @ replicate 13 0 @ bs) zero buf s
         else Some (-2, zero, s))"

text \<open>Storing the address at its place in the header, whatever the result.\<close>

definition store_addr ::
  "nat \<Rightarrow> (int \<times> in6_addr \<times> unpack_state) option \<Rightarrow> unpack_res" where
  "store_addr i r = do { (ret, addr, s) \<leftarrow> r; map_option (Pair ret) (store i addr s) }"

section \<open>Compressed next headers\<close>

definition unpack_udp_ports :: "nat \<Rightarrow> u8 \<Rightarrow> bytes \<Rightarrow> unpack_state \<Rightarrow> unpack_res" where
  "unpack_udp_ports udp dispatch buf s =
     (let pm = dispatch AND LOWPAN_NHC_UDP_PORT_MASK;
          put = (\<lambda>src dst n. map_option (Pair 0)
                   (Option.bind (store udp (st16 (htons src)) s)
                     (\<lambda>s1. store (udp + 2) (st16 (htons dst)) (eat n s1))))
      in if pm = LOWPAN_NHC_UDP_PORT_FULL then
           if in_len s < 4 then Some (-1, s)
           else do { b \<leftarrow> peek_n buf s 4; put (be16 (b ! 0) (b ! 1)) (be16 (b ! 2) (b ! 3)) 4 }
         else if pm = LOWPAN_NHC_UDP_PORT_SRC_FULL then
           if in_len s < 3 then Some (-1, s)
           else do { b \<leftarrow> peek_n buf s 3; put (be16 (b ! 0) (b ! 1)) (be16 0xF0 (b ! 2)) 3 }
         else if pm = LOWPAN_NHC_UDP_PORT_DST_FULL then
           if in_len s < 3 then Some (-1, s)
           else do { b \<leftarrow> peek_n buf s 3; put (be16 0xF0 (b ! 0)) (be16 (b ! 1) (b ! 2)) 3 }
         else if in_len s < 1 then Some (-1, s)
         else do {
           b \<leftarrow> peek_n buf s 1;
           put (0xF0B0 OR ucast (drop_bit 4 (b ! 0))) (0xF0B0 OR ucast (b ! 0 AND 0xf)) 1
         })"

definition unpack_nhc_udp :: "nat \<Rightarrow> u8 \<Rightarrow> bytes \<Rightarrow> unpack_state \<Rightarrow> unpack_res" where
  "unpack_nhc_udp nxt_hdr dispatch buf s =
     (let udp = c_pos (us_dest s)
      in if c_len (us_dest s) < sizeof_udp_hdr then Some (-2, s)
         else do {
           s1 \<leftarrow> store nxt_hdr [IANA_UDP] (fill sizeof_udp_hdr s);
           s2 \<leftarrow> store (udp + 4) [0, 0, 0, 0] s1;
           then_ok (unpack_udp_ports udp dispatch buf s2) (\<lambda>s3.
             let done = (\<lambda>s'. Some (0, s'\<lparr>us_recon := (us_recon s')\<lparr>r_app_len := Some (udp + 4)\<rparr>\<rparr>))
             in if dispatch AND LOWPAN_NHC_UDP_CKSUM = 0 then
                  if in_len s3 < 2 then Some (-1, s3)
                  else do {
                    b \<leftarrow> peek_n buf s3 2;
                    s4 \<leftarrow> store (udp + 6) (st16 (htons (be16 (b ! 0) (b ! 1)))) s3;
                    done (eat 2 s4)
                  }
                else done s3)
         })"

definition eid_header :: "u8 \<Rightarrow> u8 option" where
  "eid_header dispatch =
     (let eid = dispatch AND LOWPAN_NHC_EID_MASK
      in if eid = LOWPAN_NHC_EID_HOP then Some IPV6_HOP
         else if eid = LOWPAN_NHC_EID_ROUTING then Some IPV6_ROUTING
         else if eid = LOWPAN_NHC_EID_FRAG then Some IPV6_FRAG
         else if eid = LOWPAN_NHC_EID_DEST then Some IPV6_DEST
         else if eid = LOWPAN_NHC_EID_MOBILE then Some IPV6_MOBILITY
         else if eid = LOWPAN_NHC_EID_IPV6 then Some IPV6_IPV6
         else None)"

definition ext_extra :: "nat \<Rightarrow> nat" where
  "ext_extra len = (8 - (len + 2) mod 8) mod 8"

text \<open>The padding option written after the options of a hop-by-hop or destination header.\<close>

definition ext_pad :: "u8 \<Rightarrow> nat \<Rightarrow> unpack_state \<Rightarrow> unpack_state option" where
  "ext_pad type extra s =
     (if type = IPV6_HOP \<or> type = IPV6_DEST then
        if extra = 1 then map_option (fill 1) (store (c_pos (us_dest s)) [IPV6_TLV_PAD1] s)
        else if 1 < extra then
          map_option (fill extra)
            (store (c_pos (us_dest s)) [IPV6_TLV_PADN, of_nat (extra - 2)] s)
        else Some s
      else Some s)"

text \<open>The next header byte when it is carried inline.\<close>

definition ext_inline_nxt :: "nat \<Rightarrow> u8 \<Rightarrow> bytes \<Rightarrow> unpack_state \<Rightarrow> unpack_state option" where
  "ext_inline_nxt ext dispatch buf s =
     (if dispatch AND LOWPAN_NHC_NH = 0
      then do { b \<leftarrow> peek buf s 0; store ext [b] (eat 1 s) } else Some s)"

text \<open>The contents of the extension header, of \<open>len\<close> bytes, its padding and its length field.\<close>

definition ext_contents :: "nat \<Rightarrow> u8 \<Rightarrow> nat \<Rightarrow> nat \<Rightarrow> bytes \<Rightarrow> unpack_state
    \<Rightarrow> (int \<times> nat \<times> unpack_state) option" where
  "ext_contents nxt_hdr dispatch ext len buf s =
     (let extra = ext_extra len
      in if c_len (us_dest s) < len + extra then Some (-2, nxt_hdr, s)
         else if in_len s < len then Some (-1, nxt_hdr, s)
         else do {
           body \<leftarrow> peek_n buf s len;
           s1 \<leftarrow> store (c_pos (us_dest s)) body s;
           hdr_type \<leftarrow> rd8 (us_mem s1) nxt_hdr;
           s2 \<leftarrow> ext_pad hdr_type extra (eat len (fill len s1));
           s3 \<leftarrow> store (ext + 1) [of_nat ((len + 2 + extra) div 8) - 1] s2;
           Some (if dispatch AND LOWPAN_NHC_NH \<noteq> 0 then 1 else 0, ext, s3)
         })"

text \<open>The out-parameter \<open>nxt_hdr\<close>, the place of the next header byte, is part of the result.\<close>

definition unpack_nhc_ipv6_ext :: "nat \<Rightarrow> u8 \<Rightarrow> bytes \<Rightarrow> unpack_state
    \<Rightarrow> (int \<times> nat \<times> unpack_state) option" where
  "unpack_nhc_ipv6_ext nxt_hdr dispatch buf s =
     (let ext = c_pos (us_dest s)
      in if c_len (us_dest s) < sizeof_ip6_ext then Some (-2, nxt_hdr, s)
         else
           let s1 = fill sizeof_ip6_ext s
           in case eid_header dispatch of
                None \<Rightarrow> Some (-3, nxt_hdr, s1)
              | Some type \<Rightarrow> do {
                  s2 \<leftarrow> store nxt_hdr [type] s1;
                  if dispatch AND LOWPAN_NHC_NH = 0 \<and> in_len s2 < 1 then Some (-1, nxt_hdr, s2)
                  else do {
                    s3 \<leftarrow> ext_inline_nxt ext dispatch buf s2;
                    if in_len s3 < 1 then Some (-1, nxt_hdr, s3)
                    else do {
                      len \<leftarrow> peek buf s3 0;
                      ext_contents nxt_hdr dispatch ext (unat len) buf (eat 1 s3)
                    }
                  }
                })"

section \<open>Frames of the state operations\<close>

lemma store_frame:
  "store i bs s = Some s' \<Longrightarrow>
   us_cur s' = us_cur s \<and> us_dest s' = us_dest s \<and> us_recon s' = us_recon s \<and>
   us_recalc s' = us_recalc s \<and> wrn (us_mem s) i bs = Some (us_mem s')"
  by (auto simp: store_def)

lemma eat_simps [simp]:
  "us_mem (eat n s) = us_mem s" "us_dest (eat n s) = us_dest s" "us_recon (eat n s) = us_recon s"
  "us_recalc (eat n s) = us_recalc s" "us_cur (eat n s) = advance n (us_cur s)"
  by (simp_all add: eat_def)

lemma fill_simps [simp]:
  "us_mem (fill n s) = us_mem s" "us_dest (fill n s) = advance n (us_dest s)"
  "us_recon (fill n s) = us_recon s" "us_recalc (fill n s) = us_recalc s"
  "us_cur (fill n s) = us_cur s"
  by (simp_all add: fill_def)

lemma ext_pad_cur: "ext_pad type extra s = Some s' \<Longrightarrow> us_cur s' = us_cur s"
  by (auto simp: ext_pad_def dest!: store_frame split: if_splits)

text \<open>An extension header only consumes input.\<close>

lemma ext_inline_nxt_cur: "ext_inline_nxt ext dispatch buf s = Some s' \<Longrightarrow> in_len s' \<le> in_len s"
  by (auto simp: ext_inline_nxt_def bind_Some_iff dest!: store_frame split: if_splits)

lemma ext_contents_cur:
  "ext_contents nxt_hdr dispatch ext len buf s = Some (r, nxt', s') \<Longrightarrow> in_len s' \<le> in_len s"
  by (auto simp: ext_contents_def Let_def bind_Some_iff dest!: store_frame ext_pad_cur
      split: if_splits)

lemma unpack_nhc_ipv6_ext_cur:
  assumes "unpack_nhc_ipv6_ext nxt_hdr dispatch buf s = Some (r, nxt', s')"
  shows "in_len s' \<le> in_len s"
  using assms
  by (auto simp: unpack_nhc_ipv6_ext_def Let_def bind_Some_iff
      dest!: store_frame ext_inline_nxt_cur ext_contents_cur split: if_splits option.splits)

function unpack_nhc_chain :: "nat \<Rightarrow> bytes \<Rightarrow> unpack_state \<Rightarrow> unpack_res" where
  "unpack_nhc_chain nxt_hdr buf s =
     (let s0 = s\<lparr>us_recon := (us_recon s)\<lparr>r_transport_header := Some (c_pos (us_dest s))\<rparr>\<rparr>
      in if in_len s0 < 1 then Some (-1, s0)
         else case peek buf s0 0 of
           None \<Rightarrow> None
         | Some dispatch \<Rightarrow>
             let s1 = eat 1 s0
             in if dispatch AND LOWPAN_NHC_IPV6_MASK = LOWPAN_NHC_IPV6_PATTERN then
                  case unpack_nhc_ipv6_ext nxt_hdr dispatch buf s1 of
                    None \<Rightarrow> None
                  | Some (ret, nxt', s2) \<Rightarrow>
                      if ret < 0 then Some (ret, s2)
                      else if ret = 0 then Some (0, s2)
                      else unpack_nhc_chain nxt' buf s2
                else if dispatch AND LOWPAN_NHC_UDP_MASK = LOWPAN_NHC_UDP_PATTERN then
                  then_ok (unpack_nhc_udp nxt_hdr dispatch buf s1) (\<lambda>s2. Some (0, s2))
                else Some (0, s1))"
  by pat_completeness auto
termination
  by (relation "measure (\<lambda>(n, buf, s). in_len s)")
    (auto dest!: unpack_nhc_ipv6_ext_cur)

declare unpack_nhc_chain.simps [simp del]

section \<open>The whole header\<close>

text \<open>
  \<open>lowpan_unpack_headers\<close>: the result also has the length of the unpacked packet, the
  out-parameter the code sets on success. The source moves \<open>buf\<close>, its own copy of the pointer's
  address, instead of \<open>*buf\<close> at the end, so the cursor keeps its place and loses its length.
\<close>

definition unpack_fields :: "(in6_addr \<Rightarrow> int \<Rightarrow> int \<times> in6_addr) \<Rightarrow> nat \<Rightarrow> u8 \<Rightarrow> u8 \<Rightarrow> int \<times> int \<Rightarrow>
    ieee154_frame_addr \<Rightarrow> bytes \<Rightarrow> unpack_state \<Rightarrow> unpack_res" where
  "unpack_fields read_ctx hdr disp0 disp1 contexts frame buf s =
     then_ok (unpack_tcfl hdr disp0 buf s) (\<lambda>s.
     then_ok (unpack_nh hdr disp0 buf s) (\<lambda>s.
     then_ok (unpack_hlim hdr disp0 buf s) (\<lambda>s.
     then_ok (store_addr (hdr + 8)
       (unpack_address read_ctx (drop_bit LOWPAN_IPHC_SAM_SHIFT disp1) (fst contexts) buf
         (ieee_src frame) s)) (\<lambda>s.
     if disp1 AND LOWPAN_IPHC_M \<noteq> 0 then
       store_addr (hdr + 24) (unpack_multicast (drop_bit LOWPAN_IPHC_DAM_SHIFT disp1) buf s)
     else
       store_addr (hdr + 24)
         (unpack_address read_ctx (drop_bit LOWPAN_IPHC_DAM_SHIFT disp1) (snd contexts) buf
           (ieee_dst frame) s)))))"

definition copy_payload :: "nat \<Rightarrow> bytes \<Rightarrow> unpack_state \<Rightarrow> (int \<times> u16 \<times> unpack_state) option" where
  "copy_payload base buf s =
     (if c_len (us_dest s) < in_len s then Some (-2, 0, s)
      else do {
        body \<leftarrow> peek_n buf s (in_len s);
        s1 \<leftarrow> store (c_pos (us_dest s)) body s;
        let s2 = fill (in_len s1) s1;
        Some (0, of_nat (c_pos (us_dest s2) - base), s2\<lparr>us_cur := (us_cur s2)\<lparr>c_len := 0\<rparr>\<rparr>)
      })"

definition lowpan_unpack_headers :: "(in6_addr \<Rightarrow> int \<Rightarrow> int \<times> in6_addr) \<Rightarrow>
    ieee154_frame_addr \<Rightarrow> bytes \<Rightarrow> unpack_state \<Rightarrow> (int \<times> u16 \<times> unpack_state) option" where
  "lowpan_unpack_headers read_ctx frame buf s =
     (case r_buf (us_recon s) of
        None \<Rightarrow> None
      | Some base \<Rightarrow>
          let s0 = s\<lparr>us_dest := \<lparr>c_pos = base, c_len = unat (r_size (us_recon s))\<rparr>, us_recalc := 0\<rparr>
          in if in_len s0 < 2 then Some (-1, 0, s0)
             else do {
               d \<leftarrow> peek_n buf s0 2;
               let s1 = eat 2 s0;
               if c_len (us_dest s1) < sizeof_ip6_hdr then Some (-2, 0, s1)
               else
                 let s2 = fill sizeof_ip6_hdr s1
                 in if d ! 0 AND LOWPAN_DISPATCH_BYTE_MASK \<noteq> LOWPAN_DISPATCH_BYTE_VAL
                    then Some (-3, 0, s2)
                    else do {
                      (ret, contexts, s3) \<leftarrow> unpack_context (d ! 1) buf s2;
                      if ret < 0 then Some (ret, 0, s3)
                      else do {
                        (ret4, s4) \<leftarrow> unpack_fields read_ctx base (d ! 0) (d ! 1) contexts frame buf s3;
                        if ret4 < 0 then Some (ret4, 0, s4)
                        else do {
                          (ret5, s5) \<leftarrow>
                            (if d ! 0 AND LOWPAN_IPHC_NH_MASK \<noteq> 0
                             then unpack_nhc_chain (base + 6) buf s4 else Some (0, s4));
                          if ret5 < 0 then Some (ret5, 0, s5) else copy_payload base buf s5
                        }
                      }
                    }
             })"

end
