(* ===== verification/LowpanSafety.thy ===== *)
theory LowpanSafety
  imports LowpanUnpack
begin

text \<open>
  Memory safety of the decompressor: whatever the received bytes, it reads inside them and
  writes inside the reconstruction buffer.
\<close>

section \<open>The invariant\<close>

text \<open>
  The output pointer and its room stay in the region \<open>lo..<hi\<close> of the memory \<open>m0\<close> at the start,
  the pointer not before \<open>dl\<close>, nothing outside the region has changed, and the input cursor is
  inside the buffer.
\<close>

definition us_inv :: "nat \<Rightarrow> nat \<Rightarrow> nat \<Rightarrow> bytes \<Rightarrow> bytes \<Rightarrow> unpack_state \<Rightarrow> bool" where
  "us_inv lo dl hi m0 buf s \<longleftrightarrow>
     lo \<le> dl \<and> dl \<le> c_pos (us_dest s) \<and> c_pos (us_dest s) + c_len (us_dest s) \<le> hi \<and>
     hi \<le> length m0 \<and> length (us_mem s) = length m0 \<and>
     take lo (us_mem s) = take lo m0 \<and> drop hi (us_mem s) = drop hi m0 \<and>
     c_pos (us_cur s) + in_len s \<le> length buf"

definition safe_res :: "nat \<Rightarrow> nat \<Rightarrow> nat \<Rightarrow> bytes \<Rightarrow> bytes \<Rightarrow> unpack_res \<Rightarrow> bool" where
  "safe_res lo dl hi m0 buf r \<longleftrightarrow> (\<exists>ret s. r = Some (ret, s) \<and> us_inv lo dl hi m0 buf s)"

lemma safe_resI: "us_inv lo dl hi m0 buf s \<Longrightarrow> safe_res lo dl hi m0 buf (Some (ret, s))"
  by (simp add: safe_res_def)

lemma safe_resE:
  assumes "safe_res lo dl hi m0 buf r"
  obtains ret s where "r = Some (ret, s)" and "us_inv lo dl hi m0 buf s"
  using assms by (auto simp: safe_res_def)

lemma safe_if:
  "(b \<Longrightarrow> safe_res lo dl hi m0 buf x) \<Longrightarrow> (\<not> b \<Longrightarrow> safe_res lo dl hi m0 buf y) \<Longrightarrow>
   safe_res lo dl hi m0 buf (if b then x else y)"
  by simp

lemma safe_then_ok:
  assumes "safe_res lo dl hi m0 buf r" and "\<And>s. us_inv lo dl hi m0 buf s \<Longrightarrow> safe_res lo dl hi m0 buf (f s)"
  shows "safe_res lo dl hi m0 buf (then_ok r f)"
  using assms by (auto simp: safe_res_def then_ok_def)

lemma us_inv_store:
  assumes "us_inv lo dl hi m0 buf s" and "lo \<le> i" and "i + length bs \<le> hi"
  obtains s' where "store i bs s = Some s'" and "us_inv lo dl hi m0 buf s'" and "us_cur s' = us_cur s"
    and "us_dest s' = us_dest s" and "us_recon s' = us_recon s" and "us_recalc s' = us_recalc s"
proof -
  obtain m' where m': "wrn (us_mem s) i bs = Some m'"
    using wrn_ok [of i bs "us_mem s"] assms by (auto simp: us_inv_def)
  have "take lo m' = take lo (us_mem s)"
    using take_wrn [OF m'] assms(2) by (metis min.absorb1 take_take)
  then have "us_inv lo dl hi m0 buf (s\<lparr>us_mem := m'\<rparr>)"
    using assms wrn_length [OF m'] drop_wrn [OF m' assms(3)] by (simp add: us_inv_def)
  with that [of "s\<lparr>us_mem := m'\<rparr>"] m' show thesis by (simp add: store_def)
qed

lemma us_inv_eat: "us_inv lo dl hi m0 buf s \<Longrightarrow> n \<le> in_len s \<Longrightarrow> us_inv lo dl hi m0 buf (eat n s)"
  by (simp add: us_inv_def)

lemma us_inv_fill:
  "us_inv lo dl hi m0 buf s \<Longrightarrow> n \<le> c_len (us_dest s) \<Longrightarrow> us_inv lo dl hi m0 buf (fill n s)"
  by (simp add: us_inv_def)

lemma us_inv_fields [simp]:
  "us_inv lo dl hi m0 buf (s\<lparr>us_recon := r\<rparr>) = us_inv lo dl hi m0 buf s"
  "us_inv lo dl hi m0 buf (s\<lparr>us_recalc := b\<rparr>) = us_inv lo dl hi m0 buf s"
  by (simp_all add: us_inv_def)

lemma us_inv_peek:
  "us_inv lo dl hi m0 buf s \<Longrightarrow> k < in_len s \<Longrightarrow> peek buf s k = Some (buf ! (c_pos (us_cur s) + k))"
  by (simp add: us_inv_def peek_def rd8_def)

lemma us_inv_peek_n:
  assumes "us_inv lo dl hi m0 buf s" and "n \<le> in_len s"
  obtains bs where "peek_n buf s n = Some bs" and "length bs = n"
proof -
  have "c_pos (us_cur s) + n \<le> length buf" using assms by (simp add: us_inv_def)
  then show thesis using that [of "take n (drop (c_pos (us_cur s)) buf)"]
    by (simp add: peek_n_def rdn_def)
qed

text \<open>Storing after eating.\<close>

lemma safe_store:
  assumes "us_inv lo dl hi m0 buf s" and "lo \<le> i" and "i + length bs \<le> hi"
  shows "safe_res lo dl hi m0 buf (map_option (Pair 0) (store i bs s))"
  by (rule us_inv_store [OF assms]) (simp add: safe_resI)

section \<open>Header fields\<close>

lemma st_length [simp]: "length (st16 x) = 2" "length (st32 w) = 4"
  by (simp_all add: st16_def st32_def)

lemma unpack_tcfl_safe:
  assumes inv: "us_inv lo dl hi m0 buf s" and h: "lo \<le> hdr" "hdr + 40 \<le> hi"
  shows "safe_res lo dl hi m0 buf (unpack_tcfl hdr dispatch buf s)"
proof -
  have put: "safe_res lo dl hi m0 buf (map_option (Pair 0) (store hdr (st32 w) s'))"
    if "us_inv lo dl hi m0 buf s'" for w s'
    using that h by (intro safe_store) simp_all
  have peek: "safe_res lo dl hi m0 buf
      (Option.bind (peek_n buf s n) (\<lambda>b. map_option (Pair 0) (store hdr (st32 (w b)) (eat n s))))"
    if "\<not> in_len s < n" for n w
  proof -
    from that have n: "n \<le> in_len s" by simp
    obtain bs where "peek_n buf s n = Some bs" by (rule us_inv_peek_n [OF inv n])
    then show ?thesis using put [OF us_inv_eat [OF inv n]] by simp
  qed
  show ?thesis
    by (simp add: unpack_tcfl_def Let_def put peek inv safe_resI)
qed

lemma unpack_nh_safe:
  assumes inv: "us_inv lo dl hi m0 buf s" and h: "lo \<le> hdr" "hdr + 40 \<le> hi"
  shows "safe_res lo dl hi m0 buf (unpack_nh hdr dispatch buf s)"
  using h by (auto simp: unpack_nh_def safe_resI inv us_inv_peek [OF inv]
      intro!: safe_store us_inv_eat inv)

lemma unpack_hlim_safe:
  assumes inv: "us_inv lo dl hi m0 buf s" and h: "lo \<le> hdr" "hdr + 40 \<le> hi"
  shows "safe_res lo dl hi m0 buf (unpack_hlim hdr dispatch buf s)"
  using h by (auto simp: unpack_hlim_def Let_def safe_resI inv us_inv_peek [OF inv]
      intro!: safe_store us_inv_eat inv)

section \<open>Addresses\<close>

definition safe_addr :: "nat \<Rightarrow> nat \<Rightarrow> nat \<Rightarrow> bytes \<Rightarrow> bytes \<Rightarrow> (int \<times> in6_addr \<times> unpack_state) option \<Rightarrow> bool"
  where
  "safe_addr lo dl hi m0 buf r \<longleftrightarrow>
     (\<exists>ret a s. r = Some (ret, a, s) \<and> length a = 16 \<and> us_inv lo dl hi m0 buf s)"

lemma safe_addr_if:
  "(b \<Longrightarrow> safe_addr lo dl hi m0 buf x) \<Longrightarrow> (\<not> b \<Longrightarrow> safe_addr lo dl hi m0 buf y) \<Longrightarrow>
   safe_addr lo dl hi m0 buf (if b then x else y)"
  by simp

lemma safe_addr_inline:
  assumes inv: "us_inv lo dl hi m0 buf s" and "length addr = 16"
    and "\<And>bs. length bs = n \<Longrightarrow> length (put bs) = 16"
  shows "safe_addr lo dl hi m0 buf (addr_inline n put addr buf s)"
proof (cases "in_len s < n")
  case False
  then obtain bs where "peek_n buf s n = Some bs" "length bs = n"
    using us_inv_peek_n [OF inv, of n] by auto
  with False assms show ?thesis
    by (simp add: safe_addr_def addr_inline_def us_inv_eat)
qed (use assms in \<open>simp add: safe_addr_def addr_inline_def\<close>)

lemma addr_lengths [simp]:
  "length link_local_zero = 16"
  "addr_ok f \<Longrightarrow> length (eui_iid f) = 8"
  "length a = 16 \<Longrightarrow> length (set_word7 a w) = 16"
  "length a = 16 \<Longrightarrow> length iid = 8 \<Longrightarrow> length (set_iid a iid) = 16"
  by (simp_all add: link_local_zero_def eui_iid_def i_laddr_def addr_ok_def set_word7_def
      set_iid_def Let_def)

text \<open>What the decompressor relies on in the context function of the application.\<close>

definition ctx_ok :: "(in6_addr \<Rightarrow> int \<Rightarrow> int \<times> in6_addr) \<Rightarrow> bool" where
  "ctx_ok read_ctx \<longleftrightarrow> (\<forall>a c. length (snd (read_ctx a c)) = length a)"

lemma unpack_address_safe:
  assumes inv: "us_inv lo dl hi m0 buf s" and f: "addr_ok frame" and ctx: "ctx_ok read_ctx"
  shows "safe_addr lo dl hi m0 buf (unpack_address read_ctx dispatch context buf frame s)"
proof -
  have now: "safe_addr lo dl hi m0 buf (Some (r, a, s'))"
    if "length a = 16" "us_inv lo dl hi m0 buf s'" for r a s'
    using that by (simp add: safe_addr_def)
  obtain n a where ra: "read_ctx (replicate 16 0) context = (n, a)" by fastforce
  have "length (snd (read_ctx (replicate 16 0) context)) = length (replicate 16 (0 :: u8))"
    using ctx unfolding ctx_ok_def by blast
  then have la: "length a = 16" by (simp add: ra)
  note inl = safe_addr_inline now
  show ?thesis
    unfolding unpack_address_def Let_def ra prod.case
    by (intro safe_addr_if inl)
      (simp_all add: inv f la)
qed

lemma unpack_multicast_safe:
  assumes inv: "us_inv lo dl hi m0 buf s"
  shows "safe_addr lo dl hi m0 buf (unpack_multicast dispatch buf s)"
proof -
  have "safe_addr lo dl hi m0 buf (Some (-2, replicate 16 0, s))"
    using inv by (simp add: safe_addr_def)
  then show ?thesis
    unfolding unpack_multicast_def Let_def
    by (intro safe_addr_if safe_addr_inline) (simp_all add: inv)
qed

lemma store_addr_safe:
  assumes "safe_addr lo dl hi m0 buf r" and "lo \<le> i" and "i + 16 \<le> hi"
  shows "safe_res lo dl hi m0 buf (store_addr i r)"
proof -
  obtain ret a s where r: "r = Some (ret, a, s)" "length a = 16" "us_inv lo dl hi m0 buf s"
    using assms(1) by (auto simp: safe_addr_def)
  then obtain s' where "store i a s = Some s'" "us_inv lo dl hi m0 buf s'"
    using us_inv_store [of lo dl hi m0 buf s i a] assms(2,3) by auto
  with r show ?thesis by (simp add: store_addr_def safe_resI)
qed

lemma unpack_fields_safe:
  assumes inv: "us_inv lo dl hi m0 buf s" and h: "lo \<le> hdr" "hdr + 40 \<le> hi"
    and f: "frame_ok frame" and ctx: "ctx_ok read_ctx"
  shows "safe_res lo dl hi m0 buf (unpack_fields read_ctx hdr disp0 disp1 contexts frame buf s)"
  unfolding unpack_fields_def
  by (intro safe_then_ok safe_if store_addr_safe unpack_tcfl_safe unpack_nh_safe unpack_hlim_safe
      unpack_address_safe unpack_multicast_safe inv h ctx)
    (use h f in \<open>simp_all add: frame_ok_def\<close>)

section \<open>Compressed next headers\<close>

lemma safe_bind_store:
  assumes "us_inv lo dl hi m0 buf s" and "lo \<le> i" and "i + length bs \<le> hi"
    and "\<And>s'. us_inv lo dl hi m0 buf s' \<Longrightarrow> us_cur s' = us_cur s \<Longrightarrow> us_dest s' = us_dest s \<Longrightarrow>
      safe_res lo dl hi m0 buf (f s')"
  shows "safe_res lo dl hi m0 buf (Option.bind (store i bs s) f)"
  by (rule us_inv_store [OF assms(1-3)]) (simp add: assms(4))

lemma safe_bind_peek_n:
  assumes "us_inv lo dl hi m0 buf s" and "n \<le> in_len s"
    and "\<And>bs. length bs = n \<Longrightarrow> safe_res lo dl hi m0 buf (f bs)"
  shows "safe_res lo dl hi m0 buf (Option.bind (peek_n buf s n) f)"
  by (rule us_inv_peek_n [OF assms(1,2)]) (simp add: assms(3))

lemma unpack_udp_ports_safe:
  assumes inv: "us_inv lo dl hi m0 buf s" and u: "lo \<le> udp" "udp + 8 \<le> hi"
  shows "safe_res lo dl hi m0 buf (unpack_udp_ports udp dispatch buf s)"
proof -
  have put: "safe_res lo dl hi m0 buf (map_option (Pair 0)
      (Option.bind (store udp (st16 (htons src)) s)
        (\<lambda>s1. store (udp + 2) (st16 (htons dst)) (eat n s1))))"
    if "n \<le> in_len s" for src dst n
  proof -
    obtain s1 where s1: "store udp (st16 (htons src)) s = Some s1" "us_inv lo dl hi m0 buf s1"
      "us_cur s1 = us_cur s"
      using us_inv_store [OF inv, of udp "st16 (htons src)"] u by auto
    then have "us_inv lo dl hi m0 buf (eat n s1)" using that by (simp add: us_inv_eat)
    then show ?thesis using s1 u safe_store [of lo dl hi m0 buf "eat n s1" "udp + 2"] by simp
  qed
  show ?thesis
    unfolding unpack_udp_ports_def Let_def
    by (intro safe_if safe_resI inv safe_bind_peek_n put) simp_all
qed

lemma unpack_nhc_udp_safe:
  assumes inv: "us_inv lo dl hi m0 buf s" and n: "lo \<le> nxt_hdr" "nxt_hdr < hi"
  shows "safe_res lo dl hi m0 buf (unpack_nhc_udp nxt_hdr dispatch buf s)"
proof (cases "c_len (us_dest s) < sizeof_udp_hdr")
  case True
  with inv show ?thesis by (simp add: unpack_nhc_udp_def safe_resI)
next
  case False
  let ?udp = "c_pos (us_dest s)"
  have u: "lo \<le> ?udp" "?udp + 8 \<le> hi" "8 \<le> c_len (us_dest s)"
    using False inv by (simp_all add: us_inv_def sizeof_udp_hdr_def)
  have fill: "us_inv lo dl hi m0 buf (fill 8 s)" using u(3) inv by (simp add: us_inv_fill)
  have fin: "safe_res lo dl hi m0 buf
      (if dispatch AND LOWPAN_NHC_UDP_CKSUM = 0 then
         if in_len s3 < 2 then Some (-1, s3)
         else do {
           b \<leftarrow> peek_n buf s3 2;
           s4 \<leftarrow> store (?udp + 6) (st16 (htons (be16 (b ! 0) (b ! 1)))) s3;
           Some (0, (eat 2 s4)\<lparr>us_recon := (us_recon (eat 2 s4))\<lparr>r_app_len := Some (?udp + 4)\<rparr>\<rparr>)
         }
       else Some (0, s3\<lparr>us_recon := (us_recon s3)\<lparr>r_app_len := Some (?udp + 4)\<rparr>\<rparr>))"
    if i: "us_inv lo dl hi m0 buf s3" for s3
    by (intro safe_if safe_resI i safe_bind_peek_n safe_bind_store us_inv_fields [THEN iffD2]
        us_inv_eat)
      (use u i in \<open>simp_all add: us_inv_def\<close>)
  show ?thesis
    using False unfolding unpack_nhc_udp_def Let_def sizeof_udp_hdr_def
    by (simp only: if_False) (intro safe_bind_store fill safe_then_ok unpack_udp_ports_safe fin;
      use n u in simp)
qed

definition safe_ext :: "nat \<Rightarrow> nat \<Rightarrow> nat \<Rightarrow> bytes \<Rightarrow> bytes \<Rightarrow> (int \<times> nat \<times> unpack_state) option \<Rightarrow> bool"
  where
  "safe_ext lo dl hi m0 buf r \<longleftrightarrow>
     (\<exists>ret n s. r = Some (ret, n, s) \<and> us_inv lo dl hi m0 buf s \<and> lo \<le> n \<and> n < hi)"

lemma safe_extI:
  "us_inv lo dl hi m0 buf s \<Longrightarrow> lo \<le> n \<Longrightarrow> n < hi \<Longrightarrow> safe_ext lo dl hi m0 buf (Some (ret, n, s))"
  by (simp add: safe_ext_def)

lemma ext_pad_safe:
  assumes inv: "us_inv lo dl hi m0 buf s" and x: "extra \<le> c_len (us_dest s)"
  obtains s' where "ext_pad type extra s = Some s'" and "us_inv lo dl hi m0 buf s'"
proof -
  have d: "lo \<le> c_pos (us_dest s)" "c_pos (us_dest s) + extra \<le> hi"
    using inv x by (simp_all add: us_inv_def)
  note result = that
  have pad: thesis if p: "ext_pad type extra s = map_option (fill extra) (store (c_pos (us_dest s)) bs s)"
    "length bs \<le> extra" for bs
  proof -
    have b: "c_pos (us_dest s) + length bs \<le> hi" using d(2) p(2) by simp
    obtain s1 where "store (c_pos (us_dest s)) bs s = Some s1" "us_inv lo dl hi m0 buf s1"
      "us_dest s1 = us_dest s"
      by (rule us_inv_store [OF inv d(1) b])
    then show thesis using p(1) result [of "fill extra s1"] x us_inv_fill by simp
  qed
  consider (pad1) "type = IPV6_HOP \<or> type = IPV6_DEST" "extra = 1"
    | (padn) "type = IPV6_HOP \<or> type = IPV6_DEST" "1 < extra"
    | (none) "ext_pad type extra s = Some s"
    by (cases "type = IPV6_HOP \<or> type = IPV6_DEST"; cases "extra = 1"; cases "1 < extra")
      (auto simp: ext_pad_def)
  then show thesis
  proof cases
    case pad1
    then show thesis by (intro pad [of "[IPV6_TLV_PAD1]"]) (simp_all add: ext_pad_def)
  next
    case padn
    then show thesis
      by (intro pad [of "[IPV6_TLV_PADN, of_nat (extra - 2)]"]) (simp_all add: ext_pad_def)
  next
    case none
    then show thesis using result inv by blast
  qed
qed

lemma ext_contents_safe:
  assumes inv: "us_inv lo dl hi m0 buf s" and n: "lo \<le> nxt_hdr" "nxt_hdr < hi"
    and e: "lo \<le> ext" "ext + 2 \<le> hi"
  shows "safe_ext lo dl hi m0 buf (ext_contents nxt_hdr dispatch ext len buf s)"
proof (cases "c_len (us_dest s) < len + ext_extra len \<or> in_len s < len")
  case True
  with inv n show ?thesis by (auto simp: ext_contents_def Let_def safe_extI)
next
  case False
  let ?x = "ext_extra len"
  have le: "len \<le> in_len s" "len + ?x \<le> c_len (us_dest s)" using False by simp_all
  obtain body where body: "peek_n buf s len = Some body" "length body = len"
    by (rule us_inv_peek_n [OF inv le(1)])
  have d: "lo \<le> c_pos (us_dest s)" "c_pos (us_dest s) + length body \<le> hi"
    using inv le(2) body(2) by (simp_all add: us_inv_def)
  obtain s1 where s1: "store (c_pos (us_dest s)) body s = Some s1" "us_inv lo dl hi m0 buf s1"
    "us_cur s1 = us_cur s" "us_dest s1 = us_dest s"
    by (rule us_inv_store [OF inv d])
  have rd: "rd8 (us_mem s1) nxt_hdr = Some (us_mem s1 ! nxt_hdr)"
    using s1(2) n(2) by (simp add: rd8_def us_inv_def)
  have "us_inv lo dl hi m0 buf (eat len (fill len s1))"
    using s1 le by (intro us_inv_eat us_inv_fill) simp_all
  moreover have "?x \<le> c_len (us_dest (eat len (fill len s1)))" using s1(4) le(2) by simp
  ultimately obtain s2 where
    s2: "ext_pad (us_mem s1 ! nxt_hdr) ?x (eat len (fill len s1)) = Some s2" "us_inv lo dl hi m0 buf s2"
    by (rule ext_pad_safe)
  obtain s3 where "store (ext + 1) [of_nat ((len + 2 + ?x) div 8) - 1] s2 = Some s3"
    "us_inv lo dl hi m0 buf s3"
    by (rule us_inv_store [OF s2(2), of "ext + 1" "[of_nat ((len + 2 + ?x) div 8) - 1]"])
      (use e in auto)
  with False body s1(1) rd s2(1) e show ?thesis
    by (auto simp: ext_contents_def Let_def intro!: safe_extI)
qed

lemma ext_inline_nxt_safe:
  assumes inv: "us_inv lo dl hi m0 buf s" and e: "lo \<le> ext" "ext + 2 \<le> hi"
    and l: "\<not> (dispatch AND LOWPAN_NHC_NH = 0 \<and> in_len s < 1)"
  obtains s' where "ext_inline_nxt ext dispatch buf s = Some s'" and "us_inv lo dl hi m0 buf s'"
    and "us_dest s' = us_dest s"
proof (cases "dispatch AND LOWPAN_NHC_NH = 0")
  case True
  with l have l1: "1 \<le> in_len s" by simp
  have "us_inv lo dl hi m0 buf (eat 1 s)" by (rule us_inv_eat [OF inv l1])
  then obtain s' where "store ext [buf ! c_pos (us_cur s)] (eat 1 s) = Some s'"
    "us_inv lo dl hi m0 buf s'" "us_dest s' = us_dest (eat 1 s)"
    using us_inv_store [of lo dl hi m0 buf "eat 1 s" ext "[buf ! c_pos (us_cur s)]"] e by auto
  with that True l1 us_inv_peek [OF inv, of 0] show thesis by (simp add: ext_inline_nxt_def)
qed (use that inv in \<open>simp add: ext_inline_nxt_def\<close>)

lemma unpack_nhc_ipv6_ext_safe:
  assumes inv: "us_inv lo dl hi m0 buf s" and n: "lo \<le> nxt_hdr" "nxt_hdr < hi"
  shows "safe_ext lo dl hi m0 buf (unpack_nhc_ipv6_ext nxt_hdr dispatch buf s)"
proof (cases "c_len (us_dest s) < 2")
  case True
  with inv n show ?thesis
    by (simp add: unpack_nhc_ipv6_ext_def sizeof_ip6_ext_def safe_extI)
next
  case False
  let ?ext = "c_pos (us_dest s)"
  have e: "lo \<le> ?ext" "?ext + 2 \<le> hi" using inv False by (simp_all add: us_inv_def)
  have f: "us_inv lo dl hi m0 buf (fill 2 s)" using inv False by (simp add: us_inv_fill)
  show ?thesis
  proof (cases "eid_header dispatch")
    case None
    with False f n show ?thesis
      by (simp add: unpack_nhc_ipv6_ext_def sizeof_ip6_ext_def Let_def safe_extI)
  next
    case (Some type)
    obtain s2 where s2: "store nxt_hdr [type] (fill 2 s) = Some s2" "us_inv lo dl hi m0 buf s2"
      using us_inv_store [OF f n(1), of "[type]"] n(2) by auto
    show ?thesis
    proof (cases "dispatch AND LOWPAN_NHC_NH = 0 \<and> in_len s2 < 1")
      case True
      with False Some s2 n show ?thesis
        by (simp add: unpack_nhc_ipv6_ext_def sizeof_ip6_ext_def Let_def safe_extI)
    next
      case l: False
      obtain s3 where s3: "ext_inline_nxt ?ext dispatch buf s2 = Some s3" "us_inv lo dl hi m0 buf s3"
        by (rule ext_inline_nxt_safe [OF s2(2) e l])
      show ?thesis
      proof (cases "in_len s3 < 1")
        case True
        with False Some s2 s3 l n show ?thesis
          by (simp add: unpack_nhc_ipv6_ext_def sizeof_ip6_ext_def Let_def safe_extI)
      next
        case l3: False
        then have "us_inv lo dl hi m0 buf (eat 1 s3)" by (intro us_inv_eat s3(2)) simp
        from ext_contents_safe [OF this n e] l l3 False Some s2 s3 us_inv_peek [OF s3(2), of 0]
        show ?thesis by (auto simp: unpack_nhc_ipv6_ext_def sizeof_ip6_ext_def Let_def)
      qed
    qed
  qed
qed


lemma unpack_nhc_chain_safe:
  "us_inv lo dl hi m0 buf s \<Longrightarrow> lo \<le> nxt_hdr \<Longrightarrow> nxt_hdr < hi \<Longrightarrow>
   safe_res lo dl hi m0 buf (unpack_nhc_chain nxt_hdr buf s)"
proof (induction nxt_hdr buf s rule: unpack_nhc_chain.induct)
  case (1 nxt_hdr buf s)
  define s0 where "s0 = s\<lparr>us_recon := (us_recon s)\<lparr>r_transport_header := Some (c_pos (us_dest s))\<rparr>\<rparr>"
  have i0: "us_inv lo dl hi m0 buf s0" using 1(2) by (simp add: s0_def)
  show ?case
  proof (cases "in_len s0 < 1")
    case True
    with i0 show ?thesis
      by (simp add: unpack_nhc_chain.simps [of nxt_hdr buf s] Let_def safe_resI flip: s0_def)
  next
    case False
    define b where "b = buf ! c_pos (us_cur s0)"
    have pk: "peek buf s0 0 = Some b"
      using us_inv_peek [OF i0, of 0] False by (simp add: b_def)
    have i1: "us_inv lo dl hi m0 buf (eat 1 s0)" using i0 False by (simp add: us_inv_eat)
    obtain ret n s2 where ext: "unpack_nhc_ipv6_ext nxt_hdr b buf (eat 1 s0) = Some (ret, n, s2)"
      "us_inv lo dl hi m0 buf s2" "lo \<le> n" "n < hi"
      using unpack_nhc_ipv6_ext_safe [OF i1 1(3,4), of b] by (auto simp: safe_ext_def)
    have udp: "safe_res lo dl hi m0 buf
        (then_ok (unpack_nhc_udp nxt_hdr b buf (eat 1 s0)) (\<lambda>s2. Some (0, s2)))"
      by (intro safe_then_ok unpack_nhc_udp_safe i1 1(3,4) safe_resI)
    have eq: "unpack_nhc_chain nxt_hdr buf s =
        (if b AND LOWPAN_NHC_IPV6_MASK = LOWPAN_NHC_IPV6_PATTERN then
           (if ret < 0 then Some (ret, s2) else if ret = 0 then Some (0, s2)
            else unpack_nhc_chain n buf s2)
         else if b AND LOWPAN_NHC_UDP_MASK = LOWPAN_NHC_UDP_PATTERN then
           then_ok (unpack_nhc_udp nxt_hdr b buf (eat 1 s0)) (\<lambda>s2. Some (0, s2))
         else Some (0, eat 1 s0))"
      unfolding unpack_nhc_chain.simps [of nxt_hdr buf s] Let_def s0_def [symmetric] pk
      using False ext(1) by simp
    have rec: "safe_res lo dl hi m0 buf (unpack_nhc_chain n buf s2)"
      if "b AND LOWPAN_NHC_IPV6_MASK = LOWPAN_NHC_IPV6_PATTERN" "\<not> ret < 0" "ret \<noteq> 0"
      by (rule "1.IH" [OF s0_def False pk refl that(1) ext(1) refl refl that(2,3) ext(2-4)])
    show ?thesis unfolding eq
      by (intro safe_if safe_resI udp rec ext(2) i1)
  qed
qed

lemma copy_payload_safe:
  assumes "us_inv lo dl hi m0 buf s" and "lo = base" and "hi - base < 65536"
  shows "\<exists>ret n s'. copy_payload base buf s = Some (ret, n, s') \<and> us_inv lo dl hi m0 buf s' \<and>
    (ret = 0 \<longrightarrow> base + unat n = c_pos (us_dest s')) \<and> (ret = 0 \<or> ret = -2)"
proof (cases "c_len (us_dest s) < in_len s")
  case True
  with assms show ?thesis by (simp add: copy_payload_def)
next
  case False
  obtain body where body: "peek_n buf s (in_len s) = Some body" "length body = in_len s"
    by (rule us_inv_peek_n [OF assms(1) order_refl])
  have d: "lo \<le> c_pos (us_dest s)" "c_pos (us_dest s) + length body \<le> hi"
    using assms(1) False body(2) by (simp_all add: us_inv_def)
  obtain s1 where s1: "store (c_pos (us_dest s)) body s = Some s1" "us_inv lo dl hi m0 buf s1"
    "us_cur s1 = us_cur s" "us_dest s1 = us_dest s"
    by (rule us_inv_store [OF assms(1) d])
  have "us_inv lo dl hi m0 buf ((fill (in_len s1) s1)\<lparr>us_cur := (us_cur s1)\<lparr>c_len := 0\<rparr>\<rparr>)"
    using s1 False us_inv_fill [OF s1(2), of "in_len s1"] by (simp add: us_inv_def)
  moreover define k where "k = c_pos (us_dest s1) + in_len s1 - base"
  have "k < 65536" "base + k = c_pos (us_dest s1) + in_len s1"
    using d body(2) s1 assms(2,3) by (simp_all add: k_def)
  then have "base + unat (of_nat k :: u16) = c_pos (us_dest s1) + in_len s1"
    by (simp add: unat_of_nat)
  moreover have "copy_payload base buf s =
      Some (0, of_nat k, (fill (in_len s1) s1)\<lparr>us_cur := (us_cur s1)\<lparr>c_len := 0\<rparr>\<rparr>)"
    using False body s1(1) by (simp add: copy_payload_def Let_def k_def)
  ultimately show ?thesis by simp
qed

section \<open>The decompressor\<close>

definition us_start :: "bytes \<Rightarrow> lowpan_reconstruct \<Rightarrow> nat \<Rightarrow> nat \<Rightarrow> unpack_state" where
  "us_start mem recon p len =
     \<lparr>us_mem = mem, us_dest = \<lparr>c_pos = 0, c_len = 0\<rparr>, us_cur = \<lparr>c_pos = p, c_len = len\<rparr>,
      us_recon = recon, us_recalc = 0\<rparr>"

lemma unpack_context_safe:
  assumes inv: "us_inv lo dl hi m0 buf s"
  obtains r c s' where "unpack_context d buf s = Some (r, c, s')" and "us_inv lo dl hi m0 buf s'"
    and "us_recon s' = us_recon s" and "us_dest s' = us_dest s"
proof (cases "d AND LOWPAN_IPHC_CID_MASK = LOWPAN_IPHC_CID_PRESENT")
  case True
  show thesis
  proof (cases "in_len s < 1")
    case l: True
    have "unpack_context d buf s = Some (-1, (0, 0), s)"
      using True l by (simp add: unpack_context_def)
    then show thesis using inv by (rule that) simp_all
  next
    case False
    then have i: "us_inv lo dl hi m0 buf (eat 1 s)" by (intro us_inv_eat inv) simp
    have "unpack_context d buf s =
        Some (0, (uint (drop_bit 4 (buf ! c_pos (us_cur s)) AND 0xf),
          uint (buf ! c_pos (us_cur s) AND 0xf)), eat 1 s)"
      using True False us_inv_peek [OF inv, of 0] by (simp add: unpack_context_def)
    then show thesis using i by (rule that) simp_all
  qed
next
  case False
  then have "unpack_context d buf s = Some (0, (0, 0), s)" by (simp add: unpack_context_def)
  then show thesis using inv by (rule that) simp_all
qed

text \<open>A run that ends: the state is safe, and a success reports a length the buffer has room for.\<close>

definition ends_ok :: "nat \<Rightarrow> nat \<Rightarrow> bytes \<Rightarrow> bytes \<Rightarrow> (int \<times> u16 \<times> unpack_state) option \<Rightarrow> bool" where
  "ends_ok base hi m0 buf r \<longleftrightarrow> (\<exists>ret n s dl. r = Some (ret, n, s) \<and> us_inv base dl hi m0 buf s \<and>
     (ret = 0 \<longrightarrow> 40 \<le> unat n \<and> base + unat n \<le> hi))"

lemma ends_okI: "us_inv base dl hi m0 buf s \<Longrightarrow> (ret = 0 \<Longrightarrow> 40 \<le> unat n \<and> base + unat n \<le> hi) \<Longrightarrow> ends_ok base hi m0 buf (Some (ret, n, s))"
  by (auto simp: ends_ok_def)

text \<open>What follows the dispatch byte.\<close>

definition unpack_rest ::
    "(bytes \<Rightarrow> int \<Rightarrow> int \<times> bytes) \<Rightarrow> nat \<Rightarrow> bytes \<Rightarrow> ieee154_frame_addr \<Rightarrow> bytes \<Rightarrow> unpack_state \<Rightarrow> (int \<times> u16 \<times> unpack_state) option" where
  "unpack_rest read_ctx base d frame buf s2 = do {
     (ret, contexts, s3) \<leftarrow> unpack_context (d ! 1) buf s2;
     if ret < 0 then Some (ret, 0, s3)
     else do {
       (ret4, s4) \<leftarrow> unpack_fields read_ctx base (d ! 0) (d ! 1) contexts frame buf s3;
       if ret4 < 0 then Some (ret4, 0, s4)
       else do {
         (ret5, s5) \<leftarrow> (if d ! 0 AND LOWPAN_IPHC_NH_MASK \<noteq> 0
           then unpack_nhc_chain (base + 6) buf s4 else Some (0, s4));
         if ret5 < 0 then Some (ret5, 0, s5) else copy_payload base buf s5
       }
     }
   }"

lemma unpack_rest_safe:
  assumes "us_inv base (base + 40) hi m0 buf s2" and "base + 40 \<le> hi" and "hi - base < 65536"
    and "frame_ok frame" and "ctx_ok read_ctx"
  shows "ends_ok base hi m0 buf (unpack_rest read_ctx base d frame buf s2)"
proof -
  obtain r3 c s3 where s3: "unpack_context (d ! 1) buf s2 = Some (r3, c, s3)" "us_inv base (base + 40) hi m0 buf s3"
    by (rule unpack_context_safe [OF assms(1)])
  obtain r4 s4 where s4: "unpack_fields read_ctx base (d ! 0) (d ! 1) c frame buf s3 = Some (r4, s4)"
    "us_inv base (base + 40) hi m0 buf s4"
    by (rule safe_resE [OF unpack_fields_safe [OF s3(2) order_refl assms(2,4,5)]])
  have "safe_res base (base + 40) hi m0 buf
      (if d ! 0 AND LOWPAN_IPHC_NH_MASK \<noteq> 0 then unpack_nhc_chain (base + 6) buf s4 else Some (0, s4))"
    by (intro safe_if safe_resI unpack_nhc_chain_safe s4(2)) (use assms(2) in simp_all)
  then obtain r5 s5 where s5:
    "(if d ! 0 AND LOWPAN_IPHC_NH_MASK \<noteq> 0 then unpack_nhc_chain (base + 6) buf s4 else Some (0, s4)) = Some (r5, s5)"
    "us_inv base (base + 40) hi m0 buf s5"
    by (rule safe_resE)
  obtain r6 n s6 where s6: "copy_payload base buf s5 = Some (r6, n, s6)" "us_inv base (base + 40) hi m0 buf s6"
    "r6 = 0 \<longrightarrow> base + unat n = c_pos (us_dest s6)"
    using copy_payload_safe [OF s5(2) refl assms(3)] by blast
  have "unpack_rest read_ctx base d frame buf s2 =
      (if r3 < 0 then Some (r3, 0, s3) else if r4 < 0 then Some (r4, 0, s4)
       else if r5 < 0 then Some (r5, 0, s5) else Some (r6, n, s6))"
    using s3(1) s4(1) s5(1) s6(1) by (simp add: unpack_rest_def)
  moreover have "40 \<le> unat n \<and> base + unat n \<le> hi" if "r6 = 0" using s6(2,3) that by (simp add: us_inv_def)
  ultimately show ?thesis
    using ends_okI [OF s3(2)] ends_okI [OF s4(2)] ends_okI [OF s5(2)] ends_okI [OF s6(2)] by simp
qed

text \<open>C29: Whatever bytes arrive, with any lengths, header codes and extension headers in them, the
  decompressor reads only the received bytes and writes only inside the reconstruction buffer of
  \<open>r_size\<close> bytes: memory before and after it is unchanged. On success the unpacked length it
  reports lies between the IPv6 header's 40 bytes and that size.\<close>

theorem lowpan_unpack_headers_safe:
  assumes "p + len \<le> length buf" and "r_buf recon = Some base"
    and "base + unat (r_size recon) \<le> length mem" and "frame_ok frame" and "ctx_ok read_ctx"
  shows "\<exists>ret n s. lowpan_unpack_headers read_ctx frame buf (us_start mem recon p len) =
      Some (ret, n, s) \<and>
    take base (us_mem s) = take base mem \<and>
    drop (base + unat (r_size recon)) (us_mem s) = drop (base + unat (r_size recon)) mem \<and>
    length (us_mem s) = length mem \<and>
    (ret = 0 \<longrightarrow> 40 \<le> unat n \<and> unat n \<le> unat (r_size recon))"
proof -
  define hi where "hi = base + unat (r_size recon)"
  define s0 where "s0 = (us_start mem recon p len)
    \<lparr>us_dest := \<lparr>c_pos = base, c_len = unat (r_size recon)\<rparr>, us_recalc := 0\<rparr>"
  have i0: "us_inv base base hi mem buf s0"
    using assms(1,3) by (simp add: us_inv_def s0_def us_start_def hi_def)
  let ?r = "lowpan_unpack_headers read_ctx frame buf (us_start mem recon p len)"
  have run: "?r = (if in_len s0 < 2 then Some (-1, 0, s0)
      else do {
        d \<leftarrow> peek_n buf s0 2;
        let s1 = eat 2 s0;
        if c_len (us_dest s1) < sizeof_ip6_hdr then Some (-2, 0, s1)
        else
          let s2 = fill sizeof_ip6_hdr s1
          in if d ! 0 AND LOWPAN_DISPATCH_BYTE_MASK \<noteq> LOWPAN_DISPATCH_BYTE_VAL then Some (-3, 0, s2)
             else unpack_rest read_ctx base d frame buf s2
      })"
    using assms(2) unfolding unpack_rest_def by (simp add: lowpan_unpack_headers_def s0_def us_start_def Let_def)
  have room: "c_len (us_dest s0) = unat (r_size recon)" by (simp add: s0_def)
  have "ends_ok base hi mem buf ?r"
  proof (cases "in_len s0 < 2")
    case True
    then show ?thesis unfolding run by (simp add: ends_okI [OF i0])
  next
    case False
    then have l: "2 \<le> in_len s0" by simp
    obtain d where d: "peek_n buf s0 2 = Some d" by (rule us_inv_peek_n [OF i0 l])
    have i1: "us_inv base base hi mem buf (eat 2 s0)" by (rule us_inv_eat [OF i0 l])
    show ?thesis
    proof (cases "unat (r_size recon) < 40")
      case True
      then show ?thesis unfolding run using False d by (simp add: ends_okI [OF i1] room sizeof_ip6_hdr_def Let_def)
    next
      case big: False
      then have i2: "us_inv base (base + 40) hi mem buf (fill 40 (eat 2 s0))"
        using i1 by (simp add: us_inv_def s0_def)
      have "base + 40 \<le> hi" "hi - base < 65536" using big unat_u16_lt [of "r_size recon"] by (simp_all add: hi_def)
      from unpack_rest_safe [OF i2 this assms(4,5), of d] show ?thesis
        unfolding run using False big d by (simp add: ends_okI [OF i2] room sizeof_ip6_hdr_def Let_def)
    qed
  qed
  then show ?thesis by (auto simp: ends_ok_def us_inv_def hi_def)
qed

text \<open>A packet with elided traffic class, hop limit 64 and link-local addresses made from short
  link-layer addresses, followed by three bytes of payload and unpacked into the middle of a
  memory object.\<close>

definition sample_frame :: ieee154_frame_addr where
  "sample_frame =
     \<lparr>ieee_src = \<lparr>a_mode = IEEE154_ADDR_SHORT, a_union = [1, 0, 0, 0, 0, 0, 0, 0]\<rparr>,
      ieee_dst = \<lparr>a_mode = IEEE154_ADDR_SHORT, a_union = [2, 0, 0, 0, 0, 0, 0, 0]\<rparr>,
      ieee_dstpan = 0x22\<rparr>"

definition sample_recon :: lowpan_reconstruct where
  "sample_recon =
     \<lparr>r_tag = 0, r_source_key = 0, r_size = 60, r_buf = Some 4, r_bytes_rcvd = 0, r_timeout = 0,
      r_app_len = None, r_transport_header = None,
      r_meta = \<lparr>md_sender = ieee_src sample_frame, md_lqi = 0, md_rssi = 0\<rparr>\<rparr>"

theorem lowpan_unpack_headers_safe_witness:
  "\<exists>ret n s. lowpan_unpack_headers lowpan_extern_read_context sample_frame
      [0x7a, 0x33, 59, 7, 8, 9] (us_start (replicate 70 0) sample_recon 0 6) = Some (ret, n, s) \<and>
    take 4 (us_mem s) = replicate 4 0 \<and> drop 64 (us_mem s) = replicate 6 0 \<and>
    length (us_mem s) = 70 \<and> (ret = 0 \<longrightarrow> 40 \<le> unat n \<and> unat n \<le> 60)"
  using lowpan_unpack_headers_safe [of 0 6 "[0x7a, 0x33, 59, 7, 8, 9]" sample_recon 4
      "replicate 70 0" sample_frame lowpan_extern_read_context]
  by (simp add: sample_recon_def sample_frame_def frame_ok_def addr_ok_def ctx_ok_def
      lowpan_extern_read_context_def)

end
