(* ===== verification/IpMalloc.thy ===== *)
theory IpMalloc
  imports NwByte
begin

text \<open>
  The allocator of \<open>lib6lowpan/ip_malloc.c\<close>. The heap is an object of 1500 bytes, cut into blocks
  that each start with a two-byte boundary tag: the length of the block, tag included, in the low
  twelve bits, and the in-use flag on top. Pointers are offsets into the heap. A tag read outside
  the heap is None: the loops read \<open>*cur\<close> before they compare \<open>cur\<close> with the end of the heap.
\<close>

section \<open>Constants and boundary tags\<close>

definition IP_MALLOC_ALIGN :: u16 where "IP_MALLOC_ALIGN = 2"
definition IP_MALLOC_LEN :: u16 where "IP_MALLOC_LEN = 0x0fff"
definition IP_MALLOC_INUSE :: u16 where "IP_MALLOC_INUSE = 0x8000"
definition IP_MALLOC_HEAP_SIZE :: nat where "IP_MALLOC_HEAP_SIZE = 1500"

lemmas ip_malloc_consts = IP_MALLOC_ALIGN_def IP_MALLOC_LEN_def IP_MALLOC_INUSE_def
  IP_MALLOC_HEAP_SIZE_def

definition rd_tag :: "bytes \<Rightarrow> nat \<Rightarrow> u16 option" where
  "rd_tag heap i = map_option (\<lambda>bs. ld16 (bs ! 0) (bs ! 1)) (rdn heap i 2)"

definition wr_tag :: "bytes \<Rightarrow> nat \<Rightarrow> u16 \<Rightarrow> bytes option" where
  "wr_tag heap i t = wrn heap i (st16 t)"

definition tag_len :: "u16 \<Rightarrow> nat" where
  "tag_len t = unat (t AND IP_MALLOC_LEN)"

section \<open>Operations\<close>

definition ip_malloc_init :: "bytes \<Rightarrow> bytes option" where
  "ip_malloc_init heap = wr_tag heap 0 (of_nat IP_MALLOC_HEAP_SIZE AND IP_MALLOC_LEN)"

text \<open>The search of \<open>ip_malloc\<close>. A block of length zero would keep it in place forever; \<open>fuel\<close>
  bounds the steps, and None also stands for running out of it. A heap of 1500 bytes has at most
  750 blocks.\<close>

fun malloc_scan :: "nat \<Rightarrow> bytes \<Rightarrow> u16 \<Rightarrow> nat \<Rightarrow> nat option" where
  "malloc_scan 0 heap sz cur = None"
| "malloc_scan (Suc fuel) heap sz cur =
     (case rd_tag heap cur of
        None \<Rightarrow> None
      | Some t \<Rightarrow>
          if (t AND IP_MALLOC_LEN < sz \<or> t AND IP_MALLOC_INUSE \<noteq> 0) \<and> cur < IP_MALLOC_HEAP_SIZE
          then malloc_scan fuel heap sz (cur + tag_len t)
          else Some cur)"

definition scan_fuel :: nat where
  "scan_fuel = IP_MALLOC_HEAP_SIZE"

text \<open>The size of the block for a request, as the code computes it in 16 bits.\<close>

definition request_size :: "u16 \<Rightarrow> u16" where
  "request_size sz = (let s = sz + 4 in s + s mod IP_MALLOC_ALIGN)"

definition ip_malloc :: "bytes \<Rightarrow> u16 \<Rightarrow> (nat option \<times> bytes) option" where
  "ip_malloc heap req =
     (let sz = request_size req
      in do {
        cur \<leftarrow> malloc_scan scan_fuel heap sz 0;
        if cur < IP_MALLOC_HEAP_SIZE then do {
          t \<leftarrow> rd_tag heap cur;
          let oldsize = t AND IP_MALLOC_LEN;
          let sz' = sz - 2;
          h1 \<leftarrow> wr_tag heap cur ((sz' AND IP_MALLOC_LEN) OR IP_MALLOC_INUSE);
          h2 \<leftarrow> wr_tag h1 (cur + unat sz') ((oldsize - sz') AND IP_MALLOC_LEN);
          Some (Some (cur + 2), h2)
        }
        else Some (None, heap)
      })"

text \<open>The search of \<open>ip_free\<close>: the block before the pointer's and the place it stops.\<close>

fun free_scan :: "nat \<Rightarrow> bytes \<Rightarrow> nat \<Rightarrow> nat option \<Rightarrow> nat \<Rightarrow> (nat option \<times> nat) option" where
  "free_scan 0 heap ptr prev cur = None"
| "free_scan (Suc fuel) heap ptr prev cur =
     (if cur + 2 \<noteq> ptr \<and> cur < IP_MALLOC_HEAP_SIZE then
        case rd_tag heap cur of
          None \<Rightarrow> None
        | Some t \<Rightarrow> free_scan fuel heap ptr (Some cur) (cur + tag_len t)
      else Some (prev, cur))"

text \<open>Merging the freed block with the free block after it, and into the free block before it.\<close>

definition merge_next :: "bytes \<Rightarrow> nat \<Rightarrow> nat \<Rightarrow> bytes option" where
  "merge_next heap cur nxt =
     (if nxt < IP_MALLOC_HEAP_SIZE then do {
        n \<leftarrow> rd_tag heap nxt;
        c \<leftarrow> rd_tag heap cur;
        if n AND IP_MALLOC_INUSE = 0
        then wr_tag heap cur ((c AND IP_MALLOC_LEN) + (n AND IP_MALLOC_LEN))
        else Some heap
      }
      else Some heap)"

definition merge_prev :: "bytes \<Rightarrow> nat option \<Rightarrow> nat \<Rightarrow> bytes option" where
  "merge_prev heap prev cur =
     (case prev of
        None \<Rightarrow> Some heap
      | Some p \<Rightarrow> do {
          t \<leftarrow> rd_tag heap p;
          c \<leftarrow> rd_tag heap cur;
          if t AND IP_MALLOC_INUSE = 0
          then wr_tag heap p ((t AND IP_MALLOC_LEN) + (c AND IP_MALLOC_LEN))
          else Some heap
        })"

definition ip_free :: "bytes \<Rightarrow> nat \<Rightarrow> bytes option" where
  "ip_free heap ptr = do {
     (prev, cur) \<leftarrow> free_scan scan_fuel heap ptr None 0;
     if cur + 2 = ptr then do {
       t \<leftarrow> rd_tag heap cur;
       h1 \<leftarrow> wr_tag heap cur (t AND NOT IP_MALLOC_INUSE);
       h2 \<leftarrow> merge_next h1 cur (cur + tag_len t);
       merge_prev h2 prev cur
     }
     else Some heap
   }"

fun freespace_scan :: "nat \<Rightarrow> bytes \<Rightarrow> u16 \<Rightarrow> nat \<Rightarrow> u16 option" where
  "freespace_scan 0 heap acc cur = None"
| "freespace_scan (Suc fuel) heap acc cur =
     (if cur < IP_MALLOC_HEAP_SIZE then
        case rd_tag heap cur of
          None \<Rightarrow> None
        | Some t \<Rightarrow> freespace_scan fuel heap
            (if t AND IP_MALLOC_INUSE = 0 then acc + (t AND IP_MALLOC_LEN) else acc)
            (cur + tag_len t)
      else Some acc)"

definition ip_malloc_freespace :: "bytes \<Rightarrow> u16 option" where
  "ip_malloc_freespace heap = freespace_scan scan_fuel heap 0 0"

section \<open>The blocks of a heap\<close>

text \<open>A heap read as a list of blocks, each with its in-use flag and its length.\<close>

type_synonym block = "bool \<times> nat"

definition block_tag :: "block \<Rightarrow> u16" where
  "block_tag b = (if fst b then IP_MALLOC_INUSE else 0) OR of_nat (snd b)"

definition blocks_len :: "block list \<Rightarrow> nat" where
  "blocks_len bs = sum_list (map snd bs)"

text \<open>The tags of consecutive blocks from an offset, and a heap that is such blocks.\<close>

fun tags_at :: "bytes \<Rightarrow> nat \<Rightarrow> block list \<Rightarrow> bool" where
  "tags_at heap p [] \<longleftrightarrow> True"
| "tags_at heap p (b # bs) \<longleftrightarrow>
     rd_tag heap p = Some (block_tag b) \<and> 2 \<le> snd b \<and> even (snd b) \<and>
     tags_at heap (p + snd b) bs"

definition heap_blocks :: "bytes \<Rightarrow> block list \<Rightarrow> bool" where
  "heap_blocks heap bs \<longleftrightarrow>
     length heap = IP_MALLOC_HEAP_SIZE \<and> blocks_len bs = IP_MALLOC_HEAP_SIZE \<and> tags_at heap 0 bs"

lemma blocks_len_simps [simp]:
  "blocks_len [] = 0" "blocks_len (b # bs) = snd b + blocks_len bs"
  "blocks_len (bs @ cs) = blocks_len bs + blocks_len cs"
  by (simp_all add: blocks_len_def)

lemma tags_at_append [simp]:
  "tags_at heap p (bs @ cs) \<longleftrightarrow> tags_at heap p bs \<and> tags_at heap (p + blocks_len bs) cs"
  by (induction bs arbitrary: p) (auto simp: ac_simps)

lemma tags_at_length: "tags_at heap p bs \<Longrightarrow> 2 * length bs \<le> blocks_len bs"
proof (induction bs arbitrary: p)
  case (Cons b bs)
  then show ?case using Cons.IH [of "p + snd b"] by auto
qed simp

section \<open>Tags\<close>

lemma bit_malloc_len: "bit IP_MALLOC_LEN n \<longleftrightarrow> n < 12"
proof -
  have "IP_MALLOC_LEN = mask 12" by (simp add: IP_MALLOC_LEN_def mask_eq_exp_minus_1)
  then show ?thesis unfolding \<open>IP_MALLOC_LEN = mask 12\<close> bit_mask_iff by auto
qed

lemma bit_malloc_inuse: "bit IP_MALLOC_INUSE n \<longleftrightarrow> n = 15"
proof -
  have "IP_MALLOC_INUSE = 2 ^ 15" by (simp add: IP_MALLOC_INUSE_def)
  then show ?thesis unfolding \<open>IP_MALLOC_INUSE = 2 ^ 15\<close> bit_exp_iff by auto
qed

text \<open>A length of less than twelve bits.\<close>

lemma small_len_bits:
  assumes "l < 4096" and "bit (of_nat l :: u16) n"
  shows "n < 12"
proof (rule ccontr)
  assume "\<not> n < 12"
  have "take_bit 12 (of_nat l :: u16) = of_nat l"
    using assms(1) by (simp add: take_bit_of_nat take_bit_nat_eq_self)
  then show False
    using assms(2) \<open>\<not> n < 12\<close> by (metis bit_take_bit_iff)
qed

lemma block_tag_parts:
  assumes "snd b < 4096"
  shows "block_tag b AND IP_MALLOC_LEN = of_nat (snd b)"
    and "block_tag b AND IP_MALLOC_INUSE = (if fst b then IP_MALLOC_INUSE else 0)"
    and "block_tag b AND NOT IP_MALLOC_INUSE = block_tag (False, snd b)"
    and "tag_len (block_tag b) = snd b"
proof -
  show len: "block_tag b AND IP_MALLOC_LEN = of_nat (snd b)"
    by (rule bit_word_eqI)
      (auto simp: block_tag_def bit_and_iff bit_or_iff bit_malloc_len bit_malloc_inuse
        dest: small_len_bits [OF assms])
  show "block_tag b AND IP_MALLOC_INUSE = (if fst b then IP_MALLOC_INUSE else 0)"
    by (rule bit_word_eqI)
      (auto simp: block_tag_def bit_and_iff bit_or_iff bit_malloc_len bit_malloc_inuse
        dest: small_len_bits [OF assms])
  show "block_tag b AND NOT IP_MALLOC_INUSE = block_tag (False, snd b)"
    by (rule bit_word_eqI)
      (auto simp: block_tag_def bit_and_iff bit_or_iff bit_not_iff bit_malloc_inuse
        dest: small_len_bits [OF assms])
  show "tag_len (block_tag b) = snd b"
    using assms by (simp add: tag_len_def len unat_of_nat)
qed

lemma inuse_nonzero [simp]: "IP_MALLOC_INUSE \<noteq> 0"
  by (simp add: IP_MALLOC_INUSE_def)

lemma block_tag_free: "l < 4096 \<Longrightarrow> of_nat l AND IP_MALLOC_LEN = block_tag (False, l)"
  using block_tag_parts(1) [of "(False, l)"] by (simp add: block_tag_def)

lemma block_tag_used: "l < 4096 \<Longrightarrow> (of_nat l AND IP_MALLOC_LEN) OR IP_MALLOC_INUSE = block_tag (True, l)"
  using block_tag_parts(1) [of "(False, l)"] by (simp add: block_tag_def or.commute)

section \<open>Reading and writing tags\<close>

lemma st16_length [simp]: "length (st16 x) = 2"
  by (simp add: st16_def)

lemma rd_wr_tag: "wr_tag heap i t = Some h \<Longrightarrow> rd_tag h i = Some t"
  using rdn_wrn_same [of heap i "st16 t" h] by (simp add: wr_tag_def rd_tag_def) (simp add: st16_def)

lemma rd_wr_tag_other:
  "wr_tag heap i t = Some h \<Longrightarrow> j + 2 \<le> i \<or> i + 2 \<le> j \<Longrightarrow> rd_tag h j = rd_tag heap j"
  by (auto simp: wr_tag_def rd_tag_def rdn_wrn_before rdn_wrn_after)

lemma wr_tag_ok: "i + 2 \<le> length heap \<Longrightarrow> \<exists>h. wr_tag heap i t = Some h \<and> length h = length heap"
  using wrn_ok [of i "st16 t" heap] by (auto simp: wr_tag_def dest: wrn_length)

lemma tags_at_wr_before:
  "wr_tag heap i t = Some h \<Longrightarrow> i + 2 \<le> p \<Longrightarrow> tags_at heap p bs \<Longrightarrow> tags_at h p bs"
  by (induction bs arbitrary: p) (auto simp: rd_wr_tag_other)

lemma tags_at_wr_after:
  "wr_tag heap i t = Some h \<Longrightarrow> p + blocks_len bs \<le> i \<Longrightarrow> tags_at heap p bs \<Longrightarrow> tags_at h p bs"
  by (induction bs arbitrary: p) (auto simp: rd_wr_tag_other)

end
