(* ===== verification/LowpanFrag.thy ===== *)
theory LowpanFrag
  imports InCksum Lowmsg LowpanUnpack IpMalloc
begin

text \<open>
  Fragmentation and reassembly of \<open>lib6lowpan/lib6lowpan_frag.c\<close>, in the build without mesh
  headers and with header compression (the defaults). The reassembly buffer is allocated in the
  heap of \<open>ip_malloc\<close>, so \<open>us_mem\<close> of the decompressor is that heap. The frame handed to
  \<open>lowpan_frag_get\<close> is an object that starts at \<open>frag\<close>.
\<close>

section \<open>Constants\<close>

definition LIB6LOWPAN_MAX_LEN :: u16 where "LIB6LOWPAN_MAX_LEN = 100"
definition LOWPAN_LINK_MTU :: u16 where "LOWPAN_LINK_MTU = 109"

section \<open>Starting a reassembly\<close>

text \<open>The message \<open>msg\<close> with its header bitmap; the fields are narrower than their sources.\<close>

definition recon_msg :: "bytes \<Rightarrow> nat \<Rightarrow> packed_lowmsg option" where
  "recon_msg pkt len =
     (let msg = \<lparr>lm_headers = 0, lm_len = of_nat len, lm_data = Some pkt\<rparr>
      in map_option (\<lambda>h. msg\<lparr>lm_headers := ucast h\<rparr>) (getHeaderBitmap False msg))"

text \<open>Setting up tag and size from the FRAG1 header, or the size from the constants.\<close>

definition recon_size :: "packed_lowmsg \<Rightarrow> lowpan_reconstruct \<Rightarrow> lowpan_reconstruct option" where
  "recon_size msg recon =
     (if hasFrag1Header msg \<noteq> 0 then do {
        (_, tag) \<leftarrow> getFragDgramTag False msg (r_tag recon);
        (_, sz) \<leftarrow> getFragDgramSize False msg (r_size recon);
        Some (recon\<lparr>r_tag := tag, r_size := sz\<rparr>)
      }
      else Some (recon\<lparr>r_size := LIB6LOWPAN_MAX_LEN + LOWPAN_LINK_MTU\<rparr>))"

text \<open>Filling the buffer from the bytes at \<open>up\<close>: verbatim after the IPv6 dispatch, decompressed
  otherwise. The result is the code to return, the unpacked length, the reconstruction, the flag
  that asks for a new checksum, and the heap. On an error the buffer is freed.\<close>

type_synonym fill_res = "(int \<times> u16 \<times> lowpan_reconstruct \<times> u8 \<times> bytes) option"

definition recon_fail :: "int \<Rightarrow> lowpan_reconstruct \<Rightarrow> bytes \<Rightarrow> nat \<Rightarrow> fill_res" where
  "recon_fail rc recon heap base = map_option (\<lambda>h. (rc, 0, recon, 0, h)) (ip_free heap base)"

definition recon_fill :: "(in6_addr \<Rightarrow> int \<Rightarrow> int \<times> in6_addr) \<Rightarrow> ieee154_frame_addr \<Rightarrow>
    lowpan_reconstruct \<Rightarrow> nat \<Rightarrow> bytes \<Rightarrow> nat \<Rightarrow> nat \<Rightarrow> bytes \<Rightarrow> fill_res" where
  "recon_fill read_ctx frame recon base pkt up len heap =
     (if len < 1 then recon_fail (-5) recon heap base
      else do {
        b \<leftarrow> rd8 pkt up;
        if b = LOWPAN_IPV6_PATTERN then
          if len - 1 < sizeof_ip6_hdr then recon_fail (-7) recon heap base
          else if unat (r_size recon) < len - 1 then recon_fail (-6) recon heap base
          else do {
            body \<leftarrow> rdn pkt (up + 1) (len - 1);
            h1 \<leftarrow> wrn heap base body;
            Some (0, of_nat (len - 1), recon, 0, h1)
          }
        else do {
          (ret, n, s) \<leftarrow> lowpan_unpack_headers read_ctx frame pkt
            \<lparr>us_mem = heap, us_dest = \<lparr>c_pos = 0, c_len = 0\<rparr>, us_cur = \<lparr>c_pos = up, c_len = len\<rparr>,
             us_recon = recon, us_recalc = 0\<rparr>;
          if ret < 0 then recon_fail (-3) (us_recon s) (us_mem s) base
          else Some (0, n, us_recon s, us_recalc s, us_mem s)
        }
      })"

text \<open>Filling in the lengths: of the IPv6 payload, and of the application data if it was elided.\<close>

definition recon_lengths :: "bool \<Rightarrow> u16 \<Rightarrow> nat \<Rightarrow> lowpan_reconstruct \<Rightarrow> bytes
    \<Rightarrow> (lowpan_reconstruct \<times> bytes) option" where
  "recon_lengths frag1 unpacked_len base recon heap =
     (let r1 = (if frag1 then recon else recon\<lparr>r_size := unpacked_len\<rparr>)
               \<lparr>r_bytes_rcvd := unpacked_len\<rparr>
      in do {
        h1 \<leftarrow> wrn heap (base + 4) (st16 (htons (r_size r1 - of_nat sizeof_ip6_hdr)));
        case r_app_len r1 of
          None \<Rightarrow> Some (r1, h1)
        | Some a \<Rightarrow> do {
            th \<leftarrow> r_transport_header r1;
            h2 \<leftarrow> wrn h1 a (st16 (htons (r_size r1 - of_nat (th - base))));
            Some (r1, h2)
          }
      })"

text \<open>The new UDP checksum after a decompression that used a context. None: \<open>r_app_len\<close> or
  \<open>r_transport_header\<close> is a null pointer, or the length read through it runs out of the heap.\<close>

definition recon_cksum :: "nat \<Rightarrow> lowpan_reconstruct \<Rightarrow> bytes \<Rightarrow> bytes option" where
  "recon_cksum base recon heap = do {
     nxt \<leftarrow> rd8 heap (base + 6);
     if nxt \<noteq> IANA_UDP then Some heap
     else do {
       udp \<leftarrow> r_transport_header recon;
       h1 \<leftarrow> wrn heap (udp + 6) [0, 0];
       a \<leftarrow> r_app_len recon;
       al \<leftarrow> rdn h1 a 2;
       let v = [\<lparr>iov_base = drop udp h1, iov_len = sizeof_udp_hdr\<rparr>,
                \<lparr>iov_base = drop (udp + sizeof_udp_hdr) h1,
                 iov_len = to_size_t (uint (ntohs (ld16 (al ! 0) (al ! 1))) - int sizeof_udp_hdr)\<rparr>];
       src \<leftarrow> rdn h1 (base + 8) 16;
       dst \<leftarrow> rdn h1 (base + 24) 16;
       ck \<leftarrow> msg_cksum src dst v IANA_UDP;
       wrn h1 (udp + 6) (st16 (htons ck))
     }
   }"

definition lowpan_recon_start :: "(in6_addr \<Rightarrow> int \<Rightarrow> int \<times> in6_addr) \<Rightarrow> ieee154_frame_addr \<Rightarrow>
    lowpan_reconstruct \<Rightarrow> bytes \<Rightarrow> nat \<Rightarrow> bytes \<Rightarrow> (int \<times> lowpan_reconstruct \<times> bytes) option" where
  "lowpan_recon_start read_ctx frame recon pkt len heap = do {
     msg \<leftarrow> recon_msg pkt len;
     if lm_headers msg = LOWMSG_NALP then Some (-1, recon, heap)
     else
       let up = getLowpanPayload False msg;
           len1 = to_size_t (int len - int up);
           frag1 = hasFrag1Header msg \<noteq> 0
       in if len1 = 0 then Some (-4, recon, heap)
          else do {
            r1 \<leftarrow> recon_size msg recon;
            (p, h1) \<leftarrow> ip_malloc heap (r_size r1);
            case p of
              None \<Rightarrow> Some (-2, r1\<lparr>r_buf := None\<rparr>, h1)
            | Some base \<Rightarrow> do {
                h2 \<leftarrow> wrn h1 base (replicate (unat (r_size r1)) 0);
                (rc, n, r2, recalc, h3) \<leftarrow>
                  recon_fill read_ctx frame (r1\<lparr>r_buf := Some base, r_app_len := None\<rparr>) base pkt up
                    len1 h2;
                if rc < 0 then Some (rc, r2, h3)
                else do {
                  (r3, h4) \<leftarrow> recon_lengths frag1 n base r2 h3;
                  h5 \<leftarrow> (if recalc \<noteq> 0 then recon_cksum base r3 h4 else Some h4);
                  Some (0, r3, h5)
                }
              }
          }
   }"

section \<open>Adding a fragment\<close>

text \<open>\<open>len\<close> is a \<open>size_t\<close> and wraps below zero; so does the sum in the bounds check.\<close>

definition lowpan_recon_add ::
  "lowpan_reconstruct \<Rightarrow> bytes \<Rightarrow> nat \<Rightarrow> bytes \<Rightarrow> (int \<times> lowpan_reconstruct \<times> bytes) option" where
  "lowpan_recon_add recon pkt len heap = do {
     msg \<leftarrow> recon_msg pkt len;
     if lm_headers msg = LOWMSG_NALP then Some (-1, recon, heap)
     else if hasFragNHeader msg = 0 then Some (-2, recon, heap)
     else
       let up = getLowpanPayload False msg;
           len1 = to_size_t (int len - int up)
       in if unat (r_size recon) < (unat (r_bytes_rcvd recon) + len1) mod 2 ^ 64
          then Some (-3, recon, heap)
          else do {
            base \<leftarrow> r_buf recon;
            body \<leftarrow> rdn pkt up len1;
            h1 \<leftarrow> wrn heap (base + unat (r_bytes_rcvd recon)) body;
            Some (0, recon\<lparr>r_bytes_rcvd := r_bytes_rcvd recon + of_nat len1\<rparr>, h1)
          }
   }"

section \<open>Producing fragments\<close>

text \<open>A message laid over the frame from a position on, and the frame with its bytes put back.\<close>

definition lowmsg_at :: "bytes \<Rightarrow> nat \<Rightarrow> nat \<Rightarrow> packed_lowmsg" where
  "lowmsg_at frag p n = \<lparr>lm_headers = 0, lm_len = of_nat n, lm_data = Some (drop p frag)\<rparr>"

definition put_back :: "bytes \<Rightarrow> nat \<Rightarrow> packed_lowmsg \<Rightarrow> bytes" where
  "put_back frag p m = take p frag @ (case lm_data m of None \<Rightarrow> [] | Some d \<Rightarrow> d)"

text \<open>Room left for payload, rounded down to units of eight bytes.\<close>

definition round_payload :: "nat \<Rightarrow> u16" where
  "round_payload room = (let e = of_nat room in e - e mod 8)"

text \<open>Inserting a FRAG1 header at \<open>lp\<close>: the packed headers move up by its length.\<close>

definition insert_frag1 :: "bytes \<Rightarrow> nat \<Rightarrow> nat \<Rightarrow> u16 \<Rightarrow> u16 \<Rightarrow> bytes option" where
  "insert_frag1 frag lp buf plen tag = do {
     hdrs \<leftarrow> rdn frag lp (buf - lp);
     f1 \<leftarrow> wrn frag (lp + LOWMSG_FRAG1_LEN) hdrs;
     (_, m1) \<leftarrow> setupHeaders False (lowmsg_at f1 lp LOWMSG_FRAG1_LEN) (ucast LOWMSG_FRAG1_HDR);
     (_, m2) \<leftarrow> setFragDgramSize False m1 (plen + of_nat sizeof_ip6_hdr);
     (_, m3) \<leftarrow> setFragDgramTag False m2 tag;
     Some (put_back f1 lp m3)
   }"

definition first_frag :: "(in6_addr \<Rightarrow> int) \<Rightarrow> bytes \<Rightarrow> nat \<Rightarrow> nat \<Rightarrow> ip6_packet \<Rightarrow>
    ieee154_frame_addr \<Rightarrow> lowpan_ctx \<Rightarrow> (int \<times> bytes \<times> lowpan_ctx) option" where
  "first_frag match frag lp len packet frame ctx =
     (let plen = ntohs (ip6_plen (ip6_hdr packet))
      in do {
        r \<leftarrow> lowpan_pack_headers match packet frame frag lp;
        case r of
          Inl _ \<Rightarrow> Some (-1, frag, ctx)
        | Inr (f1, buf1) \<Rightarrow> do {
            (offset, f2, c) \<leftarrow>
              pack_nhc_chain f1 \<lparr>c_pos = buf1, c_len = to_size_t (int len - int buf1)\<rparr> packet;
            if offset < 0 then Some (-2, f2, ctx)
            else
              let buf = c_pos c;
                  extra = of_int (uint plen - offset) :: u16
              in do {
                (extra', f3, buf') \<leftarrow>
                  (if to_size_t (int len - int buf) < unat extra then
                     map_option
                       (\<lambda>f. (round_payload (to_size_t (int len - int (buf + LOWMSG_FRAG1_LEN))), f,
                             buf + LOWMSG_FRAG1_LEN))
                       (insert_frag1 f2 lp buf plen (ctx_tag ctx))
                   else Some (extra, f2, buf));
                (n, body) \<leftarrow> iov_read (ip6_data packet) offset (uint extra') (drop buf' f3);
                let f4 = take buf' f3 @ body;
                if n \<noteq> uint extra' then Some (-3, f4, ctx)
                else Some (int buf' + uint extra', f4,
                  ctx\<lparr>ctx_offset := of_int (offset + uint extra' + int sizeof_ip6_hdr)\<rparr>)
              }
          }
      })"

definition next_frag :: "bytes \<Rightarrow> nat \<Rightarrow> nat \<Rightarrow> ip6_packet \<Rightarrow> lowpan_ctx
    \<Rightarrow> (int \<times> bytes \<times> lowpan_ctx) option" where
  "next_frag frag lp len packet ctx =
     (let size = ntohs (ip6_plen (ip6_hdr packet)) + of_nat sizeof_ip6_hdr
      in do {
        (_, m1) \<leftarrow> setupHeaders False (lowmsg_at frag lp LOWMSG_FRAGN_LEN) (ucast LOWMSG_FRAGN_HDR);
        (r2, m2) \<leftarrow> setFragDgramSize False m1 size;
        if r2 \<noteq> 0 then Some (-5, put_back frag lp m2, ctx)
        else do {
          (r3, m3) \<leftarrow> setFragDgramTag False m2 (ctx_tag ctx);
          if r3 \<noteq> 0 then Some (-6, put_back frag lp m3, ctx)
          else do {
            (r4, m4) \<leftarrow> setFragDgramOffset False m3 (ucast (ctx_offset ctx div 8));
            let f1 = put_back frag lp m4;
            if r4 \<noteq> 0 then Some (-7, f1, ctx)
            else
              let buf = lp + LOWMSG_FRAGN_LEN;
                  left = size - ctx_offset ctx;
                  room = to_size_t (int len - int buf);
                  extra = (if room < unat left then round_payload room else left)
              in do {
                (n, body) \<leftarrow> iov_read (ip6_data packet)
                  (to_int (int (to_size_t (uint (ctx_offset ctx) - int sizeof_ip6_hdr))))
                  (uint extra) (drop buf f1);
                let f2 = take buf f1 @ body;
                if n \<noteq> uint extra then Some (-4, f2, ctx)
                else
                  let ctx' = ctx\<lparr>ctx_offset := ctx_offset ctx + extra\<rparr>
                  in Some (if extra = 0 then 0 else int buf + uint extra, f2, ctx')
              }
          }
        }
      })"

definition lowpan_frag_get :: "(in6_addr \<Rightarrow> int) \<Rightarrow> bytes \<Rightarrow> nat \<Rightarrow> ip6_packet \<Rightarrow>
    ieee154_frame_addr \<Rightarrow> lowpan_ctx \<Rightarrow> (int \<times> bytes \<times> lowpan_ctx) option" where
  "lowpan_frag_get match frag len packet frame ctx = do {
     (f1, lp) \<leftarrow> pack_ieee154_header frag len frame;
     if ctx_offset ctx = 0 then first_frag match f1 lp len packet frame ctx
     else do {
       (f2, lp2) \<leftarrow> pack_ieee154_header f1 len frame;
       next_frag f2 lp2 len packet ctx
     }
   }"

end
