(* ===== verification/LowpanFragProps.thy ===== *)
theory LowpanFragProps
  imports LowpanFrag LowmsgProps
begin

text \<open>
  Fragments after the first: what a sender puts into them and what a receiver does with them, and
  the whole transfer of a datagram from the first byte not yet sent to the last.
\<close>

section \<open>The header of a fragment\<close>

definition fragn_hdr :: "u16 \<Rightarrow> u16 \<Rightarrow> u8 \<Rightarrow> bytes" where
  "fragn_hdr sz tag off =
     [0xe0 OR ucast (drop_bit 8 (sz AND 0x7ff)), ucast ((sz AND 0x7ff) AND 0xff),
      ucast (drop_bit 8 tag), ucast (tag AND 0xff), off]"

lemma length_fragn_hdr [simp]: "length (fragn_hdr sz tag off) = 5"
  by (simp add: fragn_hdr_def)

lemma fragn_hdr_dispatch: "drop_bit 3 (fragn_hdr sz tag off ! 0) = LOWPAN_FRAGN_PATTERN"
proof -
  have "(0xe0 :: u8) AND 0xf8 = 0xe0" by simp
  then have "drop_bit 3 (0xe0 OR ucast (drop_bit 8 (sz AND 0x7ff))) = drop_bit 3 (0xe0 :: u8)"
    using dispatch_keep [where b = "0xe0" and sz = sz] by metis
  then show ?thesis by (simp add: fragn_hdr_def lowpan_patterns)
qed

text \<open>The four calls that lay the header out.\<close>

definition fragn_msg :: "bytes \<Rightarrow> packed_lowmsg" where
  "fragn_msg d = \<lparr>lm_headers = LOWMSG_FRAGN_HDR, lm_len = 5, lm_data = Some d\<rparr>"

lemma fragn_setup:
  "setupHeaders False \<lparr>lm_headers = 0, lm_len = 5, lm_data = Some (b # d)\<rparr> (ucast LOWMSG_FRAGN_HDR)
   = Some (0, fragn_msg (0xe0 # d))"
  by (simp add: setup_scan_defs fragn_msg_def)

lemma fragn_size:
  "setFragDgramSize False (fragn_msg (0xe0 # b # d)) sz =
   Some (0, fragn_msg ((0xe0 OR ucast (drop_bit 8 (sz AND 0x7ff))) # ucast ((sz AND 0x7ff) AND 0xff) # d))"
  by (simp add: setFragDgramSize_def with_frag_def fragn_msg_def mesh_bcast_len_def rd8_def wrn_def
      put_data_def lowpan_patterns)

lemma fragn_tag:
  "drop_bit 3 h = LOWPAN_FRAGN_PATTERN \<Longrightarrow>
   setFragDgramTag False (fragn_msg (h # a # b # c # d)) tag =
   Some (0, fragn_msg (h # a # ucast (drop_bit 8 tag) # ucast (tag AND 0xff) # d))"
  by (simp add: setFragDgramTag_def with_frag_def fragn_msg_def mesh_bcast_len_def rd8_def wrn_def
      put_data_def)

lemma fragn_offset:
  "drop_bit 3 h = LOWPAN_FRAGN_PATTERN \<Longrightarrow>
   setFragDgramOffset False (fragn_msg (h # a # b # c # e # d)) off =
   Some (0, fragn_msg (h # a # b # c # off # d))"
  by (simp add: setFragDgramOffset_def with_frag_def fragn_msg_def mesh_bcast_len_def rd8_def wr8_def
      put_data_def)

lemma five_bytes: "5 \<le> length d \<Longrightarrow> \<exists>a b c e f. d = a # b # c # e # f # drop 5 d"
  by (cases d; cases "tl d"; cases "tl (tl d)"; cases "tl (tl (tl d))"; cases "tl (tl (tl (tl d)))") auto

text \<open>Such a fragment is recognised for what it is.\<close>

lemma fragn_recognised:
  assumes "drop_bit 3 (pkt ! 0) = LOWPAN_FRAGN_PATTERN" and "0 < len" and "len < 256" and "len \<le> length pkt"
  shows "recon_msg pkt len = Some \<lparr>lm_headers = LOWMSG_FRAGN_HDR, lm_len = of_nat len, lm_data = Some pkt\<rparr>"
proof -
  have "drop_bit 6 (pkt ! 0) = drop_bit 3 (drop_bit 3 (pkt ! 0))" by simp
  moreover have "pkt \<noteq> []" using assms by auto
  ultimately have "drop_bit 6 (pkt ! 0) = 3" "pkt \<noteq> []" unfolding assms(1) by (simp_all add: lowpan_patterns)
  then show ?thesis
    using assms by (simp add: recon_msg_def getHeaderBitmap_def byte_test_def scan_step_def rd8_def Let_def
        lowpan_patterns lowpan_lengths unat_of_nat)
qed


section \<open>The receiver\<close>

lemma recon_add_fragn:
  assumes "drop_bit 3 (pkt ! 0) = LOWPAN_FRAGN_PATTERN" and "5 \<le> len" and "len < 256" and "len \<le> length pkt"
  shows "lowpan_recon_add recon pkt len heap =
    (if unat (r_size recon) < unat (r_bytes_rcvd recon) + (len - 5) then Some (-3, recon, heap)
     else do {
       base \<leftarrow> r_buf recon;
       h \<leftarrow> wrn heap (base + unat (r_bytes_rcvd recon)) (take (len - 5) (drop 5 pkt));
       Some (0, recon\<lparr>r_bytes_rcvd := r_bytes_rcvd recon + of_nat (len - 5)\<rparr>, h)
     })"
proof -
  have "0 < len" using assms(2) by simp
  note msg = fragn_recognised [OF assms(1) this assms(3,4)]
  have len: "to_size_t (int len - 5) = len - 5"
    using assms(2,3) by (simp add: to_size_t_def nat_diff_distrib)
  have "(unat (r_bytes_rcvd recon) + (len - 5)) mod 2 ^ 64 = unat (r_bytes_rcvd recon) + (len - 5)"
    using assms(3) unat_u16_lt [of "r_bytes_rcvd recon"] by simp
  then show ?thesis
    using assms(2,4) len
    by (simp add: lowpan_recon_add_def msg hasFragNHeader_def getLowpanPayload_def mesh_bcast_len_def
        lowpan_lengths lowpan_patterns rdn_def)
qed

section \<open>The sender\<close>

definition frag_room :: "nat \<Rightarrow> nat \<Rightarrow> nat \<Rightarrow> nat" where
  "frag_room lp len left = (let room = len - lp - 5 in if room < left then room - room mod 8 else left)"

lemma frag_room_le: "frag_room lp len left \<le> left" "lp + 5 \<le> len \<Longrightarrow> frag_room lp len left \<le> len - lp - 5"
  by (auto simp: frag_room_def Let_def)

lemma unat_round_payload: "room < 65536 \<Longrightarrow> unat (round_payload room) = room - room mod 8"
proof -
  assume r: "room < 65536"
  have "(of_nat room :: u16) mod 8 \<le> of_nat room" by (simp add: word_le_nat_alt unat_mod)
  then show ?thesis using r by (simp add: round_payload_def Let_def unat_sub unat_mod unat_of_nat)
qed

text \<open>The frame once its header is laid out.\<close>

lemma next_frag_header:
  assumes "lp + 5 \<le> length frag"
  shows "\<exists>ma mb mc md.
    setupHeaders False (lowmsg_at frag lp LOWMSG_FRAGN_LEN) (ucast LOWMSG_FRAGN_HDR) = Some (0, ma) \<and>
    setFragDgramSize False ma sz = Some (0, mb) \<and> setFragDgramTag False mb tag = Some (0, mc) \<and>
    setFragDgramOffset False mc off = Some (0, md) \<and>
    put_back frag lp md = take lp frag @ fragn_hdr sz tag off @ drop (lp + 5) frag"
proof -
  have "5 \<le> length (drop lp frag)" "drop 5 (drop lp frag) = drop (lp + 5) frag"
    using assms by (simp_all add: add.commute)
  then obtain a b c e f where d: "drop lp frag = a # b # c # e # f # drop (lp + 5) frag"
    using five_bytes [of "drop lp frag"] by auto
  define h0 :: u8 where "h0 = 0xe0 OR ucast (drop_bit 8 (sz AND 0x7ff))"
  have h0: "drop_bit 3 h0 = LOWPAN_FRAGN_PATTERN"
    using fragn_hdr_dispatch [of sz tag off] by (simp add: fragn_hdr_def h0_def)
  have "lowmsg_at frag lp LOWMSG_FRAGN_LEN =
      \<lparr>lm_headers = 0, lm_len = 5, lm_data = Some (a # b # c # e # f # drop (lp + 5) frag)\<rparr>"
    by (simp add: lowmsg_at_def d lowpan_lengths)
  then show ?thesis
    using fragn_tag [OF h0] fragn_offset [OF h0]
    by (simp add: fragn_setup fragn_size h0_def [symmetric])
      (simp add: put_back_def fragn_msg_def fragn_hdr_def h0_def)
qed

lemma next_frag_spec:
  assumes room: "lp + 5 \<le> len" "len < 256" "len \<le> length frag" and ok: "iov_ok (ip6_data packet)"
    and dgram: "dgram = unat (ntohs (ip6_plen (ip6_hdr packet))) + 40" "dgram < 2 ^ 16"
    and off: "unat (ctx_offset ctx) = off" "40 \<le> off" "off \<le> dgram"
    and data: "dgram - 40 \<le> length (iov_bytes (ip6_data packet))"
    and extra: "extra = frag_room lp len (dgram - off)"
  shows "next_frag frag lp len packet ctx =
    Some (if extra = 0 then 0 else int (lp + 5 + extra),
      take lp frag @ fragn_hdr (of_nat dgram) (ctx_tag ctx) (ucast (ctx_offset ctx div 8))
        @ take extra (drop (off - 40) (iov_bytes (ip6_data packet))) @ drop (lp + 5 + extra) frag,
      ctx\<lparr>ctx_offset := of_nat (off + extra)\<rparr>)"
proof -
  let ?D = "iov_bytes (ip6_data packet)"
  define sz :: u16 where "sz = ntohs (ip6_plen (ip6_hdr packet)) + of_nat sizeof_ip6_hdr"
  define x where "x = (let left = sz - ctx_offset ctx; room = to_size_t (int len - int (lp + LOWMSG_FRAGN_LEN))
      in if room < unat left then round_payload room else left)"
  have sz: "sz = of_nat dgram" "unat sz = dgram"
    using dgram by (simp_all add: sz_def sizeof_ip6_hdr_def unat_word_ariths)
  have "ctx_offset ctx \<le> sz" using sz off by (simp add: word_le_nat_alt)
  then have left: "unat (sz - ctx_offset ctx) = dgram - off" using sz off by (simp add: unat_sub)
  have rm: "to_size_t (int len - int (lp + LOWMSG_FRAGN_LEN)) = len - lp - 5"
    using room by (simp add: to_size_t_def lowpan_lengths nat_diff_distrib)
  have x: "unat x = extra"
    using room unfolding x_def Let_def rm left extra frag_room_def
    by (simp add: left unat_round_payload)
  have le: "extra \<le> dgram - off" "extra \<le> len - lp - 5" using frag_room_le room extra by auto
  have "extra = min extra (length ?D - (off - 40))" using le(1) data off by simp
  moreover have "off - 40 < 2 ^ 31" "extra < 2 ^ 31" "extra \<le> length (drop (lp + 5) frag)"
    using off dgram le room by simp_all
  ultimately have rd: "iov_read (ip6_data packet) (int (off - 40)) (int extra) (drop (lp + 5) frag) =
      Some (int extra, take extra (drop (off - 40) ?D) @ drop extra (drop (lp + 5) frag))"
    using iov_read_spec [OF ok] by blast
  have at: "to_int (int (to_size_t (uint (ctx_offset ctx) - int sizeof_ip6_hdr))) = int (off - 40)"
  proof -
    have "uint (ctx_offset ctx) - int sizeof_ip6_hdr = int (off - 40)"
      using off by (simp add: sizeof_ip6_hdr_def flip: off(1))
    moreover have "off - 40 < 2 ^ 31" "off - 40 < 2 ^ 64" using off dgram by simp_all
    ultimately show ?thesis by (simp only: to_size_t_nat [of "off - 40"] to_int_nat [of "off - 40"])
  qed
  obtain ma mb mc md where h:
    "setupHeaders False (lowmsg_at frag lp LOWMSG_FRAGN_LEN) (ucast LOWMSG_FRAGN_HDR) = Some (0, ma)"
    "setFragDgramSize False ma sz = Some (0, mb)" "setFragDgramTag False mb (ctx_tag ctx) = Some (0, mc)"
    "setFragDgramOffset False mc (ucast (ctx_offset ctx div 8)) = Some (0, md)"
    "put_back frag lp md = take lp frag @ fragn_hdr sz (ctx_tag ctx) (ucast (ctx_offset ctx div 8)) @ drop (lp + 5) frag"
    using next_frag_header [of lp frag sz "ctx_tag ctx" "ucast (ctx_offset ctx div 8)"] room by auto
  have "lp + 5 \<le> length frag" using room by simp
  then have "drop (lp + 5) (put_back frag lp md) = drop (lp + 5) frag"
    "take (lp + 5) (put_back frag lp md) = take lp frag @ fragn_hdr sz (ctx_tag ctx) (ucast (ctx_offset ctx div 8))"
    unfolding h(5) by simp_all
  note frame = this
  have x_eq: "(if to_size_t (int len - int (lp + LOWMSG_FRAGN_LEN)) < unat (sz - ctx_offset ctx)
      then round_payload (to_size_t (int len - int (lp + LOWMSG_FRAGN_LEN))) else sz - ctx_offset ctx) = x"
    by (simp only: x_def Let_def)
  have "next_frag frag lp len packet ctx = do {
      (n, body) \<leftarrow> iov_read (ip6_data packet) (to_int (int (to_size_t (uint (ctx_offset ctx) - int sizeof_ip6_hdr))))
        (uint x) (drop (lp + LOWMSG_FRAGN_LEN) (put_back frag lp md));
      if n \<noteq> uint x then Some (-4, take (lp + LOWMSG_FRAGN_LEN) (put_back frag lp md) @ body, ctx)
      else Some (if x = 0 then 0 else int (lp + LOWMSG_FRAGN_LEN) + uint x,
        take (lp + LOWMSG_FRAGN_LEN) (put_back frag lp md) @ body, ctx\<lparr>ctx_offset := ctx_offset ctx + x\<rparr>)
    }"
    unfolding next_frag_def Let_def sz_def [symmetric] x_eq h(1) by (simp add: h)
  moreover have "uint x = int extra" "x = 0 \<longleftrightarrow> extra = 0" "ctx_offset ctx + x = of_nat (off + extra)"
    by (simp_all flip: off(1) x add: unat_eq_zero)
  ultimately show ?thesis
    using rd frame at by (simp add: lowpan_lengths sz(1) add.commute [of extra "lp + 5"])
qed


section \<open>A transfer\<close>

text \<open>Fragments made and received one after the other, at most \<open>n\<close> of them: what follows the
  802.15.4 header of a frame, \<open>lp\<close> bytes, is what the receiver is given. The sender ends with 0.\<close>

primrec relay :: "nat \<Rightarrow> bytes \<Rightarrow> nat \<Rightarrow> nat \<Rightarrow> ip6_packet \<Rightarrow> lowpan_ctx \<Rightarrow> lowpan_reconstruct \<Rightarrow> bytes
    \<Rightarrow> (int \<times> lowpan_reconstruct \<times> bytes) option" where
  "relay 0 frag lp len packet ctx recon heap = None"
| "relay (Suc n) frag lp len packet ctx recon heap = do {
     (r, frag, ctx) \<leftarrow> next_frag frag lp len packet ctx;
     if r \<le> 0 then Some (r, recon, heap)
     else do {
       (rc, recon, heap) \<leftarrow> lowpan_recon_add recon (drop lp (take (nat r) frag)) (nat r - lp) heap;
       if rc \<noteq> 0 then Some (rc, recon, heap) else relay n frag lp len packet ctx recon heap
     }
   }"

lemma frag_room_0:
  assumes "lp + 13 \<le> len"
  shows "frag_room lp len left = 0 \<longleftrightarrow> left = 0"
proof -
  have "8 \<le> len - lp - 5" using assms by simp
  then have "(len - lp - 5) mod 8 < len - lp - 5" using mod_less_divisor [of 8 "len - lp - 5"] by linarith
  then show ?thesis
    unfolding frag_room_def Let_def by (cases "len - lp - 5 < left") (simp_all only: if_True if_False, linarith+)
qed

lemma received_chunk:
  assumes "lp \<le> length frag" and "length chunk = extra"
  shows "drop lp (take (nat (int (lp + 5 + extra))) (take lp frag @ fragn_hdr sz tag off @ chunk @ rest))
    = fragn_hdr sz tag off @ chunk"
  using assms by simp

lemma relay_step:
  assumes "lp + 13 \<le> len" and "len < 256" and "len \<le> length frag" and "iov_ok (ip6_data packet)"
    and dgram: "dgram = unat (ntohs (ip6_plen (ip6_hdr packet))) + 40" "dgram < 2 ^ 16"
    and off: "unat (ctx_offset ctx) = off" "40 \<le> off" "off < dgram"
    and data: "dgram - 40 \<le> length (iov_bytes (ip6_data packet))"
    and extra: "extra = frag_room lp len (dgram - off)"
    and recon: "r_size recon = of_nat dgram" "r_bytes_rcvd recon = ctx_offset ctx" "r_buf recon = Some base"
    and heap: "base + dgram \<le> length heap"
  defines "chunk \<equiv> take extra (drop (off - 40) (iov_bytes (ip6_data packet)))"
  shows "\<exists>frag'. length frag' = length frag \<and> relay (Suc n) frag lp len packet ctx recon heap =
    relay n frag' lp len packet (ctx\<lparr>ctx_offset := of_nat (off + extra)\<rparr>)
      (recon\<lparr>r_bytes_rcvd := of_nat (off + extra)\<rparr>)
      (take (base + off) heap @ chunk @ drop (base + off + extra) heap)"
proof -
  have le: "extra \<le> dgram - off" "extra \<le> len - lp - 5" "extra \<noteq> 0"
    using frag_room_le [of lp len "dgram - off"] frag_room_0 [of lp len "dgram - off"] assms(1) off extra by auto
  have chunk: "length chunk = extra" using le off data by (simp add: chunk_def)
  let ?h = "fragn_hdr (of_nat dgram) (ctx_tag ctx) (ucast (ctx_offset ctx div 8))"
  let ?frag = "take lp frag @ ?h @ chunk @ drop (lp + 5 + extra) frag"
  have nf: "next_frag frag lp len packet ctx =
      Some (int (lp + 5 + extra), ?frag, ctx\<lparr>ctx_offset := of_nat (off + extra)\<rparr>)"
    using next_frag_spec [OF _ assms(2,3,4) dgram off(1,2) _ data extra] assms(1) off le by (simp add: chunk_def)
  have rc: "lowpan_recon_add recon (?h @ chunk) (5 + extra) heap =
      Some (0, recon\<lparr>r_bytes_rcvd := of_nat (off + extra)\<rparr>,
        take (base + off) heap @ chunk @ drop (base + off + extra) heap)"
  proof -
    have "drop_bit 3 ((?h @ chunk) ! 0) = LOWPAN_FRAGN_PATTERN"
      using fragn_hdr_dispatch by (simp add: nth_append)
    moreover have "5 + extra < 256" "5 + extra \<le> length (?h @ chunk)" using le assms(1,2) chunk by simp_all
    ultimately have "lowpan_recon_add recon (?h @ chunk) (5 + extra) heap =
      (if unat (r_size recon) < unat (r_bytes_rcvd recon) + extra then Some (-3, recon, heap)
       else do {
         base \<leftarrow> r_buf recon;
         h \<leftarrow> wrn heap (base + unat (r_bytes_rcvd recon)) (take extra (drop 5 (?h @ chunk)));
         Some (0, recon\<lparr>r_bytes_rcvd := r_bytes_rcvd recon + of_nat extra\<rparr>, h)
       })"
      using recon_add_fragn [of "?h @ chunk" "5 + extra" recon heap] by simp
    moreover have "unat (r_size recon) = dgram" using recon(1) dgram(2) by (simp add: unat_of_nat)
    moreover have "unat (r_bytes_rcvd recon) = off" using recon(2) off(1) by simp
    moreover have "r_bytes_rcvd recon + of_nat extra = of_nat (off + extra)"
      using recon(2) by (simp flip: off(1))
    moreover have "take extra (drop 5 (?h @ chunk)) = chunk" using chunk by simp
    moreover have "\<not> dgram < off + extra" using le(1) off(3) by simp
    moreover have "wrn heap (base + off) chunk = Some (take (base + off) heap @ chunk @ drop (base + off + extra) heap)"
      using heap le(1) off(3) chunk by (simp add: wrn_def)
    ultimately show ?thesis by (simp only: recon(3) if_False option.simps Option.bind.simps)
  qed
  have "length ?frag = length frag" using chunk le assms(1,3) by simp
  moreover have "drop lp (take (nat (int (lp + 5 + extra))) ?frag) = ?h @ chunk"
    using assms(1,3) chunk by (intro received_chunk) simp_all
  moreover have "nat (int (lp + 5 + extra)) - lp = 5 + extra" "\<not> int (lp + 5 + extra) \<le> 0" by simp_all
  ultimately show ?thesis
    by (intro exI [of _ ?frag] conjI) (simp_all only: relay.simps nf Option.bind.simps prod.case rc
      if_False not_False_eq_True simp_thms)
qed

lemma relay_end:
  assumes "lp + 13 \<le> len" and "len < 256" and "len \<le> length frag" and "iov_ok (ip6_data packet)"
    and "dgram = unat (ntohs (ip6_plen (ip6_hdr packet))) + 40" "dgram < 2 ^ 16"
    and "unat (ctx_offset ctx) = dgram" and "dgram - 40 \<le> length (iov_bytes (ip6_data packet))"
  shows "relay (Suc n) frag lp len packet ctx recon heap = Some (0, recon, heap)"
  using next_frag_spec [OF _ assms(2,3,4,5,6,7) _ _ assms(8), where extra = 0 and lp = lp] assms(1,5)
  by (simp add: frag_room_def Let_def)

lemma relay_ok:
  assumes "lp + 13 \<le> len" and "len < 256" and "iov_ok (ip6_data packet)"
    and dgram: "dgram = unat (ntohs (ip6_plen (ip6_hdr packet))) + 40" "dgram < 2 ^ 16"
    and data: "dgram - 40 \<le> length (iov_bytes (ip6_data packet))"
    and "len \<le> length frag" and "unat (ctx_offset ctx) = off" "40 \<le> off" "off \<le> dgram"
    and "r_size recon = of_nat dgram" "r_bytes_rcvd recon = ctx_offset ctx" "r_buf recon = Some base"
    and "base + dgram \<le> length heap" and "dgram - off < n"
  shows "relay n frag lp len packet ctx recon heap = Some (0, recon\<lparr>r_bytes_rcvd := of_nat dgram\<rparr>,
    take (base + off) heap @ take (dgram - off) (drop (off - 40) (iov_bytes (ip6_data packet)))
      @ drop (base + dgram) heap)"
  using assms(7-)
proof (induction n arbitrary: frag ctx off recon heap)
  case 0
  then show ?case by simp
next
  case (Suc n)
  let ?D = "iov_bytes (ip6_data packet)"
  show ?case
  proof (cases "off = dgram")
    case True
    have "r_bytes_rcvd recon = of_nat dgram" unfolding True [symmetric] Suc.prems(2) [symmetric] Suc.prems(6) by simp
    then show ?thesis
      using relay_end [OF assms(1,2) Suc.prems(1) assms(3) dgram _ data] Suc.prems True by simp
  next
    case False
    define extra where "extra = frag_room lp len (dgram - off)"
    have le: "extra \<le> dgram - off" "extra \<noteq> 0"
      using frag_room_le [of lp len "dgram - off"] frag_room_0 [OF assms(1), of "dgram - off"]
        False Suc.prems(4) by (auto simp: extra_def)
    let ?chunk = "take extra (drop (off - 40) ?D)"
    let ?heap = "take (base + off) heap @ ?chunk @ drop (base + off + extra) heap"
    let ?ctx = "ctx\<lparr>ctx_offset := of_nat (off + extra)\<rparr>"
    let ?recon = "recon\<lparr>r_bytes_rcvd := of_nat (off + extra)\<rparr>"
    have lt: "off < dgram" using False Suc.prems(4) by simp
    obtain frag' where f: "length frag' = length frag"
      "relay (Suc n) frag lp len packet ctx recon heap = relay n frag' lp len packet ?ctx ?recon ?heap"
      using relay_step [OF assms(1,2) Suc.prems(1) assms(3) dgram Suc.prems(2,3) lt data extra_def Suc.prems(5,6,7,8)]
      by blast
    have chunk: "length ?chunk = extra" using le data lt Suc.prems(3) by simp
    have off': "unat (of_nat (off + extra) :: u16) = off + extra"
      using dgram(2) le(1) lt by (simp add: unat_of_nat del: of_nat_add)
    have ih: "relay n frag' lp len packet ?ctx ?recon ?heap = Some (0, ?recon\<lparr>r_bytes_rcvd := of_nat dgram\<rparr>,
      take (base + (off + extra)) ?heap @ take (dgram - (off + extra)) (drop (off + extra - 40) ?D)
        @ drop (base + dgram) ?heap)"
      using Suc.prems f(1) le lt chunk dgram(2) by (intro Suc.IH) (simp_all add: off' del: of_nat_add)
    have e1: "take (base + (off + extra)) ?heap = take (base + off) heap @ ?chunk"
      using chunk Suc.prems(8) le lt by (simp add: take_append)
    have e2: "drop (base + dgram) ?heap = drop (base + dgram) heap"
      using chunk Suc.prems(8) le lt by (simp add: drop_append add.commute [of dgram])
    have e3: "?chunk @ take (dgram - (off + extra)) (drop (off + extra - 40) ?D) =
        take (dgram - off) (drop (off - 40) ?D)"
    proof -
      have "extra + (dgram - (off + extra)) = dgram - off" using le by simp
      then have "take (dgram - off) (drop (off - 40) ?D) =
          ?chunk @ take (dgram - (off + extra)) (drop extra (drop (off - 40) ?D))"
        using take_add [of extra "dgram - (off + extra)" "drop (off - 40) ?D"] by (simp only:)
      moreover have "drop extra (drop (off - 40) ?D) = drop (off + extra - 40) ?D"
        using Suc.prems(3) by (simp add: add.commute [of extra])
      ultimately show ?thesis by (simp only:)
    qed
    show ?thesis unfolding f(2) ih e1 e2 e3 [symmetric] append_assoc by simp
  qed
qed


section \<open>Properties\<close>

text \<open>C19: once its first fragment has been received, the rest of a datagram arrives: the fragments the sender
  makes, each filled with what fits in the frame in units of eight bytes, given in order to the
  receiver, complete its buffer with exactly the bytes of the sender's data from there on, in
  finitely many fragments, write nothing else, and leave the reassembly complete.\<close>

theorem fragments_transfer_datagram:
  assumes "lp + 13 \<le> len" and "len < 256" and "len \<le> length frag" and "iov_ok (ip6_data packet)"
    and "dgram = unat (ntohs (ip6_plen (ip6_hdr packet))) + 40" and "dgram < 2 ^ 16"
    and "dgram - 40 \<le> length (iov_bytes (ip6_data packet))"
    and "unat (ctx_offset ctx) = off" and "40 \<le> off" and "off \<le> dgram"
    and "r_size recon = of_nat dgram" and "r_bytes_rcvd recon = ctx_offset ctx" and "r_buf recon = Some base"
    and "base + dgram \<le> length heap" and "dgram - off < n"
  shows "\<exists>recon' heap'. relay n frag lp len packet ctx recon heap = Some (0, recon', heap') \<and>
    r_bytes_rcvd recon' = r_size recon' \<and>
    heap' = take (base + off) heap @ take (dgram - off) (drop (off - 40) (iov_bytes (ip6_data packet)))
      @ drop (base + dgram) heap"
  using relay_ok [OF assms(1,2,4,5,6,7,3,8,9,10,11,12,13,14,15)] assms(11) by simp

definition sample_packet :: ip6_packet where
  "sample_packet =
     \<lparr>ip6_data = [\<lparr>iov_base = [1, 2, 3, 4, 5, 6, 7, 8, 9, 10], iov_len = 10\<rparr>,
                  \<lparr>iov_base = [11, 12, 13, 14, 15, 16], iov_len = 6\<rparr>],
      ip6_hdr = [0x60, 0, 0, 0, 0, 16] @ replicate 34 0\<rparr>"

definition sample_recon :: lowpan_reconstruct where
  "sample_recon =
     \<lparr>r_tag = 7, r_source_key = 0, r_size = 56, r_buf = Some 2, r_bytes_rcvd = 40, r_timeout = 0,
      r_app_len = None, r_transport_header = None,
      r_meta = \<lparr>md_sender = undefined, md_lqi = 0, md_rssi = 0\<rparr>\<rparr>"

theorem fragments_transfer_datagram_witness:
  "\<exists>recon'. relay 20 (replicate 16 0) 3 16 sample_packet \<lparr>ctx_tag = 7, ctx_offset = 40\<rparr> sample_recon
      (replicate 60 0) =
    Some (0, recon', replicate 42 0 @ [1, 2, 3, 4, 5, 6, 7, 8, 9, 10, 11, 12, 13, 14, 15, 16] @ replicate 2 0)"
proof -
  let ?D = "iov_bytes (ip6_data sample_packet)"
  have D: "?D = [1, 2, 3, 4, 5, 6, 7, 8, 9, 10, 11, 12, 13, 14, 15, 16]" "iov_ok (ip6_data sample_packet)"
    by (simp_all add: sample_packet_def iov_ok_def)
  have plen: "56 = unat (ntohs (ip6_plen (ip6_hdr sample_packet))) + 40"
    by (simp add: sample_packet_def ip6_plen_def be16_def)
  have heap: "take 42 (replicate 60 (0 :: u8)) = replicate 42 0" "drop 58 (replicate 60 (0 :: u8)) = replicate 2 0"
    by simp_all
  show ?thesis
    using fragments_transfer_datagram [OF _ _ _ D(2) plen, of 3 16 "replicate 16 0"
        "\<lparr>ctx_tag = 7, ctx_offset = 40\<rparr>" 40 sample_recon 2 "replicate 60 0" 20]
    by (simp add: sample_recon_def D(1) heap del: replicate.simps relay.simps) blast
qed

text \<open>The receiver puts the payload of any later fragment, whatever datagram offset and tag the header
  of the fragment says, behind what it has received so far; fragments that arrive out of order or
  twice are mixed up.\<close>

theorem recon_add_ignores_offset:
  assumes "length chunk < 251" and "unat (r_bytes_rcvd recon) + length chunk \<le> unat (r_size recon)"
    and "r_buf recon = Some base" and "base + unat (r_size recon) \<le> length heap"
  shows "lowpan_recon_add recon (fragn_hdr sz tag off @ chunk) (5 + length chunk) heap =
    Some (0, recon\<lparr>r_bytes_rcvd := r_bytes_rcvd recon + of_nat (length chunk)\<rparr>,
      take (base + unat (r_bytes_rcvd recon)) heap @ chunk
        @ drop (base + unat (r_bytes_rcvd recon) + length chunk) heap)"
proof -
  have "drop_bit 3 ((fragn_hdr sz tag off @ chunk) ! 0) = LOWPAN_FRAGN_PATTERN"
    using fragn_hdr_dispatch by (simp add: nth_append)
  from recon_add_fragn [OF this, of "5 + length chunk" recon heap] show ?thesis
    using assms by (simp add: wrn_def)
qed


text \<open>The third unit of the datagram arrives before the second.\<close>

theorem recon_add_ignores_offset_witness:
  "lowpan_recon_add sample_recon (fragn_hdr 56 7 6 @ [9, 10, 11, 12, 13, 14, 15, 16]) 13 (replicate 60 0) =
   Some (0, sample_recon\<lparr>r_bytes_rcvd := 48\<rparr>,
     replicate 42 0 @ [9, 10, 11, 12, 13, 14, 15, 16] @ replicate 10 0)"
  using recon_add_ignores_offset [of "[9, 10, 11, 12, 13, 14, 15, 16]" sample_recon 2 "replicate 60 0" 56 7 6]
  by (simp add: sample_recon_def del: replicate.simps)


text \<open>A later fragment shorter than its own header passes every check when some bytes have been received:
  the length that is left wraps around below zero, the sum in the bounds check wraps back, and
  \<open>memcpy\<close> is called with nearly \<open>2^64\<close> bytes.\<close>

theorem recon_add_truncated:
  assumes "drop_bit 3 (pkt ! 0) = LOWPAN_FRAGN_PATTERN" and "0 < len" and "len < 5" and "len \<le> length pkt"
    and "5 - len \<le> unat (r_bytes_rcvd recon)" and "unat (r_bytes_rcvd recon) - (5 - len) \<le> unat (r_size recon)"
    and "length pkt < 2 ^ 32"
  shows "lowpan_recon_add recon pkt len heap = None"
proof -
  have msg: "recon_msg pkt len = Some \<lparr>lm_headers = LOWMSG_FRAGN_HDR, lm_len = of_nat len, lm_data = Some pkt\<rparr>"
    using assms(1-4) by (intro fragn_recognised) simp_all
  have len: "to_size_t (int len - 5) = 2 ^ 64 - (5 - len)"
  proof -
    have "(int len - 5) mod 2 ^ 64 = int len - 5 + 2 ^ 64"
    proof -
      have "(int len - 5) mod 2 ^ 64 = (int len - 5 + 2 ^ 64) mod 2 ^ 64" by (rule mod_add_self2 [symmetric])
      also have "\<dots> = int len - 5 + 2 ^ 64" using assms(3) by (intro mod_pos_pos_trivial) simp_all
      finally show ?thesis .
    qed
    then show ?thesis using assms(3) by (simp add: to_size_t_def)
  qed
  have sum: "(unat (r_bytes_rcvd recon) + (2 ^ 64 - (5 - len))) mod 2 ^ 64 = unat (r_bytes_rcvd recon) - (5 - len)"
  proof -
    have "unat (r_bytes_rcvd recon) + (2 ^ 64 - (5 - len)) = unat (r_bytes_rcvd recon) - (5 - len) + 2 ^ 64"
      using assms(5) by simp
    moreover have "unat (r_bytes_rcvd recon) - (5 - len) < 2 ^ 64"
    proof (rule le_less_trans [OF diff_le_self])
      show "unat (r_bytes_rcvd recon) < 2 ^ 64" by (rule less_trans [OF unat_u16_lt]) simp
    qed
    ultimately show ?thesis by (simp only: mod_add_self2 mod_less)
  qed
  define w where "w = 2 ^ 64 - (5 - len)"
  have "rdn pkt 5 w = None" using assms(3,7) by (simp add: rdn_def w_def)
  then show ?thesis
    using assms(6) len sum unfolding w_def [symmetric]
    by (cases "r_buf recon")
      (simp_all add: lowpan_recon_add_def msg hasFragNHeader_def getLowpanPayload_def mesh_bcast_len_def
        lowpan_lengths lowpan_patterns not_less Let_def)
qed

theorem recon_add_truncated_witness:
  "lowpan_recon_add sample_recon [0xe0] 1 (replicate 60 0) = None"
  by (rule recon_add_truncated) (simp_all add: sample_recon_def lowpan_patterns)

end
