(* ===== verification/Tcp.thy ===== *)
theory Tcp
  imports CircBuf IpMalloc LowpanTypes
begin

text \<open>
  The TCP of \<open>libtcp/tcplib.c\<close>. Sockets are numbered; the linked list \<open>conns\<close> is the list of their
  numbers. Messages are allocated in the heap of \<open>ip_malloc\<close> and freed when sent; what is in
  them is kept beside the heap. What the library calls in its user (\<open>tcplib_send_out\<close>,
  \<open>tcplib_accept\<close>, the \<open>tcplib_extern\<close> functions) is the argument \<open>env\<close>: an upcall is logged
  and may change the state. None is undefined behaviour: a null transmit buffer or a bad access.
\<close>

section \<open>Constants and types\<close>

definition IANA_TCP :: u8 where "IANA_TCP = 6"
definition TCP_FLAG_FIN :: u8 where "TCP_FLAG_FIN = 0x1"
definition TCP_FLAG_SYN :: u8 where "TCP_FLAG_SYN = 0x2"
definition TCP_FLAG_RST :: u8 where "TCP_FLAG_RST = 0x4"
definition TCP_FLAG_ACK :: u8 where "TCP_FLAG_ACK = 0x10"
definition TCP_ACKPENDING :: u8 where "TCP_ACKPENDING = 0x3"
definition TCP_DUPACKS :: u8 where "TCP_DUPACKS = 0x3c"
definition TCP_DUPACKS_OFF :: nat where "TCP_DUPACKS_OFF = 2"
definition TCP_CONNECTDONE :: u8 where "TCP_CONNECTDONE = 0x40"
definition TCP_ACKSENT :: u8 where "TCP_ACKSENT = 0x80"
definition TCPLIB_TIMEWAIT_LEN :: u8 where "TCPLIB_TIMEWAIT_LEN = 1"
definition TCPLIB_2MSL :: u8 where "TCPLIB_2MSL = 4"
definition TCPLIB_GIVEUP :: u16 where "TCPLIB_GIVEUP = 6"

lemmas tcp_consts = IANA_TCP_def TCP_FLAG_FIN_def TCP_FLAG_SYN_def TCP_FLAG_RST_def TCP_FLAG_ACK_def
  TCP_ACKPENDING_def TCP_DUPACKS_def TCP_DUPACKS_OFF_def TCP_CONNECTDONE_def TCP_ACKSENT_def
  TCPLIB_TIMEWAIT_LEN_def TCPLIB_2MSL_def TCPLIB_GIVEUP_def

datatype tcplib_sock_state =
    TCP_CLOSED | TCP_LISTEN | TCP_SYN_RCVD | TCP_SYN_SENT | TCP_ESTABLISHED | TCP_CLOSE_WAIT
  | TCP_LAST_ACK | TCP_FIN_WAIT_1 | TCP_FIN_WAIT_2 | TCP_CLOSING | TCP_TIME_WAIT

record sockaddr_in6 =
  sin6_port :: u16
  sin6_addr :: in6_addr

text \<open>The fields as they are in memory; ports, numbers and window in network order.\<close>

record tcp_hdr =
  th_srcport :: u16
  th_dstport :: u16
  th_seqno :: u32
  th_ackno :: u32
  th_offset :: u8
  th_flags :: u8
  th_window :: u16

text \<open>The memory a socket was given for its transmit buffer, and the buffer once it is initialised.\<close>

record tx_region =
  tx_raw :: bytes
  tx_circ :: "circ_buf option"

text \<open>\<open>retx\<close> is an \<open>int8_t\<close>.\<close>

record tcplib_sock =
  sk_flags :: u8
  l_ep :: sockaddr_in6
  r_ep :: sockaddr_in6
  sk_state :: tcplib_sock_state
  tx_buf :: "tx_region option"
  tx_buf_len :: int
  mss :: u16
  my_wind :: u16
  r_wind :: u16
  cwnd :: u16
  ssthresh :: u16
  sk_seqno :: u32
  sk_ackno :: u32
  retx :: u8
  retxcnt :: u16

text \<open>A message being built: next header, destination, payload length, TCP header and data.\<close>

record tcp_msg =
  tm_nxt :: u8
  tm_plen :: u16
  tm_dst :: in6_addr
  tm_hdr :: tcp_hdr
  tm_data :: bytes

datatype tcp_event =
    SendOut tcp_msg | ExternRecv nat bytes | ExternClosed nat | ExternCloseDone nat
  | ExternConnectDone nat | ExternAcked nat

record tcp_state =
  socks :: "nat \<Rightarrow> tcplib_sock"
  conns :: "nat list"
  tcp_heap :: bytes
  tcp_log :: "tcp_event list"

record tcp_env =
  env_up :: "tcp_event \<Rightarrow> tcp_state \<Rightarrow> tcp_state"
  env_accept :: "nat \<Rightarrow> sockaddr_in6 \<Rightarrow> tcp_state \<Rightarrow> nat option \<times> tcp_state"

definition upd_sock :: "nat \<Rightarrow> (tcplib_sock \<Rightarrow> tcplib_sock) \<Rightarrow> tcp_state \<Rightarrow> tcp_state" where
  "upd_sock i f st = st\<lparr>socks := (socks st)(i := f (socks st i))\<rparr>"

definition emit :: "tcp_env \<Rightarrow> tcp_event \<Rightarrow> tcp_state \<Rightarrow> tcp_state" where
  "emit env ev st = env_up env ev (st\<lparr>tcp_log := tcp_log st @ [ev]\<rparr>)"

section \<open>The transmit buffer\<close>

text \<open>Sizes on an LP64 host.\<close>

definition sizeof_circ_buf :: nat where "sizeof_circ_buf = 24"
definition sizeof_tcp_hdr :: nat where "sizeof_tcp_hdr = 20"
definition sizeof_ip6_packet :: nat where "sizeof_ip6_packet = 56"
definition sizeof_ip_iovec :: nat where "sizeof_ip_iovec = 24"

definition region_bytes :: "tx_region \<Rightarrow> bytes" where
  "region_bytes r =
     (case tx_circ r of
        None \<Rightarrow> tx_raw r
      | Some b \<Rightarrow> take sizeof_circ_buf (tx_raw r) @ cb_data b @
                  drop (sizeof_circ_buf + length (cb_data b)) (tx_raw r))"

text \<open>The buffer of a socket as the functions of \<open>circ.c\<close> find it.\<close>

definition sock_circ :: "tcplib_sock \<Rightarrow> circ_buf option" where
  "sock_circ s = Option.bind (tx_buf s) tx_circ"

definition put_circ :: "circ_buf \<Rightarrow> tcplib_sock \<Rightarrow> tcplib_sock" where
  "put_circ b s = s\<lparr>tx_buf := map_option (\<lambda>r. r\<lparr>tx_circ := Some b\<rparr>) (tx_buf s)\<rparr>"

text \<open>\<open>circ_buf_init(sock->tx_buf, sock->tx_buf_len, seqno)\<close>, its result ignored.\<close>

definition init_tx :: "u32 \<Rightarrow> tcplib_sock \<Rightarrow> tcplib_sock option" where
  "init_tx seqno s = do {
     r \<leftarrow> tx_buf s;
     (_, b) \<leftarrow> circ_buf_init sizeof_circ_buf (region_bytes r) (tx_buf_len s) seqno;
     Some (case b of None \<Rightarrow> s
           | Some b' \<Rightarrow> s\<lparr>tx_buf := Some \<lparr>tx_raw = region_bytes r, tx_circ = Some b'\<rparr>\<rparr>)
   }"

section \<open>Connections\<close>

definition alloc_local_port :: u16 where "alloc_local_port = 21310"

definition conn_add_once :: "nat \<Rightarrow> tcp_state \<Rightarrow> tcp_state" where
  "conn_add_once i st = (if i \<in> set (conns st) then st else st\<lparr>conns := i # conns st\<rparr>)"

definition isInaddrAny :: "in6_addr \<Rightarrow> bool" where
  "isInaddrAny addr \<longleftrightarrow> (\<forall>i < 8. s6_addr16 addr i = 0)"

definition conn_matches :: "ip6_hdr \<Rightarrow> tcp_hdr \<Rightarrow> tcplib_sock \<Rightarrow> bool" where
  "conn_matches iph th s \<longleftrightarrow>
     (ip6_dst iph = sin6_addr (l_ep s) \<or> isInaddrAny (sin6_addr (l_ep s))) \<and>
     th_dstport th = sin6_port (l_ep s) \<and>
     (sin6_port (r_ep s) = 0 \<or>
      (ip6_src iph = sin6_addr (r_ep s) \<and> th_srcport th = sin6_port (r_ep s)))"

definition conn_lookup :: "ip6_hdr \<Rightarrow> tcp_hdr \<Rightarrow> tcp_state \<Rightarrow> nat option" where
  "conn_lookup iph th st = List.find (\<lambda>i. conn_matches iph th (socks st i)) (conns st)"

definition conn_checkport :: "u16 \<Rightarrow> tcp_state \<Rightarrow> int" where
  "conn_checkport port st =
     (if \<exists>i \<in> set (conns st). sin6_port (l_ep (socks st i)) = port then -1 else 0)"

definition find_tcp_hdr :: "tcp_msg \<Rightarrow> tcp_hdr option" where
  "find_tcp_hdr msg = (if tm_nxt msg = IANA_TCP then Some (tm_hdr msg) else None)"

section \<open>Sending\<close>

text \<open>\<open>get_ipmsg\<close>: the message with the pointer to free. Its header is zeroed; the data area is
  what the heap has there. None: the request was cut to 16 bits, so the header of the data, written at
  the end of the length asked for, lies past the block that was allocated.\<close>

definition get_ipmsg :: "int \<Rightarrow> bytes \<Rightarrow> ((nat \<times> tcp_msg) option \<times> bytes) option" where
  "get_ipmsg plen heap =
     (let hdrs = sizeof_ip6_packet + sizeof_tcp_hdr;
          alen = int hdrs + int sizeof_ip_iovec + plen;
          req = of_int alen :: u16
      in do {
        (p, h) \<leftarrow> ip_malloc heap req;
        case p of
          None \<Rightarrow> Some (None, h)
        | Some q \<Rightarrow>
            if uint req \<noteq> alen then None
            else Some (Some (q,
              \<lparr>tm_nxt = IANA_TCP, tm_plen = htons (of_int (int sizeof_tcp_hdr + plen)),
               tm_dst = replicate 16 0,
               tm_hdr = \<lparr>th_srcport = 0, th_dstport = 0, th_seqno = 0, th_ackno = 0, th_offset = 0,
                         th_flags = 0, th_window = 0\<rparr>,
               tm_data = take (nat plen) (drop hdrs (take (unat req) (drop q h)))\<rparr>), h)
      })"

definition tcplib_send_msg :: "tcp_env \<Rightarrow> nat \<Rightarrow> tcp_msg \<Rightarrow> tcp_state \<Rightarrow> tcp_state" where
  "tcplib_send_msg env i msg st =
     (case find_tcp_hdr msg of
        None \<Rightarrow> st
      | Some th \<Rightarrow>
          let s = socks st i;
              th' = th\<lparr>th_srcport := sin6_port (l_ep s), th_dstport := sin6_port (r_ep s),
                       th_offset := of_nat (sizeof_tcp_hdr * 4), th_window := htons (my_wind s)\<rparr>
          in emit env (SendOut (msg\<lparr>tm_dst := sin6_addr (r_ep s), tm_hdr := th'\<rparr>))
               (upd_sock i (\<lambda>s. s\<lparr>sk_flags := sk_flags s AND NOT TCP_ACKPENDING\<rparr>) st))"

text \<open>Allocating a message, handing it on and freeing it.\<close>

definition with_msg :: "int \<Rightarrow> (tcp_msg \<Rightarrow> tcp_state \<Rightarrow> tcp_state option) \<Rightarrow> tcp_state
    \<Rightarrow> (bool \<times> tcp_state) option" where
  "with_msg plen f st = do {
     (m, h) \<leftarrow> get_ipmsg plen (tcp_heap st);
     case m of
       None \<Rightarrow> Some (False, st\<lparr>tcp_heap := h\<rparr>)
     | Some (q, msg) \<Rightarrow> do {
         st1 \<leftarrow> f msg (st\<lparr>tcp_heap := h\<rparr>);
         h' \<leftarrow> ip_free (tcp_heap st1) q;
         Some (True, st1\<lparr>tcp_heap := h'\<rparr>)
       }
   }"

definition tcplib_send_ack :: "tcp_env \<Rightarrow> nat \<Rightarrow> bool \<Rightarrow> u8 \<Rightarrow> tcp_state \<Rightarrow> tcp_state option" where
  "tcplib_send_ack env i fin_seqno flags st =
     map_option snd (with_msg 0 (\<lambda>msg st.
       let s = socks st i;
           th = (tm_hdr msg)\<lparr>th_flags := flags, th_seqno := htonl (sk_seqno s),
                  th_ackno := htonl (sk_ackno s + (if fin_seqno then 1 else 0))\<rparr>
       in Some (tcplib_send_msg env i (msg\<lparr>tm_hdr := th\<rparr>) st)) st)"

definition tcplib_send_rst :: "tcp_env \<Rightarrow> ip6_hdr \<Rightarrow> tcp_hdr \<Rightarrow> tcp_state \<Rightarrow> tcp_state option" where
  "tcplib_send_rst env iph tcph st =
     map_option snd (with_msg 0 (\<lambda>msg st.
       let th = (tm_hdr msg)\<lparr>th_flags := TCP_FLAG_RST OR TCP_FLAG_ACK,
                  th_ackno := htonl (ntohl (th_seqno tcph) + 1), th_seqno := th_ackno tcph,
                  th_srcport := th_dstport tcph, th_dstport := th_srcport tcph,
                  th_offset := of_nat (sizeof_tcp_hdr * 4), th_window := 0\<rparr>
       in Some (emit env (SendOut (msg\<lparr>tm_dst := ip6_src iph, tm_hdr := th\<rparr>)) st)) st)"

text \<open>The macro \<open>min\<close>, between unsigned 32- and 16-bit operands, and between ints.\<close>

definition min_u32 :: "u32 \<Rightarrow> u16 \<Rightarrow> int" where
  "min_u32 x y = to_int (uint (if ucast y < x then ucast y else x))"

text \<open>One segment of \<open>tcplib_output\<close>; the data are read into the message. False: no memory.\<close>

definition output_segment :: "tcp_env \<Rightarrow> nat \<Rightarrow> u32 \<Rightarrow> int \<Rightarrow> tcp_state \<Rightarrow> (bool \<times> tcp_state) option" where
  "output_segment env i sseqno seg_size st =
     with_msg seg_size (\<lambda>msg st. do {
       b \<leftarrow> sock_circ (socks st i);
       (_, data) \<leftarrow> circ_buf_read b sseqno (tm_data msg) seg_size;
       let th = (tm_hdr msg)\<lparr>th_flags := TCP_FLAG_ACK, th_seqno := htonl sseqno,
                  th_ackno := htonl (sk_ackno (socks st i))\<rparr>;
       Some (tcplib_send_msg env i (msg\<lparr>tm_hdr := th, tm_data := data\<rparr>) st)
     }) st"

partial_function (option) output_loop ::
  "tcp_env \<Rightarrow> nat \<Rightarrow> u32 \<Rightarrow> int \<Rightarrow> tcp_state \<Rightarrow> (int \<times> tcp_state) option" where
  "output_loop env i sseqno seg_size st =
     (if 0 < seg_size \<and> sseqno < sk_seqno (socks st i) then
        Option.bind (output_segment env i sseqno seg_size st) (\<lambda>(sent, st1).
          if \<not> sent then Some (-1, st1)
          else
            let sseqno' = sseqno + of_int seg_size
            in output_loop env i sseqno'
                 (min_u32 (sk_seqno (socks st1 i) - sseqno') (mss (socks st1 i))) st1)
      else Some (0, st))"

definition tcplib_output :: "tcp_env \<Rightarrow> nat \<Rightarrow> u32 \<Rightarrow> tcp_state \<Rightarrow> (int \<times> tcp_state) option" where
  "tcplib_output env i sseqno st =
     (let s = socks st i;
          seg_size = min_u32 (sk_seqno s - sseqno) (r_wind s);
          seg_size' = (if uint (cwnd s) < seg_size then uint (cwnd s) else seg_size)
      in output_loop env i sseqno seg_size' st)"

section \<open>Sockets\<close>

definition zero_sockaddr :: sockaddr_in6 where
  "zero_sockaddr = \<lparr>sin6_port = 0, sin6_addr = replicate 16 0\<rparr>"

definition tcplib_init_sock :: "nat \<Rightarrow> tcp_state \<Rightarrow> int \<times> tcp_state" where
  "tcplib_init_sock i st =
     (0, conn_add_once i (upd_sock i (\<lambda>_.
       \<lparr>sk_flags = 0, l_ep = zero_sockaddr, r_ep = zero_sockaddr, sk_state = TCP_CLOSED,
        tx_buf = None, tx_buf_len = 0, mss = 200, my_wind = 200, r_wind = 0, cwnd = 200,
        ssthresh = 0xffff, sk_seqno = 0, sk_ackno = 0, retx = 0, retxcnt = 0\<rparr>) st))"

text \<open>Halving the window: computed as ints, stored in 16 bits.\<close>

definition reset_ssthresh :: "tcplib_sock \<Rightarrow> tcplib_sock" where
  "reset_ssthresh s =
     (let w = (if r_wind s < cwnd s then r_wind s else cwnd s);
          n = of_int (uint w div 2) :: u16
      in s\<lparr>ssthresh := if uint n < 2 * uint (mss s) then of_int (2 * uint (mss s)) else n\<rparr>)"

section \<open>Receiving\<close>

text \<open>The TCP header at the start of the payload.\<close>

definition tcp_hdr_of :: "bytes \<Rightarrow> tcp_hdr option" where
  "tcp_hdr_of payload =
     map_option (\<lambda>h.
       \<lparr>th_srcport = ld16 (h ! 0) (h ! 1), th_dstport = ld16 (h ! 2) (h ! 3),
        th_seqno = ld32 (h ! 4) (h ! 5) (h ! 6) (h ! 7),
        th_ackno = ld32 (h ! 8) (h ! 9) (h ! 10) (h ! 11),
        th_offset = h ! 12, th_flags = h ! 13, th_window = ld16 (h ! 14) (h ! 15)\<rparr>)
       (rdn payload 0 sizeof_tcp_hdr)"

definition hdr_bytes :: "tcp_hdr \<Rightarrow> int" where
  "hdr_bytes th = uint (th_offset th) div 4"

definition receive_data ::
  "tcp_env \<Rightarrow> nat \<Rightarrow> tcp_hdr \<Rightarrow> bytes \<Rightarrow> int \<Rightarrow> tcp_state \<Rightarrow> (int \<times> tcp_state) option" where
  "receive_data env i th payload len st =
     (let payload_len = len - hdr_bytes th;
          st1 = upd_sock i (\<lambda>s. s\<lparr>sk_ackno := ntohl (th_seqno th) + of_int payload_len\<rparr>) st
      in if 0 < payload_len then
           map_option (\<lambda>d. (payload_len, emit env (ExternRecv i d) st1))
             (rdz payload (hdr_bytes th) payload_len)
         else Some (payload_len, st1))"

text \<open>A segment as \<open>tcplib_process\<close> sees it; \<open>len\<close> is the length in the IPv6 header.\<close>

record tcp_seg =
  sg_iph :: ip6_hdr
  sg_th :: tcp_hdr
  sg_payload :: bytes

definition sg_len :: "tcp_seg \<Rightarrow> int" where
  "sg_len sg = uint (ntohs (ip6_plen (sg_iph sg)))"

definition sg_payload_len :: "tcp_seg \<Rightarrow> int" where
  "sg_payload_len sg = sg_len sg - hdr_bytes (sg_th sg)"

definition hdr_seqno :: "tcp_seg \<Rightarrow> u32" where
  "hdr_seqno sg = ntohl (th_seqno (sg_th sg))"

definition hdr_ackno :: "tcp_seg \<Rightarrow> u32" where
  "hdr_ackno sg = ntohl (th_ackno (sg_th sg))"

definition sg_flag :: "tcp_seg \<Rightarrow> u8 \<Rightarrow> bool" where
  "sg_flag sg f \<longleftrightarrow> th_flags (sg_th sg) AND f \<noteq> 0"

definition ack_count :: "u8 \<Rightarrow> u8" where
  "ack_count flags = drop_bit TCP_DUPACKS_OFF (flags AND TCP_DUPACKS)"

text \<open>The window growth on an acknowledgement of new data. The product is one of ints of 32 bits; None:
  it overflows.\<close>

definition grow_cwnd :: "tcplib_sock \<Rightarrow> tcplib_sock option" where
  "grow_cwnd s =
     (if cwnd s \<le> ssthresh s then Some (s\<lparr>cwnd := cwnd s + mss s\<rparr>)
      else if uint (mss s) * uint (mss s) < 2 ^ 31
      then Some (s\<lparr>cwnd := cwnd s + of_int (uint (mss s) * uint (mss s) div uint (cwnd s))\<rparr>)
      else None)"

text \<open>The send side of the ESTABLISHED block: new data acknowledged, or a duplicate ACK.\<close>

definition process_ack :: "tcp_env \<Rightarrow> nat \<Rightarrow> tcp_seg \<Rightarrow> tcp_state \<Rightarrow> tcp_state option" where
  "process_ack env i sg st = do {
     b \<leftarrow> sock_circ (socks st i);
     if circ_get_seqno b < hdr_ackno sg then do {
       s1 \<leftarrow> grow_cwnd (socks st i);
       b' \<leftarrow> circ_shorten_head b (hdr_ackno sg);
       let st1 = upd_sock i (\<lambda>_. put_circ b' (s1\<lparr>sk_flags := sk_flags s1 AND NOT TCP_DUPACKS\<rparr>)) st;
       Some (if sk_seqno (socks st1 i) = hdr_ackno sg then emit env (ExternAcked i) st1 else st1)
     }
     else if circ_get_seqno b < sk_seqno (socks st i) then
       let flags = sk_flags (socks st i) + push_bit TCP_DUPACKS_OFF 1
       in if ack_count flags = 2 then do {
            (_, st1) \<leftarrow> tcplib_output env i (circ_get_seqno b)
              (upd_sock i (\<lambda>s. reset_ssthresh (s\<lparr>sk_flags := flags AND NOT TCP_DUPACKS\<rparr>)) st);
            Some (upd_sock i (\<lambda>s. s\<lparr>retx := 6\<rparr>) st1)
          }
          else Some (upd_sock i (\<lambda>s. s\<lparr>sk_flags := flags\<rparr>) st)
     else Some st
   }"

text \<open>The receive side: data in order are delivered, others answered with an ACK, wild ones with a
  RST.\<close>

definition process_data :: "tcp_env \<Rightarrow> nat \<Rightarrow> tcp_seg \<Rightarrow> tcp_state \<Rightarrow> tcp_state option" where
  "process_data env i sg st =
     (let s = socks st i
      in if hdr_seqno sg \<noteq> sk_ackno s then
           if sk_ackno s + ucast (my_wind s) < hdr_seqno sg \<or>
              hdr_seqno sg < sk_ackno s - ucast (my_wind s)
           then tcplib_send_rst env (sg_iph sg) (sg_th sg) st
           else map_option (upd_sock i (\<lambda>s. s\<lparr>sk_flags := sk_flags s OR TCP_ACKSENT\<rparr>))
                  (tcplib_send_ack env i False TCP_FLAG_ACK st)
         else do {
           (n, st1) \<leftarrow> receive_data env i (sg_th sg) (sg_payload sg) (sg_len sg) st;
           if 0 < n \<and> sk_flags (socks st1 i) AND TCP_ACKSENT \<noteq> 0
           then tcplib_send_ack env i False TCP_FLAG_ACK
                  (upd_sock i (\<lambda>s. s\<lparr>sk_flags := sk_flags s AND NOT TCP_ACKSENT\<rparr>) st1)
           else Some st1
         })"

text \<open>The cases TIME_WAIT and, before it, CLOSE_WAIT and ESTABLISHED.\<close>

definition time_wait_block :: "tcp_env \<Rightarrow> nat \<Rightarrow> tcp_seg \<Rightarrow> tcp_state \<Rightarrow> tcp_state option" where
  "time_wait_block env i sg st =
     (if (0 < sg_payload_len sg \<and> 1 \<le> sk_flags (socks st i) AND TCP_ACKPENDING) \<or>
         sg_flag sg TCP_FLAG_FIN then do {
        st1 \<leftarrow> tcplib_send_ack env i (sg_payload_len sg = 0 \<and> sg_flag sg TCP_FLAG_FIN) TCP_FLAG_ACK st;
        Some (if sk_state (socks st1 i) = TCP_ESTABLISHED \<and> sg_flag sg TCP_FLAG_FIN \<and>
                 hdr_seqno sg = sk_ackno (socks st1 i)
              then emit env (ExternClosed i) (upd_sock i (\<lambda>s. s\<lparr>sk_state := TCP_CLOSE_WAIT\<rparr>) st1)
              else st1)
      }
      else Some st)"

definition established_block :: "tcp_env \<Rightarrow> bool \<Rightarrow> nat \<Rightarrow> tcp_seg \<Rightarrow> tcp_state \<Rightarrow> tcp_state option" where
  "established_block env connect_done i sg st = do {
     st3 \<leftarrow>
       (if sk_state (socks st i) \<in> {TCP_ESTABLISHED, TCP_FIN_WAIT_1} then do {
          st1 \<leftarrow> process_ack env i sg
            (if 0 < sg_payload_len sg then upd_sock i (\<lambda>s. s\<lparr>sk_flags := sk_flags s + 1\<rparr>) st else st);
          st2 \<leftarrow> process_data env i sg st1;
          Some (if retx (socks st2 i) = 0 then upd_sock i (\<lambda>s. s\<lparr>retx := 6\<rparr>) st2 else st2)
        }
        else Some st);
     time_wait_block env i sg
       (if connect_done \<and> sk_flags (socks st3 i) AND TCP_CONNECTDONE = 0
        then emit env (ExternConnectDone i)
          (upd_sock i (\<lambda>s. s\<lparr>sk_flags := sk_flags s OR TCP_CONNECTDONE\<rparr>) st3)
        else st3)
   }"

text \<open>A SYN to a listening socket: the socket that answers, or None after a RST.\<close>

definition accept_syn :: "tcp_env \<Rightarrow> nat \<Rightarrow> tcp_seg \<Rightarrow> tcp_state \<Rightarrow> (nat option \<times> tcp_state) option" where
  "accept_syn env i sg st =
     (let from = \<lparr>sin6_port = th_srcport (sg_th sg), sin6_addr = ip6_src (sg_iph sg)\<rparr>;
          (new_sock, st1) = env_accept env i from (upd_sock i (\<lambda>s. s\<lparr>r_ep := from\<rparr>) st);
          st2 = (if new_sock \<noteq> Some i then
                   let st' = upd_sock i (\<lambda>s. s\<lparr>r_ep := zero_sockaddr\<rparr>) st1
                   in case new_sock of
                        None \<Rightarrow> st'
                      | Some j \<Rightarrow> conn_add_once j (upd_sock j (\<lambda>s. s\<lparr>r_ep := from\<rparr>) st')
                 else st1)
      in case new_sock of
           None \<Rightarrow> map_option (Pair None) (tcplib_send_rst env (sg_iph sg) (sg_th sg) st2)
         | Some j \<Rightarrow> do {
             s \<leftarrow> init_tx (0xcafebabe + 1) ((socks st2 j)
               \<lparr>l_ep := \<lparr>sin6_port = th_dstport (sg_th sg), sin6_addr = ip6_dst (sg_iph sg)\<rparr>,
                sk_ackno := hdr_seqno sg + 1\<rparr>);
             Some (Some j, upd_sock j (\<lambda>_. s) st2)
           })"

text \<open>The cases SYN_RCVD and LISTEN; the flag says whether the handler breaks out.\<close>

definition listen_block :: "tcp_env \<Rightarrow> nat \<Rightarrow> tcp_seg \<Rightarrow> tcp_state \<Rightarrow> (bool \<times> tcp_state) option" where
  "listen_block env i sg st =
     (if sg_flag sg TCP_FLAG_SYN then do {
        (new_sock, st1) \<leftarrow>
          (if sk_state (socks st i) = TCP_LISTEN then accept_syn env i sg st else Some (Some i, st));
        case new_sock of
          None \<Rightarrow> Some (True, st1)
        | Some j \<Rightarrow>
            map_option (\<lambda>st2. (False, upd_sock j (\<lambda>s. s\<lparr>sk_seqno := sk_seqno s + 1\<rparr>) st2))
              (tcplib_send_ack env j False (TCP_FLAG_ACK OR TCP_FLAG_SYN)
                (upd_sock j (\<lambda>s. s\<lparr>sk_seqno := 0xcafebabe + 1, sk_state := TCP_SYN_RCVD\<rparr>) st1))
      }
      else if sk_state (socks st i) = TCP_LISTEN then
        map_option (Pair True) (tcplib_send_rst env (sg_iph sg) (sg_th sg) st)
      else Some (False, st))"

definition syn_block :: "tcp_env \<Rightarrow> bool \<Rightarrow> nat \<Rightarrow> tcp_seg \<Rightarrow> tcp_state \<Rightarrow> tcp_state option" where
  "syn_block env connect_done i sg st = do {
     (brk, st1) \<leftarrow> listen_block env i sg st;
     if brk then Some st1
     else established_block env connect_done i sg
       (if sg_flag sg TCP_FLAG_ACK then upd_sock i (\<lambda>s. s\<lparr>sk_state := TCP_ESTABLISHED\<rparr>) st1 else st1)
   }"

definition fin_wait_1_block :: "tcp_env \<Rightarrow> nat \<Rightarrow> tcp_seg \<Rightarrow> tcp_state \<Rightarrow> tcp_state option" where
  "fin_wait_1_block env i sg st =
     established_block env False i sg
       (if sg_flag sg TCP_FLAG_ACK \<and> hdr_ackno sg = sk_seqno (socks st i) + 1 then
          upd_sock i
            (if sg_flag sg TCP_FLAG_FIN
             then (\<lambda>s. s\<lparr>sk_seqno := sk_seqno s + 1, sk_state := TCP_TIME_WAIT,
                             retx := TCPLIB_TIMEWAIT_LEN\<rparr>)
             else (\<lambda>s. s\<lparr>retx := TCPLIB_2MSL, sk_state := TCP_FIN_WAIT_2\<rparr>)) st
        else st)"

definition syn_sent_block :: "tcp_env \<Rightarrow> nat \<Rightarrow> tcp_seg \<Rightarrow> tcp_state \<Rightarrow> tcp_state option" where
  "syn_sent_block env i sg st =
     (if sg_flag sg (TCP_FLAG_SYN OR TCP_FLAG_ACK) then
        established_block env True i sg
          (upd_sock i (\<lambda>s. s\<lparr>sk_state := TCP_ESTABLISHED, sk_ackno := hdr_seqno sg + 1\<rparr>) st)
      else if sg_flag sg TCP_FLAG_SYN then
        syn_block env True i sg (upd_sock i (\<lambda>s. s\<lparr>sk_state := TCP_SYN_RCVD\<rparr>) st)
      else tcplib_send_rst env (sg_iph sg) (sg_th sg) st)"

definition process_state :: "tcp_env \<Rightarrow> nat \<Rightarrow> tcp_seg \<Rightarrow> tcp_state \<Rightarrow> (int \<times> tcp_state) option" where
  "process_state env i sg st =
     (case sk_state (socks st i) of
        TCP_LAST_ACK \<Rightarrow>
          if sg_flag sg TCP_FLAG_ACK \<and> hdr_ackno sg = sk_seqno (socks st i) + 1
          then Some (0, emit env (ExternCloseDone i) (upd_sock i (\<lambda>s. s\<lparr>sk_state := TCP_CLOSED\<rparr>) st))
          else map_option (Pair 0) (fin_wait_1_block env i sg st)
      | TCP_FIN_WAIT_1 \<Rightarrow> map_option (Pair 0) (fin_wait_1_block env i sg st)
      | TCP_FIN_WAIT_2 \<Rightarrow>
          if sg_flag sg TCP_FLAG_FIN then
            map_option (Pair 0) (tcplib_send_ack env i False TCP_FLAG_ACK
              (upd_sock i (\<lambda>s. s\<lparr>sk_seqno := sk_seqno s + 1, sk_state := TCP_TIME_WAIT,
                               retx := TCPLIB_TIMEWAIT_LEN\<rparr>) st))
          else Some (0, st)
      | TCP_SYN_SENT \<Rightarrow> map_option (Pair 0) (syn_sent_block env i sg st)
      | TCP_SYN_RCVD \<Rightarrow> map_option (Pair 0) (syn_block env False i sg st)
      | TCP_LISTEN \<Rightarrow> map_option (Pair 0) (syn_block env False i sg st)
      | TCP_CLOSE_WAIT \<Rightarrow> map_option (Pair 0) (established_block env False i sg st)
      | TCP_ESTABLISHED \<Rightarrow> map_option (Pair 0) (established_block env False i sg st)
      | TCP_TIME_WAIT \<Rightarrow> map_option (Pair 0) (time_wait_block env i sg st)
      | TCP_CLOSED \<Rightarrow> Some (-1, st)
      | TCP_CLOSING \<Rightarrow> Some (-1, st))"

definition tcplib_process :: "tcp_env \<Rightarrow> ip6_hdr \<Rightarrow> bytes \<Rightarrow> tcp_state \<Rightarrow> (int \<times> tcp_state) option" where
  "tcplib_process env iph payload st = do {
     tcph \<leftarrow> tcp_hdr_of payload;
     case conn_lookup iph tcph st of
       None \<Rightarrow> map_option (Pair 0) (tcplib_send_rst env iph tcph st)
     | Some i \<Rightarrow>
         if th_flags tcph AND TCP_FLAG_RST \<noteq> 0 then Some (0, emit env (ExternCloseDone i) st)
         else process_state env i \<lparr>sg_iph = iph, sg_th = tcph, sg_payload = payload\<rparr>
                (upd_sock i (\<lambda>s. s\<lparr>r_wind := ntohs (th_window tcph)\<rparr>) st)
   }"

section \<open>The user's calls\<close>

definition tcplib_bind :: "nat \<Rightarrow> sockaddr_in6 \<Rightarrow> tcp_state \<Rightarrow> int \<times> tcp_state" where
  "tcplib_bind i addr st =
     (if conn_checkport (sin6_port addr) st \<noteq> 0 then (-1, st)
      else (0, upd_sock i (\<lambda>s. s\<lparr>l_ep := addr, sk_state := TCP_LISTEN\<rparr>) st))"

definition tcplib_connect :: "tcp_env \<Rightarrow> nat \<Rightarrow> sockaddr_in6 \<Rightarrow> tcp_state \<Rightarrow> (int \<times> tcp_state) option" where
  "tcplib_connect env i serv_addr st =
     (let s = socks st i
      in if tx_buf s = None then Some (-1, st)
         else if sk_state s \<noteq> TCP_CLOSED \<and> sk_state s \<noteq> TCP_LISTEN then Some (-1, st)
         else do {
           s1 \<leftarrow> init_tx (0xcafebabe + 1)
             (if sk_state s = TCP_CLOSED
              then s\<lparr>l_ep := zero_sockaddr\<lparr>sin6_port := htons alloc_local_port\<rparr>\<rparr> else s);
           st1 \<leftarrow> tcplib_send_ack env i False TCP_FLAG_SYN
             (upd_sock i (\<lambda>_. s1\<lparr>sk_ackno := 0, sk_seqno := 0xcafebabe, r_ep := serv_addr\<rparr>) st);
           Some (0, upd_sock i
             (\<lambda>s. s\<lparr>sk_state := TCP_SYN_SENT, sk_seqno := sk_seqno s + 1, retx := 6\<rparr>) st1)
         })"

definition tcplib_send :: "nat \<Rightarrow> bytes \<Rightarrow> int \<Rightarrow> tcp_state \<Rightarrow> (int \<times> tcp_state) option" where
  "tcplib_send i data len st =
     (let s = socks st i
      in if sk_state s \<noteq> TCP_ESTABLISHED then Some (-1, st)
         else do {
           b \<leftarrow> sock_circ s;
           if (of_int (tx_buf_len s) :: u32) < sk_seqno s - circ_get_seqno b + of_int len
           then Some (-1, st)
           else do {
             (rc, b') \<leftarrow> circ_buf_write b (sk_seqno s) data len;
             let st1 = upd_sock i (put_circ b') st;
             if rc < 0 then Some (-1, st1)
             else Some (0, upd_sock i (\<lambda>s. s\<lparr>sk_seqno := sk_seqno s + of_int len, retx := 1\<rparr>) st1)
           }
         })"

text \<open>The retransmission timer of a socket.\<close>

definition retx_action :: "tcp_env \<Rightarrow> nat \<Rightarrow> tcp_state \<Rightarrow> tcp_state option" where
  "retx_action env i st =
     (case sk_state (socks st i) of
        TCP_ESTABLISHED \<Rightarrow> do {
          b \<leftarrow> sock_circ (socks st i);
          if circ_get_seqno b \<noteq> sk_seqno (socks st i) then do {
            (_, st1) \<leftarrow> tcplib_output env i (circ_get_seqno b)
              (upd_sock i (\<lambda>s. (reset_ssthresh s)\<lparr>cwnd := mss s\<rparr>) st);
            Some (upd_sock i (\<lambda>s. s\<lparr>retx := 6\<rparr>) st1)
          }
          else Some (upd_sock i (\<lambda>s. s\<lparr>retxcnt := retxcnt s - 1\<rparr>) st)
        }
      | TCP_SYN_SENT \<Rightarrow>
          map_option (upd_sock i (\<lambda>s. s\<lparr>retx := 6\<rparr>)) (tcplib_send_ack env i False TCP_FLAG_SYN st)
      | TCP_LAST_ACK \<Rightarrow>
          map_option (upd_sock i (\<lambda>s. s\<lparr>retx := TCPLIB_2MSL\<rparr>))
            (tcplib_send_ack env i True (TCP_FLAG_ACK OR TCP_FLAG_FIN) st)
      | TCP_FIN_WAIT_1 \<Rightarrow>
          map_option (upd_sock i (\<lambda>s. s\<lparr>retx := TCPLIB_2MSL\<rparr>))
            (tcplib_send_ack env i True (TCP_FLAG_ACK OR TCP_FLAG_FIN) st)
      | TCP_FIN_WAIT_2 \<Rightarrow>
          Some (emit env (ExternCloseDone i) (upd_sock i (\<lambda>s. s\<lparr>sk_state := TCP_CLOSED\<rparr>) st))
      | TCP_TIME_WAIT \<Rightarrow>
          Some (emit env (ExternCloseDone i) (upd_sock i (\<lambda>s. s\<lparr>sk_state := TCP_CLOSED\<rparr>) st))
      | _ \<Rightarrow> Some st)"

definition tcplib_retx_expire :: "tcp_env \<Rightarrow> nat \<Rightarrow> tcp_state \<Rightarrow> tcp_state option" where
  "tcplib_retx_expire env i st = do {
     st1 \<leftarrow> retx_action env i (upd_sock i (\<lambda>s. s\<lparr>retxcnt := retxcnt s + 1\<rparr>) st);
     Some (if TCPLIB_GIVEUP < retxcnt (socks st1 i)
           then upd_sock i (\<lambda>s. s\<lparr>sk_state := TCP_TIME_WAIT, retx := TCPLIB_TIMEWAIT_LEN\<rparr>) st1
           else st1)
   }"

definition tcplib_abort :: "tcp_env \<Rightarrow> nat \<Rightarrow> tcp_state \<Rightarrow> (int \<times> tcp_state) option" where
  "tcplib_abort env i st =
     (if sk_state (socks st i) \<in> {TCP_CLOSED, TCP_LISTEN} then Some (0, st)
      else map_option
        (\<lambda>st1. (0, upd_sock i
          (\<lambda>s. s\<lparr>l_ep := zero_sockaddr, r_ep := zero_sockaddr, sk_state := TCP_CLOSED\<rparr>) st1))
        (tcplib_send_ack env i False TCP_FLAG_RST st))"

definition tcplib_close :: "tcp_env \<Rightarrow> nat \<Rightarrow> tcp_state \<Rightarrow> (int \<times> tcp_state) option" where
  "tcplib_close env i st =
     (case sk_state (socks st i) of
        TCP_CLOSE_WAIT \<Rightarrow>
          map_option (\<lambda>st1. (0, upd_sock i (\<lambda>s. s\<lparr>retx := 6, sk_state := TCP_LAST_ACK\<rparr>) st1))
            (tcplib_send_ack env i True (TCP_FLAG_ACK OR TCP_FLAG_FIN) st)
      | TCP_ESTABLISHED \<Rightarrow>
          map_option (\<lambda>st1. (0, upd_sock i (\<lambda>s. s\<lparr>retx := TCPLIB_2MSL, sk_state := TCP_FIN_WAIT_1\<rparr>) st1))
            (tcplib_send_ack env i False (TCP_FLAG_ACK OR TCP_FLAG_FIN) st)
      | TCP_SYN_SENT \<Rightarrow> Some (0, upd_sock i (\<lambda>s. s\<lparr>sk_state := TCP_CLOSED\<rparr>) st)
      | _ \<Rightarrow> Some (-1, st))"

text \<open>One socket's turn in \<open>tcplib_timer_process\<close>, and all of them, in list order. Upcalls only put
  sockets at the head of the list, behind the iterator.\<close>

definition timer_tick :: "tcp_env \<Rightarrow> nat \<Rightarrow> tcp_state \<Rightarrow> tcp_state option" where
  "timer_tick env i st = do {
     let running = 0 < sint (retx (socks st i));
     let st1 = (if running then upd_sock i (\<lambda>s. s\<lparr>retx := retx s - 1\<rparr>) st else st);
     st2 \<leftarrow> (if running \<and> retx (socks st1 i) = 0 then tcplib_retx_expire env i st1 else Some st1);
     if 2 \<le> sk_flags (socks st2 i) AND TCP_ACKPENDING
     then tcplib_send_ack env i False TCP_FLAG_ACK st2 else Some st2
   }"

fun timer_sweep :: "tcp_env \<Rightarrow> nat list \<Rightarrow> tcp_state \<Rightarrow> tcp_state option" where
  "timer_sweep env [] st = Some st"
| "timer_sweep env (i # is) st = Option.bind (timer_tick env i st) (timer_sweep env is)"

definition tcplib_timer_process :: "tcp_env \<Rightarrow> tcp_state \<Rightarrow> (int \<times> tcp_state) option" where
  "tcplib_timer_process env st = map_option (Pair 0) (timer_sweep env (conns st) st)"

end
