(* ===== verification/TcpUser.thy ===== *)
theory TcpUser
  imports Tcp QueueC
begin

text \<open>
  The user of the TCP library on a node, \<open>tos/lib/net/blip/TcpP.nc\<close>: the functions the library calls,
  and the commands and events of the module. The applications behind its \<open>Tcp\<close> interfaces are the
  argument \<open>app\<close>; a socket is a client's when its number is below \<open>n\<close>, the number of clients.
\<close>

section \<open>The application\<close>

datatype tcp_signal =
    AppConnectDone nat | AppRecv nat bytes | AppClosed nat | AppAcked nat

record tcp_app =
  app_on :: "tcp_signal \<Rightarrow> tcp_state \<Rightarrow> tcp_state"
  app_accept :: "nat \<Rightarrow> sockaddr_in6 \<Rightarrow> tcp_state \<Rightarrow> bool \<times> tcp_state"

text \<open>The default events.\<close>

definition default_app :: tcp_app where
  "default_app = \<lparr>app_on = \<lambda>_ st. st, app_accept = \<lambda>_ _ st. (False, st)\<rparr>"

section \<open>What the library calls\<close>

text \<open>\<open>find_client\<close>: the socket's number, or the number of clients when it is none of theirs.\<close>

definition find_client :: "nat \<Rightarrow> nat \<Rightarrow> nat" where
  "find_client n i = (if i < n then i else n)"

text \<open>Sending hands the message to IP, which does not touch the sockets.\<close>

definition send_env :: tcp_env where
  "send_env = \<lparr>env_up = \<lambda>_ st. st, env_accept = \<lambda>_ _ st. (None, st)\<rparr>"

definition signal_client :: "nat \<Rightarrow> tcp_app \<Rightarrow> (nat \<Rightarrow> tcp_signal) \<Rightarrow> nat \<Rightarrow> tcp_state \<Rightarrow> tcp_state" where
  "signal_client n app f i st =
     (let cid = find_client n i in if cid < n then app_on app (f cid) st else st)"

text \<open>The state stays as it is should \<open>tcplib_close\<close> be undefined, which takes a broken heap.\<close>

definition extern_closed :: "nat \<Rightarrow> tcp_state \<Rightarrow> tcp_state" where
  "extern_closed i st = (case tcplib_close send_env i st of None \<Rightarrow> st | Some (_, st') \<Rightarrow> st')"

definition extern_closedone :: "nat \<Rightarrow> tcp_app \<Rightarrow> nat \<Rightarrow> tcp_state \<Rightarrow> tcp_state" where
  "extern_closedone n app i st = signal_client n app AppClosed i (snd (tcplib_init_sock i st))"

definition TcpP_up :: "nat \<Rightarrow> tcp_app \<Rightarrow> tcp_event \<Rightarrow> tcp_state \<Rightarrow> tcp_state" where
  "TcpP_up n app ev st =
     (case ev of
        SendOut _ \<Rightarrow> st
      | ExternRecv i d \<Rightarrow> signal_client n app (\<lambda>c. AppRecv c d) i st
      | ExternClosed i \<Rightarrow> extern_closed i st
      | ExternCloseDone i \<Rightarrow> extern_closedone n app i st
      | ExternConnectDone i \<Rightarrow> signal_client n app AppConnectDone i st
      | ExternAcked i \<Rightarrow> signal_client n app AppAcked i st)"

text \<open>\<open>tcplib_accept\<close>: the listening socket itself serves the connection, if its application takes it
  and has given it a buffer.\<close>

definition TcpP_accept :: "nat \<Rightarrow> tcp_app \<Rightarrow> nat \<Rightarrow> sockaddr_in6 \<Rightarrow> tcp_state \<Rightarrow> nat option \<times> tcp_state" where
  "TcpP_accept n app i from st =
     (let cid = find_client n i
      in if cid = n then (None, st)
         else let (yes, st1) = app_accept app cid from st
              in (if yes \<and> tx_buf (socks st1 i) \<noteq> None then Some i else None, st1))"

definition TcpP_env :: "nat \<Rightarrow> tcp_app \<Rightarrow> tcp_env" where
  "TcpP_env n app = \<lparr>env_up = TcpP_up n app, env_accept = TcpP_accept n app\<rparr>"

section \<open>Commands and events of the module\<close>

definition TcpP_init :: "nat \<Rightarrow> tcp_state \<Rightarrow> error_t \<times> tcp_state" where
  "TcpP_init n st = (SUCCESS, fold (\<lambda>i st. snd (tcplib_init_sock i st)) [0..<n] st)"

definition TcpP_fired :: "nat \<Rightarrow> tcp_app \<Rightarrow> tcp_state \<Rightarrow> tcp_state option" where
  "TcpP_fired n app st = map_option snd (tcplib_timer_process (TcpP_env n app) st)"

definition TcpP_recv :: "nat \<Rightarrow> tcp_app \<Rightarrow> ip6_hdr \<Rightarrow> bytes \<Rightarrow> tcp_state \<Rightarrow> tcp_state option" where
  "TcpP_recv n app iph payload st = map_option snd (tcplib_process (TcpP_env n app) iph payload st)"

text \<open>The result of \<open>tcplib_bind\<close> is ignored.\<close>

definition Tcp_bind :: "nat \<Rightarrow> u16 \<Rightarrow> tcp_state \<Rightarrow> error_t \<times> tcp_state" where
  "Tcp_bind client port st =
     (SUCCESS, snd (tcplib_bind client \<lparr>sin6_port = htons port, sin6_addr = replicate 16 0\<rparr> st))"

definition Tcp_connect ::
  "nat \<Rightarrow> tcp_app \<Rightarrow> nat \<Rightarrow> sockaddr_in6 \<Rightarrow> tx_region option \<Rightarrow> int \<Rightarrow> tcp_state \<Rightarrow> (error_t \<times> tcp_state) option" where
  "Tcp_connect n app client dest buf buf_len st =
     map_option (\<lambda>(rv, st). (if rv \<noteq> 0 then FAIL else SUCCESS, st))
       (tcplib_connect (TcpP_env n app) client dest
         (upd_sock client (\<lambda>s. s\<lparr>tx_buf := buf, tx_buf_len := buf_len\<rparr>) st))"

definition Tcp_send :: "nat \<Rightarrow> bytes \<Rightarrow> u16 \<Rightarrow> tcp_state \<Rightarrow> (error_t \<times> tcp_state) option" where
  "Tcp_send client payload len st =
     map_option (\<lambda>(rv, st). (if rv < 0 then FAIL else SUCCESS, st)) (tcplib_send client payload (uint len) st)"

definition Tcp_close :: "nat \<Rightarrow> tcp_app \<Rightarrow> nat \<Rightarrow> tcp_state \<Rightarrow> (error_t \<times> tcp_state) option" where
  "Tcp_close n app client st =
     map_option (\<lambda>(rv, st). (if rv = 0 then SUCCESS else FAIL, st)) (tcplib_close (TcpP_env n app) client st)"

definition Tcp_abort :: "nat \<Rightarrow> tcp_app \<Rightarrow> nat \<Rightarrow> tcp_state \<Rightarrow> (error_t \<times> tcp_state) option" where
  "Tcp_abort n app client st =
     map_option (\<lambda>(rv, st). (if rv < 0 then FAIL else SUCCESS, st)) (tcplib_abort (TcpP_env n app) client st)"

end
