(* ===== verification/TcpProps.thy ===== *)
theory TcpProps
  imports TcpUser
begin

text \<open>
  The state machine of a socket: which states a received segment can take it to, with a user that
  may close, abort or reuse the socket from inside the functions the library calls.
\<close>

section \<open>States a handler leaves alone\<close>

definition state_at :: "tcp_state \<Rightarrow> nat \<Rightarrow> tcplib_sock_state" where
  "state_at st i = sk_state (socks st i)"

definition ackno_at :: "tcp_state \<Rightarrow> nat \<Rightarrow> u32" where
  "ackno_at st i = sk_ackno (socks st i)"

definition kept :: "nat \<Rightarrow> tcp_state \<Rightarrow> tcp_state \<Rightarrow> bool" where
  "kept k st st' \<longleftrightarrow> state_at st' k = state_at st k \<and> ackno_at st' k = ackno_at st k"

definition same_states :: "tcp_state \<Rightarrow> tcp_state \<Rightarrow> bool" where
  "same_states st st' \<longleftrightarrow> (\<forall>k. kept k st st')"

text \<open>What the user may do to its socket from inside the upcalls for received data, acknowledged data
  and a finished connect: close it, as \<open>tcplib_close\<close> does, or abort it, as \<open>tcplib_abort\<close> does.\<close>

definition user_calls :: "tcplib_sock_state \<Rightarrow> tcplib_sock_state \<Rightarrow> bool" where
  "user_calls a b \<longleftrightarrow> b = a \<or> a = TCP_ESTABLISHED \<and> b = TCP_FIN_WAIT_1 \<or> a = TCP_CLOSE_WAIT \<and> b = TCP_LAST_ACK \<or>
     a = TCP_SYN_SENT \<and> b = TCP_CLOSED \<or> a \<notin> {TCP_CLOSED, TCP_LISTEN} \<and> b = TCP_CLOSED"

text \<open>The states of a socket given back to the user, who may bind or connect it again at once.\<close>

abbreviation reused :: "tcplib_sock_state set" where
  "reused \<equiv> {TCP_CLOSED, TCP_LISTEN, TCP_SYN_SENT}"

definition moved :: "nat \<Rightarrow> tcp_state \<Rightarrow> tcp_state \<Rightarrow> bool" where
  "moved k st st' \<longleftrightarrow> kept k st st' \<or>
     user_calls (state_at st k) (state_at st' k) \<and> state_at st' k \<noteq> state_at st k"

definition may_change :: "tcp_event \<Rightarrow> nat \<Rightarrow> tcp_state \<Rightarrow> tcp_state \<Rightarrow> bool" where
  "may_change ev k st st' \<longleftrightarrow>
     (case ev of
        SendOut _ \<Rightarrow> kept k st st'
      | ExternClosed i \<Rightarrow> k = i \<and> state_at st k = TCP_CLOSE_WAIT \<longrightarrow>
          kept k st st' \<or> state_at st' k = TCP_LAST_ACK
      | ExternCloseDone i \<Rightarrow> k = i \<longrightarrow> state_at st' k \<in> reused
      | ExternRecv i _ \<Rightarrow> k = i \<longrightarrow> moved k st st'
      | ExternConnectDone i \<Rightarrow> k = i \<longrightarrow> moved k st st'
      | ExternAcked i \<Rightarrow> k = i \<longrightarrow> moved k st st')"

text \<open>The rules of the user: what each upcall may do to the socket it is for, and that accepting leaves
  the listening socket in its state. Other sockets are the user's to change, except while sending.\<close>

definition env_obeys :: "tcp_env \<Rightarrow> bool" where
  "env_obeys env \<longleftrightarrow>
     (\<forall>ev k st. may_change ev k st (env_up env ev st)) \<and>
     (\<forall>i from st. kept i st (snd (env_accept env i from st)))"

lemma env_obeysD:
  "env_obeys env \<Longrightarrow> may_change ev k st (env_up env ev st)"
  "env_obeys env \<Longrightarrow> env_accept env i from st = (n, st') \<Longrightarrow> kept i st st'"
  unfolding env_obeys_def by (blast, metis snd_conv)

lemma kept_refl [simp]: "kept k st st"
  by (simp add: kept_def)

lemma kept_trans: "kept k a b \<Longrightarrow> kept k b c \<Longrightarrow> kept k a c"
  by (simp add: kept_def)

lemma user_calls_refl [simp]: "user_calls a a"
  by (simp add: user_calls_def)

lemma user_calls_trans: "user_calls a b \<Longrightarrow> user_calls b c \<Longrightarrow> user_calls a c"
  by (auto simp: user_calls_def)

lemma user_calls_back: "user_calls a b \<Longrightarrow> user_calls b a \<Longrightarrow> b = a"
  by (auto simp: user_calls_def)

lemma kept_moved: "kept k a b \<Longrightarrow> moved k a b"
  by (simp add: moved_def)

lemma moved_trans: "moved k a b \<Longrightarrow> moved k b c \<Longrightarrow> moved k a c"
  unfolding moved_def kept_def by (metis user_calls_back user_calls_trans)

lemma user_calls_from: "user_calls a TCP_ESTABLISHED \<longleftrightarrow> a = TCP_ESTABLISHED"
  by (auto simp: user_calls_def)

text \<open>The log and the heap are no part of a socket.\<close>

lemma at_simps [simp]:
  "state_at (st\<lparr>tcp_log := l\<rparr>) k = state_at st k" "ackno_at (st\<lparr>tcp_log := l\<rparr>) k = ackno_at st k"
  "state_at (st\<lparr>tcp_heap := h\<rparr>) k = state_at st k" "ackno_at (st\<lparr>tcp_heap := h\<rparr>) k = ackno_at st k"
  "state_at (upd_sock i f st) k = (if k = i then sk_state (f (socks st i)) else state_at st k)"
  "ackno_at (upd_sock i f st) k = (if k = i then sk_ackno (f (socks st i)) else ackno_at st k)"
  "state_at (conn_add_once j st) k = state_at st k" "ackno_at (conn_add_once j st) k = ackno_at st k"
  by (simp_all add: state_at_def ackno_at_def upd_sock_def conn_add_once_def)

lemma at_fold: "sk_state (socks st k) = state_at st k" "sk_ackno (socks st k) = ackno_at st k"
  by (simp_all add: state_at_def ackno_at_def)

lemma kept_log [simp]: "kept k (st\<lparr>tcp_log := l\<rparr>) b = kept k st b" "moved k (st\<lparr>tcp_log := l\<rparr>) b = moved k st b"
  by (simp_all add: kept_def moved_def)

lemma same_refl [simp]: "same_states st st"
  by (simp add: same_states_def)

lemma same_trans: "same_states a b \<Longrightarrow> same_states b c \<Longrightarrow> same_states a c"
  unfolding same_states_def by (blast intro: kept_trans)

lemma same_at: "same_states a b \<Longrightarrow> state_at b k = state_at a k \<and> ackno_at b k = ackno_at a k"
  by (simp add: same_states_def kept_def)

lemma same_upd:
  "(\<And>s. sk_state (f s) = sk_state s) \<Longrightarrow> (\<And>s. sk_ackno (f s) = sk_ackno s) \<Longrightarrow> same_states a b \<Longrightarrow> same_states a (upd_sock i f b)"
  by (simp add: same_states_def kept_def at_fold)

lemma same_heap: "same_states a b \<Longrightarrow> same_states a (b\<lparr>tcp_heap := h\<rparr>)"
  by (simp add: same_states_def kept_def)

lemma emit_may_change:
  assumes "env_obeys env"
  shows "may_change ev k st (emit env ev st)"
  using env_obeysD(1) [OF assms, of ev k "st\<lparr>tcp_log := tcp_log st @ [ev]\<rparr>"]
  by (cases ev) (simp_all add: emit_def may_change_def)

lemma same_send_out:
  assumes "env_obeys env" and "same_states a b"
  shows "same_states a (emit env (SendOut m) b)"
proof -
  have "kept k b (emit env (SendOut m) b)" for k
    using emit_may_change [OF assms(1), of "SendOut m" k b] by (simp add: may_change_def)
  then show ?thesis using assms(2) kept_trans unfolding same_states_def by blast
qed

lemma same_send_msg: "env_obeys env \<Longrightarrow> same_states a b \<Longrightarrow> same_states a (tcplib_send_msg env i msg b)"
  by (auto simp: tcplib_send_msg_def Let_def split: option.splits intro!: same_send_out same_upd)

lemma same_with_msg:
  assumes "with_msg plen f st = Some (r, st')"
    and "\<And>msg s s'. f msg s = Some s' \<Longrightarrow> same_states s s'"
  shows "same_states st st'"
proof -
  obtain m h where m: "get_ipmsg plen (tcp_heap st) = Some (m, h)"
    using assms(1) by (auto simp: with_msg_def bind_Some_iff)
  show ?thesis
  proof (cases m)
    case None
    then show ?thesis using assms(1) m by (auto simp: with_msg_def same_heap)
  next
    case (Some p)
    then obtain s1 h1 where "f (snd p) (st\<lparr>tcp_heap := h\<rparr>) = Some s1" "st' = s1\<lparr>tcp_heap := h1\<rparr>"
      using assms(1) m by (cases p) (auto simp: with_msg_def bind_Some_iff)
    then have "same_states (st\<lparr>tcp_heap := h\<rparr>) s1" "st' = s1\<lparr>tcp_heap := h1\<rparr>" using assms(2) by blast+
    then show ?thesis by (simp add: same_states_def kept_def)
  qed
qed

lemma same_send_ack:
  assumes "env_obeys env" and "tcplib_send_ack env i fin flags st = Some st'"
  shows "same_states st st'"
proof -
  obtain r where "with_msg 0 (\<lambda>msg st.
       let s = socks st i;
           th = (tm_hdr msg)\<lparr>th_flags := flags, th_seqno := htonl (sk_seqno s),
                  th_ackno := htonl (sk_ackno s + (if fin then 1 else 0))\<rparr>
       in Some (tcplib_send_msg env i (msg\<lparr>tm_hdr := th\<rparr>) st)) st = Some (r, st')"
    using assms(2) by (auto simp: tcplib_send_ack_def)
  then show ?thesis
    by (rule same_with_msg) (auto simp: Let_def intro!: same_send_msg assms(1))
qed

lemma same_send_rst:
  assumes "env_obeys env" and "tcplib_send_rst env iph th st = Some st'"
  shows "same_states st st'"
  using assms(2) unfolding tcplib_send_rst_def map_option_eq_Some
  by (elim exE conjE) (auto elim!: same_with_msg simp: Let_def intro!: same_send_out assms(1))

lemma same_output_segment:
  assumes "env_obeys env" and "output_segment env i sseqno n st = Some (r, st')"
  shows "same_states st st'"
  using assms(2) unfolding output_segment_def
  by (rule same_with_msg) (auto simp: bind_Some_iff Let_def intro!: same_send_msg assms(1))

lemma same_output_loop:
  assumes "output_loop env i sseqno n st = Some (r, st')" and "env_obeys env"
  shows "same_states st st'"
proof -
  have "env_obeys env \<longrightarrow> same_states st (snd (r, st'))"
  proof (rule output_loop.raw_induct [where P = "\<lambda>env i sseqno n st res. env_obeys env \<longrightarrow> same_states st (snd res)",
        OF _ assms(1)], intro impI)
    fix loop env i sseqno n st res
    assume hyp: "\<And>env i sseqno n st res. loop env i sseqno n st = Some res \<Longrightarrow>
        env_obeys env \<longrightarrow> same_states st (snd res)"
      and quiet: "env_obeys env"
      and body: "(if 0 < n \<and> sseqno < sk_seqno (socks st i) then
          Option.bind (output_segment env i sseqno n st) (\<lambda>(sent, st1).
            if \<not> sent then Some (- 1, st1)
            else let sseqno' = sseqno + word_of_int n
              in loop env i sseqno' (min_u32 (sk_seqno (socks st1 i) - sseqno') (mss (socks st1 i))) st1)
        else Some (0, st)) = Some res"
    show "same_states st (snd res)"
    proof (cases "0 < n \<and> sseqno < sk_seqno (socks st i)")
      case False
      then show ?thesis using body by (auto split: if_splits)
    next
      case True
      then obtain sent st1 where seg: "output_segment env i sseqno n st = Some (sent, st1)"
        and rest: "(if \<not> sent then Some (- 1, st1)
            else let sseqno' = sseqno + word_of_int n
              in loop env i sseqno' (min_u32 (sk_seqno (socks st1 i) - sseqno') (mss (socks st1 i))) st1) = Some res"
        using body by (auto simp: bind_Some_iff)
      have "same_states st st1" using same_output_segment [OF quiet seg] .
      moreover have "same_states st1 (snd res)"
        using rest hyp quiet by (auto simp: Let_def split: if_splits)
      ultimately show ?thesis by (rule same_trans)
    qed
  qed
  then show ?thesis using assms(2) by simp
qed

lemma same_output:
  "tcplib_output env i sseqno st = Some (r, st') \<Longrightarrow> env_obeys env \<Longrightarrow> same_states st st'"
  unfolding tcplib_output_def Let_def by (erule same_output_loop)

lemma same_kept: "same_states a b \<Longrightarrow> kept k a b"
  by (simp add: same_states_def)

section \<open>Data and acknowledgements\<close>

lemma sock_updates_keep [simp]:
  "sk_state (put_circ b s) = sk_state s" "sk_state (reset_ssthresh s) = sk_state s"
  "sk_ackno (put_circ b s) = sk_ackno s" "sk_ackno (reset_ssthresh s) = sk_ackno s"
  by (simp_all add: put_circ_def reset_ssthresh_def Let_def)

lemma grow_cwnd_keeps: "grow_cwnd s = Some s' \<Longrightarrow> sk_state s' = sk_state s \<and> sk_ackno s' = sk_ackno s"
  by (auto simp: grow_cwnd_def split: if_splits)

lemma moved_emit:
  assumes "env_obeys env" and "kept i st st1" and "ev \<in> {ExternAcked i, ExternConnectDone i, ExternRecv i d}"
  shows "moved i st (emit env ev st1)"
proof -
  have "moved i st1 (emit env ev st1)"
    using emit_may_change [OF assms(1), of ev i st1] assms(3) by (auto simp: may_change_def)
  then show ?thesis using kept_moved [OF assms(2)] moved_trans by blast
qed

lemma moved_process_ack:
  assumes "env_obeys env" and "process_ack env i sg st = Some st'"
  shows "moved i st st'"
proof -
  obtain b where b: "sock_circ (socks st i) = Some b"
    using assms(2) by (auto simp: process_ack_def bind_Some_iff)
  show ?thesis
  proof (cases "circ_get_seqno b < hdr_ackno sg")
    case True
    obtain s1 b' where s1: "grow_cwnd (socks st i) = Some s1" and
      st': "st' = (let st1 = upd_sock i (\<lambda>_. put_circ b' (s1\<lparr>sk_flags := sk_flags s1 AND NOT TCP_DUPACKS\<rparr>)) st
         in if sk_seqno (socks st1 i) = hdr_ackno sg then emit env (ExternAcked i) st1 else st1)"
      using assms(2) unfolding process_ack_def b Option.bind.simps if_P [OF True] bind_Some_iff Let_def by blast
    define st1 where "st1 = upd_sock i (\<lambda>_. put_circ b' (s1\<lparr>sk_flags := sk_flags s1 AND NOT TCP_DUPACKS\<rparr>)) st"
    have "kept i st st1" using grow_cwnd_keeps [OF s1] by (simp add: kept_def st1_def at_fold)
    moreover have "st' = st1 \<or> st' = emit env (ExternAcked i) st1" using st' by (simp add: Let_def st1_def)
    ultimately show ?thesis using moved_emit [OF assms(1)] kept_moved by blast
  next
    case False
    define fl where "fl = sk_flags (socks st i) + push_bit TCP_DUPACKS_OFF 1"
    consider (dup) r st1 where "tcplib_output env i (circ_get_seqno b)
           (upd_sock i (\<lambda>s. reset_ssthresh (s\<lparr>sk_flags := fl AND NOT TCP_DUPACKS\<rparr>)) st) = Some (r, st1)"
        "st' = upd_sock i (\<lambda>s. s\<lparr>retx := 6\<rparr>) st1"
      | (count) "st' = upd_sock i (\<lambda>s. s\<lparr>sk_flags := fl\<rparr>) st" | (none) "st' = st"
      using assms(2) unfolding process_ack_def b Option.bind.simps if_not_P [OF False] Let_def fl_def
      by (auto simp: bind_Some_iff split: if_splits)
    then have "same_states st st'"
    proof cases
      case dup
      have "same_states st (upd_sock i (\<lambda>s. reset_ssthresh (s\<lparr>sk_flags := fl AND NOT TCP_DUPACKS\<rparr>)) st)"
        by (intro same_upd) simp_all
      then have "same_states st st1" using same_output [OF dup(1) assms(1)] by (rule same_trans)
      then show ?thesis unfolding dup(2) by (intro same_upd) simp_all
    qed (auto intro!: same_upd)
    then show ?thesis by (intro kept_moved same_kept)
  qed
qed

text \<open>What the receive side leaves: the user may have moved the socket; if not, data in order have moved
  its acknowledgement number.\<close>

definition received :: "tcp_seg \<Rightarrow> nat \<Rightarrow> tcp_state \<Rightarrow> tcp_state \<Rightarrow> bool" where
  "received sg i st st' \<longleftrightarrow> user_calls (state_at st i) (state_at st' i) \<and>
     (state_at st' i = state_at st i \<longrightarrow> ackno_at st' i =
       ackno_at st i + (if hdr_seqno sg = ackno_at st i then of_int (sg_payload_len sg) else 0))"

lemma received_moved:
  assumes "moved i a b" and "received sg i b c"
  shows "received sg i a c"
proof (cases "kept i a b")
  case True
  then show ?thesis using assms(2) by (simp add: received_def kept_def)
next
  case False
  then have "user_calls (state_at a i) (state_at b i)" "state_at b i \<noteq> state_at a i"
    using assms(1) by (simp_all add: moved_def)
  moreover have "user_calls (state_at b i) (state_at c i)" using assms(2) by (simp add: received_def)
  ultimately show ?thesis using user_calls_trans user_calls_back by (metis received_def)
qed

lemma moved_received:
  assumes "received sg i a b" and "moved i b c"
  shows "received sg i a c"
proof (cases "kept i b c")
  case True
  then show ?thesis using assms(1) by (simp add: received_def kept_def)
next
  case False
  then have "user_calls (state_at b i) (state_at c i)" "state_at c i \<noteq> state_at b i"
    using assms(2) by (simp_all add: moved_def)
  moreover have "user_calls (state_at a i) (state_at b i)" using assms(1) by (simp add: received_def)
  ultimately show ?thesis using user_calls_trans user_calls_back by (metis received_def)
qed

lemma received_process_data:
  assumes "env_obeys env" and "process_data env i sg st = Some st'"
  shows "received sg i st st'"
proof (cases "hdr_seqno sg = ackno_at st i")
  case False
  have "same_states st st'"
  proof (cases "tcplib_send_rst env (sg_iph sg) (sg_th sg) st = Some st'")
    case True
    then show ?thesis by (rule same_send_rst [OF assms(1)])
  next
    case False
    then obtain st1 where "tcplib_send_ack env i False TCP_FLAG_ACK st = Some st1"
      "st' = upd_sock i (\<lambda>s. s\<lparr>sk_flags := sk_flags s OR TCP_ACKSENT\<rparr>) st1"
      using assms(2) \<open>hdr_seqno sg \<noteq> ackno_at st i\<close> by (auto simp: process_data_def Let_def at_fold split: if_splits)
    then show ?thesis using same_send_ack [OF assms(1)] by (auto intro!: same_upd)
  qed
  then show ?thesis using False same_at [of st st' i] by (simp add: received_def)
next
  case True
  define st1 where "st1 = upd_sock i (\<lambda>s. s\<lparr>sk_ackno := ntohl (th_seqno (sg_th sg)) + of_int (sg_payload_len sg)\<rparr>) st"
  have 1: "received sg i st st1"
    using True by (simp add: received_def st1_def at_fold hdr_seqno_def)
  obtain n st2 where rd: "receive_data env i (sg_th sg) (sg_payload sg) (sg_len sg) st = Some (n, st2)"
    and st': "st' = st2 \<or> tcplib_send_ack env i False TCP_FLAG_ACK
           (upd_sock i (\<lambda>s. s\<lparr>sk_flags := sk_flags s AND NOT TCP_ACKSENT\<rparr>) st2) = Some st'"
    using assms(2) True unfolding process_data_def Let_def by (auto simp: bind_Some_iff at_fold split: if_splits)
  have "st2 = st1 \<or> (\<exists>d. st2 = emit env (ExternRecv i d) st1)"
    using rd by (auto simp: receive_data_def Let_def st1_def sg_payload_len_def split: if_splits)
  then have "moved i st1 st2" using moved_emit [OF assms(1) kept_refl] kept_moved [OF kept_refl] by blast
  moreover have "kept i st2 st'"
  proof -
    have "same_states st2 (upd_sock i (\<lambda>s. s\<lparr>sk_flags := sk_flags s AND NOT TCP_ACKSENT\<rparr>) st2)"
      by (intro same_upd) simp_all
    then have "same_states st2 st'" using st' same_send_ack [OF assms(1)] same_trans same_refl by blast
    then show ?thesis by (rule same_kept)
  qed
  ultimately show ?thesis by (rule moved_received [OF moved_received [OF 1] kept_moved])
qed

section \<open>Steps of the state machine\<close>

text \<open>What a segment does to the state of the socket it is for. \<open>ackno\<close> is the socket's acknowledgement
  number when it arrives; \<open>acked\<close>: the segment acknowledges our FIN. The user's part is explicit: it may
  answer the peer's FIN by closing at once, use a finished socket again, and close or abort an open one.\<close>

definition last_data :: "tcp_seg \<Rightarrow> u32 \<Rightarrow> bool" where
  "last_data sg ackno \<longleftrightarrow> sg_flag sg TCP_FLAG_FIN \<and> sg_payload_len sg = 0 \<and> hdr_seqno sg = ackno"

inductive tcp_step :: "tcp_seg \<Rightarrow> u32 \<Rightarrow> bool \<Rightarrow> tcplib_sock_state \<Rightarrow> tcplib_sock_state \<Rightarrow> bool"
  for sg :: tcp_seg and ackno :: u32 and acked :: bool where
  stay: "tcp_step sg ackno acked a a"
| syn: "sg_flag sg TCP_FLAG_SYN \<Longrightarrow> tcp_step sg ackno acked TCP_LISTEN TCP_SYN_RCVD"
| open_passive: "a \<in> {TCP_LISTEN, TCP_SYN_RCVD} \<Longrightarrow> sg_flag sg TCP_FLAG_ACK \<Longrightarrow>
    tcp_step sg ackno acked a TCP_ESTABLISHED"
| open_active: "sg_flag sg (TCP_FLAG_SYN OR TCP_FLAG_ACK) \<Longrightarrow> tcp_step sg ackno acked TCP_SYN_SENT TCP_ESTABLISHED"
| peer_closes: "a = TCP_ESTABLISHED \<or> a \<in> {TCP_LISTEN, TCP_SYN_RCVD} \<and> sg_flag sg TCP_FLAG_ACK \<Longrightarrow>
    last_data sg ackno \<Longrightarrow> b \<in> {TCP_CLOSE_WAIT, TCP_LAST_ACK} \<Longrightarrow> tcp_step sg ackno acked a b"
| fin_acked: "sg_flag sg TCP_FLAG_ACK \<Longrightarrow> acked \<Longrightarrow> \<not> sg_flag sg TCP_FLAG_FIN \<Longrightarrow>
    tcp_step sg ackno acked TCP_FIN_WAIT_1 TCP_FIN_WAIT_2"
| both_close: "sg_flag sg TCP_FLAG_ACK \<Longrightarrow> acked \<Longrightarrow> sg_flag sg TCP_FLAG_FIN \<Longrightarrow>
    tcp_step sg ackno acked TCP_FIN_WAIT_1 TCP_TIME_WAIT"
| peer_closes_late: "sg_flag sg TCP_FLAG_FIN \<Longrightarrow> tcp_step sg ackno acked TCP_FIN_WAIT_2 TCP_TIME_WAIT"
| last_ack: "sg_flag sg TCP_FLAG_ACK \<Longrightarrow> acked \<Longrightarrow> b \<in> reused \<Longrightarrow> tcp_step sg ackno acked TCP_LAST_ACK b"
| reset: "sg_flag sg TCP_FLAG_RST \<Longrightarrow> b \<in> reused \<Longrightarrow> tcp_step sg ackno acked a b"
| user_open: "a = TCP_ESTABLISHED \<or> a \<in> {TCP_LISTEN, TCP_SYN_RCVD} \<and> sg_flag sg TCP_FLAG_ACK \<or>
    a = TCP_SYN_SENT \<and> sg_flag sg (TCP_FLAG_SYN OR TCP_FLAG_ACK) \<Longrightarrow>
    b \<in> {TCP_FIN_WAIT_1, TCP_CLOSED} \<Longrightarrow> tcp_step sg ackno acked a b"
| user_aborts: "tcp_step sg ackno acked TCP_FIN_WAIT_1 TCP_CLOSED"

inductive_cases tcp_step_closingE: "tcp_step sg ackno acked TCP_CLOSING b"

lemma time_wait_state:
  assumes "env_obeys env" and "time_wait_block env i sg st = Some st'"
  shows "state_at st' i = state_at st i \<or>
    state_at st i = TCP_ESTABLISHED \<and> state_at st' i \<in> {TCP_CLOSE_WAIT, TCP_LAST_ACK} \<and>
    sg_flag sg TCP_FLAG_FIN \<and> hdr_seqno sg = ackno_at st i"
proof (cases "(0 < sg_payload_len sg \<and> 1 \<le> sk_flags (socks st i) AND TCP_ACKPENDING) \<or> sg_flag sg TCP_FLAG_FIN")
  case True
  then obtain st1 where st1: "tcplib_send_ack env i (sg_payload_len sg = 0 \<and> sg_flag sg TCP_FLAG_FIN) TCP_FLAG_ACK st = Some st1"
    and st': "st' = (if sk_state (socks st1 i) = TCP_ESTABLISHED \<and> sg_flag sg TCP_FLAG_FIN \<and>
                 hdr_seqno sg = sk_ackno (socks st1 i)
              then emit env (ExternClosed i) (upd_sock i (\<lambda>s. s\<lparr>sk_state := TCP_CLOSE_WAIT\<rparr>) st1)
              else st1)"
    using assms(2) unfolding time_wait_block_def by (auto simp: bind_Some_iff)
  have eq: "state_at st1 i = state_at st i" "ackno_at st1 i = ackno_at st i"
    using same_at [OF same_send_ack [OF assms(1) st1]] by blast+
  from emit_may_change [OF assms(1), of "ExternClosed i" i "upd_sock i (\<lambda>s. s\<lparr>sk_state := TCP_CLOSE_WAIT\<rparr>) st1"]
  show ?thesis using eq unfolding st' by (auto simp: may_change_def kept_def at_fold)
next
  case False
  then show ?thesis using assms(2) by (auto simp: time_wait_block_def split: if_splits)
qed

lemma small_int_u32: "of_int k = (0 :: u32) \<Longrightarrow> \<bar>k\<bar> < 2 ^ 32 \<Longrightarrow> k = 0"
proof -
  assume 0: "of_int k = (0 :: u32)" and k: "\<bar>k\<bar> < 2 ^ 32"
  have "uint (of_int k :: u32) = k mod 2 ^ 32" by (simp add: uint_word_of_int)
  then have "2 ^ 32 dvd k" using 0 by (simp add: dvd_eq_mod_eq_0)
  with k show "k = 0" using zdvd_imp_le [of "2 ^ 32" "\<bar>k\<bar>"] by (cases "k = 0") auto
qed

lemma payload_len_small: "\<bar>sg_payload_len sg\<bar> < 2 ^ 32"
proof -
  have "uint (ntohs (ip6_plen (sg_iph sg))) < 2 ^ 16" "uint (th_offset (sg_th sg)) < 2 ^ 8"
    using uint_lt2p [of "ntohs (ip6_plen (sg_iph sg))"] uint_lt2p [of "th_offset (sg_th sg)"] by simp_all
  moreover have "0 \<le> uint (ntohs (ip6_plen (sg_iph sg)))" "0 \<le> uint (th_offset (sg_th sg))" by simp_all
  moreover have "\<bar>x - y div 4\<bar> < 2 ^ 32" if "0 \<le> x" "x < 2 ^ 16" "0 \<le> y" "y < 2 ^ 8" for x y :: int
    using that by simp
  ultimately show ?thesis unfolding sg_payload_len_def sg_len_def hdr_bytes_def by blast
qed

lemma established_state:
  assumes "env_obeys env" and "established_block env d i sg st = Some st'" and "d \<longrightarrow> state_at st i = TCP_ESTABLISHED"
  shows "state_at st' i = state_at st i \<or>
    state_at st i \<in> {TCP_ESTABLISHED, TCP_FIN_WAIT_1} \<and> user_calls (state_at st i) (state_at st' i) \<or>
    state_at st i = TCP_ESTABLISHED \<and> state_at st' i \<in> {TCP_CLOSE_WAIT, TCP_LAST_ACK} \<and> last_data sg (ackno_at st i)"
proof -
  obtain st3 where st3: "(if sk_state (socks st i) \<in> {TCP_ESTABLISHED, TCP_FIN_WAIT_1} then do {
          st1 \<leftarrow> process_ack env i sg
            (if 0 < sg_payload_len sg then upd_sock i (\<lambda>s. s\<lparr>sk_flags := sk_flags s + 1\<rparr>) st else st);
          st2 \<leftarrow> process_data env i sg st1;
          Some (if retx (socks st2 i) = 0 then upd_sock i (\<lambda>s. s\<lparr>retx := 6\<rparr>) st2 else st2)
        } else Some st) = Some st3"
    and rest: "time_wait_block env i sg
       (if d \<and> sk_flags (socks st3 i) AND TCP_CONNECTDONE = 0
        then emit env (ExternConnectDone i) (upd_sock i (\<lambda>s. s\<lparr>sk_flags := sk_flags s OR TCP_CONNECTDONE\<rparr>) st3)
        else st3) = Some st'"
    using assms(2) unfolding established_block_def bind_Some_iff by (elim exE conjE)
  show ?thesis
  proof (cases "state_at st i \<in> {TCP_ESTABLISHED, TCP_FIN_WAIT_1}")
    case False
    then have "st3 = st" "\<not> d" using st3 assms(3) by (simp_all add: at_fold)
    then show ?thesis using time_wait_state [OF assms(1)] rest False by fastforce
  next
    case True
    let ?st = "if 0 < sg_payload_len sg then upd_sock i (\<lambda>s. s\<lparr>sk_flags := sk_flags s + 1\<rparr>) st else st"
    obtain st1 st2 where a: "process_ack env i sg ?st = Some st1" "process_data env i sg st1 = Some st2"
      and 3: "st3 = (if retx (socks st2 i) = 0 then upd_sock i (\<lambda>s. s\<lparr>retx := 6\<rparr>) st2 else st2)"
      using st3 True by (auto simp only: bind_Some_iff if_True option.inject at_fold)
    define st4 where "st4 = (if d \<and> sk_flags (socks st3 i) AND TCP_CONNECTDONE = 0
        then emit env (ExternConnectDone i) (upd_sock i (\<lambda>s. s\<lparr>sk_flags := sk_flags s OR TCP_CONNECTDONE\<rparr>) st3)
        else st3)"
    have "kept i st ?st" "kept i st2 st3" unfolding 3 by (simp_all add: kept_def at_fold)
    moreover have "moved i st3 st4"
      unfolding st4_def by (auto intro!: moved_emit [OF assms(1)] simp: kept_def at_fold kept_moved)
    ultimately have "moved i st st1" "received sg i st1 st2" "moved i st2 st4"
      using moved_process_ack [OF assms(1) a(1)] received_process_data [OF assms(1) a(2)] moved_trans kept_moved by blast+
    then have r: "received sg i st st4" using received_moved moved_received by blast
    show ?thesis
    proof (cases "state_at st4 i = TCP_ESTABLISHED")
      case True
      then have est: "state_at st i = TCP_ESTABLISHED" using r by (simp add: received_def user_calls_from)
      with True r have "ackno_at st4 i = ackno_at st i + (if hdr_seqno sg = ackno_at st i then of_int (sg_payload_len sg) else 0)"
        by (simp add: received_def)
      then have "hdr_seqno sg = ackno_at st4 i \<Longrightarrow> hdr_seqno sg = ackno_at st i \<and> sg_payload_len sg = 0"
        using small_int_u32 [OF _ payload_len_small, of sg] by (auto split: if_splits)
      then show ?thesis using time_wait_state [OF assms(1) rest [folded st4_def]] True est by (auto simp: last_data_def)
    next
      case False
      then have "state_at st' i = state_at st4 i" using time_wait_state [OF assms(1) rest [folded st4_def]] by blast
      then show ?thesis using r \<open>state_at st i \<in> _\<close> by (simp add: received_def)
    qed
  qed
qed

lemma init_tx_keeps: "init_tx q s = Some s' \<Longrightarrow> sk_state s' = sk_state s \<and> sk_ackno s' = sk_ackno s"
  by (auto simp: init_tx_def bind_Some_iff split: option.splits)

lemma accept_state:
  assumes "env_obeys env" and "accept_syn env i sg st = Some (n, st')"
  shows "state_at st' i = state_at st i \<and> ackno_at st' i \<in> {ackno_at st i, hdr_seqno sg + 1}"
proof -
  define peer where "peer = \<lparr>sin6_port = th_srcport (sg_th sg), sin6_addr = ip6_src (sg_iph sg)\<rparr>"
  obtain new st1 where acc: "env_accept env i peer (upd_sock i (\<lambda>s. s\<lparr>r_ep := peer\<rparr>) st) = (new, st1)"
    by (metis surj_pair)
  define st2 where "st2 = (if new \<noteq> Some i then
                   let st' = upd_sock i (\<lambda>s. s\<lparr>r_ep := zero_sockaddr\<rparr>) st1
                   in case new of
                        None \<Rightarrow> st'
                      | Some j \<Rightarrow> conn_add_once j (upd_sock j (\<lambda>s. s\<lparr>r_ep := peer\<rparr>) st')
                 else st1)"
  have "kept i st st1" using env_obeysD(2) [OF assms(1) acc] by (simp add: kept_def at_fold)
  then have 2: "state_at st2 i = state_at st i" "ackno_at st2 i = ackno_at st i"
    by (auto simp: st2_def Let_def kept_def at_fold split: option.splits)
  have eq: "accept_syn env i sg st =
      (case new of
         None \<Rightarrow> map_option (Pair None) (tcplib_send_rst env (sg_iph sg) (sg_th sg) st2)
       | Some j \<Rightarrow> do {
           s \<leftarrow> init_tx (0xcafebabe + 1) ((socks st2 j)
             \<lparr>l_ep := \<lparr>sin6_port = th_dstport (sg_th sg), sin6_addr = ip6_dst (sg_iph sg)\<rparr>,
              sk_ackno := hdr_seqno sg + 1\<rparr>);
           Some (Some j, upd_sock j (\<lambda>_. s) st2)
         })"
    unfolding accept_syn_def Let_def peer_def [symmetric] acc prod.case st2_def by (rule refl)
  show ?thesis
  proof (cases new)
    case None
    then have "tcplib_send_rst env (sg_iph sg) (sg_th sg) st2 = Some st'"
      using assms(2) unfolding eq by auto
    then show ?thesis using same_at [OF same_send_rst [OF assms(1)], of _ _ _ _ i] 2 by simp
  next
    case (Some j)
    then obtain s where "init_tx (0xcafebabe + 1) ((socks st2 j)
               \<lparr>l_ep := \<lparr>sin6_port = th_dstport (sg_th sg), sin6_addr = ip6_dst (sg_iph sg)\<rparr>,
                sk_ackno := hdr_seqno sg + 1\<rparr>) = Some s" and st': "st' = upd_sock j (\<lambda>_. s) st2"
      using assms(2) unfolding eq by (auto simp: bind_Some_iff)
    then have "sk_state s = state_at st2 j" "sk_ackno s = hdr_seqno sg + 1" by (auto dest: init_tx_keeps simp: at_fold)
    then show ?thesis unfolding st' using 2 by (cases "i = j") simp_all
  qed
qed

lemma listen_state:
  assumes "env_obeys env" and "listen_block env i sg st = Some (brk, st')"
  shows "(state_at st' i = state_at st i \<or> sg_flag sg TCP_FLAG_SYN \<and> state_at st' i = TCP_SYN_RCVD) \<and>
    ackno_at st' i \<in> {ackno_at st i, hdr_seqno sg + 1}"
proof (cases "sg_flag sg TCP_FLAG_SYN")
  case True
  obtain new st1 where n: "(if sk_state (socks st i) = TCP_LISTEN then accept_syn env i sg st else Some (Some i, st))
      = Some (new, st1)"
    and rest: "(case new of None \<Rightarrow> Some (True, st1)
        | Some j \<Rightarrow>
            map_option (\<lambda>st2. (False, upd_sock j (\<lambda>s. s\<lparr>sk_seqno := sk_seqno s + 1\<rparr>) st2))
              (tcplib_send_ack env j False (TCP_FLAG_ACK OR TCP_FLAG_SYN)
                (upd_sock j (\<lambda>s. s\<lparr>sk_seqno := 0xcafebabe + 1, sk_state := TCP_SYN_RCVD\<rparr>) st1))) = Some (brk, st')"
    using assms(2) True unfolding listen_block_def if_P [OF True] bind_Some_iff by (auto simp del: One_nat_def)
  have 1: "state_at st1 i = state_at st i" "ackno_at st1 i \<in> {ackno_at st i, hdr_seqno sg + 1}"
    using n accept_state [OF assms(1)] by (auto split: if_splits)
  show ?thesis
  proof (cases new)
    case None
    then show ?thesis using rest 1 by simp
  next
    case (Some j)
    then obtain st2 where ack: "tcplib_send_ack env j False (TCP_FLAG_ACK OR TCP_FLAG_SYN)
                (upd_sock j (\<lambda>s. s\<lparr>sk_seqno := 0xcafebabe + 1, sk_state := TCP_SYN_RCVD\<rparr>) st1) = Some st2"
      and st': "st' = upd_sock j (\<lambda>s. s\<lparr>sk_seqno := sk_seqno s + 1\<rparr>) st2"
      using rest by auto
    from same_at [OF same_send_ack [OF assms(1) ack], of i]
    have "state_at st2 i = (if i = j then TCP_SYN_RCVD else state_at st i)" "ackno_at st2 i = ackno_at st1 i"
      using 1 by (simp_all add: at_fold)
    then show ?thesis unfolding st' using True 1 by (cases "i = j") (simp_all add: at_fold)
  qed
next
  case False
  then have "st' = st \<or> tcplib_send_rst env (sg_iph sg) (sg_th sg) st = Some st'"
    using assms(2) by (auto simp: listen_block_def split: if_splits)
  then show ?thesis using same_at [OF same_send_rst [OF assms(1)], of _ _ _ _ i] by auto
qed

lemma not_last_data [simp]: "\<not> last_data sg (hdr_seqno sg + 1)"
  by (simp add: last_data_def)

lemma user_calls_open:
  "user_calls TCP_ESTABLISHED b \<longleftrightarrow> b \<in> {TCP_ESTABLISHED, TCP_FIN_WAIT_1, TCP_CLOSED}"
  "user_calls TCP_FIN_WAIT_1 b \<longleftrightarrow> b \<in> {TCP_FIN_WAIT_1, TCP_CLOSED}"
  by (auto simp: user_calls_def)

lemma syn_state:
  assumes "env_obeys env" and "syn_block env False i sg st = Some st'" and "state_at st i \<in> {TCP_LISTEN, TCP_SYN_RCVD}"
  shows "tcp_step sg (ackno_at st i) acked (state_at st i) (state_at st' i)"
proof -
  obtain brk st1 where l: "listen_block env i sg st = Some (brk, st1)"
    and r: "(if brk then Some st1
       else established_block env False i sg
         (if sg_flag sg TCP_FLAG_ACK then upd_sock i (\<lambda>s. s\<lparr>sk_state := TCP_ESTABLISHED\<rparr>) st1 else st1)) = Some st'"
    using assms(2) by (auto simp: syn_block_def bind_Some_iff)
  have 1: "tcp_step sg (ackno_at st i) acked (state_at st i) (state_at st1 i)" "state_at st1 i \<in> {TCP_LISTEN, TCP_SYN_RCVD}"
    "ackno_at st1 i \<in> {ackno_at st i, hdr_seqno sg + 1}"
    using listen_state [OF assms(1) l] assms(3) by (auto intro: tcp_step.intros)
  show ?thesis
  proof (cases "brk \<or> \<not> sg_flag sg TCP_FLAG_ACK")
    case True
    then have "state_at st' i = state_at st1 i"
      using r established_state [OF assms(1), of False i sg st1 st'] 1(2) by (cases brk) auto
    then show ?thesis using 1(1) by simp
  next
    case False
    let ?st = "upd_sock i (\<lambda>s. s\<lparr>sk_state := TCP_ESTABLISHED\<rparr>) st1"
    have "established_block env False i sg ?st = Some st'" using r False by simp
    from established_state [OF assms(1) this]
    have "state_at st' i \<in> {TCP_ESTABLISHED, TCP_FIN_WAIT_1, TCP_CLOSED} \<or>
        state_at st' i \<in> {TCP_CLOSE_WAIT, TCP_LAST_ACK} \<and> last_data sg (ackno_at st1 i)"
      by (auto simp: user_calls_open at_fold)
    then show ?thesis using assms(3) False 1(3) by (auto intro: open_passive peer_closes user_open)
  qed
qed

lemma fin_wait_1_state:
  assumes "env_obeys env" and "fin_wait_1_block env i sg st = Some st'"
    and "acked = (hdr_ackno sg = sk_seqno (socks st i) + 1)"
    and "state_at st i = TCP_FIN_WAIT_1 \<or> state_at st i = TCP_LAST_ACK \<and> \<not> (sg_flag sg TCP_FLAG_ACK \<and> acked)"
  shows "tcp_step sg n acked (state_at st i) (state_at st' i)"
proof -
  have "established_block env False i sg
      (if sg_flag sg TCP_FLAG_ACK \<and> acked then
         upd_sock i
           (if sg_flag sg TCP_FLAG_FIN
            then (\<lambda>s. s\<lparr>sk_seqno := sk_seqno s + 1, sk_state := TCP_TIME_WAIT, retx := TCPLIB_TIMEWAIT_LEN\<rparr>)
            else (\<lambda>s. s\<lparr>retx := TCPLIB_2MSL, sk_state := TCP_FIN_WAIT_2\<rparr>)) st
       else st) = Some st'"
    using assms(2) by (simp only: fin_wait_1_block_def assms(3))
  from established_state [OF assms(1) this] assms(4) show ?thesis
    by (cases "sg_flag sg TCP_FLAG_FIN"; cases "sg_flag sg TCP_FLAG_ACK \<and> acked")
      (auto simp: user_calls_open stay fin_acked both_close user_aborts)
qed

lemma syn_sent_state:
  assumes "env_obeys env" and "syn_sent_block env i sg st = Some st'" and "state_at st i = TCP_SYN_SENT"
  shows "tcp_step sg n acked (state_at st i) (state_at st' i)"
proof (cases "sg_flag sg (TCP_FLAG_SYN OR TCP_FLAG_ACK)")
  case True
  then have "established_block env True i sg
      (upd_sock i (\<lambda>s. s\<lparr>sk_state := TCP_ESTABLISHED, sk_ackno := hdr_seqno sg + 1\<rparr>) st) = Some st'"
    using assms(2) by (simp add: syn_sent_block_def)
  from established_state [OF assms(1) this] True assms(3) show ?thesis
    by (auto simp: user_calls_open intro: open_active user_open)
next
  case False
  have "\<not> sg_flag sg TCP_FLAG_SYN"
  proof
    assume "sg_flag sg TCP_FLAG_SYN"
    moreover have "(th_flags (sg_th sg) AND (TCP_FLAG_SYN OR TCP_FLAG_ACK)) AND TCP_FLAG_SYN = th_flags (sg_th sg) AND TCP_FLAG_SYN"
      by (simp add: tcp_consts and.assoc)
    ultimately show False using False by (auto simp: sg_flag_def)
  qed
  then have "tcplib_send_rst env (sg_iph sg) (sg_th sg) st = Some st'"
    using assms(2) False by (simp add: syn_sent_block_def)
  then show ?thesis using same_at [OF same_send_rst [OF assms(1)], of _ _ _ _ i] by (simp add: stay)
qed

lemma process_state_step:
  assumes "env_obeys env" and "process_state env i sg st = Some (r, st')"
    and "acked = (hdr_ackno sg = sk_seqno (socks st i) + 1)"
  shows "tcp_step sg (ackno_at st i) acked (state_at st i) (state_at st' i)"
proof (cases "state_at st i")
  case TCP_LAST_ACK
  show ?thesis
  proof (cases "sg_flag sg TCP_FLAG_ACK \<and> acked")
    case True
    then have "st' = emit env (ExternCloseDone i) (upd_sock i (\<lambda>s. s\<lparr>sk_state := TCP_CLOSED\<rparr>) st)"
      using assms(2,3) TCP_LAST_ACK by (simp add: process_state_def at_fold)
    with emit_may_change [OF assms(1), of "ExternCloseDone i" i] have "state_at st' i \<in> reused"
      by (simp add: may_change_def)
    then show ?thesis unfolding TCP_LAST_ACK using True by (blast intro: last_ack)
  next
    case False
    then have "fin_wait_1_block env i sg st = Some st'"
      using assms(2,3) TCP_LAST_ACK by (auto simp: process_state_def at_fold)
    from fin_wait_1_state [OF assms(1) this assms(3)] False TCP_LAST_ACK show ?thesis by blast
  qed
next
  case TCP_FIN_WAIT_1
  then have "fin_wait_1_block env i sg st = Some st'"
    using assms(2) by (simp add: process_state_def at_fold)
  from fin_wait_1_state [OF assms(1) this assms(3)] TCP_FIN_WAIT_1 show ?thesis by blast
next
  case TCP_FIN_WAIT_2
  show ?thesis
  proof (cases "sg_flag sg TCP_FLAG_FIN")
    case True
    then have "tcplib_send_ack env i False TCP_FLAG_ACK (upd_sock i
        (\<lambda>s. s\<lparr>sk_seqno := sk_seqno s + 1, sk_state := TCP_TIME_WAIT, retx := TCPLIB_TIMEWAIT_LEN\<rparr>) st) = Some st'"
      using assms(2) TCP_FIN_WAIT_2 by (simp add: process_state_def at_fold)
    from same_at [OF same_send_ack [OF assms(1) this], of i] True TCP_FIN_WAIT_2
    show ?thesis by (auto intro: peer_closes_late)
  next
    case False
    then show ?thesis using assms(2) TCP_FIN_WAIT_2 by (simp add: process_state_def at_fold stay)
  qed
next
  case TCP_SYN_SENT
  then have "syn_sent_block env i sg st = Some st'"
    using assms(2) by (simp add: process_state_def at_fold)
  then show ?thesis using syn_sent_state [OF assms(1)] TCP_SYN_SENT by blast
next
  case TCP_TIME_WAIT
  then have "time_wait_block env i sg st = Some st'"
    using assms(2) by (simp add: process_state_def at_fold)
  from time_wait_state [OF assms(1) this] TCP_TIME_WAIT show ?thesis by (auto intro: stay)
next
  case TCP_CLOSE_WAIT
  then have "established_block env False i sg st = Some st'"
    using assms(2) by (simp add: process_state_def at_fold)
  from established_state [OF assms(1) this] TCP_CLOSE_WAIT show ?thesis by (auto intro: stay)
next
  case TCP_ESTABLISHED
  then have "established_block env False i sg st = Some st'"
    using assms(2) by (simp add: process_state_def at_fold)
  from established_state [OF assms(1) this] TCP_ESTABLISHED show ?thesis
    by (auto simp: user_calls_open intro: stay peer_closes user_open)
next
  case TCP_SYN_RCVD
  then have "syn_block env False i sg st = Some st'"
    using assms(2) by (simp add: process_state_def at_fold)
  then show ?thesis using syn_state [OF assms(1)] TCP_SYN_RCVD by blast
next
  case TCP_LISTEN
  then have "syn_block env False i sg st = Some st'"
    using assms(2) by (simp add: process_state_def at_fold)
  then show ?thesis using syn_state [OF assms(1)] TCP_LISTEN by blast
next
  case TCP_CLOSED
  then show ?thesis using assms(2) by (simp add: process_state_def at_fold stay)
next
  case TCP_CLOSING
  then show ?thesis using assms(2) by (simp add: process_state_def at_fold stay)
qed

section \<open>The user of the repository\<close>

text \<open>What \<open>TcpP\<close> leaves to its applications: from inside received data, acknowledged data and a finished
  connect they may close or abort the socket, from inside \<open>closed\<close> bind or connect it again, and
  taking a connection leaves the socket in its state.\<close>

definition app_obeys :: "tcp_app \<Rightarrow> bool" where
  "app_obeys app \<longleftrightarrow>
     (\<forall>i d st. moved i st (app_on app (AppRecv i d) st)) \<and> (\<forall>i st. moved i st (app_on app (AppAcked i) st)) \<and>
     (\<forall>i st. moved i st (app_on app (AppConnectDone i) st)) \<and>
     (\<forall>i st. state_at st i = TCP_CLOSED \<longrightarrow> state_at (app_on app (AppClosed i) st) i \<in> reused) \<and>
     (\<forall>i from st. kept i st (snd (app_accept app i from st)))"

lemma signal_default_app [simp]: "signal_client n default_app f i st = st"
  by (simp add: signal_client_def default_app_def Let_def)

lemma default_app_obeys: "app_obeys default_app"
  by (simp add: app_obeys_def default_app_def kept_moved)

lemma tcplib_close_state:
  assumes "tcplib_close send_env i st = Some (r, st')" and "state_at st i = TCP_CLOSE_WAIT"
  shows "state_at st' i = TCP_LAST_ACK"
proof -
  obtain st1 where "st' = upd_sock i (\<lambda>s. s\<lparr>retx := 6, sk_state := TCP_LAST_ACK\<rparr>) st1"
    using assms by (auto simp: tcplib_close_def at_fold)
  then show ?thesis by simp
qed

lemma tcplib_init_sock_state [simp]: "state_at (snd (tcplib_init_sock i st)) i = TCP_CLOSED"
  by (simp add: tcplib_init_sock_def)

lemma signal_client_cases: "signal_client n app f i st = st \<or> signal_client n app f i st = app_on app (f i) st"
  by (simp add: signal_client_def find_client_def)

lemma closed_change:
  assumes "state_at st i = TCP_CLOSE_WAIT"
  shows "kept i st (extern_closed i st) \<or> state_at (extern_closed i st) i = TCP_LAST_ACK"
  using tcplib_close_state [OF _ assms] by (auto simp: extern_closed_def split: option.splits)

theorem TcpP_obeys:
  assumes "app_obeys app"
  shows "env_obeys (TcpP_env n app)"
proof -
  have app: "moved i st (signal_client n app (\<lambda>c. AppRecv c d) i st)" "moved i st (signal_client n app AppAcked i st)"
    "moved i st (signal_client n app AppConnectDone i st)" for i st d
    using assms signal_client_cases kept_moved [OF kept_refl] unfolding app_obeys_def by metis+
  have "state_at st i = TCP_CLOSED \<Longrightarrow> state_at (app_on app (AppClosed i) st) i \<in> reused" for i st
    using assms unfolding app_obeys_def by blast
  then have reuse: "state_at (extern_closedone n app i st) i \<in> reused" for i st
    using signal_client_cases [of n app AppClosed i "snd (tcplib_init_sock i st)"] tcplib_init_sock_state
    unfolding extern_closedone_def by (metis insertI1)
  have "may_change ev k st (TcpP_up n app ev st)" for ev k st
    using app reuse closed_change by (auto simp: may_change_def TcpP_up_def split: tcp_event.splits)
  moreover have "kept i st (snd (TcpP_accept n app i from st))" for i "from" st
    using assms by (auto simp: TcpP_accept_def find_client_def app_obeys_def Let_def split_beta)
  ultimately show ?thesis by (simp add: env_obeys_def TcpP_env_def)
qed

theorem TcpP_obeys_witness: "env_obeys (TcpP_env 1 default_app)"
  by (rule TcpP_obeys [OF default_app_obeys])

section \<open>Properties\<close>

text \<open>C20: A segment handled for a socket, without undefined behaviour, changes its state by a step of the
  state machine, and only if it carries what the step asks for: a FIN closes an open socket only
  with the socket's acknowledgement number and without data (in FIN_WAIT_2 any FIN counts), and our
  own FIN is acknowledged only by the number after it. The code the library calls may close or abort
  an open socket inside its upcalls, close it in answer to the FIN, and bind or connect again a socket
  that is done, as \<open>TcpP\<close> and its applications do (\<open>TcpP_obeys\<close>); apart from that it leaves the
  socket's state and acknowledgement number alone.\<close>

theorem tcp_state_machine:
  assumes "env_obeys env" and "tcp_hdr_of payload = Some th" and "conn_lookup iph th st = Some i"
    and "tcplib_process env iph payload st = Some (r, st')"
    and "sg = \<lparr>sg_iph = iph, sg_th = th, sg_payload = payload\<rparr>"
  shows "tcp_step sg (ackno_at st i) (hdr_ackno sg = sk_seqno (socks st i) + 1) (state_at st i) (state_at st' i)"
proof (cases "sg_flag sg TCP_FLAG_RST")
  case False
  let ?st = "upd_sock i (\<lambda>s. s\<lparr>r_wind := ntohs (th_window th)\<rparr>) st"
  have "process_state env i sg ?st = Some (r, st')"
    using assms(2-5) False by (simp add: tcplib_process_def sg_flag_def)
  moreover have "sk_seqno (socks ?st i) = sk_seqno (socks st i)" by (simp add: upd_sock_def)
  ultimately show ?thesis using process_state_step [OF assms(1)] by (fastforce simp: at_fold)
next
  case True
  then have "st' = emit env (ExternCloseDone i) st"
    using assms(2-5) by (simp add: tcplib_process_def sg_flag_def)
  then have "state_at st' i \<in> reused"
    using emit_may_change [OF assms(1), of "ExternCloseDone i" i st] by (simp add: may_change_def)
  then show ?thesis using True reset by blast
qed

definition closing_sock :: tcplib_sock where
  "closing_sock =
     \<lparr>sk_flags = 0, l_ep = \<lparr>sin6_port = 0x0700, sin6_addr = replicate 16 0\<rparr>, r_ep = zero_sockaddr,
      sk_state = TCP_LAST_ACK, tx_buf = None, tx_buf_len = 0, mss = 200, my_wind = 200, r_wind = 0,
      cwnd = 200, ssthresh = 0xffff, sk_seqno = 9, sk_ackno = 0, retx = 0, retxcnt = 0\<rparr>"

definition closing_state :: tcp_state where
  "closing_state = \<lparr>socks = \<lambda>_. closing_sock, conns = [0], tcp_heap = [], tcp_log = []\<rparr>"

text \<open>The acknowledgement of a FIN closes the socket, with \<open>TcpP\<close> as the user.\<close>

definition last_ack_segment :: bytes where
  "last_ack_segment = [0, 1, 0, 7, 0, 0, 0, 0, 0, 0, 0, 10, 80, 0x10, 0, 0, 0, 0, 0, 0]"

theorem tcp_state_machine_witness:
  "\<exists>sg st'. tcplib_process (TcpP_env 1 default_app) (replicate 40 0) last_ack_segment closing_state = Some (0, st') \<and>
     state_at st' 0 = TCP_CLOSED \<and> tcp_step sg 0 True TCP_LAST_ACK TCP_CLOSED"
proof -
  note q = TcpP_obeys [OF default_app_obeys, of 1]
  define th where "th = \<lparr>th_srcport = ld16 0 1, th_dstport = ld16 0 7, th_seqno = ld32 0 0 0 0,
     th_ackno = ld32 0 0 0 10, th_offset = 80, th_flags = 0x10, th_window = ld16 0 0\<rparr>"
  define sg where "sg = \<lparr>sg_iph = replicate 40 0, sg_th = th, sg_payload = last_ack_segment\<rparr>"
  have t: "tcp_hdr_of last_ack_segment = Some th"
    by (simp add: tcp_hdr_of_def last_ack_segment_def th_def rdn_def sizeof_tcp_hdr_def)
  have port: "ld16 0 7 = 0x0700" by (simp add: ld16_def)
  have l: "conn_lookup (replicate 40 0) th closing_state = Some 0"
    by (simp add: conn_lookup_def closing_state_def conn_matches_def closing_sock_def th_def port
        ip6_dst_def zero_sockaddr_def)
  have a: "hdr_ackno sg = 10" by (simp add: hdr_ackno_def sg_def th_def nwbyte_defs)
  let ?st = "upd_sock 0 (\<lambda>s. s\<lparr>r_wind := ntohs (th_window th)\<rparr>) closing_state"
  have f: "th_flags th AND TCP_FLAG_RST = 0" "sg_flag sg TCP_FLAG_ACK"
    by (simp_all add: th_def tcp_consts sg_flag_def sg_def)
  have s: "sk_state (socks ?st 0) = TCP_LAST_ACK" "sk_seqno (socks ?st 0) = 9"
    by (simp_all add: upd_sock_def closing_state_def closing_sock_def)
  define st' where "st' = emit (TcpP_env 1 default_app) (ExternCloseDone 0) (upd_sock 0 (\<lambda>s. s\<lparr>sk_state := TCP_CLOSED\<rparr>) ?st)"
  have "process_state (TcpP_env 1 default_app) 0 sg ?st = Some (0, st')"
    by (simp add: process_state_def s f a st'_def)
  then have p: "tcplib_process (TcpP_env 1 default_app) (replicate 40 0) last_ack_segment closing_state = Some (0, st')"
    using f(1) by (simp add: tcplib_process_def t l sg_def)
  have c: "state_at st' 0 = TCP_CLOSED"
    by (simp add: st'_def emit_def TcpP_env_def TcpP_up_def extern_closedone_def)
  have "state_at closing_state 0 = TCP_LAST_ACK" "ackno_at closing_state 0 = 0" "sk_seqno (socks closing_state 0) = 9"
    by (simp_all add: state_at_def ackno_at_def closing_state_def closing_sock_def)
  with tcp_state_machine [OF q t l p sg_def] a p c show ?thesis
    by (intro exI [of _ sg] exI [of _ st'] conjI) simp_all
qed

end
