(* ===== verification/IpMallocProps.thy ===== *)
theory IpMallocProps
  imports IpMalloc
begin

text \<open>
  The allocator refines first-fit allocation on a list of blocks: splitting on \<open>ip_malloc\<close>, merging
  with both neighbours on \<open>ip_free\<close>. A client's view of it is the locale \<open>region_allocator\<close>.
\<close>

section \<open>First fit on blocks\<close>

definition busy :: "nat \<Rightarrow> block \<Rightarrow> bool" where
  "busy n b \<longleftrightarrow> fst b \<or> snd b < n"

definition fit_pos :: "nat \<Rightarrow> block list \<Rightarrow> nat" where
  "fit_pos n bs = blocks_len (takeWhile (busy n) bs)"

definition alloc_blocks :: "nat \<Rightarrow> block list \<Rightarrow> block list option" where
  "alloc_blocks n bs =
     (case dropWhile (busy n) bs of
        [] \<Rightarrow> None
      | b # post \<Rightarrow>
          Some (takeWhile (busy n) bs @ (True, n - 2) # (False, snd b - (n - 2)) # post))"

text \<open>A freed block joined with the free block after it, and with the free block before it.\<close>

definition fuse :: "block \<Rightarrow> block list \<Rightarrow> block list" where
  "fuse b bs =
     (case bs of c # cs \<Rightarrow> if fst c then b # bs else (fst b, snd b + snd c) # cs | [] \<Rightarrow> [b])"

definition release :: "block list \<Rightarrow> nat \<Rightarrow> block list \<Rightarrow> block list" where
  "release pre l post =
     (let m = fuse (False, l) post
      in if pre \<noteq> [] \<and> \<not> fst (last pre)
         then butlast pre @ (False, snd (last pre) + snd (hd m)) # tl m
         else pre @ m)"

text \<open>No two free blocks in a row.\<close>

definition coalesced :: "block list \<Rightarrow> bool" where
  "coalesced bs \<longleftrightarrow> successively (\<lambda>b c. fst b \<or> fst c) bs"

section \<open>The search\<close>

lemma rd_tag_end: "length heap = IP_MALLOC_HEAP_SIZE \<Longrightarrow> rd_tag heap IP_MALLOC_HEAP_SIZE = None"
  by (simp add: rd_tag_def rdn_def)

lemma heap_size_small: "l \<le> IP_MALLOC_HEAP_SIZE \<Longrightarrow> l < 4096"
  by (simp add: IP_MALLOC_HEAP_SIZE_def)

lemma malloc_scan_blocks:
  assumes "tags_at heap p bs" and "p + blocks_len bs = IP_MALLOC_HEAP_SIZE"
    and "length heap = IP_MALLOC_HEAP_SIZE" and "length bs < fuel"
  shows "malloc_scan fuel heap sz p =
    (if dropWhile (busy (unat sz)) bs = [] then None else Some (p + fit_pos (unat sz) bs))"
  using assms
proof (induction bs arbitrary: p fuel)
  case Nil
  then show ?case by (cases fuel) (auto simp: rd_tag_end)
next
  case (Cons b bs)
  then obtain f where f: "fuel = Suc f" by (cases fuel) auto
  have l: "snd b < 4096" using Cons.prems(2) by (intro heap_size_small) simp
  have lt: "(of_nat (snd b) :: u16) < sz \<longleftrightarrow> snd b < unat sz"
    using l by (simp add: word_less_nat_alt unat_of_nat)
  have "p < IP_MALLOC_HEAP_SIZE" using Cons.prems by simp
  then have "malloc_scan fuel heap sz p =
      (if busy (unat sz) b then malloc_scan f heap sz (p + snd b) else Some p)"
    using Cons.prems(1) by (simp add: f block_tag_parts [OF l] lt busy_def)
  also have "malloc_scan f heap sz (p + snd b) =
      (if dropWhile (busy (unat sz)) bs = [] then None
       else Some (p + snd b + fit_pos (unat sz) bs))"
    using Cons.prems by (intro Cons.IH) (auto simp: f)
  finally show ?case by (simp add: fit_pos_def)
qed

lemma heap_blocks_fuel: "heap_blocks heap bs \<Longrightarrow> length bs < scan_fuel"
  using tags_at_length [of heap 0 bs] by (auto simp: heap_blocks_def scan_fuel_def IP_MALLOC_HEAP_SIZE_def)

text \<open>A request the 16-bit arithmetic of the code does not wrap.\<close>

lemma request_size_nat:
  assumes "unat req \<le> 65530"
  shows "unat (request_size req) = unat req + 4 + unat req mod 2"
proof -
  have 1: "unat (req + 4) = unat req + 4" using assms by (simp add: unat_word_ariths)
  have 2: "unat ((req + 4) mod 2) = unat req mod 2"
    by (simp add: unat_mod_distrib 1) presburger
  have "unat req mod 2 < 2" by simp
  then have "unat req + 4 + unat req mod 2 < 65536" using assms by linarith
  then show ?thesis
    by (simp add: request_size_def IP_MALLOC_ALIGN_def Let_def unat_word_ariths(1) 1 2)
qed

section \<open>Allocation\<close>

lemma wr_tag_nth:
  "wr_tag heap i t = Some h \<Longrightarrow> k < i \<or> i + 2 \<le> k \<Longrightarrow> k < length heap \<Longrightarrow> h ! k = heap ! k"
  by (auto simp: wr_tag_def wrn_nth)

lemma wr_tag_length: "wr_tag heap i t = Some h \<Longrightarrow> length h = length heap"
  by (auto simp: wr_tag_def dest: wrn_length)

text \<open>Cutting a free block in two.\<close>

lemma split_block:
  assumes "heap_blocks heap (pre @ (False, l) # post)" and "p = blocks_len pre"
    and "2 \<le> k" and "even k" and "k + 2 \<le> l"
  obtains h1 h2 where "wr_tag heap p (block_tag (True, k)) = Some h1"
    "wr_tag h1 (p + k) (block_tag (False, l - k)) = Some h2"
    "heap_blocks h2 (pre @ (True, k) # (False, l - k) # post)"
    "\<forall>i < IP_MALLOC_HEAP_SIZE. i < p \<or> p + l \<le> i \<longrightarrow> h2 ! i = heap ! i"
proof -
  have len: "length heap = IP_MALLOC_HEAP_SIZE" "p + l + blocks_len post = IP_MALLOC_HEAP_SIZE"
    and t: "tags_at heap 0 pre" "tags_at heap (p + l) post" "even l"
    using assms(1) by (simp_all add: heap_blocks_def assms(2))
  obtain h1 where h1: "wr_tag heap p (block_tag (True, k)) = Some h1" "length h1 = IP_MALLOC_HEAP_SIZE"
    using wr_tag_ok [of p heap "block_tag (True, k)"] assms(5) len by auto
  obtain h2 where h2: "wr_tag h1 (p + k) (block_tag (False, l - k)) = Some h2"
    "length h2 = IP_MALLOC_HEAP_SIZE"
    using wr_tag_ok [of "p + k" h1 "block_tag (False, l - k)"] assms(5) len h1(2) by auto
  have "tags_at h2 0 pre"
    by (rule tags_at_wr_after [OF h2(1) _ tags_at_wr_after [OF h1(1) _ t(1)]])
      (simp_all add: assms(2))
  moreover have "tags_at h2 (p + l) post"
    by (rule tags_at_wr_before [OF h2(1) _ tags_at_wr_before [OF h1(1) _ t(2)]])
      (use assms(3,5) in linarith)+
  moreover have "rd_tag h2 p = Some (block_tag (True, k))"
    using rd_wr_tag_other [OF h2(1), of p] rd_wr_tag [OF h1(1)] assms(3) by simp
  moreover have "rd_tag h2 (p + k) = Some (block_tag (False, l - k))" by (rule rd_wr_tag [OF h2(1)])
  ultimately have "heap_blocks h2 (pre @ (True, k) # (False, l - k) # post)"
    using len h2(2) assms t(3) by (auto simp: heap_blocks_def)
  moreover have "\<forall>i < IP_MALLOC_HEAP_SIZE. i < p \<or> p + l \<le> i \<longrightarrow> h2 ! i = heap ! i"
  proof (intro allI impI)
    fix i assume i: "i < IP_MALLOC_HEAP_SIZE" "i < p \<or> p + l \<le> i"
    then have "h2 ! i = h1 ! i"
      using h1(2) assms(5) by (intro wr_tag_nth [OF h2(1)]) auto
    also have "h1 ! i = heap ! i"
      using i len(1) assms(3,5) by (intro wr_tag_nth [OF h1(1)]) auto
    finally show "h2 ! i = heap ! i" .
  qed
  ultimately show thesis using that h1(1) h2(1) by blast
qed

lemma ip_malloc_blocks:
  assumes "heap_blocks heap bs" and "unat req \<le> 65530" and "n = unat (request_size req)"
  shows "case alloc_blocks n bs of
      None \<Rightarrow> ip_malloc heap req = None
    | Some bs' \<Rightarrow> \<exists>heap'. ip_malloc heap req = Some (Some (fit_pos n bs + 2), heap') \<and>
        heap_blocks heap' bs' \<and>
        (\<exists>l post. dropWhile (busy n) bs = (False, l) # post \<and> n \<le> l \<and>
           (\<forall>i < IP_MALLOC_HEAP_SIZE. i < fit_pos n bs \<or> fit_pos n bs + l \<le> i \<longrightarrow>
              heap' ! i = heap ! i))"
proof -
  have scan: "malloc_scan scan_fuel heap (request_size req) 0 =
      (if dropWhile (busy n) bs = [] then None else Some (fit_pos n bs))"
    using malloc_scan_blocks [of heap 0 bs scan_fuel "request_size req"] assms(1,3)
      heap_blocks_fuel [OF assms(1)] by (simp add: heap_blocks_def)
  show ?thesis
  proof (cases "dropWhile (busy n) bs")
    case Nil
    have "malloc_scan scan_fuel heap (request_size req) 0 = None"
      unfolding scan Nil by simp
    then show ?thesis unfolding alloc_blocks_def Nil by (simp add: ip_malloc_def Let_def)
  next
    case (Cons b post)
    let ?pre = "takeWhile (busy n) bs" and ?p = "fit_pos n bs"
    have nb: "\<not> busy n b" using Cons hd_dropWhile [of "busy n" bs] by simp
    obtain l where b: "b = (False, l)" "n \<le> l" using nb by (cases b) (auto simp: busy_def)
    have bs: "bs = ?pre @ (False, l) # post"
      using takeWhile_dropWhile_id [of "busy n" bs] Cons b by simp
    then have hb: "heap_blocks heap (?pre @ (False, l) # post)" using assms(1) by simp
    have n: "n = unat req + 4 + unat req mod 2"
      using request_size_nat [OF assms(2)] assms(3) by simp
    then have n4: "4 \<le> n" "even n" by (auto simp: mod2_eq_if)
    have "?p + l \<le> IP_MALLOC_HEAP_SIZE" using hb by (auto simp: heap_blocks_def fit_pos_def)
    then have l: "l < 4096" "?p < IP_MALLOC_HEAP_SIZE" using b(2) n4(1) by (auto simp: IP_MALLOC_HEAP_SIZE_def)
    have t: "rd_tag heap ?p = Some (block_tag (False, l))"
      using hb by (simp add: heap_blocks_def fit_pos_def)
    obtain h1 h2 where h: "wr_tag heap ?p (block_tag (True, n - 2)) = Some h1"
      "wr_tag h1 (?p + (n - 2)) (block_tag (False, l - (n - 2))) = Some h2"
      "heap_blocks h2 (?pre @ (True, n - 2) # (False, l - (n - 2)) # post)"
      "\<forall>i < IP_MALLOC_HEAP_SIZE. i < ?p \<or> ?p + l \<le> i \<longrightarrow> h2 ! i = heap ! i"
      by (rule split_block [OF hb, of ?p "n - 2"]) (use n4 b(2) in \<open>auto simp: fit_pos_def\<close>)
    have "request_size req = of_nat n" by (simp add: assms(3))
    moreover have "(of_nat n :: u16) - 2 = of_nat (n - 2)" using n4(1) by (simp add: of_nat_diff)
    ultimately have sz: "request_size req - 2 = of_nat (n - 2)" by simp
    have nl: "n - 2 < 4096" "l - (n - 2) < 4096" using l(1) b(2) n4(1) by linarith+
    have un: "unat (of_nat (n - 2) :: u16) = n - 2" using nl(1) by (simp add: unat_of_nat)
    have d: "(of_nat l - of_nat (n - 2)) AND IP_MALLOC_LEN = block_tag (False, l - (n - 2))"
      using block_tag_free [OF nl(2)] b(2) by (simp add: of_nat_diff)
    have "ip_malloc heap req = Some (Some (?p + 2), h2)"
      using h(1,2) l(2)
      by (simp add: ip_malloc_def Let_def scan Cons t sz un d block_tag_parts(1) [of "(False, l)", simplified, OF l(1)]
          block_tag_used [OF nl(1)])
    then show ?thesis using h(3,4) Cons b bs by (simp add: alloc_blocks_def)
  qed
qed

section \<open>Release\<close>

text \<open>One tag for several blocks: setting a flag, and joining two blocks.\<close>

lemma retag:
  assumes "heap_blocks heap (pre @ mid @ post)" and "mid \<noteq> []"
  obtains h where "wr_tag heap (blocks_len pre) (block_tag (u, blocks_len mid)) = Some h"
    "heap_blocks h (pre @ (u, blocks_len mid) # post)"
    "\<forall>i < IP_MALLOC_HEAP_SIZE. i < blocks_len pre \<or> blocks_len pre + 2 \<le> i \<longrightarrow> h ! i = heap ! i"
proof -
  let ?p = "blocks_len pre"
  have len: "length heap = IP_MALLOC_HEAP_SIZE" "?p + (blocks_len mid + blocks_len post) = IP_MALLOC_HEAP_SIZE"
    and t: "tags_at heap 0 pre" "tags_at heap (?p + blocks_len mid) post" "tags_at heap ?p mid"
    using assms(1) by (simp_all add: heap_blocks_def)
  have ev: "even (blocks_len m)" if "tags_at heap q m" for q m
    using that by (induction m arbitrary: q) auto
  have "1 \<le> length mid" using assms(2) by (cases mid) auto
  then have m2: "2 \<le> blocks_len mid" using tags_at_length [OF t(3)] by linarith
  obtain h where h: "wr_tag heap ?p (block_tag (u, blocks_len mid)) = Some h" "length h = length heap"
    using wr_tag_ok [of ?p heap "block_tag (u, blocks_len mid)"] len m2 by auto
  have "tags_at h 0 pre" by (rule tags_at_wr_after [OF h(1) _ t(1)]) simp
  moreover have "tags_at h (?p + blocks_len mid) post"
    by (rule tags_at_wr_before [OF h(1) _ t(2)]) (use m2 in simp)
  ultimately have "heap_blocks h (pre @ (u, blocks_len mid) # post)"
    using len h m2 ev [OF t(3)] rd_wr_tag [OF h(1)] by (simp add: heap_blocks_def)
  moreover have "\<forall>i < IP_MALLOC_HEAP_SIZE. i < ?p \<or> ?p + 2 \<le> i \<longrightarrow> h ! i = heap ! i"
    using wr_tag_nth [OF h(1)] len(1) by auto
  ultimately show thesis using h(1) that by blast
qed

lemma free_scan_blocks:
  assumes "tags_at heap p (pre @ b # post)" and "p + blocks_len (pre @ b # post) = IP_MALLOC_HEAP_SIZE"
    and "length pre < fuel"
  shows "free_scan fuel heap (p + blocks_len pre + 2) prev p =
    Some (if pre = [] then prev else Some (p + blocks_len (butlast pre)), p + blocks_len pre)"
  using assms
proof (induction pre arbitrary: p fuel prev)
  case Nil
  then show ?case by (cases fuel) auto
next
  case (Cons c pre)
  then obtain f where f: "fuel = Suc f" by (cases fuel) auto
  have l: "snd c < 4096" using Cons.prems(2) by (intro heap_size_small) simp
  have c: "2 \<le> snd c" "p < IP_MALLOC_HEAP_SIZE" using Cons.prems by auto
  have "free_scan f heap (p + snd c + blocks_len pre + 2) (Some p) (p + snd c) =
      Some (if pre = [] then Some p else Some (p + snd c + blocks_len (butlast pre)),
        p + snd c + blocks_len pre)"
    using Cons.prems by (intro Cons.IH) (auto simp: f ac_simps)
  then show ?case using Cons.prems(1) c by (simp add: f block_tag_parts [OF l] ac_simps)
qed

text \<open>Joining a free block with its neighbours.\<close>

lemma merge_next_blocks:
  assumes "heap_blocks heap (pre @ (False, l) # post)"
  obtains h where "merge_next heap (blocks_len pre) (blocks_len pre + l) = Some h"
    "heap_blocks h (pre @ fuse (False, l) post)"
    "\<forall>i < IP_MALLOC_HEAP_SIZE. i < blocks_len pre \<or> blocks_len pre + 2 \<le> i \<longrightarrow> h ! i = heap ! i"
proof (cases post)
  case Nil
  then have "blocks_len pre + l = IP_MALLOC_HEAP_SIZE" using assms by (simp add: heap_blocks_def)
  then show thesis using that [of heap] assms Nil by (simp add: merge_next_def fuse_def)
next
  case (Cons c cs)
  let ?p = "blocks_len pre"
  have t: "rd_tag heap ?p = Some (block_tag (False, l))" "rd_tag heap (?p + l) = Some (block_tag c)"
    and c: "2 \<le> snd c" "?p + l + snd c \<le> IP_MALLOC_HEAP_SIZE"
    using assms by (auto simp: heap_blocks_def Cons)
  have lc: "l < 4096" "snd c < 4096" "l + snd c < 4096"
    using c(2) by (simp_all add: IP_MALLOC_HEAP_SIZE_def)
  note parts = block_tag_parts [OF lc(2)] block_tag_parts [of "(False, l)", simplified, OF lc(1)]
  show thesis
  proof (cases "fst c")
    case True
    then show thesis
      using that [of heap] assms t c(2) by (simp add: merge_next_def fuse_def Cons parts)
  next
    case False
    then have c': "c = (False, snd c)" by (cases c) auto
    have "heap_blocks heap (pre @ [(False, l), c] @ cs)" using assms Cons by simp
    then obtain h where h: "wr_tag heap ?p (block_tag (False, l + snd c)) = Some h"
      "heap_blocks h (pre @ (False, l + snd c) # cs)"
      "\<forall>i < IP_MALLOC_HEAP_SIZE. i < ?p \<or> ?p + 2 \<le> i \<longrightarrow> h ! i = heap ! i"
      by (rule retag [where u = False]) simp_all
    have "block_tag (False, l + snd c) = of_nat l + of_nat (snd c)" by (simp add: block_tag_def)
    with h False t c show thesis
      by (intro that [of h]) (simp_all add: merge_next_def fuse_def Cons parts)
  qed
qed

lemma merge_prev_blocks:
  assumes "heap_blocks heap (pre @ b # post)"
  obtains h where
    "merge_prev heap (if pre = [] then None else Some (blocks_len (butlast pre))) (blocks_len pre) = Some h"
    "heap_blocks h
      (if pre \<noteq> [] \<and> \<not> fst (last pre) then butlast pre @ (False, snd (last pre) + snd b) # post
       else pre @ b # post)"
    "\<forall>i < IP_MALLOC_HEAP_SIZE. pre = [] \<or> fst (last pre) \<or> i < blocks_len (butlast pre) \<or>
        blocks_len (butlast pre) + 2 \<le> i \<longrightarrow> h ! i = heap ! i"
proof (cases pre rule: rev_cases)
  case Nil
  then show thesis using that [of heap] assms by (simp add: merge_prev_def)
next
  case (snoc qs c)
  let ?p = "blocks_len qs"
  have t: "rd_tag heap ?p = Some (block_tag c)" "rd_tag heap (?p + snd c) = Some (block_tag b)"
    and c: "?p + snd c + snd b \<le> IP_MALLOC_HEAP_SIZE"
    using assms by (auto simp: heap_blocks_def snoc)
  have lc: "snd c < 4096" "snd b < 4096"
    using c by (simp_all add: IP_MALLOC_HEAP_SIZE_def)
  note parts = block_tag_parts [OF lc(1)] block_tag_parts [OF lc(2)]
  show thesis
  proof (cases "fst c")
    case True
    then show thesis using that [of heap] assms t by (simp add: merge_prev_def snoc parts)
  next
    case False
    then have c': "c = (False, snd c)" by (cases c) auto
    have "heap_blocks heap (qs @ [c, b] @ post)" using assms snoc by simp
    then obtain h where h: "wr_tag heap ?p (block_tag (False, snd c + snd b)) = Some h"
      "heap_blocks h (qs @ (False, snd c + snd b) # post)"
      "\<forall>i < IP_MALLOC_HEAP_SIZE. i < ?p \<or> ?p + 2 \<le> i \<longrightarrow> h ! i = heap ! i"
      by (rule retag [where u = False]) simp_all
    have "block_tag (False, snd c + snd b) = of_nat (snd c) + of_nat (snd b)"
      by (simp add: block_tag_def)
    with h False t show thesis
      by (intro that [of h]) (simp_all add: merge_prev_def snoc parts)
  qed
qed

lemma fuse_hd: "\<exists>b cs. fuse (False, l) post = b # cs \<and> \<not> fst b"
  by (cases post) (auto simp: fuse_def)

lemma ip_free_blocks:
  assumes "heap_blocks heap (pre @ (u, l) # post)" and "p = blocks_len pre"
  obtains h where "ip_free heap (p + 2) = Some h" "heap_blocks h (release pre l post)"
    "\<forall>i < IP_MALLOC_HEAP_SIZE. (i < p \<or> p + 2 \<le> i) \<and>
       (pre = [] \<or> fst (last pre) \<or> i < blocks_len (butlast pre) \<or> blocks_len (butlast pre) + 2 \<le> i)
       \<longrightarrow> h ! i = heap ! i"
proof -
  let ?prev = "if pre = [] then None else Some (blocks_len (butlast pre))"
  have sc: "free_scan scan_fuel heap (p + 2) None 0 = Some (?prev, p)"
    using free_scan_blocks [of heap 0 pre "(u, l)" post scan_fuel None] assms
      heap_blocks_fuel [OF assms(1)] by (simp add: heap_blocks_def)
  have t: "rd_tag heap p = Some (block_tag (u, l))" and "p + l \<le> IP_MALLOC_HEAP_SIZE"
    using assms by (auto simp: heap_blocks_def)
  then have l: "l < 4096" by (simp add: IP_MALLOC_HEAP_SIZE_def)
  note parts = block_tag_parts [of "(u, l)", simplified, OF l]
  obtain h1 where h1: "wr_tag heap p (block_tag (False, l)) = Some h1"
    "heap_blocks h1 (pre @ (False, l) # post)"
    "\<forall>i < IP_MALLOC_HEAP_SIZE. i < p \<or> p + 2 \<le> i \<longrightarrow> h1 ! i = heap ! i"
    using retag [of heap pre "[(u, l)]" post False] assms by auto
  obtain h2 where h2: "merge_next h1 p (p + l) = Some h2" "heap_blocks h2 (pre @ fuse (False, l) post)"
    "\<forall>i < IP_MALLOC_HEAP_SIZE. i < p \<or> p + 2 \<le> i \<longrightarrow> h2 ! i = h1 ! i"
    using merge_next_blocks [OF h1(2)] assms(2) by blast
  obtain b cs where m: "fuse (False, l) post = b # cs" using fuse_hd by blast
  obtain h3 where h3: "merge_prev h2 ?prev p = Some h3"
    "heap_blocks h3
      (if pre \<noteq> [] \<and> \<not> fst (last pre) then butlast pre @ (False, snd (last pre) + snd b) # cs
       else pre @ b # cs)"
    "\<forall>i < IP_MALLOC_HEAP_SIZE. pre = [] \<or> fst (last pre) \<or> i < blocks_len (butlast pre) \<or>
        blocks_len (butlast pre) + 2 \<le> i \<longrightarrow> h3 ! i = h2 ! i"
    using merge_prev_blocks [of h2 pre b cs] h2(2) m assms(2) by auto
  show thesis
  proof (rule that [of h3])
    show "ip_free heap (p + 2) = Some h3"
      unfolding ip_free_def sc using h1(1) h2(1) h3(1) t by (simp add: parts)
    show "heap_blocks h3 (release pre l post)" using h3(2) by (auto simp: release_def m Let_def split: if_splits)
    show "\<forall>i < IP_MALLOC_HEAP_SIZE. (i < p \<or> p + 2 \<le> i) \<and>
       (pre = [] \<or> fst (last pre) \<or> i < blocks_len (butlast pre) \<or> blocks_len (butlast pre) + 2 \<le> i)
       \<longrightarrow> h3 ! i = heap ! i"
      using h1(3) h2(3) h3(3) by metis
  qed
qed

section \<open>The heap as independent objects\<close>

text \<open>The blocks read back from a heap.\<close>

fun parse_blocks :: "nat \<Rightarrow> bytes \<Rightarrow> nat \<Rightarrow> block list" where
  "parse_blocks 0 heap p = []"
| "parse_blocks (Suc fuel) heap p =
     (if p < IP_MALLOC_HEAP_SIZE then
        case rd_tag heap p of
          None \<Rightarrow> []
        | Some t \<Rightarrow> (t AND IP_MALLOC_INUSE \<noteq> 0, tag_len t) # parse_blocks fuel heap (p + tag_len t)
      else [])"

definition blocks_of :: "bytes \<Rightarrow> block list" where
  "blocks_of heap = parse_blocks scan_fuel heap 0"

lemma parse_blocks_tags:
  assumes "tags_at heap p bs" and "p + blocks_len bs = IP_MALLOC_HEAP_SIZE" and "length bs < fuel"
  shows "parse_blocks fuel heap p = bs"
  using assms
proof (induction bs arbitrary: p fuel)
  case Nil
  then show ?case by (cases fuel) auto
next
  case (Cons b bs)
  then obtain f where f: "fuel = Suc f" by (cases fuel) auto
  obtain u k where b: "b = (u, k)" by (cases b)
  have l: "k < 4096" using Cons.prems(2) by (intro heap_size_small) (simp add: b)
  note parts = block_tag_parts [of "(u, k)", simplified, OF l]
  have "p < IP_MALLOC_HEAP_SIZE" using Cons.prems by simp
  moreover have "parse_blocks f heap (p + snd b) = bs"
    using Cons.prems by (intro Cons.IH) (auto simp: f)
  ultimately show ?case
    using Cons.prems(1) by (simp add: f b parts)
qed

lemma blocks_of_eq: "heap_blocks heap bs \<Longrightarrow> blocks_of heap = bs"
  using parse_blocks_tags [of heap 0 bs scan_fuel] heap_blocks_fuel [of heap bs]
  by (simp add: heap_blocks_def blocks_of_def)

text \<open>The payloads of the blocks in use: their pointers and contents.\<close>

fun payloads :: "bytes \<Rightarrow> nat \<Rightarrow> block list \<Rightarrow> (nat \<times> bytes) list" where
  "payloads heap p [] = []"
| "payloads heap p (b # bs) =
     (if fst b then [(p + 2, take (snd b - 2) (drop (p + 2) heap))] else []) @
     payloads heap (p + snd b) bs"

definition heap_ok :: "bytes \<Rightarrow> bool" where
  "heap_ok heap \<longleftrightarrow> heap_blocks heap (blocks_of heap)"

definition objects :: "bytes \<Rightarrow> nat \<rightharpoonup> bytes" where
  "objects heap = map_of (payloads heap 0 (blocks_of heap))"

lemma heap_okI: "heap_blocks heap bs \<Longrightarrow> heap_ok heap"
  using blocks_of_eq by (simp add: heap_ok_def)

lemma objects_eq: "heap_blocks heap bs \<Longrightarrow> objects heap = map_of (payloads heap 0 bs)"
  by (simp add: objects_def blocks_of_eq)

lemma payloads_append [simp]:
  "payloads heap p (bs @ cs) = payloads heap p bs @ payloads heap (p + blocks_len bs) cs"
  by (induction bs arbitrary: p) (auto simp: ac_simps)

lemma payloads_range:
  "(q, bytes) \<in> set (payloads heap p bs) \<Longrightarrow> tags_at heap p bs \<Longrightarrow>
   p + 2 \<le> q \<and> q < p + blocks_len bs + 1 \<and> q + length bytes \<le> p + blocks_len bs"
proof (induction bs arbitrary: p)
  case (Cons b bs)
  show ?case
  proof (cases "(q, bytes) \<in> set (payloads heap (p + snd b) bs)")
    case True
    then show ?thesis using Cons.IH [OF True] Cons.prems(2) by simp
  next
    case False
    then show ?thesis using Cons.prems by (auto split: if_splits)
  qed
qed simp

lemma payloads_cong:
  "(\<forall>i. p \<le> i \<and> i < p + blocks_len bs \<longrightarrow> h ! i = heap ! i) \<Longrightarrow> length h = length heap \<Longrightarrow>
   p + blocks_len bs \<le> length heap \<Longrightarrow> tags_at heap p bs \<Longrightarrow> payloads h p bs = payloads heap p bs"
proof (induction bs arbitrary: p)
  case (Cons b bs)
  have "take (snd b - 2) (drop (p + 2) h) = take (snd b - 2) (drop (p + 2) heap)"
    using Cons.prems by (intro nth_equalityI) auto
  moreover have "payloads h (p + snd b) bs = payloads heap (p + snd b) bs"
    using Cons.prems by (intro Cons.IH) auto
  ultimately show ?case by simp
qed simp

lemma payloads_mem:
  "(q, bytes) \<in> set (payloads heap p bs) \<Longrightarrow>
   \<exists>pre l post. bs = pre @ (True, l) # post \<and> q = p + blocks_len pre + 2 \<and>
     bytes = take (l - 2) (drop q heap)"
proof (induction bs arbitrary: p)
  case (Cons b bs)
  show ?case
  proof (cases "(q, bytes) \<in> set (payloads heap (p + snd b) bs)")
    case True
    from Cons.IH [OF this] obtain pre l post where
      "bs = pre @ (True, l) # post" "q = p + snd b + blocks_len pre + 2" "bytes = take (l - 2) (drop q heap)"
      by blast
    then show ?thesis by (intro exI [of _ "b # pre"] exI [of _ l] exI [of _ post]) auto
  next
    case False
    then have "fst b" "q = p + 2" "bytes = take (snd b - 2) (drop q heap)"
      using Cons.prems by (auto split: if_splits)
    then show ?thesis by (intro exI [of _ "[]"] exI [of _ "snd b"] exI [of _ bs]) (cases b; auto)
  qed
qed simp

lemma map_of_insert:
  "k \<notin> fst ` set xs \<Longrightarrow> map_of (xs @ (k, v) # ys) = (map_of (xs @ ys))(k \<mapsto> v)"
  by (induction xs) auto

lemma payload_keys_before:
  "tags_at heap 0 pre \<Longrightarrow> blocks_len pre + 2 \<notin> fst ` set (payloads heap 0 pre)"
  using payloads_range [of _ _ heap 0 pre] by fastforce

lemma payload_keys_after:
  "tags_at heap p bs \<Longrightarrow> q < p + 2 \<Longrightarrow> q \<notin> fst ` set (payloads heap p bs)"
  using payloads_range [of _ _ heap p bs] by fastforce

text \<open>Allocation adds an object with a fresh pointer.\<close>

lemma ip_malloc_objects:
  assumes "heap_ok h" and "unat req \<le> 65530" and "ip_malloc h req = Some (Some p, h')"
  shows "heap_ok h' \<and> objects h p = None \<and>
    (\<exists>bytes. unat req \<le> length bytes \<and> objects h' = (objects h)(p \<mapsto> bytes))"
proof -
  define n where "n = unat (request_size req)"
  define bs where "bs = blocks_of h"
  have hb: "heap_blocks h bs" using assms(1) by (simp add: heap_ok_def bs_def)
  define pre where "pre = takeWhile (busy n) bs"
  define q where "q = fit_pos n bs"
  have q: "q = blocks_len pre" by (simp add: q_def fit_pos_def pre_def)
  obtain bs' where bs': "alloc_blocks n bs = Some bs'"
    using ip_malloc_blocks [OF hb assms(2) n_def] assms(3) by (cases "alloc_blocks n bs") auto
  then obtain l post where 1: "p = q + 2" "heap_blocks h' bs'" "dropWhile (busy n) bs = (False, l) # post"
    "n \<le> l" "\<forall>i < IP_MALLOC_HEAP_SIZE. i < q \<or> q + l \<le> i \<longrightarrow> h' ! i = h ! i"
    using ip_malloc_blocks [OF hb assms(2) n_def] assms(3) by (auto simp: q_def)
  have b': "bs' = pre @ (True, n - 2) # (False, l - (n - 2)) # post"
    using bs' 1(3) by (simp add: alloc_blocks_def pre_def)
  have "bs = pre @ (False, l) # post"
    using takeWhile_dropWhile_id [of "busy n" bs] 1(3) by (simp add: pre_def)
  then have hb2: "heap_blocks h (pre @ (False, l) # post)" using hb by simp
  have n: "n = unat req + 4 + unat req mod 2" using request_size_nat [OF assms(2)] by (simp add: n_def)
  have len: "length h = IP_MALLOC_HEAP_SIZE" "length h' = IP_MALLOC_HEAP_SIZE"
    "q + l + blocks_len post = IP_MALLOC_HEAP_SIZE"
    and t: "tags_at h 0 pre" "tags_at h (q + l) post"
    using hb2 1(2) by (simp_all add: heap_blocks_def q)
  have pp: "payloads h' 0 pre = payloads h 0 pre"
    using len t(1) 1(5) by (intro payloads_cong) (auto simp flip: q)
  have po: "payloads h' (q + l) post = payloads h (q + l) post"
    using len t(2) 1(5) by (intro payloads_cong) auto
  let ?bytes = "take (n - 2 - 2) (drop (q + 2) h')"
  have o: "objects h = map_of (payloads h 0 pre @ payloads h (q + l) post)"
    using objects_eq [OF hb2] by (simp add: q)
  have o': "objects h' = map_of (payloads h 0 pre @ (q + 2, ?bytes) # payloads h (q + l) post)"
  proof -
    have e: "q + (n - 2) + (l - (n - 2)) = q + l" using 1(4) n by simp
    show ?thesis
      unfolding objects_eq [OF 1(2)] b' payloads_append payloads.simps add_0 pp q [symmetric] fst_conv
        snd_conv e po by simp
  qed
  have "q + 2 \<notin> fst ` set (payloads h 0 pre)" using payload_keys_before [OF t(1)] by (simp add: q)
  moreover have "q + 2 \<notin> fst ` set (payloads h (q + l) post)"
    using payload_keys_after [OF t(2)] 1(4) n by simp
  ultimately have "objects h p = None" "objects h' = (objects h)(p \<mapsto> ?bytes)"
    unfolding o o' 1(1) by (simp_all add: map_of_insert map_add_def map_of_eq_None_iff del: map_of_append)
      (simp_all add: map_of_eq_None_iff image_Un)
  moreover have "unat req \<le> length ?bytes" using n 1(4) len by simp
  ultimately show ?thesis using heap_okI [OF 1(2)] by blast
qed

text \<open>Freeing an object removes it and leaves the others alone.\<close>

lemma payloads_fuse: "payloads heap p (fuse (False, l) post) = payloads heap (p + l) post"
  by (cases post) (auto simp: fuse_def ac_simps)

lemma payloads_release:
  "payloads heap 0 (release pre l post) = payloads heap 0 pre @ payloads heap (blocks_len pre + l) post"
proof -
  obtain b cs where m: "fuse (False, l) post = b # cs" "\<not> fst b" using fuse_hd by blast
  then have *: "payloads heap (q + snd b) cs = payloads heap (q + l) post" for q
    using payloads_fuse [of heap q l post] by simp
  show ?thesis
  proof (cases pre rule: rev_cases)
    case (snoc qs c)
    then show ?thesis using m(2) * [of "blocks_len qs + snd c"] by (auto simp: release_def m(1) ac_simps)
  qed (use m * [of 0] in \<open>simp add: release_def\<close>)
qed

lemma map_of_remove:
  assumes "k \<notin> fst ` set xs" and "k \<notin> fst ` set ys"
  shows "map_of (xs @ ys) = (map_of (xs @ (k, v) # ys))(k := None)"
proof -
  have "map_of xs k = None" "map_of ys k = None" using assms by (simp_all add: map_of_eq_None_iff)
  then show ?thesis by (intro ext) (simp add: map_add_def split: option.splits)
qed

text \<open>The object at a pointer is the payload of a block.\<close>

lemma objects_block:
  assumes "heap_ok h" and "objects h p = Some bytes"
  obtains pre l post where "heap_blocks h (pre @ (True, l) # post)" "p = blocks_len pre + 2"
    "bytes = take (l - 2) (drop p h)"
    "objects h = map_of (payloads h 0 pre @ (p, bytes) # payloads h (blocks_len pre + l) post)"
    "p \<notin> fst ` set (payloads h 0 pre)" "p \<notin> fst ` set (payloads h (blocks_len pre + l) post)"
proof -
  have hb: "heap_blocks h (blocks_of h)" using assms(1) by (simp add: heap_ok_def)
  have "(p, bytes) \<in> set (payloads h 0 (blocks_of h))"
    using assms(2) by (simp add: objects_def map_of_SomeD)
  then obtain pre l post where 1: "blocks_of h = pre @ (True, l) # post" "p = blocks_len pre + 2"
    "bytes = take (l - 2) (drop p h)" using payloads_mem [of p bytes h 0 "blocks_of h"] by auto
  have "tags_at h 0 pre" "tags_at h (blocks_len pre + l) post" "2 \<le> l"
    using hb by (simp_all add: heap_blocks_def 1(1))
  then have "p \<notin> fst ` set (payloads h 0 pre)" "p \<notin> fst ` set (payloads h (blocks_len pre + l) post)"
    using payload_keys_before payload_keys_after [of h "blocks_len pre + l" post p] 1(2) by auto
  moreover have "objects h = map_of (payloads h 0 pre @ (p, bytes) # payloads h (blocks_len pre + l) post)"
    by (simp add: objects_def 1)
  ultimately show thesis using that hb 1 by simp
qed

lemma ip_free_objects:
  assumes "heap_ok h" and "objects h p = Some bytes"
  shows "\<exists>h'. ip_free h p = Some h' \<and> heap_ok h' \<and> objects h' = (objects h)(p := None)"
proof -
  obtain pre l post where 1: "heap_blocks h (pre @ (True, l) # post)" "p = blocks_len pre + 2"
    "objects h = map_of (payloads h 0 pre @ (p, bytes) # payloads h (blocks_len pre + l) post)"
    "p \<notin> fst ` set (payloads h 0 pre)" "p \<notin> fst ` set (payloads h (blocks_len pre + l) post)"
    by (rule objects_block [OF assms])
  let ?q = "blocks_len pre"
  obtain h' where h': "ip_free h p = Some h'" "heap_blocks h' (release pre l post)"
    "\<forall>i < IP_MALLOC_HEAP_SIZE. (i < ?q \<or> ?q + 2 \<le> i) \<and>
       (pre = [] \<or> fst (last pre) \<or> i < blocks_len (butlast pre) \<or> blocks_len (butlast pre) + 2 \<le> i)
       \<longrightarrow> h' ! i = h ! i"
    using ip_free_blocks [OF 1(1) refl] 1(2) by blast
  have len: "length h = IP_MALLOC_HEAP_SIZE" "length h' = IP_MALLOC_HEAP_SIZE"
    "?q + l + blocks_len post = IP_MALLOC_HEAP_SIZE" "2 \<le> l"
    and t: "tags_at h 0 pre" "tags_at h (?q + l) post"
    using 1(1) h'(2) by (simp_all add: heap_blocks_def)
  have bl: "blocks_len (butlast pre) \<le> ?q" "pre \<noteq> [] \<longrightarrow> blocks_len (butlast pre) + 2 \<le> ?q"
    using t(1) by (cases pre rule: rev_cases; simp)+
  have post: "payloads h' (?q + l) post = payloads h (?q + l) post"
    using len t(2) h'(3) bl by (intro payloads_cong) auto
  have pre: "payloads h' 0 pre = payloads h 0 pre"
  proof (cases "pre = [] \<or> fst (last pre)")
    case True
    then show ?thesis using len t(1) h'(3) by (intro payloads_cong) auto
  next
    case False
    then obtain qs c where c: "pre = qs @ [c]" "\<not> fst c" by (cases pre rule: rev_cases) auto
    have "payloads h' 0 qs = payloads h 0 qs"
      using len t(1) h'(3) c by (intro payloads_cong) auto
    then show ?thesis using c by simp
  qed
  have "objects h' = map_of (payloads h 0 pre @ payloads h (?q + l) post)"
    using objects_eq [OF h'(2)] by (simp add: payloads_release pre post)
  then show ?thesis using h'(1) heap_okI [OF h'(2)] map_of_remove [OF 1(4,5), of bytes] 1(3) by simp
qed

text \<open>Storing a byte into an object changes that object only.\<close>

lemma rd_tag_upd: "i < j \<or> j + 2 \<le> i \<Longrightarrow> rd_tag (h[i := b]) j = rd_tag h j"
  by (auto simp: rd_tag_def rdn_def drop_update_swap)

lemma tags_at_upd_before: "i < p \<Longrightarrow> tags_at (h[i := b]) p bs = tags_at h p bs"
  by (induction bs arbitrary: p) (simp_all add: rd_tag_upd)

lemma tags_at_upd_after:
  "p + blocks_len bs \<le> i \<Longrightarrow> tags_at h p bs \<Longrightarrow> tags_at (h[i := b]) p bs"
  by (induction bs arbitrary: p) (auto simp: rd_tag_upd)

lemma store_objects:
  assumes "heap_ok h" and "objects h p = Some bytes" and "k < length bytes"
  shows "heap_ok (h[p + k := b]) \<and> objects (h[p + k := b]) = (objects h)(p \<mapsto> bytes[k := b])"
proof -
  obtain pre l post where 1: "heap_blocks h (pre @ (True, l) # post)" "p = blocks_len pre + 2"
    "bytes = take (l - 2) (drop p h)"
    "objects h = map_of (payloads h 0 pre @ (p, bytes) # payloads h (blocks_len pre + l) post)"
    "p \<notin> fst ` set (payloads h 0 pre)" "p \<notin> fst ` set (payloads h (blocks_len pre + l) post)"
    by (rule objects_block [OF assms(1,2)])
  let ?q = "blocks_len pre" and ?h = "h[p + k := b]"
  have k: "k < l - 2" using assms(3) 1(3) by simp
  have len: "length h = IP_MALLOC_HEAP_SIZE" "?q + l + blocks_len post = IP_MALLOC_HEAP_SIZE"
    and t: "tags_at h 0 pre" "tags_at h (?q + l) post" "rd_tag h ?q = Some (block_tag (True, l))"
      "2 \<le> l" "even l"
    using 1(1) by (simp_all add: heap_blocks_def)
  have "tags_at ?h 0 pre" by (rule tags_at_upd_after [OF _ t(1)]) (simp add: 1(2))
  moreover have "tags_at ?h (?q + l) post" using t(2) k 1(2) by (simp add: tags_at_upd_before)
  moreover have "rd_tag ?h ?q = Some (block_tag (True, l))" using t(3) 1(2) by (simp add: rd_tag_upd)
  ultimately have hb: "heap_blocks ?h (pre @ (True, l) # post)"
    using len t(4,5) by (simp add: heap_blocks_def)
  have "payloads ?h 0 pre = payloads h 0 pre" "payloads ?h (?q + l) post = payloads h (?q + l) post"
    using len t(1,2) k 1(2) by (auto intro!: payloads_cong)
  moreover have "take (l - 2) (drop p ?h) = bytes[k := b]"
    using k by (simp add: 1(3) drop_update_swap take_update_swap)
  ultimately have "objects ?h = map_of (payloads h 0 pre @ (p, bytes[k := b]) # payloads h (?q + l) post)"
    using objects_eq [OF hb] by (simp add: 1(2))
  moreover have "map_of (payloads h 0 pre @ (p, v) # payloads h (?q + l) post) =
      (map_of (payloads h 0 pre @ payloads h (?q + l) post))(p \<mapsto> v)" for v
    by (rule map_of_insert [OF 1(5)])
  ultimately show ?thesis using heap_okI [OF hb] 1(4) by simp
qed

section \<open>The client's view\<close>

text \<open>Operations of a client on its objects, and their effect on a store of independent objects. The
  allocator chooses the pointer and the initial contents of a new object.\<close>

datatype heap_op = Malloc u16 nat bytes | Free nat | Store nat nat u8

fun obj_step :: "heap_op \<Rightarrow> (nat \<rightharpoonup> bytes) \<Rightarrow> (nat \<rightharpoonup> bytes) option" where
  "obj_step (Malloc n p bytes) m =
     (if m p = None \<and> unat n \<le> length bytes then Some (m(p \<mapsto> bytes)) else None)"
| "obj_step (Free p) m = (if m p = None then None else Some (m(p := None)))"
| "obj_step (Store p k b) m =
     (case m p of
        None \<Rightarrow> None
      | Some bytes \<Rightarrow> if k < length bytes then Some (m(p \<mapsto> bytes[k := b])) else None)"

fun obj_run :: "heap_op list \<Rightarrow> (nat \<rightharpoonup> bytes) \<Rightarrow> (nat \<rightharpoonup> bytes) option" where
  "obj_run [] m = Some m"
| "obj_run (c # cs) m = Option.bind (obj_step c m) (obj_run cs)"

text \<open>A client that frees and stores only through live objects, over an allocator's operations:
  its objects, allocation, release, storing a byte, and the largest request.\<close>

fun client_step :: "('h \<Rightarrow> nat \<rightharpoonup> bytes) \<Rightarrow> ('h \<Rightarrow> u16 \<Rightarrow> (nat option \<times> 'h) option) \<Rightarrow>
    ('h \<Rightarrow> nat \<Rightarrow> 'h option) \<Rightarrow> ('h \<Rightarrow> nat \<Rightarrow> u8 \<Rightarrow> 'h) \<Rightarrow> nat \<Rightarrow> heap_op \<Rightarrow> 'h \<Rightarrow> 'h option" where
  "client_step objs alloc rel put mx (Malloc n p bytes) h =
     (if unat n \<le> mx then
        case alloc h n of
          Some (Some q, h') \<Rightarrow> if q = p \<and> objs h' p = Some bytes then Some h' else None
        | _ \<Rightarrow> None
      else None)"
| "client_step objs alloc rel put mx (Free p) h = (if objs h p = None then None else rel h p)"
| "client_step objs alloc rel put mx (Store p k b) h =
     (case objs h p of
        None \<Rightarrow> None
      | Some bytes \<Rightarrow> if k < length bytes then Some (put h (p + k) b) else None)"

fun client_run :: "('h \<Rightarrow> nat \<rightharpoonup> bytes) \<Rightarrow> ('h \<Rightarrow> u16 \<Rightarrow> (nat option \<times> 'h) option) \<Rightarrow>
    ('h \<Rightarrow> nat \<Rightarrow> 'h option) \<Rightarrow> ('h \<Rightarrow> nat \<Rightarrow> u8 \<Rightarrow> 'h) \<Rightarrow> nat \<Rightarrow> heap_op list \<Rightarrow> 'h \<Rightarrow> 'h option" where
  "client_run objs alloc rel put mx [] h = Some h"
| "client_run objs alloc rel put mx (c # cs) h =
     Option.bind (client_step objs alloc rel put mx c h) (client_run objs alloc rel put mx cs)"

locale object_allocator =
  fixes ok :: "'h \<Rightarrow> bool" and objs :: "'h \<Rightarrow> nat \<rightharpoonup> bytes"
    and alloc :: "'h \<Rightarrow> u16 \<Rightarrow> (nat option \<times> 'h) option"
    and rel :: "'h \<Rightarrow> nat \<Rightarrow> 'h option" and put :: "'h \<Rightarrow> nat \<Rightarrow> u8 \<Rightarrow> 'h"
    and mx :: nat
  assumes alloc_law: "\<lbrakk>ok h; unat n \<le> mx; alloc h n = Some (Some p, h')\<rbrakk> \<Longrightarrow>
      ok h' \<and> objs h p = None \<and>
      (\<exists>bytes. unat n \<le> length bytes \<and> objs h' = (objs h)(p \<mapsto> bytes))"
    and release_law: "\<lbrakk>ok h; objs h p = Some bytes\<rbrakk> \<Longrightarrow>
      \<exists>h'. rel h p = Some h' \<and> ok h' \<and> objs h' = (objs h)(p := None)"
    and put_law: "\<lbrakk>ok h; objs h p = Some bytes; k < length bytes\<rbrakk> \<Longrightarrow>
      ok (put h (p + k) b) \<and> objs (put h (p + k) b) = (objs h)(p \<mapsto> bytes[k := b])"
begin

lemma step_simulates:
  assumes "ok h" and "client_step objs alloc rel put mx c h = Some h'"
  shows "ok h' \<and> obj_step c (objs h) = Some (objs h')"
proof (cases c)
  case (Malloc n p bytes)
  then have 1: "unat n \<le> mx" "alloc h n = Some (Some p, h')" "objs h' p = Some bytes"
    using assms(2) by (auto split: if_splits option.splits)
  from alloc_law [OF assms(1) 1(1,2)] 1(3) show ?thesis by (auto simp: Malloc)
next
  case (Free p)
  then obtain bytes where "objs h p = Some bytes" "rel h p = Some h'"
    using assms(2) by (auto split: if_splits)
  then show ?thesis using release_law [OF assms(1), of p bytes] by (auto simp: Free)
next
  case (Store p k b)
  then obtain bytes where "objs h p = Some bytes" "k < length bytes" "h' = put h (p + k) b"
    using assms(2) by (auto split: if_splits option.splits)
  then show ?thesis using put_law [OF assms(1), of p bytes k b] by (auto simp: Store)
qed

lemma run_simulates:
  "ok h \<Longrightarrow> client_run objs alloc rel put mx cs h = Some h' \<Longrightarrow>
   ok h' \<and> obj_run cs (objs h) = Some (objs h')"
proof (induction cs arbitrary: h)
  case (Cons c cs)
  then obtain h1 where 1: "client_step objs alloc rel put mx c h = Some h1"
    "client_run objs alloc rel put mx cs h1 = Some h'" by (auto simp: bind_Some_iff)
  from step_simulates [OF Cons.prems(1) 1(1)] Cons.IH [of h1] 1(2) show ?case by auto
qed simp

end

interpretation ip: object_allocator heap_ok objects ip_malloc ip_free "\<lambda>h i b. h[i := b]" 65530
  by unfold_locales (use ip_malloc_objects ip_free_objects store_objects in blast)+

section \<open>Properties\<close>

text \<open>The heap after \<open>ip_malloc_init\<close>: one free block, no object.\<close>

lemma init_tag: "of_nat IP_MALLOC_HEAP_SIZE AND IP_MALLOC_LEN = block_tag (False, IP_MALLOC_HEAP_SIZE)"
  by (rule block_tag_free) (simp add: IP_MALLOC_HEAP_SIZE_def)

lemma ip_malloc_init_blocks:
  assumes "length heap = IP_MALLOC_HEAP_SIZE"
  shows "\<exists>h. ip_malloc_init heap = Some h \<and> heap_blocks h [(False, IP_MALLOC_HEAP_SIZE)]"
proof -
  obtain h where h: "wr_tag heap 0 (block_tag (False, IP_MALLOC_HEAP_SIZE)) = Some h"
    "length h = length heap"
    using wr_tag_ok [of 0 heap] assms by (auto simp: IP_MALLOC_HEAP_SIZE_def)
  have "heap_blocks h [(False, IP_MALLOC_HEAP_SIZE)]"
    using rd_wr_tag [OF h(1)] h(2) assms by (simp add: heap_blocks_def) (simp add: IP_MALLOC_HEAP_SIZE_def)
  then show ?thesis using h(1) by (simp only: ip_malloc_init_def init_tag) simp
qed

text \<open>C33: From a freshly initialised heap, whatever a client allocates, frees and stores through live
  pointers, the allocator behaves as a store of independent objects: every new object has at least
  the requested size and a pointer no live object has, freeing removes one object, storing changes
  one byte of one object, and no operation touches another object's contents.\<close>

theorem ip_malloc_independent_objects:
  assumes "length heap = IP_MALLOC_HEAP_SIZE" and "ip_malloc_init heap = Some h0"
    and "client_run objects ip_malloc ip_free (\<lambda>h i b. h[i := b]) 65530 cs h0 = Some h"
  shows "heap_ok h \<and> obj_run cs Map.empty = Some (objects h)"
proof -
  have hb: "heap_blocks h0 [(False, IP_MALLOC_HEAP_SIZE)]"
    using ip_malloc_init_blocks [OF assms(1)] assms(2) by simp
  then have "objects h0 = Map.empty" using objects_eq [OF hb] by simp
  then show ?thesis using ip.run_simulates [OF heap_okI [OF hb] assms(3)] by simp
qed

text \<open>Allocation is first fit on the blocks of the heap: the first free block that holds the
  request, rounded to an even size with two tags, is cut in two; without such a block the search
  runs off the end of the heap and reads a tag past it before it can answer NULL.\<close>

theorem ip_malloc_first_fit:
  assumes "heap_blocks heap bs" and "unat req \<le> 65530" and "n = unat req + 4 + unat req mod 2"
  shows "case alloc_blocks n bs of
      None \<Rightarrow> ip_malloc heap req = None
    | Some bs' \<Rightarrow> \<exists>heap'. ip_malloc heap req = Some (Some (fit_pos n bs + 2), heap') \<and>
        heap_blocks heap' bs'"
proof -
  have "n = unat (request_size req)" using request_size_nat [OF assms(2)] assms(3) by simp
  from ip_malloc_blocks [OF assms(1,2) this] show ?thesis by (auto split: option.splits)
qed

lemma alloc_coalesced:
  assumes "coalesced bs" and "alloc_blocks n bs = Some bs'"
  shows "coalesced bs'"
proof -
  obtain b post where 1: "dropWhile (busy n) bs = b # post"
    "bs' = takeWhile (busy n) bs @ (True, n - 2) # (False, snd b - (n - 2)) # post"
    using assms(2) by (auto simp: alloc_blocks_def split: list.splits)
  have "\<not> fst b" using 1(1) hd_dropWhile [of "busy n" bs] by (auto simp: busy_def)
  moreover have "coalesced (takeWhile (busy n) bs @ b # post)"
    using assms(1) takeWhile_dropWhile_id [of "busy n" bs] 1(1) by simp
  ultimately show ?thesis
    by (cases post) (auto simp: 1(2) coalesced_def successively_append_iff successively_Cons)
qed

lemma release_coalesced:
  assumes "coalesced (pre @ (u, l) # post)"
  shows "coalesced (release pre l post)"
proof -
  have p: "coalesced pre" "coalesced post"
    using assms by (auto simp: coalesced_def successively_append_iff successively_Cons)
  obtain b cs where m: "fuse (False, l) post = b # cs" "\<not> fst b" using fuse_hd by blast
  have "coalesced (b # cs)"
    using p(2) m by (cases post; cases "tl post")
      (auto simp: fuse_def coalesced_def successively_Cons split: if_splits)
  then show ?thesis
    using p(1) m(2) by (cases pre rule: rev_cases)
      (auto simp: release_def m(1) Let_def coalesced_def successively_append_iff successively_Cons
        split: if_splits)
qed

text \<open>Freeing a block merges it with the free blocks next to it, before and after, so a heap
  without two free blocks in a row stays one; allocation keeps that too.\<close>

theorem ip_malloc_coalesced:
  assumes "heap_blocks heap bs" and "coalesced bs"
  shows "(\<forall>req p heap'. unat req \<le> 65530 \<and> ip_malloc heap req = Some (Some p, heap') \<longrightarrow>
      (\<exists>bs'. heap_blocks heap' bs' \<and> coalesced bs')) \<and>
    (\<forall>pre u l post. bs = pre @ (u, l) # post \<longrightarrow>
      (\<exists>heap'. ip_free heap (blocks_len pre + 2) = Some heap' \<and>
        heap_blocks heap' (release pre l post) \<and> coalesced (release pre l post)))"
proof (intro conjI allI impI)
  fix req p heap'
  assume r: "unat req \<le> 65530 \<and> ip_malloc heap req = Some (Some p, heap')"
  obtain bs' where "alloc_blocks (unat (request_size req)) bs = Some bs'" "heap_blocks heap' bs'"
    using ip_malloc_blocks [OF assms(1) _ refl, of req] r by (auto split: option.splits)
  then show "\<exists>bs'. heap_blocks heap' bs' \<and> coalesced bs'" using alloc_coalesced [OF assms(2)] by blast
next
  fix pre u l post
  assume bs: "bs = pre @ (u, l) # post"
  then obtain heap' where "ip_free heap (blocks_len pre + 2) = Some heap'"
    "heap_blocks heap' (release pre l post)"
    using ip_free_blocks [of heap pre u l post] assms(1) by blast
  then show "\<exists>heap'. ip_free heap (blocks_len pre + 2) = Some heap' \<and>
      heap_blocks heap' (release pre l post) \<and> coalesced (release pre l post)"
    using release_coalesced assms(2) bs by blast
qed

text \<open>A heap with one block of ten bytes in use.\<close>

lemma sample_alloc:
  "alloc_blocks 14 [(False, 1500)] = Some [(True, 12), (False, 1488)]" "fit_pos 14 [(False, 1500)] = 0"
  by (simp_all add: alloc_blocks_def busy_def fit_pos_def)

lemma sample_heap:
  obtains h0 h1 where "ip_malloc_init (replicate IP_MALLOC_HEAP_SIZE 0) = Some h0"
    "heap_blocks h0 [(False, 1500)]" "ip_malloc h0 10 = Some (Some 2, h1)"
    "heap_blocks h1 [(True, 12), (False, 1488)]"
proof -
  obtain h0 where h0: "ip_malloc_init (replicate IP_MALLOC_HEAP_SIZE 0) = Some h0"
    "heap_blocks h0 [(False, 1500)]"
    using ip_malloc_init_blocks [OF length_replicate, of 0]
    unfolding IP_MALLOC_HEAP_SIZE_def by blast
  have "unat (request_size 10) = 14" using request_size_nat [of 10] by simp
  then have "\<exists>h1. ip_malloc h0 10 = Some (Some 2, h1) \<and> heap_blocks h1 [(True, 12), (False, 1488)]"
    using ip_malloc_blocks [OF h0(2) _ refl, of 10] by (auto simp: sample_alloc simp flip: numeral_2_eq_2)
  then obtain h1 where "ip_malloc h0 10 = Some (Some 2, h1)" "heap_blocks h1 [(True, 12), (False, 1488)]"
    by blast
  then show thesis using that h0 by blast
qed

theorem ip_malloc_independent_objects_witness:
  "\<exists>bytes h0 h. ip_malloc_init (replicate IP_MALLOC_HEAP_SIZE 0) = Some h0 \<and>
     client_run objects ip_malloc ip_free (\<lambda>h i b. h[i := b]) 65530
       [Malloc 10 2 bytes, Store 2 3 7, Free 2] h0 = Some h \<and> objects h = Map.empty"
proof -
  obtain h0 h1 where 1: "ip_malloc_init (replicate IP_MALLOC_HEAP_SIZE 0) = Some h0"
    "heap_blocks h0 [(False, 1500)]" "ip_malloc h0 10 = Some (Some 2, h1)"
    "heap_blocks h1 [(True, 12), (False, 1488)]"
    by (rule sample_heap)
  obtain bytes where b: "10 \<le> length bytes" "objects h1 2 = Some bytes" "heap_ok h1"
    using ip_malloc_objects [OF heap_okI [OF 1(2)] _ 1(3)] by auto
  have st: "heap_ok (h1[5 := 7])" "objects (h1[5 := 7]) 2 = Some (bytes[3 := 7])"
    using store_objects [OF b(3,2), of 3 7] b(1) by auto
  obtain h where h: "ip_free (h1[5 := 7]) 2 = Some h" using ip_free_objects [OF st] by blast
  have run: "client_run objects ip_malloc ip_free (\<lambda>h i b. h[i := b]) 65530
       [Malloc 10 2 bytes, Store 2 3 7, Free 2] h0 = Some h"
    using 1(3) b st h by simp
  have "objects h = Map.empty"
    using ip_malloc_independent_objects [OF _ 1(1) run] b(1) by (simp split: if_splits)
  then show ?thesis using 1(1) run by blast
qed

theorem ip_malloc_first_fit_witness:
  "\<exists>heap heap'. heap_blocks heap [(False, 1500)] \<and> ip_malloc heap 10 = Some (Some 2, heap') \<and>
     heap_blocks heap' [(True, 12), (False, 1488)]"
proof -
  obtain h0 h1 where 1: "heap_blocks h0 [(False, 1500)]" by (rule sample_heap)
  have "\<exists>heap'. ip_malloc h0 10 = Some (Some 2, heap') \<and> heap_blocks heap' [(True, 12), (False, 1488)]"
    using ip_malloc_first_fit [OF 1 _ refl, of 10] by (simp add: sample_alloc flip: numeral_2_eq_2)
  then show ?thesis using 1 by blast
qed

theorem ip_malloc_coalesced_witness:
  "\<exists>heap heap'. heap_blocks heap [(True, 12), (False, 1488)] \<and> ip_free heap 2 = Some heap' \<and>
     heap_blocks heap' [(False, 1500)]"
proof -
  obtain h0 h1 where 1: "heap_blocks h1 [(True, 12), (False, 1488)]" by (rule sample_heap)
  have "coalesced [(True, 12), (False, 1488)]" by (simp add: coalesced_def)
  from conjunct2 [OF ip_malloc_coalesced [OF 1 this], rule_format, of "[]" True 12] obtain heap' where
    "ip_free h1 2 = Some heap'" "heap_blocks heap' (release [] 12 [(False, 1488)])" by (auto simp flip: numeral_2_eq_2)
  then show ?thesis using 1 by (auto simp: release_def fuse_def)
qed

text \<open>A request within three bytes of 65536 wraps the 16-bit size computation: the block handed out
  for 65535 bytes has no payload at all.\<close>

theorem ip_malloc_size_wraps:
  "\<exists>heap heap'. ip_malloc heap 65535 = Some (Some 2, heap') \<and>
     heap_blocks heap' [(True, 2), (False, 1498)]"
proof -
  obtain h0 h1 where 1: "heap_blocks h0 [(False, 1500)]" by (rule sample_heap)
  have rs: "request_size 65535 = 4" by (simp add: request_size_def IP_MALLOC_ALIGN_def)
  have w: "4 = unat (4 :: u16)" by simp
  have sc: "malloc_scan scan_fuel h0 4 0 = Some 0"
    using malloc_scan_blocks [of h0 0 "[(False, 1500)]" scan_fuel 4] heap_blocks_fuel [OF 1] 1
    by (simp add: heap_blocks_def busy_def fit_pos_def)
  have t: "rd_tag h0 0 = Some (block_tag (False, 1500))" using 1 by (simp add: heap_blocks_def)
  obtain ha hb where h: "wr_tag h0 0 (block_tag (True, 2)) = Some ha"
    "wr_tag ha 2 (block_tag (False, 1498)) = Some hb" "heap_blocks hb [(True, 2), (False, 1498)]"
    by (rule split_block [of h0 "[]" 1500 "[]" 0 2]) (use 1 in \<open>auto simp flip: numeral_2_eq_2\<close>)
  have "ip_malloc h0 65535 = Some (Some 2, hb)"
    using h(1,2) by (simp add: ip_malloc_def rs sc t Let_def) (simp add: block_tag_def ip_malloc_consts)
  then show ?thesis using h(3) by blast
qed

end
