(* ===== verification/TcpOutput.thy ===== *)
theory TcpOutput
  imports TcpProps IpMallocProps
begin

text \<open>
  What one call of \<open>tcplib_output\<close> sends, with a user that only passes messages on and a heap that
  has room: all the data from the given number on, cut into segments.
\<close>

section \<open>A message out of an empty heap\<close>

abbreviation heap_free :: "bytes \<Rightarrow> bool" where
  "heap_free h \<equiv> heap_blocks h [(False, IP_MALLOC_HEAP_SIZE)]"

lemma get_ipmsg_free:
  assumes "heap_free h" and "n \<le> 1390"
  shows "\<exists>h1 msg. get_ipmsg (int n) h = Some (Some (2, msg), h1) \<and> tm_nxt msg = IANA_TCP \<and>
    length (tm_data msg) = n \<and> (\<exists>h2. ip_free h1 2 = Some h2 \<and> heap_free h2)"
proof -
  define req :: u16 where "req = of_int (int (sizeof_ip6_packet + sizeof_tcp_hdr) + int sizeof_ip_iovec + int n)"
  have req: "unat req = 100 + n" "uint req = 100 + int n"
  proof -
    have "req = of_nat (100 + n)" by (simp add: req_def sizeof_ip6_packet_def sizeof_tcp_hdr_def sizeof_ip_iovec_def)
    then show "unat req = 100 + n" using assms(2) by (simp add: unat_of_nat del: of_nat_add)
    then show "uint req = 100 + int n" by (simp add: uint_nat del: of_nat_unat)
  qed
  define m where "m = unat (request_size req)"
  have "unat req mod 2 < 2" by simp
  then have m: "100 + n + 4 \<le> m" "m \<le> 1496" using request_size_nat [of req] req assms(2) unfolding m_def by auto
  have al: "alloc_blocks m [(False, IP_MALLOC_HEAP_SIZE)] =
      Some [(True, m - 2), (False, IP_MALLOC_HEAP_SIZE - (m - 2))]" "fit_pos m [(False, IP_MALLOC_HEAP_SIZE)] = 0"
    using m(2) by (simp_all add: alloc_blocks_def fit_pos_def busy_def IP_MALLOC_HEAP_SIZE_def)
  have "unat req \<le> 65530" using req assms(2) by simp
  from ip_malloc_blocks [OF assms(1) this m_def] al obtain h1 where
    h1: "ip_malloc h req = Some (Some 2, h1)" "heap_blocks h1 [(True, m - 2), (False, IP_MALLOC_HEAP_SIZE - (m - 2))]"
    by auto
  have "length h1 = 1500" using h1(2) by (simp add: heap_blocks_def IP_MALLOC_HEAP_SIZE_def)
  moreover have "\<exists>h2. ip_free h1 2 = Some h2 \<and> heap_free h2"
  proof -
    have "heap_blocks h1 ([] @ (True, m - 2) # [(False, IP_MALLOC_HEAP_SIZE - (m - 2))])" using h1(2) by simp
    from ip_free_blocks [OF this] obtain h2 where
      "ip_free h1 (blocks_len [] + 2) = Some h2"
      "heap_blocks h2 (release [] (m - 2) [(False, IP_MALLOC_HEAP_SIZE - (m - 2))])" by blast
    moreover have "release [] (m - 2) [(False, IP_MALLOC_HEAP_SIZE - (m - 2))] = [(False, IP_MALLOC_HEAP_SIZE)]"
      using m(2) by (simp add: release_def fuse_def Let_def IP_MALLOC_HEAP_SIZE_def)
    ultimately show ?thesis by (simp add: numeral_2_eq_2)
  qed
  ultimately show ?thesis
    using h1(1) req assms(2)
    unfolding get_ipmsg_def Let_def req_def [symmetric]
    by (simp add: sizeof_ip6_packet_def sizeof_tcp_hdr_def sizeof_ip_iovec_def)
qed

section \<open>One segment\<close>

text \<open>Sending hands the message on and leaves TCP alone, as in \<open>TcpP\<close>.\<close>

definition env_passive :: "tcp_env \<Rightarrow> bool" where
  "env_passive env \<longleftrightarrow> (\<forall>m st. env_up env (SendOut m) st = st)"

lemma TcpP_passive: "env_passive (TcpP_env n app)"
  by (simp add: env_passive_def TcpP_env_def TcpP_up_def)

text \<open>A message for the peer of the socket.\<close>

definition for_peer :: "tcplib_sock \<Rightarrow> tcp_msg \<Rightarrow> bool" where
  "for_peer s m \<longleftrightarrow> tm_dst m = sin6_addr (r_ep s) \<and> th_dstport (tm_hdr m) = sin6_port (r_ep s) \<and>
     th_ackno (tm_hdr m) = htonl (sk_ackno s) \<and> th_flags (tm_hdr m) = TCP_FLAG_ACK"

definition same_but_flags :: "tcplib_sock \<Rightarrow> tcplib_sock \<Rightarrow> bool" where
  "same_but_flags s s' \<longleftrightarrow> (\<exists>fl. s' = s\<lparr>sk_flags := fl\<rparr>)"

lemma same_but_flags_simps:
  "same_but_flags s s' \<Longrightarrow> sk_seqno s' = sk_seqno s \<and> mss s' = mss s \<and> sock_circ s' = sock_circ s \<and>
     for_peer s' = for_peer s"
  by (auto simp: same_but_flags_def sock_circ_def for_peer_def fun_eq_iff)

lemma same_but_flags_trans: "same_but_flags a b \<Longrightarrow> same_but_flags b c \<Longrightarrow> same_but_flags a c"
  by (auto simp: same_but_flags_def)

lemma output_segment_ok:
  assumes "env_passive env" and "heap_free (tcp_heap st)" and "sock_circ (socks st i) = Some b" and "circ_inv b"
    and "off + n \<le> length (circ_window b)" and "n \<le> 1390"
  shows "\<exists>st' m. output_segment env i (head_seqno b + of_nat off) (int n) st = Some (True, st') \<and>
    heap_free (tcp_heap st') \<and> same_but_flags (socks st i) (socks st' i) \<and>
    tcp_log st' = tcp_log st @ [SendOut m] \<and> for_peer (socks st i) m \<and>
    tm_data m = take n (drop off (circ_window b)) \<and> th_seqno (tm_hdr m) = htonl (head_seqno b + of_nat off)"
proof -
  obtain h1 msg h2 where g: "get_ipmsg (int n) (tcp_heap st) = Some (Some (2, msg), h1)"
    "tm_nxt msg = IANA_TCP" "length (tm_data msg) = n" "ip_free h1 2 = Some h2" "heap_free h2"
    using get_ipmsg_free [OF assms(2,6)] by blast
  have rd: "circ_buf_read b (head_seqno b + of_nat off) (tm_data msg) (int n) =
      Some (int n, take n (drop off (circ_window b)))"
    by (rule circ_read_window [OF assms(4,5) g(3)])
  show ?thesis
    using assms(1,3) g rd
    by (auto simp: output_segment_def with_msg_def tcplib_send_msg_def find_tcp_hdr_def Let_def emit_def
        env_passive_def upd_sock_def for_peer_def same_but_flags_def)
qed

section \<open>All segments\<close>

text \<open>How the data are cut: a first piece of \<open>n\<close> bytes, then pieces of the segment size \<open>w\<close> until the rest
  is smaller.\<close>

function cuts :: "nat \<Rightarrow> nat \<Rightarrow> nat \<Rightarrow> nat list" where
  "cuts rem n w = (if rem = 0 \<or> n = 0 then [] else n # cuts (rem - n) (min (rem - n) w) w)"
  by pat_completeness auto
termination by (relation "measure (\<lambda>(rem, n, w). rem)") auto

declare cuts.simps [simp del]

text \<open>Messages that carry the bytes \<open>d\<close> from the sequence number \<open>q\<close> on, in consecutive pieces.\<close>

fun carry :: "u32 \<Rightarrow> tcp_msg list \<Rightarrow> bytes \<Rightarrow> bool" where
  "carry q [] d \<longleftrightarrow> d = []"
| "carry q (m # ms) d \<longleftrightarrow> th_seqno (tm_hdr m) = htonl q \<and> tm_data m \<noteq> [] \<and>
     tm_data m = take (length (tm_data m)) d \<and>
     carry (q + of_nat (length (tm_data m))) ms (drop (length (tm_data m)) d)"

lemma to_int_u16: "to_int (uint (w :: u16)) = uint w"
proof (rule to_int_small)
  have "uint w < 65536" using uint_lt2p [of w] by simp
  then show "uint w < 2 ^ 31" by simp
  have "0 \<le> uint w" by simp
  then show "- (2 ^ 31) \<le> uint w" by (rule order_trans [rotated]) simp
qed

lemma min_u32_nat:
  assumes "n < 65536"
  shows "min_u32 (of_nat n) w = int (min n (unat w))"
proof -
  have n: "unat (of_nat n :: u32) = n" using assms by (simp add: unat_of_nat)
  have "ucast w < (of_nat n :: u32) \<longleftrightarrow> unat w < n" using n by (simp add: word_less_nat_alt)
  moreover have "uint x = int (unat x)" for x :: u32 by simp
  ultimately show ?thesis
    using n unat_u16_lt [of w] assms
    by (cases "unat w < n")
      (simp_all only: min_u32_def if_True if_False unat_ucast_u16_u32, simp_all add: to_int_small to_int_u16)
qed

lemma output_loop_ok:
  assumes "env_passive env" and "circ_inv b" and "unat w \<le> 1390" "0 < unat w"
    and "heap_free (tcp_heap st)" and "sock_circ (socks st i) = Some b" and "mss (socks st i) = w"
    and "sk_seqno (socks st i) = head_seqno b + of_nat (off + rem)" and "off + rem \<le> length (circ_window b)"
    and "n \<le> rem" and "n \<le> 1390" and "0 < rem \<longrightarrow> 0 < n"
  shows "\<exists>st' ms. output_loop env i (head_seqno b + of_nat off) (int n) st = Some (0, st') \<and>
    heap_free (tcp_heap st') \<and> tcp_log st' = tcp_log st @ map SendOut ms \<and>
    carry (head_seqno b + of_nat off) ms (take rem (drop off (circ_window b))) \<and>
    (\<forall>m \<in> set ms. for_peer (socks st i) m) \<and> map (\<lambda>m. length (tm_data m)) ms = cuts rem n (unat w)"
  using assms(5-)
proof (induction rem arbitrary: off n st rule: less_induct)
  case (less rem)
  have win: "length (circ_window b) < 65536" "unat (head_seqno b) + length (circ_window b) < 2 ^ 32"
    using assms(2) unat_u16_lt [of "data_len b"] by (simp_all add: circ_inv_def)
  have seq: "head_seqno b + of_nat off < sk_seqno (socks st i) \<longleftrightarrow> 0 < rem"
  proof -
    have u: "unat (head_seqno b + of_nat k) = unat (head_seqno b) + k" if "k \<le> length (circ_window b)" for k
      using win that by (simp add: unat_word_ariths unat_of_nat)
    show ?thesis
      using u [of off] u [of "off + rem"] less.prems(4,5) by (simp add: word_less_nat_alt)
  qed
  show ?case
  proof (cases "rem = 0")
    case True
    then show ?thesis
      using less.prems seq by (intro exI [of _ st] exI [of _ "[]"]) (simp add: output_loop.simps cuts.simps [of 0])
  next
    case False
    then have n: "0 < n" using less.prems(8) by simp
    have "off + n \<le> length (circ_window b)" using less.prems(5,6) by simp
    from output_segment_ok [OF assms(1) less.prems(1,2) assms(2) this less.prems(7)]
    obtain st1 m where 1: "output_segment env i (head_seqno b + of_nat off) (int n) st = Some (True, st1)"
      "heap_free (tcp_heap st1)" "same_but_flags (socks st i) (socks st1 i)"
      "tcp_log st1 = tcp_log st @ [SendOut m]" "for_peer (socks st i) m"
      "tm_data m = take n (drop off (circ_window b))" "th_seqno (tm_hdr m) = htonl (head_seqno b + of_nat off)"
      by blast
    have s1: "sk_seqno (socks st1 i) = head_seqno b + of_nat (off + rem)" "mss (socks st1 i) = w"
      "sock_circ (socks st1 i) = Some b" "for_peer (socks st1 i) = for_peer (socks st i)"
      using same_but_flags_simps [OF 1(3)] less.prems by simp_all
    define k where "k = min (rem - n) (unat w)"
    have sq: "head_seqno b + of_nat off + of_int (int n) = head_seqno b + of_nat (off + n)"
      by (simp add: add.assoc)
    have next_len: "min_u32 (sk_seqno (socks st1 i) - (head_seqno b + of_nat (off + n))) (mss (socks st1 i)) = int k"
    proof -
      have "sk_seqno (socks st1 i) - (head_seqno b + of_nat (off + n)) = of_nat (rem - n)"
        using less.prems(6) by (simp add: s1(1) of_nat_diff)
      moreover have "rem - n < 65536" using less.prems(5) win(1) by simp
      ultimately show ?thesis by (simp only: min_u32_nat k_def s1(2))
    qed
    have loop: "output_loop env i (head_seqno b + of_nat off) (int n) st =
        output_loop env i (head_seqno b + of_nat (off + n)) (int k) st1"
    proof -
      have "0 < int n \<and> head_seqno b + of_nat off < sk_seqno (socks st i)" using seq False n by simp
      then show ?thesis
        unfolding output_loop.simps [of env i "head_seqno b + of_nat off"] if_P
        by (simp only: if_P 1(1) Option.bind.simps prod.case not_True_eq_False if_False Let_def sq next_len)
    qed
    have "\<exists>st' ms. output_loop env i (head_seqno b + of_nat (off + n)) (int k) st1 = Some (0, st') \<and>
      heap_free (tcp_heap st') \<and> tcp_log st' = tcp_log st1 @ map SendOut ms \<and>
      carry (head_seqno b + of_nat (off + n)) ms (take (rem - n) (drop (off + n) (circ_window b))) \<and>
      (\<forall>m \<in> set ms. for_peer (socks st1 i) m) \<and> map (\<lambda>m. length (tm_data m)) ms = cuts (rem - n) k (unat w)"
      using less.prems 1(2) s1 n assms(3,4) by (intro less.IH) (auto simp: k_def add.assoc)
    then obtain st' ms where 2: "output_loop env i (head_seqno b + of_nat (off + n)) (int k) st1 = Some (0, st')"
      "heap_free (tcp_heap st')" "tcp_log st' = tcp_log st1 @ map SendOut ms"
      "carry (head_seqno b + of_nat (off + n)) ms (take (rem - n) (drop (off + n) (circ_window b)))"
      "\<forall>m \<in> set ms. for_peer (socks st i) m" "map (\<lambda>m. length (tm_data m)) ms = cuts (rem - n) k (unat w)"
      unfolding s1(4) by blast
    have len: "length (tm_data m) = n" using 1(6) less.prems(5,6) by simp
    have "carry (head_seqno b + of_nat off) (m # ms) (take rem (drop off (circ_window b)))"
    proof -
      have "drop n (take rem (drop off (circ_window b))) = take (rem - n) (drop (off + n) (circ_window b))"
        by (simp add: drop_take add.commute)
      moreover have "head_seqno b + of_nat off + of_nat n = head_seqno b + of_nat (off + n)"
        by (simp add: add.assoc)
      moreover have "tm_data m = take n (take rem (drop off (circ_window b)))" using 1(6) less.prems(6) by simp
      ultimately show ?thesis using 2(4) 1(7) len n by (simp only: carry.simps) auto
    qed
    moreover have "\<forall>x \<in> set (m # ms). for_peer (socks st i) x" using 2(5) 1(5) by simp
    moreover have "map (\<lambda>m. length (tm_data m)) (m # ms) = cuts rem n (unat w)"
      using 2(6) len n False less.prems(6) by (simp add: cuts.simps [of rem n] k_def)
    ultimately show ?thesis
      using 2(1-3) 1(4) loop by (intro exI [of _ st'] exI [of _ "m # ms"]) simp
  qed
qed

section \<open>Sending from a sequence number on\<close>

text \<open>C21: With the message heap free, a sender that leaves TCP alone, open windows, and a segment size and
  first segment of at most 1390 bytes (what the heap holds), \<open>tcplib_output\<close> returns 0 after sending
  to the socket's peer consecutive segments that together carry exactly the bytes of the transmit
  buffer from the given sequence number to the end of the data, with the heap free again. The first
  segment alone is held to the receiver's and the congestion window; every later one is as long as the
  segment size and the rest of the data allow, whatever the windows.\<close>

theorem tcplib_output_sends_all:
  assumes "env_passive env" and "heap_free (tcp_heap st)" and "s = socks st i" and "sock_circ s = Some b"
    and "circ_inv b" and "sk_seqno s = head_seqno b + of_nat (off + rem)" and "off + rem \<le> length (circ_window b)"
    and "0 < mss s" "unat (mss s) \<le> 1390" and "0 < r_wind s" and "0 < cwnd s"
    and "min rem (min (unat (r_wind s)) (unat (cwnd s))) \<le> 1390"
  shows "\<exists>st' ms. tcplib_output env i (head_seqno b + of_nat off) st = Some (0, st') \<and>
    heap_free (tcp_heap st') \<and> tcp_log st' = tcp_log st @ map SendOut ms \<and>
    carry (head_seqno b + of_nat off) ms (take rem (drop off (circ_window b))) \<and>
    (\<forall>m \<in> set ms. for_peer s m) \<and>
    map (\<lambda>m. length (tm_data m)) ms = cuts rem (min rem (min (unat (r_wind s)) (unat (cwnd s)))) (unat (mss s))"
proof -
  define n where "n = min (min rem (unat (r_wind s))) (unat (cwnd s))"
  have "sk_seqno s - (head_seqno b + of_nat off) = of_nat rem" by (simp add: assms(6))
  moreover have "rem < 65536"
    using assms(5,7) unat_u16_lt [of "data_len b"] by (simp add: circ_inv_def)
  ultimately have seg: "min_u32 (sk_seqno s - (head_seqno b + of_nat off)) (r_wind s) = int (min rem (unat (r_wind s)))"
    by (simp only: min_u32_nat)
  have out: "tcplib_output env i (head_seqno b + of_nat off) st = output_loop env i (head_seqno b + of_nat off) (int n) st"
  proof -
    have "(if uint (cwnd s) < int (min rem (unat (r_wind s))) then uint (cwnd s)
        else int (min rem (unat (r_wind s)))) = int n"
    proof -
      have "(if int c < int m then int c else int m) = int (min m c)" for c m :: nat by auto
      from this [of "unat (cwnd s)" "min rem (unat (r_wind s))"] show ?thesis by (simp only: n_def uint_nat)
    qed
    then show ?thesis by (simp only: tcplib_output_def Let_def assms(3) [symmetric] seg)
  qed
  have pos: "0 < unat (mss s)" "0 < unat (r_wind s)" "0 < unat (cwnd s)"
    using assms(8,10,11) by (simp_all add: word_gt_0 unat_gt_0)
  have "n \<le> rem" "n \<le> 1390" "0 < rem \<longrightarrow> 0 < n" "n = min rem (min (unat (r_wind s)) (unat (cwnd s)))"
    using pos assms(12) by (auto simp: n_def)
  from output_loop_ok [OF assms(1,5,9) pos(1) assms(2) assms(4) [unfolded assms(3)] _ assms(6) [unfolded assms(3)]
      assms(7) this(1-3)] this(4)
  show ?thesis unfolding out assms(3) by simp
qed

text \<open>A socket with ten bytes in its transmit buffer, the first two of them acknowledged, a segment
  size of three bytes and a congestion window of five.\<close>

definition busy_sock :: tcplib_sock where
  "busy_sock = closing_sock\<lparr>tx_buf := Some \<lparr>tx_raw = [], tx_circ = Some circ10\<rparr>, mss := 3, r_wind := 900,
     cwnd := 5, sk_seqno := 1010\<rparr>"

theorem tcplib_output_sends_all_witness:
  "\<exists>st st' ms. heap_free (tcp_heap st) \<and> tcplib_output (TcpP_env 1 default_app) 0 1002 st = Some (0, st') \<and>
     tcp_log st' = map SendOut ms \<and> carry 1002 ms [7, 8, 9, 0, 1, 2, 3, 4] \<and>
     map (\<lambda>m. length (tm_data m)) ms = [5, 3]"
proof -
  obtain h where h: "heap_free h"
    using ip_malloc_init_blocks [of "replicate IP_MALLOC_HEAP_SIZE 0"] by auto
  define st where "st = \<lparr>socks = \<lambda>_. busy_sock, conns = [0], tcp_heap = h, tcp_log = []\<rparr>"
  note q = TcpP_passive [of 1 default_app]
  have "heap_free (tcp_heap st)" "busy_sock = socks st 0" using h by (simp_all add: st_def)
  have w: "drop 2 (circ_window circ10) = [7, 8, 9, 0, 1, 2, 3, 4]" "length (cb_data circ10) = 10" "head_seqno circ10 = 1000"
    by (simp_all add: circ_window_def circ10_def rotate_drop_take)
  have s: "sock_circ busy_sock = Some circ10" "sk_seqno busy_sock = 1010" "mss busy_sock = 3"
    "r_wind busy_sock = 900" "cwnd busy_sock = 5" "tcp_log st = []"
    by (simp_all add: busy_sock_def sock_circ_def st_def)
  have c: "cuts 8 5 3 = [5, 3]" by (simp add: cuts.simps)
  have "\<exists>st' ms. tcplib_output (TcpP_env 1 default_app) 0 1002 st = Some (0, st') \<and> heap_free (tcp_heap st') \<and>
      tcp_log st' = map SendOut ms \<and> carry 1002 ms [7, 8, 9, 0, 1, 2, 3, 4] \<and> (\<forall>m \<in> set ms. for_peer busy_sock m) \<and>
      map (\<lambda>m. length (tm_data m)) ms = [5, 3]"
    using tcplib_output_sends_all [OF q \<open>heap_free (tcp_heap st)\<close> \<open>busy_sock = socks st 0\<close> s(1) circ10_inv, of 2 8]
    by (simp add: s w c del: map_eq_Cons_conv)
  then obtain st' ms where "tcplib_output (TcpP_env 1 default_app) 0 1002 st = Some (0, st')"
    "tcp_log st' = map SendOut ms" "carry 1002 ms [7, 8, 9, 0, 1, 2, 3, 4]" "map (\<lambda>m. length (tm_data m)) ms = [5, 3]"
    by (elim exE conjE)
  with \<open>heap_free (tcp_heap st)\<close> show ?thesis by (intro exI [of _ st] exI [of _ st'] exI [of _ ms] conjI)
qed

end
