(* ===== verification/SimHeap.thy ===== *)
theory SimHeap
  imports Prelude "HOL-Library.Multiset"
begin

text \<open>
  The array heap of the simulator (\<open>tossim/heap.c\<close>, \<open>heap.h\<close>), which orders its events: nodes in
  an array, a node's children at \<open>2i + 1\<close> and \<open>2i + 2\<close>, smallest key at index 0. The content of
  the memory \<open>malloc\<close> hands out is an argument; \<open>malloc\<close> does not fail (the code does not look).
  None is an access outside the array, or an overflow of a C int.
\<close>

section \<open>Nodes and heaps\<close>

text \<open>\<open>void *data\<close> is a pointer, None when it is NULL; keys are compared and copied only.\<close>

record 'a node =
  node_data :: "'a option"
  node_key :: int

record 'a heap_t =
  hp_size :: nat
  hp_data :: "'a node list"
  private_size :: nat

definition STARTING_SIZE :: nat where
  "STARTING_SIZE = 511"

definition INT_MAX :: nat where
  "INT_MAX = 2147483647"

definition HEAP_NODE :: "'a heap_t \<Rightarrow> nat \<Rightarrow> 'a node option" where
  "HEAP_NODE heap index =
     (if index < length (hp_data heap) then Some (hp_data heap ! index) else None)"

definition init_node :: "'a node" where
  "init_node = \<lparr>node_data = None, node_key = - 1\<rparr>"

definition init_heap :: "(nat \<Rightarrow> 'a node) \<Rightarrow> 'a heap_t" where
  "init_heap mem =
     \<lparr>hp_size = 0, hp_data = map mem [0..<STARTING_SIZE], private_size = STARTING_SIZE\<rparr>"

definition heap_size :: "'a heap_t \<Rightarrow> nat" where
  "heap_size heap = hp_size heap"

definition is_empty :: "'a heap_t \<Rightarrow> bool" where
  "is_empty heap \<longleftrightarrow> hp_size heap = 0"

definition heap_is_empty :: "'a heap_t \<Rightarrow> bool" where
  "heap_is_empty heap \<longleftrightarrow> is_empty heap"

definition heap_get_min_key :: "'a heap_t \<Rightarrow> int option" where
  "heap_get_min_key heap =
     (if is_empty heap then Some (- 1) else map_option node_key (HEAP_NODE heap 0))"

definition heap_peek_min_data :: "'a heap_t \<Rightarrow> 'a option option" where
  "heap_peek_min_data heap =
     (if is_empty heap then Some None else map_option node_data (HEAP_NODE heap 0))"

definition swap :: "'a node list \<Rightarrow> nat \<Rightarrow> nat \<Rightarrow> 'a node list" where
  "swap ns first second = ns[first := ns ! second, second := ns ! first]"

text \<open>\<open>down_heap\<close> on the array and the size; the higher index bounds every access of a step.\<close>

function down_heap :: "nat \<Rightarrow> 'a node list \<Rightarrow> nat \<Rightarrow> 'a node list option" where
  "down_heap size_h ns findex =
     (let right_index = (findex + 1) * 2; left_index = findex * 2 + 1
      in if right_index < size_h then
           if length ns \<le> right_index then None
           else
             let left_key = node_key (ns ! left_index); right_key = node_key (ns ! right_index);
                 min_key_index = (if left_key < right_key then left_index else right_index)
             in if node_key (ns ! min_key_index) < node_key (ns ! findex)
                then down_heap size_h (swap ns findex min_key_index) min_key_index
                else Some ns
         else if size_h \<le> left_index then Some ns
         else if length ns \<le> left_index then None
         else if node_key (ns ! left_index) < node_key (ns ! findex)
           then Some (swap ns findex left_index)
         else Some ns)"
  by pat_completeness auto
termination
  by (relation "measure (\<lambda>(size_h, ns, findex). size_h - findex)") (auto split: if_splits)

fun up_heap :: "'a node list \<Rightarrow> nat \<Rightarrow> 'a node list option" where
  "up_heap ns findex =
     (if findex = 0 then Some ns
      else if length ns \<le> findex then None
      else
        let parent_index = (findex - 1) div 2
        in if node_key (ns ! findex) < node_key (ns ! parent_index)
           then up_heap (swap ns findex parent_index) parent_index
           else Some ns)"

declare down_heap.simps [simp del] up_heap.simps [simp del]

text \<open>The node at \<open>size - 1\<close> of an empty heap is outside the array.\<close>

definition heap_pop_min_data :: "'a heap_t \<Rightarrow> ('a option \<times> int \<times> 'a heap_t) option" where
  "heap_pop_min_data heap =
     (if hp_size heap = 0 then None
      else
        let last_index = hp_size heap - 1
        in do {
          top \<leftarrow> HEAP_NODE heap 0;
          final \<leftarrow> HEAP_NODE heap last_index;
          ns \<leftarrow> down_heap (hp_size heap - 1) ((hp_data heap)[0 := final]) 0;
          Some (node_data top, node_key top, heap\<lparr>hp_size := hp_size heap - 1, hp_data := ns\<rparr>)
        })"

definition expand_heap :: "(nat \<Rightarrow> 'a node) \<Rightarrow> 'a heap_t \<Rightarrow> 'a heap_t option" where
  "expand_heap mem heap =
     (let new_size = private_size heap * 2 + 1
      in if INT_MAX < new_size \<or> length (hp_data heap) < private_size heap then None
         else Some (heap\<lparr>hp_data := take (private_size heap) (hp_data heap)
                                       @ map mem [private_size heap..<new_size],
                         private_size := new_size\<rparr>))"

definition heap_insert ::
    "(nat \<Rightarrow> 'a node) \<Rightarrow> 'a option \<Rightarrow> int \<Rightarrow> 'a heap_t \<Rightarrow> 'a heap_t option" where
  "heap_insert mem d k heap = do {
     heap \<leftarrow> (if hp_size heap = private_size heap then expand_heap mem heap else Some heap);
     let findex = hp_size heap;
     _ \<leftarrow> HEAP_NODE heap findex;
     ns \<leftarrow> up_heap ((hp_data heap)[findex := \<lparr>node_data = d, node_key = k\<rparr>]) findex;
     Some (heap\<lparr>hp_size := hp_size heap + 1, hp_data := ns\<rparr>)
   }"

section \<open>The invariant\<close>

definition parent :: "nat \<Rightarrow> nat" where
  "parent i = (i - 1) div 2"

definition ordered_at :: "'a node list \<Rightarrow> nat \<Rightarrow> bool" where
  "ordered_at ns i \<longleftrightarrow> node_key (ns ! parent i) \<le> node_key (ns ! i)"

definition heap_ordered :: "nat \<Rightarrow> 'a node list \<Rightarrow> bool" where
  "heap_ordered n ns \<longleftrightarrow> (\<forall>i. 0 < i \<and> i < n \<longrightarrow> ordered_at ns i)"

definition sim_heap_ok :: "'a heap_t \<Rightarrow> bool" where
  "sim_heap_ok heap \<longleftrightarrow>
     hp_size heap \<le> private_size heap \<and> length (hp_data heap) = private_size heap \<and>
     0 < private_size heap \<and> private_size heap \<le> INT_MAX \<and>
     heap_ordered (hp_size heap) (hp_data heap)"

definition heap_elems :: "'a heap_t \<Rightarrow> ('a option \<times> int) multiset" where
  "heap_elems heap = image_mset (\<lambda>n. (node_data n, node_key n)) (mset (take (hp_size heap) (hp_data heap)))"

section \<open>Swapping\<close>

lemma swap_length [simp]: "length (swap ns i j) = length ns"
  by (simp add: swap_def)

lemma swap_nth:
  assumes "i < length ns" and "j < length ns" and "k < length ns"
  shows "swap ns i j ! k = (if k = j then ns ! i else if k = i then ns ! j else ns ! k)"
  using assms by (simp add: swap_def nth_list_update)

lemma take_swap: "i < n \<Longrightarrow> j < n \<Longrightarrow> take n (swap ns i j) = swap (take n ns) i j"
  by (simp add: swap_def take_update_swap)

lemma mset_swap_nodes: "i < length ns \<Longrightarrow> j < length ns \<Longrightarrow> mset (swap ns i j) = mset ns"
  unfolding swap_def by (rule mset_swap)

lemma mset_take_swap:
  assumes "i < n" and "j < n" and "n \<le> length ns"
  shows "mset (take n (swap ns i j)) = mset (take n ns)"
  using assms by (simp add: take_swap mset_swap_nodes)

lemma parent_less: "0 < i \<Longrightarrow> parent i < i"
  by (auto simp: parent_def)

lemma parent_child_iff: "0 < i \<Longrightarrow> parent i = f \<longleftrightarrow> i = 2 * f + 1 \<or> i = 2 * f + 2"
  by (auto simp: parent_def)

section \<open>Sifting up\<close>

text \<open>Ordered but for the node at \<open>f\<close>, whose children are not below its parent.\<close>

definition ordered_but_up :: "nat \<Rightarrow> nat \<Rightarrow> 'a node list \<Rightarrow> bool" where
  "ordered_but_up n f ns \<longleftrightarrow>
     (\<forall>i. 0 < i \<and> i < n \<and> i \<noteq> f \<longrightarrow> ordered_at ns i) \<and>
     (\<forall>i. 0 < i \<and> i < n \<and> parent i = f \<and> 0 < f \<longrightarrow> node_key (ns ! parent f) \<le> node_key (ns ! i))"

lemma up_step:
  assumes "ordered_but_up n f ns" and "0 < f" and "f < n" and "n \<le> length ns"
    and "node_key (ns ! f) < node_key (ns ! parent f)"
  shows "ordered_but_up n (parent f) (swap ns f (parent f))"
proof -
  have p: "parent f < f" using assms by (simp add: parent_less)
  have nth: "swap ns f (parent f) ! k =
      (if k = parent f then ns ! f else if k = f then ns ! parent f else ns ! k)" if "k < n" for k
    using assms p that by (intro swap_nth) auto
  show ?thesis
    unfolding ordered_but_up_def
  proof (intro conjI allI impI; elim conjE)
    fix i assume i: "0 < i" "i < n" "i \<noteq> parent f"
    have pi: "parent i < n" using i parent_less [of i] by simp
    consider "i = f" | "i \<noteq> f" "parent i = f" | "i \<noteq> f" "parent i = parent f"
      | "i \<noteq> f" "parent i \<noteq> f" "parent i \<noteq> parent f" by blast
    then show "ordered_at (swap ns f (parent f)) i"
    proof cases
      case 1
      then show ?thesis using assms p i by (simp add: ordered_at_def nth)
    next
      case 2
      then show ?thesis using assms(1,2,3) p i by (simp add: ordered_at_def nth ordered_but_up_def)
    next
      case 3
      then have "node_key (ns ! parent f) \<le> node_key (ns ! i)"
        using assms(1) i by (auto simp: ordered_at_def ordered_but_up_def)
      then show ?thesis using 3 assms p i pi by (simp add: ordered_at_def nth)
    next
      case 4
      then have "ordered_at ns i" using assms(1) i by (simp add: ordered_but_up_def)
      then show ?thesis using 4 i pi by (simp add: ordered_at_def nth)
    qed
  next
    fix i assume i: "0 < i" "i < n" "parent i = parent f" "0 < parent f"
    have q: "ordered_at ns (parent f)" using assms p i by (simp add: ordered_but_up_def)
    have pp: "parent (parent f) < parent f" using i by (simp add: parent_less)
    have ne: "i \<noteq> parent f" using i parent_less [of i] by auto
    show "node_key (swap ns f (parent f) ! parent (parent f)) \<le> node_key (swap ns f (parent f) ! i)"
    proof (cases "i = f")
      case True
      then show ?thesis using q pp p assms(3) by (simp add: nth ordered_at_def)
    next
      case False
      then have "ordered_at ns i" using assms(1) i by (simp add: ordered_but_up_def)
      then show ?thesis using False q pp p i ne assms(3) by (simp add: nth ordered_at_def)
    qed
  qed
qed

lemma up_heap_ok:
  assumes "ordered_but_up n f ns" and "f < n" and "n \<le> length ns"
  shows "\<exists>ns'. up_heap ns f = Some ns' \<and> length ns' = length ns \<and> heap_ordered n ns' \<and>
    mset (take n ns') = mset (take n ns)"
  using assms
proof (induction ns f rule: up_heap.induct)
  case (1 ns f)
  consider "f = 0" | "0 < f" "node_key (ns ! f) < node_key (ns ! parent f)"
    | "0 < f" "node_key (ns ! parent f) \<le> node_key (ns ! f)" by fastforce
  then show ?case
  proof cases
    case a: 1
    then have "heap_ordered n ns" using "1.prems" by (auto simp: ordered_but_up_def heap_ordered_def)
    then show ?thesis using a by (simp add: up_heap.simps)
  next
    case 2
    have p: "parent f < f" using 2 by (simp add: parent_less)
    have "up_heap ns f = up_heap (swap ns f (parent f)) (parent f)"
      using 2 "1.prems" by (subst up_heap.simps) (simp add: parent_def Let_def)
    moreover have "\<exists>ns'. up_heap (swap ns f (parent f)) (parent f) = Some ns' \<and>
        length ns' = length (swap ns f (parent f)) \<and> heap_ordered n ns' \<and>
        mset (take n ns') = mset (take n (swap ns f (parent f)))"
      using 2 "1.prems" p up_step [OF "1.prems"(1)] by (intro "1.IH") (auto simp: parent_def)
    ultimately show ?thesis using 2 "1.prems" p by (auto simp: mset_take_swap)
  next
    case 3
    then have "heap_ordered n ns"
      using "1.prems" by (auto simp: ordered_but_up_def heap_ordered_def ordered_at_def)
    moreover have "up_heap ns f = Some ns"
      using 3 "1.prems" by (subst up_heap.simps) (simp add: parent_def Let_def)
    ultimately show ?thesis by simp
  qed
qed

section \<open>Sifting down\<close>

text \<open>Ordered but for the children of \<open>f\<close>, which are not below its parent.\<close>

definition ordered_but_down :: "nat \<Rightarrow> nat \<Rightarrow> 'a node list \<Rightarrow> bool" where
  "ordered_but_down n f ns \<longleftrightarrow>
     (\<forall>i. 0 < i \<and> i < n \<and> parent i \<noteq> f \<longrightarrow> ordered_at ns i) \<and>
     (\<forall>i. 0 < i \<and> i < n \<and> parent i = f \<and> 0 < f \<longrightarrow> node_key (ns ! parent f) \<le> node_key (ns ! i))"

lemma down_step:
  assumes "ordered_but_down n f ns" and "0 < m" and "m < n" and "parent m = f" and "n \<le> length ns"
    and "node_key (ns ! m) < node_key (ns ! f)"
    and least: "\<And>i. 0 < i \<Longrightarrow> i < n \<Longrightarrow> parent i = f \<Longrightarrow> node_key (ns ! m) \<le> node_key (ns ! i)"
  shows "ordered_but_down n m (swap ns f m)"
proof -
  have f: "f < m" using assms(2,4) parent_less by blast
  have nth: "swap ns f m ! k = (if k = m then ns ! f else if k = f then ns ! m else ns ! k)"
    if "k < n" for k using assms f that by (intro swap_nth) auto
  show ?thesis
    unfolding ordered_but_down_def
  proof (intro conjI allI impI; elim conjE)
    fix i assume i: "0 < i" "i < n" "parent i \<noteq> m"
    have pi: "parent i < i" using i by (simp add: parent_less)
    consider "i = m" | "i = f" | "i \<noteq> m" "i \<noteq> f" "parent i = f"
      | "i \<noteq> m" "i \<noteq> f" "parent i \<noteq> f" by blast
    then show "ordered_at (swap ns f m) i"
    proof cases
      case 1
      then show ?thesis using assms f by (simp add: ordered_at_def nth)
    next
      case 2
      then have "node_key (ns ! parent f) \<le> node_key (ns ! m)"
        using assms i by (auto simp: ordered_but_down_def)
      then show ?thesis using 2 assms f i pi by (simp add: ordered_at_def nth)
    next
      case 3
      then show ?thesis using assms f i least [of i] by (simp add: ordered_at_def nth)
    next
      case 4
      then have "ordered_at ns i" using assms(1) i by (simp add: ordered_but_down_def)
      then show ?thesis using 4 i pi by (simp add: ordered_at_def nth)
    qed
  next
    fix i assume i: "0 < i" "i < n" "parent i = m" "0 < m"
    have mi: "m < i" using i parent_less by blast
    have "ordered_at ns i" using assms(1) i f by (simp add: ordered_but_down_def)
    then show "node_key (swap ns f m ! parent m) \<le> node_key (swap ns f m ! i)"
      using i f mi assms(3,4) by (simp add: nth ordered_at_def)
  qed
qed

lemma ordered_but_down_done:
  assumes "ordered_but_down n f ns"
    and "\<And>i. 0 < i \<Longrightarrow> i < n \<Longrightarrow> parent i = f \<Longrightarrow> node_key (ns ! f) \<le> node_key (ns ! i)"
  shows "heap_ordered n ns"
  using assms by (auto simp: heap_ordered_def ordered_but_down_def ordered_at_def)

lemma ordered_but_down_leaf:
  assumes "ordered_but_down n m ns" and "n \<le> 2 * m + 1"
  shows "heap_ordered n ns"
  using assms(1) by (rule ordered_but_down_done) (use assms(2) in \<open>auto simp: parent_child_iff\<close>)

text \<open>The three ways a call of \<open>down_heap\<close> goes.\<close>

lemma down_heap_two:
  fixes ns :: "'a node list"
  assumes "2 * f + 2 < n" and "n \<le> length ns"
  defines "m \<equiv> (if node_key (ns ! (2 * f + 1)) < node_key (ns ! (2 * f + 2))
                 then 2 * f + 1 else 2 * f + 2)"
  shows "down_heap n ns f =
    (if node_key (ns ! m) < node_key (ns ! f) then down_heap n (swap ns f m) m else Some ns)"
  using assms by (subst down_heap.simps) (simp add: Let_def mult.commute)

lemma down_heap_one:
  assumes "2 * f + 2 = n" and "n \<le> length ns"
  shows "down_heap n ns f =
    (if node_key (ns ! (2 * f + 1)) < node_key (ns ! f) then Some (swap ns f (2 * f + 1)) else Some ns)"
  using assms by (subst down_heap.simps) (simp add: Let_def mult.commute)

lemma down_heap_none: "n \<le> 2 * f + 1 \<Longrightarrow> down_heap n ns f = Some ns"
  by (subst down_heap.simps) (simp add: Let_def mult.commute)

lemma down_heap_ok:
  assumes "ordered_but_down n f ns" and "n \<le> length ns"
  shows "\<exists>ns'. down_heap n ns f = Some ns' \<and> length ns' = length ns \<and> heap_ordered n ns' \<and>
    mset (take n ns') = mset (take n ns)"
  using assms
proof (induction "n - f" arbitrary: ns f rule: less_induct)
  case less
  consider "n \<le> 2 * f + 1" | "2 * f + 2 = n" | "2 * f + 2 < n" by linarith
  then show ?case
  proof cases
    case 1
    then show ?thesis using less.prems ordered_but_down_leaf by (auto simp: down_heap_none)
  next
    case 2
    let ?l = "2 * f + 1"
    have only: "i = ?l" if "0 < i" "i < n" "parent i = f" for i
      using that 2 by (auto simp: parent_child_iff)
    show ?thesis
    proof (cases "node_key (ns ! ?l) < node_key (ns ! f)")
      case True
      have "ordered_but_down n ?l (swap ns f ?l)"
        using True less.prems 2 only by (intro down_step) (auto simp: parent_child_iff)
      then have "heap_ordered n (swap ns f ?l)" by (rule ordered_but_down_leaf) (use 2 in simp)
      then show ?thesis using True less.prems 2 by (simp add: down_heap_one mset_take_swap)
    next
      case False
      have "heap_ordered n ns"
        using less.prems(1) by (rule ordered_but_down_done) (use False only in fastforce)
      then show ?thesis using False less.prems 2 by (simp add: down_heap_one)
    qed
  next
    case 3
    define m where "m = (if node_key (ns ! (2 * f + 1)) < node_key (ns ! (2 * f + 2))
                          then 2 * f + 1 else 2 * f + 2)"
    have eq: "down_heap n ns f =
        (if node_key (ns ! m) < node_key (ns ! f) then down_heap n (swap ns f m) m else Some ns)"
      unfolding m_def using 3 less.prems by (rule_tac down_heap_two) auto
    have m: "0 < m" "m < n" "parent m = f" "f < m" using 3 by (auto simp: m_def parent_def)
    have least: "node_key (ns ! m) \<le> node_key (ns ! i)" if "0 < i" "i < n" "parent i = f" for i
      using that by (auto simp: m_def parent_child_iff)
    show ?thesis
    proof (cases "node_key (ns ! m) < node_key (ns ! f)")
      case True
      have "\<exists>ns'. down_heap n (swap ns f m) m = Some ns' \<and> length ns' = length (swap ns f m) \<and>
          heap_ordered n ns' \<and> mset (take n ns') = mset (take n (swap ns f m))"
        using True m less.prems least by (intro less.hyps down_step) auto
      then show ?thesis using True eq m less.prems by (simp add: mset_take_swap)
    next
      case False
      have "heap_ordered n ns"
      proof (rule ordered_but_down_done [OF less.prems(1)])
        fix i assume "0 < i" "i < n" "parent i = f"
        then have "node_key (ns ! m) \<le> node_key (ns ! i)" by (rule least)
        then show "node_key (ns ! f) \<le> node_key (ns ! i)" using False by linarith
      qed
      then show ?thesis using False eq by simp
    qed
  qed
qed

section \<open>Insertion and removal\<close>

abbreviation entry :: "'a node \<Rightarrow> 'a option \<times> int" where
  "entry n \<equiv> (node_data n, node_key n)"

lemma sim_heap_init: "sim_heap_ok (init_heap mem)" "heap_elems (init_heap mem) = {#}"
  by (simp_all add: sim_heap_ok_def init_heap_def heap_elems_def heap_ordered_def
      STARTING_SIZE_def INT_MAX_def)

lemma heap_elems_size: "sim_heap_ok h \<Longrightarrow> size (heap_elems h) = hp_size h"
  by (simp add: sim_heap_ok_def heap_elems_def)

lemma heap_elems_empty: "sim_heap_ok h \<Longrightarrow> heap_elems h = {#} \<longleftrightarrow> hp_size h = 0"
  using heap_elems_size [of h] by (metis size_eq_0_iff_empty)

lemma ordered_root:
  assumes "heap_ordered n ns" and "i < n"
  shows "node_key (ns ! 0) \<le> node_key (ns ! i)"
  using assms(2)
proof (induction i rule: less_induct)
  case (less i)
  show ?case
  proof (cases "i = 0")
    case False
    then have "node_key (ns ! 0) \<le> node_key (ns ! parent i)"
      using less parent_less [of i] by simp
    moreover have "node_key (ns ! parent i) \<le> node_key (ns ! i)"
      using assms(1) less.prems False by (simp add: heap_ordered_def ordered_at_def)
    ultimately show ?thesis by (rule order.trans)
  qed simp
qed

text \<open>Putting a node behind the last one, and the last one in the place of the first.\<close>

lemma ordered_append:
  assumes "heap_ordered n ns" and "n < length ns"
  shows "ordered_but_up (Suc n) n (ns[n := x])"
  unfolding ordered_but_up_def
proof (intro conjI allI impI; elim conjE)
  fix i assume "0 < i" "i < Suc n" "i \<noteq> n"
  then show "ordered_at (ns[n := x]) i"
    using assms parent_less [of i] by (simp add: heap_ordered_def ordered_at_def nth_list_update)
next
  fix i assume "0 < i" "i < Suc n" "parent i = n"
  then show "node_key (ns[n := x] ! parent n) \<le> node_key (ns[n := x] ! i)"
    using parent_less [of i] by simp
qed

lemma ordered_replace_root:
  assumes "heap_ordered (Suc n) ns" and "n < length ns"
  shows "ordered_but_down n 0 (ns[0 := x])"
  unfolding ordered_but_down_def
proof (intro conjI allI impI; elim conjE)
  fix i assume "0 < i" "i < n" "parent i \<noteq> 0"
  then show "ordered_at (ns[0 := x]) i"
    using assms by (simp add: heap_ordered_def ordered_at_def nth_list_update)
qed simp

lemma mset_take_append:
  "n < length ns \<Longrightarrow> mset (take (Suc n) (ns[n := x])) = add_mset x (mset (take n ns))"
  by (simp add: take_Suc_conv_app_nth)

lemma mset_replace_root:
  assumes "n < length ns"
  shows "add_mset (ns ! 0) (mset (take n (ns[0 := ns ! n]))) = mset (take (Suc n) ns)"
proof (cases n)
  case 0
  then show ?thesis using assms by (simp add: take_Suc_conv_app_nth)
next
  case (Suc m)
  then obtain a l where ns: "ns = a # l" using assms by (cases ns) auto
  then show ?thesis using assms Suc by (simp add: take_Suc_conv_app_nth)
qed

definition has_room :: "'a heap_t \<Rightarrow> bool" where
  "has_room h \<longleftrightarrow> hp_size h < private_size h \<or> hp_size h \<le> INT_MAX div 2"

lemma heap_room:
  assumes "sim_heap_ok h" and "has_room h"
  shows "\<exists>h'. (if hp_size h = private_size h then expand_heap mem h else Some h) = Some h' \<and>
    sim_heap_ok h' \<and> hp_size h' = hp_size h \<and> hp_size h < private_size h' \<and>
    take (hp_size h) (hp_data h') = take (hp_size h) (hp_data h)"
proof (cases "hp_size h = private_size h")
  case True
  have max: "private_size h * 2 + 1 \<le> INT_MAX" using assms True by (simp add: INT_MAX_def has_room_def)
  have less: "parent i < n" if "0 < i" "i < n" for i n using parent_less [OF that(1)] that(2) by simp
  have "heap_ordered (hp_size h) (take (private_size h) (hp_data h) @ xs)" for xs
    using assms(1) True
    by (auto simp: sim_heap_ok_def heap_ordered_def ordered_at_def nth_append less)
  then show ?thesis
    using assms True max by (auto simp: expand_heap_def Let_def sim_heap_ok_def)
next
  case False
  then show ?thesis using assms by (auto simp: sim_heap_ok_def)
qed

lemma heap_insert_ok:
  assumes "sim_heap_ok h" and "has_room h"
  shows "\<exists>h'. heap_insert mem d k h = Some h' \<and> sim_heap_ok h' \<and>
    heap_elems h' = add_mset (d, k) (heap_elems h)"
proof -
  obtain g where g: "(if hp_size h = private_size h then expand_heap mem h else Some h) = Some g"
    "sim_heap_ok g" "hp_size g = hp_size h" "hp_size h < private_size g"
    "take (hp_size h) (hp_data g) = take (hp_size h) (hp_data h)"
    using heap_room [OF assms] by blast
  let ?x = "\<lparr>node_data = d, node_key = k\<rparr>"
  have len: "hp_size g < length (hp_data g)" using g by (simp add: sim_heap_ok_def)
  then obtain ns where ns: "up_heap ((hp_data g)[hp_size g := ?x]) (hp_size g) = Some ns"
    "length ns = length (hp_data g)" "heap_ordered (Suc (hp_size g)) ns"
    "mset (take (Suc (hp_size g)) ns) = mset (take (Suc (hp_size g)) ((hp_data g)[hp_size g := ?x]))"
    using up_heap_ok [OF ordered_append, of "hp_size g" "hp_data g" ?x] g(2)
    by (auto simp: sim_heap_ok_def)
  have eq: "heap_insert mem d k h = Some (g\<lparr>hp_size := Suc (hp_size g), hp_data := ns\<rparr>)"
    using g(1) len ns(1) by (simp add: heap_insert_def HEAP_NODE_def)
  have "sim_heap_ok (g\<lparr>hp_size := Suc (hp_size g), hp_data := ns\<rparr>)"
    using g ns by (simp add: sim_heap_ok_def)
  moreover have "heap_elems (g\<lparr>hp_size := Suc (hp_size g), hp_data := ns\<rparr>)
      = add_mset (d, k) (heap_elems h)"
    using g ns(4) len by (simp add: heap_elems_def mset_take_append)
  ultimately show ?thesis using eq by blast
qed

lemma heap_insert_invar:
  assumes "sim_heap_ok h" and "heap_insert mem d k h = Some h'"
  shows "sim_heap_ok h' \<and> heap_elems h' = add_mset (d, k) (heap_elems h)"
proof -
  have "has_room h"
    using assms by (auto simp: heap_insert_def expand_heap_def INT_MAX_def has_room_def
        sim_heap_ok_def Let_def split: if_splits)
  then show ?thesis using heap_insert_ok [OF assms(1), of mem d k] assms(2) by auto
qed

lemma heap_pop_ok:
  assumes "sim_heap_ok h" and "hp_size h \<noteq> 0"
  shows "\<exists>d k h'. heap_pop_min_data h = Some (d, k, h') \<and> sim_heap_ok h' \<and>
    heap_elems h = add_mset (d, k) (heap_elems h') \<and> (\<forall>e \<in># heap_elems h. k \<le> snd e)"
proof -
  obtain n where n: "hp_size h = Suc n" using assms by (cases "hp_size h") auto
  have len: "n < length (hp_data h)" using assms n by (simp add: sim_heap_ok_def)
  let ?ns = "(hp_data h)[0 := hp_data h ! n]"
  have "heap_ordered (Suc n) (hp_data h)" using assms n by (simp add: sim_heap_ok_def)
  from down_heap_ok [OF ordered_replace_root [OF this len]] len
  obtain ns where ns: "down_heap n ?ns 0 = Some ns" "length ns = length (hp_data h)"
    "heap_ordered n ns" "mset (take n ns) = mset (take n ?ns)" by force
  let ?h = "h\<lparr>hp_size := n, hp_data := ns\<rparr>"
  let ?top = "hp_data h ! 0"
  have "0 < length (hp_data h)" using len by linarith
  then have "heap_pop_min_data h = Some (node_data ?top, node_key ?top, ?h)"
    using n ns(1) len by (simp add: heap_pop_min_data_def HEAP_NODE_def)
  moreover have "sim_heap_ok ?h" using assms(1) n ns by (simp add: sim_heap_ok_def)
  moreover have "heap_elems h = add_mset (entry ?top) (heap_elems ?h)"
    using n ns(4) mset_replace_root [OF len, symmetric] by (simp add: heap_elems_def)
  moreover have "\<forall>e \<in># heap_elems h. node_key ?top \<le> snd e"
    using assms(1) ordered_root [of "hp_size h" "hp_data h"]
    by (auto simp: heap_elems_def sim_heap_ok_def in_set_conv_nth)
  ultimately show ?thesis by blast
qed

end
