(* ===== verification/SimQueue.thy ===== *)
theory SimQueue
  imports SimHeap
begin

text \<open>
  What the simulator needs of its event queue, as the contract \<open>bounded_priority_queue\<close>, the
  consequences of the contract, and the array heap of \<open>tossim/heap.c\<close> as its provider.
\<close>

section \<open>The contract\<close>

primrec fill_queue :: "('d \<Rightarrow> int \<Rightarrow> 'q \<Rightarrow> 'q option) \<Rightarrow> ('d \<times> int) list \<Rightarrow> 'q \<Rightarrow> 'q option" where
  "fill_queue put [] q = Some q"
| "fill_queue put (e # es) q = Option.bind (put (fst e) (snd e) q) (fill_queue put es)"

primrec drain_queue :: "('q \<Rightarrow> ('d \<times> int \<times> 'q) option) \<Rightarrow> nat \<Rightarrow> 'q \<Rightarrow> (('d \<times> int) list \<times> 'q) option" where
  "drain_queue get 0 q = Some ([], q)"
| "drain_queue get (Suc n) q = do {
     (d, k, q) \<leftarrow> get q;
     (es, q) \<leftarrow> drain_queue get n q;
     Some ((d, k) # es, q)
   }"

locale bounded_priority_queue =
  fixes invar :: "'q \<Rightarrow> bool"
    and elems :: "'q \<Rightarrow> ('d \<times> int) multiset"
    and capacity :: nat
    and put :: "'d \<Rightarrow> int \<Rightarrow> 'q \<Rightarrow> 'q option"
    and get :: "'q \<Rightarrow> ('d \<times> int \<times> 'q) option"
  assumes put_defined: "invar q \<Longrightarrow> size (elems q) < capacity \<Longrightarrow> put d k q \<noteq> None"
    and put_adds: "invar q \<Longrightarrow> put d k q = Some q' \<Longrightarrow>
      invar q' \<and> elems q' = add_mset (d, k) (elems q)"
    and get_least: "invar q \<Longrightarrow> elems q \<noteq> {#} \<Longrightarrow>
      \<exists>d k q'. get q = Some (d, k, q') \<and> invar q' \<and> elems q = add_mset (d, k) (elems q') \<and>
        (\<forall>e \<in># elems q. k \<le> snd e)"
    and get_empty: "invar q \<Longrightarrow> elems q = {#} \<Longrightarrow> get q = None"
begin

lemma fill_ok:
  assumes "invar q" and "size (elems q) + length es \<le> capacity"
  shows "\<exists>q'. fill_queue put es q = Some q' \<and> invar q' \<and> elems q' = elems q + mset es"
  using assms
proof (induction es arbitrary: q)
  case Nil
  then show ?case by simp
next
  case (Cons e es)
  then obtain p where p: "put (fst e) (snd e) q = Some p"
    using put_defined [of q "fst e" "snd e"] by auto
  with Cons.prems put_adds have "invar p" "elems p = add_mset e (elems q)" by fastforce+
  then show ?case using Cons.IH [of p] Cons.prems p by auto
qed

lemma drain_ok:
  assumes "invar q" and "size (elems q) = n"
  shows "\<exists>es q'. drain_queue get n q = Some (es, q') \<and> mset es = elems q \<and> sorted (map snd es) \<and>
    invar q' \<and> elems q' = {#}"
  using assms
proof (induction n arbitrary: q)
  case 0
  then show ?case by simp
next
  case (Suc n)
  then have "elems q \<noteq> {#}" by auto
  then obtain d k p where p: "get q = Some (d, k, p)" "invar p" "elems q = add_mset (d, k) (elems p)"
    "\<forall>e \<in># elems q. k \<le> snd e"
    using get_least [OF \<open>invar q\<close>] by blast
  obtain es q' where es: "drain_queue get n p = Some (es, q')" "mset es = elems p" "sorted (map snd es)"
    "invar q'" "elems q' = {#}"
    using Suc.IH [of p] Suc.prems p by auto
  moreover have "\<forall>e \<in> set es. k \<le> snd e"
    using p(3,4) es(2) by (metis set_mset_mset union_single_eq_member add_mset_add_single in_diff_count
        insert_iff set_mset_add_mset_insert)
  ultimately show ?case using p by auto
qed

text \<open>An element taken out is below all that remain, also below those put in before the next one is
  taken out when they are not below it: time does not go backwards.\<close>

lemma get_put_monotone:
  assumes "invar q" and "get q = Some (d, k, q')" and "put d2 k2 q' = Some p" and "k \<le> k2"
    and "get p = Some (d3, k3, p')"
  shows "k \<le> k3"
proof -
  have "elems q \<noteq> {#}" using assms(1,2) get_empty by force
  then have q': "invar q'" "elems q = add_mset (d, k) (elems q')" "\<forall>e \<in># elems q. k \<le> snd e"
    using get_least [OF assms(1)] assms(2) by auto
  have p: "invar p" "elems p = add_mset (d2, k2) (elems q')"
    using put_adds [OF q'(1) assms(3)] by auto
  then have "(d3, k3) \<in># elems p" using get_least [of p] assms(5) by auto
  then show ?thesis using p(2) q' assms(4) by auto
qed

end

section \<open>The heap provides it\<close>

interpretation event_heap: bounded_priority_queue
  sim_heap_ok heap_elems "Suc (INT_MAX div 2)" "heap_insert mem" heap_pop_min_data for mem
proof unfold_locales
  fix q :: "'a heap_t" and d k
  assume "sim_heap_ok q" "size (heap_elems q) < Suc (INT_MAX div 2)"
  then have "has_room q" by (simp add: has_room_def heap_elems_size)
  then show "heap_insert mem d k q \<noteq> None"
    using heap_insert_ok [OF \<open>sim_heap_ok q\<close>, of mem d k] by auto
next
  fix q :: "'a heap_t" and d k q'
  assume "sim_heap_ok q" "heap_insert mem d k q = Some q'"
  then show "sim_heap_ok q' \<and> heap_elems q' = add_mset (d, k) (heap_elems q)"
    by (rule heap_insert_invar)
next
  fix q :: "'a heap_t"
  assume "sim_heap_ok q" "heap_elems q \<noteq> {#}"
  then show "\<exists>d k q'. heap_pop_min_data q = Some (d, k, q') \<and> sim_heap_ok q' \<and>
      heap_elems q = add_mset (d, k) (heap_elems q') \<and> (\<forall>e \<in># heap_elems q. k \<le> snd e)"
    by (intro heap_pop_ok) (auto simp: heap_elems_empty)
next
  fix q :: "'a heap_t"
  assume "sim_heap_ok q" "heap_elems q = {#}"
  then show "heap_pop_min_data q = None" by (simp add: heap_elems_empty heap_pop_min_data_def)
qed

section \<open>Properties\<close>

text \<open>C34: a heap that has been initialised and given at most 1073741823 events in any order,
  growing as it fills, yields every one of them, and in the order of their keys.\<close>

theorem heap_yields_sorted:
  assumes "length es \<le> INT_MAX div 2"
  shows "\<exists>h. fill_queue (heap_insert mem) es (init_heap mem) = Some h \<and> heap_size h = length es \<and>
    (\<exists>out h'. drain_queue heap_pop_min_data (heap_size h) h = Some (out, h') \<and>
       mset out = mset es \<and> sorted (map snd out) \<and> heap_is_empty h')"
proof -
  obtain h where h: "fill_queue (heap_insert mem) es (init_heap mem) = Some h" "sim_heap_ok h"
    "heap_elems h = mset es"
    using event_heap.fill_ok [OF sim_heap_init(1), of mem es mem] assms by (auto simp: sim_heap_init)
  then have size: "heap_size h = length es"
    using heap_elems_size [OF h(2)] by (simp add: heap_size_def)
  obtain out h' where "drain_queue heap_pop_min_data (heap_size h) h = Some (out, h')"
    "mset out = heap_elems h" "sorted (map snd out)" "sim_heap_ok h'" "heap_elems h' = {#}"
    using event_heap.drain_ok [OF h(2), of "heap_size h"] size h(3) by auto
  then show ?thesis
    using h size by (auto simp: heap_is_empty_def is_empty_def heap_elems_empty)
qed

text \<open>Three events in the wrong order.\<close>

theorem heap_yields_sorted_witness:
  "\<exists>h. fill_queue (heap_insert (\<lambda>_. init_node)) [(Some 1, 30), (Some 2, 10), (Some (3 :: nat), 20)]
      (init_heap (\<lambda>_. init_node)) = Some h \<and> heap_size h = 3 \<and>
    (\<exists>out h'. drain_queue heap_pop_min_data (heap_size h) h = Some (out, h') \<and>
       mset out = {#(Some 1, 30), (Some 2, 10), (Some 3, 20)#} \<and> sorted (map snd out) \<and>
       heap_is_empty h')"
  using heap_yields_sorted [of "[(Some 1, 30), (Some 2, 10), (Some (3 :: nat), 20)]" "\<lambda>_. init_node"]
  by (simp add: INT_MAX_def numeral_3_eq_3 del: fill_queue.simps One_nat_def)

end
