(* ===== verification/SimTossim.thy ===== *)
theory SimTossim
  imports SimQueue "HOL-Library.Signed_Division"
begin

text \<open>
  The core of the simulator: \<open>tossim/sim_tossim.c\<close> (clock, current node, random numbers, the event
  loop) over \<open>sim_event_queue.c\<close>. Memory maps addresses to events and other blocks; using or
  freeing what is not there is None. What the mote's program does is in the argument \<open>env\<close>: its
  handlers, and whether a mote is on (\<open>sim_mote_is_on\<close>, nesC).
\<close>

section \<open>State\<close>

type_synonym addr = nat

text \<open>\<open>long long int sim_ticks\<close> is compared and copied only.\<close>

record sim_core =
  sim_ticks :: int
  current_node :: u64
  TOS_NODE_ID :: u16
  sim_seed :: u32

datatype cleanup_fn = Cleanup_none | Cleanup_event | Cleanup_data | Cleanup_total

record 'f sim_event =
  ev_time :: int
  ev_mote :: u64
  force :: bool
  cancelled :: bool
  ev_data :: "addr option"
  handle :: "'f option"
  cleanup :: "cleanup_fn option"

text \<open>An event says whether \<open>malloc\<close> made it or a module declared it.\<close>

datatype 'f sim_obj = Event bool "'f sim_event" | Block

record 'f sim_state = sim_core +
  eventHeap :: "addr heap_t"
  sim_mem :: "addr \<Rightarrow> 'f sim_obj option"

record 'f sim_env =
  is_on :: "u64 \<Rightarrow> 'f sim_state \<Rightarrow> bool"
  run_handler :: "'f \<Rightarrow> addr \<Rightarrow> 'f sim_state \<Rightarrow> 'f sim_state option"

definition event_at :: "'f sim_state \<Rightarrow> addr \<Rightarrow> 'f sim_event option" where
  "event_at s p = (case sim_mem s p of Some (Event _ e) \<Rightarrow> Some e | _ \<Rightarrow> None)"

definition put_event :: "addr \<Rightarrow> 'f sim_event \<Rightarrow> 'f sim_state \<Rightarrow> 'f sim_state option" where
  "put_event p e s =
     (case sim_mem s p of
        Some (Event b _) \<Rightarrow> Some (s\<lparr>sim_mem := (sim_mem s)(p \<mapsto> Event b e)\<rparr>) | _ \<Rightarrow> None)"

text \<open>\<open>free\<close> of the C library: NULL is ignored, what \<open>malloc\<close> did not return must not be freed.\<close>

definition free_obj :: "addr option \<Rightarrow> 'f sim_state \<Rightarrow> 'f sim_state option" where
  "free_obj p s =
     (case p of
        None \<Rightarrow> Some s
      | Some a \<Rightarrow>
          (case sim_mem s a of
             None \<Rightarrow> None
           | Some (Event False _) \<Rightarrow> None
           | _ \<Rightarrow> Some (s\<lparr>sim_mem := (sim_mem s)(a := None)\<rparr>)))"

section \<open>Clock, node and random numbers\<close>

definition sim_time :: "'a sim_core_scheme \<Rightarrow> int" where
  "sim_time s = sim_ticks s"

definition sim_set_time :: "int \<Rightarrow> 'a sim_core_scheme \<Rightarrow> 'a sim_core_scheme" where
  "sim_set_time t s = s\<lparr>sim_ticks := t\<rparr>"

definition sim_ticks_per_sec :: int where
  "sim_ticks_per_sec = 10000000000"

definition sim_node :: "'a sim_core_scheme \<Rightarrow> u64" where
  "sim_node s = current_node s"

definition sim_set_node :: "u64 \<Rightarrow> 'a sim_core_scheme \<Rightarrow> 'a sim_core_scheme" where
  "sim_set_node node s = s\<lparr>current_node := node, TOS_NODE_ID := ucast node\<rparr>"

text \<open>The seed is an int: converted to 64 bits it is sign-extended.\<close>

definition sim_random :: "'a sim_core_scheme \<Rightarrow> u32 \<times> 'a sim_core_scheme" where
  "sim_random s =
     (let tmpseed = 33614 * (scast (sim_seed s) :: u64);
          q = drop_bit 1 (ucast tmpseed :: u32);
          p = ucast (drop_bit 32 tmpseed) :: u32;
          mlcg = p + q;
          mlcg = (if mlcg AND 0x80000000 \<noteq> 0 then (mlcg AND 0x7FFFFFFF) + 1 else mlcg)
      in (mlcg, s\<lparr>sim_seed := mlcg\<rparr>))"

definition sim_random_seed :: "u32 \<Rightarrow> 'a sim_core_scheme \<Rightarrow> 'a sim_core_scheme" where
  "sim_random_seed seed s = s\<lparr>sim_seed := (if seed = 0 then 1 else seed)\<rparr>"

section \<open>The event queue\<close>

definition sim_queue_init :: "(nat \<Rightarrow> addr node) \<Rightarrow> 'f sim_state \<Rightarrow> 'f sim_state" where
  "sim_queue_init mem s = s\<lparr>eventHeap := init_heap mem\<rparr>"

definition sim_queue_insert ::
    "(nat \<Rightarrow> addr node) \<Rightarrow> addr \<Rightarrow> 'f sim_state \<Rightarrow> 'f sim_state option" where
  "sim_queue_insert mem event s = do {
     e \<leftarrow> event_at s event;
     h \<leftarrow> heap_insert mem (Some event) (ev_time e) (eventHeap s);
     Some (s\<lparr>eventHeap := h\<rparr>)
   }"

definition sim_queue_pop :: "'f sim_state \<Rightarrow> (addr option \<times> 'f sim_state) option" where
  "sim_queue_pop s = do {
     (d, _, h) \<leftarrow> heap_pop_min_data (eventHeap s);
     Some (d, s\<lparr>eventHeap := h\<rparr>)
   }"

definition sim_queue_is_empty :: "'f sim_state \<Rightarrow> bool" where
  "sim_queue_is_empty s = heap_is_empty (eventHeap s)"

definition sim_queue_peek_time :: "'f sim_state \<Rightarrow> int option" where
  "sim_queue_peek_time s =
     (if heap_is_empty (eventHeap s) then Some (- 1) else heap_get_min_key (eventHeap s))"

definition sim_queue_cleanup_none :: "addr \<Rightarrow> 'f sim_state \<Rightarrow> 'f sim_state option" where
  "sim_queue_cleanup_none event s = Some s"

definition sim_queue_cleanup_event :: "addr \<Rightarrow> 'f sim_state \<Rightarrow> 'f sim_state option" where
  "sim_queue_cleanup_event event s = free_obj (Some event) s"

definition sim_queue_cleanup_data :: "addr \<Rightarrow> 'f sim_state \<Rightarrow> 'f sim_state option" where
  "sim_queue_cleanup_data event s = do {
     e \<leftarrow> event_at s event;
     s \<leftarrow> free_obj (ev_data e) s;
     put_event event (e\<lparr>ev_data := None\<rparr>) s
   }"

definition sim_queue_cleanup_total :: "addr \<Rightarrow> 'f sim_state \<Rightarrow> 'f sim_state option" where
  "sim_queue_cleanup_total event s = do {
     e \<leftarrow> event_at s event;
     s \<leftarrow> free_obj (ev_data e) s;
     s \<leftarrow> put_event event (e\<lparr>ev_data := None\<rparr>) s;
     free_obj (Some event) s
   }"

text \<open>\<open>evt\<close> is what \<open>malloc\<close> returned: an address not in use, or NULL, to which \<open>memset\<close> writes.\<close>

definition sim_queue_allocate_event ::
    "addr option \<Rightarrow> 'f sim_state \<Rightarrow> (addr \<times> 'f sim_state) option" where
  "sim_queue_allocate_event evt s = do {
     p \<leftarrow> evt;
     Some (p, s\<lparr>sim_mem := (sim_mem s)(p \<mapsto> Event True
       \<lparr>ev_time = 0, ev_mote = sim_node s, force = False, cancelled = False, ev_data = None,
        handle = None, cleanup = None\<rparr>)\<rparr>)
   }"

section \<open>The event loop\<close>

definition run_cleanup :: "cleanup_fn \<Rightarrow> addr \<Rightarrow> 'f sim_state \<Rightarrow> 'f sim_state option" where
  "run_cleanup c event s =
     (case c of
        Cleanup_none \<Rightarrow> sim_queue_cleanup_none event s
      | Cleanup_event \<Rightarrow> sim_queue_cleanup_event event s
      | Cleanup_data \<Rightarrow> sim_queue_cleanup_data event s
      | Cleanup_total \<Rightarrow> sim_queue_cleanup_total event s)"

text \<open>The body for the event taken out: clock and node, the handler, the cleanup function the event
  has after its handler has run.\<close>

definition dispatch :: "'f sim_env \<Rightarrow> addr \<Rightarrow> 'f sim_state \<Rightarrow> (bool \<times> 'f sim_state) option" where
  "dispatch env event s = do {
     e \<leftarrow> event_at s event;
     let s = sim_set_node (ev_mote e) (sim_set_time (ev_time e) s);
     (result, s) \<leftarrow>
       (if is_on env (ev_mote e) s \<or> force e
        then (case handle e of
                None \<Rightarrow> Some (False, s)
              | Some f \<Rightarrow> map_option (Pair True) (run_handler env f event s))
        else Some (False, s));
     e \<leftarrow> event_at s event;
     s \<leftarrow> (case cleanup e of None \<Rightarrow> Some s | Some c \<Rightarrow> run_cleanup c event s);
     Some (result, s)
   }"

definition sim_run_next_event :: "'f sim_env \<Rightarrow> 'f sim_state \<Rightarrow> (bool \<times> 'f sim_state) option" where
  "sim_run_next_event env s =
     (if sim_queue_is_empty s then Some (False, s)
      else do {
        (d, s) \<leftarrow> sim_queue_pop s;
        event \<leftarrow> d;
        dispatch env event s
      })"

text \<open>\<open>gettimeofday\<close> and the initialisation of the log and the noise model are arguments.\<close>

definition sim_init :: "(nat \<Rightarrow> addr node) \<Rightarrow> ('f sim_state \<Rightarrow> 'f sim_state) \<Rightarrow> u32 \<Rightarrow> u32 \<Rightarrow>
    'f sim_state \<Rightarrow> 'f sim_state" where
  "sim_init mem init_log_noise tv_sec tv_usec s =
     (let s = init_log_noise (sim_queue_init mem s)
      in if tv_usec \<noteq> 0 then sim_random_seed tv_usec s else sim_random_seed tv_sec s)"

definition sim_end :: "(nat \<Rightarrow> addr node) \<Rightarrow> 'f sim_state \<Rightarrow> 'f sim_state" where
  "sim_end mem s = sim_queue_init mem s"

section \<open>Printing the time\<close>

text \<open>Division and remainder of C truncate.\<close>

definition time_fields :: "int \<Rightarrow> int \<times> int \<times> int \<times> int" where
  "time_fields ftime =
     (let secondBillionths = ftime smod sim_ticks_per_sec;
          secondBillionths =
            (if sim_ticks_per_sec > 1000000000
             then secondBillionths sdiv (sim_ticks_per_sec sdiv 1000000000)
             else secondBillionths * (1000000000 sdiv sim_ticks_per_sec));
          seconds = to_int (ftime sdiv sim_ticks_per_sec);
          minutes = seconds sdiv 60;
          hours = minutes sdiv 60
      in (hours, minutes smod 60, seconds smod 60, secondBillionths))"

text \<open>\<open>%i\<close> and \<open>%09llu\<close>.\<close>

fun show_nat :: "nat \<Rightarrow> string" where
  "show_nat n = (if n < 10 then [char_of (48 + n)] else show_nat (n div 10) @ [char_of (48 + n mod 10)])"

declare show_nat.simps [simp del]

definition fmt_i :: "int \<Rightarrow> string" where
  "fmt_i n = (if n < 0 then ''-'' @ show_nat (nat (- n)) else show_nat (nat n))"

definition fmt_09llu :: "int \<Rightarrow> string" where
  "fmt_09llu n = (let t = show_nat (nat (n mod 2 ^ 64)) in replicate (9 - length t) CHR ''0'' @ t)"

text \<open>\<open>snprintf\<close> writes at most \<open>size - 1\<close> characters and a NUL, and returns the full length.\<close>

definition snprintf :: "string \<Rightarrow> nat \<Rightarrow> string \<Rightarrow> nat \<times> string" where
  "snprintf buf n t =
     (if n = 0 then (length t, buf)
      else let w = take (n - 1) t @ [CHR 0x00] in (length t, w @ drop (length w) buf))"

definition sim_print_time :: "string \<Rightarrow> nat \<Rightarrow> int \<Rightarrow> (nat \<times> string) option" where
  "sim_print_time buf len ftime =
     (if len = 0 \<or> length buf < len then None
      else
        let (hours, minutes, seconds, secondBillionths) = time_fields ftime
        in Some (snprintf (buf[len - 1 := CHR 0x00]) (len - 1)
             (fmt_i hours @ '':'' @ fmt_i minutes @ '':'' @ fmt_i seconds @ ''.''
              @ fmt_09llu secondBillionths)))"

definition sim_print_now :: "string \<Rightarrow> nat \<Rightarrow> 'a sim_core_scheme \<Rightarrow> (nat \<times> string) option" where
  "sim_print_now buf len s = sim_print_time buf len (sim_time s)"

definition sim_time_string :: "string \<Rightarrow> 'a sim_core_scheme \<Rightarrow> string option" where
  "sim_time_string simTimeBuf s = map_option snd (sim_print_now simTimeBuf 128 s)"

end
