(* ===== verification/SimGain.thy ===== *)
theory SimGain
  imports SimTossim Complex_Main
begin

text \<open>
  The radio links of the simulator (\<open>tossim/sim_gain.c\<close>): per sending node the linked list of its
  links, newest first, and the noise floor of each node. The list of a node is the list of its
  entries. The value of a double is a real; where one is computed, the rounding of a floating-point
  operation is the argument \<open>rnd\<close>. None is an access outside an array.
\<close>

section \<open>State\<close>

definition TOSSIM_MAX_NODES :: int where
  "TOSSIM_MAX_NODES = 1000"

record gain_entry =
  mote :: int
  gain :: real

record sim_gain_noise =
  noise_mean :: real
  noise_range :: real

record gain_state = sim_core +
  connectivity :: "gain_entry list list"
  localNoise :: "sim_gain_noise list"
  sensitivity :: real

definition clamp_node :: "int \<Rightarrow> int" where
  "clamp_node node = (if node > TOSSIM_MAX_NODES then TOSSIM_MAX_NODES else node)"

text \<open>\<open>int temp = sim_node()\<close> and \<open>sim_set_node(temp)\<close> of an int.\<close>

definition node_as_int :: "'a sim_core_scheme \<Rightarrow> int" where
  "node_as_int s = to_int (uint (sim_node s))"

definition set_node_int :: "int \<Rightarrow> 'a sim_core_scheme \<Rightarrow> 'a sim_core_scheme" where
  "set_node_int n s = sim_set_node (word_of_int n) s"

definition array_get :: "'a list \<Rightarrow> int \<Rightarrow> 'a option" where
  "array_get xs i = (if 0 \<le> i \<and> i < int (length xs) then Some (xs ! nat i) else None)"

definition array_set :: "'a list \<Rightarrow> int \<Rightarrow> 'a \<Rightarrow> 'a list option" where
  "array_set xs i x = (if 0 \<le> i \<and> i < int (length xs) then Some (xs[nat i := x]) else None)"

section \<open>Links\<close>

definition sim_gain_first :: "int \<Rightarrow> gain_state \<Rightarrow> gain_entry list option" where
  "sim_gain_first src s =
     (if src > TOSSIM_MAX_NODES then array_get (connectivity s) TOSSIM_MAX_NODES
      else array_get (connectivity s) src)"

text \<open>The rest of a list after an entry; a pointer to no entry is NULL.\<close>

definition sim_gain_next :: "gain_entry list \<Rightarrow> gain_entry list option" where
  "sim_gain_next currentLink = (case currentLink of [] \<Rightarrow> None | _ # next \<Rightarrow> Some next)"

definition sim_gain_allocate_link :: "int \<Rightarrow> gain_entry" where
  "sim_gain_allocate_link m = \<lparr>mote = m, gain = - 10000000\<rparr>"

text \<open>The position the search loops stop at.\<close>

fun find_link :: "int \<Rightarrow> gain_entry list \<Rightarrow> nat option" where
  "find_link dest [] = None"
| "find_link dest (current # next) =
     (if mote current = dest then Some 0 else map_option Suc (find_link dest next))"

definition sim_gain_add :: "int \<Rightarrow> int \<Rightarrow> real \<Rightarrow> gain_state \<Rightarrow> gain_state option" where
  "sim_gain_add src dest g s =
     (let temp = node_as_int s; src = clamp_node src; s = set_node_int src s
      in do {
        links \<leftarrow> sim_gain_first src s;
        (s, links, i) \<leftarrow> (case find_link dest links of
             Some i \<Rightarrow> Some (set_node_int temp s, links, i)
           | None \<Rightarrow> Some (s, sim_gain_allocate_link dest # links, 0));
        c \<leftarrow> array_set (connectivity s) src (links[i := (links ! i)\<lparr>mote := dest, gain := g\<rparr>]);
        Some (set_node_int temp (s\<lparr>connectivity := c\<rparr>))
      })"

definition sim_gain_value :: "int \<Rightarrow> int \<Rightarrow> gain_state \<Rightarrow> (real \<times> gain_state) option" where
  "sim_gain_value src dest s =
     (let temp = node_as_int s; s = set_node_int src s
      in do {
        links \<leftarrow> sim_gain_first src s;
        case find_link dest links of
          Some i \<Rightarrow> Some (gain (links ! i), set_node_int temp s)
        | None \<Rightarrow> Some (1, set_node_int temp s)
      })"

definition sim_gain_connected :: "int \<Rightarrow> int \<Rightarrow> gain_state \<Rightarrow> (bool \<times> gain_state) option" where
  "sim_gain_connected src dest s =
     (let temp = node_as_int s; s = set_node_int src s
      in do {
        links \<leftarrow> sim_gain_first src s;
        case find_link dest links of
          Some i \<Rightarrow> Some (True, set_node_int temp s)
        | None \<Rightarrow> Some (False, set_node_int temp s)
      })"

text \<open>The loop of \<open>sim_gain_remove\<close>: \<open>kept\<close> is the list up to \<open>prevLink\<close>.\<close>

fun remove_links :: "int \<Rightarrow> gain_entry list \<Rightarrow> gain_entry list \<Rightarrow> gain_entry list" where
  "remove_links dest kept [] = kept"
| "remove_links dest kept (current # next) =
     (if mote current = dest then remove_links dest kept next
      else remove_links dest (kept @ [current]) next)"

definition sim_gain_remove :: "int \<Rightarrow> int \<Rightarrow> gain_state \<Rightarrow> gain_state option" where
  "sim_gain_remove src dest s =
     (let temp = node_as_int s; src = clamp_node src; s = set_node_int src s
      in do {
        current \<leftarrow> sim_gain_first src s;
        c \<leftarrow> array_set (connectivity s) src (remove_links dest [] current);
        Some (set_node_int temp (s\<lparr>connectivity := c\<rparr>))
      })"

section \<open>Noise floor and sensitivity\<close>

definition sim_gain_set_noise_floor :: "int \<Rightarrow> real \<Rightarrow> real \<Rightarrow> gain_state \<Rightarrow> gain_state option" where
  "sim_gain_set_noise_floor node mean width s = do {
     n \<leftarrow> array_set (localNoise s) (clamp_node node) \<lparr>noise_mean = mean, noise_range = width\<rparr>;
     Some (s\<lparr>localNoise := n\<rparr>)
   }"

definition sim_gain_noise_mean :: "int \<Rightarrow> gain_state \<Rightarrow> real option" where
  "sim_gain_noise_mean node s = map_option noise_mean (array_get (localNoise s) (clamp_node node))"

definition sim_gain_noise_range :: "int \<Rightarrow> gain_state \<Rightarrow> real option" where
  "sim_gain_noise_range node s = map_option noise_range (array_get (localNoise s) (clamp_node node))"

definition sim_gain_sample_noise ::
    "(real \<Rightarrow> real) \<Rightarrow> int \<Rightarrow> gain_state \<Rightarrow> (real \<times> gain_state) option" where
  "sim_gain_sample_noise rnd node s = do {
     n \<leftarrow> array_get (localNoise s) (clamp_node node);
     let (r, s) = sim_random s;
     let adjust = rnd (real_of_int (sint r smod 2000000) / 1000000);
     let adjust = rnd (adjust - 1);
     let adjust = rnd (adjust * noise_range n);
     Some (rnd (noise_mean n + adjust), s)
   }"

definition sim_gain_set_sensitivity :: "real \<Rightarrow> gain_state \<Rightarrow> gain_state" where
  "sim_gain_set_sensitivity v s = s\<lparr>sensitivity := v\<rparr>"

definition sim_gain_sensitivity :: "gain_state \<Rightarrow> real" where
  "sim_gain_sensitivity s = sensitivity s"

section \<open>Links as a table\<close>

definition link :: "gain_state \<Rightarrow> int \<Rightarrow> int \<Rightarrow> real option" where
  "link s src dest =
     Option.bind (sim_gain_first src s) (\<lambda>links. map_option (\<lambda>i. gain (links ! i)) (find_link dest links))"

definition gain_ok :: "gain_state \<Rightarrow> bool" where
  "gain_ok s \<longleftrightarrow> length (connectivity s) = 1001 \<and> length (localNoise s) = 1001"

definition same_link :: "int \<Rightarrow> int \<Rightarrow> int \<Rightarrow> int \<Rightarrow> bool" where
  "same_link a b src dest \<longleftrightarrow> clamp_node a = clamp_node src \<and> b = dest"

lemma clamp_node_le: "clamp_node n \<le> 1000" "clamp_node (clamp_node n) = clamp_node n"
  by (simp_all add: clamp_node_def TOSSIM_MAX_NODES_def)

lemma set_node_same [simp]:
  "connectivity (set_node_int n s) = connectivity s" "localNoise (set_node_int n s) = localNoise s"
  by (simp_all add: set_node_int_def sim_set_node_def)

lemma first_clamp: "sim_gain_first src s = array_get (connectivity s) (clamp_node src)"
  by (simp add: sim_gain_first_def clamp_node_def)

lemma first_set_node [simp]: "sim_gain_first src (set_node_int n s) = sim_gain_first src s"
  by (simp add: first_clamp)

lemma link_set_node [simp]: "link (set_node_int n s) = link s"
  by (intro ext) (simp add: link_def)

lemma first_Some:
  assumes "gain_ok s" and "0 \<le> src"
  shows "sim_gain_first src s = Some (connectivity s ! nat (clamp_node src))"
  using assms by (auto simp: first_clamp array_get_def gain_ok_def clamp_node_def TOSSIM_MAX_NODES_def)

lemma find_link_less: "find_link dest ls = Some i \<Longrightarrow> i < length ls \<and> mote (ls ! i) = dest"
  by (induction dest ls arbitrary: i rule: find_link.induct) (auto split: if_splits)

lemma remove_links_filter: "remove_links dest kept ls = kept @ filter (\<lambda>l. mote l \<noteq> dest) ls"
  by (induction dest kept ls rule: remove_links.induct) auto

definition link_in :: "gain_entry list \<Rightarrow> int \<Rightarrow> real option" where
  "link_in ls dest = map_option (\<lambda>i. gain (ls ! i)) (find_link dest ls)"

lemma link_in_simps [simp]:
  "link_in [] b = None"
  "link_in (l # ls) b = (if mote l = b then Some (gain l) else link_in ls b)"
  by (simp_all add: link_in_def option.map_comp comp_def)

lemma link_in_update:
  "find_link dest ls = Some i \<Longrightarrow>
   link_in (ls[i := (ls ! i)\<lparr>mote := dest, gain := g\<rparr>]) b = (if b = dest then Some g else link_in ls b)"
  by (induction dest ls arbitrary: i rule: find_link.induct) (auto split: if_splits)

lemma link_in_remove:
  "link_in (remove_links dest [] ls) b = (if b = dest then None else link_in ls b)"
  unfolding remove_links_filter by (induction ls) auto

lemma link_alt:
  "0 \<le> src \<Longrightarrow> gain_ok s \<Longrightarrow> link s src dest = link_in (connectivity s ! nat (clamp_node src)) dest"
  by (simp add: link_def link_in_def first_Some)

lemma link_neg: "src < 0 \<Longrightarrow> link s src dest = None"
  by (simp add: link_def first_clamp array_get_def clamp_node_def TOSSIM_MAX_NODES_def)

text \<open>Replacing the list of one node.\<close>

lemma link_replace:
  assumes "gain_ok s" and "0 \<le> src"
    and "\<And>b. link_in ls b = (if b = dest then v else link s src b)"
  shows "link (s\<lparr>connectivity := (connectivity s)[nat (clamp_node src) := ls]\<rparr>) a b =
    (if same_link a b src dest then v else link s a b)"
proof (cases "a < 0")
  case True
  then have "\<not> same_link a b src dest"
    using assms(2) by (auto simp: same_link_def clamp_node_def TOSSIM_MAX_NODES_def split: if_splits)
  then show ?thesis using True by (simp add: link_neg)
next
  case False
  let ?s = "s\<lparr>connectivity := (connectivity s)[nat (clamp_node src) := ls]\<rparr>"
  have ok: "gain_ok ?s" using assms(1) by (simp add: gain_ok_def)
  have ne: "nat (clamp_node a) = nat (clamp_node src) \<longleftrightarrow> clamp_node a = clamp_node src"
    using False assms(2) by (auto simp: clamp_node_def TOSSIM_MAX_NODES_def split: if_splits)
  have lt: "nat (clamp_node src) < length (connectivity s)"
    using assms(1) clamp_node_le(1) [of src] by (simp add: gain_ok_def)
  have "link ?s a b = link_in (connectivity ?s ! nat (clamp_node a)) b"
    using False ok by (intro link_alt) simp_all
  also have "\<dots> = (if clamp_node a = clamp_node src then link_in ls b else link s a b)"
    using False assms(1) lt ne by (auto simp: link_alt nth_list_update)
  also have "\<dots> = (if same_link a b src dest then v else link s a b)"
    using False assms by (auto simp: same_link_def link_alt)
  finally show ?thesis .
qed

lemma array_set_Some:
  "gain_ok s \<Longrightarrow> 0 \<le> src \<Longrightarrow>
   array_set (connectivity s) (clamp_node src) x = Some ((connectivity s)[nat (clamp_node src) := x])"
  by (auto simp: array_set_def gain_ok_def clamp_node_def TOSSIM_MAX_NODES_def)

lemma link_cong: "connectivity s' = connectivity s \<Longrightarrow> link s' a b = link s a b"
  by (simp add: link_def first_clamp)

text \<open>What an operation on the links of \<open>src\<close> leaves: the list of that node replaced, the node number
  of the caller restored.\<close>

definition relinked :: "gain_state \<Rightarrow> int \<Rightarrow> gain_entry list \<Rightarrow> gain_state \<Rightarrow> bool" where
  "relinked s src ls s' \<longleftrightarrow>
     connectivity s' = (connectivity s)[nat (clamp_node src) := ls] \<and> localNoise s' = localNoise s \<and>
     sim_node s' = word_of_int (node_as_int s)"

lemma relinked_ok:
  assumes "gain_ok s" and "0 \<le> src" and "relinked s src ls s'"
    and "\<And>b. link_in ls b = (if b = dest then v else link s src b)"
  shows "gain_ok s' \<and> link s' a b = (if same_link a b src dest then v else link s a b)"
proof -
  let ?s = "s\<lparr>connectivity := (connectivity s)[nat (clamp_node src) := ls]\<rparr>"
  have "link s' a b = link ?s a b" using assms(3) by (intro link_cong) (simp add: relinked_def)
  moreover have "gain_ok s'" using assms(1,3) by (simp add: gain_ok_def relinked_def)
  ultimately show ?thesis using link_replace [OF assms(1,2,4)] by simp
qed

lemma sim_node_set [simp]: "sim_node (set_node_int n s) = word_of_int n"
  by (simp add: set_node_int_def sim_set_node_def sim_node_def)

lemma sim_gain_add_relinked:
  assumes "gain_ok s" and "0 \<le> src"
  defines "ls \<equiv> connectivity s ! nat (clamp_node src)"
  shows "\<exists>s'. sim_gain_add src dest g s = Some s' \<and>
    relinked s src (case find_link dest ls of
      Some i \<Rightarrow> ls[i := (ls ! i)\<lparr>mote := dest, gain := g\<rparr>]
    | None \<Rightarrow> \<lparr>mote = dest, gain = g\<rparr> # ls) s'"
proof -
  have c: "0 \<le> clamp_node src" using assms(2) by (simp add: clamp_node_def TOSSIM_MAX_NODES_def)
  have "sim_gain_first (clamp_node src) s = Some ls"
    using first_Some [OF assms(1) c] by (simp add: clamp_node_le ls_def)
  then show ?thesis
    using assms(1,2)
    by (cases "find_link dest ls") (auto simp: sim_gain_add_def Let_def relinked_def
        array_set_Some sim_gain_allocate_link_def)
qed

lemma sim_gain_remove_relinked:
  assumes "gain_ok s" and "0 \<le> src"
  shows "\<exists>s'. sim_gain_remove src dest s = Some s' \<and>
    relinked s src (remove_links dest [] (connectivity s ! nat (clamp_node src))) s'"
proof -
  have c: "0 \<le> clamp_node src" using assms(2) by (simp add: clamp_node_def TOSSIM_MAX_NODES_def)
  have "sim_gain_first (clamp_node src) s = Some (connectivity s ! nat (clamp_node src))"
    using first_Some [OF assms(1) c] by (simp add: clamp_node_le)
  then show ?thesis
    using assms(1,2) by (auto simp: sim_gain_remove_def Let_def relinked_def array_set_Some)
qed

lemma sim_gain_add_ok:
  assumes "gain_ok s" and "0 \<le> src"
  shows "\<exists>s'. sim_gain_add src dest g s = Some s' \<and> gain_ok s' \<and>
    (\<forall>a b. link s' a b = (if same_link a b src dest then Some g else link s a b))"
proof -
  define ls where "ls = connectivity s ! nat (clamp_node src)"
  define ls' where "ls' = (case find_link dest ls of
      Some i \<Rightarrow> ls[i := (ls ! i)\<lparr>mote := dest, gain := g\<rparr>]
    | None \<Rightarrow> \<lparr>mote = dest, gain = g\<rparr> # ls)"
  obtain s' where s': "sim_gain_add src dest g s = Some s'" "relinked s src ls' s'"
    using sim_gain_add_relinked [OF assms, of dest g] unfolding ls'_def ls_def by blast
  have "link_in ls' b = (if b = dest then Some g else link s src b)" for b
    using assms by (auto simp: ls'_def link_alt ls_def link_in_update split: option.splits)
  with relinked_ok [OF assms s'(2)] s'(1) show ?thesis by blast
qed

lemma sim_gain_remove_ok:
  assumes "gain_ok s" and "0 \<le> src"
  shows "\<exists>s'. sim_gain_remove src dest s = Some s' \<and> gain_ok s' \<and>
    (\<forall>a b. link s' a b = (if same_link a b src dest then None else link s a b))"
proof -
  define ls where "ls = remove_links dest [] (connectivity s ! nat (clamp_node src))"
  obtain s' where s': "sim_gain_remove src dest s = Some s'" "relinked s src ls s'"
    using sim_gain_remove_relinked [OF assms] by (auto simp: ls_def)
  have "link_in ls b = (if b = dest then None else link s src b)" for b
    using assms by (simp add: ls_def link_in_remove link_alt)
  with relinked_ok [OF assms s'(2)] s'(1) show ?thesis by blast
qed


section \<open>The contract of a link table\<close>

datatype link_op = Add_link int int real | Remove_link int int

fun op_src :: "link_op \<Rightarrow> int" where
  "op_src (Add_link src dest g) = src"
| "op_src (Remove_link src dest) = src"

primrec run_ops :: "(int \<Rightarrow> int \<Rightarrow> real \<Rightarrow> 's \<Rightarrow> 's option) \<Rightarrow> (int \<Rightarrow> int \<Rightarrow> 's \<Rightarrow> 's option) \<Rightarrow>
    link_op list \<Rightarrow> 's \<Rightarrow> 's option" where
  "run_ops add rem [] s = Some s"
| "run_ops add rem (x # xs) s =
     Option.bind (case x of Add_link a b g \<Rightarrow> add a b g s | Remove_link a b \<Rightarrow> rem a b s)
       (run_ops add rem xs)"

text \<open>The operations on a map of links.\<close>

primrec links_after :: "link_op list \<Rightarrow> (int \<Rightarrow> int \<Rightarrow> real option) \<Rightarrow> int \<Rightarrow> int \<Rightarrow> real option" where
  "links_after [] m = m"
| "links_after (x # xs) m = links_after xs (\<lambda>a b. case x of
     Add_link src dest g \<Rightarrow> if same_link a b src dest then Some g else m a b
   | Remove_link src dest \<Rightarrow> if same_link a b src dest then None else m a b)"

locale link_table =
  fixes ok :: "'s \<Rightarrow> bool"
    and look :: "'s \<Rightarrow> int \<Rightarrow> int \<Rightarrow> real option"
    and add :: "int \<Rightarrow> int \<Rightarrow> real \<Rightarrow> 's \<Rightarrow> 's option"
    and rem :: "int \<Rightarrow> int \<Rightarrow> 's \<Rightarrow> 's option"
  assumes add_look: "ok s \<Longrightarrow> 0 \<le> src \<Longrightarrow> \<exists>s'. add src dest g s = Some s' \<and> ok s' \<and>
      (\<forall>a b. look s' a b = (if same_link a b src dest then Some g else look s a b))"
    and rem_look: "ok s \<Longrightarrow> 0 \<le> src \<Longrightarrow> \<exists>s'. rem src dest s = Some s' \<and> ok s' \<and>
      (\<forall>a b. look s' a b = (if same_link a b src dest then None else look s a b))"
begin

lemma run_ops_look:
  assumes "ok s" and "\<forall>x \<in> set ops. 0 \<le> op_src x"
  shows "\<exists>s'. run_ops add rem ops s = Some s' \<and> ok s' \<and> look s' = links_after ops (look s)"
  using assms
proof (induction ops arbitrary: s)
  case Nil
  then show ?case by simp
next
  case (Cons x xs)
  have "\<exists>t. (case x of Add_link a b g \<Rightarrow> add a b g s | Remove_link a b \<Rightarrow> rem a b s) = Some t \<and> ok t \<and>
      look t = (\<lambda>a b. case x of
         Add_link src dest g \<Rightarrow> if same_link a b src dest then Some g else look s a b
       | Remove_link src dest \<Rightarrow> if same_link a b src dest then None else look s a b)"
  proof (cases x)
    case (Add_link src dest g)
    then show ?thesis using add_look [of s src dest g] Cons.prems by (fastforce intro!: ext)
  next
    case (Remove_link src dest)
    then show ?thesis using rem_look [of s src dest] Cons.prems by (fastforce intro!: ext)
  qed
  then obtain t where t: "(case x of Add_link a b g \<Rightarrow> add a b g s | Remove_link a b \<Rightarrow> rem a b s) = Some t"
    "ok t" "look t = (\<lambda>a b. case x of
         Add_link src dest g \<Rightarrow> if same_link a b src dest then Some g else look s a b
       | Remove_link src dest \<Rightarrow> if same_link a b src dest then None else look s a b)" by blast
  with Cons.IH [OF t(2)] Cons.prems show ?case by simp
qed

end

interpretation gain_links: link_table gain_ok link sim_gain_add sim_gain_remove
  by unfold_locales (rule sim_gain_add_ok sim_gain_remove_ok; assumption)+

end
