(* ===== verification/SimTossimProps.thy ===== *)
theory SimTossimProps
  imports SimTossim
begin

text \<open>
  The simulator's random numbers are the minimal standard generator; its event loop runs the events
  in the order of their times; the printed time is the time.
\<close>

section \<open>Random numbers\<close>

definition M31 :: nat where
  "M31 = 2147483647"

text \<open>A number modulo \<open>2^31 - 1\<close> is the sum of its 31-bit digits.\<close>

lemma mersenne_fold:
  fixes n :: nat
  defines "r \<equiv> n div 2 ^ 31 + n mod 2 ^ 31"
  assumes "n < 16807 * M31" and "\<not> M31 dvd n"
  shows "n mod M31 = (if 2 ^ 31 \<le> r then r - M31 else r)"
proof -
  have n: "n = M31 * (n div 2 ^ 31) + r"
    unfolding r_def M31_def using div_mult_mod_eq [of n "2 ^ 31"] by simp
  have "r mod M31 = n mod M31" using arg_cong [OF n, of "\<lambda>x. x mod M31"] by simp
  moreover have "n div 2 ^ 31 < 16807" using assms(2) unfolding M31_def by (simp add: less_mult_imp_div_less)
  then have r: "r < 2 * M31" unfolding r_def M31_def using mod_less_divisor [of "2 ^ 31" n] by simp
  moreover have "r \<noteq> M31"
  proof
    assume "r = M31"
    then have "M31 dvd n" using n by (metis dvd_add dvd_refl dvd_triv_left)
    then show False using assms(3) by simp
  qed
  ultimately have eq: "n mod M31 = r mod M31" and r: "r < 2 * M31" "r \<noteq> M31" by simp_all
  show ?thesis
  proof (cases "2 ^ 31 \<le> r")
    case True
    then have "M31 \<le> r" "r - M31 < M31" using r by (simp_all add: M31_def)
    then show ?thesis using eq True by (simp only: le_mod_geq mod_less if_True)
  next
    case False
    then have "r < M31" using r(2) by (simp add: M31_def)
    then show ?thesis using eq False by (simp only: mod_less if_False)
  qed
qed

lemma bit31: "bit (w :: u32) 31 \<longleftrightarrow> 2 ^ 31 \<le> unat w"
proof -
  have "unat w div 2 ^ 31 < 2" using unat_u32_lt [of w] by (simp add: less_mult_imp_div_less)
  moreover have "bit w 31 \<longleftrightarrow> odd (unat w div 2 ^ 31)"
    using bit_unsigned_iff [where 'a = nat, of w 31] unfolding bit_iff_odd [of "unat w"] by simp
  moreover have "2 ^ 31 \<le> unat w \<longleftrightarrow> unat w div 2 ^ 31 \<noteq> 0" by (simp add: div_eq_0_iff not_less)
  ultimately show ?thesis by (auto elim: oddE simp: odd_iff_mod_2_eq_one mod_if)
qed

lemma msb_test: "((w :: u32) AND 0x80000000 \<noteq> 0) = (2 ^ 31 \<le> unat w)"
  using and_exp_eq_0_iff_not_bit [of w 31] by (simp add: bit31)

lemma low31: "unat ((w :: u32) AND 0x7FFFFFFF) = unat w mod 2 ^ 31"
proof -
  have "(0x7FFFFFFF :: u32) = mask 31" by (simp add: mask_eq_exp_minus_1)
  then have "w AND 0x7FFFFFFF = take_bit 31 w" by (simp add: take_bit_eq_mask)
  then have "unat (w AND 0x7FFFFFFF) = take_bit 31 (unat w)" by (simp only: unsigned_take_bit_eq)
  then show ?thesis by (simp only: take_bit_eq_mod)
qed

lemma scast_small:
  assumes "unat (w :: u32) < 2 ^ 31"
  shows "unat (scast w :: u64) = unat w"
proof -
  have "\<not> bit w 31" using assms by (simp add: bit31)
  then have "n < 31" if "bit w n" for n
    using that bit_imp_le_length [OF that] by (cases "n = 31") auto
  then have "\<And>n. 31 \<le> n \<Longrightarrow> \<not> bit w n" by (meson not_le)
  then have "(scast w :: u64) = ucast w"
    by (intro bit_word_eqI) (auto simp: bit_signed_iff bit_unsigned_iff min_def dest: bit_imp_le_length)
  then show ?thesis using unat_u32_lt [of w] by (simp add: unsigned_ucast_eq take_bit_nat_eq_self)
qed


lemma minimal_standard:
  assumes "0 < unat seed" and "unat seed < M31"
  shows "\<not> M31 dvd 16807 * unat seed"
proof
  assume "M31 dvd 16807 * unat seed"
  moreover have "coprime M31 16807" by (simp add: M31_def coprime_iff_gcd_eq_1 gcd_non_0_nat)
  ultimately have "M31 dvd unat seed" by (simp add: coprime_dvd_mult_right_iff)
  then show False using assms by (auto dest: dvd_imp_le)
qed

lemma sim_random_sum:
  fixes seed :: u32
  assumes "unat seed < M31"
  defines "tmp \<equiv> 33614 * (scast seed :: u64)" and "n \<equiv> 16807 * unat seed"
  shows "unat (ucast (drop_bit 32 tmp) + drop_bit 1 (ucast tmp) :: u32) = n div 2 ^ 31 + n mod 2 ^ 31"
proof -
  have n: "n < 16807 * 2 ^ 31" using assms(1) by (simp add: n_def M31_def)
  have "unat (scast seed :: u64) = unat seed"
    using assms(1) scast_small [of seed] by (simp add: M31_def)
  then have tmp: "unat tmp = 2 * n"
    using assms(1) by (simp add: tmp_def n_def unat_word_ariths M31_def)
  have "unat (drop_bit 32 tmp) = 2 * n div 2 ^ 32"
    by (subst unat_drop_bit_eq) (simp only: tmp drop_bit_eq_div)
  then have d: "unat (drop_bit 32 tmp) = n div 2 ^ 31" by simp
  have lt: "n div 2 ^ 31 < 16807" using n by (simp add: less_mult_imp_div_less)
  then have p: "unat (ucast (drop_bit 32 tmp) :: u32) = n div 2 ^ 31"
    by (simp only: unsigned_ucast_eq d) (simp add: take_bit_nat_eq_self)
  have q: "unat (drop_bit 1 (ucast tmp) :: u32) = n mod 2 ^ 31"
  proof -
    have "unat (ucast tmp :: u32) = 2 * n mod (2 * 2 ^ 31)"
      by (simp only: unsigned_ucast_eq tmp) (simp add: take_bit_eq_mod)
    then have "unat (ucast tmp :: u32) = 2 * (n mod 2 ^ 31)" by (simp only: mod_mult_mult1)
    then show ?thesis by (subst unat_drop_bit_eq) (simp add: drop_bit_eq_div)
  qed
  show ?thesis
    using lt p q mod_less_divisor [of "2 ^ 31" n] by (subst unat_add_lem [THEN iffD1]) simp_all
qed


text \<open>From a seed between 1 and \<open>2^31 - 2\<close>, \<open>sim_random\<close>, which computes with 32-bit and 64-bit words and
  no division, returns and keeps the next number of the minimal standard generator,
  \<open>16807 * seed mod (2^31 - 1)\<close>, and that is again such a seed.\<close>

theorem sim_random_minimal_standard:
  assumes "0 < unat (sim_seed s)" and "unat (sim_seed s) < 2 ^ 31 - 1"
  shows "unat (fst (sim_random s)) = 16807 * unat (sim_seed s) mod (2 ^ 31 - 1) \<and>
    sim_seed (snd (sim_random s)) = fst (sim_random s) \<and>
    0 < unat (fst (sim_random s)) \<and> unat (fst (sim_random s)) < 2 ^ 31 - 1"
proof -
  let ?n = "16807 * unat (sim_seed s)"
  have M: "M31 = 2 ^ 31 - 1" by (simp add: M31_def)
  have seed: "unat (sim_seed s) < M31" "\<not> M31 dvd ?n" "?n < 16807 * M31"
    using assms minimal_standard [OF assms(1)] by (simp_all add: M)
  define w :: u32 where "w = ucast (drop_bit 32 (33614 * (scast (sim_seed s) :: u64)))
      + drop_bit 1 (ucast (33614 * (scast (sim_seed s) :: u64)))"
  have w: "unat w = ?n div 2 ^ 31 + ?n mod 2 ^ 31"
    unfolding w_def using seed(1) by (rule sim_random_sum)
  have res: "sim_random s = (if 2 ^ 31 \<le> unat w then ((w AND 0x7FFFFFFF) + 1,
        s\<lparr>sim_seed := (w AND 0x7FFFFFFF) + 1\<rparr>) else (w, s\<lparr>sim_seed := w\<rparr>))"
    unfolding sim_random_def Let_def w_def add.commute [of "drop_bit 1 _"] by (simp add: msb_test)
  have fold: "?n mod M31 = (if 2 ^ 31 \<le> unat w then unat w - M31 else unat w)"
    unfolding w using seed(3,2) by (rule mersenne_fold)
  have "unat (fst (sim_random s)) = ?n mod M31"
  proof (cases "2 ^ 31 \<le> unat w")
    case True
    have "unat w mod 2 ^ 31 = unat w - 2 ^ 31"
      using True unat_u32_lt [of w] by (simp add: le_mod_geq)
    then have "unat ((w AND 0x7FFFFFFF) + 1) = unat w - 2 ^ 31 + 1"
      using unat_u32_lt [of w] low31 [of w] by (simp add: unat_word_ariths)
    then show ?thesis using True by (simp only: res fold if_True fst_conv) (simp add: M31_def)
  next
    case False
    then show ?thesis by (simp only: res fold if_False fst_conv)
  qed
  moreover have "0 < ?n mod M31" using seed(2) by (simp add: mod_greater_zero_iff_not_dvd)
  moreover have "?n mod M31 < M31" by (simp add: M31_def)
  moreover have "sim_seed (snd (sim_random s)) = fst (sim_random s)"
    by (simp add: sim_random_def Let_def)
  ultimately show ?thesis unfolding M by simp
qed


theorem sim_random_minimal_standard_witness:
  "unat (fst (sim_random \<lparr>sim_ticks = 0, current_node = 0, TOS_NODE_ID = 0, sim_seed = 1\<rparr>)) = 16807"
  using sim_random_minimal_standard
    [of "\<lparr>sim_ticks = 0, current_node = 0, TOS_NODE_ID = 0, sim_seed = 1\<rparr>"] by simp

text \<open>\<open>sim_random_seed\<close> turns the seed 0, on which the generator would stay, into 1, but takes
  \<open>2^31 - 1\<close>, on which it stays as well: every number drawn after is \<open>2^31 - 1\<close>.\<close>

theorem sim_random_stuck:
  "sim_seed (sim_random_seed 0 s) = 1 \<and>
   sim_random (sim_random_seed 0x7FFFFFFF s) = (0x7FFFFFFF, sim_random_seed 0x7FFFFFFF s)"
proof -
  let ?s = "sim_random_seed 0x7FFFFFFF s"
  have seed: "sim_seed ?s = 0x7FFFFFFF" by (simp add: sim_random_seed_def)
  have "fst (sim_random ?s) = 0x7FFFFFFF" unfolding sim_random_def Let_def seed by simp
  moreover have "sim_random ?s = (fst (sim_random ?s), ?s\<lparr>sim_seed := fst (sim_random ?s)\<rparr>)"
    by (simp add: sim_random_def Let_def)
  ultimately show ?thesis by (simp add: sim_random_seed_def)
qed

section \<open>The event loop\<close>

text \<open>
  The state between two events: the queue is a heap; what is queued are events, each once, under the
  time it has, and none is in the past; no event has a queued event as its data.
\<close>

definition queued :: "'f sim_state \<Rightarrow> (addr option \<times> int) multiset" where
  "queued s = heap_elems (eventHeap s)"

definition entry_ok :: "'f sim_state \<Rightarrow> addr option \<times> int \<Rightarrow> bool" where
  "entry_ok s x \<longleftrightarrow> sim_ticks s \<le> snd x \<and>
     (case fst x of None \<Rightarrow> False | Some p \<Rightarrow> map_option ev_time (event_at s p) = Some (snd x))"

definition ptrs :: "'f sim_state \<Rightarrow> addr option set" where
  "ptrs s = fst ` set_mset (queued s)"

definition sim_ok :: "'f sim_state \<Rightarrow> bool" where
  "sim_ok s \<longleftrightarrow> sim_heap_ok (eventHeap s) \<and> (\<forall>x \<in># queued s. entry_ok s x) \<and>
     (\<forall>p. count (image_mset fst (queued s)) (Some p) \<le> 1) \<and>
     (\<forall>p e. event_at s p = Some e \<longrightarrow> ev_data e = None \<or> ev_data e \<notin> ptrs s)"

lemma pop_min_key: "heap_pop_min_data h = Some (d, k, h') \<Longrightarrow> heap_get_min_key h = Some k"
  by (auto simp: heap_pop_min_data_def heap_get_min_key_def is_empty_def bind_Some_iff Let_def
      split: if_splits)

lemma queue_empty_iff: "sim_ok s \<Longrightarrow> sim_queue_is_empty s \<longleftrightarrow> queued s = {#}"
  by (simp add: sim_ok_def sim_queue_is_empty_def heap_is_empty_def is_empty_def queued_def
      heap_elems_empty)

lemma sim_queue_pop_ok:
  assumes "sim_ok s" and "\<not> sim_queue_is_empty s"
  obtains p e h where "sim_queue_pop s = Some (Some p, s\<lparr>eventHeap := h\<rparr>)"
    and "event_at s p = Some e" and "sim_ticks s \<le> ev_time e"
    and "sim_queue_peek_time s = Some (ev_time e)" and "sim_heap_ok h"
    and "queued s = add_mset (Some p, ev_time e) (heap_elems h)"
    and "\<forall>x \<in># heap_elems h. ev_time e \<le> snd x"
proof -
  have ok: "sim_heap_ok (eventHeap s)" and ne: "heap_elems (eventHeap s) \<noteq> {#}"
    using assms queue_empty_iff [OF assms(1)] by (auto simp: sim_ok_def queued_def)
  obtain d k h where h: "heap_pop_min_data (eventHeap s) = Some (d, k, h)" "sim_heap_ok h"
    "heap_elems (eventHeap s) = add_mset (d, k) (heap_elems h)"
    "\<forall>x \<in># heap_elems (eventHeap s). k \<le> snd x"
    using event_heap.get_least [OF ok ne] by blast
  have "entry_ok s (d, k)" using assms(1) h(3) by (simp add: sim_ok_def queued_def)
  then obtain p e where p: "d = Some p" "event_at s p = Some e" "ev_time e = k" "sim_ticks s \<le> k"
    by (auto simp: entry_ok_def split: option.splits)
  moreover have "sim_queue_peek_time s = Some k"
    using pop_min_key [OF h(1)] assms(2) by (simp add: sim_queue_peek_time_def sim_queue_is_empty_def)
  ultimately show ?thesis
    using that [of p h e] h by (simp add: sim_queue_pop_def queued_def)
qed

text \<open>When the queue is not empty, the event loop takes out an event whose time no other queued event
  is before, the time \<open>sim_queue_peek_time\<close> tells, sets the clock to it without moving it back, and
  dispatches that event with the rest of the queue as it was.\<close>

theorem run_next_event_earliest:
  assumes "sim_ok s" and "\<not> sim_queue_is_empty s"
  shows "\<exists>p e h. event_at s p = Some e \<and> sim_queue_peek_time s = Some (ev_time e) \<and>
    sim_ticks s \<le> ev_time e \<and> sim_heap_ok h \<and>
    heap_elems (eventHeap s) = add_mset (Some p, ev_time e) (heap_elems h) \<and>
    (\<forall>x \<in># heap_elems h. ev_time e \<le> snd x) \<and>
    sim_run_next_event env s = dispatch env p (s\<lparr>eventHeap := h\<rparr>)"
proof -
  obtain p e h where h: "sim_queue_pop s = Some (Some p, s\<lparr>eventHeap := h\<rparr>)"
    "event_at s p = Some e" "sim_ticks s \<le> ev_time e" "sim_queue_peek_time s = Some (ev_time e)"
    "sim_heap_ok h" "queued s = add_mset (Some p, ev_time e) (heap_elems h)"
    "\<forall>x \<in># heap_elems h. ev_time e \<le> snd x"
    by (rule sim_queue_pop_ok [OF assms])
  have "sim_run_next_event env s = dispatch env p (s\<lparr>eventHeap := h\<rparr>)"
    using assms(2) h(1) by (simp add: sim_run_next_event_def)
  with h show ?thesis
    by (intro exI [of _ p] exI [of _ e] exI [of _ h] conjI) (simp_all only: queued_def)
qed

definition idle_env :: "unit sim_env" where
  "idle_env = \<lparr>is_on = \<lambda>_ _. True, run_handler = \<lambda>_ _ s. Some s\<rparr>"

definition two_events :: "unit sim_state" where
  "two_events =
     \<lparr>sim_ticks = 5, current_node = 0, TOS_NODE_ID = 0, sim_seed = 1,
      eventHeap = \<lparr>hp_size = 2, hp_data = [\<lparr>node_data = Some 7, node_key = 10\<rparr>,
        \<lparr>node_data = Some 8, node_key = 20\<rparr>, init_node], private_size = 3\<rparr>,
      sim_mem = [7 \<mapsto> Event False \<lparr>ev_time = 10, ev_mote = 1, force = False, cancelled = False,
                   ev_data = None, handle = Some (), cleanup = Some Cleanup_none\<rparr>,
                 8 \<mapsto> Event True \<lparr>ev_time = 20, ev_mote = 2, force = True, cancelled = False,
                   ev_data = None, handle = Some (), cleanup = Some Cleanup_event\<rparr>]\<rparr>"

lemma two_events_ok: "sim_ok two_events" "\<not> sim_queue_is_empty two_events"
proof -
  have "i = 1" if "0 < i" "i < 2" for i :: nat using that by simp
  then have "sim_heap_ok (eventHeap two_events)"
    by (auto simp: two_events_def sim_heap_ok_def INT_MAX_def heap_ordered_def ordered_at_def parent_def)
  moreover have "queued two_events = {#(Some 7, 10), (Some 8, 20)#}"
    by (simp add: queued_def heap_elems_def two_events_def numeral_2_eq_2)
  ultimately show "sim_ok two_events"
    by (auto simp: sim_ok_def entry_ok_def event_at_def two_events_def split: option.splits if_splits)
  show "\<not> sim_queue_is_empty two_events"
    by (simp add: two_events_def sim_queue_is_empty_def heap_is_empty_def is_empty_def)
qed

theorem run_next_event_earliest_witness:
  "\<exists>p e h. event_at two_events p = Some e \<and> sim_ticks two_events \<le> ev_time e \<and>
    sim_run_next_event idle_env two_events = dispatch idle_env p (two_events\<lparr>eventHeap := h\<rparr>)"
  using run_next_event_earliest [OF two_events_ok, of idle_env] by (elim exE conjE) (intro exI conjI)


text \<open>What the loop needs of the handlers: they keep the state right, leave the clock alone, and queue the
  event they were called for again only if nothing is to clean it up.\<close>

definition handlers_ok :: "'f sim_env \<Rightarrow> bool" where
  "handlers_ok env \<longleftrightarrow>
     (\<forall>f p s s'. sim_ok s \<longrightarrow> Some p \<notin> ptrs s \<longrightarrow> run_handler env f p s = Some s' \<longrightarrow>
        sim_ok s' \<and> sim_ticks s' = sim_ticks s \<and>
        (Some p \<in> ptrs s' \<longrightarrow>
           (\<forall>e. event_at s' p = Some e \<longrightarrow> cleanup e \<in> {None, Some Cleanup_none})))"

primrec sim_run :: "'f sim_env \<Rightarrow> nat \<Rightarrow> 'f sim_state \<Rightarrow> int list option" where
  "sim_run env 0 s = Some []"
| "sim_run env (Suc n) s =
     (if sim_queue_is_empty s then Some []
      else do {
        (_, s) \<leftarrow> sim_run_next_event env s;
        ts \<leftarrow> sim_run env n s;
        Some (sim_time s # ts)
      })"

lemma ptrs_eq: "eventHeap s' = eventHeap s \<Longrightarrow> ptrs s' = ptrs s" "eventHeap s' = eventHeap s \<Longrightarrow> queued s' = queued s"
  by (simp_all add: ptrs_def queued_def)

text \<open>Memory may change away from the queued events.\<close>

lemma sim_ok_change:
  assumes "sim_ok s" and same: "eventHeap s' = eventHeap s" "sim_ticks s' = sim_ticks s"
    and keep: "\<And>p. Some p \<in> ptrs s \<Longrightarrow> event_at s' p = event_at s p"
    and old: "\<And>p e. event_at s' p = Some e \<Longrightarrow>
      ev_data e = None \<or> (\<exists>e0. event_at s p = Some e0 \<and> ev_data e = ev_data e0)"
  shows "sim_ok s'"
proof -
  have inv: "\<forall>p e. event_at s p = Some e \<longrightarrow> ev_data e = None \<or> ev_data e \<notin> ptrs s"
    using assms(1) by (simp add: sim_ok_def)
  have "entry_ok s' x" if "x \<in># queued s" for x
  proof -
    have "entry_ok s x" using assms(1) that by (simp add: sim_ok_def)
    moreover have "fst x \<in> ptrs s" using that by (simp add: ptrs_def)
    ultimately show ?thesis
      using keep same(2) by (cases "fst x") (auto simp: entry_ok_def)
  qed
  moreover have "ev_data e = None \<or> ev_data e \<notin> ptrs s" if "event_at s' p = Some e" for p e
    using old [OF that] inv by metis
  ultimately show ?thesis
    using assms(1) same(1) by (simp add: sim_ok_def ptrs_eq [OF same(1)])
qed

lemma free_obj_ok:
  assumes "sim_ok s" and "free_obj a s = Some s'" and "a = None \<or> a \<notin> ptrs s"
  shows "sim_ok s' \<and> eventHeap s' = eventHeap s \<and> sim_ticks s' = sim_ticks s"
proof (cases a)
  case None
  then show ?thesis using assms by (simp add: free_obj_def)
next
  case (Some b)
  then have s': "s' = s\<lparr>sim_mem := (sim_mem s)(b := None)\<rparr>"
    using assms(2) by (auto simp: free_obj_def split: option.splits sim_obj.splits bool.splits)
  have "sim_ok s'"
    by (rule sim_ok_change [OF assms(1)]) (use assms(3) Some in \<open>auto simp: s' event_at_def split: if_splits\<close>)
  then show ?thesis using s' by simp
qed

lemma put_event_ok:
  assumes "sim_ok s" and "put_event p (e\<lparr>ev_data := None\<rparr>) s = Some s'" and "Some p \<notin> ptrs s"
  shows "sim_ok s' \<and> eventHeap s' = eventHeap s \<and> sim_ticks s' = sim_ticks s"
proof -
  obtain b where s': "s' = s\<lparr>sim_mem := (sim_mem s)(p \<mapsto> Event b (e\<lparr>ev_data := None\<rparr>))\<rparr>"
    using assms(2) by (auto simp: put_event_def split: option.splits sim_obj.splits)
  have "sim_ok s'"
    by (rule sim_ok_change [OF assms(1)]) (use assms(3) in \<open>auto simp: s' event_at_def split: if_splits\<close>)
  then show ?thesis using s' by simp
qed

lemma cleanup_data_ok:
  assumes "sim_ok s" and "sim_queue_cleanup_data p s = Some s'" and "Some p \<notin> ptrs s"
  shows "sim_ok s' \<and> eventHeap s' = eventHeap s \<and> sim_ticks s' = sim_ticks s"
proof -
  obtain e t where e: "event_at s p = Some e" and t: "free_obj (ev_data e) s = Some t"
    and s': "put_event p (e\<lparr>ev_data := None\<rparr>) t = Some s'"
    using assms(2) unfolding sim_queue_cleanup_data_def bind_Some_iff by (elim exE conjE)
  have "ev_data e = None \<or> ev_data e \<notin> ptrs s" using assms(1) e by (simp add: sim_ok_def)
  from free_obj_ok [OF assms(1) t this]
  have t_ok: "sim_ok t" "eventHeap t = eventHeap s" "sim_ticks t = sim_ticks s" by simp_all
  then have "Some p \<notin> ptrs t" using assms(3) by (simp add: ptrs_eq(1) [OF t_ok(2)])
  from put_event_ok [OF t_ok(1) s' this] t_ok show ?thesis by simp
qed

lemma cleanup_total_split:
  "sim_queue_cleanup_total p s = Option.bind (sim_queue_cleanup_data p s) (free_obj (Some p))"
  by (simp add: sim_queue_cleanup_total_def sim_queue_cleanup_data_def Option.bind_assoc)

lemma run_cleanup_ok:
  assumes "sim_ok s" and "run_cleanup c p s = Some s'" and "c = Cleanup_none \<or> Some p \<notin> ptrs s"
  shows "sim_ok s' \<and> sim_ticks s' = sim_ticks s"
proof (cases c)
  case Cleanup_none
  then show ?thesis using assms by (simp add: run_cleanup_def sim_queue_cleanup_none_def)
next
  case Cleanup_event
  then have "free_obj (Some p) s = Some s'" "Some p \<notin> ptrs s"
    using assms by (simp_all add: run_cleanup_def sim_queue_cleanup_event_def)
  then show ?thesis using free_obj_ok [OF assms(1), of "Some p" s'] by simp
next
  case Cleanup_data
  then have "sim_queue_cleanup_data p s = Some s'" "Some p \<notin> ptrs s"
    using assms by (simp_all add: run_cleanup_def)
  then show ?thesis using cleanup_data_ok [OF assms(1)] by simp
next
  case Cleanup_total
  then obtain t where t: "sim_queue_cleanup_data p s = Some t" "free_obj (Some p) t = Some s'"
    and p: "Some p \<notin> ptrs s"
    using assms by (auto simp: run_cleanup_def cleanup_total_split bind_Some_iff)
  from cleanup_data_ok [OF assms(1) t(1) p] have t_ok: "sim_ok t" "eventHeap t = eventHeap s"
    "sim_ticks t = sim_ticks s" by simp_all
  then have "Some p \<notin> ptrs t" using p by (simp add: ptrs_eq(1) [OF t_ok(2)])
  then show ?thesis using free_obj_ok [OF t_ok(1) t(2)] t_ok(3) by simp
qed

text \<open>The event taken out is in the queue no more.\<close>

lemma popped_ok:
  assumes "sim_ok s" and "queued s = add_mset (Some p, k) (heap_elems h)" and "sim_heap_ok h"
    and "\<forall>x \<in># heap_elems h. k \<le> snd x" and "event_at s p = Some e" and "ev_time e = k"
  shows "sim_ok (sim_set_node n (sim_set_time k (s\<lparr>eventHeap := h\<rparr>)))"
    and "Some p \<notin> ptrs (sim_set_node n (sim_set_time k (s\<lparr>eventHeap := h\<rparr>)))"
proof -
  let ?t = "sim_set_node n (sim_set_time k (s\<lparr>eventHeap := h\<rparr>))"
  have mem: "sim_mem ?t = sim_mem s" "sim_ticks ?t = k" "queued ?t = heap_elems h"
    by (simp_all add: sim_set_node_def sim_set_time_def queued_def)
  have ev: "event_at ?t = event_at s" by (rule ext) (simp add: event_at_def mem)
  have "count (image_mset fst (queued s)) (Some p) \<le> 1" using assms(1) by (simp add: sim_ok_def)
  then have "Some p \<notin># image_mset fst (heap_elems h)"
    unfolding assms(2) by (simp only: not_in_iff) simp
  then show "Some p \<notin> ptrs ?t" by (simp add: ptrs_def mem)
  have "entry_ok ?t x" if "x \<in># heap_elems h" for x
  proof -
    have "entry_ok s x" using assms(1,2) that by (simp add: sim_ok_def)
    then show ?thesis using assms(4) that by (simp add: entry_ok_def mem ev split: option.splits)
  qed
  moreover have "count (image_mset fst (heap_elems h)) (Some q) \<le> 1" for q
  proof -
    have "count (image_mset fst (queued s)) (Some q) \<le> 1" using assms(1) by (simp add: sim_ok_def)
    then show ?thesis unfolding assms(2) by (simp split: if_splits)
  qed
  moreover have "ptrs ?t \<subseteq> ptrs s" by (auto simp: ptrs_def mem assms(2))
  moreover have "sim_heap_ok (eventHeap ?t)"
    using assms(3) by (simp add: sim_set_node_def sim_set_time_def)
  moreover have "\<forall>p e. event_at s p = Some e \<longrightarrow> ev_data e = None \<or> ev_data e \<notin> ptrs s"
    using assms(1) by (simp add: sim_ok_def)
  ultimately show "sim_ok ?t" unfolding sim_ok_def mem ev by blast
qed


lemma dispatch_ok:
  fixes s s' :: "'f sim_state"
  assumes "handlers_ok env" and "dispatch env p s = Some (r, s')" and "event_at s p = Some e"
    and "sim_ok (sim_set_node (ev_mote e) (sim_set_time (ev_time e) s))"
    and "Some p \<notin> ptrs (sim_set_node (ev_mote e) (sim_set_time (ev_time e) s))"
  shows "sim_ok s' \<and> sim_ticks s' = ev_time e"
proof -
  define t where "t = sim_set_node (ev_mote e) (sim_set_time (ev_time e) s)"
  have t: "sim_ok t" "Some p \<notin> ptrs t" "sim_ticks t = ev_time e"
    using assms(4,5) unfolding t_def by (simp_all add: sim_set_node_def sim_set_time_def)
  define ran where "ran = (if is_on env (ev_mote e) t \<or> force e
      then (case handle e of
              None \<Rightarrow> Some (False, t)
            | Some f \<Rightarrow> map_option (Pair True) (run_handler env f p t))
      else Some (False, t))"
  have "dispatch env p s = Option.bind ran (\<lambda>(result, u). Option.bind (event_at u p) (\<lambda>e.
      Option.bind (case cleanup e of None \<Rightarrow> Some u | Some c \<Rightarrow> run_cleanup c p u)
        (\<lambda>u. Some (result, u))))"
    unfolding dispatch_def assms(3) Let_def ran_def t_def by simp
  with assms(2) have "Option.bind ran (\<lambda>(result, u). Option.bind (event_at u p) (\<lambda>e.
      Option.bind (case cleanup e of None \<Rightarrow> Some u | Some c \<Rightarrow> run_cleanup c p u)
        (\<lambda>u. Some (result, u)))) = Some (r, s')" by simp
  then obtain u e2 where ran: "ran = Some (r, u)" and e2: "event_at u p = Some e2"
    and c: "(case cleanup e2 of None \<Rightarrow> Some u | Some c \<Rightarrow> run_cleanup c p u) = Some s'"
    by (fastforce simp only: bind_Some_iff split_beta option.inject prod.inject fst_conv snd_conv)
  from ran have u: "u = t \<or> (\<exists>f. run_handler env f p t = Some u)"
    by (auto simp: ran_def split: if_splits option.splits)
  have u_ok: "sim_ok u \<and> sim_ticks u = ev_time e \<and>
      (Some p \<in> ptrs u \<longrightarrow> cleanup e2 \<in> {None, Some Cleanup_none})"
    using u
  proof
    assume "u = t"
    then show ?thesis using t by simp
  next
    assume "\<exists>f. run_handler env f p t = Some u"
    then obtain f where "run_handler env f p t = Some u" by blast
    with assms(1) t have "sim_ok u \<and> sim_ticks u = sim_ticks t \<and> (Some p \<in> ptrs u \<longrightarrow>
        (\<forall>e. event_at u p = Some e \<longrightarrow> cleanup e \<in> {None, Some Cleanup_none}))"
      unfolding handlers_ok_def by blast
    then show ?thesis using t(3) e2 by simp
  qed
  show ?thesis
  proof (cases "cleanup e2")
    case None
    then show ?thesis using c u_ok by simp
  next
    case (Some g)
    then have "run_cleanup g p u = Some s'" "g = Cleanup_none \<or> Some p \<notin> ptrs u"
      using c u_ok by auto
    then show ?thesis using run_cleanup_ok [of u g p s'] u_ok by simp
  qed
qed

lemma run_next_event_ok:
  assumes "handlers_ok env" and "sim_ok s" and "\<not> sim_queue_is_empty s"
    and "sim_run_next_event env s = Some (r, s')"
  shows "sim_ok s' \<and> sim_ticks s \<le> sim_ticks s' \<and> sim_queue_peek_time s = Some (sim_ticks s')"
proof -
  obtain p e h where h: "sim_queue_pop s = Some (Some p, s\<lparr>eventHeap := h\<rparr>)"
    "event_at s p = Some e" "sim_ticks s \<le> ev_time e" "sim_queue_peek_time s = Some (ev_time e)"
    "sim_heap_ok h" "queued s = add_mset (Some p, ev_time e) (heap_elems h)"
    "\<forall>x \<in># heap_elems h. ev_time e \<le> snd x"
    by (rule sim_queue_pop_ok [OF assms(2,3)])
  have d: "dispatch env p (s\<lparr>eventHeap := h\<rparr>) = Some (r, s')"
    using assms(3,4) h(1) by (simp add: sim_run_next_event_def)
  have e: "event_at (s\<lparr>eventHeap := h\<rparr>) p = Some e" using h(2) by (simp add: event_at_def)
  note ok = popped_ok [OF assms(2) h(6,5,7,2) refl]
  from dispatch_ok [OF assms(1) d e ok] show ?thesis using h(3,4) by simp
qed

text \<open>C35: with such handlers the simulation runs forward: the times of the events it runs, however many,
  never decrease, and none is before the time it started from.\<close>

theorem sim_time_monotone:
  assumes "handlers_ok env" and "sim_ok s" and "sim_run env n s = Some ts"
  shows "sorted (sim_time s # ts)"
  using assms(2,3)
proof (induction n arbitrary: s ts)
  case 0
  then show ?case by simp
next
  case (Suc n)
  show ?case
  proof (cases "sim_queue_is_empty s")
    case True
    then show ?thesis using Suc.prems by simp
  next
    case False
    then obtain r s' us where s': "sim_run_next_event env s = Some (r, s')"
      and us: "sim_run env n s' = Some us" and ts: "ts = sim_time s' # us"
      using Suc.prems by (auto simp: bind_Some_iff)
    from run_next_event_ok [OF assms(1) Suc.prems(1) False s']
    have "sim_ok s'" "sim_time s \<le> sim_time s'" by (simp_all add: sim_time_def)
    with Suc.IH [OF _ us] show ?thesis using ts by auto
  qed
qed

text \<open>A handler that does nothing is one, and so are two events run by it.\<close>

lemma idle_env_ok: "handlers_ok idle_env"
  by (simp add: handlers_ok_def idle_env_def)


lemma idle_run: "sim_run idle_env 2 two_events = Some [10, 20]"
  by (simp add: numeral_2_eq_2 two_events_def idle_env_def sim_run_next_event_def dispatch_def
      sim_queue_is_empty_def heap_is_empty_def is_empty_def sim_queue_pop_def heap_pop_min_data_def
      HEAP_NODE_def down_heap.simps swap_def event_at_def sim_set_node_def sim_set_time_def sim_time_def
      run_cleanup_def sim_queue_cleanup_none_def sim_queue_cleanup_event_def free_obj_def)

theorem sim_time_monotone_witness:
  "sim_run idle_env 2 two_events = Some [10, 20] \<and> sorted [sim_time two_events, 10, 20]"
  using sim_time_monotone [OF idle_env_ok two_events_ok(1) idle_run] idle_run by (rule conjI [rotated])


section \<open>Printing the time\<close>

lemma sdiv_nonneg: "0 \<le> a \<Longrightarrow> 0 < b \<Longrightarrow> a sdiv b = a div (b :: int)"
  by (cases "a = 0") (simp_all add: signed_divide_int_def)

lemma smod_nonneg: "0 \<le> a \<Longrightarrow> 0 < b \<Longrightarrow> a smod b = a mod (b :: int)"
  by (cases "a = 0") (simp_all add: signed_modulo_int_def)

lemma time_fields_nonneg:
  assumes "0 \<le> t" and "t < 2 ^ 31 * 10000000000"
  shows "time_fields t = (t div 10000000000 div 60 div 60, t div 10000000000 div 60 mod 60,
    t div 10000000000 mod 60, t mod 10000000000 div 10)"
proof -
  have "0 \<le> t div 10000000000" "t div 10000000000 < 2 ^ 31" using assms by simp_all
  then have "to_int (t div 10000000000) = t div 10000000000" by (intro to_int_small) simp_all
  then show ?thesis
    using assms(1) by (simp add: time_fields_def sim_ticks_per_sec_def Let_def sdiv_nonneg smod_nonneg)
qed

text \<open>The printed hours, minutes, seconds and billionths denote the simulation time to a billionth of a
  second, for any time up to the \<open>2^31\<close> seconds an int holds; minutes and seconds are below 60.\<close>

theorem print_time_denotes:
  assumes "0 \<le> t" and "t < 2 ^ 31 * sim_ticks_per_sec" and "time_fields t = (h, m, s, ns)"
  shows "((h * 60 + m) * 60 + s) * sim_ticks_per_sec + ns * 10 + t mod 10 = t \<and>
    0 \<le> h \<and> 0 \<le> m \<and> m < 60 \<and> 0 \<le> s \<and> s < 60 \<and> 0 \<le> ns \<and> ns < 1000000000"
proof -
  have f: "h = t div 10000000000 div 60 div 60" "m = t div 10000000000 div 60 mod 60"
    "s = t div 10000000000 mod 60" "ns = t mod 10000000000 div 10"
    using time_fields_nonneg [OF assms(1)] assms(2,3) by (simp_all add: sim_ticks_per_sec_def)
  have "(h * 60 + m) * 60 + s = t div 10000000000"
    unfolding f by (simp only: div_mult_mod_eq)
  moreover have "ns * 10 + t mod 10 = t mod 10000000000"
    unfolding f using div_mult_mod_eq [of "t mod 10000000000" 10] by (simp add: mod_mod_cancel)
  moreover have "t div 10000000000 * 10000000000 + t mod 10000000000 = t"
    by (rule div_mult_mod_eq)
  ultimately have "((h * 60 + m) * 60 + s) * 10000000000 + ns * 10 + t mod 10 = t"
    by (simp only: add.assoc)
  moreover have "0 \<le> ns" "ns < 1000000000" unfolding f by simp_all
  moreover have "0 \<le> s" "s < 60" unfolding f by simp_all
  moreover have "0 \<le> m" "m < 60" unfolding f by simp_all
  moreover have "0 \<le> h" unfolding f using assms(1) by simp
  ultimately show ?thesis unfolding sim_ticks_per_sec_def by simp
qed

theorem print_time_denotes_witness:
  "time_fields 36611234567890 = (1, 1, 1, 123456789) \<and>
   ((1 * 60 + 1) * 60 + 1) * sim_ticks_per_sec + 123456789 * 10 + 36611234567890 mod 10 = 36611234567890"
proof -
  have "time_fields 36611234567890 = (1, 1, 1, 123456789)" by (subst time_fields_nonneg) simp_all
  then show ?thesis
    using print_time_denotes [of 36611234567890 1 1 1 123456789]
    by (simp only: sim_ticks_per_sec_def) simp
qed

text \<open>Given a buffer of at least \<open>len\<close> characters, \<open>len\<close> not 0, \<open>sim_print_time\<close> stays within the first
  \<open>len\<close>, leaves a NUL among them, and from \<open>len \<ge> 2\<close> on what is before it is the beginning of the text
  whose length it returns.\<close>

theorem print_time_in_bounds:
  assumes "0 < len" and "len \<le> length buf"
  shows "\<exists>n out t. sim_print_time buf len ftime = Some (n, out) \<and> length out = length buf \<and>
    drop len out = drop len buf \<and> CHR 0x00 \<in> set (take len out) \<and> n = length t \<and>
    (2 \<le> len \<longrightarrow> take (Suc (min (len - 2) n)) out = take (len - 2) t @ [CHR 0x00])"
proof -
  obtain h m s ns where f: "time_fields ftime = (h, m, s, ns)" by (metis prod_cases4)
  define t where "t = fmt_i h @ '':'' @ fmt_i m @ '':'' @ fmt_i s @ ''.'' @ fmt_09llu ns"
  let ?b = "buf[len - 1 := CHR 0x00]"
  have p: "sim_print_time buf len ftime = Some (snprintf ?b (len - 1) t)"
    using assms f by (simp add: sim_print_time_def t_def)
  show ?thesis
  proof (cases "len = 1")
    case True
    then show ?thesis using p assms by (cases buf) (auto simp: snprintf_def)
  next
    case False
    let ?w = "take (len - 2) t @ [CHR 0x00]"
    have w: "length ?w = Suc (min (len - 2) (length t))" "length ?w \<le> len - 1" by simp_all (use False assms in linarith)
    have le: "length ?w \<le> len" using w(2) by linarith
    have out: "snprintf ?b (len - 1) t = (length t, ?w @ drop (length ?w) ?b)"
      using False assms by (simp add: snprintf_def Let_def numeral_2_eq_2)
    show ?thesis
    proof (intro exI conjI impI)
      show "sim_print_time buf len ftime = Some (length t, ?w @ drop (length ?w) ?b)" using p out by simp
      show "length (?w @ drop (length ?w) ?b) = length buf" using w assms by simp
      show "drop len (?w @ drop (length ?w) ?b) = drop len buf"
        using le assms by (simp only: drop_append drop_all drop_drop) simp
      show "CHR 0x00 \<in> set (take len (?w @ drop (length ?w) ?b))"
      proof -
        have "take len (?w @ drop (length ?w) ?b) = ?w @ take (len - length ?w) (drop (length ?w) ?b)"
          by (subst take_append) (simp only: take_all [OF le])
        then show ?thesis by simp
      qed
      show "take (Suc (min (len - 2) (length t))) (?w @ drop (length ?w) ?b) = take (len - 2) t @ [CHR 0x00]"
      proof -
        have "take (length u) (u @ v) = u" for u v :: string by simp
        from this [of ?w] show ?thesis unfolding w(1) .
      qed
    qed simp
  qed
qed


theorem print_time_in_bounds_witness:
  "\<exists>n out t. sim_print_time (replicate 4 CHR ''x'') 4 (36611234567890 :: int) = Some (n, out) \<and>
     length out = 4 \<and> CHR 0x00 \<in> set (take 4 out) \<and> n = length t \<and>
     take (Suc (min 2 n)) out = take 2 t @ [CHR 0x00]"
  using print_time_in_bounds [of 4 "replicate 4 CHR ''x''" 36611234567890] by auto

end
