(* ===== verification/SimGainProps.thy ===== *)
theory SimGainProps
  imports SimGain SimTossimProps
begin

text \<open>
  The link table of the simulator is the map its users take it for, and the noise it samples stays
  within the floor set for the node.
\<close>

definition gain_boot :: "sim_core \<Rightarrow> gain_state" where
  "gain_boot c = sim_core.extend c
     \<lparr>connectivity = replicate 1001 [], localNoise = replicate 1001 \<lparr>noise_mean = 0, noise_range = 0\<rparr>,
      sensitivity = 4\<rparr>"

lemma gain_boot_ok: "gain_ok (gain_boot c)"
  by (simp add: gain_ok_def gain_boot_def sim_core.defs)

lemma gain_boot_link: "link (gain_boot c) = (\<lambda>_ _. None)"
  by (intro ext) (auto simp: link_def first_clamp array_get_def gain_boot_def sim_core.defs
      clamp_node_def TOSSIM_MAX_NODES_def nth_append simp del: replicate.simps)

lemma sim_gain_value_link:
  "gain_ok s \<Longrightarrow> 0 \<le> src \<Longrightarrow>
   map_option fst (sim_gain_value src dest s) = Some (case link s src dest of Some g \<Rightarrow> g | None \<Rightarrow> 1)"
  by (auto simp: sim_gain_value_def link_def first_Some Let_def split: option.splits)

lemma sim_gain_connected_link:
  "gain_ok s \<Longrightarrow> 0 \<le> src \<Longrightarrow>
   map_option fst (sim_gain_connected src dest s) = Some (link s src dest \<noteq> None)"
  by (auto simp: sim_gain_connected_def link_def first_Some Let_def split: option.splits)

text \<open>C36: after any sequence of additions and removals of links, the gain told for a pair of nodes is what
  the last addition not followed by a removal set, 1 when there is none, and the pair is connected
  exactly when there is one; nodes from 1000 on share one list of links.\<close>

theorem sim_gain_refines_map:
  assumes "\<forall>x \<in> set ops. 0 \<le> op_src x"
  shows "\<exists>s. run_ops sim_gain_add sim_gain_remove ops (gain_boot c) = Some s \<and>
    (\<forall>src dest. 0 \<le> src \<longrightarrow>
       map_option fst (sim_gain_value src dest s) =
         Some (case links_after ops (\<lambda>_ _. None) src dest of Some g \<Rightarrow> g | None \<Rightarrow> 1) \<and>
       map_option fst (sim_gain_connected src dest s) =
         Some (links_after ops (\<lambda>_ _. None) src dest \<noteq> None))"
proof -
  obtain s where "run_ops sim_gain_add sim_gain_remove ops (gain_boot c) = Some s" "gain_ok s"
    "link s = links_after ops (\<lambda>_ _. None)"
    using gain_links.run_ops_look [OF gain_boot_ok assms] unfolding gain_boot_link by blast
  then show ?thesis by (intro exI [of _ s]) (simp add: sim_gain_value_link sim_gain_connected_link)
qed

definition core0 :: sim_core where
  "core0 = \<lparr>sim_ticks = 0, current_node = 0, TOS_NODE_ID = 0, sim_seed = 1\<rparr>"

text \<open>A link set twice and one removed.\<close>

theorem sim_gain_refines_map_witness:
  "\<exists>s. run_ops sim_gain_add sim_gain_remove
      [Add_link 1 2 (- 50), Add_link 1 3 (- 60), Add_link 1 2 (- 70), Remove_link 1 3] (gain_boot core0) = Some s \<and>
    map_option fst (sim_gain_value 1 2 s) = Some (- 70) \<and> map_option fst (sim_gain_value 1 3 s) = Some 1 \<and>
    map_option fst (sim_gain_connected 1 3 s) = Some False"
proof -
  let ?ops = "[Add_link 1 2 (- 50), Add_link 1 3 (- 60), Add_link 1 2 (- 70), Remove_link 1 3]"
  have "\<forall>x \<in> set ?ops. 0 \<le> op_src x" by simp
  from sim_gain_refines_map [OF this, of core0]
  obtain s where s: "run_ops sim_gain_add sim_gain_remove ?ops (gain_boot core0) = Some s"
    "\<forall>src dest. 0 \<le> src \<longrightarrow>
       map_option fst (sim_gain_value src dest s) =
         Some (case links_after ?ops (\<lambda>_ _. None) src dest of Some g \<Rightarrow> g | None \<Rightarrow> 1) \<and>
       map_option fst (sim_gain_connected src dest s) =
         Some (links_after ?ops (\<lambda>_ _. None) src dest \<noteq> None)" by blast
  have l12: "links_after ?ops (\<lambda>_ _. None) 1 2 = Some (- 70)"
    and l13: "links_after ?ops (\<lambda>_ _. None) 1 3 = None" by (simp_all add: same_link_def)
  have "map_option fst (sim_gain_value 1 2 s) = Some (- 70)"
    using s(2) [rule_format, of 1 2] unfolding l12 by simp
  moreover have "map_option fst (sim_gain_value 1 3 s) = Some 1"
    "map_option fst (sim_gain_connected 1 3 s) = Some False"
    using s(2) [rule_format, of 1 3] unfolding l13 by simp_all
  ultimately show ?thesis using s(1) by (intro exI [of _ s] conjI)
qed

text \<open>In exact arithmetic, the noise sampled for a node lies within the range around the mean that was
  set for it, whatever number the generator draws, and sampling only moves the generator on.\<close>

theorem sample_noise_in_range:
  assumes "gain_ok s" and "0 \<le> node" and "0 < unat (sim_seed s)" and "unat (sim_seed s) < 2 ^ 31 - 1"
    and "sim_gain_set_noise_floor node m w s = Some s1" and "0 \<le> w"
  shows "\<exists>v s'. sim_gain_sample_noise (\<lambda>x. x) node s1 = Some (v, s') \<and> m - w \<le> v \<and> v \<le> m + w \<and>
    s' = snd (sim_random s1)"
proof -
  let ?n = "\<lparr>noise_mean = m, noise_range = w\<rparr>"
  have s1: "s1 = s\<lparr>localNoise := (localNoise s)[nat (clamp_node node) := ?n]\<rparr>"
    "array_get (localNoise s1) (clamp_node node) = Some ?n"
    using assms(1,2,5)
    by (auto simp: sim_gain_set_noise_floor_def array_set_def array_get_def gain_ok_def split: if_splits)
  define r where "r = fst (sim_random s1)"
  have "unat r < 2 ^ 31"
    using sim_random_minimal_standard [of s1] assms(3,4) s1(1) by (simp add: r_def)
  then have "0 \<le> sint r" using bit_last_iff [of r] bit31 [of r] by simp
  then have x: "0 \<le> sint r smod 2000000" "sint r smod 2000000 < 2000000"
    by (simp_all add: smod_nonneg)
  define a where "a = real_of_int (sint r smod 2000000) / 1000000 - 1"
  have a: "- 1 \<le> a" "a \<le> 1" using x by (simp_all add: a_def)
  have "sim_gain_sample_noise (\<lambda>x. x) node s1 = Some (m + a * w, snd (sim_random s1))"
    using s1(2) by (simp add: sim_gain_sample_noise_def r_def a_def Let_def split_beta)
  moreover have "- w \<le> a * w" "a * w \<le> w"
    using a assms(6) mult_right_mono [of "- 1" a w] mult_right_mono [of a 1 w] by simp_all
  ultimately show ?thesis by simp
qed


theorem sample_noise_in_range_witness:
  "\<exists>s1 v s'. sim_gain_set_noise_floor 3 (- 90) 5 (gain_boot core0) = Some s1 \<and>
    sim_gain_sample_noise (\<lambda>x. x) 3 s1 = Some (v, s') \<and> - 95 \<le> v \<and> v \<le> - 85"
proof -
  have seed: "sim_seed (gain_boot core0) = 1" by (simp add: gain_boot_def core0_def sim_core.defs)
  obtain s1 where s1: "sim_gain_set_noise_floor 3 (- 90) 5 (gain_boot core0) = Some s1"
    using gain_boot_ok [of core0]
    by (auto simp: sim_gain_set_noise_floor_def array_set_def gain_ok_def clamp_node_def TOSSIM_MAX_NODES_def)
  from sample_noise_in_range [OF gain_boot_ok _ _ _ this] show ?thesis
    using s1 by (fastforce simp: seed)
qed

end
