(* ===== verification/SerialSource.thy ===== *)
theory SerialSource
  imports Prelude "HOL-Library.Monad_Syntax"
begin

text \<open>
  The host's end of the mote serial protocol (\<open>tools/tinyos/c/sf/serialsource.c\<close>, the POSIX
  branches): frames between HDLC flag bytes with byte stuffing and a CRC, sequence numbers and
  acknowledgements. What the operating system answers to the successive calls of read, write,
  select, fcntl, gettimeofday and malloc is the list of answers still to come; an operation is None
  when it leaves an array or when its answers have run out, that is while it has not returned.
\<close>

section \<open>Constants and state\<close>

definition HDLC_FLAG_BYTE :: u8 where "HDLC_FLAG_BYTE = 126"
definition HDLC_CTLESC_BYTE :: u8 where "HDLC_CTLESC_BYTE = 125"
definition P_ACK :: u8 where "P_ACK = 67"
definition P_PACKET_ACK :: u8 where "P_PACKET_ACK = 68"
definition P_PACKET_NO_ACK :: u8 where "P_PACKET_NO_ACK = 69"
definition BUFSIZE :: nat where "BUFSIZE = 256"
definition MTU :: int where "MTU = 256"
definition ACK_TIMEOUT :: int where "ACK_TIMEOUT = 100000"

abbreviation SYNC_BYTE :: u8 where "SYNC_BYTE \<equiv> HDLC_FLAG_BYTE"
abbreviation ESCAPE_BYTE :: u8 where "ESCAPE_BYTE \<equiv> HDLC_CTLESC_BYTE"

lemmas serial_consts = HDLC_FLAG_BYTE_def HDLC_CTLESC_BYTE_def P_ACK_def P_PACKET_ACK_def
  P_PACKET_NO_ACK_def BUFSIZE_def MTU_def ACK_TIMEOUT_def

datatype serial_source_msg =
    msg_unknown_packet_type | msg_ack_timeout | msg_sync | msg_too_long | msg_too_short
  | msg_bad_sync | msg_bad_crc | msg_closed | msg_no_memory | msg_unix_error

text \<open>Answers: the bytes read (none at the end of the file) or an error; the number of bytes
  written; what became ready.\<close>

datatype os_error = EINTR | EAGAIN | EOTHER
datatype read_answer = Rd bytes | Rd_error os_error
datatype write_answer = Wr nat | Wr_error os_error
datatype select_answer = Sel_ready | Sel_timeout | Sel_error os_error

type_synonym timeval = "int \<times> int"

record os_answers =
  os_reads :: "read_answer list"
  os_selects :: "select_answer list"
  os_writes :: "write_answer list"
  os_fcntls :: "bool list"
  os_clock :: "timeval list"
  os_mallocs :: "bool list"

text \<open>A queued packet: the memory it was received into and its length. \<open>s_escaped\<close> is what has been
  written to the escape buffer, \<open>s_room\<close> the size it was allocated with. \<open>os_out\<close> is what has gone
  to the serial line and \<open>msgs\<close> the calls of the user's message function.\<close>

record serial_source = os_answers +
  non_blocking :: bool
  has_message :: bool
  r_buffer :: bytes
  bufpos :: nat
  bufused :: nat
  r_packet :: bytes
  in_sync :: bool
  r_escaped :: bool
  r_count :: int
  queue :: "u8 \<Rightarrow> (bytes \<times> int) list"
  s_seqno :: u8
  s_escaped :: bytes
  s_room :: int
  s_crc :: u16
  os_out :: bytes
  msgs :: "serial_source_msg list"

definition message :: "serial_source_msg \<Rightarrow> serial_source \<Rightarrow> serial_source" where
  "message msg src = (if has_message src then src\<lparr>msgs := msgs src @ [msg]\<rparr> else src)"

definition os_malloc :: "serial_source \<Rightarrow> (bool \<times> serial_source) option" where
  "os_malloc src =
     (case os_mallocs src of [] \<Rightarrow> None | b # bs \<Rightarrow> Some (b, src\<lparr>os_mallocs := bs\<rparr>))"

definition os_fcntl :: "serial_source \<Rightarrow> (bool \<times> serial_source) option" where
  "os_fcntl src =
     (case os_fcntls src of [] \<Rightarrow> None | b # bs \<Rightarrow> Some (b, src\<lparr>os_fcntls := bs\<rparr>))"

definition os_select :: "serial_source \<Rightarrow> (select_answer \<times> serial_source) option" where
  "os_select src =
     (case os_selects src of [] \<Rightarrow> None | a # as \<Rightarrow> Some (a, src\<lparr>os_selects := as\<rparr>))"

definition gettimeofday :: "serial_source \<Rightarrow> (timeval \<times> serial_source) option" where
  "gettimeofday src =
     (case os_clock src of [] \<Rightarrow> None | t # ts \<Rightarrow> Some (t, src\<lparr>os_clock := ts\<rparr>))"

text \<open>\<open>read\<close> with room for \<open>n\<close> bytes gives at most that many.\<close>

definition os_read :: "nat \<Rightarrow> serial_source \<Rightarrow> (read_answer \<times> serial_source) option" where
  "os_read n src =
     (case os_reads src of
        [] \<Rightarrow> None
      | Rd bs # as \<Rightarrow> if length bs \<le> n then Some (Rd bs, src\<lparr>os_reads := as\<rparr>) else None
      | Rd_error e # as \<Rightarrow> Some (Rd_error e, src\<lparr>os_reads := as\<rparr>))"

section \<open>Opening\<close>

text \<open>The table of baud rates the host may define; \<open>baud\<close> is its constant for a rate, if it has one.\<close>

definition parse_baudrate :: "(int \<Rightarrow> u32 option) \<Rightarrow> int \<Rightarrow> u32" where
  "parse_baudrate baud requested =
     (if requested \<in> set [50, 75, 110, 134, 150, 200, 300, 600, 1200, 1800, 2400, 4800, 9600, 19200,
          38400, 57600, 115200, 230400, 460800, 500000, 576000, 921600, 1000000, 1152000, 1500000,
          2000000, 2500000, 3000000, 3500000, 4000000]
      then (case baud requested of None \<Rightarrow> 0 | Some b \<Rightarrow> b) else 0)"

text \<open>\<open>opened\<close>: whether open, tcflush and tcsetattr succeed.\<close>

definition open_serial_source ::
    "(int \<Rightarrow> u32 option) \<Rightarrow> bool \<times> bool \<times> bool \<Rightarrow> int \<Rightarrow> bool \<Rightarrow> bool \<Rightarrow> os_answers \<Rightarrow> serial_source option" where
  "open_serial_source baud opened baud_rate nb has_msg os =
     (let baudflag = parse_baudrate baud baud_rate; (fd_ok, flush_ok, attr_ok) = opened
      in if baudflag = 0 then None
         else if \<not> fd_ok then None
         else if flush_ok \<and> attr_ok \<and> os_mallocs os \<noteq> [] \<and> hd (os_mallocs os)
         then Some (os_answers.extend (os\<lparr>os_mallocs := tl (os_mallocs os)\<rparr>)
           (serial_source.fields nb has_msg (replicate BUFSIZE 0) 0 0 (replicate (nat MTU) 0) False False 0
              (\<lambda>_. []) 37 [] 0 0 [] []))
         else None)"

section \<open>Reading bytes\<close>

fun blocking_read :: "nat \<Rightarrow> serial_source \<Rightarrow> read_answer list \<Rightarrow> (read_answer \<times> serial_source) option" where
  "blocking_read n src [] = None"
| "blocking_read n src (a # as) = do {
     (s, src) \<leftarrow> os_select (src\<lparr>os_reads := a # as\<rparr>);
     case s of
       Sel_error e \<Rightarrow> Some (Rd_error e, src)
     | _ \<Rightarrow> do {
         (cnt, src) \<leftarrow> os_read n src;
         if cnt = Rd [] then blocking_read n src as else Some (cnt, src)
       }
   }"

definition serial_read :: "bool \<Rightarrow> nat \<Rightarrow> serial_source \<Rightarrow> (read_answer \<times> serial_source) option" where
  "serial_read nb n src =
     (if nb then do {
        (cnt, src) \<leftarrow> os_read n src;
        Some (if cnt = Rd [] then Rd_error EAGAIN else cnt, src)
      }
      else blocking_read n src (os_reads src))"

text \<open>No byte is the result -1.\<close>

partial_function (option) fill_buffer :: "bool \<Rightarrow> serial_source \<Rightarrow> (bool \<times> serial_source) option" where
  "fill_buffer nb src = do {
     (n, src) \<leftarrow> serial_read nb BUFSIZE src;
     case n of
       Rd bs \<Rightarrow>
         if bs = [] then Some (False, message msg_closed src)
         else Some (True, src\<lparr>r_buffer := bs @ drop (length bs) (r_buffer src), bufpos := 0, bufused := length bs\<rparr>)
     | Rd_error e \<Rightarrow>
         if e = EAGAIN then Some (False, src)
         else fill_buffer nb (if e \<noteq> EINTR then message msg_unix_error src else src)
   }"

definition read_byte :: "bool \<Rightarrow> serial_source \<Rightarrow> (u8 option \<times> serial_source) option" where
  "read_byte nb src = do {
     (ok, src) \<leftarrow> (if bufpos src \<ge> bufused src then fill_buffer nb src else Some (True, src));
     if \<not> ok then Some (None, src)
     else do {
       b \<leftarrow> rd8 (r_buffer src) (bufpos src);
       Some (Some b, src\<lparr>bufpos := bufpos src + 1\<rparr>)
     }
   }"

section \<open>Queues of packets\<close>

definition push_protocol_packet :: "u8 \<Rightarrow> bytes \<Rightarrow> u8 \<Rightarrow> serial_source \<Rightarrow> serial_source option" where
  "push_protocol_packet type packet len src = do {
     (entry, src) \<leftarrow> os_malloc src;
     if \<not> entry then Some (message msg_no_memory src)
     else Some (src\<lparr>queue := (queue src)(type := queue src type @ [(packet, uint len)])\<rparr>)
   }"

definition pop_protocol_packet :: "u8 \<Rightarrow> serial_source \<Rightarrow> (bytes \<times> int) option \<times> serial_source" where
  "pop_protocol_packet type src =
     (case queue src type of
        [] \<Rightarrow> (None, src)
      | entry # rest \<Rightarrow> (Some entry, src\<lparr>queue := (queue src)(type := rest)\<rparr>))"

definition packet_available :: "u8 \<Rightarrow> serial_source \<Rightarrow> bool" where
  "packet_available type src \<longleftrightarrow> queue src type \<noteq> []"

definition serial_source_empty :: "serial_source \<Rightarrow> bool" where
  "serial_source_empty src \<longleftrightarrow> bufpos src \<ge> bufused src \<and> \<not> packet_available P_PACKET_NO_ACK src"

section \<open>CRC\<close>

fun crc_bits :: "nat \<Rightarrow> u16 \<Rightarrow> u16" where
  "crc_bits 0 crc = crc"
| "crc_bits (Suc i) crc =
     crc_bits i (if crc AND 0x8000 \<noteq> 0 then push_bit 1 crc XOR 0x1021 else push_bit 1 crc)"

definition crc_byte :: "u16 \<Rightarrow> u8 \<Rightarrow> u16" where
  "crc_byte crc b = crc_bits 8 (crc XOR push_bit 8 (ucast b))"

definition crc_packet :: "bytes \<Rightarrow> u16" where
  "crc_packet packet = foldl crc_byte 0 packet"

section \<open>Writing frames\<close>

definition escape_add :: "u8 \<Rightarrow> serial_source \<Rightarrow> serial_source option" where
  "escape_add b src =
     (if int (length (s_escaped src)) < s_room src then Some (src\<lparr>s_escaped := s_escaped src @ [b]\<rparr>) else None)"

definition init_escaper :: "int \<Rightarrow> serial_source \<Rightarrow> (bool \<times> serial_source) option" where
  "init_escaper count src = do {
     (ok, src) \<leftarrow> os_malloc src;
     if \<not> ok then Some (False, message msg_no_memory src)
     else do {
       src \<leftarrow> escape_add SYNC_BYTE (src\<lparr>s_escaped := [], s_room := count * 2 + 2, s_crc := 0\<rparr>);
       Some (True, src)
     }
   }"

definition terminate_escaper :: "serial_source \<Rightarrow> serial_source option" where
  "terminate_escaper src = escape_add SYNC_BYTE src"

definition escape_byte :: "u8 \<Rightarrow> serial_source \<Rightarrow> serial_source option" where
  "escape_byte b src =
     (let src = src\<lparr>s_crc := crc_byte (s_crc src) b\<rparr>
      in if b = SYNC_BYTE \<or> b = ESCAPE_BYTE
         then Option.bind (escape_add ESCAPE_BYTE src) (escape_add (b XOR 0x20))
         else escape_add b src)"

fun escape_bytes :: "bytes \<Rightarrow> serial_source \<Rightarrow> serial_source option" where
  "escape_bytes [] src = Some src"
| "escape_bytes (b # bs) src = Option.bind (escape_byte b src) (escape_bytes bs)"

fun write_loop :: "bytes \<Rightarrow> int \<Rightarrow> serial_source \<Rightarrow> write_answer list \<Rightarrow> (int \<times> serial_source) option" where
  "write_loop [] actual src ws = Some (actual, src\<lparr>os_writes := ws\<rparr>)"
| "write_loop (b # bs) actual src [] = None"
| "write_loop (b # bs) actual src (Wr_error e # ws) =
     (if e = EINTR then write_loop (b # bs) actual src ws
      else Some (-1, message msg_unix_error (src\<lparr>os_writes := ws\<rparr>)))"
| "write_loop (b # bs) actual src (Wr n # ws) =
     (if n \<le> length (b # bs)
      then write_loop (drop n (b # bs)) (actual + int n) (src\<lparr>os_out := os_out src @ take n (b # bs)\<rparr>) ws
      else None)"

definition source_write :: "bytes \<Rightarrow> serial_source \<Rightarrow> (int \<times> serial_source) option" where
  "source_write buffer src = do {
     (ok, src) \<leftarrow> os_fcntl src;
     if \<not> ok then Some (-1, message msg_unix_error src)
     else do {
       (actual, src) \<leftarrow> write_loop buffer 0 src (os_writes src);
       (ok, src) \<leftarrow> os_fcntl src;
       Some (actual, if \<not> ok then message msg_unix_error src else src)
     }
   }"

text \<open>The first \<open>count\<close> bytes of an array; none when \<open>count\<close> is not positive.\<close>

definition array_prefix :: "bytes \<Rightarrow> int \<Rightarrow> bytes option" where
  "array_prefix packet count = (if count \<le> 0 then Some [] else rdz packet 0 count)"

definition write_framed_packet ::
    "u8 \<Rightarrow> u8 \<Rightarrow> bytes \<Rightarrow> int \<Rightarrow> serial_source \<Rightarrow> (int \<times> serial_source) option" where
  "write_framed_packet packet_type first_byte packet count src = do {
     (ok, src) \<leftarrow> init_escaper (count + 4) src;
     if \<not> ok then Some (-1, src)
     else do {
       src \<leftarrow> escape_byte packet_type src;
       src \<leftarrow> escape_byte first_byte src;
       data \<leftarrow> array_prefix packet count;
       src \<leftarrow> escape_bytes data src;
       let crc = s_crc src;
       src \<leftarrow> escape_byte (ucast crc) src;
       src \<leftarrow> escape_byte (ucast (drop_bit 8 crc)) src;
       src \<leftarrow> terminate_escaper src;
       (n, src) \<leftarrow> source_write (s_escaped src) src;
       Some (if n < 0 then -1 else 0, src)
     }
   }"

section \<open>Receiving frames\<close>

text \<open>\<open>memmove(packet, packet + offset, len - offset)\<close> on the memory of the packet.\<close>

definition process_packet :: "bytes \<Rightarrow> int \<Rightarrow> serial_source \<Rightarrow> serial_source option" where
  "process_packet packet len src = do {
     packet_type \<leftarrow> rd8 packet 0;
     (packet_type, offset, src) \<leftarrow>
       (if packet_type = P_PACKET_ACK then do {
          seqno \<leftarrow> rd8 packet 1;
          (_, src) \<leftarrow> write_framed_packet P_ACK seqno [] 0 src;
          Some (P_PACKET_NO_ACK, 2, src)
        }
        else Some (packet_type, 1, src));
     moved \<leftarrow> rdz packet offset (len - offset);
     packet \<leftarrow> wrn packet 0 moved;
     push_protocol_packet packet_type packet (word_of_int (len - offset)) src
   }"

definition store_byte :: "u8 \<Rightarrow> serial_source \<Rightarrow> serial_source option" where
  "store_byte byte src = do {
     p \<leftarrow> wrz (r_packet src) (r_count src) [byte];
     Some (src\<lparr>r_packet := p, r_count := r_count src + 1\<rparr>)
   }"

text \<open>A flag byte inside a frame ends it. The result tells whether a packet was processed.\<close>

definition end_of_frame :: "serial_source \<Rightarrow> (bool \<times> serial_source) option" where
  "end_of_frame src =
     (let count = r_count src; src = src\<lparr>r_count := 0\<rparr>
      in if count < 4 then Some (False, src)
         else do {
           (received, src) \<leftarrow> os_malloc src;
           if \<not> received then Some (False, message msg_no_memory src)
           else do {
             data \<leftarrow> rdz (r_packet src) 0 (count - 2);
             lo \<leftarrow> rd8 (r_packet src) (nat (count - 2));
             hi \<leftarrow> rd8 (r_packet src) (nat (count - 1));
             if ucast lo OR push_bit 8 (ucast hi) = crc_packet data
             then map_option (Pair True) (process_packet data (count - 2) src)
             else Some (False, message msg_bad_crc src)
           }
         })"

text \<open>The body of the loop, for a byte.\<close>

definition receive_byte :: "u8 \<Rightarrow> serial_source \<Rightarrow> (bool \<times> serial_source) option" where
  "receive_byte byte src =
     (if \<not> in_sync src then
        Some (False,
          if byte = SYNC_BYTE
          then (message msg_sync (src\<lparr>in_sync := True\<rparr>))\<lparr>r_count := 0, r_escaped := False\<rparr> else src)
      else if r_count src \<ge> MTU then Some (False, (message msg_too_long src)\<lparr>in_sync := False\<rparr>)
      else if r_escaped src then
        (if byte = SYNC_BYTE then Some (False, (message msg_bad_sync src)\<lparr>in_sync := False\<rparr>)
         else map_option (Pair False) (store_byte (byte XOR 0x20) (src\<lparr>r_escaped := False\<rparr>)))
      else if byte = ESCAPE_BYTE then Some (False, src\<lparr>r_escaped := True\<rparr>)
      else if byte = SYNC_BYTE then end_of_frame src
      else map_option (Pair False) (store_byte byte src))"

partial_function (option) read_and_process :: "bool \<Rightarrow> serial_source \<Rightarrow> serial_source option" where
  "read_and_process nb src = do {
     (byte, src) \<leftarrow> read_byte nb src;
     case byte of
       None \<Rightarrow> Some src
     | Some b \<Rightarrow> do {
         (processed, src) \<leftarrow> receive_byte b src;
         if processed then Some src else read_and_process nb src
       }
   }"

section \<open>Waiting\<close>

text \<open>\<open>tv\<close> minus the time now, with the borrow of the code.\<close>

definition time_left :: "timeval \<Rightarrow> timeval \<Rightarrow> timeval" where
  "time_left deadline now =
     (let sec = fst deadline - fst now; usec = snd deadline - snd now
      in if usec < 0 then (sec - 1, usec + 1000000) else (sec, usec))"

partial_function (option) wait_loop :: "timeval option \<Rightarrow> serial_source \<Rightarrow> (int \<times> serial_source) option" where
  "wait_loop deadline src = do {
     (expired, src) \<leftarrow>
       (case deadline of
          None \<Rightarrow> Some (False, src)
        | Some d \<Rightarrow> do {
            (now, src) \<leftarrow> gettimeofday src;
            Some (fst (time_left d now) < 0, src)
          });
     if expired then Some (-1, src)
     else do {
       (cnt, src) \<leftarrow> os_select src;
       case cnt of
         Sel_error e \<Rightarrow> if e = EINTR then wait_loop deadline src else Some (-1, message msg_unix_error src)
       | Sel_timeout \<Rightarrow> Some (-1, src)
       | Sel_ready \<Rightarrow> Some (0, src)
     }
   }"

definition source_wait :: "timeval option \<Rightarrow> serial_source \<Rightarrow> (int \<times> serial_source) option" where
  "source_wait deadline src =
     (if bufpos src < bufused src then Some (0, src) else wait_loop deadline src)"

section \<open>Packets\<close>

partial_function (option) read_loop :: "serial_source \<Rightarrow> ((bytes \<times> int) option \<times> serial_source) option" where
  "read_loop src = (
     case pop_protocol_packet P_PACKET_NO_ACK src of
       (Some entry, src) \<Rightarrow> Some (Some entry, src)
     | (None, src) \<Rightarrow>
         if non_blocking src \<and> serial_source_empty src then Some (None, src)
         else do {
           (_, src) \<leftarrow> source_wait None src;
           src \<leftarrow> read_and_process (non_blocking src) src;
           read_loop src
         })"

definition read_serial_packet :: "serial_source \<Rightarrow> ((bytes \<times> int) option \<times> serial_source) option" where
  "read_serial_packet src = Option.bind (read_and_process True src) read_loop"

definition add_timeval :: "timeval \<Rightarrow> int \<Rightarrow> timeval" where
  "add_timeval tv us =
     (let sec = fst tv + us div 1000000; usec = snd tv + us mod 1000000
      in if usec > 1000000 then (sec + 1, usec - 1000000) else (sec, usec))"

partial_function (option) ack_loop :: "timeval \<Rightarrow> serial_source \<Rightarrow> (int \<times> serial_source) option" where
  "ack_loop deadline src = do {
     src \<leftarrow> read_and_process True src;
     case pop_protocol_packet P_ACK src of
       (Some entry, src) \<Rightarrow> do {
         acked \<leftarrow> rd8 (fst entry) 0;
         if acked = s_seqno src then Some (0, src) else ack_loop deadline src
       }
     | (None, src) \<Rightarrow> do {
         (rc, src) \<leftarrow> source_wait (Some deadline) src;
         if rc < 0 then Some (1, src) else ack_loop deadline src
       }
   }"

definition write_serial_packet :: "bytes \<Rightarrow> int \<Rightarrow> serial_source \<Rightarrow> (int \<times> serial_source) option" where
  "write_serial_packet packet len src = do {
     let src = src\<lparr>s_seqno := s_seqno src + 1\<rparr>;
     (rc, src) \<leftarrow> write_framed_packet P_PACKET_ACK (s_seqno src) packet len src;
     if rc < 0 then Some (-1, src)
     else do {
       (now, src) \<leftarrow> gettimeofday src;
       ack_loop (add_timeval now ACK_TIMEOUT) src
     }
   }"

end
