(* ===== verification/SerialSourceProps.thy ===== *)
theory SerialSourceProps
  imports SerialSource
begin

text \<open>
  What the serial protocol guarantees: frames go through whatever chunks the line delivers them in,
  a packet is acknowledged and handed on unchanged, corrupted bytes are noticed, and no stream of
  bytes makes the receiver leave its buffers.
\<close>

section \<open>The frame of a list of bytes\<close>

definition stuff_byte :: "u8 \<Rightarrow> bytes" where
  "stuff_byte b = (if b = SYNC_BYTE \<or> b = ESCAPE_BYTE then [ESCAPE_BYTE, b XOR 0x20] else [b])"

definition stuff :: "bytes \<Rightarrow> bytes" where
  "stuff bs = concat (map stuff_byte bs)"

definition crc_bytes :: "bytes \<Rightarrow> bytes" where
  "crc_bytes data = [ucast (crc_packet data), ucast (drop_bit 8 (crc_packet data))]"

definition framed :: "bytes \<Rightarrow> bytes" where
  "framed data = SYNC_BYTE # stuff (data @ crc_bytes data) @ [SYNC_BYTE]"

lemma stuff_simps [simp]: "stuff [] = []" "stuff (b # bs) = stuff_byte b @ stuff bs"
  "stuff (xs @ ys) = stuff xs @ stuff ys"
  by (simp_all add: stuff_def)

lemma length_stuff: "length (stuff bs) \<le> 2 * length bs"
  by (induction bs) (auto simp: stuff_byte_def)

section \<open>Writing a frame\<close>

text \<open>The answers of \<open>write\<close> take all of \<open>n\<close> bytes.\<close>

fun takes_all :: "nat \<Rightarrow> write_answer list \<Rightarrow> bool" where
  "takes_all n [] \<longleftrightarrow> n = 0"
| "takes_all n (Wr_error e # ws) \<longleftrightarrow> n = 0 \<or> e = EINTR \<and> takes_all n ws"
| "takes_all n (Wr k # ws) \<longleftrightarrow> n = 0 \<or> k \<le> n \<and> takes_all (n - k) ws"

lemma write_loop_all:
  assumes "takes_all (length buf) ws"
  shows "\<exists>ws'. write_loop buf actual src ws =
    Some (actual + int (length buf), src\<lparr>os_out := os_out src @ buf, os_writes := ws'\<rparr>)"
  using assms
proof (induction buf actual src ws rule: write_loop.induct)
  case (4 b bs actual src n ws)
  from 4 show ?case by (cases "n \<le> length (b # bs)") (auto simp: of_nat_diff)
qed (auto split: if_splits)

text \<open>States that differ only in what sending changes.\<close>

definition tx_same :: "serial_source \<Rightarrow> serial_source \<Rightarrow> bool" where
  "tx_same src src' \<longleftrightarrow>
     src' = src\<lparr>os_mallocs := os_mallocs src', os_fcntls := os_fcntls src', os_writes := os_writes src', os_out := os_out src',
       msgs := msgs src', s_escaped := s_escaped src', s_room := s_room src', s_crc := s_crc src'\<rparr>"

lemma tx_same_fields:
  assumes "tx_same src src'"
  shows "queue src' = queue src" "in_sync src' = in_sync src" "r_escaped src' = r_escaped src" "r_count src' = r_count src"
    "r_packet src' = r_packet src" "r_buffer src' = r_buffer src" "bufpos src' = bufpos src" "bufused src' = bufused src"
    "os_reads src' = os_reads src" "s_seqno src' = s_seqno src" "os_clock src' = os_clock src"
    "non_blocking src' = non_blocking src"
  using assms unfolding tx_same_def by (cases src, cases src', simp)+

lemma tx_same_trans: "tx_same a b \<Longrightarrow> tx_same b c \<Longrightarrow> tx_same a c"
  unfolding tx_same_def by (cases a, cases b, cases c) simp

lemma source_write_all:
  assumes "takes_all (length buf) (os_writes src)" and "os_fcntls src = True # f # fs"
  shows "\<exists>src'. source_write buf src = Some (int (length buf), src') \<and> os_out src' = os_out src @ buf \<and>
    os_mallocs src' = os_mallocs src \<and> tx_same src src'"
proof -
  from write_loop_all [of buf "os_writes src" 0 "src\<lparr>os_fcntls := f # fs\<rparr>"] assms(1)
  obtain ws' where "write_loop buf 0 (src\<lparr>os_fcntls := f # fs\<rparr>) (os_writes src) =
      Some (int (length buf), (src\<lparr>os_fcntls := f # fs\<rparr>)\<lparr>os_out := os_out src @ buf, os_writes := ws'\<rparr>)" by auto
  then show ?thesis using assms(2) by (simp add: source_write_def os_fcntl_def message_def tx_same_def)
qed

text \<open>The escaper: what it appends, and the CRC it keeps.\<close>

definition esc_out :: "serial_source \<Rightarrow> bytes \<Rightarrow> serial_source" where
  "esc_out src bs = src\<lparr>s_escaped := s_escaped src @ stuff bs, s_crc := foldl crc_byte (s_crc src) bs\<rparr>"

lemma escape_byte_out:
  assumes "int (length (s_escaped src)) + 2 \<le> s_room src"
  shows "escape_byte b src = Some (esc_out src [b])"
  using assms by (simp add: escape_byte_def escape_add_def esc_out_def stuff_byte_def Let_def)

lemma escape_bytes_out:
  assumes "int (length (s_escaped src)) + 2 * int (length bs) \<le> s_room src"
  shows "escape_bytes bs src = Some (esc_out src bs)"
  using assms
proof (induction bs arbitrary: src)
  case Nil
  then show ?case by (simp add: esc_out_def)
next
  case (Cons b bs)
  have "length (stuff_byte b) \<le> 2" by (simp add: stuff_byte_def)
  then have "int (length (s_escaped (esc_out src [b]))) + 2 * int (length bs) \<le> s_room (esc_out src [b])"
    using Cons.prems by (simp add: esc_out_def)
  from Cons.IH [OF this] Cons.prems show ?case
    by (simp add: escape_byte_out) (simp add: esc_out_def)
qed

lemma array_prefix_take:
  "0 \<le> count \<Longrightarrow> count \<le> int (length p) \<Longrightarrow> array_prefix p count = Some (take (nat count) p)"
  by (auto simp: array_prefix_def rdz_def rdn_def)

text \<open>The frame fits the escape buffer and goes to \<open>source_write\<close>.\<close>

lemma write_framed_packet_frame:
  assumes data: "data = t # s # take (nat count) p" and count: "0 \<le> count" "count \<le> int (length p)"
    and os: "os_mallocs src = True # ms"
  shows "\<exists>src1. write_framed_packet t s p count src =
      Option.bind (source_write (framed data) src1) (\<lambda>(n, src). Some (if n < 0 then -1 else 0, src)) \<and>
    os_fcntls src1 = os_fcntls src \<and> os_writes src1 = os_writes src \<and> os_out src1 = os_out src \<and> os_mallocs src1 = ms \<and>
    tx_same src src1"
proof -
  define src0 where "src0 = src\<lparr>os_mallocs := ms, s_escaped := [SYNC_BYTE], s_room := count * 2 + 10, s_crc := 0\<rparr>"
  have init: "init_escaper (count + 4) src = Some (True, src0)"
    using os count(1) by (simp add: init_escaper_def os_malloc_def escape_add_def src0_def)
  have n: "int (length data) = count + 2" using data count by simp
  have esc: "escape_byte t src0 = Some (esc_out src0 [t])"
    "escape_byte s (esc_out src0 [t]) = Some (esc_out src0 [t, s])"
    "escape_bytes (take (nat count) p) (esc_out src0 [t, s]) = Some (esc_out src0 data)"
    using count by (auto simp: escape_byte_out escape_bytes_out esc_out_def src0_def stuff_byte_def data)
  have len: "length (stuff bs) \<le> 2 * length bs" for bs by (rule length_stuff)
  define crc where "crc = crc_packet data"
  have crc: "s_crc (esc_out src0 data) = crc" by (simp add: esc_out_def crc_def crc_packet_def src0_def)
  have two: "escape_byte (ucast crc) (esc_out src0 data) = Some (esc_out src0 (data @ [ucast crc]))"
    "escape_byte (ucast (drop_bit 8 crc)) (esc_out src0 (data @ [ucast crc])) = Some (esc_out src0 (data @ crc_bytes data))"
    using len [of data] len [of "data @ [ucast crc]"] n
    by (auto simp: escape_byte_out esc_out_def src0_def crc_bytes_def crc_def [symmetric])
  define src1 where "src1 = (esc_out src0 (data @ crc_bytes data))\<lparr>s_escaped := framed data\<rparr>"
  have "terminate_escaper (esc_out src0 (data @ crc_bytes data)) = Some src1"
    using len [of "data @ crc_bytes data"] n
    by (simp add: terminate_escaper_def escape_add_def src1_def esc_out_def src0_def framed_def crc_bytes_def)
  moreover have "s_escaped src1 = framed data" "os_fcntls src1 = os_fcntls src" "os_writes src1 = os_writes src"
    "os_out src1 = os_out src" "os_mallocs src1 = ms" "tx_same src src1"
    by (simp_all add: src1_def esc_out_def src0_def tx_same_def)
  ultimately show ?thesis
    using count
    by (intro exI [of _ src1]) (simp add: write_framed_packet_def init esc array_prefix_take Let_def crc two)
qed

lemma write_framed_packet_out:
  assumes data: "data = t # s # take (nat count) p" and count: "0 \<le> count" "count \<le> int (length p)"
    and os: "os_mallocs src = True # ms" "os_fcntls src = True # f # fs" "takes_all (length (framed data)) (os_writes src)"
  shows "\<exists>src'. write_framed_packet t s p count src = Some (0, src') \<and> os_out src' = os_out src @ framed data \<and>
    os_mallocs src' = ms \<and> tx_same src src'"
proof -
  from write_framed_packet_frame [OF data count os(1)] obtain src1 where
    1: "write_framed_packet t s p count src =
      Option.bind (source_write (framed data) src1) (\<lambda>(n, src). Some (if n < 0 then -1 else 0, src))"
    "os_fcntls src1 = True # f # fs" "takes_all (length (framed data)) (os_writes src1)" "os_out src1 = os_out src"
    "os_mallocs src1 = ms" "tx_same src src1"
    using os by auto
  from source_write_all [OF 1(3,2)] 1(4,5) obtain src' where
    "source_write (framed data) src1 = Some (int (length (framed data)), src')" "os_out src' = os_out src @ framed data"
    "os_mallocs src' = ms" "tx_same src1 src'" by auto
  then show ?thesis using 1(1,6) tx_same_trans by auto
qed

section \<open>Reading the line\<close>

text \<open>What is still to be read: the rest of the buffer, then the chunks \<open>read\<close> will give.\<close>

definition chunk :: "read_answer \<Rightarrow> bytes" where
  "chunk a = (case a of Rd bs \<Rightarrow> bs | Rd_error _ \<Rightarrow> [])"

definition line_ok :: "serial_source \<Rightarrow> bool" where
  "line_ok src \<longleftrightarrow> bufpos src \<le> bufused src \<and> bufused src \<le> length (r_buffer src) \<and>
     (\<forall>a \<in> set (os_reads src). chunk a \<noteq> [] \<and> length (chunk a) \<le> BUFSIZE)"

definition pending :: "serial_source \<Rightarrow> bytes" where
  "pending src = drop (bufpos src) (take (bufused src) (r_buffer src)) @ concat (map chunk (os_reads src))"

text \<open>States that differ only in what reception moves: the line, its buffer and the frame being
  received.\<close>

definition rx_same :: "serial_source \<Rightarrow> serial_source \<Rightarrow> bool" where
  "rx_same src src' \<longleftrightarrow>
     src' = src\<lparr>os_reads := os_reads src', r_buffer := r_buffer src', bufpos := bufpos src', bufused := bufused src',
       r_packet := r_packet src', r_count := r_count src', r_escaped := r_escaped src'\<rparr>"

lemma rx_same_refl: "rx_same src src"
  by (simp add: rx_same_def)

lemma rx_same_trans: "rx_same a b \<Longrightarrow> rx_same b c \<Longrightarrow> rx_same a c"
  unfolding rx_same_def by (cases a, cases b, cases c) simp

lemma rx_same_fields:
  assumes "rx_same src src'"
  shows "queue src' = queue src" "in_sync src' = in_sync src" "os_mallocs src' = os_mallocs src"
    "os_fcntls src' = os_fcntls src" "os_writes src' = os_writes src" "os_out src' = os_out src"
    "s_seqno src' = s_seqno src" "os_clock src' = os_clock src" "non_blocking src' = non_blocking src"
  using assms unfolding rx_same_def by (cases src, cases src', simp)+

lemma read_byte_pending:
  assumes "line_ok src" and "pending src = b # bs"
  shows "\<exists>src'. read_byte True src = Some (Some b, src') \<and> rx_same src src' \<and> line_ok src' \<and> pending src' = bs \<and>
    r_packet src' = r_packet src \<and> r_count src' = r_count src \<and> r_escaped src' = r_escaped src"
proof (cases "bufpos src < bufused src")
  case True
  then have pos: "bufpos src < length (r_buffer src)" using assms(1) by (simp add: line_ok_def)
  then have "drop (bufpos src) (take (bufused src) (r_buffer src)) =
      r_buffer src ! bufpos src # drop (Suc (bufpos src)) (take (bufused src) (r_buffer src))"
    using True Cons_nth_drop_Suc [of "bufpos src" "take (bufused src) (r_buffer src)"] by simp
  then show ?thesis
    using assms True pos
    by (intro exI [of _ "src\<lparr>bufpos := bufpos src + 1\<rparr>"])
      (auto simp: read_byte_def pending_def rd8_def line_ok_def rx_same_def)
next
  case False
  then have "concat (map chunk (os_reads src)) = b # bs" using assms(2) by (simp add: pending_def)
  then obtain a as where a: "os_reads src = a # as" by (cases "os_reads src") auto
  then obtain c cs where c: "a = Rd (c # cs)" and len: "length (c # cs) \<le> BUFSIZE"
    using assms(1) by (cases a) (auto simp: line_ok_def chunk_def neq_Nil_conv)
  have bc: "b = c" "bs = cs @ concat (map chunk as)"
    using assms(2) False a c by (simp_all add: pending_def chunk_def)
  have ok: "\<forall>a \<in> set as. chunk a \<noteq> [] \<and> length (chunk a) \<le> BUFSIZE"
    using assms(1) a by (simp add: line_ok_def)
  define src1 where "src1 = src\<lparr>os_reads := as, r_buffer := (c # cs) @ drop (length (c # cs)) (r_buffer src),
      bufpos := 0, bufused := length (c # cs)\<rparr>"
  have "fill_buffer True src = Some (True, src1)"
    using a c len by (subst fill_buffer.simps) (simp add: serial_read_def os_read_def src1_def)
  then have "read_byte True src = Some (Some b, src1\<lparr>bufpos := 1\<rparr>)"
    using False bc by (simp add: read_byte_def src1_def rd8_def)
  moreover have "line_ok (src1\<lparr>bufpos := 1\<rparr>)" using ok by (simp add: line_ok_def src1_def)
  moreover have "pending (src1\<lparr>bufpos := 1\<rparr>) = bs" by (simp add: pending_def src1_def bc)
  moreover have "rx_same src (src1\<lparr>bufpos := 1\<rparr>)" by (simp add: rx_same_def src1_def)
  ultimately show ?thesis by (intro exI [of _ "src1\<lparr>bufpos := 1\<rparr>"]) (simp add: src1_def)
qed

section \<open>Receiving the bytes of a frame\<close>

text \<open>The receiver is inside a frame and has its bytes \<open>c\<close>.\<close>

definition receiving :: "bytes \<Rightarrow> serial_source \<Rightarrow> bool" where
  "receiving c src \<longleftrightarrow> in_sync src \<and> \<not> r_escaped src \<and> r_count src = int (length c) \<and>
     length (r_packet src) = nat MTU \<and> take (length c) (r_packet src) = c"

lemma store_byte_at:
  assumes "r_count src = int (length c)" "length (r_packet src) = nat MTU" "take (length c) (r_packet src) = c"
    and "length c < nat MTU"
  shows "\<exists>p. store_byte b src = Some (src\<lparr>r_packet := p, r_count := int (length (c @ [b]))\<rparr>) \<and>
    length p = nat MTU \<and> take (length (c @ [b])) p = c @ [b]"
  using assms
  by (intro exI [of _ "c @ b # drop (Suc (length c)) (r_packet src)"])
    (simp add: store_byte_def wrz_def wrn_def MTU_def ac_simps)

lemma receive_plain:
  assumes "receiving c src" and "length c < 255" and "b \<noteq> SYNC_BYTE" "b \<noteq> ESCAPE_BYTE"
  shows "\<exists>src'. receive_byte b src = Some (False, src') \<and> receiving (c @ [b]) src' \<and> rx_same src src' \<and>
    line_ok src' = line_ok src \<and> pending src' = pending src"
proof -
  obtain p where p: "store_byte b src = Some (src\<lparr>r_packet := p, r_count := int (length (c @ [b]))\<rparr>)"
    "length p = nat MTU" "take (length (c @ [b])) p = c @ [b]"
    using store_byte_at [of src c b] assms by (auto simp: receiving_def MTU_def)
  then show ?thesis
    using assms by (simp add: receive_byte_def receiving_def MTU_def rx_same_def line_ok_def pending_def)
qed

lemma receive_escaped:
  assumes "receiving c (src\<lparr>r_escaped := False\<rparr>)" and "r_escaped src" and "length c < 255" and "b \<noteq> SYNC_BYTE"
  shows "\<exists>src'. receive_byte b src = Some (False, src') \<and> receiving (c @ [b XOR 0x20]) src' \<and> rx_same src src' \<and>
    line_ok src' = line_ok src \<and> pending src' = pending src"
proof -
  obtain p where p: "store_byte (b XOR 0x20) (src\<lparr>r_escaped := False\<rparr>) =
      Some (src\<lparr>r_escaped := False, r_packet := p, r_count := int (length (c @ [b XOR 0x20]))\<rparr>)"
    "length p = nat MTU" "take (length (c @ [b XOR 0x20])) p = c @ [b XOR 0x20]"
    using store_byte_at [of "src\<lparr>r_escaped := False\<rparr>" c "b XOR 0x20"] assms by (auto simp: receiving_def MTU_def)
  then show ?thesis
    using assms by (simp add: receive_byte_def receiving_def MTU_def rx_same_def line_ok_def pending_def)
qed

text \<open>One turn of the loop that takes a byte off the line without ending a frame.\<close>

lemma read_and_process_step:
  assumes "line_ok src" and "pending src = b # rest"
    and step: "\<And>src1. rx_same src src1 \<Longrightarrow> r_packet src1 = r_packet src \<Longrightarrow> r_count src1 = r_count src \<Longrightarrow>
      r_escaped src1 = r_escaped src \<Longrightarrow> \<exists>src2. receive_byte b src1 = Some (False, src2) \<and> P src1 src2 \<and>
        line_ok src2 = line_ok src1 \<and> pending src2 = pending src1"
  shows "\<exists>src1 src2. read_and_process True src = read_and_process True src2 \<and> rx_same src src1 \<and> P src1 src2 \<and>
    line_ok src2 \<and> pending src2 = rest"
proof -
  obtain src1 where 1: "read_byte True src = Some (Some b, src1)" "rx_same src src1" "line_ok src1" "pending src1 = rest"
    "r_packet src1 = r_packet src" "r_count src1 = r_count src" "r_escaped src1 = r_escaped src"
    using read_byte_pending [OF assms(1,2)] by blast
  obtain src2 where 2: "receive_byte b src1 = Some (False, src2)" "P src1 src2" "line_ok src2" "pending src2 = rest"
    using step [OF 1(2,5,6,7)] 1(3,4) by blast
  have "read_and_process True src = read_and_process True src2"
    by (subst read_and_process.simps) (simp add: 1(1) 2(1))
  then show ?thesis using 1(2) 2 by blast
qed

lemma receiving_cong:
  "rx_same src src1 \<Longrightarrow> r_packet src1 = r_packet src \<Longrightarrow> r_count src1 = r_count src \<Longrightarrow>
     r_escaped src1 = r_escaped src \<Longrightarrow> receiving c src1 = receiving c src"
  by (simp add: receiving_def rx_same_fields)

lemma receive_stuffed_byte:
  assumes "line_ok src" and "pending src = stuff_byte b @ rest" and "receiving c src" and "length c < 255"
  shows "\<exists>src'. read_and_process True src = read_and_process True src' \<and> receiving (c @ [b]) src' \<and>
    rx_same src src' \<and> line_ok src' \<and> pending src' = rest"
proof (cases "b = SYNC_BYTE \<or> b = ESCAPE_BYTE")
  case False
  then have p: "pending src = b # rest" using assms(2) by (simp add: stuff_byte_def)
  have "\<exists>src1 src2. read_and_process True src = read_and_process True src2 \<and> rx_same src src1 \<and>
      (receiving (c @ [b]) src2 \<and> rx_same src1 src2) \<and> line_ok src2 \<and> pending src2 = rest"
  proof (rule read_and_process_step [OF assms(1) p])
    fix src1
    assume "rx_same src src1" "r_packet src1 = r_packet src" "r_count src1 = r_count src" "r_escaped src1 = r_escaped src"
    then have "receiving c src1" using receiving_cong assms(3) by blast
    from receive_plain [OF this assms(4)] False
    show "\<exists>src2. receive_byte b src1 = Some (False, src2) \<and> (receiving (c @ [b]) src2 \<and> rx_same src1 src2) \<and>
        line_ok src2 = line_ok src1 \<and> pending src2 = pending src1" by blast
  qed
  then show ?thesis using rx_same_trans by blast
next
  case True
  then have p: "pending src = ESCAPE_BYTE # (b XOR 0x20) # rest" using assms(2) by (simp add: stuff_byte_def)
  have "\<exists>src1 src2. read_and_process True src = read_and_process True src2 \<and> rx_same src src1 \<and>
      (rx_same src1 src2 \<and> r_escaped src2 \<and> receiving c (src2\<lparr>r_escaped := False\<rparr>)) \<and>
      line_ok src2 \<and> pending src2 = (b XOR 0x20) # rest"
  proof (rule read_and_process_step [OF assms(1) p])
    fix src1
    assume "rx_same src src1" "r_packet src1 = r_packet src" "r_count src1 = r_count src" "r_escaped src1 = r_escaped src"
    then have "receiving c src1" using receiving_cong assms(3) by blast
    then show "\<exists>src2. receive_byte ESCAPE_BYTE src1 = Some (False, src2) \<and>
        (rx_same src1 src2 \<and> r_escaped src2 \<and> receiving c (src2\<lparr>r_escaped := False\<rparr>)) \<and>
        line_ok src2 = line_ok src1 \<and> pending src2 = pending src1"
      using assms(4)
      by (intro exI [of _ "src1\<lparr>r_escaped := True\<rparr>"])
        (simp add: receive_byte_def receiving_def MTU_def rx_same_def line_ok_def pending_def)
  qed
  then obtain src1 src2 where 2: "read_and_process True src = read_and_process True src2" "rx_same src src2"
    "r_escaped src2" "receiving c (src2\<lparr>r_escaped := False\<rparr>)" "line_ok src2" "pending src2 = (b XOR 0x20) # rest"
    using rx_same_trans by blast
  have neq: "b XOR 0x20 \<noteq> SYNC_BYTE" "(b XOR 0x20) XOR 0x20 = b"
    using True by (auto simp: serial_consts)
  have "\<exists>src3 src4. read_and_process True src2 = read_and_process True src4 \<and> rx_same src2 src3 \<and>
      (receiving (c @ [b]) src4 \<and> rx_same src3 src4) \<and> line_ok src4 \<and> pending src4 = rest"
  proof (rule read_and_process_step [OF 2(5,6)])
    fix src3
    assume r: "rx_same src2 src3" "r_packet src3 = r_packet src2" "r_count src3 = r_count src2" "r_escaped src3 = r_escaped src2"
    then have "receiving c (src3\<lparr>r_escaped := False\<rparr>)" "r_escaped src3"
      using 2(3,4) by (simp_all add: receiving_def rx_same_fields)
    from receive_escaped [OF this assms(4) neq(1)] neq(2)
    show "\<exists>src4. receive_byte (b XOR 0x20) src3 = Some (False, src4) \<and>
        (receiving (c @ [b]) src4 \<and> rx_same src3 src4) \<and> line_ok src4 = line_ok src3 \<and> pending src4 = pending src3"
      by auto
  qed
  then show ?thesis unfolding 2(1) using 2(2) rx_same_trans by blast
qed

lemma receive_stuffed:
  assumes "line_ok src" and "pending src = stuff bs @ rest" and "receiving c src" and "length c + length bs \<le> 255"
  shows "\<exists>src'. read_and_process True src = read_and_process True src' \<and> receiving (c @ bs) src' \<and>
    rx_same src src' \<and> line_ok src' \<and> pending src' = rest"
  using assms
proof (induction bs arbitrary: c src)
  case Nil
  then show ?case using rx_same_refl by auto
next
  case (Cons b bs)
  from receive_stuffed_byte [of src b "stuff bs @ rest" c] Cons.prems
  obtain src1 where 1: "read_and_process True src = read_and_process True src1" "receiving (c @ [b]) src1"
    "rx_same src src1" "line_ok src1" "pending src1 = stuff bs @ rest" by auto
  from Cons.IH [OF 1(4,5,2)] Cons.prems(4) obtain src2 where
    "read_and_process True src1 = read_and_process True src2" "receiving ((c @ [b]) @ bs) src2" "rx_same src1 src2"
    "line_ok src2" "pending src2 = rest" by auto
  with 1 rx_same_trans show ?case by auto
qed

section \<open>A whole frame\<close>

text \<open>What reception leaves alone.\<close>

definition rx_keeps :: "serial_source \<Rightarrow> serial_source \<Rightarrow> bool" where
  "rx_keeps src src' \<longleftrightarrow> queue src' = queue src \<and> os_fcntls src' = os_fcntls src \<and> os_writes src' = os_writes src \<and>
     os_out src' = os_out src \<and> s_seqno src' = s_seqno src \<and> os_clock src' = os_clock src \<and>
     non_blocking src' = non_blocking src"

lemma rx_same_keeps: "rx_same src src' \<Longrightarrow> rx_keeps src src' \<and> os_mallocs src' = os_mallocs src"
  by (simp add: rx_keeps_def rx_same_fields)

lemma rx_keeps_trans: "rx_keeps a b \<Longrightarrow> rx_keeps b c \<Longrightarrow> rx_keeps a c"
  by (simp add: rx_keeps_def)

lemma crc_bytes_join:
  "ucast (ucast (c :: u16) :: u8) OR push_bit 8 (ucast (ucast (drop_bit 8 c) :: u8)) = c"
  by (rule bit_word_eqI) (auto simp: bit_simps)

lemma end_of_frame_good:
  assumes "receiving (data @ crc_bytes data) src" and "2 \<le> length data" and "os_mallocs src = True # ms"
  shows "end_of_frame src =
    map_option (Pair True) (process_packet data (int (length data)) (src\<lparr>r_count := 0, os_mallocs := ms\<rparr>))"
proof -
  define n where "n = length data"
  have count: "r_count src = int (n + 2)" and len: "length (r_packet src) = 256" "n + 2 \<le> 256"
    and pre: "take (n + 2) (r_packet src) = data @ crc_bytes data"
    using assms(1) arg_cong [of _ _ length, of "take (length (data @ crc_bytes data)) (r_packet src)"]
    by (auto simp: receiving_def crc_bytes_def MTU_def n_def)
  have "take n (r_packet src) = take n (take (n + 2) (r_packet src))" by (simp add: min_def)
  also have "\<dots> = data" unfolding pre by (simp add: n_def)
  finally have data: "rdz (r_packet src) 0 (int n) = Some data" using len by (simp add: rdn_def)
  have "r_packet src ! n = take (n + 2) (r_packet src) ! n" by simp
  moreover have "r_packet src ! (n + 1) = take (n + 2) (r_packet src) ! (n + 1)" by simp
  ultimately have crc: "rd8 (r_packet src) n = Some (ucast (crc_packet data))"
    "rd8 (r_packet src) (n + 1) = Some (ucast (drop_bit 8 (crc_packet data)))"
    using len unfolding pre by (simp_all add: rd8_def crc_bytes_def n_def nth_append)
  have "int (n + 2) - 2 = int n" "nat (int (n + 2) - 2) = n" "nat (int (n + 2) - 1) = n + 1" by simp_all
  then show ?thesis
    using assms(2,3) data crc
    by (simp add: end_of_frame_def os_malloc_def Let_def count crc_bytes_join n_def [symmetric])
qed

definition idle :: "serial_source \<Rightarrow> bool" where
  "idle src \<longleftrightarrow> receiving [] src \<or> \<not> in_sync src \<and> length (r_packet src) = nat MTU"

lemma receive_content:
  assumes "line_ok src" and "pending src = SYNC_BYTE # stuff c @ SYNC_BYTE # rest" and "idle src" and "length c \<le> 255"
  shows "\<exists>src'. read_and_process True src =
      Option.bind (end_of_frame src') (\<lambda>(processed, s). if processed then Some s else read_and_process True s) \<and>
    receiving c src' \<and> rx_keeps src src' \<and> os_mallocs src' = os_mallocs src \<and> line_ok src' \<and> pending src' = rest"
proof -
  have "\<exists>src1 src2. read_and_process True src = read_and_process True src2 \<and> rx_same src src1 \<and>
      (receiving [] src2 \<and> rx_keeps src1 src2 \<and> os_mallocs src2 = os_mallocs src1) \<and> line_ok src2 \<and>
      pending src2 = stuff c @ SYNC_BYTE # rest"
  proof (rule read_and_process_step [OF assms(1,2)])
    fix src1
    assume r: "rx_same src src1" "r_packet src1 = r_packet src" "r_count src1 = r_count src" "r_escaped src1 = r_escaped src"
    show "\<exists>src2. receive_byte SYNC_BYTE src1 = Some (False, src2) \<and>
        (receiving [] src2 \<and> rx_keeps src1 src2 \<and> os_mallocs src2 = os_mallocs src1) \<and>
        line_ok src2 = line_ok src1 \<and> pending src2 = pending src1"
    proof (cases "in_sync src")
      case True
      then have "receiving [] src1" using assms(3) receiving_cong [OF r] by (simp add: idle_def)
      then show ?thesis
        by (simp add: receive_byte_def receiving_def MTU_def serial_consts end_of_frame_def rx_keeps_def line_ok_def
            pending_def)
    next
      case False
      then have "\<not> in_sync src1" "length (r_packet src1) = nat MTU"
        using assms(3) r rx_same_fields(2) [OF r(1)] by (auto simp: idle_def receiving_def)
      then show ?thesis
        by (simp add: receive_byte_def receiving_def message_def rx_keeps_def line_ok_def pending_def)
    qed
  qed
  then obtain src2 where 2: "read_and_process True src = read_and_process True src2" "receiving [] src2"
    "rx_keeps src src2" "os_mallocs src2 = os_mallocs src" "line_ok src2" "pending src2 = stuff c @ SYNC_BYTE # rest"
    using rx_same_keeps rx_keeps_trans by metis
  from receive_stuffed [OF 2(5,6,2)] assms(4) obtain src3 where 3:
    "read_and_process True src2 = read_and_process True src3" "receiving c src3"
    "rx_same src2 src3" "line_ok src3" "pending src3 = SYNC_BYTE # rest" by auto
  obtain src4 where 4: "read_byte True src3 = Some (Some SYNC_BYTE, src4)" "rx_same src3 src4" "line_ok src4"
    "pending src4 = rest" "r_packet src4 = r_packet src3" "r_count src4 = r_count src3" "r_escaped src4 = r_escaped src3"
    using read_byte_pending [OF 3(4,5)] by blast
  have rcv: "receiving c src4" using receiving_cong [OF 4(2,5-7)] 3(2) by simp
  then have "receive_byte SYNC_BYTE src4 = end_of_frame src4"
    using assms(4) by (simp add: receive_byte_def receiving_def MTU_def serial_consts)
  then have "read_and_process True src3 =
      Option.bind (end_of_frame src4) (\<lambda>(processed, s). if processed then Some s else read_and_process True s)"
    by (subst read_and_process.simps) (simp add: 4(1))
  moreover have "rx_keeps src src4 \<and> os_mallocs src4 = os_mallocs src"
    using 2(3,4) 3(3) 4(2) rx_same_keeps rx_keeps_trans by metis
  ultimately show ?thesis using 2(1) 3(1) 4(3,4) rcv by auto
qed

lemma receive_frame:
  assumes "line_ok src" and "pending src = framed data @ rest" and "idle src"
    and "2 \<le> length data" "length data \<le> 253" and "os_mallocs src = True # ms"
  shows "\<exists>src'. read_and_process True src = process_packet data (int (length data)) src' \<and> receiving [] src' \<and>
    rx_keeps src src' \<and> os_mallocs src' = ms \<and> line_ok src' \<and> pending src' = rest"
proof -
  have p: "pending src = SYNC_BYTE # stuff (data @ crc_bytes data) @ SYNC_BYTE # rest"
    using assms(2) by (simp add: framed_def)
  have "length (data @ crc_bytes data) \<le> 255" using assms(5) by (simp add: crc_bytes_def)
  from receive_content [OF assms(1) p assms(3) this] obtain src4 where 4:
    "read_and_process True src =
      Option.bind (end_of_frame src4) (\<lambda>(processed, s). if processed then Some s else read_and_process True s)"
    "receiving (data @ crc_bytes data) src4" "rx_keeps src src4" "os_mallocs src4 = True # ms" "line_ok src4" "pending src4 = rest"
    using assms(6) by auto
  define src5 where "src5 = src4\<lparr>r_count := 0, os_mallocs := ms\<rparr>"
  have "read_and_process True src = process_packet data (int (length data)) src5"
    unfolding 4(1) end_of_frame_good [OF 4(2) assms(4) 4(4)] src5_def [symmetric]
    by (cases "process_packet data (int (length data)) src5") simp_all
  moreover have "receiving [] src5" "rx_keeps src src5" "line_ok src5" "pending src5 = rest" "os_mallocs src5 = ms"
    using 4(2-) by (simp_all add: src5_def receiving_def rx_keeps_def line_ok_def pending_def)
  ultimately show ?thesis by blast
qed

section \<open>Handing packets on\<close>

text \<open>What \<open>memmove\<close> leaves in the memory of a packet whose first \<open>k\<close> bytes are dropped.\<close>

lemma move_to_front:
  assumes "k \<le> length packet" and "n = length packet"
  shows "Option.bind (rdz packet (int k) (int n - int k)) (wrn packet 0) = Some (drop k packet @ drop (n - k) packet)"
proof -
  have "rdz packet (int k) (int n - int k) = Some (drop k packet)"
    using assms by (simp add: rdz_def rdn_def)
  then show ?thesis using assms by (simp add: wrn_def)
qed

lemma u8_of_len: "n \<le> 255 \<Longrightarrow> uint (word_of_nat n :: u8) = int n"
  by (simp add: unsigned_of_nat take_bit_nat_eq_self)

text \<open>A packet that asks for an acknowledgement: the answer goes out, the rest is queued.\<close>

lemma process_packet_ack:
  assumes "os_mallocs src = True # True # ms" and "os_fcntls src = True # f # fs"
    and "takes_all (length (framed [P_ACK, seq])) (os_writes src)" and "length pl \<le> 251"
  shows "\<exists>src' mem. process_packet (P_PACKET_ACK # seq # pl) (int (length (P_PACKET_ACK # seq # pl))) src =
      Some (src'\<lparr>queue := (queue src)(P_PACKET_NO_ACK := queue src P_PACKET_NO_ACK @ [(mem, int (length pl))])\<rparr>) \<and>
    take (length pl) mem = pl \<and> os_out src' = os_out src @ framed [P_ACK, seq] \<and> tx_same src src'"
proof -
  let ?p = "P_PACKET_ACK # seq # pl"
  obtain src1 where 1: "write_framed_packet P_ACK seq [] 0 src = Some (0, src1)"
    "os_out src1 = os_out src @ framed [P_ACK, seq]" "os_mallocs src1 = True # ms" "tx_same src src1"
    using write_framed_packet_out [of "[P_ACK, seq]" P_ACK seq 0 "[]" src "True # ms"] assms by auto
  have move: "Option.bind (rdz ?p 2 (int (length pl))) (wrn ?p 0) = Some (pl @ drop (length pl) ?p)"
    using move_to_front [of 2 ?p "length ?p"] by simp
  then obtain moved where m: "rdz ?p 2 (int (length pl)) = Some moved" "wrn ?p 0 moved = Some (pl @ drop (length pl) ?p)"
    by (auto simp: bind_Some_iff)
  have "process_packet ?p (int (length ?p)) src = Some ((src1\<lparr>os_mallocs := ms\<rparr>)\<lparr>queue := (queue src)
      (P_PACKET_NO_ACK := queue src P_PACKET_NO_ACK @ [(pl @ drop (length pl) ?p, int (length pl))])\<rparr>)"
    using assms(4) 1 m
    by (simp add: process_packet_def rd8_def push_protocol_packet_def os_malloc_def u8_of_len tx_same_fields)
  moreover have "tx_same src (src1\<lparr>os_mallocs := ms\<rparr>)"
    using 1(4) unfolding tx_same_def by (cases src, cases src1) simp
  ultimately show ?thesis using 1(2) by (intro exI [of _ "src1\<lparr>os_mallocs := ms\<rparr>"]) auto
qed

lemma process_ack:
  assumes "os_mallocs src = True # ms"
  shows "\<exists>mem. process_packet [P_ACK, seq] 2 src =
      Some (src\<lparr>os_mallocs := ms, queue := (queue src)(P_ACK := queue src P_ACK @ [(seq # mem, 1)])\<rparr>)"
  using assms
  by (intro exI [of _ "[seq]"])
    (simp add: process_packet_def rd8_def push_protocol_packet_def os_malloc_def rdz_def rdn_def wrn_def serial_consts)

section \<open>Exchanging a packet\<close>

text \<open>The line delivers what the other side sends, in any chunks: \<open>pending\<close> of each side starts with
  what the other writes.\<close>

lemma serial_packet_received:
  assumes "line_ok b" "idle b" "pending b = framed (P_PACKET_ACK # seq # packet) @ rb" "queue b P_PACKET_NO_ACK = []"
    and "os_mallocs b = True # True # True # mb" "os_fcntls b = True # fb # fsb"
    and "takes_all (length (framed [P_ACK, seq])) (os_writes b)" and "length packet \<le> 251"
  shows "\<exists>b' mem. read_serial_packet b = Some (Some (mem, int (length packet)), b') \<and> take (length packet) mem = packet \<and>
    os_out b' = os_out b @ framed [P_ACK, seq]"
proof -
  let ?p = "P_PACKET_ACK # seq # packet"
  have "2 \<le> length ?p" "length ?p \<le> 253" using assms by simp_all
  from receive_frame [OF assms(1,3,2) this assms(5)] obtain b1 where
    1: "read_and_process True b = process_packet ?p (int (length ?p)) b1" "rx_keeps b b1" "os_mallocs b1 = True # True # mb"
    by blast
  have 2: "os_fcntls b1 = True # fb # fsb" "takes_all (length (framed [P_ACK, seq])) (os_writes b1)"
    "queue b1 P_PACKET_NO_ACK = []" "os_out b1 = os_out b"
    using 1(2) assms by (simp_all add: rx_keeps_def)
  from process_packet_ack [OF 1(3) 2(1,2), of packet] assms(8) 2(3,4) 1(1) obtain b2 mem where
    "read_and_process True b = Some (b2\<lparr>queue := (queue b1)(P_PACKET_NO_ACK := [(mem, int (length packet))])\<rparr>)"
    "take (length packet) mem = packet" "os_out b2 = os_out b @ framed [P_ACK, seq]" by auto
  then show ?thesis
    by (simp add: read_serial_packet_def) (subst read_loop.simps, simp add: pop_protocol_packet_def)
qed

text \<open>C22: When two hosts that are idle are joined by a line, the bytes each writes being what the other
  reads in whatever chunks, the one's \<open>write_serial_packet\<close> returns 0, acknowledged, and the other's
  \<open>read_serial_packet\<close> returns the same packet of at most 251 bytes; each sends exactly one frame.\<close>

theorem serial_packet_exchange:
  fixes a b :: serial_source
  defines "seq \<equiv> s_seqno a + 1"
  assumes sender: "line_ok a" "idle a" "pending a = framed [P_ACK, seq] @ ra" "queue a P_ACK = []"
      "os_mallocs a = True # True # True # ma" "os_fcntls a = True # fa # fsa" "os_clock a = now # ca"
      "takes_all (length (framed (P_PACKET_ACK # seq # packet))) (os_writes a)"
    and receiver: "line_ok b" "idle b" "pending b = framed (P_PACKET_ACK # seq # packet) @ rb" "queue b P_PACKET_NO_ACK = []"
      "os_mallocs b = True # True # True # mb" "os_fcntls b = True # fb # fsb"
      "takes_all (length (framed [P_ACK, seq])) (os_writes b)"
    and "length packet \<le> 251"
  shows "\<exists>a' b' mem. write_serial_packet packet (int (length packet)) a = Some (0, a') \<and>
    os_out a' = os_out a @ framed (P_PACKET_ACK # seq # packet) \<and>
    read_serial_packet b = Some (Some (mem, int (length packet)), b') \<and> take (length packet) mem = packet \<and>
    os_out b' = os_out b @ framed [P_ACK, seq]"
proof -
  let ?p = "P_PACKET_ACK # seq # packet"
  note serial_packet_received [OF receiver assms(17)]
  moreover have "\<exists>a'. write_serial_packet packet (int (length packet)) a = Some (0, a') \<and>
    os_out a' = os_out a @ framed ?p"
  proof -
    let ?a = "a\<lparr>s_seqno := seq\<rparr>"
    obtain a1 where 1: "write_framed_packet P_PACKET_ACK seq packet (int (length packet)) ?a = Some (0, a1)"
      "os_out a1 = os_out a @ framed ?p" "os_mallocs a1 = True # True # ma" "tx_same ?a a1"
      using write_framed_packet_out [of ?p P_PACKET_ACK seq "int (length packet)" packet ?a "True # True # ma"] sender
      by auto
    define a2 where "a2 = a1\<lparr>os_clock := ca\<rparr>"
    have 2: "line_ok a2" "idle a2" "pending a2 = framed [P_ACK, seq] @ ra" "queue a2 P_ACK = []" "s_seqno a2 = seq"
      "os_mallocs a2 = True # True # ma" "os_out a2 = os_out a @ framed ?p" "os_clock a1 = now # ca"
      using sender 1(2,3) tx_same_fields [OF 1(4)]
      by (simp_all add: a2_def line_ok_def idle_def receiving_def pending_def)
    from receive_frame [OF 2(1,3,2) _ _ 2(6)] obtain a3 where
      3: "read_and_process True a2 = process_packet [P_ACK, seq] 2 a3" "rx_keeps a2 a3" "os_mallocs a3 = True # ma" by auto
    from process_ack [OF 3(3), of seq] obtain mem where
      "read_and_process True a2 = Some (a3\<lparr>os_mallocs := ma, queue := (queue a3)(P_ACK := [(seq # mem, 1)])\<rparr>)"
      using 3(1,2) 2(4) by (auto simp: rx_keeps_def)
    moreover have "s_seqno a3 = seq" "os_out a3 = os_out a @ framed ?p" using 3(2) 2 by (simp_all add: rx_keeps_def)
    ultimately have "\<exists>a'. ack_loop d a2 = Some (0, a') \<and> os_out a' = os_out a @ framed ?p" for d
      by (subst ack_loop.simps) (simp add: pop_protocol_packet_def rd8_def)
    then show ?thesis
      using 1(1) 2(8)
      by (simp add: write_serial_packet_def Let_def seq_def [symmetric] gettimeofday_def a2_def)
  qed
  ultimately show ?thesis by blast
qed

section \<open>Corrupted bytes\<close>

text \<open>A step of the CRC loses nothing: the bit shifted out decides the lowest bit.\<close>

lemma crc_step_inj:
  fixes x y :: u16
  assumes "(if x AND 0x8000 \<noteq> 0 then push_bit 1 x XOR 0x1021 else push_bit 1 x) =
    (if y AND 0x8000 \<noteq> 0 then push_bit 1 y XOR 0x1021 else push_bit 1 y)"
  shows "x = y"
proof -
  let ?f = "\<lambda>x :: u16. if bit x 15 then push_bit 1 x XOR 0x1021 else push_bit 1 x"
  have top: "x AND 0x8000 \<noteq> 0 \<longleftrightarrow> bit x 15" for x :: u16
  proof -
    have "(0x8000 :: u16) = push_bit 15 1" by simp
    then show ?thesis by (simp only: bit_iff_and_push_bit_not_eq_0)
  qed
  have eq: "?f x = ?f y" using assms by (simp only: top)
  have zero: "bit (?f x) 0 \<longleftrightarrow> bit x 15" for x
    by (simp add: bit_simps del: One_nat_def)
  have b15: "bit x 15 = bit y 15" using zero [of x] zero [of y] eq by simp
  have p: "push_bit 1 x = push_bit 1 y"
  proof (cases "bit x 15")
    case True
    then have "(push_bit 1 x XOR 0x1021) XOR 0x1021 = (push_bit 1 y XOR 0x1021) XOR 0x1021" using eq b15 by simp
    then show ?thesis by (simp only: xor.assoc xor_self_eq xor.right_neutral)
  qed (use eq b15 in simp)
  show ?thesis
  proof (rule bit_word_eqI)
    fix n
    assume "n < LENGTH(16)"
    then have n: "n < 16" by simp
    show "bit x n = bit y n"
    proof (cases "n = 15")
      case False
      have "bit (push_bit 1 x) (Suc n) = bit (push_bit 1 y) (Suc n)" using p by simp
      then show ?thesis using n False by (simp add: bit_push_bit_iff del: One_nat_def)
    qed (use b15 in simp)
  qed
qed

lemma crc_bits_inj: "crc_bits n x = crc_bits n y \<Longrightarrow> x = y"
proof (induction n arbitrary: x y)
  case (Suc n)
  show ?case by (rule crc_step_inj) (rule Suc.IH [OF Suc.prems [unfolded crc_bits.simps]])
qed simp

lemma crc_byte_inj: "crc_byte c b = crc_byte c' b \<Longrightarrow> c = c'"
proof -
  assume "crc_byte c b = crc_byte c' b"
  then have "c XOR push_bit 8 (ucast b) = c' XOR push_bit 8 (ucast b)" by (auto simp: crc_byte_def dest: crc_bits_inj)
  then have "(c XOR push_bit 8 (ucast b)) XOR push_bit 8 (ucast b) = (c' XOR push_bit 8 (ucast b)) XOR push_bit 8 (ucast b)"
    by simp
  then show ?thesis by (simp only: xor.assoc xor_self_eq xor.right_neutral)
qed

lemma crc_byte_inj_byte: "crc_byte c b = crc_byte c b' \<Longrightarrow> b = b'"
proof -
  assume "crc_byte c b = crc_byte c b'"
  then have "c XOR push_bit 8 (ucast b) = c XOR push_bit 8 (ucast b')" by (auto simp: crc_byte_def dest: crc_bits_inj)
  then have "c XOR (c XOR push_bit 8 (ucast b)) = c XOR (c XOR push_bit 8 (ucast b'))" by simp
  then have p: "push_bit 8 (ucast b) = (push_bit 8 (ucast b') :: u16)"
    by (simp only: xor.assoc [symmetric] xor_self_eq xor.left_neutral)
  show ?thesis
  proof (rule bit_word_eqI)
    fix n
    assume "n < LENGTH(8)"
    moreover have "bit (push_bit 8 (ucast b) :: u16) (n + 8) = bit (push_bit 8 (ucast b') :: u16) (n + 8)" using p by simp
    ultimately show "bit b n = bit b' n" by (simp add: bit_simps)
  qed
qed

lemma foldl_crc_inj: "foldl crc_byte c bs = foldl crc_byte c' bs \<Longrightarrow> c = c'"
  by (induction bs arbitrary: c c') (auto dest: crc_byte_inj)

lemma crc_packet_update: "i < length data \<Longrightarrow> crc_packet (data[i := x]) = crc_packet data \<longleftrightarrow> x = data ! i"
proof
  assume i: "i < length data" and eq: "crc_packet (data[i := x]) = crc_packet data"
  have "data = take i data @ data ! i # drop (Suc i) data" using i by (rule id_take_nth_drop)
  then have "crc_packet data = foldl crc_byte (crc_byte (foldl crc_byte 0 (take i data)) (data ! i)) (drop (Suc i) data)"
    unfolding crc_packet_def by (metis foldl_Cons foldl_append)
  moreover have "crc_packet (data[i := x]) =
      foldl crc_byte (crc_byte (foldl crc_byte 0 (take i data)) x) (drop (Suc i) data)"
    using i by (simp add: crc_packet_def upd_conv_take_nth_drop)
  ultimately show "x = data ! i" using eq by (auto dest: foldl_crc_inj crc_byte_inj_byte)
qed simp

text \<open>The two bytes at the end of a frame stand for one CRC only.\<close>

lemma crc_bytes_unique:
  fixes lo hi :: u8
  assumes "ucast lo OR push_bit 8 (ucast hi) = (c :: u16)"
  shows "lo = ucast c" and "hi = ucast (drop_bit 8 c)"
  unfolding assms [symmetric]
  by (rule bit_word_eqI, auto simp: bit_simps dest: bit_imp_le_length, rule bit_word_eqI,
      auto simp: bit_simps dest: bit_imp_le_length)

lemma end_of_frame_bad:
  assumes "receiving (c[i := x]) src" and "c = data @ crc_bytes data" and "i < length c" and "x \<noteq> c ! i"
    and "2 \<le> length data" and "os_mallocs src = True # ms"
  shows "end_of_frame src = Some (False, message msg_bad_crc (src\<lparr>r_count := 0, os_mallocs := ms\<rparr>))"
proof -
  define n where "n = length data"
  have lc: "length c = n + 2" using assms(2) by (simp add: crc_bytes_def n_def)
  have count: "r_count src = int (n + 2)" and len: "length (r_packet src) = 256" "n + 2 \<le> 256"
    and pre: "take (n + 2) (r_packet src) = c[i := x]"
    using assms(1) lc arg_cong [of _ _ length, of "take (length (c[i := x])) (r_packet src)"]
    by (auto simp: receiving_def MTU_def)
  define data' where "data' = take n (c[i := x])"
  have "take n (r_packet src) = take n (take (n + 2) (r_packet src))" by (simp add: min_def)
  also have "\<dots> = data'" unfolding pre data'_def ..
  finally have data: "rdz (r_packet src) 0 (int n) = Some data'" using len by (simp add: rdn_def)
  have "r_packet src ! n = take (n + 2) (r_packet src) ! n" by simp
  moreover have "r_packet src ! (n + 1) = take (n + 2) (r_packet src) ! (n + 1)" by simp
  ultimately have crc: "rd8 (r_packet src) n = Some (c[i := x] ! n)" "rd8 (r_packet src) (n + 1) = Some (c[i := x] ! (n + 1))"
    using len unfolding pre by (simp_all add: rd8_def)
  have bad: "ucast (c[i := x] ! n) OR push_bit 8 (ucast (c[i := x] ! (n + 1))) \<noteq> crc_packet data'"
  proof
    assume eq: "ucast (c[i := x] ! n) OR push_bit 8 (ucast (c[i := x] ! (n + 1))) = crc_packet data'"
    show False
    proof (cases "i < n")
      case True
      then have "data' = data[i := x]" using assms(2) by (simp add: data'_def list_update_append n_def)
      moreover have "crc_packet data' = crc_packet data"
        using eq True crc_bytes_join [of "crc_packet data"] by (simp add: assms(2) nth_append n_def crc_bytes_def)
      ultimately show False using crc_packet_update [of i data x] True assms(2,4) by (simp add: n_def nth_append)
    next
      case False
      then have d: "data' = data" using assms(2) by (simp add: data'_def list_update_append n_def)
      from crc_bytes_unique [OF eq] have "c[i := x] ! n = c ! n" "c[i := x] ! (n + 1) = c ! (n + 1)"
        unfolding d by (simp_all add: assms(2) crc_bytes_def n_def nth_append)
      moreover have "i = n \<or> i = n + 1" using False assms(3) lc by arith
      ultimately show False using assms(3,4) lc by auto
    qed
  qed
  have "int (n + 2) - 2 = int n" "nat (int (n + 2) - 2) = n" "nat (int (n + 2) - 1) = n + 1" by simp_all
  then show ?thesis
    using assms(5,6) data crc bad by (simp add: end_of_frame_def os_malloc_def Let_def count n_def [symmetric])
qed

text \<open>C23: A well-delimited frame one byte of whose content, packet or CRC, is not the one that was sent
  is never taken for a packet: it is dropped, nothing is queued, and the frame that follows it is
  received as if it had not been there.\<close>

theorem corrupted_frame_dropped:
  assumes "line_ok src" and "idle src" and "c = data @ crc_bytes data" and "i < length c" and "x \<noteq> c ! i"
    and "2 \<le> length data" "length data \<le> 253" and "2 \<le> length data2" "length data2 \<le> 253"
    and "pending src = SYNC_BYTE # stuff (c[i := x]) @ SYNC_BYTE # framed data2 @ rest"
    and "os_mallocs src = True # True # ms"
  shows "\<exists>src'. read_and_process True src = process_packet data2 (int (length data2)) src' \<and> receiving [] src' \<and>
    queue src' = queue src \<and> os_mallocs src' = ms \<and> pending src' = rest"
proof -
  have "length (c[i := x]) \<le> 255" using assms(3,7) by (simp add: crc_bytes_def)
  from receive_content [OF assms(1,10,2) this] obtain src1 where 1:
    "read_and_process True src =
      Option.bind (end_of_frame src1) (\<lambda>(processed, s). if processed then Some s else read_and_process True s)"
    "receiving (c[i := x]) src1" "rx_keeps src src1" "os_mallocs src1 = True # True # ms" "line_ok src1"
    "pending src1 = framed data2 @ rest"
    using assms(11) by auto
  define src2 where "src2 = message msg_bad_crc (src1\<lparr>r_count := 0, os_mallocs := True # ms\<rparr>)"
  have "read_and_process True src = read_and_process True src2"
    unfolding 1(1) end_of_frame_bad [OF 1(2) assms(3-6) 1(4)] by (simp add: src2_def)
  moreover have 2: "line_ok src2" "pending src2 = framed data2 @ rest" "idle src2" "os_mallocs src2 = True # ms"
    "rx_keeps src src2"
    using 1(2-) by (simp_all add: src2_def message_def line_ok_def pending_def idle_def receiving_def rx_keeps_def)
  ultimately show ?thesis
    using receive_frame [OF 2(1-3) assms(8,9) 2(4)] by (auto simp: rx_keeps_def)
qed

section \<open>Safety\<close>

text \<open>The answers of \<open>write\<close> that end a write of \<open>n\<close> bytes, well or not.\<close>

fun settles :: "nat \<Rightarrow> write_answer list \<Rightarrow> bool" where
  "settles n [] \<longleftrightarrow> n = 0"
| "settles n (Wr_error e # ws) \<longleftrightarrow> n = 0 \<or> e \<noteq> EINTR \<or> settles n ws"
| "settles n (Wr k # ws) \<longleftrightarrow> n = 0 \<or> k \<le> n \<and> settles (n - k) ws"

lemma write_loop_settles:
  assumes "settles (length buf) ws"
  shows "\<exists>n src'. write_loop buf actual src ws = Some (n, src') \<and> os_mallocs src' = os_mallocs src \<and> os_fcntls src' = os_fcntls src \<and>
    tx_same src src'"
  using assms
proof (induction buf actual src ws rule: write_loop.induct)
  case (1 actual src ws)
  then show ?case by (simp add: tx_same_def)
next
  case (3 b bs actual src e ws)
  then show ?case by (auto simp: tx_same_def message_def)
next
  case (4 b bs actual src n ws)
  then have n: "n \<le> length (b # bs)" "settles (length (drop n (b # bs))) ws" by simp_all
  from 4(1) [OF n] obtain r src' where
    "write_loop (drop n (b # bs)) (actual + int n) (src\<lparr>os_out := os_out src @ take n (b # bs)\<rparr>) ws = Some (r, src')"
    "os_mallocs src' = os_mallocs src" "os_fcntls src' = os_fcntls src"
    "tx_same (src\<lparr>os_out := os_out src @ take n (b # bs)\<rparr>) src'" by auto
  moreover from this(4) have "tx_same src src'" by (simp add: tx_same_def)
  ultimately show ?case using n(1) by auto
qed simp

lemma source_write_settles:
  assumes "settles (length buf) (os_writes src)" and "2 \<le> length (os_fcntls src)"
  shows "\<exists>n src'. source_write buf src = Some (n, src') \<and> os_mallocs src' = os_mallocs src \<and> tx_same src src'"
proof -
  obtain f g fs where f: "os_fcntls src = f # g # fs"
    using assms(2) by (cases "os_fcntls src"; cases "tl (os_fcntls src)") auto
  show ?thesis
  proof (cases f)
    case False
    then show ?thesis by (simp add: source_write_def os_fcntl_def f message_def tx_same_def)
  next
    case True
    let ?s = "src\<lparr>os_fcntls := g # fs\<rparr>"
    obtain n src1 where 1: "write_loop buf 0 ?s (os_writes ?s) = Some (n, src1)"
      "os_mallocs src1 = os_mallocs ?s" "os_fcntls src1 = os_fcntls ?s" "tx_same ?s src1"
      using write_loop_settles [of buf "os_writes ?s" 0 ?s] assms(1) by auto
    define src2 where "src2 = (if g then src1\<lparr>os_fcntls := fs\<rparr> else message msg_unix_error (src1\<lparr>os_fcntls := fs\<rparr>))"
    have "source_write buf src = Some (n, src2)"
      using True 1 by (simp add: source_write_def os_fcntl_def f src2_def)
    moreover have "os_mallocs src2 = os_mallocs src" using 1(2) by (simp add: src2_def message_def)
    moreover have "tx_same src ?s" "tx_same src1 src2" by (simp_all add: tx_same_def src2_def message_def)
    then have "tx_same src src2" using 1(4) tx_same_trans by blast
    ultimately show ?thesis by blast
  qed
qed

text \<open>An acknowledgement is sent, or not, without touching the receiver.\<close>

lemma send_ack_returns:
  assumes "1 \<le> length (os_mallocs src)" and "2 \<le> length (os_fcntls src)" and "settles (length (framed [P_ACK, seq])) (os_writes src)"
  shows "\<exists>rc src'. write_framed_packet P_ACK seq [] 0 src = Some (rc, src') \<and> os_mallocs src' = tl (os_mallocs src) \<and>
    tx_same src src'"
proof (cases "hd (os_mallocs src)")
  case False
  then obtain ms where "os_mallocs src = False # ms" using assms(1) by (cases "os_mallocs src") auto
  then show ?thesis
    by (simp add: write_framed_packet_def init_escaper_def os_malloc_def message_def tx_same_def)
next
  case True
  then obtain ms where ms: "os_mallocs src = True # ms" using assms(1) by (cases "os_mallocs src") auto
  from write_framed_packet_frame [of "[P_ACK, seq]" P_ACK seq 0 "[]", OF _ _ _ ms] obtain src1 where
    1: "write_framed_packet P_ACK seq [] 0 src =
      Option.bind (source_write (framed [P_ACK, seq]) src1) (\<lambda>(n, src). Some (if n < 0 then -1 else 0, src))"
    "os_fcntls src1 = os_fcntls src" "os_writes src1 = os_writes src" "os_mallocs src1 = ms" "tx_same src src1"
    by auto
  obtain n src' where "source_write (framed [P_ACK, seq]) src1 = Some (n, src')" "os_mallocs src' = ms" "tx_same src1 src'"
    using source_write_settles [of "framed [P_ACK, seq]" src1] assms(2,3) 1(2-4) by auto
  then show ?thesis using 1(1,5) ms tx_same_trans by auto
qed

text \<open>The receiver's array and its count.\<close>

definition rx_wf :: "serial_source \<Rightarrow> bool" where
  "rx_wf src \<longleftrightarrow> length (r_packet src) = 256 \<and> 0 \<le> r_count src \<and> r_count src \<le> 256"

definition queued :: "serial_source \<Rightarrow> serial_source \<Rightarrow> bool" where
  "queued src src' \<longleftrightarrow> queue src' = queue src \<or>
     (\<exists>t mem n. queue src' = (queue src)(t := queue src t @ [(mem, n)]) \<and> 0 \<le> n \<and> n \<le> int (length mem) \<and> n \<le> 252)"

lemma push_returns:
  assumes "1 \<le> length (os_mallocs src)" and "k \<le> length packet" "length packet \<le> 253" "0 < k"
    and "n = int (length packet) - int k" and "length packet' = length packet"
  shows "\<exists>src'. push_protocol_packet t packet' (word_of_int n) src = Some src' \<and> queued src src' \<and>
    r_packet src' = r_packet src \<and> r_count src' = r_count src"
proof (cases "hd (os_mallocs src)")
  case False
  then obtain ms where "os_mallocs src = False # ms" using assms(1) by (cases "os_mallocs src") auto
  then show ?thesis by (simp add: push_protocol_packet_def os_malloc_def message_def queued_def)
next
  case True
  then obtain ms where ms: "os_mallocs src = True # ms" using assms(1) by (cases "os_mallocs src") auto
  have n: "n = int (length packet - k)" using assms(2,5) by simp
  have "uint (word_of_int n :: u8) = n" using assms(3) by (simp add: n u8_of_len)
  then have "push_protocol_packet t packet' (word_of_int n) src =
      Some (src\<lparr>os_mallocs := ms, queue := (queue src)(t := queue src t @ [(packet', n)])\<rparr>)"
    by (simp add: push_protocol_packet_def os_malloc_def ms)
  moreover have "queued src (src\<lparr>os_mallocs := ms, queue := (queue src)(t := queue src t @ [(packet', n)])\<rparr>)"
  proof -
    have "queue (src\<lparr>os_mallocs := ms, queue := (queue src)(t := queue src t @ [(packet', n)])\<rparr>) =
        (queue src)(t := queue src t @ [(packet', n)]) \<and> 0 \<le> n \<and> n \<le> int (length packet') \<and> n \<le> 252"
      using assms by simp
    then show ?thesis unfolding queued_def by blast
  qed
  ultimately show ?thesis by auto
qed

lemma process_packet_returns:
  assumes "2 \<le> length packet" "length packet \<le> 253" and "2 \<le> length (os_mallocs src)" and "2 \<le> length (os_fcntls src)"
    and "settles (length (framed [P_ACK, packet ! 1])) (os_writes src)"
  shows "\<exists>src'. process_packet packet (int (length packet)) src = Some src' \<and> queued src src' \<and>
    r_packet src' = r_packet src \<and> r_count src' = r_count src"
proof (cases "packet ! 0 = P_PACKET_ACK")
  case False
  define p where "p = drop 1 packet @ drop (length packet - 1) packet"
  from move_to_front [of 1 packet "length packet"] obtain moved where
    m: "rdz packet 1 (int (length packet) - 1) = Some moved" "wrn packet 0 moved = Some p"
    using assms(1) by (auto simp: bind_Some_iff p_def)
  from push_returns [of src 1 packet "int (length packet) - 1" p "packet ! 0"] assms
  show ?thesis using False m by (auto simp: process_packet_def rd8_def p_def)
next
  case True
  obtain rc src1 where 1: "write_framed_packet P_ACK (packet ! 1) [] 0 src = Some (rc, src1)"
    "os_mallocs src1 = tl (os_mallocs src)" "tx_same src src1"
    using send_ack_returns [of src "packet ! 1"] assms(3-5) by auto
  define p where "p = drop 2 packet @ drop (length packet - 2) packet"
  from move_to_front [of 2 packet "length packet"] obtain moved where
    m: "rdz packet 2 (int (length packet) - 2) = Some moved" "wrn packet 0 moved = Some p"
    using assms(1) by (auto simp: bind_Some_iff p_def)
  have "1 \<le> length (os_mallocs src1)" "length p = length packet" using assms(1,3) 1(2) by (simp_all add: p_def)
  from push_returns [OF this(1) assms(1,2) _ _ this(2), of "int (length packet) - 2" P_PACKET_NO_ACK]
  obtain src2 where "push_protocol_packet P_PACKET_NO_ACK p (word_of_int (int (length packet) - 2)) src1 = Some src2"
    "queued src1 src2" "r_packet src2 = r_packet src1" "r_count src2 = r_count src1"
    by auto
  then show ?thesis
    using True m 1 assms(1) tx_same_fields [OF 1(3)]
    by (auto simp: process_packet_def rd8_def queued_def)
qed

lemma store_byte_returns:
  "rx_wf s \<Longrightarrow> r_count s < 256 \<Longrightarrow> queue s = queue src \<Longrightarrow>
   \<exists>src'. store_byte x s = Some src' \<and> rx_wf src' \<and> queued src src'"
  by (simp add: store_byte_def wrz_def wrn_def rx_wf_def queued_def)

lemma end_of_frame_returns:
  assumes "rx_wf src" and "3 \<le> length (os_mallocs src)" and "2 \<le> length (os_fcntls src)"
    and "settles (length (framed [P_ACK, r_packet src ! 1])) (os_writes src)" and c: "r_count src < 256"
  shows "\<exists>processed src'. end_of_frame src = Some (processed, src') \<and> rx_wf src' \<and> queued src src'"
proof (cases "r_count src < 4")
  case True
  then show ?thesis using assms(1) by (intro exI [of _ False]) (simp add: end_of_frame_def rx_wf_def queued_def)
next
  case False
  define n where "n = nat (r_count src) - 2"
  have n: "r_count src = int (n + 2)" "2 \<le> n" "n \<le> 253" using False c by (simp_all add: n_def)
  obtain m ms where ms: "os_mallocs src = m # ms" "2 \<le> length ms" using assms(2) by (cases "os_mallocs src") auto
  define src1 where "src1 = src\<lparr>r_count := 0, os_mallocs := ms\<rparr>"
  have wf1: "rx_wf src1" using assms(1) by (simp add: rx_wf_def src1_def)
  define data where "data = take n (r_packet src)"
  have len: "length data = n" "data ! 1 = r_packet src ! 1" using assms(1) n by (simp_all add: data_def rx_wf_def)
  have rd: "rdz (r_packet src) 0 (int n) = Some data" "rd8 (r_packet src) n = Some (r_packet src ! n)"
    "rd8 (r_packet src) (n + 1) = Some (r_packet src ! (n + 1))"
    using assms(1) n by (simp_all add: rdn_def rd8_def data_def rx_wf_def)
  obtain src2 where 2: "process_packet data (int n) src1 = Some src2" "queued src1 src2" "r_packet src2 = r_packet src1"
    "r_count src2 = r_count src1"
    using process_packet_returns [of data src1] len n ms assms(3,4) by (auto simp: src1_def)
  have idx: "2 + int n - 2 = int n" "nat (1 + int n) = Suc n" "r_packet src1 = r_packet src"
    by (simp_all add: src1_def)
  have "end_of_frame src = (if \<not> m then Some (False, message msg_no_memory src1)
      else if ucast (r_packet src ! n) OR push_bit 8 (ucast (r_packet src ! (n + 1))) = crc_packet data
      then Some (True, src2) else Some (False, message msg_bad_crc src1))"
    using False n(1) rd 2(1)
    by (simp add: end_of_frame_def os_malloc_def ms(1) Let_def idx src1_def [symmetric])
  moreover have "rx_wf (message x src1) \<and> queued src (message x src1)" for x
    using wf1 by (simp add: message_def rx_wf_def queued_def src1_def)
  moreover have "rx_wf src2 \<and> queued src src2"
    using 2(2-4) wf1 by (simp add: rx_wf_def queued_def src1_def)
  ultimately show ?thesis by (simp add: ex_bool_eq)
qed

text \<open>C24: Whatever byte arrives, in whatever state a stream of bytes has left the receiver, and whether or
  not memory runs out or the line fails while it answers, no access leaves the frame buffer or the
  packet: the byte is processed, at most one packet of at most 252 bytes is queued, inside its memory, and
  the next byte finds the buffer as it should be. What is asked of the operating system is that it
  answers: three times malloc and twice fcntl, yes or no, and that writing the acknowledgement ends, in
  pieces of any size that are not longer than what was offered, or with an error.\<close>

theorem receive_byte_safe:
  assumes "rx_wf src" and "3 \<le> length (os_mallocs src)" and "2 \<le> length (os_fcntls src)"
    and "settles (length (framed [P_ACK, r_packet src ! 1])) (os_writes src)"
  shows "\<exists>processed src'. receive_byte b src = Some (processed, src') \<and> rx_wf src' \<and> queued src src'"
proof -
  note frame = end_of_frame_returns [OF assms]
  show ?thesis
  proof (cases "in_sync src \<and> r_count src < 256 \<and> b = SYNC_BYTE \<and> \<not> r_escaped src")
    case True
    then have "receive_byte b src = end_of_frame src" by (simp add: receive_byte_def MTU_def serial_consts)
    then show ?thesis using frame True by simp
  next
    case False
    have keep: "rx_wf s \<and> queued src s" if "r_packet s = r_packet src" "r_count s = r_count src \<or> r_count s = 0" "queue s = queue src" for s
      using that assms(1) by (auto simp: rx_wf_def queued_def)
    have wf: "rx_wf (src\<lparr>r_escaped := False\<rparr>)" using assms(1) by (simp add: rx_wf_def)
    show ?thesis
    proof (cases "in_sync src \<and> r_count src < 256 \<and> (r_escaped src \<and> b \<noteq> SYNC_BYTE \<or> \<not> r_escaped src \<and> b \<noteq> ESCAPE_BYTE)")
      case True
      obtain s1 s2 where "store_byte (b XOR 0x20) (src\<lparr>r_escaped := False\<rparr>) = Some s1" "rx_wf s1" "queued src s1"
        "store_byte b src = Some s2" "rx_wf s2" "queued src s2"
        using store_byte_returns [OF wf, of src "b XOR 0x20"] store_byte_returns [OF assms(1), of src b] True by auto
      then show ?thesis using True False by (auto simp: receive_byte_def MTU_def ex_bool_eq)
    next
      case nostore: False
      define s' where "s' = (if \<not> in_sync src then
          (if b = SYNC_BYTE then (message msg_sync (src\<lparr>in_sync := True\<rparr>))\<lparr>r_count := 0, r_escaped := False\<rparr> else src)
        else if r_count src \<ge> MTU then (message msg_too_long src)\<lparr>in_sync := False\<rparr>
        else if r_escaped src then (message msg_bad_sync src)\<lparr>in_sync := False\<rparr> else src\<lparr>r_escaped := True\<rparr>)"
      have "receive_byte b src = Some (False, s')"
        using False nostore by (auto simp: receive_byte_def MTU_def s'_def)
      moreover have "r_packet s' = r_packet src" "r_count s' = r_count src \<or> r_count s' = 0" "queue s' = queue src"
        by (simp_all add: s'_def message_def)
      then have "rx_wf s' \<and> queued src s'" by (rule keep)
      ultimately show ?thesis by blast
    qed
  qed
qed

section \<open>Two hosts on a line\<close>

text \<open>A source as it is opened: the line delivers bytes in two chunks and takes \<open>n\<close> bytes.\<close>

definition fresh_source :: "bytes \<Rightarrow> nat \<Rightarrow> serial_source" where
  "fresh_source line n = \<lparr>os_reads = [Rd (take 3 line), Rd (drop 3 line)], os_selects = [], os_writes = [Wr_error EINTR, Wr n],
     os_fcntls = [True, True], os_clock = [(7, 950000)], os_mallocs = [True, True, True], non_blocking = True,
     has_message = False, r_buffer = replicate BUFSIZE 0, bufpos = 0, bufused = 0, r_packet = replicate (nat MTU) 0,
     in_sync = False, r_escaped = False, r_count = 0, queue = \<lambda>_. [], s_seqno = 37, s_escaped = [], s_room = 0, s_crc = 0,
     os_out = [], msgs = []\<rparr>"

lemma fresh_source_ok:
  assumes "3 < length line" "length line \<le> 256"
  shows "line_ok (fresh_source line n)" "idle (fresh_source line n)" "pending (fresh_source line n) = line"
  using assms by (auto simp: fresh_source_def line_ok_def idle_def pending_def chunk_def BUFSIZE_def MTU_def)

lemma fresh_source_fields [simp]:
  "queue (fresh_source line n) = (\<lambda>_. [])" "os_mallocs (fresh_source line n) = [True, True, True]"
  "os_fcntls (fresh_source line n) = [True, True]" "os_clock (fresh_source line n) = [(7, 950000)]"
  "os_writes (fresh_source line n) = [Wr_error EINTR, Wr n]" "s_seqno (fresh_source line n) = 37" "os_out (fresh_source line n) = []"
  by (simp_all add: fresh_source_def)

lemma framed_length:
  assumes "data \<noteq> []"
  shows "3 < length (framed data)" and "length (framed data) \<le> 2 * length data + 6"
proof -
  have "length bs \<le> length (stuff bs)" for bs by (induction bs) (auto simp: stuff_byte_def)
  from this [of "data @ crc_bytes data"] length_stuff [of "data @ crc_bytes data"] assms
  show "3 < length (framed data)" "length (framed data) \<le> 2 * length data + 6"
    by (cases data; simp add: framed_def crc_bytes_def)+
qed

text \<open>A packet that contains both bytes that must be stuffed.\<close>

theorem serial_packet_exchange_witness:
  "\<exists>a' b' mem. write_serial_packet [126, 1, 125] 3 (fresh_source (framed [P_ACK, 38]) (length (framed [P_PACKET_ACK, 38, 126, 1, 125]))) =
      Some (0, a') \<and>
    read_serial_packet (fresh_source (framed [P_PACKET_ACK, 38, 126, 1, 125]) (length (framed [P_ACK, 38]))) = Some (Some (mem, 3), b') \<and>
    take 3 mem = [126, 1, 125] \<and> os_out b' = framed [P_ACK, 38]"
proof -
  let ?a = "fresh_source (framed [P_ACK, 38]) (length (framed [P_PACKET_ACK, 38, 126, 1, 125]))"
  let ?b = "fresh_source (framed [P_PACKET_ACK, 38, 126, 1, 125]) (length (framed [P_ACK, 38]))"
  have l: "3 < length (framed [P_ACK, 38])" "length (framed [P_ACK, 38]) \<le> 256"
    "3 < length (framed [P_PACKET_ACK, 38, 126, 1, 125])" "length (framed [P_PACKET_ACK, 38, 126, 1, 125]) \<le> 256"
    using framed_length [of "[P_ACK, 38]"] framed_length [of "[P_PACKET_ACK, 38, 126, 1, 125]"] by simp_all
  from serial_packet_exchange [where a = ?a and b = ?b and packet = "[126, 1, 125]" and ra = "[]" and rb = "[]"
      and ma = "[]" and mb = "[]" and fa = True and fb = True and now = "(7, 950000)"
      and fsa = "[]" and fsb = "[]" and ca = "[]"]
  show ?thesis
    using fresh_source_ok [OF l(1,2)] fresh_source_ok [OF l(3,4)]
    by (simp add: numeral_3_eq_3) blast
qed

theorem corrupted_frame_dropped_witness:
  "\<exists>src'. read_and_process True (fresh_source (SYNC_BYTE # stuff (([69, 1, 2] @ crc_bytes [69, 1, 2])[1 := 9]) @
      SYNC_BYTE # framed [69, 7]) 0) = process_packet [69, 7] 2 src' \<and> queue src' = (\<lambda>_. [])"
proof -
  let ?line = "SYNC_BYTE # stuff (([69, 1, 2] @ crc_bytes [69, 1, 2])[1 := 9]) @ SYNC_BYTE # framed [69, 7]"
  have "3 < length ?line" using framed_length(1) [of "[69, 7]"] by simp
  moreover have "length ?line \<le> 256"
    using framed_length(2) [of "[69, 7]"] length_stuff [of "([69, 1, 2] @ crc_bytes [69, 1, 2])[1 := 9]"]
    by (simp add: crc_bytes_def)
  ultimately show ?thesis
    using corrupted_frame_dropped [of "fresh_source ?line 0" _ "[69, 1, 2]" 1 9 "[69, 7]" "[]" "[True]", OF _ _ refl]
      fresh_source_ok [of ?line 0]
    by (auto simp: crc_bytes_def)
qed

text \<open>The last byte of a packet that asks for an acknowledgement, which is written in one piece.\<close>

theorem receive_byte_safe_witness:
  "\<exists>processed src'. receive_byte 126 ((fresh_source [] 10)\<lparr>in_sync := True, r_count := 5,
       r_packet := [68, 38, 1] @ crc_bytes [68, 38, 1] @ replicate 251 0,
       os_writes := [Wr (length (framed [P_ACK, 38]))]\<rparr>) = Some (processed, src') \<and> rx_wf src'"
proof -
  let ?s = "(fresh_source [] 10)\<lparr>in_sync := True, r_count := 5,
       r_packet := [68, 38, 1] @ crc_bytes [68, 38, 1] @ replicate 251 0,
       os_writes := [Wr (length (framed [P_ACK, 38]))]\<rparr>"
  have "rx_wf ?s" by (simp add: rx_wf_def fresh_source_def crc_bytes_def)
  moreover have "settles (length (framed [P_ACK, r_packet ?s ! 1])) (os_writes ?s)" by simp
  moreover have "3 \<le> length (os_mallocs ?s)" "2 \<le> length (os_fcntls ?s)" by (simp_all add: fresh_source_def)
  ultimately show ?thesis using receive_byte_safe [of ?s 126] by blast
qed

end
