(* ===== verification/SimRandomlib.thy ===== *)
theory SimRandomlib
  imports SimGain
begin

text \<open>
  The uniform and Gaussian random numbers of the simulator (\<open>tossim/randomlib.c\<close>): the generator of
  Marsaglia and Zaman, a lagged Fibonacci sequence combined with an arithmetic one. A double is a
  real, \<open>rnd\<close> the rounding of the result of an operation, \<open>flog\<close> the library's logarithm. None is an
  access outside the table or an int that overflows.
\<close>

section \<open>State\<close>

record random_state = sim_core +
  randU :: "real list"
  randC :: real
  randCD :: real
  randCM :: real
  i97 :: int
  j97 :: int
  test :: bool

section \<open>Seeding\<close>

text \<open>The inner loop: one bit of a fraction per round.\<close>

definition seed_round :: "(real \<Rightarrow> real) \<Rightarrow> (int \<times> int \<times> int \<times> int) \<times> real \<times> real \<Rightarrow> (int \<times> int \<times> int \<times> int) \<times> real \<times> real" where
  "seed_round rnd st =
     (let ((i, j, k, l), s, t) = st;
          m = (((i * j) mod 179) * k) mod 179;
          l = (53 * l + 1) mod 169;
          s = (if (l * m) mod 64 \<ge> 32 then rnd (s + t) else s)
      in ((j, k, m, l), s, rnd (t * (1 / 2))))"

definition seed_fraction :: "(real \<Rightarrow> real) \<Rightarrow> int \<times> int \<times> int \<times> int \<Rightarrow> (int \<times> int \<times> int \<times> int) \<times> real \<times> real" where
  "seed_fraction rnd ijkl = (seed_round rnd ^^ 24) (ijkl, 0, 1 / 2)"

text \<open>The outer loop, filling the table.\<close>

primrec seed_table :: "(real \<Rightarrow> real) \<Rightarrow> nat \<Rightarrow> int \<times> int \<times> int \<times> int \<Rightarrow> real list" where
  "seed_table rnd 0 ijkl = []"
| "seed_table rnd (Suc n) ijkl =
     (let (ijkl', s, t) = seed_fraction rnd ijkl in s # seed_table rnd n ijkl')"

definition RandomInitialise :: "(real \<Rightarrow> real) \<Rightarrow> int \<Rightarrow> int \<Rightarrow> 'a random_state_scheme \<Rightarrow> 'a random_state_scheme" where
  "RandomInitialise rnd ij kl st =
     (let (ij, kl) = (if ij < 0 \<or> ij > 31328 \<or> kl < 0 \<or> kl > 30081 then (1802, 9373) else (ij, kl));
          i = (ij div 177) mod 177 + 2;
          j = (ij mod 177) + 2;
          k = (kl div 169) mod 178 + 1;
          l = kl mod 169
      in st\<lparr>randU := seed_table rnd 97 (i, j, k, l), randC := rnd (362436 / 16777216), randCD := rnd (7654321 / 16777216),
            randCM := rnd (16777213 / 16777216), i97 := 97, j97 := 33, test := True\<rparr>)"

section \<open>Numbers\<close>

text \<open>The first call seeds the generator from the simulator's.\<close>

definition ensure_seeded :: "(real \<Rightarrow> real) \<Rightarrow> 'a random_state_scheme \<Rightarrow> 'a random_state_scheme" where
  "ensure_seeded rnd st =
     (if test st then st
      else let (r1, st) = sim_random st; seed1 = sint r1 smod 31329; (r2, st) = sim_random st; seed2 = sint r2 smod 30082
        in RandomInitialise rnd seed1 seed2 st)"

text \<open>The Fibonacci step, the arithmetic step, their combination, and an index going down.\<close>

definition fib_next :: "(real \<Rightarrow> real) \<Rightarrow> real \<Rightarrow> real \<Rightarrow> real" where
  "fib_next rnd a b = (let uni = rnd (a - b) in if uni \<le> 0 then rnd (uni + 1) else uni)"

definition arith_next :: "(real \<Rightarrow> real) \<Rightarrow> real \<Rightarrow> real \<Rightarrow> real \<Rightarrow> real" where
  "arith_next rnd c cd cm = (let c = rnd (c - cd) in if c < 0 then rnd (c + cm) else c)"

definition combine :: "(real \<Rightarrow> real) \<Rightarrow> real \<Rightarrow> real \<Rightarrow> real" where
  "combine rnd uni c = (let uni = rnd (uni - c) in if uni < 0 then rnd (uni + 1) else uni)"

definition index_down :: "int \<Rightarrow> int" where
  "index_down i = (if i - 1 = 0 then 97 else i - 1)"

definition RandomUniform :: "(real \<Rightarrow> real) \<Rightarrow> 'a random_state_scheme \<Rightarrow> (real \<times> 'a random_state_scheme) option" where
  "RandomUniform rnd st = do {
     let st = ensure_seeded rnd st;
     a \<leftarrow> array_get (randU st) (i97 st - 1);
     b \<leftarrow> array_get (randU st) (j97 st - 1);
     let uni = fib_next rnd a b;
     u \<leftarrow> array_set (randU st) (i97 st - 1) uni;
     let c = arith_next rnd (randC st) (randCD st) (randCM st);
     Some (combine rnd uni c,
       st\<lparr>randU := u, i97 := index_down (i97 st), j97 := index_down (j97 st), randC := c\<rparr>)
   }"

text \<open>The ratio of uniforms, with the constants of the algorithm as the compiler rounds them.\<close>

partial_function (option) gaussian_loop ::
    "(real \<Rightarrow> real) \<Rightarrow> (real \<Rightarrow> real) \<Rightarrow> 'a random_state_scheme \<Rightarrow> (real \<times> real \<times> 'a random_state_scheme) option" where
  "gaussian_loop rnd flog st = do {
     (z, st) \<leftarrow> RandomUniform rnd st;
     (v, st) \<leftarrow> RandomUniform rnd st;
     let (z, v) = (if z \<le> 0 \<or> v \<le> 0 then (1, 1) else (z, v));
     let v = rnd (rnd (17156 / 10000) * rnd (v - 1 / 2));
     let x = rnd (z - rnd (449871 / 1000000));
     let y = rnd (\<bar>v\<bar> + rnd (386595 / 1000000));
     let q = rnd (rnd (x * x) + rnd (y * rnd (rnd (rnd (19600 / 100000) * y) - rnd (rnd (25472 / 100000) * x))));
     if q < rnd (27597 / 100000) then Some (z, v, st)
     else if q > rnd (27846 / 100000) \<or> rnd (v * v) > rnd (rnd (rnd (- 4 * flog z) * z) * z) then gaussian_loop rnd flog st
     else Some (z, v, st)
   }"

definition RandomGaussian ::
    "(real \<Rightarrow> real) \<Rightarrow> (real \<Rightarrow> real) \<Rightarrow> real \<Rightarrow> real \<Rightarrow> 'a random_state_scheme \<Rightarrow> (real \<times> 'a random_state_scheme) option" where
  "RandomGaussian rnd flog mean stddev st = do {
     (z, v, st) \<leftarrow> gaussian_loop rnd flog st;
     Some (rnd (mean + rnd (rnd (stddev * v) / z)), st)
   }"

text \<open>The conversion of a double to int drops the fraction.\<close>

definition int_range :: "int \<Rightarrow> bool" where
  "int_range n \<longleftrightarrow> - (2 ^ 31) \<le> n \<and> n < 2 ^ 31"

definition trunc_int :: "real \<Rightarrow> int" where
  "trunc_int x = (if x < 0 then \<lceil>x\<rceil> else \<lfloor>x\<rfloor>)"

definition RandomInt :: "(real \<Rightarrow> real) \<Rightarrow> int \<Rightarrow> int \<Rightarrow> 'a random_state_scheme \<Rightarrow> (int \<times> 'a random_state_scheme) option" where
  "RandomInt rnd lower upper st = do {
     (u, st) \<leftarrow> RandomUniform rnd st;
     let n = trunc_int (rnd (u * real_of_int (upper - lower + 1)));
     if int_range (upper - lower) \<and> int_range (upper - lower + 1) \<and> int_range n \<and> int_range (n + lower)
     then Some (n + lower, st) else None
   }"

definition RandomDouble :: "(real \<Rightarrow> real) \<Rightarrow> real \<Rightarrow> real \<Rightarrow> 'a random_state_scheme \<Rightarrow> (real \<times> 'a random_state_scheme) option" where
  "RandomDouble rnd lower upper st = do {
     (u, st) \<leftarrow> RandomUniform rnd st;
     Some (rnd (rnd (rnd (upper - lower) * u) + lower), st)
   }"

end
