(* ===== verification/SimHashtable.thy ===== *)
theory SimHashtable
  imports Prelude Complex_Main
begin

text \<open>
  The hash table of the simulator (\<open>tossim/hashtable.c\<close>): an array of chains whose length is the next
  prime of a table each time the load limit is passed. The hash and equality functions are the
  caller's; \<open>fl\<close> is the rounding of a value to a float. Whether the calls of malloc and realloc
  succeed is an argument. None is undefined behaviour.
\<close>

section \<open>State\<close>

record ('k, 'v) ht_entry =
  e_k :: 'k
  e_v :: 'v
  e_h :: u32

record ('k, 'v) hashtable =
  ht_table :: "('k, 'v) ht_entry list list"
  tablelength :: nat
  entrycount :: u32
  loadlimit :: u32
  primeindex :: nat
  hashfn :: "'k \<Rightarrow> u32"
  eqfn :: "'k \<Rightarrow> 'k \<Rightarrow> bool"

definition primes :: "nat list" where
  "primes = [53, 97, 193, 389, 769, 1543, 3079, 6151, 12289, 24593, 49157, 98317, 196613, 393241,
     786433, 1572869, 3145739, 6291469, 12582917, 25165843, 50331653, 100663319, 201326611,
     402653189, 805306457, 1610612741]"

definition prime_table_length :: nat where
  "prime_table_length = length primes"

definition max_load_factor :: "(real \<Rightarrow> real) \<Rightarrow> real" where
  "max_load_factor fl = fl (65 / 100)"

text \<open>\<open>(unsigned int) ceil(size * max_load_factor)\<close>, the product computed in floats.\<close>

definition load_limit :: "(real \<Rightarrow> real) \<Rightarrow> nat \<Rightarrow> u32" where
  "load_limit fl n = word_of_int \<lceil>fl (fl (real n) * max_load_factor fl)\<rceil>"

definition indexFor :: "nat \<Rightarrow> u32 \<Rightarrow> nat" where
  "indexFor len hashvalue = unat hashvalue mod len"

section \<open>Operations\<close>

text \<open>The first prime of the table greater than \<open>minsize\<close>, and its index.\<close>

fun choose_size :: "nat \<Rightarrow> nat \<Rightarrow> nat list \<Rightarrow> nat \<times> nat" where
  "choose_size minsize pindex [] = (53, pindex)"
| "choose_size minsize pindex (p # ps) =
     (if p > minsize then (p, pindex) else choose_size minsize (pindex + 1) ps)"

definition create_hashtable ::
    "(real \<Rightarrow> real) \<Rightarrow> bool \<times> bool \<Rightarrow> u32 \<Rightarrow> ('k \<Rightarrow> u32) \<Rightarrow> ('k \<Rightarrow> 'k \<Rightarrow> bool) \<Rightarrow> ('k, 'v) hashtable option" where
  "create_hashtable fl mallocs minsize hashf eqf =
     (if minsize > push_bit 30 1 then None
      else let (sz, pindex) = choose_size (unat minsize) 0 primes
        in if \<not> fst mallocs then None
           else if \<not> snd mallocs then None
           else Some \<lparr>ht_table = replicate sz [], tablelength = sz, entrycount = 0, loadlimit = load_limit fl sz,
                  primeindex = pindex, hashfn = hashf, eqfn = eqf\<rparr>)"

text \<open>\<open>hash\<close>\<close>

definition ht_hash :: "('k, 'v) hashtable \<Rightarrow> 'k \<Rightarrow> u32" where
  "ht_hash h k =
     (let i = hashfn h k;
          i = i + NOT (push_bit 9 i);
          i = i XOR (drop_bit 14 i OR push_bit 18 i);
          i = i + push_bit 4 i
      in i XOR (drop_bit 10 i OR push_bit 22 i))"

text \<open>Moving the entries of a chain, from its front, to the front of their new chains.\<close>

fun transfer_chain :: "nat \<Rightarrow> ('k, 'v) ht_entry list \<Rightarrow> ('k, 'v) ht_entry list list \<Rightarrow> ('k, 'v) ht_entry list list" where
  "transfer_chain newsize [] newtable = newtable"
| "transfer_chain newsize (e # es) newtable =
     (let tindex = indexFor newsize (e_h e)
      in transfer_chain newsize es (newtable[tindex := e # newtable ! tindex]))"

text \<open>When malloc fails and realloc succeeds, the code clears memory at the address it finds in the
  part of the array that has no contents yet.\<close>

definition hashtable_expand ::
    "(real \<Rightarrow> real) \<Rightarrow> bool \<Rightarrow> bool \<Rightarrow> ('k, 'v) hashtable \<Rightarrow> (int \<times> ('k, 'v) hashtable) option" where
  "hashtable_expand fl malloc_ok realloc_ok h =
     (if primeindex h = prime_table_length - 1 then Some (0, h)
      else let newsize = primes ! (primeindex h + 1)
        in if malloc_ok then
             Some (-1, h\<lparr>ht_table := foldl (\<lambda>nt chain. transfer_chain newsize chain nt) (replicate newsize []) (ht_table h),
               primeindex := primeindex h + 1, tablelength := newsize, loadlimit := load_limit fl newsize\<rparr>)
           else if realloc_ok then None
           else Some (0, h))"

definition hashtable_count :: "('k, 'v) hashtable \<Rightarrow> u32" where
  "hashtable_count h = entrycount h"

definition hashtable_insert ::
    "(real \<Rightarrow> real) \<Rightarrow> bool \<times> bool \<times> bool \<Rightarrow> 'k \<Rightarrow> 'v \<Rightarrow> ('k, 'v) hashtable \<Rightarrow> (int \<times> ('k, 'v) hashtable) option" where
  "hashtable_insert fl oks k v h =
     (let (malloc_ok, realloc_ok, entry_ok) = oks; h = h\<lparr>entrycount := entrycount h + 1\<rparr>
      in case (if entrycount h > loadlimit h then map_option snd (hashtable_expand fl malloc_ok realloc_ok h) else Some h) of
        None \<Rightarrow> None
      | Some h \<Rightarrow>
          if \<not> entry_ok then Some (0, h\<lparr>entrycount := entrycount h - 1\<rparr>)
          else let e = \<lparr>e_k = k, e_v = v, e_h = ht_hash h k\<rparr>; tindex = indexFor (tablelength h) (e_h e)
            in Some (-1, h\<lparr>ht_table := (ht_table h)[tindex := e # ht_table h ! tindex]\<rparr>))"

text \<open>The test of the search loops.\<close>

definition ht_match :: "('k, 'v) hashtable \<Rightarrow> 'k \<Rightarrow> ('k, 'v) ht_entry \<Rightarrow> bool" where
  "ht_match h k e \<longleftrightarrow> ht_hash h k = e_h e \<and> eqfn h k (e_k e)"

fun search_chain :: "('k, 'v) hashtable \<Rightarrow> 'k \<Rightarrow> ('k, 'v) ht_entry list \<Rightarrow> 'v option" where
  "search_chain h k [] = None"
| "search_chain h k (e # es) = (if ht_match h k e then Some (e_v e) else search_chain h k es)"

definition hashtable_search :: "('k, 'v) hashtable \<Rightarrow> 'k \<Rightarrow> 'v option" where
  "hashtable_search h k = search_chain h k (ht_table h ! indexFor (tablelength h) (ht_hash h k))"

text \<open>The chain without its first match, and the value of the match.\<close>

fun remove_chain :: "('k, 'v) hashtable \<Rightarrow> 'k \<Rightarrow> ('k, 'v) ht_entry list \<Rightarrow> ('v \<times> ('k, 'v) ht_entry list) option" where
  "remove_chain h k [] = None"
| "remove_chain h k (e # es) =
     (if ht_match h k e then Some (e_v e, es)
      else map_option (\<lambda>(v, es). (v, e # es)) (remove_chain h k es))"

definition hashtable_remove :: "'k \<Rightarrow> ('k, 'v) hashtable \<Rightarrow> 'v option \<times> ('k, 'v) hashtable" where
  "hashtable_remove k h =
     (let tindex = indexFor (tablelength h) (ht_hash h k)
      in case remove_chain h k (ht_table h ! tindex) of
        None \<Rightarrow> (None, h)
      | Some (v, es) \<Rightarrow> (Some v, h\<lparr>ht_table := (ht_table h)[tindex := es], entrycount := entrycount h - 1\<rparr>))"

section \<open>Invariant\<close>

text \<open>Entries are in the chain of their hash, under distinct keys.\<close>

definition ht_entries :: "('k, 'v) hashtable \<Rightarrow> ('k, 'v) ht_entry list" where
  "ht_entries h = concat (ht_table h)"

definition chains_ok :: "('k \<Rightarrow> u32) \<Rightarrow> nat \<Rightarrow> ('k, 'v) ht_entry list list \<Rightarrow> bool" where
  "chains_ok hf n t \<longleftrightarrow> length t = n \<and> (\<forall>i < n. \<forall>e \<in> set (t ! i). e_h e = hf (e_k e) \<and> indexFor n (e_h e) = i)"

definition ht_inv :: "('k, 'v) hashtable \<Rightarrow> bool" where
  "ht_inv h \<longleftrightarrow> primeindex h < length primes \<and> tablelength h = primes ! primeindex h \<and>
     chains_ok (ht_hash h) (tablelength h) (ht_table h) \<and> distinct (map e_k (ht_entries h)) \<and>
     length (ht_entries h) < 2 ^ 32 \<and> entrycount h = of_nat (length (ht_entries h)) \<and> eqfn h = (=)"

text \<open>The map a table stands for.\<close>

definition ht_map :: "('k, 'v) hashtable \<Rightarrow> 'k \<Rightarrow> 'v option" where
  "ht_map h = map_of (map (\<lambda>e. (e_k e, e_v e)) (ht_entries h))"

lemma primes_pos: "i < length primes \<Longrightarrow> 0 < primes ! i"
  by (simp add: primes_def nth_Cons' split: if_splits)

end
