(* ===== verification/SimDictionary.thy ===== *)
theory SimDictionary
  imports SimHashtable "HOL-Library.Multiset"
begin

text \<open>
  The contract of a table of values under keys, what it gives over any sequence of operations, and
  the proof that the hash table keeps it, also while it grows.
\<close>

section \<open>Dictionaries\<close>

text \<open>The operations of a client, which looks a key up before it inserts one; \<open>'o\<close> is what insertion
  meets outside. A result is the value found or whether the key was added.\<close>

datatype ('o, 'k, 'v) dict_op = Look 'k | Add 'o 'k 'v | Del 'k
datatype 'v dict_res = Value "'v option" | Added bool

fun dict_step ::
    "('t \<Rightarrow> 'k \<Rightarrow> 'v option) \<Rightarrow> ('o \<Rightarrow> 'k \<Rightarrow> 'v \<Rightarrow> 't \<Rightarrow> (int \<times> 't) option) \<Rightarrow> ('k \<Rightarrow> 't \<Rightarrow> 'v option \<times> 't) \<Rightarrow>
     ('o, 'k, 'v) dict_op \<Rightarrow> 't \<Rightarrow> ('v dict_res \<times> 't) option" where
  "dict_step lookup ins del (Look k) t = Some (Value (lookup t k), t)"
| "dict_step lookup ins del (Add oom k v) t =
     (if lookup t k \<noteq> None then Some (Value (lookup t k), t)
      else map_option (\<lambda>(rc, t). (Added (rc \<noteq> 0), t)) (ins oom k v t))"
| "dict_step lookup ins del (Del k) t = (let (r, t) = del k t in Some (Value r, t))"

fun dict_run ::
    "('t \<Rightarrow> 'k \<Rightarrow> 'v option) \<Rightarrow> ('o \<Rightarrow> 'k \<Rightarrow> 'v \<Rightarrow> 't \<Rightarrow> (int \<times> 't) option) \<Rightarrow> ('k \<Rightarrow> 't \<Rightarrow> 'v option \<times> 't) \<Rightarrow>
     ('o, 'k, 'v) dict_op list \<Rightarrow> 't \<Rightarrow> ('v dict_res list \<times> 't) option" where
  "dict_run lookup ins del [] t = Some ([], t)"
| "dict_run lookup ins del (x # xs) t =
     Option.bind (dict_step lookup ins del x t) (\<lambda>(r, t).
       map_option (\<lambda>(rs, t). (r # rs, t)) (dict_run lookup ins del xs t))"

text \<open>The results are those of a map, from \<open>m\<close> to \<open>m'\<close>.\<close>

fun map_step :: "('o, 'k, 'v) dict_op \<Rightarrow> 'v dict_res \<Rightarrow> ('k \<Rightarrow> 'v option) \<Rightarrow> ('k \<Rightarrow> 'v option) option" where
  "map_step (Look k) (Value r) m = (if r = m k then Some m else None)"
| "map_step (Add oom k v) (Value r) m = (if r = m k \<and> r \<noteq> None then Some m else None)"
| "map_step (Add oom k v) (Added b) m = (if m k = None then Some (if b then m(k \<mapsto> v) else m) else None)"
| "map_step (Del k) (Value r) m = (if r = m k then Some (m(k := None)) else None)"
| "map_step _ _ m = None"

fun map_run :: "('o, 'k, 'v) dict_op list \<Rightarrow> 'v dict_res list \<Rightarrow> ('k \<Rightarrow> 'v option) \<Rightarrow> ('k \<Rightarrow> 'v option) option" where
  "map_run [] [] m = Some m"
| "map_run (x # xs) (r # rs) m = Option.bind (map_step x r m) (map_run xs rs)"
| "map_run _ _ m = None"

fun outside :: "('o, 'k, 'v) dict_op \<Rightarrow> 'o option" where
  "outside (Add oom k v) = Some oom"
| "outside _ = None"

locale dictionary =
  fixes inv :: "'t \<Rightarrow> bool" and lookup :: "'t \<Rightarrow> 'k \<Rightarrow> 'v option" and count :: "'t \<Rightarrow> nat" and room :: nat
    and ins :: "'o \<Rightarrow> 'k \<Rightarrow> 'v \<Rightarrow> 't \<Rightarrow> (int \<times> 't) option" and del :: "'k \<Rightarrow> 't \<Rightarrow> 'v option \<times> 't"
    and fine :: "'o \<Rightarrow> bool"
  assumes ins_law: "inv t \<Longrightarrow> lookup t k = None \<Longrightarrow> count t < room \<Longrightarrow> fine oom \<Longrightarrow>
      \<exists>rc t'. ins oom k v t = Some (rc, t') \<and> inv t' \<and> count t' \<le> count t + 1 \<and>
        lookup t' = (if rc \<noteq> 0 then (lookup t)(k \<mapsto> v) else lookup t)"
    and del_law: "inv t \<Longrightarrow> \<exists>t'. del k t = (lookup t k, t') \<and> inv t' \<and> count t' \<le> count t \<and>
        lookup t' = (lookup t)(k := None)"
begin

lemma step_law:
  assumes "inv t" and "count t < room" and "\<forall>oom \<in> set_option (outside x). fine oom"
  shows "\<exists>r t'. dict_step lookup ins del x t = Some (r, t') \<and> inv t' \<and> count t' \<le> count t + 1 \<and>
    map_step x r (lookup t) = Some (lookup t')"
proof (cases x)
  case (Look k)
  then show ?thesis using assms(1) by simp
next
  case (Del k)
  then show ?thesis using del_law [OF assms(1), of k] by auto
next
  case (Add oom k v)
  show ?thesis
  proof (cases "lookup t k")
    case None
    from ins_law [OF assms(1) None assms(2), of oom v] assms(3) Add obtain rc t' where
      "ins oom k v t = Some (rc, t')" "inv t'" "count t' \<le> count t + 1"
      "lookup t' = (if rc \<noteq> 0 then (lookup t)(k \<mapsto> v) else lookup t)" by auto
    then show ?thesis using None Add by auto
  qed (use Add assms(1) in auto)
qed

lemma run_law:
  assumes "inv t" and "count t + length xs \<le> room" and "\<forall>x \<in> set xs. \<forall>oom \<in> set_option (outside x). fine oom"
  shows "\<exists>rs t'. dict_run lookup ins del xs t = Some (rs, t') \<and> inv t' \<and>
    map_run xs rs (lookup t) = Some (lookup t')"
  using assms
proof (induction xs arbitrary: t)
  case (Cons x xs)
  from step_law [of t x] Cons.prems obtain r t' where
    1: "dict_step lookup ins del x t = Some (r, t')" "inv t'" "count t' \<le> count t + 1"
    "map_step x r (lookup t) = Some (lookup t')" by auto
  from Cons.IH [of t'] 1(2,3) Cons.prems obtain rs t'' where
    "dict_run lookup ins del xs t' = Some (rs, t'')" "inv t''" "map_run xs rs (lookup t') = Some (lookup t'')" by auto
  then show ?case using 1 by (intro exI [of _ "r # rs"] exI [of _ t'']) simp
qed simp

end

section \<open>Chains\<close>

lemma option_eqI: "(\<And>v. x = Some v \<longleftrightarrow> y = Some v) \<Longrightarrow> x = y"
  by (metis not_None_eq)

lemma concat_at: "i < length t \<Longrightarrow> concat t = concat (take i t) @ t ! i @ concat (drop (Suc i) t)"
  using arg_cong [OF id_take_nth_drop, of i t concat] by simp

lemma chains_okD:
  "chains_ok hf n t \<Longrightarrow> i < n \<Longrightarrow> e \<in> set (t ! i) \<Longrightarrow> e_h e = hf (e_k e) \<and> indexFor n (e_h e) = i"
  unfolding chains_ok_def by blast

lemma search_chain_map_of:
  assumes "\<forall>e \<in> set es. e_h e = ht_hash h (e_k e)" and "eqfn h = (=)"
  shows "search_chain h k es = map_of (map (\<lambda>e. (e_k e, e_v e)) es) k"
  using assms(1) by (induction es) (auto simp: ht_match_def assms(2))

lemma indexFor_less: "0 < n \<Longrightarrow> indexFor n x < n"
  by (simp add: indexFor_def)

lemma chains_ok_hash: "chains_ok hf n t \<Longrightarrow> es \<in> set t \<Longrightarrow> e \<in> set es \<Longrightarrow> e_h e = hf (e_k e)"
  by (auto simp: chains_ok_def in_set_conv_nth [of es])

text \<open>A key is found in its own chain or nowhere.\<close>

lemma map_of_chain:
  assumes "chains_ok hf n t" and "0 < n" and "distinct (map e_k (concat t))"
  shows "map_of (map (\<lambda>e. (e_k e, e_v e)) (concat t)) k =
    map_of (map (\<lambda>e. (e_k e, e_v e)) (t ! indexFor n (hf k))) k"
proof -
  let ?kv = "\<lambda>e. (e_k e, e_v e)" and ?i = "indexFor n (hf k)"
  have i: "?i < length t" using assms(1,2) by (simp add: chains_ok_def indexFor_less)
  have sub: "set (t ! ?i) \<subseteq> set (concat t)" using nth_mem [OF i] by auto
  have own: "e \<in> set (t ! ?i)" if e: "e \<in> set (concat t)" "e_k e = k" for e
  proof -
    obtain es where "es \<in> set t" "e \<in> set es" using e(1) by auto
    then obtain j where j: "j < n" "e \<in> set (t ! j)" using assms(1) by (metis chains_ok_def in_set_conv_nth)
    then have "indexFor n (e_h e) = j" "e_h e = hf k" using chains_okD [OF assms(1) j] e(2) by blast+
    then show ?thesis using j(2) by simp
  qed
  have d: "distinct (map fst (map ?kv (concat t)))" using assms(3) by (simp add: comp_def)
  have d': "distinct (map fst (map ?kv (t ! ?i)))"
  proof -
    from assms(3) have "distinct (map e_k (t ! ?i))"
      unfolding concat_at [OF i] by simp
    then show ?thesis by (simp add: comp_def)
  qed
  have "map_of (map ?kv (concat t)) k = Some v \<longleftrightarrow> map_of (map ?kv (t ! ?i)) k = Some v" for v
    unfolding map_of_eq_Some_iff [OF d] map_of_eq_Some_iff [OF d'] using sub own by auto
  then show ?thesis by (rule option_eqI)
qed

lemma hashtable_search_map:
  assumes "ht_inv h"
  shows "hashtable_search h k = ht_map h k"
proof -
  let ?n = "tablelength h"
  have n: "0 < ?n" using assms primes_pos by (simp add: ht_inv_def)
  have c: "chains_ok (ht_hash h) ?n (ht_table h)" using assms unfolding ht_inv_def by blast
  have "\<forall>e \<in> set (ht_table h ! indexFor ?n (ht_hash h k)). e_h e = ht_hash h (e_k e)"
    using c indexFor_less [OF n] by (auto simp: chains_ok_def)
  then have "hashtable_search h k = map_of (map (\<lambda>e. (e_k e, e_v e)) (ht_table h ! indexFor ?n (ht_hash h k))) k"
    using assms by (simp add: hashtable_search_def search_chain_map_of ht_inv_def)
  also have "\<dots> = ht_map h k"
    using map_of_chain [OF c n] assms by (simp add: ht_map_def ht_entries_def ht_inv_def)
  finally show ?thesis .
qed

section \<open>Changing a chain\<close>

lemma mset_concat_update:
  assumes "i < length t"
  shows "mset (concat (t[i := c])) + mset (t ! i) = mset (concat t) + mset c"
proof -
  note concat_at [OF assms]
  moreover have "concat (t[i := c]) = concat (take i t) @ c @ concat (drop (Suc i) t)"
    using assms by (simp add: upd_conv_take_nth_drop)
  ultimately show ?thesis by simp
qed

lemma mset_concat_Cons:
  assumes "i < length t"
  shows "mset (concat (t[i := e # t ! i])) = add_mset e (mset (concat t))"
  using mset_concat_update [OF assms, of "e # t ! i"] by simp

lemma chains_ok_update:
  assumes "chains_ok hf n t" and "\<forall>e \<in> set c. e_h e = hf (e_k e) \<and> indexFor n (e_h e) = i"
  shows "chains_ok hf n (t[i := c])"
  unfolding chains_ok_def
proof (intro conjI allI impI ballI)
  show "length (t[i := c]) = n" using assms(1) by (simp add: chains_ok_def)
  fix j e
  assume j: "j < n" and e: "e \<in> set (t[i := c] ! j)"
  then have "e \<in> set (t ! j) \<or> j = i \<and> e \<in> set c"
    using assms(1) by (cases "j = i") (auto simp: chains_ok_def)
  then show "e_h e = hf (e_k e)" "indexFor n (e_h e) = j" using assms(2) chains_okD [OF assms(1) j] by auto
qed

text \<open>Facts of a table that depend only on which entries it has.\<close>

lemma map_of_mset:
  assumes "mset es = mset es'" and "distinct (map e_k es)"
  shows "map_of (map (\<lambda>e. (e_k e, e_v e)) es) = map_of (map (\<lambda>e. (e_k e, e_v e)) es')"
proof (rule map_of_eqI)
  let ?kv = "\<lambda>e. (e_k e, e_v e)"
  have s: "set es = set es'" using assms(1) by (rule mset_eq_setD)
  show "set (map fst (map ?kv es)) = set (map fst (map ?kv es'))" using s by simp
  have d': "distinct (map fst (map ?kv es'))"
    using assms mset_eq_imp_distinct_iff [of "map e_k es" "map e_k es'"] by (simp add: comp_def)
  have d: "distinct (map fst (map ?kv es))" using assms(2) by (simp add: comp_def)
  have "map_of (map ?kv es) k = Some v \<longleftrightarrow> map_of (map ?kv es') k = Some v" for k v
    unfolding map_of_eq_Some_iff [OF d] map_of_eq_Some_iff [OF d'] using s by auto
  then have "map_of (map ?kv es) k = map_of (map ?kv es') k" for k by (rule option_eqI)
  then show "\<forall>k \<in> set (map fst (map ?kv es)). map_of (map ?kv es) k = map_of (map ?kv es') k"
    by blast
qed

section \<open>Growing\<close>

lemma transfer_chain_ok:
  assumes "0 < n" and "chains_ok hf n nt" and "\<forall>e \<in> set es. e_h e = hf (e_k e)"
  shows "chains_ok hf n (transfer_chain n es nt) \<and> mset (concat (transfer_chain n es nt)) = mset es + mset (concat nt)"
  using assms
proof (induction es arbitrary: nt)
  case (Cons e es)
  let ?i = "indexFor n (e_h e)"
  have i: "?i < length nt" using Cons.prems(1,2) by (simp add: chains_ok_def indexFor_less)
  have "chains_ok hf n (nt[?i := e # nt ! ?i])"
  proof (rule chains_ok_update [OF Cons.prems(2)])
    have "?i < n" using Cons.prems(1) by (rule indexFor_less)
    then show "\<forall>x \<in> set (e # nt ! ?i). e_h x = hf (e_k x) \<and> indexFor n (e_h x) = ?i"
      using chains_okD [OF Cons.prems(2)] Cons.prems(3) by (metis list.set_intros(1) set_ConsD)
  qed
  then show ?case using Cons.IH [of "nt[?i := e # nt ! ?i]"] Cons.prems i by (simp add: Let_def mset_concat_Cons)
qed simp

lemma transfer_ok:
  assumes "0 < n" and "chains_ok hf n nt" and "\<forall>es \<in> set t. \<forall>e \<in> set es. e_h e = hf (e_k e)"
  shows "chains_ok hf n (foldl (\<lambda>nt es. transfer_chain n es nt) nt t) \<and>
    mset (concat (foldl (\<lambda>nt es. transfer_chain n es nt) nt t)) = mset (concat t) + mset (concat nt)"
  using assms(2,3)
proof (induction t arbitrary: nt)
  case (Cons es t)
  then show ?case using transfer_chain_ok [OF assms(1) Cons.prems(1), of es] by (simp add: ac_simps)
qed simp

lemma chains_ok_replicate: "chains_ok hf n (replicate n [])"
  by (simp add: chains_ok_def)

lemma ht_hash_update [simp]:
  "ht_hash (h\<lparr>ht_table := t\<rparr>) = ht_hash h" "ht_hash (h\<lparr>tablelength := n\<rparr>) = ht_hash h"
  "ht_hash (h\<lparr>entrycount := c\<rparr>) = ht_hash h" "ht_hash (h\<lparr>loadlimit := c\<rparr>) = ht_hash h"
  "ht_hash (h\<lparr>primeindex := n\<rparr>) = ht_hash h"
  by (simp_all add: ht_hash_def fun_eq_iff)

lemma expand_inv:
  assumes "ht_inv h" and "ok \<or> \<not> rok"
  shows "\<exists>rc h'. hashtable_expand fl ok rok h = Some (rc, h') \<and> ht_inv h' \<and> ht_map h' = ht_map h \<and>
    mset (ht_entries h') = mset (ht_entries h) \<and> hashfn h' = hashfn h"
proof (cases "primeindex h = prime_table_length - 1 \<or> \<not> ok")
  case True
  then show ?thesis using assms by (auto simp: hashtable_expand_def Let_def)
next
  case False
  have p: "primeindex h + 1 < length primes" using assms(1) False unfolding ht_inv_def prime_table_length_def by linarith
  define n where "n = primes ! (primeindex h + 1)"
  define t where "t = foldl (\<lambda>nt chain. transfer_chain n chain nt) (replicate n []) (ht_table h)"
  define h' where "h' = h\<lparr>ht_table := t, primeindex := primeindex h + 1, tablelength := n, loadlimit := load_limit fl n\<rparr>"
  have n: "0 < n" using primes_pos [OF p] by (simp add: n_def)
  have c: "chains_ok (ht_hash h) (tablelength h) (ht_table h)" using assms(1) unfolding ht_inv_def by blast
  have "\<forall>es \<in> set (ht_table h). \<forall>e \<in> set es. e_h e = ht_hash h (e_k e)"
    using chains_ok_hash [OF c] by blast
  from transfer_ok [OF n chains_ok_replicate this]
  have t: "chains_ok (ht_hash h) n t" "mset (concat t) = mset (ht_entries h)" by (simp_all add: t_def ht_entries_def)
  have ent: "ht_entries h' = concat t" "ht_hash h' = ht_hash h" by (simp_all add: h'_def ht_entries_def)
  have d: "distinct (map e_k (ht_entries h))" using assms(1) by (simp add: ht_inv_def)
  have "distinct (map e_k (concat t))"
    using d t(2) mset_eq_imp_distinct_iff [of "map e_k (concat t)" "map e_k (ht_entries h)"] by simp
  moreover have "length (concat t) = length (ht_entries h)" using t(2) by (rule mset_eq_length)
  ultimately have "ht_inv h'"
    using assms(1) p t(1) unfolding ht_inv_def ent by (simp add: h'_def n_def)
  moreover have "ht_map h' = ht_map h"
    unfolding ht_map_def ent using map_of_mset [OF t(2) [symmetric] d] by simp
  moreover have "hashtable_expand fl ok rok h = Some (-1, h')"
    using False by (simp add: hashtable_expand_def h'_def t_def n_def Let_def)
  ultimately show ?thesis using ent(1) t(2) by (auto simp: h'_def)
qed

section \<open>Insertion and removal\<close>

definition ht_fine :: "bool \<times> bool \<times> bool \<Rightarrow> bool" where
  "ht_fine oom \<longleftrightarrow> fst oom \<or> \<not> fst (snd oom)"

definition ht_count :: "('k, 'v) hashtable \<Rightarrow> nat" where
  "ht_count h = length (ht_entries h)"

abbreviation ht_room :: nat where
  "ht_room \<equiv> 4294967295"

lemma link_entry:
  assumes "ht_inv h" and "ht_map h k = None" and "ht_count h < ht_room" and "e = \<lparr>e_k = k, e_v = v, e_h = ht_hash h k\<rparr>"
    and "i = indexFor (tablelength h) (e_h e)"
    and "h' = h\<lparr>ht_table := (ht_table h)[i := e # ht_table h ! i], entrycount := entrycount h + 1\<rparr>"
  shows "ht_inv h' \<and> ht_map h' = (ht_map h)(k \<mapsto> v) \<and> ht_count h' = ht_count h + 1"
proof -
  have n: "0 < tablelength h" using assms(1) primes_pos by (simp add: ht_inv_def)
  have c: "chains_ok (ht_hash h) (tablelength h) (ht_table h)" using assms(1) unfolding ht_inv_def by blast
  have i: "i < tablelength h" "i < length (ht_table h)" using c indexFor_less [OF n] assms(5) by (simp_all add: chains_ok_def)
  have m: "mset (ht_entries h') = mset (e # ht_entries h)"
    using mset_concat_Cons [OF i(2)] assms(6) by (simp add: ht_entries_def)
  have "k \<notin> e_k ` set (ht_entries h)" using assms(2) by (simp add: ht_map_def map_of_eq_None_iff image_image)
  then have d: "distinct (map e_k (e # ht_entries h))" using assms(1,4) by (simp add: ht_inv_def)
  then have d': "distinct (map e_k (ht_entries h'))"
    using m mset_eq_imp_distinct_iff [of "map e_k (ht_entries h')" "map e_k (e # ht_entries h)"] by simp
  have len: "length (ht_entries h') = length (ht_entries h) + 1" using mset_eq_length [OF m] by simp
  have "chains_ok (ht_hash h) (tablelength h) ((ht_table h)[i := e # ht_table h ! i])"
  proof (rule chains_ok_update [OF c])
    have "e_h e = ht_hash h (e_k e) \<and> indexFor (tablelength h) (e_h e) = i" by (simp add: assms(4,5))
    moreover have "x = e \<or> x \<in> set (ht_table h ! i)" if "x \<in> set (e # ht_table h ! i)" for x using that by simp
    ultimately show "\<forall>x \<in> set (e # ht_table h ! i). e_h x = ht_hash h (e_k x) \<and> indexFor (tablelength h) (e_h x) = i"
      using chains_okD [OF c i(1)] by blast
  qed
  moreover have "ht_hash h' = ht_hash h" by (simp add: assms(6))
  ultimately have "ht_inv h'"
    using assms(1,3) d' len unfolding ht_inv_def by (simp add: assms(6) ht_count_def)
  moreover have "ht_map h' = (ht_map h)(k \<mapsto> v)"
    using map_of_mset [OF m [symmetric] d] assms(4) unfolding ht_map_def by simp
  ultimately show ?thesis using len by (simp add: ht_count_def)
qed

lemma insert_law:
  assumes "ht_inv h" and "ht_map h k = None" and "ht_count h < ht_room" and "ht_fine oom"
  shows "\<exists>rc h'. hashtable_insert fl oom k v h = Some (rc, h') \<and> ht_inv h' \<and> ht_count h' \<le> ht_count h + 1 \<and>
    ht_map h' = (if rc \<noteq> 0 then (ht_map h)(k \<mapsto> v) else ht_map h)"
proof -
  obtain ok rok eok where o: "oom = (ok, rok, eok)" "ok \<or> \<not> rok" using assms(4) by (cases oom) (auto simp: ht_fine_def)
  define h0 where "h0 = h\<lparr>entrycount := entrycount h + 1\<rparr>"
  define grow where "grow = (entrycount h0 > loadlimit h0)"
  \<comment> \<open>the table before the entry is counted\<close>
  obtain h1 where h1: "(if grow then map_option snd (hashtable_expand fl ok rok h0) else Some h0) =
      Some (h1\<lparr>entrycount := entrycount h1 + 1\<rparr>)" "ht_inv h1" "ht_map h1 = ht_map h" "ht_count h1 = ht_count h"
  proof (cases grow)
    case True
    from expand_inv [OF assms(1) o(2)] obtain rc h' where e: "hashtable_expand fl ok rok h = Some (rc, h')" "ht_inv h'"
      "ht_map h' = ht_map h" "mset (ht_entries h') = mset (ht_entries h)" by blast
    have "length (ht_entries h') = length (ht_entries h)" using e(4) by (rule mset_eq_length)
    moreover have "entrycount h' = entrycount h"
      using e(2) assms(1) calculation by (simp add: ht_inv_def)
    then have "hashtable_expand fl ok rok h0 = Some (rc, h'\<lparr>entrycount := entrycount h' + 1\<rparr>)"
      using e(1) by (auto simp: hashtable_expand_def h0_def Let_def split: if_splits)
    ultimately show ?thesis using that [of h'] True e by (simp add: ht_count_def)
  next
    case False
    then show ?thesis using that [of h] assms(1) by (simp add: h0_def)
  qed
  show ?thesis
  proof (cases eok)
    case False
    then have "hashtable_insert fl oom k v h = Some (0, h1)"
      using h1(1) by (simp add: hashtable_insert_def o(1) Let_def h0_def [symmetric] grow_def)
    then show ?thesis using h1 by auto
  next
    case True
    define e where "e = \<lparr>e_k = k, e_v = v, e_h = ht_hash h1 k\<rparr>"
    define i where "i = indexFor (tablelength h1) (e_h e)"
    define h2 where "h2 = h1\<lparr>ht_table := (ht_table h1)[i := e # ht_table h1 ! i], entrycount := entrycount h1 + 1\<rparr>"
    have "hashtable_insert fl oom k v h = Some (-1, h2)"
      using True h1(1)
      by (simp add: hashtable_insert_def o(1) Let_def h0_def [symmetric] grow_def h2_def i_def e_def)
    moreover have "ht_inv h2 \<and> ht_map h2 = (ht_map h1)(k \<mapsto> v) \<and> ht_count h2 = ht_count h1 + 1"
      using assms(2,3) h1(2-4) by (intro link_entry [OF _ _ _ e_def i_def h2_def]) simp_all
    ultimately show ?thesis using h1 by auto
  qed
qed

lemma remove_chain_ok:
  assumes "\<forall>e \<in> set es. e_h e = ht_hash h (e_k e)" and "eqfn h = (=)"
  shows "(remove_chain h k es = None \<and> k \<notin> e_k ` set es) \<or>
    (\<exists>xs e ys. es = xs @ e # ys \<and> e_k e = k \<and> k \<notin> e_k ` set xs \<and> remove_chain h k es = Some (e_v e, xs @ ys))"
  using assms(1)
proof (induction es)
  case (Cons e es)
  show ?case
  proof (cases "e_k e = k")
    case True
    then have "remove_chain h k (e # es) = Some (e_v e, [] @ es)"
      using Cons.prems assms(2) by (simp add: ht_match_def)
    moreover have "e # es = [] @ e # es \<and> k \<notin> e_k ` set []" by simp
    ultimately show ?thesis using True by blast
  next
    case False
    then have r: "remove_chain h k (e # es) = map_option (\<lambda>(v, es). (v, e # es)) (remove_chain h k es)"
      using assms(2) by (simp add: ht_match_def)
    from Cons.IH Cons.prems consider "remove_chain h k es = None" "k \<notin> e_k ` set es"
      | xs x ys where "es = xs @ x # ys" "e_k x = k" "k \<notin> e_k ` set xs" "remove_chain h k es = Some (e_v x, xs @ ys)" by auto
    then show ?thesis
    proof cases
      case 1
      then show ?thesis using r False by auto
    next
      case (2 xs x ys)
      have "e # es = (e # xs) @ x # ys \<and> k \<notin> e_k ` set (e # xs) \<and> remove_chain h k (e # es) = Some (e_v x, (e # xs) @ ys)"
        using 2 r False by auto
      then show ?thesis using 2(2) by blast
    qed
  qed
qed simp

lemma remove_law:
  assumes "ht_inv h"
  shows "\<exists>h'. hashtable_remove k h = (ht_map h k, h') \<and> ht_inv h' \<and> ht_count h' \<le> ht_count h \<and> ht_map h' = (ht_map h)(k := None)"
proof -
  define i where "i = indexFor (tablelength h) (ht_hash h k)"
  have n: "0 < tablelength h" using assms primes_pos by (simp add: ht_inv_def)
  have c: "chains_ok (ht_hash h) (tablelength h) (ht_table h)" using assms unfolding ht_inv_def by blast
  have i: "i < tablelength h" "i < length (ht_table h)" using c indexFor_less [OF n] by (simp_all add: chains_ok_def i_def)
  have d: "distinct (map e_k (ht_entries h))" and q: "eqfn h = (=)" using assms by (simp_all add: ht_inv_def)
  have here: "ht_map h k = map_of (map (\<lambda>e. (e_k e, e_v e)) (ht_table h ! i)) k"
    using map_of_chain [OF c n] d by (simp add: ht_map_def ht_entries_def i_def)
  have "\<forall>e \<in> set (ht_table h ! i). e_h e = ht_hash h (e_k e)" using chains_okD [OF c i(1)] by blast
  from remove_chain_ok [OF this q, of k] consider
    "remove_chain h k (ht_table h ! i) = None" "k \<notin> e_k ` set (ht_table h ! i)"
    | xs e ys where "ht_table h ! i = xs @ e # ys" "e_k e = k" "k \<notin> e_k ` set xs"
      "remove_chain h k (ht_table h ! i) = Some (e_v e, xs @ ys)" by auto
  then show ?thesis
  proof cases
    case 1
    then have "ht_map h k = None" using here by (simp add: map_of_eq_None_iff image_image)
    then show ?thesis using 1(1) assms by (auto simp: hashtable_remove_def i_def Let_def fun_upd_idem_iff)
  next
    case (2 xs e ys)
    define h' where "h' = h\<lparr>ht_table := (ht_table h)[i := xs @ ys], entrycount := entrycount h - 1\<rparr>"
    have "mset (concat ((ht_table h)[i := xs @ ys])) + mset (xs @ e # ys) = mset (concat (ht_table h)) + mset (xs @ ys)"
      using mset_concat_update [OF i(2), of "xs @ ys"] 2(1) by simp
    then have m: "mset (ht_entries h) = mset (e # ht_entries h')" by (simp add: ht_entries_def h'_def)
    have len: "length (ht_entries h) = length (ht_entries h') + 1" using mset_eq_length [OF m] by simp
    have d': "distinct (map e_k (e # ht_entries h'))"
      using d m mset_eq_imp_distinct_iff [of "map e_k (ht_entries h)" "map e_k (e # ht_entries h')"] by simp
    have "chains_ok (ht_hash h) (tablelength h) ((ht_table h)[i := xs @ ys])"
    proof (rule chains_ok_update [OF c])
      show "\<forall>x \<in> set (xs @ ys). e_h x = ht_hash h (e_k x) \<and> indexFor (tablelength h) (e_h x) = i"
      proof
        fix x
        assume "x \<in> set (xs @ ys)"
        then have "x \<in> set (ht_table h ! i)" unfolding 2(1) by auto
        then show "e_h x = ht_hash h (e_k x) \<and> indexFor (tablelength h) (e_h x) = i" by (rule chains_okD [OF c i(1)])
      qed
    qed
    moreover have "ht_hash h' = ht_hash h" by (simp add: h'_def)
    moreover have f: "primeindex h' = primeindex h" "tablelength h' = tablelength h" "eqfn h' = eqfn h"
      "ht_table h' = (ht_table h)[i := xs @ ys]" "entrycount h' = entrycount h - 1"
      by (simp_all add: h'_def)
    moreover have "entrycount h = of_nat (length (ht_entries h')) + 1" using assms len by (simp add: ht_inv_def)
    ultimately have "ht_inv h'" using assms d' len unfolding ht_inv_def f by simp
    moreover have "ht_map h' = (ht_map h)(k := None)"
    proof -
      have "ht_map h = (ht_map h')(k \<mapsto> e_v e)"
        using map_of_mset [OF m d] 2(2) by (simp add: ht_map_def)
      moreover have "ht_map h' k = None" using d' 2(2) by (simp add: ht_map_def map_of_eq_None_iff image_image)
      ultimately show ?thesis by (auto simp: fun_eq_iff)
    qed
    moreover have "ht_map h k = Some (e_v e)"
      using map_of_mset [OF m d] 2(2) by (simp add: ht_map_def)
    then have "hashtable_remove k h = (ht_map h k, h')"
      using 2(4) by (simp add: hashtable_remove_def Let_def i_def [symmetric] h'_def)
    ultimately show ?thesis using len by (auto simp: ht_count_def)
  qed
qed

lemma hashtable_search_eq: "ht_inv h \<Longrightarrow> hashtable_search h = ht_map h"
  by (rule ext) (rule hashtable_search_map)

interpretation hash_dict: dictionary ht_inv hashtable_search ht_count ht_room "hashtable_insert fl" hashtable_remove ht_fine for fl
proof (unfold_locales, goal_cases)
  case (1 h k oom v)
  then show ?case using insert_law [of h k oom fl v] by (auto simp: hashtable_search_eq)
next
  case (2 h k)
  then show ?case using remove_law [of h k] by (auto simp: hashtable_search_eq)
qed

section \<open>From creation on\<close>

lemma choose_size_found:
  "\<exists>p \<in> set ps. minsize < p \<Longrightarrow> \<exists>i < length ps. choose_size minsize j ps = (ps ! i, j + i)"
proof (induction ps arbitrary: j)
  case (Cons p ps)
  show ?case
  proof (cases "minsize < p")
    case False
    then obtain i where "i < length ps" "choose_size minsize (j + 1) ps = (ps ! i, j + 1 + i)"
      using Cons.IH [of "j + 1"] Cons.prems by auto
    then show ?thesis using False by (intro exI [of _ "Suc i"]) simp
  qed auto
qed simp

lemma create_inv:
  assumes "create_hashtable fl oks minsize hf (=) = Some h"
  shows "ht_inv h \<and> ht_count h = 0 \<and> hashtable_search h = Map.empty \<and> hashfn h = hf"
proof -
  have "unat minsize \<le> 2 ^ 30"
    using assms by (auto simp: create_hashtable_def word_le_nat_alt not_less split: if_splits)
  then have "\<exists>p \<in> set primes. unat minsize < p"
    by (intro bexI [of _ 1610612741]) (simp_all add: primes_def)
  from choose_size_found [OF this, of 0] obtain i where i: "i < length primes"
    "choose_size (unat minsize) 0 primes = (primes ! i, i)" by auto
  then have h: "h = \<lparr>ht_table = replicate (primes ! i) [], tablelength = primes ! i, entrycount = 0,
      loadlimit = load_limit fl (primes ! i), primeindex = i, hashfn = hf, eqfn = (=)\<rparr>"
    using assms by (auto simp: create_hashtable_def split: if_splits)
  have ent: "ht_entries h = []" by (simp add: ht_entries_def h)
  have "ht_inv h" unfolding ht_inv_def ent using i(1) by (simp add: h chains_ok_replicate)
  moreover have "ht_map h = Map.empty" by (simp add: ht_map_def ent)
  ultimately show ?thesis by (simp add: ht_count_def ent hashtable_search_eq) (simp add: h)
qed

lemma count_card:
  assumes "ht_inv h"
  shows "unat (hashtable_count h) = card (dom (hashtable_search h))"
proof -
  have "dom (ht_map h) = e_k ` set (ht_entries h)" by (simp add: ht_map_def dom_map_of_conv_image_fst image_image)
  moreover have "card (e_k ` set (ht_entries h)) = length (ht_entries h)"
    using assms distinct_card [of "map e_k (ht_entries h)"] by (simp add: ht_inv_def)
  ultimately show ?thesis
    using assms by (simp add: hashtable_count_def hashtable_search_eq [OF assms] ht_inv_def unat_of_nat)
qed

text \<open>C37: From its creation on, over any sequence of searches, removals and insertions of keys that a
  search did not find, the hash table answers as a map does and counts its entries, whatever the
  hash function and however often the table grows; an insertion that finds no memory changes
  nothing. The one exception is an expansion for which malloc fails and realloc succeeds.\<close>

theorem hashtable_refines_map:
  assumes "create_hashtable fl oks minsize hf (=) = Some h0" and "length ops \<le> 4294967295"
    and "\<forall>x \<in> set ops. \<forall>(ok, rok, eok) \<in> set_option (outside x). ok \<or> \<not> rok"
  shows "\<exists>rs h. dict_run hashtable_search (hashtable_insert fl) hashtable_remove ops h0 = Some (rs, h) \<and>
    map_run ops rs Map.empty = Some (hashtable_search h) \<and> unat (hashtable_count h) = card (dom (hashtable_search h))"
proof -
  have 0: "ht_inv h0" "ht_count h0 = 0" "hashtable_search h0 = Map.empty" using create_inv [OF assms(1)] by simp_all
  have "\<forall>x \<in> set ops. \<forall>oom \<in> set_option (outside x). ht_fine oom" using assms(3) by (auto simp: ht_fine_def)
  then show ?thesis using hash_dict.run_law [OF 0(1), of ops fl] 0(2,3) assms(2) count_card by fastforce
qed

theorem hashtable_refines_map_witness:
  "\<exists>h0 rs h. create_hashtable (\<lambda>x. x) (True, True) 128 (\<lambda>k :: nat. 7) (=) = Some h0 \<and>
     dict_run hashtable_search (hashtable_insert (\<lambda>x. x)) hashtable_remove
       [Add (True, False, True) 1 ''a'', Add (False, False, False) 2 ''b'', Add (True, False, True) 1 ''c'', Del 1] h0 = Some (rs, h)"
proof -
  have "\<not> (128 :: u32) > push_bit 30 1" by code_simp
  then obtain h0 :: "(nat, string) hashtable" where h0: "create_hashtable (\<lambda>x. x) (True, True) 128 (\<lambda>k. 7) (=) = Some h0"
    by (simp add: create_hashtable_def primes_def)
  from hashtable_refines_map [OF h0, of "[Add (True, False, True) 1 ''a'', Add (False, False, False) 2 ''b'',
      Add (True, False, True) 1 ''c'', Del 1]"] h0 show ?thesis by auto
qed

end
