(* ===== verification/SimNoise.thy ===== *)
theory SimNoise
  imports SimRandomlib SimDictionary
begin

text \<open>
  The noise model of the simulator (\<open>tossim/sim_noise.c\<close>): per node a trace of noise readings, and for
  every pattern of twenty binned readings that occurs in it the readings that followed, from which
  new noise is drawn. A pointer to a pattern's record is its index in \<open>hashes\<close>. Floats and doubles
  are reals; \<open>fl\<close> rounds to a float, \<open>rnd\<close> to a double. Memory is taken to suffice. None is an access
  outside an array or through NULL.
\<close>

section \<open>Constants and state\<close>

definition NOISE_MIN :: int where "NOISE_MIN = -115"
definition NOISE_MAX :: int where "NOISE_MAX = -5"
definition NOISE_MIN_QUANTIZE :: int where "NOISE_MIN_QUANTIZE = -115"
definition NOISE_QUANTIZE_INTERVAL :: int where "NOISE_QUANTIZE_INTERVAL = 5"
definition NOISE_HISTORY :: nat where "NOISE_HISTORY = 20"
definition NOISE_DEFAULT_ELEMENT_SIZE :: int where "NOISE_DEFAULT_ELEMENT_SIZE = 8"
definition NOISE_HASHTABLE_SIZE :: u32 where "NOISE_HASHTABLE_SIZE = 128"
definition NOISE_MIN_TRACE :: nat where "NOISE_MIN_TRACE = 128"
definition NOISE_NUM_VALUES :: nat where "NOISE_NUM_VALUES = 111"

text \<open>A char is a byte read as signed. \<open>elements\<close> holds the elements stored so far, \<open>numElements\<close> is how
  many, \<open>nh_size\<close> the room for them.\<close>

record noise_hash =
  nh_key :: bytes
  nh_size :: int
  elements :: bytes
  flag :: bool
  dist :: "real list"

definition numElements :: "noise_hash \<Rightarrow> int" where
  "numElements h = int (length (elements h))"

record noise_node =
  node_key :: "bytes list"
  freqKey :: bytes
  lastNoiseVal :: bytes
  noiseGenTime :: "u32 list"
  noiseTable :: "(bytes, nat) hashtable"
  noiseTrace :: bytes
  noiseTraceLen :: u32
  noiseTraceIndex :: u32
  generated :: bool

record noise_state = random_state +
  noiseData :: "noise_node list"
  hashes :: "noise_hash list"
  FreqKeyNum :: u32
  numCase1 :: int
  numCase2 :: int
  numTotal :: int

definition node_at :: "nat \<Rightarrow> noise_state \<Rightarrow> noise_node option" where
  "node_at n st = array_get (noiseData st) (int n)"

definition put_node :: "nat \<Rightarrow> noise_node \<Rightarrow> noise_state \<Rightarrow> noise_state" where
  "put_node n nd st = st\<lparr>noiseData := (noiseData st)[n := nd]\<rparr>"

section \<open>Binning and keys\<close>

definition search_bin_num :: "u8 \<Rightarrow> u8" where
  "search_bin_num noise =
     (let n = (if sint noise > NOISE_MAX \<or> sint noise < NOISE_MIN then NOISE_MIN else sint noise)
      in word_of_int ((n - NOISE_MIN) div NOISE_QUANTIZE_INTERVAL + 1))"

definition search_noise_from_bin_num :: "int \<Rightarrow> u8" where
  "search_noise_from_bin_num i = word_of_int (NOISE_MIN + (i - 1) * NOISE_QUANTIZE_INTERVAL)"

definition sim_noise_hash :: "bytes \<Rightarrow> u32" where
  "sim_noise_hash key =
     foldl (\<lambda>hashVal c. scast c + push_bit 6 hashVal + push_bit 16 hashVal - hashVal) 0 (take NOISE_HISTORY key)"

definition sim_noise_eq :: "bytes \<Rightarrow> bytes \<Rightarrow> bool" where
  "sim_noise_eq = (=)"

definition cchannel :: "u8 \<Rightarrow> int" where
  "cchannel channel = (if 11 \<le> channel \<and> channel \<le> 26 then uint channel - 11 else uint channel)"

text \<open>The key of a node and channel, and storing one.\<close>

definition key_at :: "nat \<Rightarrow> int \<Rightarrow> noise_state \<Rightarrow> bytes option" where
  "key_at n c st = Option.bind (node_at n st) (\<lambda>nd. array_get (node_key nd) c)"

definition put_key :: "nat \<Rightarrow> int \<Rightarrow> bytes \<Rightarrow> noise_state \<Rightarrow> noise_state option" where
  "put_key n c key st = do {
     nd \<leftarrow> node_at n st;
     ks \<leftarrow> array_set (node_key nd) c key;
     Some (put_node n (nd\<lparr>node_key := ks\<rparr>) st)
   }"

text \<open>The overlapping \<open>memcpy\<close>, taken to copy upwards.\<close>

definition arrangeKey :: "nat \<Rightarrow> u8 \<Rightarrow> noise_state \<Rightarrow> noise_state option" where
  "arrangeKey n channel st = do {
     key \<leftarrow> key_at n (cchannel channel) st;
     moved \<leftarrow> rdn key 1 (NOISE_HISTORY - 1);
     key \<leftarrow> wrn key 0 moved;
     put_key n (cchannel channel) key st
   }"

text \<open>\<open>key[c][NOISE_HISTORY - 1] = search_bin_num(noise)\<close>\<close>

definition set_last :: "nat \<Rightarrow> int \<Rightarrow> u8 \<Rightarrow> noise_state \<Rightarrow> noise_state option" where
  "set_last n c noise st = do {
     key \<leftarrow> key_at n c st;
     key \<leftarrow> wr8 key (NOISE_HISTORY - 1) (search_bin_num noise);
     put_key n c key st
   }"

section \<open>The trace\<close>

definition sim_noise_init :: "(real \<Rightarrow> real) \<Rightarrow> (nat \<Rightarrow> bytes list \<times> bytes \<times> bytes) \<Rightarrow> noise_state \<Rightarrow> noise_state option" where
  "sim_noise_init fl mem st =
     map_option (\<lambda>table. st\<lparr>noiseData :=
         map (\<lambda>(j, nd). nd\<lparr>noiseGenTime := replicate 16 0, node_key := fst (mem j), noiseTable := table,
             noiseTrace := fst (snd (mem j)), noiseTraceLen := of_nat NOISE_MIN_TRACE, noiseTraceIndex := 0\<rparr>)
           (zip [0..<length (noiseData st)] (noiseData st))\<rparr>)
       (create_hashtable fl (True, True) NOISE_HASHTABLE_SIZE sim_noise_hash sim_noise_eq)"

definition sim_real_noise :: "nat \<Rightarrow> u32 \<Rightarrow> noise_state \<Rightarrow> u8 option" where
  "sim_real_noise n cur_t st = do {
     nd \<leftarrow> node_at n st;
     if cur_t > noiseTraceLen nd then Some 0 else rd8 (noiseTrace nd) (unat cur_t)
   }"

text \<open>\<open>fresh\<close> is what the upper half of the doubled array holds.\<close>

definition sim_noise_trace_add :: "bytes \<Rightarrow> nat \<Rightarrow> u8 \<Rightarrow> noise_state \<Rightarrow> noise_state option" where
  "sim_noise_trace_add fresh n noiseVal st = do {
     nd \<leftarrow> node_at n st;
     let nd = (if noiseTraceIndex nd = noiseTraceLen nd
               then nd\<lparr>noiseTrace := noiseTrace nd @ take (length (noiseTrace nd)) fresh, noiseTraceLen := noiseTraceLen nd * 2\<rparr>
               else nd);
     t \<leftarrow> wr8 (noiseTrace nd) (unat (noiseTraceIndex nd)) noiseVal;
     Some (put_node n (nd\<lparr>noiseTrace := t, noiseTraceIndex := noiseTraceIndex nd + 1\<rparr>) st)
   }"

section \<open>Patterns\<close>

definition sim_noise_add :: "(real \<Rightarrow> real) \<Rightarrow> nat \<Rightarrow> u8 \<Rightarrow> noise_state \<Rightarrow> noise_state option" where
  "sim_noise_add fl n noise st = do {
     nd \<leftarrow> node_at n st;
     key \<leftarrow> array_get (node_key nd) 0;
     (p, st) \<leftarrow>
       (case hashtable_search (noiseTable nd) key of
          Some p \<Rightarrow> Some (p, st)
        | None \<Rightarrow> do {
            let h = \<lparr>nh_key = take NOISE_HISTORY key, nh_size = NOISE_DEFAULT_ELEMENT_SIZE, elements = [], flag = False,
                     dist = replicate NOISE_NUM_VALUES 0\<rparr>;
            let p = length (hashes st);
            (_, table) \<leftarrow> hashtable_insert fl (True, True, True) key p (noiseTable nd);
            Some (p, put_node n (nd\<lparr>noiseTable := table\<rparr>) (st\<lparr>hashes := hashes st @ [h]\<rparr>))
          });
     h \<leftarrow> array_get (hashes st) (int p);
     let h = (if numElements h = nh_size h then h\<lparr>nh_size := nh_size h * 2\<rparr> else h);
     if nh_size h < 2 ^ 31 \<and> numElements h < nh_size h
     then Some (st\<lparr>hashes := (hashes st)[p := h\<lparr>elements := elements h @ [noise]\<rparr>]\<rparr>) else None
   }"

text \<open>The loop that counts, and the loop that turns counts into a cumulative distribution.\<close>

fun count_bins :: "(real \<Rightarrow> real) \<Rightarrow> real list \<Rightarrow> bytes \<Rightarrow> real list option" where
  "count_bins fl d [] = Some d"
| "count_bins fl d (e # es) = do {
     let bin = (word_of_int (sint e - NOISE_MIN_QUANTIZE) :: u8);
     val \<leftarrow> array_get d (uint bin);
     d \<leftarrow> array_set d (uint bin) (fl (val + 1));
     count_bins fl d es
   }"

fun cumulate :: "(real \<Rightarrow> real) \<Rightarrow> int \<Rightarrow> real \<Rightarrow> real list \<Rightarrow> real list" where
  "cumulate fl num cmf [] = []"
| "cumulate fl num cmf (d # ds) =
     (let d = fl (d / fl (real_of_int num)); cmf = fl (cmf + d) in cmf # cumulate fl num cmf ds)"

definition sim_noise_dist :: "(real \<Rightarrow> real) \<Rightarrow> nat \<Rightarrow> noise_state \<Rightarrow> noise_state option" where
  "sim_noise_dist fl n st = do {
     nd \<leftarrow> node_at n st;
     key \<leftarrow> array_get (node_key nd) 0;
     p \<leftarrow> hashtable_search (noiseTable nd) key;
     h \<leftarrow> array_get (hashes st) (int p);
     if flag h then Some st
     else do {
       d \<leftarrow> count_bins fl (replicate NOISE_NUM_VALUES 0) (elements h);
       let d = cumulate fl (numElements h) 0 d;
       let st = st\<lparr>hashes := (hashes st)[p := h\<lparr>dist := d, flag := True\<rparr>]\<rparr>;
       if word_of_int (numElements h) > FreqKeyNum st
       then Some (put_node n (nd\<lparr>freqKey := take NOISE_HISTORY key\<rparr>) (st\<lparr>FreqKeyNum := word_of_int (numElements h)\<rparr>))
       else Some st
     }
   }"

section \<open>Building the model\<close>

text \<open>The first twenty readings, binned.\<close>

definition first_key :: "noise_node \<Rightarrow> bytes option" where
  "first_key nd = map_option (map search_bin_num) (rdn (noiseTrace nd) 0 NOISE_HISTORY)"

text \<open>One turn of the loops over the trace, after their call for the reading at \<open>i\<close>.\<close>

definition shift_in :: "nat \<Rightarrow> nat \<Rightarrow> noise_state \<Rightarrow> noise_state option" where
  "shift_in n i st = do {
     st \<leftarrow> arrangeKey n 11 st;
     nd \<leftarrow> node_at n st;
     noise \<leftarrow> rd8 (noiseTrace nd) i;
     set_last n 0 noise st
   }"

fun add_loop :: "(real \<Rightarrow> real) \<Rightarrow> nat \<Rightarrow> nat list \<Rightarrow> noise_state \<Rightarrow> noise_state option" where
  "add_loop fl n [] st = Some st"
| "add_loop fl n (i # is) st = do {
     nd \<leftarrow> node_at n st;
     noise \<leftarrow> rd8 (noiseTrace nd) i;
     st \<leftarrow> sim_noise_add fl n noise st;
     st \<leftarrow> shift_in n i st;
     add_loop fl n is st
   }"

definition makeNoiseModel :: "(real \<Rightarrow> real) \<Rightarrow> nat \<Rightarrow> noise_state \<Rightarrow> noise_state option" where
  "makeNoiseModel fl n st = do {
     nd \<leftarrow> node_at n st;
     key \<leftarrow> first_key nd;
     st \<leftarrow> put_key n 0 key st;
     st \<leftarrow> add_loop fl n [NOISE_HISTORY..<unat (noiseTraceIndex nd)] st;
     nd \<leftarrow> node_at n st;
     Some (put_node n (nd\<lparr>generated := True\<rparr>) st)
   }"

fun dist_loop :: "(real \<Rightarrow> real) \<Rightarrow> nat \<Rightarrow> nat list \<Rightarrow> noise_state \<Rightarrow> noise_state option" where
  "dist_loop fl n [] st = Some st"
| "dist_loop fl n (i # is) st = do {
     st \<leftarrow> sim_noise_dist fl n st;
     st \<leftarrow> shift_in n i st;
     dist_loop fl n is st
   }"

definition makePmfDistr :: "(real \<Rightarrow> real) \<Rightarrow> nat \<Rightarrow> noise_state \<Rightarrow> noise_state option" where
  "makePmfDistr fl n st = do {
     nd \<leftarrow> node_at n st;
     key \<leftarrow> first_key nd;
     st \<leftarrow> put_key n 0 key (st\<lparr>FreqKeyNum := 0\<rparr>);
     dist_loop fl n [NOISE_HISTORY..<unat (noiseTraceIndex nd)] st
   }"

definition sim_noise_create_model :: "(real \<Rightarrow> real) \<Rightarrow> nat \<Rightarrow> noise_state \<Rightarrow> noise_state option" where
  "sim_noise_create_model fl n st = do {
     st \<leftarrow> makeNoiseModel fl n st;
     st \<leftarrow> makePmfDistr fl n st;
     nd \<leftarrow> node_at n st;
     key \<leftarrow> array_get (node_key nd) 0;
     Some (put_node n (nd\<lparr>node_key := replicate (length (node_key nd)) key\<rparr>) st)
   }"

section \<open>Generating noise\<close>

text \<open>The bin the loop stops at, 110 when it does not stop early.\<close>

definition select_bin :: "real \<Rightarrow> real list \<Rightarrow> nat" where
  "select_bin ranNum d =
     (case List.find (\<lambda>i. if i = 0 then ranNum \<le> d ! 0 else d ! (i - 1) < ranNum \<and> ranNum \<le> d ! i) [0..<NOISE_NUM_VALUES - 1] of
        Some i \<Rightarrow> i
      | None \<Rightarrow> NOISE_NUM_VALUES - 1)"

definition sim_noise_gen :: "(real \<Rightarrow> real) \<Rightarrow> nat \<Rightarrow> u8 \<Rightarrow> noise_state \<Rightarrow> (u8 \<times> noise_state) option" where
  "sim_noise_gen rnd n channel st = do {
     let c = cchannel channel;
     nd \<leftarrow> node_at n st;
     key \<leftarrow> array_get (node_key nd) c;
     (ranNum, st) \<leftarrow> RandomUniform rnd st;
     (p, st) \<leftarrow>
       (case hashtable_search (noiseTable nd) key of
          Some p \<Rightarrow> Some (p, st)
        | None \<Rightarrow> do {
            key \<leftarrow> wrn key 0 (freqKey nd);
            st \<leftarrow> put_key n c key st;
            p \<leftarrow> hashtable_search (noiseTable nd) key;
            Some (p, st)
          });
     h \<leftarrow> array_get (hashes st) (int p);
     let st = st\<lparr>numTotal := numTotal st + 1\<rparr>;
     if numElements h = 1 then do {
       noise \<leftarrow> rd8 (elements h) 0;
       Some (noise, st\<lparr>numCase1 := numCase1 st + 1\<rparr>)
     }
     else Some (word_of_int (NOISE_MIN_QUANTIZE + int (select_bin ranNum (dist h))), st\<lparr>numCase2 := numCase2 st + 1\<rparr>)
   }"

text \<open>The loop of \<open>sim_noise_generate\<close>; its result is the last noise.\<close>

fun gen_loop :: "(real \<Rightarrow> real) \<Rightarrow> nat \<Rightarrow> u8 \<Rightarrow> nat \<Rightarrow> u8 \<Rightarrow> noise_state \<Rightarrow> (u8 \<times> noise_state) option" where
  "gen_loop rnd n channel 0 noise st = Some (noise, st)"
| "gen_loop rnd n channel (Suc k) noise st = do {
     (noise, st) \<leftarrow> sim_noise_gen rnd n channel st;
     st \<leftarrow> arrangeKey n channel st;
     st \<leftarrow> set_last n (cchannel channel) noise st;
     gen_loop rnd n channel k noise st
   }"

text \<open>\<open>noiseGenTime\<close> and \<open>lastNoiseVal\<close> of a channel.\<close>

definition put_time :: "nat \<Rightarrow> int \<Rightarrow> u32 \<Rightarrow> noise_state \<Rightarrow> noise_state option" where
  "put_time n c t st = do {
     nd \<leftarrow> node_at n st;
     ts \<leftarrow> array_set (noiseGenTime nd) c t;
     Some (put_node n (nd\<lparr>noiseGenTime := ts\<rparr>) st)
   }"

definition put_last_noise :: "nat \<Rightarrow> int \<Rightarrow> u8 \<Rightarrow> noise_state \<Rightarrow> noise_state option" where
  "put_last_noise n c noise st = do {
     nd \<leftarrow> node_at n st;
     vs \<leftarrow> array_set (lastNoiseVal nd) c noise;
     Some (put_node n (nd\<lparr>lastNoiseVal := vs\<rparr>) st)
   }"

definition sim_noise_generate :: "(real \<Rightarrow> real) \<Rightarrow> nat \<Rightarrow> u8 \<Rightarrow> u32 \<Rightarrow> noise_state \<Rightarrow> (u8 \<times> noise_state) option" where
  "sim_noise_generate rnd n channel cur_t st = do {
     let c = cchannel channel;
     nd \<leftarrow> node_at n st;
     prev_t \<leftarrow> array_get (noiseGenTime nd) c;
     if \<not> generated nd then Some (127, st)
     else if unat cur_t < NOISE_HISTORY then do {
       st \<leftarrow> put_time n c cur_t st;
       noise \<leftarrow> rd8 (noiseTrace nd) (unat cur_t);
       key \<leftarrow> key_at n c st;
       key \<leftarrow> wr8 key (unat cur_t) (search_bin_num noise);
       st \<leftarrow> put_key n c key st;
       st \<leftarrow> put_last_noise n c noise st;
       Some (noise, st)
     }
     else do {
       let delta_t = (if prev_t = 0 then cur_t - of_nat (NOISE_HISTORY - 1) else cur_t - prev_t);
       (noise, st) \<leftarrow>
         (if delta_t = 0 then map_option (\<lambda>v. (v, st)) (array_get (lastNoiseVal nd) c)
          else do {
            (noise, st) \<leftarrow> gen_loop rnd n channel (unat delta_t) 0 st;
            st \<leftarrow> put_last_noise n c noise st;
            Some (noise, st)
          });
       st \<leftarrow> put_time n c cur_t st;
       Some (noise, st)
     }
   }"

end
