(* ===== verification/SimRandomProps.thy ===== *)
theory SimRandomProps
  imports SimRandomlib
begin

text \<open>
  The numbers of \<open>RandomUniform\<close> are those of the published generator, computed with integers: every
  double it handles is a multiple of 2 to the power -24, so no operation rounds.
\<close>

section \<open>The grid\<close>

definition grid :: "int \<Rightarrow> real" where
  "grid k = real_of_int k / 16777216"

text \<open>A format with a significand of at least 53 bits represents these values.\<close>

definition rounds_exactly :: "(real \<Rightarrow> real) \<Rightarrow> bool" where
  "rounds_exactly rnd \<longleftrightarrow> (\<forall>k. \<bar>k\<bar> \<le> 2 ^ 53 \<longrightarrow> rnd (grid k) = grid k)"

lemma grid_arith:
  "grid a + grid b = grid (a + b)" "grid a - grid b = grid (a - b)" "grid a + 1 = grid (a + 16777216)"
  "grid a \<le> 0 \<longleftrightarrow> a \<le> 0" "grid a < 0 \<longleftrightarrow> a < 0" "grid a = grid b \<longleftrightarrow> a = b" "grid 0 = 0" "grid 16777216 = 1"
  by (simp_all add: grid_def field_simps)

lemma rnd_grid: "rounds_exactly rnd \<Longrightarrow> - 100000000 \<le> k \<Longrightarrow> k \<le> 100000000 \<Longrightarrow> rnd (grid k) = grid k"
  by (simp add: rounds_exactly_def)

section \<open>The published generator\<close>

text \<open>The last 97 numbers of the Fibonacci sequence, oldest first, and the last of the arithmetic one.\<close>

definition marsaglia_step :: "int list \<times> int \<Rightarrow> int \<times> int list \<times> int" where
  "marsaglia_step s =
     (let (xs, c) = s; x = (xs ! 0 - xs ! 64) mod 16777216; c' = (c - 7654321) mod 16777213
      in ((x - c') mod 16777216, tl xs @ [x], c'))"

fun marsaglia :: "nat \<Rightarrow> int list \<times> int \<Rightarrow> int list" where
  "marsaglia 0 s = []"
| "marsaglia (Suc n) s = (let (r, s') = marsaglia_step s in r # marsaglia n s')"

text \<open>Its seeding: the product sequence modulo 179 from three seeds and the linear one modulo 169 from a
  fourth, each pair of their terms giving a bit, 24 bits a number.\<close>

fun product_seq :: "int \<times> int \<times> int \<Rightarrow> nat \<Rightarrow> int" where
  "product_seq (i, j, k) 0 = i"
| "product_seq (i, j, k) (Suc 0) = j"
| "product_seq (i, j, k) (Suc (Suc 0)) = k"
| "product_seq s (Suc (Suc (Suc n))) =
     (product_seq s n * product_seq s (Suc n) * product_seq s (Suc (Suc n))) mod 179"

fun linear_seq :: "int \<Rightarrow> nat \<Rightarrow> int" where
  "linear_seq l 0 = l"
| "linear_seq l (Suc n) = (53 * linear_seq l n + 1) mod 169"

definition seed_bit :: "int \<times> int \<times> int \<Rightarrow> int \<Rightarrow> nat \<Rightarrow> int" where
  "seed_bit s l n = (if 32 \<le> (product_seq s (n + 3) * linear_seq l (n + 1)) mod 64 then 1 else 0)"

definition seed_number :: "int \<times> int \<times> int \<Rightarrow> int \<Rightarrow> nat \<Rightarrow> int" where
  "seed_number s l q = (\<Sum>r < 24. seed_bit s l (24 * q + r) * 2 ^ (23 - r))"

text \<open>The four seeds from two integers, which are replaced when out of their range, and the state they
  start the generator in.\<close>

definition published_seeds :: "int \<Rightarrow> int \<Rightarrow> (int \<times> int \<times> int) \<times> int" where
  "published_seeds ij kl =
     (if 0 \<le> ij \<and> ij \<le> 31328 \<and> 0 \<le> kl \<and> kl \<le> 30081
      then ((ij div 177 mod 177 + 2, ij mod 177 + 2, kl div 169 mod 178 + 1), kl mod 169)
      else ((1802 div 177 mod 177 + 2, 1802 mod 177 + 2, 9373 div 169 mod 178 + 1), 9373 mod 169))"

definition published_start :: "int \<Rightarrow> int \<Rightarrow> int list \<times> int" where
  "published_start ij kl =
     (let (s, l) = published_seeds ij kl in (rev (map (seed_number s l) [0..<97]), 362436))"

text \<open>The state of the code: the number of \<open>t\<close> steps ago + 1 is at \<open>i97 - 1 - t\<close>, modulo 97.\<close>

definition slot :: "'a random_state_scheme \<Rightarrow> nat \<Rightarrow> nat" where
  "slot st t = nat ((i97 st - 1 - int t) mod 97)"

definition implements :: "'a random_state_scheme \<Rightarrow> int list \<times> int \<Rightarrow> bool" where
  "implements st s \<longleftrightarrow> test st \<and> length (randU st) = 97 \<and> length (fst s) = 97 \<and> 1 \<le> i97 st \<and> i97 st \<le> 97 \<and>
     j97 st = (i97 st - 65) mod 97 + 1 \<and>
     (\<forall>t < 97. \<exists>k. randU st ! slot st t = grid k \<and> 0 \<le> k \<and> k \<le> 16777216 \<and> k mod 16777216 = fst s ! t mod 16777216) \<and>
     randC st = grid (snd s) \<and> 0 \<le> snd s \<and> snd s < 16777213 \<and> randCD st = grid 7654321 \<and> randCM st = grid 16777213"

text \<open>The number is that of the generator; only 0 may come out as 1.\<close>

definition uniform_of :: "real \<Rightarrow> int \<Rightarrow> bool" where
  "uniform_of u r \<longleftrightarrow> u = grid r \<or> r = 0 \<and> u = 1"

lemma RandomUniform_step:
  assumes "rounds_exactly rnd" and "implements st s"
  shows "\<exists>u st'. RandomUniform rnd st = Some (u, st') \<and> 0 \<le> u \<and> u \<le> 1 \<and>
    uniform_of u (fst (marsaglia_step s)) \<and> implements st' (snd (marsaglia_step s))"
proof -
  obtain xs c where s: "s = (xs, c)" by (cases s)
  note im = assms(2) [unfolded implements_def s fst_conv snd_conv]
  have slots: "slot st 0 = nat (i97 st - 1)" "slot st 64 = nat (j97 st - 1)" using im by (simp_all add: slot_def)
  obtain a where a: "randU st ! slot st 0 = grid a" "0 \<le> a" "a \<le> 16777216" "a mod 16777216 = xs ! 0 mod 16777216"
    using im by (metis zero_less_numeral)
  have "(64 :: nat) < 97" by simp
  then obtain b where b: "randU st ! slot st 64 = grid b" "0 \<le> b" "b \<le> 16777216" "b mod 16777216 = xs ! 64 mod 16777216"
    using im by metis
  have i: "0 \<le> i97 st - 1" "i97 st - 1 < 97" "0 \<le> j97 st - 1" "j97 st - 1 < 97" using im by simp_all
  define x where "x = (if a - b \<le> 0 then a - b + 16777216 else a - b)"
  have x: "0 \<le> x" "x \<le> 16777216" using a b by (simp_all add: x_def)
  have xmod: "x mod 16777216 = (xs ! 0 - xs ! 64) mod 16777216"
  proof -
    have "x mod 16777216 = (a - b) mod 16777216" by (simp add: x_def)
    also have "\<dots> = (xs ! 0 - xs ! 64) mod 16777216" using a(4) b(4) by (rule mod_diff_cong)
    finally show ?thesis .
  qed
  define c' where "c' = (c - 7654321) mod 16777213"
  have c': "c' = (if c - 7654321 < 0 then c - 7654321 + 16777213 else c - 7654321)"
  proof (cases "c - 7654321 < 0")
    case True
    have "(c - 7654321 + 16777213) mod 16777213 = c - 7654321 + 16777213"
      using im True by (intro mod_pos_pos_trivial) simp_all
    then show ?thesis unfolding c'_def mod_add_self2 using True by simp
  next
    case False
    then show ?thesis using im by (simp add: c'_def mod_pos_pos_trivial)
  qed
  have cb: "0 \<le> c'" "c' < 16777213" by (simp_all add: c'_def)
  define u where "u = (if x - c' < 0 then x - c' + 16777216 else x - c')"
  have u: "0 \<le> u" "u \<le> 16777216" using x cb by (simp_all add: u_def)
  have umod: "u mod 16777216 = ((xs ! 0 - xs ! 64) mod 16777216 - c') mod 16777216"
  proof -
    have "u mod 16777216 = (x - c') mod 16777216" by (simp add: u_def)
    also have "\<dots> = (x mod 16777216 - c') mod 16777216" by (simp add: mod_diff_left_eq)
    finally show ?thesis by (simp only: xmod)
  qed
  define st' where "st' = st\<lparr>randU := (randU st)[nat (i97 st - 1) := grid x], i97 := index_down (i97 st),
    j97 := index_down (j97 st), randC := grid c'\<rparr>"
  have rnd: "rnd (grid k) = grid k" if "- 100000000 \<le> k" "k \<le> 100000000" for k using rnd_grid [OF assms(1) that] .
  have run: "RandomUniform rnd st = Some (grid u, st')"
  proof -
    have geta: "array_get (randU st) (i97 st - 1) = Some (grid a)" "array_get (randU st) (j97 st - 1) = Some (grid b)"
      using a(1) b(1) i im by (simp_all add: array_get_def slots)
    have seta: "array_set (randU st) (i97 st - 1) (grid x) = Some ((randU st)[nat (i97 st - 1) := grid x])"
      using i im by (simp add: array_set_def)
    have "fib_next rnd (grid a) (grid b) = grid x" using a b by (simp add: fib_next_def grid_arith rnd x_def)
    moreover have "arith_next rnd (grid c) (grid 7654321) (grid 16777213) = grid c'"
      unfolding c' using im by (simp add: arith_next_def grid_arith rnd)
    moreover have "combine rnd (grid x) (grid c') = grid u" using x cb by (simp add: combine_def grid_arith rnd u_def)
    moreover have "test st" "randC st = grid c" "randCD st = grid 7654321" "randCM st = grid 16777213" using im by simp_all
    ultimately show ?thesis
      by (simp add: RandomUniform_def ensure_seeded_def Let_def geta seta st'_def)
  qed
  define xs' where "xs' = tl xs @ [(xs ! 0 - xs ! 64) mod 16777216]"
  have step: "marsaglia_step s = (((xs ! 0 - xs ! 64) mod 16777216 - c') mod 16777216, xs', c')"
    by (simp add: marsaglia_step_def s c'_def xs'_def Let_def)
  have "uniform_of (grid u) (((xs ! 0 - xs ! 64) mod 16777216 - c') mod 16777216)"
    unfolding umod [symmetric] using u
    by (cases "u = 16777216") (simp_all add: uniform_of_def grid_arith mod_pos_pos_trivial)
  moreover have "implements st' (xs', c')"
  proof -
    define i where "i = i97 st"
    have ib: "1 \<le> i" "i \<le> 97" using im by (simp_all add: i_def)
    have i': "i97 st' = (if i = 1 then 97 else i - 1)" by (simp add: st'_def index_down_def i_def)
    have down: "(i97 st' - 1 - k) mod 97 = (i - 1 - (k + 1)) mod 97" for k
    proof (cases "i = 1")
      case True
      have "(97 - 1 - k) mod 97 = (- 1 - k + 97) mod (97 :: int)" by (simp add: algebra_simps)
      also have "\<dots> = (- 1 - k) mod 97" by (rule mod_add_self2)
      finally show ?thesis using True i' by (simp add: algebra_simps)
    qed (simp add: i' algebra_simps)
    have slot': "slot st' t = nat ((i - 1 - (int t + 1)) mod 97)" for t by (simp only: slot_def down)
    have old: "slot st' t = slot st (t + 1)" for t
      by (simp only: slot') (simp add: slot_def i_def algebra_simps)
    have last: "slot st' 96 = nat (i - 1)"
    proof -
      have "(i - 1 - 97 + 97) mod 97 = i - 1" using ib by (simp add: mod_pos_pos_trivial)
      then show ?thesis unfolding slot' mod_add_self2 by simp
    qed
    have other: "slot st t \<noteq> nat (i - 1)" "slot st t < 97" if t: "0 < t" "t < 97" for t
    proof -
      have "(i - 1 - int t) mod 97 = (if int t \<le> i - 1 then i - 1 - int t else i - 1 - int t + 97)"
      proof (cases "int t \<le> i - 1")
        case False
        have "(i - 1 - int t + 97) mod 97 = i - 1 - int t + 97" using False ib t by (intro mod_pos_pos_trivial) simp_all
        then show ?thesis using False unfolding mod_add_self2 by simp
      qed (use ib t in \<open>simp add: mod_pos_pos_trivial\<close>)
      then show "slot st t \<noteq> nat (i - 1)" "slot st t < 97" using ib t by (auto simp: slot_def i_def)
    qed
    have u': "randU st' = (randU st)[nat (i - 1) := grid x]" by (simp add: st'_def i_def)
    have "\<exists>k. randU st' ! slot st' t = grid k \<and> 0 \<le> k \<and> k \<le> 16777216 \<and> k mod 16777216 = xs' ! t mod 16777216" if t: "t < 97" for t
    proof (cases "t = 96")
      case True
      have "randU st' ! slot st' t = grid x" using ib im by (simp add: True last u')
      moreover have "xs' ! t = (xs ! 0 - xs ! 64) mod 16777216" using im by (simp add: True xs'_def nth_append)
      ultimately show ?thesis using x xmod by auto
    next
      case False
      then have t': "t + 1 < 97" using t by simp
      have "randU st' ! slot st' t = randU st ! slot st (t + 1)"
        using other [of "t + 1"] t' by (simp add: old u' nth_list_update)
      moreover have "xs' ! t = xs ! (t + 1)" using im t' by (simp add: xs'_def nth_append nth_tl)
      ultimately show ?thesis using im t' by metis
    qed
    moreover have "length xs' = 97" using im by (simp add: xs'_def)
    moreover have "1 \<le> i97 st'" "i97 st' \<le> 97" using ib by (simp_all add: i')
    moreover have "j97 st' = (i97 st' - 65) mod 97 + 1"
    proof -
      have j: "j97 st = (i - 65) mod 97 + 1" using im by (simp add: i_def)
      have "(i97 st' - 65) mod 97 = (i - 66) mod 97" using down [of 64] by (simp add: algebra_simps)
      also have "\<dots> = ((i - 65) mod 97 - 1) mod 97" by (simp add: mod_diff_left_eq algebra_simps)
      also have "\<dots> = (if (i - 65) mod 97 = 0 then 96 else (i - 65) mod 97 - 1)"
      proof (cases "(i - 65) mod 97 = 0")
        case False
        moreover have "0 \<le> (i - 65) mod 97" "(i - 65) mod 97 < 97" by simp_all
        ultimately have "0 \<le> (i - 65) mod 97 - 1" "(i - 65) mod 97 - 1 < 97" by linarith+
        then show ?thesis using False by (simp add: mod_pos_pos_trivial)
      qed simp
      finally show ?thesis by (simp add: st'_def index_down_def j)
    qed
    ultimately show ?thesis using im cb by (simp add: implements_def) (simp add: st'_def)
  qed
  moreover have "0 \<le> grid u" "grid u \<le> 1" using u by (simp_all add: grid_def)
  ultimately show ?thesis using run step by auto
qed

section \<open>Seeding\<close>

text \<open>The four variables of the seeding after \<open>n\<close> rounds.\<close>

definition seeds_at :: "int \<times> int \<times> int \<Rightarrow> int \<Rightarrow> nat \<Rightarrow> int \<times> int \<times> int \<times> int" where
  "seeds_at s l n = (product_seq s n, product_seq s (Suc n), product_seq s (Suc (Suc n)), linear_seq l n)"

lemma seed_round_at:
  "seed_round rnd (seeds_at s l n, x, t) =
     (seeds_at s l (Suc n), if seed_bit s l n = 1 then rnd (x + t) else x, rnd (t * (1 / 2)))"
proof -
  have "product_seq s n * product_seq s (Suc n) mod 179 * product_seq s (Suc (Suc n)) mod 179 = product_seq s (n + 3)"
    by (cases s) (simp add: mod_mult_left_eq numeral_3_eq_3)
  then show ?thesis
    by (simp add: seed_round_def seeds_at_def seed_bit_def Let_def mult.commute numeral_3_eq_3)
qed

text \<open>The rounds of a fraction add the bits, each with its power of two.\<close>

definition partial_number :: "int \<times> int \<times> int \<Rightarrow> int \<Rightarrow> nat \<Rightarrow> nat \<Rightarrow> int" where
  "partial_number s l m n = (\<Sum>r < n. seed_bit s l (m + r) * 2 ^ (23 - r))"

lemma seed_bit_cases: "seed_bit s l n = 0 \<or> seed_bit s l n = 1"
  by (simp add: seed_bit_def)

lemma partial_number_range: "n \<le> 24 \<Longrightarrow> 0 \<le> partial_number s l m n \<and> partial_number s l m n + 2 ^ (24 - n) \<le> 2 ^ 24"
proof (induction n)
  case (Suc n)
  define p :: int where "p = 2 ^ (23 - n)"
  have p: "(2 :: int) ^ (24 - n) = 2 * p" "(2 :: int) ^ (24 - Suc n) = p" "0 < p"
    using Suc.prems by (simp_all add: p_def Suc_diff_le flip: power_Suc)
  have "partial_number s l m (Suc n) = partial_number s l m n + seed_bit s l (m + n) * p"
    by (simp add: partial_number_def p_def)
  moreover have "0 \<le> partial_number s l m n" "partial_number s l m n + 2 * p \<le> 2 ^ 24"
    using Suc p(1) by simp_all
  ultimately show ?case using seed_bit_cases [of s l "m + n"] p(3) unfolding p(2) by (elim disjE) simp_all
qed (simp add: partial_number_def)

lemma seed_rounds:
  assumes "rounds_exactly rnd" and "n \<le> 24"
  shows "\<exists>t. (seed_round rnd ^^ n) (seeds_at s l m, 0, 1 / 2) = (seeds_at s l (m + n), grid (partial_number s l m n), t) \<and>
    (n < 24 \<longrightarrow> t = grid (2 ^ (23 - n)))"
  using assms(2)
proof (induction n)
  case 0
  show ?case by (rule exI [of _ "1 / 2"]) (simp add: grid_def partial_number_def)
next
  case (Suc n)
  define p :: int where "p = 2 ^ (23 - n)"
  let ?k = "partial_number s l m n"
  from Suc have ih: "(seed_round rnd ^^ n) (seeds_at s l m, 0, 1 / 2) = (seeds_at s l (m + n), grid ?k, grid p)"
    by (auto simp: p_def)
  have p: "(2 :: int) ^ (24 - n) = 2 * p" "1 \<le> p" using Suc.prems by (simp_all add: p_def Suc_diff_le flip: power_Suc)
  have t': "rnd (grid p * (1 / 2)) = grid (2 ^ (23 - Suc n))" if "Suc n < 24"
  proof -
    have "p = 2 * 2 ^ (23 - Suc n)" using that by (simp add: p_def Suc_diff_Suc flip: power_Suc)
    then have "grid p * (1 / 2) = grid (2 ^ (23 - Suc n))" by (simp add: grid_def)
    moreover have "(2 :: int) ^ (23 - Suc n) \<le> 2 ^ 22" by (rule power_increasing) simp_all
    moreover have "- 100000000 \<le> (2 :: int) ^ (23 - Suc n)" by (rule order_trans [of _ 0]) simp_all
    ultimately show ?thesis using rnd_grid [OF assms(1), of "2 ^ (23 - Suc n)"] by simp
  qed
  have "rnd (grid ?k + grid p) = grid (?k + p)"
    using partial_number_range [of n s l m] Suc.prems p assms(1) by (simp add: grid_arith rnd_grid)
  moreover have "partial_number s l m (Suc n) = ?k + seed_bit s l (m + n) * p" by (simp add: partial_number_def p_def)
  ultimately have "(if seed_bit s l (m + n) = 1 then rnd (grid ?k + grid p) else grid ?k) = grid (partial_number s l m (Suc n))"
    using seed_bit_cases [of s l "m + n"] by auto
  moreover have "(seed_round rnd ^^ Suc n) (seeds_at s l m, 0, 1 / 2) = seed_round rnd (seeds_at s l (m + n), grid ?k, grid p)"
    using ih by simp
  ultimately show ?case using t' by (simp add: seed_round_at)
qed

lemma seed_table_numbers:
  assumes "rounds_exactly rnd"
  shows "seed_table rnd n (seeds_at s l (24 * q)) = map (\<lambda>i. grid (seed_number s l (q + i))) [0..<n]"
proof (induction n arbitrary: q)
  case (Suc n)
  obtain t where "seed_fraction rnd (seeds_at s l (24 * q)) = (seeds_at s l (24 * Suc q), grid (seed_number s l q), t)"
    using seed_rounds [OF assms order_refl, of s l "24 * q"]
    by (auto simp: seed_fraction_def partial_number_def seed_number_def add.commute)
  then show ?case using Suc [of "Suc q"] by (simp add: upt_conv_Cons map_Suc_upt [symmetric] del: upt_Suc mult_Suc_right)
qed simp

lemma seed_number_range: "0 \<le> seed_number s l q \<and> seed_number s l q < 16777216"
  using partial_number_range [of 24 s l "24 * q"] by (simp add: partial_number_def seed_number_def)

lemma initialised:
  assumes "rounds_exactly rnd" and "st' = RandomInitialise rnd ij kl st"
  shows "implements st' (published_start ij kl)"
proof -
  obtain i j k l where seeds: "published_seeds ij kl = ((i, j, k), l)" by (metis surj_pair)
  obtain ij' kl' where e: "(if ij < 0 \<or> ij > 31328 \<or> kl < 0 \<or> kl > 30081 then (1802, 9373) else (ij, kl)) = (ij', kl')"
    by fastforce
  then have ijkl: "(ij' div 177 mod 177 + 2, ij' mod 177 + 2, kl' div 169 mod 178 + 1, kl' mod 169) = (i, j, k, l)"
    using seeds by (auto simp: published_seeds_def split: if_splits)
  have at: "(i, j, k, l) = seeds_at (i, j, k) l (24 * 0)" by (simp add: seeds_at_def)
  have st': "st' = st\<lparr>randU := map (\<lambda>q. grid (seed_number (i, j, k) l q)) [0..<97], randC := rnd (grid 362436),
      randCD := rnd (grid 7654321), randCM := rnd (grid 16777213), i97 := 97, j97 := 33, test := True\<rparr>"
    unfolding assms(2) RandomInitialise_def e Let_def prod.case ijkl at seed_table_numbers [OF assms(1)] grid_def by simp
  have "\<exists>k'. randU st' ! slot st' t = grid k' \<and> 0 \<le> k' \<and> k' \<le> 16777216 \<and>
      k' mod 16777216 = rev (map (seed_number (i, j, k) l) [0..<97]) ! t mod 16777216"
    if t: "t < 97" for t
  proof -
    have "slot st' t = 96 - t" using t by (simp add: slot_def st' mod_pos_pos_trivial nat_diff_distrib)
    moreover have "96 - t < 97" by simp
    ultimately have "randU st' ! slot st' t = grid (seed_number (i, j, k) l (96 - t))" by (simp add: st' del: upt_Suc)
    moreover have "rev (map (seed_number (i, j, k) l) [0..<97]) ! t = seed_number (i, j, k) l (96 - t)"
      using t by (simp add: rev_nth del: upt_Suc)
    ultimately show ?thesis using seed_number_range [of "(i, j, k)" l "96 - t"] by auto
  qed
  then show ?thesis
    by (simp add: implements_def published_start_def seeds del: upt_Suc) (simp add: st' rnd_grid [OF assms(1)] del: upt_Suc)
qed

section \<open>Sequences of numbers\<close>

fun uniforms :: "(real \<Rightarrow> real) \<Rightarrow> nat \<Rightarrow> 'a random_state_scheme \<Rightarrow> (real list \<times> 'a random_state_scheme) option" where
  "uniforms rnd 0 st = Some ([], st)"
| "uniforms rnd (Suc n) st =
     Option.bind (RandomUniform rnd st) (\<lambda>(u, st). map_option (\<lambda>(us, st). (u # us, st)) (uniforms rnd n st))"

lemma uniforms_run:
  assumes "rounds_exactly rnd" and "implements st s"
  shows "\<exists>us st' s'. uniforms rnd n st = Some (us, st') \<and> implements st' s' \<and>
    list_all2 uniform_of us (marsaglia n s) \<and> (\<forall>u \<in> set us. 0 \<le> u \<and> u \<le> 1)"
  using assms(2)
proof (induction n arbitrary: st s)
  case (Suc n)
  from RandomUniform_step [OF assms(1) Suc.prems] obtain u st1 where
    1: "RandomUniform rnd st = Some (u, st1)" "0 \<le> u" "u \<le> 1" "uniform_of u (fst (marsaglia_step s))"
    "implements st1 (snd (marsaglia_step s))" by blast
  from Suc.IH [OF 1(5)] obtain us st2 s2 where
    2: "uniforms rnd n st1 = Some (us, st2)" "implements st2 s2"
    "list_all2 uniform_of us (marsaglia n (snd (marsaglia_step s)))" "\<forall>u \<in> set us. 0 \<le> u \<and> u \<le> 1" by blast
  have "marsaglia (Suc n) s = fst (marsaglia_step s) # marsaglia n (snd (marsaglia_step s))"
    by (simp add: split_beta)
  then have "list_all2 uniform_of (u # us) (marsaglia (Suc n) s)" using 1(4) 2(3) by simp
  moreover have "uniforms rnd (Suc n) st = Some (u # us, st2)" using 1(1) 2(1) by simp
  moreover have "\<forall>x \<in> set (u # us). 0 \<le> x \<and> x \<le> 1" using 1(2,3) 2(4) by simp
  ultimately show ?case using 2(2) by blast
qed auto

text \<open>C38: Seeded with any two integers, the generator produces, for as many calls as are made, the
  numbers of the published generator, its seeding included, computed with integers modulo 2^24 and
  2^24 - 3 and divided by 2^24, except that a 0 may come out as 1: all lie between 0 and 1, no
  operation rounds and no access leaves the table.\<close>

theorem RandomUniform_is_marsaglia:
  assumes "rounds_exactly rnd" and "st0 = RandomInitialise rnd ij kl st"
  shows "\<exists>us st'. uniforms rnd n st0 = Some (us, st') \<and>
    list_all2 uniform_of us (marsaglia n (published_start ij kl)) \<and> (\<forall>u \<in> set us. 0 \<le> u \<and> u \<le> 1)"
  using uniforms_run [OF assms(1) initialised [OF assms]] by blast

definition empty_generator :: "unit random_state_scheme" where
  "empty_generator = \<lparr>sim_ticks = 0, current_node = 0, TOS_NODE_ID = 0, sim_seed = 1, randU = replicate 97 0, randC = 0, randCD = 0,
     randCM = 0, i97 = 0, j97 = 0, test = False\<rparr>"

theorem RandomUniform_is_marsaglia_witness:
  "\<exists>us st'. uniforms (\<lambda>x. x) 20000 (RandomInitialise (\<lambda>x. x) 1802 9373 empty_generator) = Some (us, st') \<and>
     length us = 20000 \<and> (\<forall>u \<in> set us. 0 \<le> u \<and> u \<le> 1)"
proof -
  have len: "length (marsaglia n s) = n" for n s by (induction n arbitrary: s) (simp_all add: split_beta)
  have "rounds_exactly (\<lambda>x. x)" by (simp add: rounds_exactly_def)
  from RandomUniform_is_marsaglia [OF this refl, of 20000 1802 9373 empty_generator] obtain us st' where
    "uniforms (\<lambda>x. x) 20000 (RandomInitialise (\<lambda>x. x) 1802 9373 empty_generator) = Some (us, st')"
    "list_all2 uniform_of us (marsaglia 20000 (published_start 1802 9373))"
    "\<forall>u \<in> set us. 0 \<le> u \<and> u \<le> 1" by blast
  moreover have "length us = 20000" using list_all2_lengthD [OF calculation(2)] by (simp only: len)
  ultimately show ?thesis by blast
qed

section \<open>Integers in a range\<close>

text \<open>After any number of calls, a random integer in a range of at most 2^28 values lies between
  \<open>lower\<close> and \<open>upper\<close>, except that it is \<open>upper + 1\<close> exactly when the uniform number is 1.\<close>

theorem RandomInt_range:
  assumes "rounds_exactly rnd" and "st0 = RandomInitialise rnd ij kl st" and "uniforms rnd n st0 = Some (us, st1)"
    and "lower \<le> upper" "- (2 ^ 30) \<le> lower" "upper < 2 ^ 30" "upper - lower < 2 ^ 28"
  shows "\<exists>u r st2. RandomUniform rnd st1 = Some (u, st2) \<and> RandomInt rnd lower upper st1 = Some (r, st2) \<and> lower \<le> r \<and>
    (if u = 1 then r = upper + 1 else r \<le> upper)"
proof -
  obtain s where s: "implements st1 s"
    using uniforms_run [OF assms(1) initialised [OF assms(1,2)], of n] assms(3) by auto
  from RandomUniform_step [OF assms(1) s] obtain u st2 where
    1: "RandomUniform rnd st1 = Some (u, st2)" "0 \<le> u" "u \<le> 1" "uniform_of u (fst (marsaglia_step s))" by blast
  define r0 where "r0 = fst (marsaglia_step s)"
  have r0: "0 \<le> r0" "r0 < 16777216" by (cases s; simp add: r0_def marsaglia_step_def Let_def)+
  obtain k where k: "u = grid k" "0 \<le> k" "k \<le> 16777216"
    using 1(4) r0 grid_arith(8) unfolding r0_def [symmetric] uniform_of_def
    by (metis less_imp_le order_refl zero_le_numeral)
  define w where "w = upper - lower + 1"
  have w: "1 \<le> w" "w \<le> 2 ^ 28" using assms(4,7) by (simp_all add: w_def)
  have kw: "0 \<le> k * w" "k * w \<le> 2 ^ 53"
  proof -
    show "0 \<le> k * w" using k w by simp
    have "k * w \<le> 16777216 * 2 ^ 28" using k w by (intro mult_mono) simp_all
    then show "k * w \<le> 2 ^ 53" by simp
  qed
  have uw: "u * real_of_int w = grid (k * w)" by (simp add: k(1) grid_def)
  have "rnd (grid (k * w)) = grid (k * w)" using assms(1) kw by (simp add: rounds_exactly_def)
  then have rnd: "rnd (u * real_of_int w) = grid (k * w)" by (simp only: uw)
  have tr: "trunc_int (grid (k * w)) = k * w div 16777216"
  proof -
    have "\<not> grid (k * w) < 0" using kw by (simp add: grid_arith not_less)
    then show ?thesis using floor_divide_of_int_eq [of "k * w" 16777216, where ?'a = real] by (simp add: trunc_int_def grid_def)
  qed
  define r where "r = k * w div 16777216"
  have r: "0 \<le> r" "if k = 16777216 then r = w else r < w"
  proof -
    show "0 \<le> r" using kw(1) by (simp add: r_def pos_imp_zdiv_nonneg_iff)
    show "if k = 16777216 then r = w else r < w"
    proof (cases "k = 16777216")
      case False
      have "k * w < 16777216 * w" using False k(3) w(1) by (intro mult_strict_right_mono) simp_all
      then show ?thesis using False by (simp add: r_def div_less_iff_less_mult mult.commute)
    qed (simp add: r_def)
  qed
  have "RandomInt rnd lower upper st1 = Some (r + lower, st2)"
    using r w assms(4-7)
    by (simp add: RandomInt_def 1(1) rnd w_def [symmetric] tr r_def [symmetric] int_range_def split: if_splits)
  moreover have "u = 1 \<longleftrightarrow> k = 16777216" using grid_arith(6,8) by (simp add: k(1)) (metis grid_arith(6) grid_arith(8))
  ultimately show ?thesis using 1(1) r by (auto simp: w_def)
qed

theorem RandomInt_range_witness:
  "\<exists>r st2. RandomInt (\<lambda>x. x) (-3) 7 (RandomInitialise (\<lambda>x. x) 1802 9373 empty_generator) = Some (r, st2) \<and> -3 \<le> r \<and> r \<le> 8"
proof -
  have e: "rounds_exactly (\<lambda>x. x)" by (simp add: rounds_exactly_def)
  have "uniforms (\<lambda>x. x) 0 (RandomInitialise (\<lambda>x. x) 1802 9373 empty_generator) =
      Some ([], RandomInitialise (\<lambda>x. x) 1802 9373 empty_generator)" by simp
  from RandomInt_range [OF e refl this, of "-3" 7] show ?thesis by (auto split: if_splits)
qed

end
