(* ===== verification/SimNoiseProps.thy ===== *)
theory SimNoiseProps
  imports SimNoise SimRandomProps
begin

text \<open>
  What the noise model learns and what it generates: for every pattern of twenty binned readings the
  readings that followed it in the trace, and only such readings come out again.
\<close>

section \<open>Patterns of a trace\<close>

definition window_at :: "bytes \<Rightarrow> nat \<Rightarrow> bytes" where
  "window_at tr i = take 20 (drop (i - 20) (map search_bin_num tr))"

text \<open>The readings before \<open>m\<close> that followed a pattern, in order.\<close>

definition followers :: "bytes \<Rightarrow> nat \<Rightarrow> bytes \<Rightarrow> bytes" where
  "followers tr m k = map ((!) tr) (filter (\<lambda>i. window_at tr i = k) [20..<m])"

lemma followers_20: "followers tr 20 k = []"
  by (simp add: followers_def)

lemma followers_Suc:
  "20 \<le> m \<Longrightarrow> followers tr (Suc m) k = followers tr m k @ (if window_at tr m = k then [tr ! m] else [])"
  by (simp add: followers_def)

lemma length_window: "20 \<le> m \<Longrightarrow> m \<le> length tr \<Longrightarrow> length (window_at tr m) = 20"
  by (simp add: window_at_def)

lemma window_Suc:
  assumes "20 \<le> m" and "m < length tr"
  shows "window_at tr (Suc m) = tl (window_at tr m) @ [search_bin_num (tr ! m)]"
proof (rule nth_equalityI)
  show "length (window_at tr (Suc m)) = length (tl (window_at tr m) @ [search_bin_num (tr ! m)])"
    using assms by (simp add: length_window)
  fix i
  assume "i < length (window_at tr (Suc m))"
  then have "i < 20" using assms by (simp add: length_window)
  moreover have "m + i - 19 = Suc (m + i - 20)" using assms by arith
  ultimately show "window_at tr (Suc m) ! i = (tl (window_at tr m) @ [search_bin_num (tr ! m)]) ! i"
    using assms by (cases "i = 19") (auto simp: window_at_def nth_append nth_tl Suc_diff_le)
qed

section \<open>Access to the state\<close>

lemma node_at_ok [simp]: "n < length (noiseData st) \<Longrightarrow> node_at n st = Some (noiseData st ! n)"
  by (simp add: node_at_def array_get_def)

lemma put_node_simps [simp]:
  "noiseData (put_node n nd st) = (noiseData st)[n := nd]" "hashes (put_node n nd st) = hashes st"
  "FreqKeyNum (put_node n nd st) = FreqKeyNum st"
  by (simp_all add: put_node_def)

lemma array_get_nat: "i < length xs \<Longrightarrow> array_get xs (int i) = Some (xs ! i)"
  by (simp add: array_get_def)

lemma array_0: "xs \<noteq> [] \<Longrightarrow> array_get xs 0 = Some (xs ! 0)" "xs \<noteq> [] \<Longrightarrow> array_set xs 0 x = Some (xs[0 := x])"
  by (simp_all add: array_get_def array_set_def)

lemma put_key_0:
  "n < length (noiseData st) \<Longrightarrow> node_key (noiseData st ! n) \<noteq> [] \<Longrightarrow>
   put_key n 0 key st = Some (put_node n ((noiseData st ! n)\<lparr>node_key := (node_key (noiseData st ! n))[0 := key]\<rparr>) st)"
  by (simp add: put_key_def array_0)

lemma shift_in_ok:
  assumes "n < length (noiseData st)" and "nd = noiseData st ! n" and "node_key nd \<noteq> []" and "length (node_key nd ! 0) = 20"
    and "i < length (noiseTrace nd)"
  shows "shift_in n i st =
    Some (put_node n (nd\<lparr>node_key := (node_key nd)[0 := tl (node_key nd ! 0) @ [search_bin_num (noiseTrace nd ! i)]]\<rparr>) st)"
proof -
  obtain k ks where k: "node_key nd ! 0 = k # ks" and len: "length ks = 19" using assms(4) by (cases "node_key nd ! 0") auto
  have c: "cchannel 11 = 0" by (simp add: cchannel_def)
  define st1 where "st1 = put_node n (nd\<lparr>node_key := (node_key nd)[0 := ks @ [last (k # ks)]]\<rparr>) st"
  have "drop 19 (k # ks) = [last (k # ks)]"
    using len by (cases ks rule: rev_cases) simp_all
  then have "wrn (k # ks) 0 ks = Some (ks @ [last (k # ks)])" using len by (simp add: wrn_def)
  then have 1: "arrangeKey n 11 st = Some st1"
    using assms(1-3) k len
    by (simp add: arrangeKey_def c key_at_def array_0 put_key_0 rdn_def NOISE_HISTORY_def st1_def)
  have 2: "set_last n 0 (noiseTrace nd ! i) st1 =
      Some (put_node n (nd\<lparr>node_key := (node_key nd)[0 := ks @ [search_bin_num (noiseTrace nd ! i)]]\<rparr>) st)"
    using assms(1-3) len
    by (simp add: set_last_def key_at_def array_0 put_key_0 wr8_def NOISE_HISTORY_def st1_def list_update_append put_node_def)
  show ?thesis using 1 2 assms(1,2,5) k by (simp add: shift_in_def rd8_def st1_def)
qed

section \<open>Learning\<close>

text \<open>The records of the patterns that have occurred, one for each.\<close>

definition knows :: "bytes \<Rightarrow> nat \<Rightarrow> (bytes, nat) hashtable \<Rightarrow> noise_hash list \<Rightarrow> bool" where
  "knows tr m t hs \<longleftrightarrow> ht_inv t \<and> ht_count t \<le> m - 20 \<and>
     (\<forall>k. hashtable_search t k = None \<longleftrightarrow> followers tr m k = []) \<and>
     (\<forall>k p. hashtable_search t k = Some p \<longrightarrow> p < length hs \<and> elements (hs ! p) = followers tr m k \<and>
        numElements (hs ! p) \<le> nh_size (hs ! p) \<and> nh_size (hs ! p) \<le> max 8 (2 * numElements (hs ! p)) \<and> \<not> flag (hs ! p)) \<and>
     (\<forall>k k' p. hashtable_search t k = Some p \<longrightarrow> hashtable_search t k' = Some p \<longrightarrow> k = k')"

definition at_pattern :: "nat \<Rightarrow> bytes \<Rightarrow> nat \<Rightarrow> noise_state \<Rightarrow> bool" where
  "at_pattern n tr m st \<longleftrightarrow> n < length (noiseData st) \<and> noiseTrace (noiseData st ! n) = tr \<and>
     node_key (noiseData st ! n) \<noteq> [] \<and> node_key (noiseData st ! n) ! 0 = window_at tr m"

lemma knowsD:
  assumes "knows tr m t hs" and "hashtable_search t k = Some p"
  shows "p < length hs" "elements (hs ! p) = followers tr m k" "numElements (hs ! p) \<le> nh_size (hs ! p)"
    "nh_size (hs ! p) \<le> max 8 (2 * numElements (hs ! p))" "\<not> flag (hs ! p)" "hashtable_search t k' = Some p \<Longrightarrow> k' = k"
  using assms unfolding knows_def by blast+

text \<open>The insertion of a new pattern.\<close>

lemma insert_new:
  assumes "ht_inv t" and "hashtable_search t k = None" and "ht_count t < ht_room"
  shows "\<exists>rc t'. hashtable_insert fl (True, True, True) k p t = Some (rc, t') \<and> ht_inv t' \<and> ht_count t' \<le> ht_count t + 1 \<and>
    hashtable_search t' = (hashtable_search t)(k \<mapsto> p)"
proof -
  obtain rc t' where r: "hashtable_insert fl (True, True, True) k p t = Some (rc, t')" "ht_inv t'" "ht_count t' \<le> ht_count t + 1"
    "hashtable_search t' = (if rc \<noteq> 0 then (hashtable_search t)(k \<mapsto> p) else hashtable_search t)"
    using hash_dict.ins_law [OF assms, of "(True, True, True)" fl p] by (auto simp: ht_fine_def)
  have "rc \<noteq> 0"
    using r(1) by (auto simp: hashtable_insert_def Let_def split: option.splits if_splits)
  then show ?thesis using r by auto
qed

lemma followers_len: "length (followers tr m k) \<le> m - 20"
  using length_filter_le [of "\<lambda>i. window_at tr i = k" "[20..<m]"] by (simp add: followers_def)

text \<open>A record takes one more element.\<close>

lemma add_element:
  assumes "numElements h \<le> nh_size h" and "nh_size h \<le> max 8 (2 * numElements h)" and "numElements h < 2 ^ 29"
    and "h' = (if numElements h = nh_size h then h\<lparr>nh_size := nh_size h * 2\<rparr> else h)" and "0 < nh_size h"
  shows "nh_size h' < 2 ^ 31" "numElements h' < nh_size h'" "elements h' = elements h"
    "numElements (h'\<lparr>elements := elements h' @ [e]\<rparr>) \<le> nh_size (h'\<lparr>elements := elements h' @ [e]\<rparr>)"
    "nh_size (h'\<lparr>elements := elements h' @ [e]\<rparr>) \<le> max 8 (2 * numElements (h'\<lparr>elements := elements h' @ [e]\<rparr>))"
  using assms by (auto simp: numElements_def split: if_splits)

lemma knows_add:
  assumes "knows tr m t hs" and "20 \<le> m" and "m < 2 ^ 29" and "p < length hs"
    and "hashtable_search t (window_at tr m) = Some p" and "h = hs ! p"
    and "h' = (if numElements h = nh_size h then h\<lparr>nh_size := nh_size h * 2\<rparr> else h)"
  shows "nh_size h' < 2 ^ 31 \<and> numElements h' < nh_size h' \<and> knows tr (Suc m) t (hs[p := h'\<lparr>elements := elements h' @ [tr ! m]\<rparr>])"
proof -
  note p = knowsD [OF assms(1,5), unfolded assms(6) [symmetric]]
  have ne: "followers tr m (window_at tr m) \<noteq> []" using assms(1,5) unfolding knows_def by (metis option.distinct(1))
  have "int (length (followers tr m (window_at tr m))) \<le> int m" using followers_len [of tr m "window_at tr m"] by simp
  moreover have pos: "0 < int (length (followers tr m (window_at tr m)))" using ne by simp
  moreover have le: "int (length (followers tr m (window_at tr m))) \<le> nh_size h" using p(2,3) unfolding numElements_def by simp
  moreover have "numElements h = int (length (followers tr m (window_at tr m)))" using p(2) unfolding numElements_def by simp
  ultimately have n: "numElements h < 2 ^ 29" using assms(3) by simp
  have n2: "0 < nh_size h" using pos le by linarith
  note e = add_element [OF p(3,4) n assms(7) n2]
  define hs' where "hs' = hs[p := h'\<lparr>elements := elements h' @ [tr ! m]\<rparr>]"
  have "knows tr (Suc m) t hs'"
    unfolding knows_def
  proof (intro conjI allI impI)
    show "ht_inv t" "ht_count t \<le> Suc m - 20" using assms(1,2) by (auto simp: knows_def)
    show "hashtable_search t k = None \<longleftrightarrow> followers tr (Suc m) k = []" for k
      using assms(1,2,5) by (cases "window_at tr m = k") (auto simp: knows_def followers_Suc)
    show "k = k'" if "hashtable_search t k = Some q" "hashtable_search t k' = Some q" for k k' q
      using assms(1) that by (auto simp: knows_def)
    fix k q
    assume q: "hashtable_search t k = Some q"
    show "q < length hs'" using knowsD(1) [OF assms(1) q] by (simp add: hs'_def)
    have same: "elements (hs' ! q) = followers tr (Suc m) k \<and> numElements (hs' ! q) \<le> nh_size (hs' ! q) \<and>
        nh_size (hs' ! q) \<le> max 8 (2 * numElements (hs' ! q)) \<and> \<not> flag (hs' ! q)"
    proof (cases "q = p")
      case True
      then have "k = window_at tr m" using knowsD(6) [OF assms(1,5)] q by simp
      moreover have "\<not> flag h'" using p(5) assms(7) by simp
      ultimately show ?thesis using True assms(2,4) e(3-5) p(2) by (simp add: hs'_def followers_Suc)
    next
      case False
      then have "k \<noteq> window_at tr m" using q assms(5) by auto
      then show ?thesis using False knowsD [OF assms(1) q] assms(2) by (simp add: hs'_def followers_Suc)
    qed
    then show "elements (hs' ! q) = followers tr (Suc m) k" "numElements (hs' ! q) \<le> nh_size (hs' ! q)"
      "nh_size (hs' ! q) \<le> max 8 (2 * numElements (hs' ! q))" "\<not> flag (hs' ! q)" by simp_all
  qed
  then show ?thesis using e(1,2) by (simp add: hs'_def)
qed

lemma knows_new:
  assumes "knows tr m t hs" and "20 \<le> m" and "hashtable_search t' = (hashtable_search t)(window_at tr m \<mapsto> length hs)"
    and "ht_inv t'" "ht_count t' \<le> ht_count t + 1" and "hashtable_search t (window_at tr m) = None"
    and "elements h = [tr ! m]" "nh_size h = 8" "\<not> flag h"
  shows "knows tr (Suc m) t' (hs @ [h])"
  unfolding knows_def
proof (intro conjI allI impI)
  show "ht_inv t'" by fact
  show "ht_count t' \<le> Suc m - 20" using assms(1,2,5) by (auto simp: knows_def)
  show "hashtable_search t' k = None \<longleftrightarrow> followers tr (Suc m) k = []" for k
    using assms(1,2) by (auto simp: knows_def followers_Suc assms(3))
  have old: "q < length hs" if "hashtable_search t k = Some q" for k q using knowsD(1) [OF assms(1) that] .
  show "k = k'" if "hashtable_search t' k = Some q" "hashtable_search t' k' = Some q" for k k' q
    using that old [of k q] old [of k' q] knowsD(6) [OF assms(1), of k' q k] by (auto simp: assms(3) split: if_splits)
  fix k q
  assume q: "hashtable_search t' k = Some q"
  have f: "followers tr m (window_at tr m) = []" using assms(1,6) by (auto simp: knows_def)
  have "q < length (hs @ [h]) \<and> elements ((hs @ [h]) ! q) = followers tr (Suc m) k \<and>
      numElements ((hs @ [h]) ! q) \<le> nh_size ((hs @ [h]) ! q) \<and> nh_size ((hs @ [h]) ! q) \<le> max 8 (2 * numElements ((hs @ [h]) ! q)) \<and>
      \<not> flag ((hs @ [h]) ! q)"
  proof (cases "k = window_at tr m")
    case True
    then show ?thesis using q assms(2,7-9) f by (auto simp: assms(3) followers_Suc numElements_def)
  next
    case False
    then have "hashtable_search t k = Some q" using q by (simp add: assms(3))
    from knowsD(1-5) [OF assms(1) this] False assms(2) show ?thesis by (simp add: nth_append followers_Suc)
  qed
  then show "q < length (hs @ [h])" "elements ((hs @ [h]) ! q) = followers tr (Suc m) k"
    "numElements ((hs @ [h]) ! q) \<le> nh_size ((hs @ [h]) ! q)" "nh_size ((hs @ [h]) ! q) \<le> max 8 (2 * numElements ((hs @ [h]) ! q))"
    "\<not> flag ((hs @ [h]) ! q)"
    by simp_all
qed

text \<open>The table of a node.\<close>

abbreviation tab :: "nat \<Rightarrow> noise_state \<Rightarrow> (bytes, nat) hashtable" where
  "tab n st \<equiv> noiseTable (noiseData st ! n)"

lemma sim_noise_add_ok:
  assumes "at_pattern n tr m st" and "knows tr m (tab n st) (hashes st)" and "20 \<le> m" and "m < length tr" "m < 2 ^ 29"
  shows "\<exists>st'. sim_noise_add fl n (tr ! m) st = Some st' \<and> at_pattern n tr m st' \<and> knows tr (Suc m) (tab n st') (hashes st') \<and>
    noiseTraceIndex (noiseData st' ! n) = noiseTraceIndex (noiseData st ! n) \<and>
    length (noiseData st') = length (noiseData st)"
proof -
  define nd where "nd = noiseData st ! n"
  define key where "key = window_at tr m"
  have n: "n < length (noiseData st)" and key: "node_key nd \<noteq> []" "node_key nd ! 0 = key" "noiseTrace nd = tr"
    using assms(1) by (simp_all add: at_pattern_def nd_def key_def)
  show ?thesis
  proof (cases "hashtable_search (noiseTable nd) key")
    case (Some p)
    define h' where "h' = (let h = hashes st ! p in if numElements h = nh_size h then h\<lparr>nh_size := nh_size h * 2\<rparr> else h)"
    have p: "p < length (hashes st)" using knowsD(1) [OF assms(2)] Some by (simp add: nd_def)
    have k: "nh_size h' < 2 ^ 31 \<and> numElements h' < nh_size h' \<and>
        knows tr (Suc m) (noiseTable nd) ((hashes st)[p := h'\<lparr>elements := elements h' @ [tr ! m]\<rparr>])"
      using knows_add [OF assms(2,3,5) p _ refl, of h'] Some by (simp add: nd_def key_def h'_def Let_def)
    define st' where "st' = st\<lparr>hashes := (hashes st)[p := h'\<lparr>elements := elements h' @ [tr ! m]\<rparr>]\<rparr>"
    have "sim_noise_add fl n (tr ! m) st = Some st'"
      using n key k Some p
      by (simp add: sim_noise_add_def nd_def [symmetric] array_0 array_get_nat Let_def h'_def [symmetric, unfolded Let_def] st'_def)
    moreover have "at_pattern n tr m st'" using assms(1) by (simp add: at_pattern_def st'_def)
    ultimately show ?thesis using k by (simp add: st'_def nd_def)
  next
    case None
    have "ht_count (noiseTable nd) \<le> m - 20" using assms(2) unfolding knows_def nd_def by blast
    then have cnt: "ht_count (noiseTable nd) < ht_room" using assms(5) by simp
    have inv: "ht_inv (noiseTable nd)" using assms(2) by (simp add: knows_def nd_def)
    from insert_new [OF inv None cnt, of fl "length (hashes st)"] obtain rc t' where
      t': "hashtable_insert fl (True, True, True) key (length (hashes st)) (noiseTable nd) = Some (rc, t')" "ht_inv t'"
      "ht_count t' \<le> ht_count (noiseTable nd) + 1" "hashtable_search t' = (hashtable_search (noiseTable nd))(key \<mapsto> length (hashes st))"
      by blast
    define h where "h = \<lparr>nh_key = take NOISE_HISTORY key, nh_size = NOISE_DEFAULT_ELEMENT_SIZE, elements = [], flag = False,
        dist = replicate NOISE_NUM_VALUES 0\<rparr>"
    define st' where "st' = put_node n (nd\<lparr>noiseTable := t'\<rparr>) (st\<lparr>hashes := hashes st @ [h\<lparr>elements := [tr ! m]\<rparr>]\<rparr>)"
    have "array_get (hashes st @ [h]) (int (length (hashes st))) = Some h" by (simp add: array_get_def)
    moreover have "numElements h = 0" "nh_size h = 8" "elements h = []"
      by (simp_all add: h_def numElements_def NOISE_DEFAULT_ELEMENT_SIZE_def)
    ultimately have "sim_noise_add fl n (tr ! m) st = Some st'"
      using n key None t'(1)
      by (simp add: sim_noise_add_def nd_def [symmetric] array_0 Let_def h_def [symmetric] st'_def) (simp add: put_node_def)
    moreover have "at_pattern n tr m st'" using assms(1) by (simp add: at_pattern_def st'_def nd_def)
    moreover have "knows tr (Suc m) t' (hashes st @ [h\<lparr>elements := [tr ! m]\<rparr>])"
      by (rule knows_new [OF assms(2,3)])
        (use t' None in \<open>simp_all add: nd_def key_def h_def NOISE_DEFAULT_ELEMENT_SIZE_def\<close>)
    ultimately show ?thesis using n by (simp add: st'_def nd_def)
  qed
qed

lemma shift_in_pattern:
  assumes "at_pattern n tr m st" and "20 \<le> m" and "m < length tr"
  shows "\<exists>st'. shift_in n m st = Some st' \<and> at_pattern n tr (Suc m) st' \<and> tab n st' = tab n st \<and> hashes st' = hashes st \<and>
    noiseTraceIndex (noiseData st' ! n) = noiseTraceIndex (noiseData st ! n) \<and> FreqKeyNum st' = FreqKeyNum st \<and>
    freqKey (noiseData st' ! n) = freqKey (noiseData st ! n) \<and> generated (noiseData st' ! n) = generated (noiseData st ! n)"
proof -
  have n: "n < length (noiseData st)" and nd: "node_key (noiseData st ! n) \<noteq> []" "noiseTrace (noiseData st ! n) = tr"
    "node_key (noiseData st ! n) ! 0 = window_at tr m"
    using assms(1) by (simp_all add: at_pattern_def)
  from shift_in_ok [OF n refl nd(1), of m] nd assms(2,3) show ?thesis
    using n by (simp add: length_window at_pattern_def window_Suc)
qed

lemma add_loop_ok:
  assumes "at_pattern n tr m st" and "knows tr m (tab n st) (hashes st)" and "20 \<le> m" and "m \<le> N" and "N \<le> length tr" "N \<le> 2 ^ 29"
  shows "\<exists>st'. add_loop fl n [m..<N] st = Some st' \<and> at_pattern n tr N st' \<and> knows tr N (tab n st') (hashes st') \<and>
    noiseTraceIndex (noiseData st' ! n) = noiseTraceIndex (noiseData st ! n)"
  using assms
proof (induction "N - m" arbitrary: m st)
  case 0
  then show ?case by simp
next
  case (Suc d)
  then have m: "m < N" by simp
  then have up: "[m..<N] = m # [Suc m..<N]" by (rule upt_conv_Cons)
  from sim_noise_add_ok [of n tr m st fl] Suc.prems m obtain st1 where
    1: "sim_noise_add fl n (tr ! m) st = Some st1" "at_pattern n tr m st1" "knows tr (Suc m) (tab n st1) (hashes st1)"
    "noiseTraceIndex (noiseData st1 ! n) = noiseTraceIndex (noiseData st ! n)" by auto
  from shift_in_pattern [OF 1(2)] Suc.prems m obtain st2 where
    2: "shift_in n m st1 = Some st2" "at_pattern n tr (Suc m) st2" "tab n st2 = tab n st1" "hashes st2 = hashes st1"
    "noiseTraceIndex (noiseData st2 ! n) = noiseTraceIndex (noiseData st1 ! n)" by auto
  have "d = N - Suc m" using Suc.hyps(2) by simp
  moreover have "knows tr (Suc m) (tab n st2) (hashes st2)" using 1(3) 2(3,4) by simp
  moreover have "20 \<le> Suc m" "Suc m \<le> N" using Suc.prems(3) m by simp_all
  ultimately obtain st3 where
    3: "add_loop fl n [Suc m..<N] st2 = Some st3" "at_pattern n tr N st3" "knows tr N (tab n st3) (hashes st3)"
    "noiseTraceIndex (noiseData st3 ! n) = noiseTraceIndex (noiseData st2 ! n)"
    using Suc.hyps(1) [OF _ 2(2)] Suc.prems(5,6) by blast
  have "noiseTrace (noiseData st ! n) = tr" "n < length (noiseData st)" using Suc.prems(1) by (simp_all add: at_pattern_def)
  then show ?case using 1 2 3 m Suc.prems(5) by (simp add: up rd8_def)
qed

section \<open>Distributions\<close>

definition in_bins :: "bytes \<Rightarrow> bool" where
  "in_bins es \<longleftrightarrow> (\<forall>e \<in> set es. NOISE_MIN \<le> sint e \<and> sint e \<le> NOISE_MAX)"

text \<open>What the distribution of a list of readings should be, stated without the loops of the code: each
  reading adds one to its bin, a bin has its share of the readings, and an entry of the distribution
  is the entry before it plus the share of its bin, every operation rounded by \<open>fl\<close>.\<close>

definition tally :: "(real \<Rightarrow> real) \<Rightarrow> bytes \<Rightarrow> nat \<Rightarrow> real" where
  "tally fl es i = ((\<lambda>x. fl (x + 1)) ^^ length (filter (\<lambda>e. sint e = NOISE_MIN_QUANTIZE + int i) es)) 0"

definition share :: "(real \<Rightarrow> real) \<Rightarrow> bytes \<Rightarrow> nat \<Rightarrow> real" where
  "share fl es i = fl (tally fl es i / fl (real (length es)))"

primrec entry_upto :: "(real \<Rightarrow> real) \<Rightarrow> bytes \<Rightarrow> nat \<Rightarrow> real" where
  "entry_upto fl es 0 = fl (0 + share fl es 0)"
| "entry_upto fl es (Suc i) = fl (entry_upto fl es i + share fl es (Suc i))"

definition distribution :: "(real \<Rightarrow> real) \<Rightarrow> bytes \<Rightarrow> real list option" where
  "distribution fl es = (if in_bins es then Some (map (entry_upto fl es) [0..<NOISE_NUM_VALUES]) else None)"

lemma bin_of: "NOISE_MIN \<le> sint e \<Longrightarrow> sint e \<le> NOISE_MAX \<Longrightarrow> uint (word_of_int (sint e - NOISE_MIN_QUANTIZE) :: u8) = sint e + 115"
  by (simp only: NOISE_MIN_def NOISE_MAX_def NOISE_MIN_QUANTIZE_def uint_word_of_int) (simp add: mod_pos_pos_trivial)

lemma count_bins_ok:
  assumes "in_bins es" and "length d = 111"
  shows "\<exists>d'. count_bins fl d es = Some d' \<and> length d' = 111 \<and>
    (\<forall>i < 111. d' ! i = ((\<lambda>x. fl (x + 1)) ^^ length (filter (\<lambda>e. sint e = NOISE_MIN_QUANTIZE + int i) es)) (d ! i))"
  using assms
proof (induction es arbitrary: d)
  case (Cons e es)
  have e: "NOISE_MIN \<le> sint e" "sint e \<le> NOISE_MAX" using Cons.prems(1) by (simp_all add: in_bins_def)
  define b where "b = nat (sint e + 115)"
  have b: "uint (word_of_int (sint e - NOISE_MIN_QUANTIZE) :: u8) = int b" "b < 111"
    using bin_of [OF e] e by (simp_all add: b_def NOISE_MIN_def NOISE_MAX_def)
  have bin: "sint e = NOISE_MIN_QUANTIZE + int i \<longleftrightarrow> i = b" for i
    using e by (auto simp: b_def NOISE_MIN_def NOISE_MIN_QUANTIZE_def)
  have g: "array_get d (int b) = Some (d ! b)" "array_set d (int b) x = Some (d[b := x])" for x
    using b(2) Cons.prems(2) by (simp_all add: array_get_def array_set_def)
  from Cons.IH [of "d[b := fl (d ! b + 1)]"] Cons.prems obtain d' where
    d': "count_bins fl (d[b := fl (d ! b + 1)]) es = Some d'" "length d' = 111"
    "\<forall>i < 111. d' ! i = ((\<lambda>x. fl (x + 1)) ^^ length (filter (\<lambda>e. sint e = NOISE_MIN_QUANTIZE + int i) es)) (d[b := fl (d ! b + 1)] ! i)"
    by (auto simp: in_bins_def)
  have swap: "((\<lambda>x. fl (x + 1)) ^^ k) (fl (x + 1)) = fl (((\<lambda>x. fl (x + 1)) ^^ k) x + 1)" for k x
    using funpow_swap1 [of "\<lambda>x. fl (x + 1)" k x] by simp
  show ?case
    using d' b g Cons.prems(2) by (intro exI [of _ d']) (auto simp: bin Let_def nth_list_update swap)
qed (simp add: in_bins_def)

lemma length_cumulate [simp]: "length (cumulate fl num c d) = length d"
  by (induction d arbitrary: c) (simp_all add: Let_def)

text \<open>Rounding leaves rounded values alone: an empty bin adds nothing.\<close>

definition rounds_floats :: "(real \<Rightarrow> real) \<Rightarrow> bool" where
  "rounds_floats fl \<longleftrightarrow> fl 0 = 0 \<and> (\<forall>x. fl (fl x) = fl x)"

lemma cumulate_empty_bin:
  assumes "rounds_floats fl" and "i < length d" and "d ! i = 0" and "fl c = c"
  shows "cumulate fl num c d ! i = (if i = 0 then c else cumulate fl num c d ! (i - 1))"
  using assms(2-)
proof (induction d arbitrary: c i)
  case (Cons x d)
  show ?case
  proof (cases i)
    case 0
    then show ?thesis using Cons.prems assms(1) by (simp add: Let_def rounds_floats_def)
  next
    case (Suc j)
    define c' where "c' = fl (c + fl (x / fl (real_of_int num)))"
    have "fl c' = c'" using assms(1) by (simp add: c'_def rounds_floats_def)
    from Cons.IH [of j c', OF _ _ this] Cons.prems Suc show ?thesis
      by (cases j) (simp_all add: Let_def c'_def [symmetric])
  qed
qed simp

lemma cumulate_nth:
  "i < length d \<Longrightarrow> cumulate fl num c d ! i =
     fl ((if i = 0 then c else cumulate fl num c d ! (i - 1)) + fl (d ! i / fl (real_of_int num)))"
proof (induction d arbitrary: c i)
  case (Cons x d)
  show ?case
  proof (cases i)
    case (Suc j)
    then show ?thesis using Cons.IH [of j] Cons.prems by (cases j) (simp_all add: Let_def)
  qed (simp add: Let_def)
qed simp

text \<open>The two loops of \<open>sim_noise_dist\<close> compute it.\<close>

lemma distribution_loops:
  assumes "in_bins es"
  shows "\<exists>d0. count_bins fl (replicate 111 0) es = Some d0 \<and> length d0 = 111 \<and> (\<forall>i < 111. d0 ! i = tally fl es i) \<and>
    distribution fl es = Some (cumulate fl (int (length es)) 0 d0)"
proof -
  obtain d0 where d0: "count_bins fl (replicate 111 0) es = Some d0" "length d0 = 111" "\<forall>i < 111. d0 ! i = tally fl es i"
    using count_bins_ok [OF assms, of "replicate 111 0" fl] by (auto simp: tally_def)
  have "cumulate fl (int (length es)) 0 d0 ! i = entry_upto fl es i" if "i < 111" for i
    using that
  proof (induction i)
    case 0
    then show ?case using cumulate_nth [of 0 d0 fl "int (length es)" 0] d0(2,3) by (simp add: share_def)
  next
    case (Suc i)
    then show ?case using cumulate_nth [of "Suc i" d0 fl "int (length es)" 0] d0(2,3) by (simp add: share_def)
  qed
  then have "map (entry_upto fl es) [0..<111] = cumulate fl (int (length es)) 0 d0"
    using d0(2) by (intro nth_equalityI) simp_all
  then show ?thesis using assms d0 by (auto simp: distribution_def NOISE_NUM_VALUES_def)
qed

lemma distribution_ok: "in_bins es \<Longrightarrow> \<exists>d. distribution fl es = Some d \<and> length d = 111"
  by (simp add: distribution_def NOISE_NUM_VALUES_def)

lemma in_bins_followers: "in_bins tr \<Longrightarrow> m \<le> length tr \<Longrightarrow> in_bins (followers tr m k)"
  by (auto simp: in_bins_def followers_def)

lemma followers_window: "20 \<le> m \<Longrightarrow> m < N \<Longrightarrow> followers tr N (window_at tr m) \<noteq> []"
  by (auto simp: followers_def filter_empty_conv)

text \<open>The records once the patterns of \<open>W\<close> have their distribution, and the most frequent of them.\<close>

definition marked :: "(real \<Rightarrow> real) \<Rightarrow> bytes \<Rightarrow> nat \<Rightarrow> bytes set \<Rightarrow> (bytes, nat) hashtable \<Rightarrow> noise_hash list \<Rightarrow> bool" where
  "marked fl tr N W t hs \<longleftrightarrow>
     (\<forall>k. hashtable_search t k = None \<longleftrightarrow> followers tr N k = []) \<and>
     (\<forall>k p. hashtable_search t k = Some p \<longrightarrow> p < length hs \<and> elements (hs ! p) = followers tr N k \<and>
        (if k \<in> W then flag (hs ! p) \<and> distribution fl (followers tr N k) = Some (dist (hs ! p)) else \<not> flag (hs ! p))) \<and>
     (\<forall>k k' p. hashtable_search t k = Some p \<longrightarrow> hashtable_search t k' = Some p \<longrightarrow> k = k')"

definition most_frequent :: "bytes \<Rightarrow> nat \<Rightarrow> bytes set \<Rightarrow> bytes \<Rightarrow> u32 \<Rightarrow> bool" where
  "most_frequent tr N W k num \<longleftrightarrow> (\<forall>k' \<in> W. length (followers tr N k') \<le> unat num) \<and> (W = {} \<longrightarrow> num = 0) \<and>
     (W \<noteq> {} \<longrightarrow> k \<in> W \<and> length (followers tr N k) = unat num)"

lemma marked_none: "knows tr N t hs \<Longrightarrow> marked fl tr N {} t hs"
  unfolding knows_def marked_def by auto

lemma markedD:
  assumes "marked fl tr N W t hs" and "hashtable_search t k = Some p"
  shows "p < length hs" "elements (hs ! p) = followers tr N k"
    "k \<in> W \<Longrightarrow> flag (hs ! p)" "k \<in> W \<Longrightarrow> distribution fl (followers tr N k) = Some (dist (hs ! p))"
    "k \<notin> W \<Longrightarrow> \<not> flag (hs ! p)" "hashtable_search t k' = Some p \<Longrightarrow> k' = k"
  using assms unfolding marked_def by (metis (full_types))+

lemma marked_more:
  assumes "marked fl tr N W t hs" and "hashtable_search t k = Some p" and "distribution fl (followers tr N k) = Some d"
    and "flag h'" "dist h' = d" "elements h' = elements (hs ! p)"
  shows "marked fl tr N (insert k W) t (hs[p := h'])"
  unfolding marked_def
proof (intro conjI allI impI)
  show "hashtable_search t k' = None \<longleftrightarrow> followers tr N k' = []" for k' using assms(1) by (simp add: marked_def)
  show "k' = k''" if "hashtable_search t k' = Some q" "hashtable_search t k'' = Some q" for k' k'' q
    using markedD(6) [OF assms(1) that] by simp
  fix k' q
  assume q: "hashtable_search t k' = Some q"
  note D = markedD [OF assms(1) q]
  show "q < length (hs[p := h'])" using D(1) by simp
  have same: "k' = k \<longleftrightarrow> q = p" using q assms(2) D(6) [of k] by (metis option.inject)
  show "elements (hs[p := h'] ! q) = followers tr N k'" using D(1,2) assms(6) by (cases "q = p") simp_all
  show "if k' \<in> insert k W then flag (hs[p := h'] ! q) \<and> distribution fl (followers tr N k') = Some (dist (hs[p := h'] ! q))
      else \<not> flag (hs[p := h'] ! q)"
    using D(1,3-5) same assms(3-5) by (cases "q = p") auto
qed

lemma most_frequent_new:
  assumes "most_frequent tr N W k0 num0" and "num0 < num" and "length (followers tr N k) = unat num"
  shows "most_frequent tr N (insert k W) k num"
proof -
  have "unat num0 < unat num" using assms(2) by (simp add: word_less_nat_alt)
  then have "length (followers tr N k') \<le> unat num" if "k' \<in> W" for k'
    using assms(1) that unfolding most_frequent_def by (meson le_trans less_imp_le)
  then show ?thesis using assms(3) by (simp add: most_frequent_def)
qed

lemma most_frequent_old:
  assumes "most_frequent tr N W k0 num0" and "\<not> num0 < num" and "length (followers tr N k) = unat num" and "followers tr N k \<noteq> []"
  shows "most_frequent tr N (insert k W) k0 num0"
proof -
  have le: "unat num \<le> unat num0" using assms(2) by (simp add: word_less_nat_alt)
  then have "W \<noteq> {}" using assms(1,3,4) by (auto simp: most_frequent_def)
  then show ?thesis using assms(1,3) le by (simp add: most_frequent_def)
qed

lemma sim_noise_dist_ok:
  assumes "at_pattern n tr m st" and "marked fl tr N W (tab n st) (hashes st)" and "20 \<le> m" "m < N" "N \<le> length tr" "N < 2 ^ 32"
    and "in_bins tr" and "most_frequent tr N W (freqKey (noiseData st ! n)) (FreqKeyNum st)"
  shows "\<exists>st'. sim_noise_dist fl n st = Some st' \<and> at_pattern n tr m st' \<and>
    marked fl tr N (insert (window_at tr m) W) (tab n st') (hashes st') \<and>
    most_frequent tr N (insert (window_at tr m) W) (freqKey (noiseData st' ! n)) (FreqKeyNum st') \<and>
    generated (noiseData st' ! n) = generated (noiseData st ! n)"
proof -
  define nd where "nd = noiseData st ! n"
  define key where "key = window_at tr m"
  define num where "num = (word_of_int (int (length (followers tr N key))) :: u32)"
  have n: "n < length (noiseData st)" and key: "node_key nd \<noteq> []" "node_key nd ! 0 = key"
    using assms(1) by (simp_all add: at_pattern_def nd_def key_def)
  have "length key = 20" using length_window [of m tr] assms(3-5) by (simp add: key_def)
  then have tk: "take NOISE_HISTORY key = key" by (simp add: NOISE_HISTORY_def)
  have ne: "followers tr N key \<noteq> []" using followers_window [OF assms(3,4)] by (simp add: key_def)
  then obtain p where p: "hashtable_search (tab n st) key = Some p" using assms(2) by (metis marked_def option.exhaust)
  note D = markedD [OF assms(2) p]
  have "length (followers tr N key) < 2 ^ 32" using followers_len [of tr N key] assms(6) by linarith
  then have num: "unat num = length (followers tr N key)" "num = of_nat (length (followers tr N key))"
    by (simp_all add: num_def unat_of_nat)
  obtain d d0 where d: "distribution fl (followers tr N key) = Some d"
    and d0: "count_bins fl (replicate NOISE_NUM_VALUES 0) (followers tr N key) = Some d0"
      "d = cumulate fl (int (length (followers tr N key))) 0 d0"
    using distribution_loops [OF in_bins_followers [OF assms(7,5), of key], of fl] by (auto simp: NOISE_NUM_VALUES_def)
  show ?thesis
  proof (cases "key \<in> W")
    case True
    then have "sim_noise_dist fl n st = Some st"
      using n key p D(1,3) by (simp add: sim_noise_dist_def nd_def [symmetric] array_0 array_get_nat)
    then show ?thesis using assms(1,2,8) True by (simp add: key_def insert_absorb)
  next
    case False
    define h' where "h' = (hashes st ! p)\<lparr>dist := d, flag := True\<rparr>"
    define st1 where "st1 = st\<lparr>hashes := (hashes st)[p := h']\<rparr>"
    define st' where "st' = (if num > FreqKeyNum st then put_node n (nd\<lparr>freqKey := key\<rparr>) (st1\<lparr>FreqKeyNum := num\<rparr>) else st1)"
    have h: "numElements (hashes st ! p) = int (length (followers tr N key))" using D(2) by (simp add: numElements_def)
    have 1: "sim_noise_dist fl n st = Some st'"
      using n key p D(1,2) D(5) [OF False] d0 tk
      by (simp add: sim_noise_dist_def nd_def [symmetric] array_0 array_get_nat h Let_def h'_def st1_def st'_def num_def)
    have t: "tab n st' = tab n st" and hs: "hashes st' = (hashes st)[p := h']"
      using n by (simp_all add: st'_def st1_def nd_def)
    have 2: "at_pattern n tr m st'" using assms(1) by (simp add: at_pattern_def st'_def st1_def nd_def)
    have 3: "marked fl tr N (insert key W) (tab n st') (hashes st')"
      unfolding t hs by (rule marked_more [OF assms(2) p d]) (simp_all add: h'_def)
    have 4: "most_frequent tr N (insert key W) (freqKey (noiseData st' ! n)) (FreqKeyNum st')"
    proof (cases "num > FreqKeyNum st")
      case True
      then have "freqKey (noiseData st' ! n) = key" "FreqKeyNum st' = num" using n by (simp_all add: st'_def st1_def)
      then show ?thesis using most_frequent_new [OF assms(8) True] num(1) by simp
    next
      case False
      then have "freqKey (noiseData st' ! n) = freqKey (noiseData st ! n)" "FreqKeyNum st' = FreqKeyNum st"
        by (simp_all add: st'_def st1_def)
      then show ?thesis using most_frequent_old [OF assms(8), of num key] False num(1) ne by simp
    qed
    have "generated (noiseData st' ! n) = generated nd" using n by (simp add: st'_def st1_def nd_def)
    then show ?thesis using 1 2 3 4 by (auto simp: key_def nd_def)
  qed
qed

lemma dist_loop_ok:
  assumes "at_pattern n tr m st" and "marked fl tr N (window_at tr ` {20..<m}) (tab n st) (hashes st)"
    and "20 \<le> m" "m \<le> N" "N \<le> length tr" "N < 2 ^ 32" "in_bins tr"
    and "most_frequent tr N (window_at tr ` {20..<m}) (freqKey (noiseData st ! n)) (FreqKeyNum st)"
  shows "\<exists>st'. dist_loop fl n [m..<N] st = Some st' \<and> at_pattern n tr N st' \<and>
    marked fl tr N (window_at tr ` {20..<N}) (tab n st') (hashes st') \<and>
    most_frequent tr N (window_at tr ` {20..<N}) (freqKey (noiseData st' ! n)) (FreqKeyNum st') \<and>
    generated (noiseData st' ! n) = generated (noiseData st ! n)"
  using assms
proof (induction "N - m" arbitrary: m st)
  case 0
  then show ?case by simp
next
  case (Suc d)
  then have m: "m < N" by simp
  have up: "[m..<N] = m # [Suc m..<N]" using m by (rule upt_conv_Cons)
  have W: "insert (window_at tr m) (window_at tr ` {20..<m}) = window_at tr ` {20..<Suc m}"
    using Suc.prems(3) by (simp add: atLeastLessThanSuc)
  from sim_noise_dist_ok [OF Suc.prems(1-3) m Suc.prems(5-8), unfolded W] obtain st1 where
    1: "sim_noise_dist fl n st = Some st1" "at_pattern n tr m st1"
    "marked fl tr N (window_at tr ` {20..<Suc m}) (tab n st1) (hashes st1)"
    "most_frequent tr N (window_at tr ` {20..<Suc m}) (freqKey (noiseData st1 ! n)) (FreqKeyNum st1)"
    "generated (noiseData st1 ! n) = generated (noiseData st ! n)" by blast
  from shift_in_pattern [OF 1(2)] Suc.prems m obtain st2 where
    2: "shift_in n m st1 = Some st2" "at_pattern n tr (Suc m) st2" "tab n st2 = tab n st1" "hashes st2 = hashes st1"
    "FreqKeyNum st2 = FreqKeyNum st1" "freqKey (noiseData st2 ! n) = freqKey (noiseData st1 ! n)"
    "generated (noiseData st2 ! n) = generated (noiseData st1 ! n)" by auto
  have "d = N - Suc m" using Suc.hyps(2) by simp
  moreover have "20 \<le> Suc m" "Suc m \<le> N" using Suc.prems(3) m by simp_all
  ultimately show ?case
    using Suc.hyps(1) [OF _ 2(2)] 1 2 Suc.prems(5-7) by (simp add: up)
qed

section \<open>The model of a node\<close>

text \<open>What a node has learned from the first \<open>N\<close> readings of its trace.\<close>

definition learned :: "(real \<Rightarrow> real) \<Rightarrow> bytes \<Rightarrow> nat \<Rightarrow> noise_node \<Rightarrow> noise_hash list \<Rightarrow> bool" where
  "learned fl tr N nd hs \<longleftrightarrow>
     (\<forall>k. case hashtable_search (noiseTable nd) k of
        None \<Rightarrow> followers tr N k = []
      | Some p \<Rightarrow> followers tr N k \<noteq> [] \<and> p < length hs \<and> elements (hs ! p) = followers tr N k \<and>
          distribution fl (followers tr N k) = Some (dist (hs ! p))) \<and>
     (\<forall>k. length (followers tr N k) \<le> length (followers tr N (freqKey nd)))"

lemma first_key_ok:
  "20 \<le> length (noiseTrace nd) \<Longrightarrow> first_key nd = Some (window_at (noiseTrace nd) 20)"
  by (simp add: first_key_def rdn_def NOISE_HISTORY_def window_at_def take_map)

lemma start_pattern:
  assumes "n < length (noiseData st)" and "noiseTrace (noiseData st ! n) = tr" and "node_key (noiseData st ! n) \<noteq> []"
    and "20 \<le> length tr"
  shows "\<exists>st'. put_key n 0 (window_at tr 20) st = Some st' \<and> at_pattern n tr 20 st' \<and> tab n st' = tab n st \<and> hashes st' = hashes st \<and>
    noiseTraceIndex (noiseData st' ! n) = noiseTraceIndex (noiseData st ! n) \<and> FreqKeyNum st' = FreqKeyNum st \<and>
    generated (noiseData st' ! n) = generated (noiseData st ! n)"
  using assms by (simp add: put_key_0 at_pattern_def)

lemma followers_outside: "k \<notin> window_at tr ` {20..<N} \<Longrightarrow> followers tr N k = []"
  by (auto simp: followers_def filter_empty_conv)

lemma learned_all:
  assumes "marked fl tr N (window_at tr ` {20..<N}) (noiseTable nd) hs" and "20 < N"
    and "most_frequent tr N (window_at tr ` {20..<N}) (freqKey nd) num"
  shows "learned fl tr N nd hs"
  unfolding learned_def
proof (intro conjI allI)
  fix k
  show "case hashtable_search (noiseTable nd) k of None \<Rightarrow> followers tr N k = []
      | Some p \<Rightarrow> followers tr N k \<noteq> [] \<and> p < length hs \<and> elements (hs ! p) = followers tr N k \<and>
          distribution fl (followers tr N k) = Some (dist (hs ! p))"
  proof (cases "hashtable_search (noiseTable nd) k")
    case None
    then have "followers tr N k = []" using assms(1) by (metis marked_def)
    then show ?thesis using None by simp
  next
    case (Some p)
    then have ne: "followers tr N k \<noteq> []" using assms(1) by (metis marked_def option.distinct(1))
    then have "k \<in> window_at tr ` {20..<N}" using followers_outside by blast
    then show ?thesis using Some markedD(1,2,4) [OF assms(1) Some] ne by simp
  qed
  have "window_at tr ` {20..<N} \<noteq> {}" using assms(2) by simp
  then have f: "length (followers tr N (freqKey nd)) = unat num" using assms(3) unfolding most_frequent_def by blast
  show "length (followers tr N k) \<le> length (followers tr N (freqKey nd))"
  proof (cases "k \<in> window_at tr ` {20..<N}")
    case True
    then show ?thesis using assms(3) f unfolding most_frequent_def by metis
  next
    case False
    then show ?thesis by (simp add: followers_outside)
  qed
qed

lemma create_model_ok:
  assumes "n < length (noiseData st)" and "nd = noiseData st ! n" and "node_key nd \<noteq> []"
    and "create_hashtable fl oks NOISE_HASHTABLE_SIZE sim_noise_hash sim_noise_eq = Some (noiseTable nd)"
    and "N = unat (noiseTraceIndex nd)" and "20 < N" "N \<le> 2 ^ 29" "N \<le> length (noiseTrace nd)" and "in_bins (noiseTrace nd)"
  shows "\<exists>st' nd'. sim_noise_create_model fl n st = Some st' \<and> nd' = noiseData st' ! n \<and> generated nd' \<and>
    learned fl (noiseTrace nd) N nd' (hashes st') \<and>
    set (node_key nd') = {window_at (noiseTrace nd) N} \<and> n < length (noiseData st')"
proof -
  define tr where "tr = noiseTrace nd"
  have "ht_inv (noiseTable nd)" "ht_count (noiseTable nd) = 0" "hashtable_search (noiseTable nd) = Map.empty"
    using create_inv [OF assms(4) [unfolded sim_noise_eq_def]] by simp_all
  then have k0: "knows tr 20 (tab n st) (hashes st)" using assms(2) by (simp add: knows_def followers_20)
  have len: "20 \<le> length tr" using assms(6,8) by (simp add: tr_def)
  obtain st1 where 1: "put_key n 0 (window_at tr 20) st = Some st1" "at_pattern n tr 20 st1" "tab n st1 = tab n st"
    "hashes st1 = hashes st" "noiseTraceIndex (noiseData st1 ! n) = noiseTraceIndex nd"
    using start_pattern [of n st tr] assms(1-3) len by (auto simp: tr_def)
  obtain st2 where 2: "add_loop fl n [20..<N] st1 = Some st2" "at_pattern n tr N st2" "knows tr N (tab n st2) (hashes st2)"
    "noiseTraceIndex (noiseData st2 ! n) = noiseTraceIndex nd"
    using add_loop_ok [OF 1(2), of N fl] k0 1(3-5) assms(6-8) by (auto simp: tr_def)
  define st3 where "st3 = put_node n ((noiseData st2 ! n)\<lparr>generated := True\<rparr>) st2"
  have n2: "n < length (noiseData st2)" using 2(2) by (simp add: at_pattern_def)
  have make: "makeNoiseModel fl n st = Some st3"
    using assms(1,2,5) 1(1) 2(1) n2 len by (simp add: makeNoiseModel_def first_key_ok tr_def NOISE_HISTORY_def st3_def)
  define st4 where "st4 = st3\<lparr>FreqKeyNum := 0\<rparr>"
  have p4: "n < length (noiseData st4)" "noiseTrace (noiseData st4 ! n) = tr" "node_key (noiseData st4 ! n) \<noteq> []"
    "tab n st4 = tab n st2" "hashes st4 = hashes st2" "FreqKeyNum st4 = 0" "noiseTraceIndex (noiseData st4 ! n) = noiseTraceIndex nd"
    "generated (noiseData st4 ! n)"
    using 2(2,4) n2 by (simp_all add: st4_def st3_def at_pattern_def)
  obtain st5 where 5: "put_key n 0 (window_at tr 20) st4 = Some st5" "at_pattern n tr 20 st5" "tab n st5 = tab n st2"
    "hashes st5 = hashes st2" "FreqKeyNum st5 = 0" "generated (noiseData st5 ! n)"
    using start_pattern [OF p4(1-3) len] p4 by auto
  have "marked fl tr N (window_at tr ` {20..<20}) (tab n st5) (hashes st5)" using marked_none [OF 2(3)] 5 by simp
  moreover have "most_frequent tr N (window_at tr ` {20..<20}) (freqKey (noiseData st5 ! n)) (FreqKeyNum st5)"
    using 5 by (simp add: most_frequent_def)
  ultimately obtain st6 where 6: "dist_loop fl n [20..<N] st5 = Some st6" "at_pattern n tr N st6"
    "marked fl tr N (window_at tr ` {20..<N}) (tab n st6) (hashes st6)"
    "most_frequent tr N (window_at tr ` {20..<N}) (freqKey (noiseData st6 ! n)) (FreqKeyNum st6)"
    "generated (noiseData st6 ! n)"
    using dist_loop_ok [OF 5(2), of fl N] 5(6) assms(6-9) by (auto simp: tr_def)
  have make2: "makePmfDistr fl n st3 = Some st6"
    using p4 5(1) 6(1) n2 len assms(5) by (simp add: makePmfDistr_def first_key_ok NOISE_HISTORY_def st4_def)
  define nd6 where "nd6 = noiseData st6 ! n"
  define nd7 where "nd7 = nd6\<lparr>node_key := replicate (length (node_key nd6)) (window_at tr N)\<rparr>"
  have n6: "n < length (noiseData st6)" "node_key nd6 \<noteq> []" "node_key nd6 ! 0 = window_at tr N"
    using 6(2) by (simp_all add: at_pattern_def nd6_def)
  have fin: "sim_noise_create_model fl n st = Some (put_node n nd7 st6)"
    using make make2 n6 by (simp add: sim_noise_create_model_def array_0 nd7_def nd6_def)
  have "learned fl tr N nd6 (hashes st6)"
    using learned_all [of fl tr N nd6 "hashes st6"] 6(3,4) assms(6) by (simp add: nd6_def)
  then have "learned fl tr N nd7 (hashes st6)" by (simp add: learned_def nd7_def)
  moreover have "noiseData (put_node n nd7 st6) ! n = nd7" "hashes (put_node n nd7 st6) = hashes st6"
    "n < length (noiseData (put_node n nd7 st6))" using n6(1) by simp_all
  moreover have "set (node_key nd7) = {window_at tr N}" "generated nd7" using n6(2) 6(5) by (simp_all add: nd7_def nd6_def)
  ultimately show ?thesis using fin unfolding tr_def by (intro exI [where x = "put_node n nd7 st6"] exI [where x = nd7]) simp
qed

text \<open>C39: Building the model of a node whose trace has 21 to 2^29 readings in [-115, -5] succeeds. Its
  table then holds, for every pattern of twenty binned readings that occurs before a reading of the
  trace, exactly the readings that followed it, in order, with their cumulative distribution; no
  other pattern; the pattern kept as the most frequent is one; and every channel starts from the
  last pattern of the trace.\<close>

theorem sim_noise_create_model_learns:
  assumes "n < length (noiseData st)" and "nd = noiseData st ! n" and "node_key nd \<noteq> []"
    and "create_hashtable fl oks NOISE_HASHTABLE_SIZE sim_noise_hash sim_noise_eq = Some (noiseTable nd)"
    and "N = unat (noiseTraceIndex nd)" and "20 < N" "N \<le> 2 ^ 29" "N \<le> length (noiseTrace nd)" and "in_bins (noiseTrace nd)"
  shows "\<exists>st' nd'. sim_noise_create_model fl n st = Some st' \<and> nd' = noiseData st' ! n \<and> generated nd' \<and>
    learned fl (noiseTrace nd) N nd' (hashes st') \<and>
    set (node_key nd') = {window_at (noiseTrace nd) N} \<and> n < length (noiseData st')"
  by (rule create_model_ok [OF assms])

definition one_node :: "bytes \<Rightarrow> (bytes, nat) hashtable \<Rightarrow> noise_state" where
  "one_node tr t = \<lparr>sim_ticks = 0, current_node = 0, TOS_NODE_ID = 0, sim_seed = 1, randU = replicate 97 0, randC = 0, randCD = 0,
     randCM = 0, i97 = 0, j97 = 0, test = False,
     noiseData = [\<lparr>node_key = replicate 16 (replicate 20 0), freqKey = replicate 20 0, lastNoiseVal = replicate 16 0,
       noiseGenTime = replicate 16 0, noiseTable = t, noiseTrace = tr, noiseTraceLen = of_nat (length tr),
       noiseTraceIndex = of_nat (length tr), generated = False\<rparr>],
     hashes = [], FreqKeyNum = 0, numCase1 = 0, numCase2 = 0, numTotal = 0\<rparr>"

definition quiet_trace :: bytes where
  "quiet_trace = replicate 30 (- 98) @ [- 72, - 98]"

lemma quiet_trace: "length quiet_trace = 32" "in_bins quiet_trace"
  by (simp_all add: quiet_trace_def in_bins_def NOISE_MIN_def NOISE_MAX_def ball_Un)

lemma noise_table: "\<exists>h0 :: (bytes, nat) hashtable.
  create_hashtable (\<lambda>x. x) (True, True) NOISE_HASHTABLE_SIZE sim_noise_hash sim_noise_eq = Some h0"
proof -
  have "\<not> (128 :: u32) > push_bit 30 1" by code_simp
  then show ?thesis by (simp add: create_hashtable_def primes_def NOISE_HASHTABLE_SIZE_def)
qed

lemma one_node:
  "noiseTraceIndex (noiseData (one_node quiet_trace h0) ! 0) = 32" "node_key (noiseData (one_node quiet_trace h0) ! 0) \<noteq> []"
  "0 < length (noiseData (one_node quiet_trace h0))" "noiseTrace (noiseData (one_node quiet_trace h0) ! 0) = quiet_trace"
  "noiseTable (noiseData (one_node quiet_trace h0) ! 0) = h0"
  by (simp_all add: one_node_def quiet_trace)

theorem sim_noise_create_model_learns_witness:
  "\<exists>h0 st'. create_hashtable (\<lambda>x. x) (True, True) NOISE_HASHTABLE_SIZE sim_noise_hash sim_noise_eq = Some h0 \<and>
     sim_noise_create_model (\<lambda>x. x) 0 (one_node quiet_trace h0) = Some st' \<and>
     learned (\<lambda>x. x) quiet_trace 32 (noiseData st' ! 0) (hashes st')"
proof -
  obtain h0 where h0: "create_hashtable (\<lambda>x. x) (True, True) NOISE_HASHTABLE_SIZE sim_noise_hash sim_noise_eq = Some (h0 :: (bytes, nat) hashtable)"
    using noise_table by blast
  show ?thesis
    using sim_noise_create_model_learns [where n = 0 and st = "one_node quiet_trace h0" and fl = "\<lambda>x. x" and oks = "(True, True)" and N = 32, OF _ refl]
      h0 quiet_trace one_node [of h0] by fastforce
qed

section \<open>Exact distributions\<close>

text \<open>Without rounding, the counts are the counts and the distribution is the empirical one.\<close>

lemma tally_exact: "tally (\<lambda>x. x) es i = real (length (filter (\<lambda>e. sint e = NOISE_MIN_QUANTIZE + int i) es))"
proof -
  have "((\<lambda>x. x + 1) ^^ n) (0 :: real) = real n" for n by (induction n) simp_all
  then show ?thesis by (simp add: tally_def)
qed

lemma cumulate_exact: "i < length d \<Longrightarrow> cumulate (\<lambda>x. x) num c d ! i = c + sum_list (take (Suc i) d) / real_of_int num"
proof (induction d arbitrary: c i)
  case (Cons x d)
  then show ?case by (cases i) (simp_all add: Let_def add_divide_distrib)
qed simp

lemma count_upto:
  assumes "\<forall>i < 111. d ! i = real (length (filter (\<lambda>e. sint e + 115 = int i) es))" and "length d = 111" and "j \<le> 111" and "in_bins es"
  shows "sum_list (take j d) = real (length (filter (\<lambda>e. sint e + 115 < int j) es))"
  using assms(3)
proof (induction j)
  case 0
  have "filter (\<lambda>e. sint e + 115 < 0) es = []" using assms(4) by (force simp: filter_empty_conv in_bins_def NOISE_MIN_def)
  then show ?case by simp
next
  case (Suc j)
  have "length (filter (\<lambda>e. sint e + 115 < int (Suc j)) es) =
      length (filter (\<lambda>e. sint e + 115 < int j) es) + length (filter (\<lambda>e. sint e + 115 = int j) es)"
    by (induction es) auto
  then show ?case using Suc assms(1,2) by (simp add: take_Suc_conv_app_nth)
qed

lemma distribution_exact:
  assumes "in_bins es" and "es \<noteq> []"
  shows "\<exists>d. distribution (\<lambda>x. x) es = Some d \<and> length d = 111 \<and> d ! 110 = 1 \<and>
    (\<forall>i < 111. d ! i = real (length (filter (\<lambda>e. sint e \<le> NOISE_MIN_QUANTIZE + int i) es)) / real (length es))"
proof -
  obtain d where d: "distribution (\<lambda>x. x) es = Some d" "length d = 111" using distribution_ok [OF assms(1)] by blast
  then obtain d0 where d0: "length d0 = 111" "\<forall>i < 111. d0 ! i = tally (\<lambda>x. x) es i"
    "d = cumulate (\<lambda>x. x) (int (length es)) 0 d0"
    using distribution_loops [OF assms(1), of "\<lambda>x. x"] by auto
  have eq: "(sint e = NOISE_MIN_QUANTIZE + int i) = (sint e + 115 = int i)" for e :: u8 and i by (auto simp: NOISE_MIN_QUANTIZE_def)
  have c: "length d0 = 111" "\<forall>i < 111. d0 ! i = real (length (filter (\<lambda>e. sint e + 115 = int i) es))"
    using d0(1,2) by (simp_all add: tally_exact eq)
  have at: "d ! i = real (length (filter (\<lambda>e. sint e \<le> NOISE_MIN_QUANTIZE + int i) es)) / real (length es)" if "i < 111" for i
  proof -
    have "filter (\<lambda>e. sint e + 115 < int (Suc i)) es = filter (\<lambda>e. sint e \<le> NOISE_MIN_QUANTIZE + int i) es"
      by (rule filter_cong) (auto simp: NOISE_MIN_QUANTIZE_def)
    then show ?thesis using cumulate_exact [of i d0 "int (length es)" 0] count_upto [OF c(2,1) _ assms(1), of "Suc i"] c(1) that
      by (simp add: d0(3))
  qed
  have "filter (\<lambda>e. sint e \<le> NOISE_MIN_QUANTIZE + int 110) es = es"
    using assms(1) by (auto simp: filter_id_conv in_bins_def NOISE_MIN_QUANTIZE_def NOISE_MAX_def)
  then have "d ! 110 = 1" using at [of 110] assms(2) by simp
  then show ?thesis using d at by blast
qed

lemma distribution_last:
  "in_bins es \<Longrightarrow> es \<noteq> [] \<Longrightarrow> \<exists>d. distribution (\<lambda>x. x) es = Some d \<and> d ! 110 = 1"
  using distribution_exact by blast

text \<open>With exact arithmetic, the distribution of a pattern is the empirical cumulative distribution of
  the readings that followed it: the entry of a bin is the share of them that are at most the
  reading of the bin, so the last entry is 1.\<close>

theorem noise_distribution_empirical:
  assumes "in_bins es" and "es \<noteq> []"
  shows "\<exists>d. distribution (\<lambda>x. x) es = Some d \<and> length d = 111 \<and> d ! 110 = 1 \<and>
    (\<forall>i < 111. d ! i = real (length (filter (\<lambda>e. sint e \<le> NOISE_MIN_QUANTIZE + int i) es)) / real (length es))"
  by (rule distribution_exact [OF assms])

theorem noise_distribution_empirical_witness:
  "\<exists>d. distribution (\<lambda>x. x) [- 98, - 72] = Some d \<and> d ! 17 = 1 / 2 \<and> d ! 110 = 1"
proof -
  have "in_bins [- 98, - 72]" by (simp add: in_bins_def NOISE_MIN_def NOISE_MAX_def)
  from noise_distribution_empirical [OF this] show ?thesis by (force simp: NOISE_MIN_QUANTIZE_def)
qed

section \<open>Generated noise\<close>

lemma noise_frame:
  "noiseData (st\<lparr>randU := a, randC := b, randCD := c, randCM := d, i97 := i, j97 := j, test := t\<rparr>) = noiseData st"
  "hashes (st\<lparr>randU := a, randC := b, randCD := c, randCM := d, i97 := i, j97 := j, test := t\<rparr>) = hashes st"
  "noiseData (st\<lparr>sim_seed := s\<rparr>) = noiseData st" "hashes (st\<lparr>sim_seed := s\<rparr>) = hashes st"
  by simp_all

lemma seeded_frame:
  "noiseData (RandomInitialise rnd a b st) = noiseData st" "hashes (RandomInitialise rnd a b st) = hashes st"
  "noiseData (snd (sim_random st)) = noiseData st" "hashes (snd (sim_random st)) = hashes st"
  unfolding RandomInitialise_def sim_random_def Let_def split_beta snd_conv by (rule noise_frame)+

lemma RandomUniform_frame:
  assumes "RandomUniform rnd (st :: noise_state) = Some (u, st')"
  shows "noiseData st' = noiseData st" "hashes st' = hashes st"
proof -
  have f: "noiseData (ensure_seeded rnd st) = noiseData st" "hashes (ensure_seeded rnd st) = hashes st"
    by (simp_all only: ensure_seeded_def Let_def split_beta seeded_frame split: if_split) simp_all
  show "noiseData st' = noiseData st" "hashes st' = hashes st"
    using assms f by (auto simp: RandomUniform_def Let_def split: bind_splits)
qed

text \<open>A bin the loop may stop at is one of a reading that was heard.\<close>

definition hits :: "real \<Rightarrow> real list \<Rightarrow> nat \<Rightarrow> bool" where
  "hits r d i \<longleftrightarrow> (if i = 0 then r \<le> d ! 0 else d ! (i - 1) < r \<and> r \<le> d ! i)"

lemma select_bin_hits:
  assumes "r \<le> d ! 110"
  shows "select_bin r d < 111 \<and> hits r d (select_bin r d)"
proof (cases "List.find (hits r d) [0..<110]")
  case None
  then have no: "\<not> hits r d i" if "i < 110" for i using that by (auto simp: find_None_iff)
  have "d ! i < r" if "i < 110" for i
    using that
  proof (induction i)
    case 0
    then show ?case using no [of 0] by (simp add: hits_def)
  next
    case (Suc i)
    then show ?case using no [of "Suc i"] by (simp add: hits_def)
  qed
  then have "hits r d 110" using assms by (simp add: hits_def)
  then show ?thesis using None by (simp add: select_bin_def NOISE_NUM_VALUES_def hits_def [abs_def])
next
  case (Some i)
  then have "i < 110" "hits r d i" by (auto simp: find_Some_iff)
  then show ?thesis using Some by (simp add: select_bin_def NOISE_NUM_VALUES_def hits_def [abs_def])
qed

lemma hits_heard:
  assumes "rounds_floats fl" and "in_bins es" and "distribution fl es = Some d" and "i < 111" and "0 < r" and "hits r d i"
  shows "word_of_int (NOISE_MIN_QUANTIZE + int i) \<in> set es"
proof -
  obtain d0 where c: "length d0 = 111" "\<forall>i < 111. d0 ! i = tally fl es i" and d0: "d = cumulate fl (int (length es)) 0 d0"
    using distribution_loops [OF assms(2), of fl] assms(3) by auto
  have "\<exists>e \<in> set es. sint e = NOISE_MIN_QUANTIZE + int i"
  proof (rule ccontr)
    assume "\<not> (\<exists>e \<in> set es. sint e = NOISE_MIN_QUANTIZE + int i)"
    then have "filter (\<lambda>e. sint e = NOISE_MIN_QUANTIZE + int i) es = []" by (simp add: filter_empty_conv)
    then have "d0 ! i = 0" using c(2) assms(4) by (simp add: tally_def)
    then have "d ! i = (if i = 0 then 0 else d ! (i - 1))"
      using cumulate_empty_bin [OF assms(1), of i d0 0] c(1) assms(1,4) by (simp add: d0 rounds_floats_def)
    then show False using assms(5,6) by (simp add: hits_def split: if_splits)
  qed
  then obtain e where e: "e \<in> set es" "NOISE_MIN_QUANTIZE + int i = sint e" by auto
  then show ?thesis by simp
qed

text \<open>The pattern a reading is drawn for: the current one when it has been heard, else the most frequent.\<close>

definition used_pattern :: "bytes \<Rightarrow> nat \<Rightarrow> noise_node \<Rightarrow> bytes \<Rightarrow> bytes" where
  "used_pattern tr N nd key = (if followers tr N key = [] then freqKey nd else key)"

lemma freqKey_heard:
  assumes "learned fl tr N nd hs" and "20 < N" and "N \<le> length tr"
  shows "followers tr N (freqKey nd) \<noteq> []" "length (freqKey nd) = 20"
proof -
  have "followers tr N (window_at tr 20) \<noteq> []" using followers_window [of 20 N tr] assms(2) by simp
  moreover have "length (followers tr N (window_at tr 20)) \<le> length (followers tr N (freqKey nd))"
    using assms(1) unfolding learned_def by blast
  ultimately show ne: "followers tr N (freqKey nd) \<noteq> []" by (cases "followers tr N (freqKey nd)") simp_all
  then obtain i where "20 \<le> i" "i < N" "freqKey nd = window_at tr i" using followers_outside [of "freqKey nd" tr N] by fastforce
  then show "length (freqKey nd) = 20" using assms(3) length_window [of i tr] by simp
qed

lemma learnedD:
  assumes "learned fl tr N nd hs" and "followers tr N k \<noteq> []"
  shows "\<exists>p. hashtable_search (noiseTable nd) k = Some p \<and> p < length hs \<and> elements (hs ! p) = followers tr N k \<and>
    distribution fl (followers tr N k) = Some (dist (hs ! p))"
proof -
  have "case hashtable_search (noiseTable nd) k of None \<Rightarrow> followers tr N k = []
      | Some p \<Rightarrow> followers tr N k \<noteq> [] \<and> p < length hs \<and> elements (hs ! p) = followers tr N k \<and>
          distribution fl (followers tr N k) = Some (dist (hs ! p))"
    using assms(1) unfolding learned_def by blast
  then show ?thesis using assms(2) by (simp split: option.splits)
qed

lemma learned_None:
  assumes "learned fl tr N nd hs" and "followers tr N k = []"
  shows "hashtable_search (noiseTable nd) k = None"
proof (rule ccontr)
  assume "hashtable_search (noiseTable nd) k \<noteq> None"
  then obtain p where p: "hashtable_search (noiseTable nd) k = Some p" by blast
  have "case hashtable_search (noiseTable nd) k of None \<Rightarrow> followers tr N k = []
      | Some p \<Rightarrow> followers tr N k \<noteq> [] \<and> p < length hs \<and> elements (hs ! p) = followers tr N k \<and>
          distribution fl (followers tr N k) = Some (dist (hs ! p))"
    using assms(1) unfolding learned_def by blast
  then show False using assms(2) p by simp
qed

lemma drawn_heard:
  assumes "elements h = es" and "es \<noteq> []" and "in_bins es" and "distribution fl es = Some (dist h)"
    and "rounds_floats fl" and "0 < ranNum" and "ranNum \<le> dist h ! 110"
  shows "\<exists>noise st2. (if numElements h = 1 then do { noise \<leftarrow> rd8 (elements h) 0; Some (noise, st\<lparr>numCase1 := numCase1 st + 1\<rparr>) }
      else Some (word_of_int (NOISE_MIN_QUANTIZE + int (select_bin ranNum (dist h))), st\<lparr>numCase2 := numCase2 st + 1\<rparr>)) = Some (noise, st2) \<and>
    noise \<in> set es \<and> noiseData st2 = noiseData st"
proof (cases "numElements h = 1")
  case True
  then obtain e where "es = [e]" using assms(1) by (auto simp: numElements_def length_Suc_conv)
  then show ?thesis using True assms(1) by (simp add: rd8_def)
next
  case False
  have "word_of_int (NOISE_MIN_QUANTIZE + int (select_bin ranNum (dist h))) \<in> set es"
    using select_bin_hits [OF assms(7)] hits_heard [OF assms(5,3,4) _ assms(6)] by blast
  then show ?thesis using False by (simp del: of_int_add)
qed

text \<open>C40: What a node with a learned model generates was heard: given that floats round to floats and the
  uniform number is above 0 and not above the last entry of the distribution, noise generation
  succeeds, and the reading is one that followed the channel's current pattern in the trace or,
  when the pattern never occurred, the most frequent pattern, which then becomes the current one.\<close>

theorem sim_noise_gen_heard:
  assumes "n < length (noiseData st)" and "nd = noiseData st ! n" and "learned fl tr N nd (hashes st)" and "in_bins tr"
    and "20 < N" "N \<le> length tr" and "rounds_floats fl"
    and "cchannel channel = int c" and "c < length (node_key nd)" and "length (node_key nd ! c) = 20"
    and "used = used_pattern tr N nd (node_key nd ! c)"
    and "RandomUniform rnd st = Some (ranNum, st1)" and "0 < ranNum"
    and "distribution fl (followers tr N used) = Some d" and "ranNum \<le> d ! 110"
  shows "\<exists>noise st'. sim_noise_gen rnd n channel st = Some (noise, st') \<and> noise \<in> set (followers tr N used) \<and>
    node_key (noiseData st' ! n) ! c = used"
proof -
  define key where "key = node_key nd ! c"
  note fk = freqKey_heard [OF assms(3,5,6)]
  have ne: "followers tr N used \<noteq> []" using fk(1) by (auto simp: assms(11) used_pattern_def)
  obtain p where p: "hashtable_search (noiseTable nd) used = Some p" "p < length (hashes st)" "elements (hashes st ! p) = followers tr N used"
    "distribution fl (followers tr N used) = Some (dist (hashes st ! p))"
    using learnedD [OF assms(3) ne] by blast
  note same = RandomUniform_frame [OF assms(12)]
  define st2 where "st2 = (if followers tr N key = [] then put_node n (nd\<lparr>node_key := (node_key nd)[c := used]\<rparr>) st1 else st1)"
  have absent: "wrn key 0 (freqKey nd) = Some used" "put_key n (int c) used st1 = Some st2" "hashtable_search (noiseTable nd) key = None"
    if "followers tr N key = []"
  proof -
    have u: "used = freqKey nd" using that by (simp add: assms(11) used_pattern_def key_def)
    then show "wrn key 0 (freqKey nd) = Some used" using assms(10) fk(2) by (simp add: wrn_def key_def)
    show "put_key n (int c) used st1 = Some st2" using assms(1,2,9) same(1) that by (simp add: put_key_def array_set_def st2_def)
    show "hashtable_search (noiseTable nd) key = None" using learned_None [OF assms(3) that] .
  qed
  have present: "used = key" "st2 = st1" if "followers tr N key \<noteq> []"
    using that by (simp_all add: assms(11) used_pattern_def key_def st2_def)
  have k2: "node_key (noiseData st2 ! n) ! c = used" "hashes st2 = hashes st"
    using assms(1,2,9,11) same by (auto simp: st2_def key_def used_pattern_def)
  define st3 where "st3 = st2\<lparr>numTotal := numTotal st2 + 1\<rparr>"
  have "d = dist (hashes st ! p)" using p(4) assms(14) by simp
  then obtain noise st4 where fin: "(if numElements (hashes st ! p) = 1
        then do { noise \<leftarrow> rd8 (elements (hashes st ! p)) 0; Some (noise, st3\<lparr>numCase1 := numCase1 st3 + 1\<rparr>) }
        else Some (word_of_int (NOISE_MIN_QUANTIZE + int (select_bin ranNum (dist (hashes st ! p)))), st3\<lparr>numCase2 := numCase2 st3 + 1\<rparr>)) =
        Some (noise, st4)" "noise \<in> set (followers tr N used)" "noiseData st4 = noiseData st3"
    using drawn_heard [OF p(3) ne in_bins_followers [OF assms(4,6)] p(4) assms(7,13)] assms(15) by blast
  note access = assms(1,9,12) p(1,2) k2(2) assms(2) [symmetric] array_get_nat
  have "sim_noise_gen rnd n channel st = Some (noise, st4)"
  proof (cases "followers tr N key = []")
    case True
    then show ?thesis
      using fin(1) by (simp add: sim_noise_gen_def assms(8) access absent [OF True, unfolded key_def] Let_def st3_def [symmetric] split: if_split_asm)
  next
    case False
    then show ?thesis
      using fin(1)
      by (simp add: sim_noise_gen_def present(2) [OF False, symmetric] assms(8) access p(1) [unfolded present(1) [OF False]] key_def [symmetric] Let_def st3_def [symmetric] split: if_split_asm)
  qed
  then show ?thesis using fin(2,3) k2(1) by (simp add: st3_def)
qed

definition drawing :: "noise_state \<Rightarrow> noise_state" where
  "drawing st = st\<lparr>randU := replicate 97 (1 / 2), randC := 0, randCD := 0, randCM := 1, i97 := 97, j97 := 33, test := True\<rparr>"

lemma drawing: "\<exists>st1. RandomUniform (\<lambda>x. x) (drawing st) = Some (1, st1)" "noiseData (drawing st) = noiseData st"
  "hashes (drawing st) = hashes st"
  by (simp_all add: drawing_def RandomUniform_def ensure_seeded_def array_get_def array_set_def fib_next_def arith_next_def
      combine_def index_down_def)

lemma quiet_learned:
  "\<exists>h0 st'. sim_noise_create_model (\<lambda>x. x) 0 (one_node quiet_trace h0) = Some st' \<and> 0 < length (noiseData st') \<and>
     learned (\<lambda>x. x) quiet_trace 32 (noiseData st' ! 0) (hashes st') \<and> set (node_key (noiseData st' ! 0)) = {window_at quiet_trace 32}"
proof -
  obtain h0 where h0: "create_hashtable (\<lambda>x. x) (True, True) NOISE_HASHTABLE_SIZE sim_noise_hash sim_noise_eq = Some (h0 :: (bytes, nat) hashtable)"
    using noise_table by blast
  show ?thesis
    using create_model_ok [where n = 0 and st = "one_node quiet_trace h0" and fl = "\<lambda>x. x" and oks = "(True, True)" and N = 32, OF _ refl]
      h0 quiet_trace one_node [of h0] by fastforce
qed

theorem sim_noise_gen_heard_witness:
  "\<exists>h0 st' noise st2 used. sim_noise_create_model (\<lambda>x. x) 0 (one_node quiet_trace h0) = Some st' \<and>
     sim_noise_gen (\<lambda>x. x) 0 11 (drawing st') = Some (noise, st2) \<and> noise \<in> set (followers quiet_trace 32 used)"
proof -
  obtain h0 st' where st': "sim_noise_create_model (\<lambda>x. x) 0 (one_node quiet_trace h0) = Some st'" "0 < length (noiseData st')"
    "learned (\<lambda>x. x) quiet_trace 32 (noiseData st' ! 0) (hashes st')" "set (node_key (noiseData st' ! 0)) = {window_at quiet_trace 32}"
    using quiet_learned by blast
  define nd where "nd = noiseData st' ! 0"
  define used where "used = used_pattern quiet_trace 32 nd (node_key nd ! 0)"
  have k: "node_key nd \<noteq> []" using st'(4) by (cases "node_key nd") (simp_all add: nd_def)
  then have "node_key nd ! 0 \<in> set (node_key nd)" by simp
  with k have nd: "learned (\<lambda>x. x) quiet_trace 32 nd (hashes st')" "node_key nd \<noteq> []" "node_key nd ! 0 = window_at quiet_trace 32"
    using st'(3,4) unfolding nd_def by simp_all
  have "followers quiet_trace 32 (freqKey nd) \<noteq> []" using freqKey_heard [OF nd(1)] quiet_trace by simp
  then have ne: "followers quiet_trace 32 used \<noteq> []" by (auto simp: used_def used_pattern_def)
  have "in_bins (followers quiet_trace 32 used)" using in_bins_followers [OF quiet_trace(2)] quiet_trace(1) by simp
  then obtain d where d: "distribution (\<lambda>x. x) (followers quiet_trace 32 used) = Some d" "d ! 110 = 1"
    using distribution_last [OF _ ne] by blast
  obtain st1 where r: "RandomUniform (\<lambda>x. x) (drawing st') = Some (1, st1)" using drawing(1) by blast
  have "length (node_key nd ! 0) = 20" using nd(3) length_window [of 32 quiet_trace] quiet_trace by simp
  moreover have "cchannel 11 = int 0" by (simp add: cchannel_def)
  ultimately show ?thesis
    using sim_noise_gen_heard [where n = 0 and st = "drawing st'" and nd = nd and tr = quiet_trace and N = 32 and c = 0 and channel = 11
        and fl = "\<lambda>x. x" and rnd = "\<lambda>x. x" and d = d, OF _ _ _ _ _ _ _ _ _ _ used_def r]
      st'(1,2) nd d quiet_trace ne by (simp add: drawing nd_def [symmetric] rounds_floats_def) blast
qed

end
