(* ===== verification/TimeSync.thy ===== *)
theory TimeSync
  imports QueueC Complex_Main "HOL-Library.Signed_Division"
begin

text \<open>
  Time synchronisation by flooding, \<open>tos/lib/ftsp/TimeSyncP.nc\<close>: a table of pairs of local time and
  offset to the root's time, the line through them by linear regression, and the election of the
  root. Floats are reals, every float operation followed by the rounding \<open>fl\<close>, a parameter. An
  \<open>int32_t\<close> variable is a word read with \<open>sint\<close>. None is undefined behaviour: a signed overflow, a
  division by zero or a conversion out of range. What the radio and the clock answer is an argument;
  posted tasks and calls that leave the module are logged.
\<close>

section \<open>State\<close>

definition MAX_ENTRIES :: nat where "MAX_ENTRIES = 8"
definition BEACON_RATE :: u32 where "BEACON_RATE = 10"
definition ROOT_TIMEOUT :: u8 where "ROOT_TIMEOUT = 5"
definition IGNORE_ROOT_MSG :: u8 where "IGNORE_ROOT_MSG = 4"
definition ENTRY_VALID_LIMIT :: u8 where "ENTRY_VALID_LIMIT = 4"
definition ENTRY_SEND_LIMIT :: u8 where "ENTRY_SEND_LIMIT = 3"
definition ENTRY_THROWOUT_LIMIT :: int where "ENTRY_THROWOUT_LIMIT = 500"
definition TS_TIMER_MODE :: u8 where "TS_TIMER_MODE = 0"
definition TS_USER_MODE :: u8 where "TS_USER_MODE = 1"
definition STATE_PROCESSING :: u8 where "STATE_PROCESSING = 1"
definition STATE_SENDING :: u8 where "STATE_SENDING = 2"
definition STATE_INIT :: u8 where "STATE_INIT = 4"

lemmas ftsp_consts = MAX_ENTRIES_def BEACON_RATE_def ROOT_TIMEOUT_def IGNORE_ROOT_MSG_def ENTRY_VALID_LIMIT_def
  ENTRY_SEND_LIMIT_def ENTRY_THROWOUT_LIMIT_def TS_TIMER_MODE_def TS_USER_MODE_def STATE_PROCESSING_def
  STATE_SENDING_def STATE_INIT_def

datatype entry_state = ENTRY_EMPTY | ENTRY_FULL

record TableItem =
  ti_state :: entry_state
  localTime :: u32
  timeOffset :: u32

record TimeSyncMsg =
  rootID :: u16
  nodeID :: u16
  seqNum :: u8
  globalTime :: u32
  msg_localTime :: u32

datatype ftsp_event =
    PostProcess | PostSend | TimerStart u32 | TimerStop | BroadcastSend TimeSyncMsg u32
  | MsgReceived | MsgSent | RadioControlStart

text \<open>Message buffers are numbered; \<open>payloads\<close> is what the receive buffers hold.\<close>

record ftsp =
  ts_table :: "TableItem list"
  tableEntries :: u8
  ts_state :: u8
  ts_mode :: u8
  skew :: real
  localAverage :: u32
  offsetAverage :: u32
  numEntries :: u8
  processedMsg :: nat
  payloads :: "nat \<Rightarrow> TimeSyncMsg"
  outgoingMsg :: TimeSyncMsg
  heartBeats :: u8
  numErrors :: u8
  ts_out :: "ftsp_event list"

definition ts_emit :: "ftsp_event \<Rightarrow> ftsp \<Rightarrow> ftsp" where
  "ts_emit e s = s\<lparr>ts_out := ts_out s @ [e]\<rparr>"

definition set_flag :: "u8 \<Rightarrow> ftsp \<Rightarrow> ftsp" where
  "set_flag b s = s\<lparr>ts_state := or (ts_state s) b\<rparr>"

definition clear_flag :: "u8 \<Rightarrow> ftsp \<Rightarrow> ftsp" where
  "clear_flag b s = s\<lparr>ts_state := and (ts_state s) (not b)\<rparr>"

definition has_flag :: "u8 \<Rightarrow> ftsp \<Rightarrow> bool" where
  "has_flag b s \<longleftrightarrow> and (ts_state s) b \<noteq> 0"

section \<open>C arithmetic\<close>

definition int32 :: "int \<Rightarrow> u32 option" where
  "int32 x = (if - (2 ^ 31) \<le> x \<and> x < 2 ^ 31 then Some (word_of_int x) else None)"

definition int64 :: "int \<Rightarrow> int option" where
  "int64 x = (if - (2 ^ 63) \<le> x \<and> x < 2 ^ 63 then Some x else None)"

text \<open>A float converted to \<open>int32_t\<close>.\<close>

definition float_to_int32 :: "real \<Rightarrow> u32 option" where
  "float_to_int32 x = int32 (if x < 0 then \<lceil>x\<rceil> else \<lfloor>x\<rfloor>)"

section \<open>Global time\<close>

definition is_synced :: "u16 \<Rightarrow> ftsp \<Rightarrow> error_t" where
  "is_synced me s = (if ENTRY_VALID_LIMIT \<le> numEntries s \<or> rootID (outgoingMsg s) = me then SUCCESS else FAIL)"

text \<open>\<open>(int32_t)(skew * (int32_t)(time - localAverage))\<close>\<close>

definition skewed :: "(real \<Rightarrow> real) \<Rightarrow> u32 \<Rightarrow> ftsp \<Rightarrow> u32 option" where
  "skewed fl time s = float_to_int32 (fl (skew s * fl (real_of_int (sint (time - localAverage s)))))"

definition local2Global :: "(real \<Rightarrow> real) \<Rightarrow> u16 \<Rightarrow> u32 \<Rightarrow> ftsp \<Rightarrow> (error_t \<times> u32) option" where
  "local2Global fl me time s = do {
     k \<leftarrow> skewed fl time s;
     off \<leftarrow> int32 (sint (offsetAverage s) + sint k);
     Some (is_synced me s, time + off)
   }"

definition global2Local :: "(real \<Rightarrow> real) \<Rightarrow> u16 \<Rightarrow> u32 \<Rightarrow> ftsp \<Rightarrow> (error_t \<times> u32) option" where
  "global2Local fl me time s = do {
     let approxLocalTime = time - offsetAverage s;
     k \<leftarrow> skewed fl approxLocalTime s;
     Some (is_synced me s, approxLocalTime - k)
   }"

definition getGlobalTime :: "(real \<Rightarrow> real) \<Rightarrow> u16 \<Rightarrow> u32 \<Rightarrow> ftsp \<Rightarrow> (error_t \<times> u32) option" where
  "getGlobalTime fl me local_time s = local2Global fl me local_time s"

section \<open>Regression\<close>

text \<open>The sums over the full entries after the first: of the quotients and of the rests of the
  differences to the first, for the local times and for the offsets. The remainder of the local
  times is unsigned, as no conversion to \<open>int32_t\<close> is written there.\<close>

record rests =
  localSum :: int
  localAverageRest :: int
  offsetSum :: int
  offsetAverageRest :: int

definition c_int32 :: "int \<Rightarrow> int option" where
  "c_int32 x = (if - (2 ^ 31) \<le> x \<and> x < 2 ^ 31 then Some x else None)"

fun add_rests :: "int \<Rightarrow> u32 \<Rightarrow> u32 \<Rightarrow> TableItem list \<Rightarrow> rests \<Rightarrow> rests option" where
  "add_rests n la oa [] z = Some z"
| "add_rests n la oa (e # es) z =
     (if ti_state e = ENTRY_FULL then do {
        d \<leftarrow> c_int32 (sint (timeOffset e) - sint oa);
        let l = localTime e - la;
        lar \<leftarrow> Some (sint (word_of_int (localAverageRest z + uint l mod n) :: u32));
        oar \<leftarrow> c_int32 (offsetAverageRest z + d smod n);
        add_rests n la oa es
          \<lparr>localSum = localSum z + sint l sdiv n, localAverageRest = lar,
           offsetSum = offsetSum z + d sdiv n, offsetAverageRest = oar\<rparr>
      }
      else add_rests n la oa es z)"

text \<open>The sums of squares and products about the averages.\<close>

fun add_squares :: "u32 \<Rightarrow> u32 \<Rightarrow> TableItem list \<Rightarrow> int \<times> int \<Rightarrow> (int \<times> int) option" where
  "add_squares la oa [] z = Some z"
| "add_squares la oa (e # es) z =
     (if ti_state e = ENTRY_FULL then do {
        let a = sint (localTime e - la);
        b \<leftarrow> c_int32 (sint (timeOffset e) - sint oa);
        ls \<leftarrow> int64 (fst z + a * a);
        os \<leftarrow> int64 (snd z + a * b);
        add_squares la oa es (ls, os)
      }
      else add_squares la oa es z)"

fun from_first_full :: "TableItem list \<Rightarrow> TableItem list" where
  "from_first_full [] = []"
| "from_first_full (e # es) = (if ti_state e = ENTRY_FULL then e # es else from_first_full es)"

definition calculateConversion :: "(real \<Rightarrow> real) \<Rightarrow> ftsp \<Rightarrow> ftsp option" where
  "calculateConversion fl s =
     (case from_first_full (ts_table s) of
        [] \<Rightarrow> Some s
      | e # es \<Rightarrow> do {
          let n = uint (tableEntries s);
          z \<leftarrow> (if n = 0 \<and> list_ex (\<lambda>e. ti_state e = ENTRY_FULL) es then None
               else add_rests n (localTime e) (timeOffset e) es
                 \<lparr>localSum = 0, localAverageRest = 0, offsetSum = 0, offsetAverageRest = 0\<rparr>);
          _ \<leftarrow> (if n = 0 then None else Some ());
          let newLocalAverage = localTime e + word_of_int (localSum z + localAverageRest z sdiv n);
          let newOffsetAverage = timeOffset e + word_of_int (offsetSum z + offsetAverageRest z sdiv n);
          (ls, os) \<leftarrow> add_squares newLocalAverage newOffsetAverage (ts_table s) (0, 0);
          let newSkew = (if ls \<noteq> 0 then fl (fl (real_of_int os) / fl (real_of_int ls)) else skew s);
          Some (s\<lparr>skew := newSkew, offsetAverage := newOffsetAverage, localAverage := newLocalAverage,
                numEntries := tableEntries s\<rparr>)
        })"

definition clearTable :: "ftsp \<Rightarrow> ftsp" where
  "clearTable s = s\<lparr>ts_table := map (\<lambda>e. e\<lparr>ti_state := ENTRY_EMPTY\<rparr>) (ts_table s), numEntries := 0\<rparr>"

section \<open>The table\<close>

record item_scan =
  freeItem :: "nat option"
  oldestItem :: nat
  oldestTime :: u32
  sc_entries :: u8

text \<open>The loop over the table from index \<open>i\<close> on: the table with its future entries emptied.\<close>

fun scan_table :: "u32 \<Rightarrow> nat \<Rightarrow> TableItem list \<Rightarrow> item_scan \<Rightarrow> TableItem list \<times> item_scan" where
  "scan_table t i [] z = ([], z)"
| "scan_table t i (e # es) z =
     (let age = t - localTime e;
          e = (if age \<ge> 0x7FFFFFFF then e\<lparr>ti_state := ENTRY_EMPTY\<rparr> else e);
          z = (if ti_state e = ENTRY_EMPTY then z\<lparr>freeItem := Some i\<rparr> else z\<lparr>sc_entries := sc_entries z + 1\<rparr>);
          z = (if age \<ge> oldestTime z then z\<lparr>oldestTime := age, oldestItem := i\<rparr> else z);
          (es, z) = scan_table t (Suc i) es z
      in (e # es, z))"

definition insert_entry :: "TimeSyncMsg \<Rightarrow> ftsp \<Rightarrow> ftsp" where
  "insert_entry msg s =
     (let (t, z) = scan_table (msg_localTime msg) 0 (ts_table s)
                     \<lparr>freeItem = None, oldestItem = 0, oldestTime = 0, sc_entries = 0\<rparr>;
          (i, n) = (case freeItem z of None \<Rightarrow> (oldestItem z, sc_entries z) | Some i \<Rightarrow> (i, sc_entries z + 1))
      in s\<lparr>tableEntries := n,
           ts_table := t[i := \<lparr>ti_state = ENTRY_FULL, localTime = msg_localTime msg,
                              timeOffset = globalTime msg - msg_localTime msg\<rparr>]\<rparr>)"

definition addNewEntry :: "(real \<Rightarrow> real) \<Rightarrow> u16 \<Rightarrow> TimeSyncMsg \<Rightarrow> ftsp \<Rightarrow> ftsp option" where
  "addNewEntry fl me msg s = do {
     (_, g) \<leftarrow> local2Global fl me (msg_localTime msg) s;
     let timeError = sint (g - globalTime msg);
     if is_synced me s = SUCCESS \<and> (timeError > ENTRY_THROWOUT_LIMIT \<or> timeError < - ENTRY_THROWOUT_LIMIT) then
       (let s = s\<lparr>numErrors := numErrors s + 1\<rparr> in Some (if numErrors s > 3 then clearTable s else s))
     else Some (insert_entry msg (s\<lparr>numErrors := 0\<rparr>))
   }"

section \<open>Messages\<close>

text \<open>What a message does to the root and the sequence number; None when it is ignored.\<close>

definition accept_root :: "u16 \<Rightarrow> TimeSyncMsg \<Rightarrow> ftsp \<Rightarrow> ftsp option" where
  "accept_root me msg s =
     (let out = outgoingMsg s
      in if rootID msg < rootID out \<and> \<not> (heartBeats s < IGNORE_ROOT_MSG \<and> rootID out = me)
         then Some (s\<lparr>outgoingMsg := out\<lparr>rootID := rootID msg, seqNum := seqNum msg\<rparr>\<rparr>)
         else if rootID out = rootID msg \<and> sint (seqNum msg - seqNum out) > 0
         then Some (s\<lparr>outgoingMsg := out\<lparr>seqNum := seqNum msg\<rparr>\<rparr>)
         else None)"

definition processMsg :: "(real \<Rightarrow> real) \<Rightarrow> u16 \<Rightarrow> ftsp \<Rightarrow> ftsp option" where
  "processMsg fl me s =
     (let msg = payloads s (processedMsg s)
      in case accept_root me msg s of
        None \<Rightarrow> Some (clear_flag STATE_PROCESSING s)
      | Some s \<Rightarrow> do {
          let s = (if rootID (outgoingMsg s) < me then s\<lparr>heartBeats := 0\<rparr> else s);
          s \<leftarrow> addNewEntry fl me msg s;
          s \<leftarrow> calculateConversion fl s;
          Some (clear_flag STATE_PROCESSING (ts_emit MsgReceived s))
        })"

text \<open>The radio has received \<open>msg\<close> into its buffer \<open>b\<close>; the result is the buffer it gets back.\<close>

definition Receive_receive :: "nat \<Rightarrow> TimeSyncMsg \<Rightarrow> bool \<Rightarrow> u32 \<Rightarrow> ftsp \<Rightarrow> nat \<times> ftsp" where
  "Receive_receive b msg isValid eventTime s =
     (let s = s\<lparr>payloads := (payloads s)(b := msg)\<rparr>
      in if \<not> has_flag STATE_PROCESSING s \<and> isValid then
           let old = processedMsg s;
               s = s\<lparr>processedMsg := b, payloads := (payloads s)(b := msg\<lparr>msg_localTime := eventTime\<rparr>)\<rparr>
           in (old, ts_emit PostProcess (set_flag STATE_PROCESSING s))
         else (b, s))"

definition sendMsg :: "(real \<Rightarrow> real) \<Rightarrow> u16 \<Rightarrow> u32 \<Rightarrow> error_t \<Rightarrow> ftsp \<Rightarrow> ftsp option" where
  "sendMsg fl me local_time send_res s = do {
     (_, global_time) \<leftarrow> local2Global fl me local_time s;
     let out = outgoingMsg s;
     let s = (if rootID out = me then
                if sint (local_time - localAverage s) \<ge> 0x20000000
                then s\<lparr>localAverage := local_time, offsetAverage := global_time - local_time\<rparr> else s
              else if heartBeats s \<ge> ROOT_TIMEOUT
              then s\<lparr>heartBeats := 0, outgoingMsg := out\<lparr>rootID := me, seqNum := seqNum out + 1\<rparr>\<rparr> else s);
     let s = s\<lparr>outgoingMsg := (outgoingMsg s)\<lparr>globalTime := global_time\<rparr>\<rparr>;
     Some (if numEntries s < ENTRY_SEND_LIMIT \<and> rootID (outgoingMsg s) \<noteq> me
           then clear_flag STATE_SENDING (s\<lparr>heartBeats := heartBeats s + 1\<rparr>)
           else let s = ts_emit (BroadcastSend (outgoingMsg s) local_time) s
             in if send_res \<noteq> SUCCESS then ts_emit MsgSent (clear_flag STATE_SENDING s) else s)
   }"

text \<open>\<open>own\<close>: the message is \<open>outgoingMsgBuffer\<close>.\<close>

definition Send_sendDone :: "u16 \<Rightarrow> bool \<Rightarrow> error_t \<Rightarrow> ftsp \<Rightarrow> ftsp" where
  "Send_sendDone me own error s =
     (if \<not> own then s
      else let s = (if error = SUCCESS then
                      let s = s\<lparr>heartBeats := heartBeats s + 1\<rparr>; out = outgoingMsg s
                      in if rootID out = me then s\<lparr>outgoingMsg := out\<lparr>seqNum := seqNum out + 1\<rparr>\<rparr> else s
                    else s)
        in ts_emit MsgSent (clear_flag STATE_SENDING s))"

definition timeSyncMsgSend :: "u16 \<Rightarrow> ftsp \<Rightarrow> ftsp" where
  "timeSyncMsgSend me s =
     (let s = (if rootID (outgoingMsg s) = 0xFFFF then
                 let s = s\<lparr>heartBeats := heartBeats s + 1\<rparr>
                 in if heartBeats s \<ge> ROOT_TIMEOUT
                    then s\<lparr>outgoingMsg := (outgoingMsg s)\<lparr>seqNum := 0, rootID := me\<rparr>\<rparr> else s
               else s)
      in if rootID (outgoingMsg s) \<noteq> 0xFFFF \<and> \<not> has_flag STATE_SENDING s
         then ts_emit PostSend (set_flag STATE_SENDING s) else s)"

section \<open>Modes, timer and control\<close>

definition ts_Timer_fired :: "u16 \<Rightarrow> ftsp \<Rightarrow> ftsp" where
  "ts_Timer_fired me s = (if ts_mode s = TS_TIMER_MODE then timeSyncMsgSend me s else ts_emit TimerStop s)"

definition TimeSyncMode_setMode :: "u16 \<Rightarrow> u8 \<Rightarrow> ftsp \<Rightarrow> error_t \<times> ftsp" where
  "TimeSyncMode_setMode rand16 m s =
     (let s = (if m = TS_TIMER_MODE then ts_emit (TimerStart ((896 + ucast (and rand16 0xFF)) * BEACON_RATE)) s
               else ts_emit TimerStop s)
      in (SUCCESS, s\<lparr>ts_mode := m\<rparr>))"

definition TimeSyncMode_getMode :: "ftsp \<Rightarrow> u8" where
  "TimeSyncMode_getMode s = ts_mode s"

definition TimeSyncMode_send :: "u16 \<Rightarrow> ftsp \<Rightarrow> error_t \<times> ftsp" where
  "TimeSyncMode_send me s = (if ts_mode s = TS_USER_MODE then (SUCCESS, timeSyncMsgSend me s) else (FAIL, s))"

definition ftsp_static :: ftsp where
  "ftsp_static =
     \<lparr>ts_table = replicate MAX_ENTRIES \<lparr>ti_state = ENTRY_EMPTY, localTime = 0, timeOffset = 0\<rparr>, tableEntries = 0,
      ts_state = 0, ts_mode = 0, skew = 0, localAverage = 0, offsetAverage = 0, numEntries = 0, processedMsg = 0,
      payloads = (\<lambda>_. \<lparr>rootID = 0, nodeID = 0, seqNum = 0, globalTime = 0, msg_localTime = 0\<rparr>),
      outgoingMsg = \<lparr>rootID = 0, nodeID = 0, seqNum = 0, globalTime = 0, msg_localTime = 0\<rparr>, heartBeats = 0,
      numErrors = 0, ts_out = []\<rparr>"

text \<open>Buffer 0 is \<open>processedMsgBuffer\<close>.\<close>

definition TimeSync_init :: "ftsp \<Rightarrow> error_t \<times> ftsp" where
  "TimeSync_init s =
     (let s = clearTable (s\<lparr>skew := 0, localAverage := 0, offsetAverage := 0\<rparr>)
      in (SUCCESS, s\<lparr>outgoingMsg := (outgoingMsg s)\<lparr>rootID := 0xFFFF\<rparr>, processedMsg := 0, ts_state := STATE_INIT\<rparr>))"

definition StdControl_start :: "u16 \<Rightarrow> u16 \<Rightarrow> ftsp \<Rightarrow> error_t \<times> ftsp" where
  "StdControl_start me rand16 s =
     (SUCCESS, snd (TimeSyncMode_setMode rand16 TS_USER_MODE (s\<lparr>heartBeats := 0, outgoingMsg := (outgoingMsg s)\<lparr>nodeID := me\<rparr>\<rparr>)))"

definition StdControl_stop :: "ftsp \<Rightarrow> error_t \<times> ftsp" where
  "StdControl_stop s = (SUCCESS, ts_emit TimerStop s)"

definition TimeSync_booted :: "u16 \<Rightarrow> u16 \<Rightarrow> ftsp \<Rightarrow> ftsp" where
  "TimeSync_booted me rand16 s = snd (StdControl_start me rand16 (ts_emit RadioControlStart s))"

definition getSkew :: "ftsp \<Rightarrow> real" where "getSkew s = skew s"
definition getOffset :: "ftsp \<Rightarrow> u32" where "getOffset s = offsetAverage s"
definition getSyncPoint :: "ftsp \<Rightarrow> u32" where "getSyncPoint s = localAverage s"
definition getRootID :: "ftsp \<Rightarrow> u16" where "getRootID s = rootID (outgoingMsg s)"
definition getSeqNum :: "ftsp \<Rightarrow> u8" where "getSeqNum s = seqNum (outgoingMsg s)"
definition getNumEntries :: "ftsp \<Rightarrow> u8" where "getNumEntries s = numEntries s"
definition getHeartBeats :: "ftsp \<Rightarrow> u8" where "getHeartBeats s = heartBeats s"

end
