(* ===== verification/TimeSyncProps.thy ===== *)
theory TimeSyncProps
  imports TimeSync
begin

text \<open>
  What time synchronisation promises: the table and its counters stay consistent, a root at a
  constant offset is followed exactly, the root changes only by the rules of the protocol, and a
  node that hears nothing makes itself the root.
\<close>

section \<open>The table\<close>

definition full :: "TableItem list \<Rightarrow> TableItem list" where
  "full t = filter (\<lambda>e. ti_state e = ENTRY_FULL) t"

definition expire :: "u32 \<Rightarrow> TableItem \<Rightarrow> TableItem" where
  "expire t e = (if t - localTime e \<ge> 0x7FFFFFFF then e\<lparr>ti_state := ENTRY_EMPTY\<rparr> else e)"

lemma localTime_expire [simp]: "localTime (expire t e) = localTime e" "timeOffset (expire t e) = timeOffset e"
  by (simp_all add: expire_def)

lemma not_full: "ti_state e \<noteq> ENTRY_FULL \<longleftrightarrow> ti_state e = ENTRY_EMPTY"
  by (cases "ti_state e") simp_all

lemma scan_table_fst: "fst (scan_table t i es z) = map (expire t) es"
  by (induction es arbitrary: i z) (simp_all add: Let_def split_beta expire_def)

definition scan_item :: "u32 \<Rightarrow> nat \<Rightarrow> TableItem \<Rightarrow> item_scan \<Rightarrow> item_scan" where
  "scan_item t i e z =
     (let z = (if ti_state (expire t e) = ENTRY_FULL then z\<lparr>sc_entries := sc_entries z + 1\<rparr> else z\<lparr>freeItem := Some i\<rparr>)
      in if t - localTime e \<ge> oldestTime z then z\<lparr>oldestTime := t - localTime e, oldestItem := i\<rparr> else z)"

lemma scan_table_Cons: "snd (scan_table t i (e # es) z) = snd (scan_table t (Suc i) es (scan_item t i e z))"
  by (cases "ti_state (expire t e)") (auto simp: Let_def split_beta scan_item_def expire_def)

lemma scan_item_simps [simp]:
  "sc_entries (scan_item t i e z) = sc_entries z + (if ti_state (expire t e) = ENTRY_FULL then 1 else 0)"
  "freeItem (scan_item t i e z) = (if ti_state (expire t e) = ENTRY_FULL then freeItem z else Some i)"
  "oldestTime (scan_item t i e z) = max (oldestTime z) (t - localTime e)"
  "oldestItem (scan_item t i e z) = (if oldestTime z \<le> t - localTime e then i else oldestItem z)"
  by (auto simp: scan_item_def Let_def max_def)

lemmas scan_snoc = scan_table_Cons scan_table.simps(1)

lemma scan_table_entries: "sc_entries (snd (scan_table t i es z)) = sc_entries z + of_nat (length (full (map (expire t) es)))"
  by (induction es arbitrary: i z) (simp_all add: scan_table_Cons full_def del: scan_table.simps(2))

text \<open>The index of a free entry, if there is one, and of an oldest one.\<close>

lemma scan_table_free_None:
  "freeItem (snd (scan_table t i es z)) = None \<longleftrightarrow> freeItem z = None \<and> (\<forall>e \<in> set es. ti_state (expire t e) = ENTRY_FULL)"
  by (induction es arbitrary: i z) (auto simp: scan_table_Cons simp del: scan_table.simps(2))

lemma scan_table_free_Some:
  "freeItem (snd (scan_table t i es z)) = Some j \<Longrightarrow> freeItem z = None \<or> (\<exists>k < i. freeItem z = Some k) \<Longrightarrow>
   (\<exists>k < i. freeItem z = Some k \<and> j = k) \<or> (i \<le> j \<and> j < i + length es \<and> ti_state (expire t (es ! (j - i))) = ENTRY_EMPTY)"
proof (induction es arbitrary: i z)
  case (Cons e es)
  let ?z = "scan_item t i e z"
  have "freeItem (snd (scan_table t (Suc i) es ?z)) = Some j" using Cons.prems(1) by (simp only: scan_table_Cons)
  moreover have "freeItem ?z = None \<or> (\<exists>k < Suc i. freeItem ?z = Some k)" using Cons.prems(2) less_Suc_eq by auto
  ultimately consider (old) k where "k < Suc i" "freeItem ?z = Some k" "j = k"
    | (new) "Suc i \<le> j" "j < Suc i + length es" "ti_state (expire t (es ! (j - Suc i))) = ENTRY_EMPTY"
    using Cons.IH by blast
  then show ?case
  proof cases
    case old
    then show ?thesis using Cons.prems(2) not_full [of "expire t e"] by (cases "ti_state (expire t e)") auto
  next
    case new
    then show ?thesis by (simp add: nth_Cons')
  qed
qed simp

lemma scan_table_oldest:
  "oldestTime z \<le> oldestTime (snd (scan_table t i es z)) \<and>
   (\<forall>e \<in> set es. t - localTime e \<le> oldestTime (snd (scan_table t i es z))) \<and>
   ((oldestItem (snd (scan_table t i es z)) = oldestItem z \<and> oldestTime (snd (scan_table t i es z)) = oldestTime z) \<or>
    (\<exists>j < length es. oldestItem (snd (scan_table t i es z)) = i + j \<and> oldestTime (snd (scan_table t i es z)) = t - localTime (es ! j)))"
proof (induction es arbitrary: i z)
  case (Cons x es)
  define z1 where "z1 = scan_item t i x z"
  define z2 where "z2 = snd (scan_table t (Suc i) es z1)"
  have c: "snd (scan_table t i (x # es) z) = z2" by (simp only: scan_table_Cons z1_def z2_def)
  have le: "oldestTime z \<le> oldestTime z1" "t - localTime x \<le> oldestTime z1" by (simp_all add: z1_def)
  have one: "(oldestItem z1 = oldestItem z \<and> oldestTime z1 = oldestTime z) \<or> (oldestItem z1 = i \<and> oldestTime z1 = t - localTime x)"
    by (simp add: z1_def max_def)
  note IH = Cons.IH [where z = z1 and i = "Suc i", folded z2_def]
  have later: "\<exists>j < length (x # es). oldestItem z2 = i + j \<and> oldestTime z2 = t - localTime ((x # es) ! j)"
    if "j < length es" "oldestItem z2 = Suc i + j" "oldestTime z2 = t - localTime (es ! j)" for j
    using that by (intro exI [of _ "Suc j"]) simp
  have "oldestTime z1 \<le> oldestTime z2" using IH by blast
  then have "oldestTime z \<le> oldestTime z2" "t - localTime x \<le> oldestTime z2" using le by (meson order_trans)+
  moreover have "(oldestItem z2 = oldestItem z \<and> oldestTime z2 = oldestTime z) \<or>
      (\<exists>j < length (x # es). oldestItem z2 = i + j \<and> oldestTime z2 = t - localTime ((x # es) ! j))"
    using IH one later by (metis add_0_right length_greater_0_conv list.distinct(1) nth_Cons_0)
  ultimately show ?case unfolding c using IH by simp
qed simp

lemma full_update:
  assumes "i < length t" and "ti_state e = ENTRY_FULL"
  shows "length (full (t[i := e])) = length (full t) + (if ti_state (t ! i) = ENTRY_FULL then 0 else 1)"
proof -
  have t: "t = take i t @ t ! i # drop (Suc i) t" using assms(1) by (rule id_take_nth_drop)
  have "full (t[i := e]) = full (take i t) @ e # full (drop (Suc i) t)"
    using assms by (simp add: upd_conv_take_nth_drop full_def)
  moreover have "full t = full (take i t) @ full [t ! i] @ full (drop (Suc i) t)" by (subst t) (simp add: full_def)
  ultimately show ?thesis by (simp add: full_def)
qed

lemma length_full: "length (full t) \<le> length t"
  by (simp add: full_def)

definition new_entry :: "TimeSyncMsg \<Rightarrow> TableItem" where
  "new_entry msg = \<lparr>ti_state = ENTRY_FULL, localTime = msg_localTime msg, timeOffset = globalTime msg - msg_localTime msg\<rparr>"

text \<open>The new entry takes the place of an empty one or, in a full table, of an oldest one.\<close>

lemma insert_entry_spec:
  assumes "length (ts_table s) = 8" and "t = map (expire (msg_localTime msg)) (ts_table s)"
  shows "\<exists>i < 8. ts_table (insert_entry msg s) = t[i := new_entry msg] \<and>
    (if \<forall>e \<in> set t. ti_state e = ENTRY_FULL
     then \<forall>e \<in> set t. msg_localTime msg - localTime e \<le> msg_localTime msg - localTime (t ! i)
     else ti_state (t ! i) = ENTRY_EMPTY) \<and>
    tableEntries (insert_entry msg s) = of_nat (length (full (ts_table (insert_entry msg s))))"
proof -
  define m where "m = msg_localTime msg"
  define z where "z = snd (scan_table m 0 (ts_table s) \<lparr>freeItem = None, oldestItem = 0, oldestTime = 0, sc_entries = 0\<rparr>)"
  have sc: "scan_table m 0 (ts_table s) \<lparr>freeItem = None, oldestItem = 0, oldestTime = 0, sc_entries = 0\<rparr> = (t, z)"
    using scan_table_fst [of m 0 "ts_table s"] assms(2) by (simp add: z_def m_def prod_eq_iff)
  have len: "length t = 8" using assms by simp
  have n: "sc_entries z = of_nat (length (full t))" using scan_table_entries [of m 0 "ts_table s"] assms(2) by (simp add: z_def m_def)
  have new: "ti_state (new_entry msg) = ENTRY_FULL" by (simp add: new_entry_def)
  show ?thesis
  proof (cases "freeItem z")
    case None
    then have all: "\<forall>e \<in> set t. ti_state e = ENTRY_FULL"
      using scan_table_free_None [of m 0 "ts_table s"] assms(2) by (simp add: z_def m_def)
    have o: "(oldestItem z = 0 \<and> oldestTime z = 0) \<or> (\<exists>j < 8. oldestItem z = j \<and> oldestTime z = m - localTime (ts_table s ! j))"
      "\<forall>e \<in> set (ts_table s). m - localTime e \<le> oldestTime z"
      using scan_table_oldest [of "\<lparr>freeItem = None, oldestItem = 0, oldestTime = 0, sc_entries = 0\<rparr>" m 0 "ts_table s", folded z_def] assms(1)
      by auto
    define i where "i = oldestItem z"
    have i: "i < 8" using o(1) by (auto simp: i_def)
    have "m - localTime e \<le> m - localTime (ts_table s ! i)" if "e \<in> set (ts_table s)" for e
      using o that i assms(1) by (auto simp: i_def word_le_nat_alt)
    then have "\<forall>e \<in> set t. m - localTime e \<le> m - localTime (t ! i)" using i assms by (auto simp: m_def)
    moreover have s': "insert_entry msg s = s\<lparr>tableEntries := sc_entries z, ts_table := t[i := new_entry msg]\<rparr>"
      using sc None by (simp add: insert_entry_def m_def [symmetric] i_def new_entry_def)
    moreover have "ti_state (t ! i) = ENTRY_FULL" using all i len by simp
    ultimately show ?thesis using all i n full_update [OF _ new, of i t] len by (intro exI [of _ i]) (simp add: m_def)
  next
    case (Some i)
    then have i: "i < 8" "ti_state (t ! i) = ENTRY_EMPTY"
      using scan_table_free_Some [of m 0 "ts_table s" "\<lparr>freeItem = None, oldestItem = 0, oldestTime = 0, sc_entries = 0\<rparr>" i] assms
      by (simp_all add: z_def m_def)
    then have "\<not> (\<forall>e \<in> set t. ti_state e = ENTRY_FULL)" using len by (metis entry_state.distinct(1) nth_mem)
    moreover have "insert_entry msg s = s\<lparr>tableEntries := sc_entries z + 1, ts_table := t[i := new_entry msg]\<rparr>"
      using sc Some by (simp add: insert_entry_def m_def [symmetric] new_entry_def)
    ultimately show ?thesis using i n full_update [OF _ new, of i t] len by (intro exI [of _ i]) auto
  qed
qed

section \<open>A constant offset\<close>

text \<open>The full entries have the offset \<open>d\<close> and local times in a window that starts at \<open>T0\<close>.\<close>

definition agrees :: "u32 \<Rightarrow> u32 \<Rightarrow> TableItem \<Rightarrow> bool" where
  "agrees d T0 e \<longleftrightarrow> timeOffset e = d \<and> uint (localTime e - T0) \<le> 2 ^ 28"

lemma sdiv_bound:
  assumes "0 < n"
  shows "n * \<bar>x sdiv n\<bar> \<le> \<bar>x :: int\<bar>"
proof -
  have "0 \<le> \<bar>x\<bar> div n" using assms by (simp add: pos_imp_zdiv_nonneg_iff)
  then have "\<bar>x sdiv n\<bar> = \<bar>x\<bar> div n"
    using assms by (cases "x = 0") (simp_all only: signed_divide_int_def abs_mult abs_sgn_eq abs_of_nonneg, simp_all)
  moreover have "n * (\<bar>x\<bar> div n) \<le> \<bar>x\<bar>" using mult_div_mod_eq [of n "\<bar>x\<bar>"] pos_mod_sign [OF assms, of "\<bar>x\<bar>"] by linarith
  ultimately show ?thesis by simp
qed

lemma sint_small: "- (2 ^ 31) \<le> x \<Longrightarrow> x < 2 ^ 31 \<Longrightarrow> sint (word_of_int x :: u32) = x"
  by (simp add: signed_take_bit_int_eq_self sint_sbintrunc')

lemma local_difference:
  assumes "uint (x - T0) \<le> 2 ^ 28" and "uint (y - T0) \<le> 2 ^ 28" and "\<bar>k\<bar> \<le> 2 ^ 28 + 64"
  shows "sint (x - (y + word_of_int k) :: u32) = uint (x - T0) - uint (y - T0) - k"
proof -
  define p q where pq: "p = uint (x - T0)" "q = uint (y - T0)"
  have nonneg: "0 \<le> p" "0 \<le> q" by (simp_all add: pq)
  have "x - (y + word_of_int k) = word_of_int (p - q - k)" by (simp add: pq algebra_simps)
  moreover have "- (2 ^ 31) \<le> p - q - k" "p - q - k < 2 ^ 31" using assms [folded pq] nonneg by (simp_all add: abs_le_iff)
  ultimately show ?thesis by (simp only: sint_small pq)
qed

lemma add_squares_agree:
  assumes "\<forall>e \<in> set (full es). timeOffset e = oa \<and> \<bar>sint (localTime e - la)\<bar> \<le> 2 ^ 29 + 64"
    and "0 \<le> ls" and "ls + int (length es) * 2 ^ 59 < 2 ^ 63"
  shows "\<exists>ls'. add_squares la oa es (ls, 0) = Some (ls', 0)"
  using assms
proof (induction es arbitrary: ls)
  case (Cons e es)
  have rest: "\<forall>e \<in> set (full es). timeOffset e = oa \<and> \<bar>sint (localTime e - la)\<bar> \<le> 2 ^ 29 + 64"
    using Cons.prems(1) by (simp add: full_def)
  show ?case
  proof (cases "ti_state e = ENTRY_FULL")
    case True
    define a where "a = sint (localTime e - la)"
    have e: "timeOffset e = oa" "\<bar>a\<bar> \<le> 2 ^ 29 + 64" using Cons.prems(1) True by (simp_all add: full_def a_def)
    have "a * a = \<bar>a\<bar> * \<bar>a\<bar>" by simp
    also have "\<dots> \<le> (2 ^ 29 + 64) * (2 ^ 29 + 64)" using e(2) by (intro mult_mono) simp_all
    finally have "a * a \<le> 2 ^ 59" by simp
    then obtain sq where sq: "a * a = sq" "0 \<le> sq" "sq \<le> 2 ^ 59" using zero_le_square [of a] by blast
    have "\<exists>ls'. add_squares la oa es (ls + sq, 0) = Some (ls', 0)"
      using Cons.prems(2,3) sq(2,3) by (intro Cons.IH [OF rest]) simp_all
    moreover have "int64 (ls + sq) = Some (ls + sq)" "int64 0 = Some 0" using Cons.prems(2,3) sq(2,3) by (simp_all add: int64_def)
    ultimately show ?thesis
      using True e(1) sq(1) by (simp add: a_def [symmetric] c_int32_def Let_def)
  next
    case False
    then show ?thesis using Cons.IH [OF rest] Cons.prems(2,3) by simp
  qed
qed simp

lemma zero_sdiv [simp]: "(0 :: int) sdiv n = 0" "(0 :: int) smod n = 0"
  by (simp_all add: signed_divide_int_def signed_modulo_int_def)

lemma add_rests_agree:
  assumes "\<forall>e \<in> set (full es). timeOffset e = oa \<and> \<bar>sint (localTime e - la)\<bar> \<le> 2 ^ 28"
    and "0 < n" "n \<le> 8" and "offsetSum z = 0" "offsetAverageRest z = 0"
    and "0 \<le> localAverageRest z" "localAverageRest z + 8 * int (length es) < 2 ^ 20"
  shows "\<exists>z'. add_rests n la oa es z = Some z' \<and> offsetSum z' = 0 \<and> offsetAverageRest z' = 0 \<and>
    n * \<bar>localSum z' - localSum z\<bar> \<le> int (length (full es)) * 2 ^ 28 \<and>
    0 \<le> localAverageRest z' \<and> localAverageRest z' \<le> localAverageRest z + 8 * int (length es)"
  using assms
proof (induction es arbitrary: z)
  case (Cons e es)
  have rest: "\<forall>e \<in> set (full es). timeOffset e = oa \<and> \<bar>sint (localTime e - la)\<bar> \<le> 2 ^ 28"
    using Cons.prems(1) by (simp add: full_def)
  show ?case
  proof (cases "ti_state e = ENTRY_FULL")
    case True
    define l where "l = localTime e - la"
    have e: "timeOffset e = oa" "\<bar>sint l\<bar> \<le> 2 ^ 28" using Cons.prems(1) True by (simp_all add: full_def l_def)
    define r where "r = uint l mod n"
    have r: "0 \<le> r" "r < 8" using Cons.prems(3) pos_mod_sign [OF Cons.prems(2), of "uint l"] pos_mod_bound [OF Cons.prems(2), of "uint l"]
      unfolding r_def by linarith+
    define q where "q = sint l sdiv n"
    have q: "n * \<bar>q\<bar> \<le> 2 ^ 28" using sdiv_bound [OF Cons.prems(2), of "sint l"] e(2) by (simp add: q_def)
    define z1 where "z1 = \<lparr>localSum = localSum z + q, localAverageRest = localAverageRest z + r, offsetSum = 0, offsetAverageRest = 0\<rparr>"
    have "sint (word_of_int (localAverageRest z + r) :: u32) = localAverageRest z + r"
      using Cons.prems(6,7) r by (intro sint_small) simp_all
    then have step: "add_rests n la oa (e # es) z = add_rests n la oa es z1"
      using True e(1) Cons.prems(4,5)
      by (simp add: l_def [symmetric] r_def [symmetric] q_def [symmetric] c_int32_def z1_def Let_def)
    obtain z' where z': "add_rests n la oa es z1 = Some z'" "offsetSum z' = 0" "offsetAverageRest z' = 0"
      "n * \<bar>localSum z' - localSum z1\<bar> \<le> int (length (full es)) * 2 ^ 28" "0 \<le> localAverageRest z'"
      "localAverageRest z' \<le> localAverageRest z1 + 8 * int (length es)"
      using Cons.IH [of z1] rest Cons.prems(2,3,6,7) r by (auto simp: z1_def)
    have "\<bar>localSum z' - localSum z\<bar> \<le> \<bar>localSum z' - localSum z1\<bar> + \<bar>q\<bar>" by (simp add: z1_def)
    then have "n * \<bar>localSum z' - localSum z\<bar> \<le> n * (\<bar>localSum z' - localSum z1\<bar> + \<bar>q\<bar>)"
      using Cons.prems(2) by (intro mult_left_mono) simp_all
    also have "\<dots> \<le> int (length (full es)) * 2 ^ 28 + 2 ^ 28" using z'(4) q by (simp add: distrib_left)
    finally have "n * \<bar>localSum z' - localSum z\<bar> \<le> int (length (full (e # es))) * 2 ^ 28"
      using True by (simp add: full_def algebra_simps)
    then show ?thesis using step z' r by (simp add: z1_def)
  next
    case False
    then have f: "add_rests n la oa (e # es) z = add_rests n la oa es z" "full (e # es) = full es" by (simp_all add: full_def)
    obtain z' where "add_rests n la oa es z = Some z'" "offsetSum z' = 0" "offsetAverageRest z' = 0"
      "n * \<bar>localSum z' - localSum z\<bar> \<le> int (length (full es)) * 2 ^ 28" "0 \<le> localAverageRest z'"
      "localAverageRest z' \<le> localAverageRest z + 8 * int (length es)"
      using Cons.IH [of z] rest Cons.prems(2-7) by auto
    then show ?thesis unfolding f by (intro exI [of _ z']) simp
  qed
qed (auto simp: full_def)

lemma from_first_full: "full t = e # es \<Longrightarrow> \<exists>rest. from_first_full t = e # rest \<and> full rest = es \<and> length rest < length t"
proof (induction t)
  case (Cons x t)
  show ?case
  proof (cases "ti_state x = ENTRY_FULL")
    case True
    then show ?thesis using Cons.prems by (simp add: full_def)
  next
    case False
    then have "full t = e # es" using Cons.prems by (simp add: full_def)
    from Cons.IH [OF this] False show ?thesis by auto
  qed
qed (simp add: full_def)

lemma from_first_full_empty: "from_first_full t = [] \<longleftrightarrow> full t = []"
  by (induction t) (simp_all add: full_def)

text \<open>The regression of a table that agrees on the offset is that offset, with no skew.\<close>

lemma calculateConversion_agree:
  assumes "length (ts_table s) = 8" and "\<forall>e \<in> set (full (ts_table s)). agrees d T0 e" and "full (ts_table s) \<noteq> []"
    and "tableEntries s = of_nat (length (full (ts_table s)))" and "fl 0 = 0" and "skew s = 0"
  shows "\<exists>la. calculateConversion fl s =
    Some (s\<lparr>skew := 0, offsetAverage := d, localAverage := la, numEntries := tableEntries s\<rparr>)"
proof -
  obtain e es where ees: "full (ts_table s) = e # es" using assms(3) by (cases "full (ts_table s)") auto
  then obtain rest where rest: "from_first_full (ts_table s) = e # rest" "full rest = es" "length rest < 8"
    using from_first_full assms(1) by metis
  define n where "n = uint (tableEntries s)"
  have len: "length (full (ts_table s)) \<le> 8" using length_full [of "ts_table s"] assms(1) by simp
  have "uint (of_nat (length (full (ts_table s))) :: u8) = int (length (full (ts_table s)))"
    using len by (simp add: uint_nat unat_of_nat)
  then have n: "n = int (length es) + 1" "0 < n" "n \<le> 8" using len assms(4) ees by (simp_all add: n_def)
  have ag: "\<forall>x \<in> insert e (set es). timeOffset x = d \<and> uint (localTime x - T0) \<le> 2 ^ 28" using assms(2) ees by (simp add: agrees_def)
  have "\<forall>x \<in> set (full rest). timeOffset x = timeOffset e \<and> \<bar>sint (localTime x - localTime e)\<bar> \<le> 2 ^ 28"
  proof
    fix x
    assume "x \<in> set (full rest)"
    then have x: "timeOffset x = d" "uint (localTime x - T0) \<le> 2 ^ 28" "uint (localTime e - T0) \<le> 2 ^ 28" using ag rest(2) by simp_all
    define p q where pq: "p = uint (localTime x - T0)" "q = uint (localTime e - T0)"
    have "0 \<le> p" "0 \<le> q" by (simp_all add: pq)
    moreover have "sint (localTime x - localTime e) = p - q" using local_difference [OF x(2,3), of 0] by (simp add: pq)
    ultimately show "timeOffset x = timeOffset e \<and> \<bar>sint (localTime x - localTime e)\<bar> \<le> 2 ^ 28"
      using x(1) x(2,3) [folded pq] ag by (simp add: abs_le_iff)
  qed
  then obtain z where z: "add_rests n (localTime e) (timeOffset e) rest
      \<lparr>localSum = 0, localAverageRest = 0, offsetSum = 0, offsetAverageRest = 0\<rparr> = Some z" "offsetSum z = 0" "offsetAverageRest z = 0"
      "n * \<bar>localSum z\<bar> \<le> int (length es) * 2 ^ 28" "0 \<le> localAverageRest z" "localAverageRest z \<le> 8 * int (length rest)"
    using add_rests_agree [of rest "timeOffset e" "localTime e" n "\<lparr>localSum = 0, localAverageRest = 0, offsetSum = 0, offsetAverageRest = 0\<rparr>"]
      n(2,3) rest(2,3) by auto
  define k where "k = localSum z + localAverageRest z sdiv n"
  have "\<bar>localAverageRest z sdiv n\<bar> \<le> \<bar>localAverageRest z\<bar>"
    using sdiv_bound [OF n(2), of "localAverageRest z"] n(2) mult_right_mono [of 1 n "\<bar>localAverageRest z sdiv n\<bar>"] by simp
  then have "\<bar>localAverageRest z sdiv n\<bar> \<le> 56" using z(5,6) rest(3) by simp
  moreover have "n * \<bar>localSum z\<bar> \<le> n * 2 ^ 28" using z(4) n(1) by simp
  then have "\<bar>localSum z\<bar> \<le> 2 ^ 28" using n(2) by simp
  ultimately have k: "\<bar>k\<bar> \<le> 2 ^ 28 + 64" by (simp add: k_def)
  have "\<forall>x \<in> set (full (ts_table s)). timeOffset x = d \<and> \<bar>sint (localTime x - (localTime e + word_of_int k))\<bar> \<le> 2 ^ 29 + 64"
  proof
    fix x
    assume "x \<in> set (full (ts_table s))"
    then have x: "timeOffset x = d" "uint (localTime x - T0) \<le> 2 ^ 28" "uint (localTime e - T0) \<le> 2 ^ 28" using ag ees by auto
    define p q where pq: "p = uint (localTime x - T0)" "q = uint (localTime e - T0)"
    have "0 \<le> p" "0 \<le> q" by (simp_all add: pq)
    moreover have "sint (localTime x - (localTime e + word_of_int k)) = p - q - k" using local_difference [OF x(2,3) k] by (simp only: pq)
    moreover note k x(2,3) [folded pq]
    ultimately show "timeOffset x = d \<and> \<bar>sint (localTime x - (localTime e + word_of_int k))\<bar> \<le> 2 ^ 29 + 64"
      using x(1) by (simp add: abs_le_iff)
  qed
  from add_squares_agree [OF this, of 0] obtain ls where
    ls: "add_squares (localTime e + word_of_int k) d (ts_table s) (0, 0) = Some (ls, 0)" using assms(1) by auto
  have "timeOffset e = d" using ag by simp
  then show ?thesis
    using rest(1) z(1-3) ls n(2) assms(5,6)
    by (intro exI [of _ "localTime e + word_of_int k"])
      (simp add: calculateConversion_def n_def [symmetric] k_def [symmetric] Let_def del: of_int_add)
qed

text \<open>A message received at \<open>eventTime\<close> into buffer \<open>b\<close>, and its task.\<close>

definition hear :: "(real \<Rightarrow> real) \<Rightarrow> u16 \<Rightarrow> nat \<times> TimeSyncMsg \<times> u32 \<Rightarrow> ftsp \<Rightarrow> ftsp option" where
  "hear fl me m s = (case m of (b, msg, eventTime) \<Rightarrow> processMsg fl me (snd (Receive_receive b msg True eventTime s)))"

fun hear_all :: "(real \<Rightarrow> real) \<Rightarrow> u16 \<Rightarrow> (nat \<times> TimeSyncMsg \<times> u32) list \<Rightarrow> ftsp \<Rightarrow> ftsp option" where
  "hear_all fl me [] s = Some s"
| "hear_all fl me (m # ms) s = Option.bind (hear fl me m s) (hear_all fl me ms)"

definition sync_inv :: "u32 \<Rightarrow> u32 \<Rightarrow> u16 \<Rightarrow> ftsp \<Rightarrow> bool" where
  "sync_inv d T0 me s \<longleftrightarrow> length (ts_table s) = 8 \<and> skew s = 0 \<and> \<not> has_flag STATE_PROCESSING s \<and> rootID (outgoingMsg s) \<noteq> me \<and>
     (\<forall>e \<in> set (full (ts_table s)). agrees d T0 e) \<and>
     (if full (ts_table s) = [] then numEntries s = 0 \<and> rootID (outgoingMsg s) = 0xFFFF
      else offsetAverage s = d \<and> numEntries s \<noteq> 0)"

lemma has_clear_flag [simp]: "\<not> has_flag b (clear_flag b s)"
  by (simp add: has_flag_def clear_flag_def bit_eq_iff bit_simps)

lemma no_skew:
  assumes "skew s = 0" and "fl 0 = 0"
  shows "local2Global fl me t s = Some (is_synced me s, t + offsetAverage s)"
    "global2Local fl me t s = Some (is_synced me s, t - offsetAverage s)"
proof -
  have k: "skewed fl t s = Some 0" "skewed fl (t - offsetAverage s) s = Some 0"
    using assms by (simp_all add: skewed_def float_to_int32_def int32_def)
  moreover have "int32 (sint (offsetAverage s)) = Some (offsetAverage s)"
    using sint_lt [of "offsetAverage s"] sint_ge [of "offsetAverage s"] by (simp add: int32_def)
  ultimately show "local2Global fl me t s = Some (is_synced me s, t + offsetAverage s)"
    "global2Local fl me t s = Some (is_synced me s, t - offsetAverage s)"
    by (simp_all add: local2Global_def global2Local_def)
qed

lemma set_full_insert:
  assumes "length (ts_table s) = 8" and "e \<in> set (full (ts_table (insert_entry msg s)))"
  shows "e = new_entry msg \<or> e \<in> set (full (ts_table s))"
proof -
  obtain i where i: "ts_table (insert_entry msg s) = (map (expire (msg_localTime msg)) (ts_table s))[i := new_entry msg]"
    using insert_entry_spec [OF assms(1) refl, of msg] by blast
  then have "e = new_entry msg \<or> e \<in> expire (msg_localTime msg) ` set (ts_table s)" "ti_state e = ENTRY_FULL"
    using assms(2) set_update_subset_insert [of _ i "new_entry msg"] by (fastforce simp: full_def)+
  then show ?thesis by (auto simp: full_def expire_def split: if_splits)
qed

lemma insert_frame [simp]:
  "skew (insert_entry msg s) = skew s" "outgoingMsg (insert_entry msg s) = outgoingMsg s" "ts_state (insert_entry msg s) = ts_state s"
  "offsetAverage (insert_entry msg s) = offsetAverage s" "numEntries (insert_entry msg s) = numEntries s"
  "localAverage (insert_entry msg s) = localAverage s"
  by (simp_all add: insert_entry_def Let_def split: prod.split)

lemma insert_full:
  assumes "length (ts_table s) = 8"
  shows "length (ts_table (insert_entry msg s)) = 8" "full (ts_table (insert_entry msg s)) \<noteq> []"
    "tableEntries (insert_entry msg s) = of_nat (length (full (ts_table (insert_entry msg s))))"
proof -
  obtain i where i: "i < 8" "ts_table (insert_entry msg s) = (map (expire (msg_localTime msg)) (ts_table s))[i := new_entry msg]"
    "tableEntries (insert_entry msg s) = of_nat (length (full (ts_table (insert_entry msg s))))"
    using insert_entry_spec [OF assms refl, of msg] by blast
  then have "new_entry msg \<in> set (ts_table (insert_entry msg s))" using assms by (simp add: set_update_memI)
  moreover have "ti_state (new_entry msg) = ENTRY_FULL" by (simp add: new_entry_def)
  ultimately have "new_entry msg \<in> set (full (ts_table (insert_entry msg s)))" by (simp add: full_def)
  then show "full (ts_table (insert_entry msg s)) \<noteq> []" by auto
  show "length (ts_table (insert_entry msg s)) = 8" "tableEntries (insert_entry msg s) = of_nat (length (full (ts_table (insert_entry msg s))))"
    using i assms by simp_all
qed

text \<open>One message at the offset keeps the invariant, and the table is no longer empty.\<close>

lemma process_inv:
  assumes "length (ts_table s) = 8" and "skew s = 0" and "rootID (outgoingMsg s) \<noteq> me"
    and "\<forall>e \<in> set (full (ts_table s)). agrees d T0 e" and "full (ts_table s) \<noteq> [] \<longrightarrow> offsetAverage s = d"
    and "full (ts_table s) = [] \<longrightarrow> numEntries s = 0"
    and "fl 0 = 0" and "globalTime msg - msg_localTime msg = d" and "uint (msg_localTime msg - T0) \<le> 2 ^ 28"
  shows "\<exists>s1 la. addNewEntry fl me msg s = Some s1 \<and> calculateConversion fl s1 =
      Some (s1\<lparr>skew := 0, offsetAverage := d, localAverage := la, numEntries := tableEntries s1\<rparr>) \<and>
    length (ts_table s1) = 8 \<and> (\<forall>e \<in> set (full (ts_table s1)). agrees d T0 e) \<and> full (ts_table s1) \<noteq> [] \<and> tableEntries s1 \<noteq> 0 \<and>
    outgoingMsg s1 = outgoingMsg s \<and> ts_state s1 = ts_state s"
proof -
  define s0 where "s0 = s\<lparr>numErrors := 0\<rparr>"
  define s1 where "s1 = insert_entry msg s0"
  have len: "length (ts_table s0) = 8" using assms(1) by (simp add: s0_def)
  have "\<not> (is_synced me s = SUCCESS \<and> (sint (msg_localTime msg + offsetAverage s - globalTime msg) > ENTRY_THROWOUT_LIMIT \<or>
      sint (msg_localTime msg + offsetAverage s - globalTime msg) < - ENTRY_THROWOUT_LIMIT))"
  proof (cases "full (ts_table s) = []")
    case True
    then show ?thesis using assms(3,6) by (simp add: is_synced_def ENTRY_VALID_LIMIT_def)
  next
    case False
    then have "msg_localTime msg + offsetAverage s = globalTime msg" using assms(5,8) by (simp add: algebra_simps)
    then show ?thesis by (simp add: ENTRY_THROWOUT_LIMIT_def)
  qed
  then have add: "addNewEntry fl me msg s = Some s1"
    using no_skew(1) [where s = s and fl = fl, OF assms(2,7)] by (auto simp: addNewEntry_def s1_def s0_def Let_def)
  have ag: "\<forall>e \<in> set (full (ts_table s1)). agrees d T0 e"
  proof
    fix e
    assume "e \<in> set (full (ts_table s1))"
    then have "e = new_entry msg \<or> e \<in> set (full (ts_table s0))" unfolding s1_def by (rule set_full_insert [OF len])
    then show "agrees d T0 e" using assms(4,8,9) by (auto simp: s0_def agrees_def new_entry_def)
  qed
  note f = insert_full [OF len, of msg, folded s1_def]
  have "length (full (ts_table s1)) \<le> 8" using length_full [of "ts_table s1"] f(1) by simp
  then have "tableEntries s1 \<noteq> 0" using f(2,3) by (simp add: word_unat_eq_iff unat_of_nat)
  moreover obtain la where "calculateConversion fl s1 =
      Some (s1\<lparr>skew := 0, offsetAverage := d, localAverage := la, numEntries := tableEntries s1\<rparr>)"
    using calculateConversion_agree [where fl = fl, OF f(1) ag f(2,3) assms(7)] assms(2) by (auto simp: s1_def s0_def)
  ultimately show ?thesis using add f ag by (auto simp: s1_def s0_def)
qed

lemma receive_keeps:
  assumes "\<not> has_flag STATE_PROCESSING s" and "snd (Receive_receive b msg True t s) = s'"
  shows "ts_table s' = ts_table s" "skew s' = skew s" "outgoingMsg s' = outgoingMsg s" "offsetAverage s' = offsetAverage s"
    "numEntries s' = numEntries s" "payloads s' (processedMsg s') = msg\<lparr>msg_localTime := t\<rparr>" "has_flag STATE_PROCESSING s'"
    "heartBeats s' = heartBeats s"
proof -
  have "and (or (ts_state s) 1) 1 = (1 :: u8)" by (rule bit_word_eqI) (auto simp: bit_simps)
  then show "ts_table s' = ts_table s" "skew s' = skew s" "outgoingMsg s' = outgoingMsg s" "offsetAverage s' = offsetAverage s"
    "numEntries s' = numEntries s" "payloads s' (processedMsg s') = msg\<lparr>msg_localTime := t\<rparr>" "has_flag STATE_PROCESSING s'"
    "heartBeats s' = heartBeats s"
    using assms(1) unfolding assms(2) [symmetric]
    by (simp_all add: Receive_receive_def has_flag_def ts_emit_def set_flag_def Let_def STATE_PROCESSING_def)
qed

lemma flag_frame [simp]:
  "ts_table (clear_flag b s) = ts_table s" "skew (clear_flag b s) = skew s" "outgoingMsg (clear_flag b s) = outgoingMsg s"
  "offsetAverage (clear_flag b s) = offsetAverage s" "numEntries (clear_flag b s) = numEntries s"
  "heartBeats (clear_flag b s) = heartBeats s" "localAverage (clear_flag b s) = localAverage s"
  "tableEntries (clear_flag b s) = tableEntries s"
  "ts_table (ts_emit e s) = ts_table s" "skew (ts_emit e s) = skew s" "outgoingMsg (ts_emit e s) = outgoingMsg s"
  "offsetAverage (ts_emit e s) = offsetAverage s" "numEntries (ts_emit e s) = numEntries s"
  "heartBeats (ts_emit e s) = heartBeats s" "localAverage (ts_emit e s) = localAverage s" "ts_state (ts_emit e s) = ts_state s"
  "tableEntries (ts_emit e s) = tableEntries s"
  by (simp_all add: clear_flag_def ts_emit_def)

text \<open>What \<open>accept_root\<close> changes.\<close>

lemma accept_root_Some:
  assumes "accept_root me msg s = Some s'"
  shows "\<exists>out. s' = s\<lparr>outgoingMsg := out\<rparr> \<and> rootID out = rootID msg"
  using assms by (auto simp: accept_root_def Let_def split: if_splits)

lemma hear_inv:
  assumes inv: "sync_inv d T0 me s" and root: "rootID msg < me" and "globalTime msg - t = d"
    and "uint (t - T0) \<le> 2 ^ 28" and "fl 0 = 0"
  shows "\<exists>s'. hear fl me (b, msg, t) s = Some s' \<and> sync_inv d T0 me s' \<and> full (ts_table s') \<noteq> []"
proof -
  define r where "r = snd (Receive_receive b msg True t s)"
  define m where "m = msg\<lparr>msg_localTime := t\<rparr>"
  have "\<not> has_flag STATE_PROCESSING s" using inv by (simp add: sync_inv_def)
  note fr = receive_keeps [OF this r_def [symmetric]]
  have h: "hear fl me (b, msg, t) s = processMsg fl me r" by (simp add: hear_def r_def)
  show ?thesis
  proof (cases "accept_root me m r")
    case None
    have "full (ts_table s) \<noteq> []"
    proof
      assume "full (ts_table s) = []"
      then have o: "rootID (outgoingMsg s) = 0xFFFF" "rootID (outgoingMsg s) \<noteq> me" using inv by (auto simp: sync_inv_def)
      have "unat me < 2 ^ LENGTH(16)" by (rule unsigned_less)
      then have "me \<le> rootID (outgoingMsg s)" unfolding o(1) by (simp add: word_le_nat_alt)
      then have "rootID m < rootID (outgoingMsg r)" using root fr(3) by (simp add: m_def)
      then have "accept_root me m r \<noteq> None" using o(2) fr(3) by (simp add: accept_root_def Let_def)
      with None show False by simp
    qed
    then show ?thesis
      using None h fr inv by (simp add: processMsg_def m_def Let_def sync_inv_def)
  next
    case (Some a)
    then obtain out where a: "a = r\<lparr>outgoingMsg := out\<rparr>" "rootID out = rootID m" using accept_root_Some by blast
    define s0 where "s0 = (if rootID (outgoingMsg a) < me then a\<lparr>heartBeats := 0\<rparr> else a)"
    have s0: "ts_table s0 = ts_table s" "skew s0 = skew s" "rootID (outgoingMsg s0) = rootID msg" "offsetAverage s0 = offsetAverage s"
      "numEntries s0 = numEntries s"
      using a fr by (simp_all add: s0_def m_def)
    obtain s1 la where s1: "addNewEntry fl me m s0 = Some s1" "calculateConversion fl s1 =
        Some (s1\<lparr>skew := 0, offsetAverage := d, localAverage := la, numEntries := tableEntries s1\<rparr>)"
      "length (ts_table s1) = 8" "\<forall>e \<in> set (full (ts_table s1)). agrees d T0 e" "full (ts_table s1) \<noteq> []"
      "tableEntries s1 \<noteq> 0" "outgoingMsg s1 = outgoingMsg s0"
      using process_inv [of s0 me d T0 fl m] inv root assms(3-5) s0 by (auto simp: sync_inv_def m_def split: if_splits)
    have "processMsg fl me r = Some (clear_flag STATE_PROCESSING (ts_emit MsgReceived
        (s1\<lparr>skew := 0, offsetAverage := d, localAverage := la, numEntries := tableEntries s1\<rparr>)))"
      using Some fr(6) s1(1,2) by (simp add: processMsg_def m_def [symmetric] s0_def [symmetric])
    then show ?thesis using h s1 s0(3) root by (simp add: sync_inv_def)
  qed
qed

lemma hear_all_inv:
  assumes "sync_inv d T0 me s" and "fl 0 = 0"
    and "\<forall>(b, msg, t) \<in> set ms. rootID msg < me \<and> globalTime msg - t = d \<and> uint (t - T0) \<le> 2 ^ 28"
  shows "\<exists>s'. hear_all fl me ms s = Some s' \<and> sync_inv d T0 me s' \<and> (ms \<noteq> [] \<longrightarrow> full (ts_table s') \<noteq> [])"
  using assms
proof (induction ms arbitrary: s)
  case (Cons m ms)
  obtain b msg t where m: "m = (b, msg, t)" by (cases m)
  obtain s1 where s1: "hear fl me m s = Some s1" "sync_inv d T0 me s1" "full (ts_table s1) \<noteq> []"
    using hear_inv [OF Cons.prems(1), of msg t fl b] Cons.prems(2,3) m by auto
  obtain s2 where s2: "hear_all fl me ms s1 = Some s2" "sync_inv d T0 me s2" "ms \<noteq> [] \<longrightarrow> full (ts_table s2) \<noteq> []"
    using Cons.IH [OF s1(2) Cons.prems(2)] Cons.prems(3) by auto
  have "full (ts_table s2) \<noteq> []"
  proof (cases "ms = []")
    case True
    then show ?thesis using s2(1) s1(3) by simp
  qed (use s2(3) in simp)
  then show ?case using s1(1) s2(1,2) by simp
qed simp

section \<open>From boot\<close>

definition ftsp_boot :: "u16 \<Rightarrow> u16 \<Rightarrow> ftsp" where
  "ftsp_boot me rand16 = TimeSync_booted me rand16 (snd (TimeSync_init ftsp_static))"

lemma boot_inv: "me \<noteq> 0xFFFF \<Longrightarrow> sync_inv d T0 me (ftsp_boot me rand16)"
  by (simp add: sync_inv_def ftsp_boot_def TimeSync_booted_def StdControl_start_def TimeSyncMode_setMode_def TimeSync_init_def
      clearTable_def ftsp_static_def ts_emit_def has_flag_def full_def MAX_ENTRIES_def STATE_PROCESSING_def STATE_INIT_def
      TS_USER_MODE_def TS_TIMER_MODE_def Let_def)

lemma follows_offset:
  assumes "me \<noteq> 0xFFFF" and "ms \<noteq> []" and "fl 0 = 0"
    and "\<forall>(b, msg, t) \<in> set ms. rootID msg < me \<and> globalTime msg - t = d \<and> uint (t - T0) \<le> 2 ^ 28"
  shows "\<exists>s. hear_all fl me ms (ftsp_boot me rand16) = Some s \<and> getNumEntries s \<noteq> 0 \<and> getRootID s \<noteq> me \<and>
    (\<forall>t. getGlobalTime fl me t s = Some (is_synced me s, t + d) \<and> global2Local fl me (t + d) s = Some (is_synced me s, t))"
proof -
  obtain s where s: "hear_all fl me ms (ftsp_boot me rand16) = Some s" "sync_inv d T0 me s" "full (ts_table s) \<noteq> []"
    using hear_all_inv [where fl = fl, OF boot_inv [OF assms(1)] assms(3,4)] assms(2) by blast
  then have sk: "skew s = 0" "offsetAverage s = d" "numEntries s \<noteq> 0" "rootID (outgoingMsg s) \<noteq> me" by (simp_all add: sync_inv_def)
  show ?thesis
    using s(1) sk no_skew [where s = s and fl = fl and me = me, OF sk(1) assms(3)]
    by (intro exI [of _ s]) (simp add: getNumEntries_def getRootID_def getGlobalTime_def)
qed

section \<open>The module's steps\<close>

text \<open>What can happen to the module after boot; the answers of the environment are arguments.\<close>

datatype ftsp_call =
    HReceive nat TimeSyncMsg bool u32 | HProcess | HTimer | HSend | HSendTask u32 error_t | HSendDone bool error_t
  | HSetMode u16 u8

fun ftsp_do :: "(real \<Rightarrow> real) \<Rightarrow> u16 \<Rightarrow> ftsp_call \<Rightarrow> ftsp \<Rightarrow> ftsp option" where
  "ftsp_do fl me (HReceive b msg valid t) s = Some (snd (Receive_receive b msg valid t s))"
| "ftsp_do fl me HProcess s = processMsg fl me s"
| "ftsp_do fl me HTimer s = Some (ts_Timer_fired me s)"
| "ftsp_do fl me HSend s = Some (snd (TimeSyncMode_send me s))"
| "ftsp_do fl me (HSendTask t r) s = sendMsg fl me t r s"
| "ftsp_do fl me (HSendDone own e) s = Some (Send_sendDone me own e s)"
| "ftsp_do fl me (HSetMode r m) s = Some (snd (TimeSyncMode_setMode r m s))"

fun ftsp_dos :: "(real \<Rightarrow> real) \<Rightarrow> u16 \<Rightarrow> ftsp_call list \<Rightarrow> ftsp \<Rightarrow> ftsp option" where
  "ftsp_dos fl me [] s = Some s"
| "ftsp_dos fl me (c # cs) s = Option.bind (ftsp_do fl me c s) (ftsp_dos fl me cs)"

definition ftsp_wf :: "ftsp \<Rightarrow> bool" where
  "ftsp_wf s \<longleftrightarrow> length (ts_table s) = MAX_ENTRIES \<and> unat (numEntries s) \<le> MAX_ENTRIES \<and> unat (tableEntries s) \<le> MAX_ENTRIES \<and>
     (full (ts_table s) \<noteq> [] \<longrightarrow> unat (tableEntries s) = length (full (ts_table s)))"

lemma wf_flag [simp]: "ftsp_wf (clear_flag b s) = ftsp_wf s" "ftsp_wf (set_flag b s) = ftsp_wf s" "ftsp_wf (ts_emit e s) = ftsp_wf s"
  "ftsp_wf (s\<lparr>outgoingMsg := m\<rparr>) = ftsp_wf s" "ftsp_wf (s\<lparr>heartBeats := h\<rparr>) = ftsp_wf s" "ftsp_wf (s\<lparr>ts_mode := k\<rparr>) = ftsp_wf s"
  "ftsp_wf (s\<lparr>numErrors := h\<rparr>) = ftsp_wf s" "ftsp_wf (s\<lparr>payloads := p\<rparr>) = ftsp_wf s" "ftsp_wf (s\<lparr>processedMsg := q\<rparr>) = ftsp_wf s"
  "ftsp_wf (s\<lparr>localAverage := la, offsetAverage := oa\<rparr>) = ftsp_wf s"
  by (simp_all add: ftsp_wf_def clear_flag_def set_flag_def ts_emit_def)

lemma wf_clearTable: "ftsp_wf s \<Longrightarrow> ftsp_wf (clearTable s)"
  by (simp add: ftsp_wf_def clearTable_def full_def)

lemma wf_insert:
  assumes "ftsp_wf s"
  shows "ftsp_wf (insert_entry msg s)"
proof -
  have len: "length (ts_table s) = 8" using assms by (simp add: ftsp_wf_def MAX_ENTRIES_def)
  note f = insert_full [OF len, of msg]
  have "length (full (ts_table (insert_entry msg s))) \<le> 8" using length_full [of "ts_table (insert_entry msg s)"] f(1) by simp
  then have "unat (tableEntries (insert_entry msg s)) = length (full (ts_table (insert_entry msg s)))"
    unfolding f(3) by (simp add: unat_of_nat)
  with f(1) \<open>length (full (ts_table (insert_entry msg s))) \<le> 8\<close> assms show ?thesis by (simp add: ftsp_wf_def MAX_ENTRIES_def)
qed

lemma wf_addNewEntry: "addNewEntry fl me msg s = Some s' \<Longrightarrow> ftsp_wf s \<Longrightarrow> ftsp_wf s'"
  by (auto simp: addNewEntry_def Let_def bind_eq_Some_conv wf_insert wf_clearTable split: if_splits prod.splits)

lemma calculate_cases:
  assumes "calculateConversion fl s = Some s'"
  shows "ts_table s' = ts_table s" "tableEntries s' = tableEntries s" "numEntries s' = numEntries s \<or> numEntries s' = tableEntries s"
    "outgoingMsg s' = outgoingMsg s" "heartBeats s' = heartBeats s" "ts_mode s' = ts_mode s" "ts_state s' = ts_state s"
  using assms
  by (auto simp: calculateConversion_def Let_def bind_eq_Some_conv split: list.splits if_splits prod.splits)

lemma wf_calculate: "calculateConversion fl s = Some s' \<Longrightarrow> ftsp_wf s \<Longrightarrow> ftsp_wf s'"
  using calculate_cases [of fl s s'] by (auto simp: ftsp_wf_def)

lemma wf_process:
  assumes "processMsg fl me s = Some s'" and "ftsp_wf s"
  shows "ftsp_wf s'"
proof (cases "accept_root me (payloads s (processedMsg s)) s")
  case None
  then show ?thesis using assms by (auto simp: processMsg_def Let_def)
next
  case (Some a)
  then obtain out where a: "a = s\<lparr>outgoingMsg := out\<rparr>" using accept_root_Some by blast
  obtain s1 s2 where "addNewEntry fl me (payloads s (processedMsg s))
      (if rootID (outgoingMsg a) < me then a\<lparr>heartBeats := 0\<rparr> else a) = Some s1"
    "calculateConversion fl s1 = Some s2" "s' = clear_flag STATE_PROCESSING (ts_emit MsgReceived s2)"
    using assms(1) Some by (auto simp: processMsg_def Let_def bind_eq_Some_conv)
  then show ?thesis using wf_calculate wf_addNewEntry a assms(2) by (simp split: if_splits)
qed

lemma wf_timeSyncMsgSend: "ftsp_wf s \<Longrightarrow> ftsp_wf (timeSyncMsgSend me s)"
  by (simp add: timeSyncMsgSend_def Let_def)

lemma wf_sendMsg: "sendMsg fl me t r s = Some s' \<Longrightarrow> ftsp_wf s \<Longrightarrow> ftsp_wf s'"
  by (auto simp: sendMsg_def Let_def bind_eq_Some_conv split: prod.splits if_splits)

lemma wf_do:
  assumes "ftsp_do fl me c s = Some s'" and "ftsp_wf s"
  shows "ftsp_wf s'"
proof (cases c)
  case (HReceive b msg valid t)
  then show ?thesis using assms by (auto simp: Receive_receive_def Let_def)
next
  case (HSendDone own e)
  then show ?thesis using assms by (auto simp: Send_sendDone_def Let_def)
next
  case (HSetMode r m)
  then show ?thesis using assms by (auto simp: TimeSyncMode_setMode_def Let_def)
qed (use assms wf_process wf_sendMsg wf_timeSyncMsgSend in
    \<open>auto simp: ts_Timer_fired_def TimeSyncMode_send_def split: if_splits\<close>)

lemma wf_dos: "ftsp_dos fl me cs s = Some s' \<Longrightarrow> ftsp_wf s \<Longrightarrow> ftsp_wf s'"
  by (induction cs arbitrary: s) (auto simp: bind_eq_Some_conv dest: wf_do)

lemma wf_boot: "ftsp_wf (ftsp_boot me rand16)"
  by (simp add: ftsp_wf_def ftsp_boot_def TimeSync_booted_def StdControl_start_def TimeSyncMode_setMode_def TimeSync_init_def
      clearTable_def ftsp_static_def ts_emit_def full_def MAX_ENTRIES_def TS_USER_MODE_def TS_TIMER_MODE_def Let_def)

section \<open>The root\<close>

lemma local_frame [simp]:
  "outgoingMsg (clearTable s) = outgoingMsg s" "ts_mode (clearTable s) = ts_mode s" "heartBeats (clearTable s) = heartBeats s"
  "outgoingMsg (set_flag b s) = outgoingMsg s" "ts_mode (set_flag b s) = ts_mode s" "heartBeats (set_flag b s) = heartBeats s"
  "ts_mode (clear_flag b s) = ts_mode s" "ts_mode (ts_emit e s) = ts_mode s" "ts_mode (insert_entry msg s) = ts_mode s"
  "heartBeats (insert_entry msg s) = heartBeats s"
  by (simp_all add: clearTable_def set_flag_def clear_flag_def ts_emit_def insert_entry_def Let_def split: prod.split)

lemma add_outgoing: "addNewEntry fl me msg s = Some s' \<Longrightarrow> outgoingMsg s' = outgoingMsg s"
  by (auto simp: addNewEntry_def Let_def bind_eq_Some_conv split: if_splits prod.splits)

lemma process_root:
  assumes "processMsg fl me s = Some s'"
  shows "rootID (outgoingMsg s') = rootID (outgoingMsg s) \<or>
    (rootID (outgoingMsg s') = rootID (payloads s (processedMsg s)) \<and> rootID (outgoingMsg s') < rootID (outgoingMsg s) \<and>
     \<not> (rootID (outgoingMsg s) = me \<and> heartBeats s < IGNORE_ROOT_MSG))"
proof (cases "accept_root me (payloads s (processedMsg s)) s")
  case None
  then show ?thesis using assms by (auto simp: processMsg_def Let_def)
next
  case (Some a)
  obtain s1 s2 where s: "addNewEntry fl me (payloads s (processedMsg s))
      (if rootID (outgoingMsg a) < me then a\<lparr>heartBeats := 0\<rparr> else a) = Some s1"
    "calculateConversion fl s1 = Some s2" "s' = clear_flag STATE_PROCESSING (ts_emit MsgReceived s2)"
    using assms Some by (auto simp: processMsg_def Let_def bind_eq_Some_conv)
  then have "outgoingMsg s' = outgoingMsg a" using calculate_cases(4) [OF s(2)] add_outgoing [OF s(1)] by simp
  then show ?thesis using Some by (auto simp: accept_root_def Let_def split: if_splits)
qed

lemma timer_root:
  "rootID (outgoingMsg (timeSyncMsgSend me s)) = rootID (outgoingMsg s) \<or>
   (rootID (outgoingMsg s) = 0xFFFF \<and> rootID (outgoingMsg (timeSyncMsgSend me s)) = me \<and> ROOT_TIMEOUT \<le> heartBeats s + 1)"
  by (simp add: timeSyncMsgSend_def Let_def)

lemma send_root:
  "sendMsg fl me t r s = Some s' \<Longrightarrow> rootID (outgoingMsg s') = rootID (outgoingMsg s) \<or>
   (rootID (outgoingMsg s') = me \<and> ROOT_TIMEOUT \<le> heartBeats s)"
  by (auto simp: sendMsg_def Let_def bind_eq_Some_conv split: prod.splits if_splits)

lemma root_changes:
  assumes "ftsp_do fl me c s = Some s'" and "getRootID s' \<noteq> getRootID s"
  shows "(c = HProcess \<and> getRootID s' = rootID (payloads s (processedMsg s)) \<and> getRootID s' < getRootID s \<and>
      \<not> (getRootID s = me \<and> getHeartBeats s < IGNORE_ROOT_MSG)) \<or>
    (getRootID s' = me \<and> ((getRootID s = 0xFFFF \<and> ROOT_TIMEOUT \<le> getHeartBeats s + 1) \<or> ROOT_TIMEOUT \<le> getHeartBeats s))"
proof (cases c)
  case HProcess
  then show ?thesis using assms process_root [of fl me s s'] by (auto simp: getRootID_def getHeartBeats_def)
next
  case HTimer
  then show ?thesis using assms timer_root [of me s] by (auto simp: getRootID_def getHeartBeats_def ts_Timer_fired_def split: if_splits)
next
  case HSend
  then show ?thesis using assms timer_root [of me s] by (auto simp: getRootID_def getHeartBeats_def TimeSyncMode_send_def split: if_splits)
next
  case (HSendTask t r)
  then show ?thesis using assms send_root [of fl me t r s s'] by (auto simp: getRootID_def getHeartBeats_def)
qed (use assms in \<open>auto simp: getRootID_def Receive_receive_def Send_sendDone_def TimeSyncMode_setMode_def Let_def split: if_splits\<close>)

section \<open>Silence\<close>

text \<open>A round of \<open>TimeSyncMode.send\<close> with nothing received: the task it posts, and the end of the send.\<close>

definition silent_round :: "(real \<Rightarrow> real) \<Rightarrow> u16 \<Rightarrow> u32 \<Rightarrow> ftsp \<Rightarrow> ftsp option" where
  "silent_round fl me t s =
     (let s = snd (TimeSyncMode_send me s)
      in if has_flag STATE_SENDING s
         then map_option (\<lambda>s. if has_flag STATE_SENDING s then Send_sendDone me True SUCCESS s else s) (sendMsg fl me t SUCCESS s)
         else Some s)"

fun silent_rounds :: "(real \<Rightarrow> real) \<Rightarrow> u16 \<Rightarrow> u32 list \<Rightarrow> ftsp \<Rightarrow> ftsp option" where
  "silent_rounds fl me [] s = Some s"
| "silent_rounds fl me (t # ts) s = Option.bind (silent_round fl me t s) (silent_rounds fl me ts)"

definition silent :: "(real \<Rightarrow> real) \<Rightarrow> u16 \<Rightarrow> ftsp \<Rightarrow> bool" where
  "silent fl me s \<longleftrightarrow> ts_mode s = TS_USER_MODE \<and> \<not> has_flag STATE_SENDING s \<and> (\<forall>t. local2Global fl me t s \<noteq> None)"

definition rounds_left :: "u16 \<Rightarrow> ftsp \<Rightarrow> nat" where
  "rounds_left me s =
     (if rootID (outgoingMsg s) = me then 0
      else if rootID (outgoingMsg s) = 0xFFFF then (if heartBeats s = 0xFF then 6 else max 1 (5 - unat (heartBeats s)))
      else 6 - min (unat (heartBeats s)) 5)"

lemma local2Global_defined:
  assumes "skew s' = skew s" "localAverage s' = localAverage s" "offsetAverage s' = offsetAverage s"
  shows "local2Global fl me t s' = None \<longleftrightarrow> local2Global fl me t s = None"
  using assms by (auto simp: local2Global_def skewed_def bind_eq_None_conv Let_def)

lemma has_set_flag: "has_flag STATE_SENDING (set_flag STATE_SENDING s)"
proof -
  have "and (or (ts_state s) 2) 2 = (2 :: u8)" by (rule bit_word_eqI) (auto simp: bit_simps)
  then show ?thesis by (simp add: has_flag_def set_flag_def STATE_SENDING_def)
qed

lemma heart_beat:
  assumes "\<not> ROOT_TIMEOUT \<le> h"
  shows "unat (h + 1) = unat h + 1" "unat h < 5"
proof -
  show "unat h < 5" using assms by (simp add: ROOT_TIMEOUT_def word_le_nat_alt)
  then show "unat (h + 1) = unat h + 1" by (simp add: unat_word_ariths)
qed

lemma send_done_simps [simp]:
  "rootID (outgoingMsg (Send_sendDone me True SUCCESS s)) = rootID (outgoingMsg s)"
  "heartBeats (Send_sendDone me True SUCCESS s) = heartBeats s + 1" "ts_mode (Send_sendDone me True SUCCESS s) = ts_mode s"
  "\<not> has_flag STATE_SENDING (Send_sendDone me True SUCCESS s)" "skew (Send_sendDone me True SUCCESS s) = skew s"
  "localAverage (Send_sendDone me True SUCCESS s) = localAverage s" "offsetAverage (Send_sendDone me True SUCCESS s) = offsetAverage s"
proof -
  have [simp]: "has_flag b (ts_emit e s) = has_flag b s" for b e s by (simp add: has_flag_def ts_emit_def)
  show "rootID (outgoingMsg (Send_sendDone me True SUCCESS s)) = rootID (outgoingMsg s)"
    "heartBeats (Send_sendDone me True SUCCESS s) = heartBeats s + 1" "ts_mode (Send_sendDone me True SUCCESS s) = ts_mode s"
    "\<not> has_flag STATE_SENDING (Send_sendDone me True SUCCESS s)" "skew (Send_sendDone me True SUCCESS s) = skew s"
    "localAverage (Send_sendDone me True SUCCESS s) = localAverage s" "offsetAverage (Send_sendDone me True SUCCESS s) = offsetAverage s"
    by (simp_all add: Send_sendDone_def Let_def)
qed

definition send_end :: "u16 \<Rightarrow> ftsp \<Rightarrow> ftsp" where
  "send_end me s = (if has_flag STATE_SENDING s then Send_sendDone me True SUCCESS s else s)"

lemma silent_round_sends:
  assumes "silent fl me s" and "TimeSyncMode_send me s = (SUCCESS, s1)" and "has_flag STATE_SENDING s1"
    and "skew s1 = skew s" "localAverage s1 = localAverage s" "offsetAverage s1 = offsetAverage s"
  shows "\<exists>s2. silent_round fl me t s = Some (send_end me s2) \<and> sendMsg fl me t SUCCESS s1 = Some s2"
proof -
  have "local2Global fl me t s1 \<noteq> None" using assms(1) local2Global_defined [OF assms(4-6), of fl me t] unfolding silent_def by blast
  then obtain e g where "local2Global fl me t s1 = Some (e, g)" by (cases "local2Global fl me t s1") auto
  then obtain s2 where "sendMsg fl me t SUCCESS s1 = Some s2" by (auto simp: sendMsg_def Let_def)
  then show ?thesis using assms(2,3) by (simp add: silent_round_def send_end_def)
qed

lemma send_end_root: "rootID (outgoingMsg (send_end me s)) = rootID (outgoingMsg s)"
  by (simp add: send_end_def)

lemma sendMsg_not_root:
  assumes "sendMsg fl me t SUCCESS s = Some s'" and "rootID (outgoingMsg s) \<noteq> me" and "has_flag STATE_SENDING s"
  shows "if ROOT_TIMEOUT \<le> heartBeats s then rootID (outgoingMsg s') = me
    else rootID (outgoingMsg s') = rootID (outgoingMsg s) \<and> heartBeats (send_end me s') = heartBeats s + 1 \<and>
      ts_mode s' = ts_mode s \<and> skew s' = skew s \<and> localAverage s' = localAverage s \<and> offsetAverage s' = offsetAverage s"
proof -
  have [simp]: "has_flag b (ts_emit e x) = has_flag b x" "has_flag b (x\<lparr>outgoingMsg := m\<rparr>) = has_flag b x" for b e x m
    by (simp_all add: has_flag_def ts_emit_def)
  show ?thesis
    using assms by (auto simp: sendMsg_def send_end_def Let_def bind_eq_Some_conv split: prod.splits if_splits)
qed

lemma silent_step:
  assumes "silent fl me s" and "rounds_left me s \<noteq> 0"
  shows "\<exists>s'. silent_round fl me t s = Some s' \<and> rounds_left me s' < rounds_left me s \<and>
    (rounds_left me s' \<noteq> 0 \<longrightarrow> silent fl me s')"
proof -
  have mode: "ts_mode s = TS_USER_MODE" and ns: "\<not> has_flag STATE_SENDING s" using assms(1) by (simp_all add: silent_def)
  have nr: "rootID (outgoingMsg s) \<noteq> me" using assms(2) by (auto simp: rounds_left_def)
  have pos: "0 < rounds_left me s" using assms(2) by simp
  show ?thesis
  proof (cases "rootID (outgoingMsg s) = 0xFFFF \<and> \<not> ROOT_TIMEOUT \<le> heartBeats s + 1")
    case True
    then have "silent_round fl me t s = Some (s\<lparr>heartBeats := heartBeats s + 1\<rparr>)"
      using mode ns by (simp add: silent_round_def TimeSyncMode_send_def timeSyncMsgSend_def Let_def has_flag_def)
    moreover have "rounds_left me (s\<lparr>heartBeats := heartBeats s + 1\<rparr>) < rounds_left me s"
    proof (cases "heartBeats s = 0xFF")
      case False
      have "unat (heartBeats s) < 2 ^ LENGTH(8)" by (rule unsigned_less)
      then have "unat (heartBeats s + 1) = unat (heartBeats s) + 1" using False by (simp add: unat_word_ariths word_unat_eq_iff)
      moreover have "unat (heartBeats s + 1) < 5" using True by (simp add: ROOT_TIMEOUT_def word_le_nat_alt)
      ultimately show ?thesis using True nr False by (auto simp: rounds_left_def)
    qed (use True nr in \<open>simp add: rounds_left_def\<close>)
    moreover have "silent fl me (s\<lparr>heartBeats := heartBeats s + 1\<rparr>)"
      using assms(1) local2Global_defined [of "s\<lparr>heartBeats := heartBeats s + 1\<rparr>" s fl me] by (simp add: silent_def has_flag_def)
    ultimately show ?thesis by blast
  next
    case False
    define s0 where "s0 = (if rootID (outgoingMsg s) = 0xFFFF
      then s\<lparr>heartBeats := heartBeats s + 1, outgoingMsg := (outgoingMsg s)\<lparr>seqNum := 0, rootID := me\<rparr>\<rparr> else s)"
    have me: "me = 0xFFFF \<Longrightarrow> rootID (outgoingMsg s) \<noteq> 0xFFFF" using nr by auto
    define s1 where "s1 = ts_emit PostSend (set_flag STATE_SENDING s0)"
    have s1: "TimeSyncMode_send me s = (SUCCESS, s1)" "has_flag STATE_SENDING s1" "skew s1 = skew s" "localAverage s1 = localAverage s"
      "offsetAverage s1 = offsetAverage s"
      using False me ns mode has_set_flag [of s0]
      by (auto simp: TimeSyncMode_send_def timeSyncMsgSend_def s1_def s0_def Let_def has_flag_def ts_emit_def set_flag_def)
    obtain s2 where s2: "silent_round fl me t s = Some (send_end me s2)" "sendMsg fl me t SUCCESS s1 = Some s2"
      using silent_round_sends [OF assms(1) s1] by blast
    show ?thesis
    proof (cases "rootID (outgoingMsg s2) = me")
      case True
      then have "rounds_left me (send_end me s2) = 0" by (simp add: rounds_left_def send_end_root)
      then show ?thesis using s2(1) pos by simp
    next
      case other: False
      have r1: "rootID (outgoingMsg s1) \<noteq> me"
      proof
        assume "rootID (outgoingMsg s1) = me"
        then have "rootID (outgoingMsg s2) = me" using send_root [OF s2(2)] by auto
        with other show False by simp
      qed
      then have "s0 = s" "rootID (outgoingMsg s) \<noteq> 0xFFFF" by (auto simp: s0_def s1_def split: if_splits)
      then have h1: "heartBeats s1 = heartBeats s" "rootID (outgoingMsg s1) = rootID (outgoingMsg s)" "ts_mode s1 = TS_USER_MODE"
        using mode by (simp_all add: s1_def)
      note n = sendMsg_not_root [OF s2(2) r1 s1(2)]
      have nt: "\<not> ROOT_TIMEOUT \<le> heartBeats s" using n other h1(1) by (auto split: if_splits)
      define s3 where "s3 = send_end me s2"
      have s3: "rootID (outgoingMsg s3) = rootID (outgoingMsg s)" "heartBeats s3 = heartBeats s + 1" "ts_mode s3 = TS_USER_MODE"
        "\<not> has_flag STATE_SENDING s3" "skew s3 = skew s" "localAverage s3 = localAverage s" "offsetAverage s3 = offsetAverage s"
        using n nt h1 s1(3-5) by (simp_all add: s3_def send_end_def)
      have "rounds_left me s3 < rounds_left me s"
        using s3(1,2) heart_beat [OF nt] nr \<open>rootID (outgoingMsg s) \<noteq> 0xFFFF\<close> by (simp add: rounds_left_def)
      moreover have "silent fl me s3" using s3(3,4) assms(1) local2Global_defined [OF s3(5-7), of fl me] by (simp add: silent_def)
      ultimately show ?thesis using s2(1) by (simp add: s3_def)
    qed
  qed
qed

lemma silent_takes_over:
  assumes "silent fl me s" and "rounds_left me s \<le> length ts"
  shows "\<exists>k s'. k \<le> rounds_left me s \<and> silent_rounds fl me (take k ts) s = Some s' \<and> rootID (outgoingMsg s') = me"
  using assms
proof (induction ts arbitrary: s)
  case Nil
  then show ?case by (auto simp: rounds_left_def split: if_splits)
next
  case (Cons t ts)
  show ?case
  proof (cases "rounds_left me s = 0")
    case True
    then show ?thesis by (intro exI [of _ 0] exI [of _ s]) (simp add: rounds_left_def split: if_splits)
  next
    case False
    obtain s1 where s1: "silent_round fl me t s = Some s1" "rounds_left me s1 < rounds_left me s"
      "rounds_left me s1 \<noteq> 0 \<longrightarrow> silent fl me s1"
      using silent_step [OF Cons.prems(1) False] by blast
    have "\<exists>k s'. k \<le> rounds_left me s1 \<and> silent_rounds fl me (take k ts) s1 = Some s' \<and> rootID (outgoingMsg s') = me"
    proof (cases "rounds_left me s1 = 0")
      case True
      then show ?thesis by (intro exI [of _ 0] exI [of _ s1]) (simp add: rounds_left_def split: if_splits)
    qed (use Cons.IH s1(2,3) Cons.prems(2) in simp)
    then obtain k s' where "k \<le> rounds_left me s1" "silent_rounds fl me (take k ts) s1 = Some s'" "rootID (outgoingMsg s') = me" by blast
    then show ?thesis using s1(1,2) by (intro exI [of _ "Suc k"] exI [of _ s']) simp
  qed
qed

lemma rounds_left_le: "rounds_left me s \<le> 6"
  by (auto simp: rounds_left_def max_def le_diff_conv)

text \<open>A node that elects itself in \<open>timeSyncMsgSend\<close> leaves its counter at \<open>ROOT_TIMEOUT\<close> or more, where
  the task \<open>sendMsg\<close>, which elects it after a silence, sets it to 0: so it accepts the very next message
  of a smaller root, which the comment of \<open>processMsg\<close> says a new root ignores.\<close>

lemma elected_root_follows_at_once:
  assumes "rootID (outgoingMsg s) = 0xFFFF" and "ROOT_TIMEOUT \<le> heartBeats s + 1" and "rootID msg < me"
  shows "rootID (outgoingMsg (timeSyncMsgSend me s)) = me \<and>
    (\<exists>s'. accept_root me msg (timeSyncMsgSend me s) = Some s' \<and> rootID (outgoingMsg s') = rootID msg)"
proof -
  have hb: "\<not> heartBeats s + 1 < IGNORE_ROOT_MSG"
    using assms(2) by (simp add: ROOT_TIMEOUT_def IGNORE_ROOT_MSG_def word_less_nat_alt word_le_nat_alt)
  show ?thesis using assms hb by (auto simp: timeSyncMsgSend_def accept_root_def Let_def has_flag_def ts_emit_def set_flag_def)
qed

section \<open>What time synchronisation promises\<close>

text \<open>C15: A node that hears, from boot on, one or more messages of roots with smaller addresses whose
  time is its own plus a constant, within \<open>2 ^ 28\<close> ticks of some time, has a conversion: the global
  time it computes is its local time plus that constant for every local time, \<open>global2Local\<close>
  inverts it exactly, and it does not take itself for the root. No arithmetic of the regression
  overflows on the way.\<close>

theorem ftsp_follows_constant_offset:
  assumes "me \<noteq> 0xFFFF" and "ms \<noteq> []" and "fl 0 = 0"
    and "\<forall>(b, msg, t) \<in> set ms. rootID msg < me \<and> globalTime msg - t = d \<and> uint (t - T0) \<le> 2 ^ 28"
  shows "\<exists>s. hear_all fl me ms (ftsp_boot me rand16) = Some s \<and> getNumEntries s \<noteq> 0 \<and> getRootID s \<noteq> me \<and>
    (\<forall>t. getGlobalTime fl me t s = Some (is_synced me s, t + d) \<and> global2Local fl me (t + d) s = Some (is_synced me s, t))"
  by (rule follows_offset [where fl = fl, OF assms])

theorem ftsp_follows_constant_offset_witness:
  "\<exists>s. hear_all id 5
      [(1, \<lparr>rootID = 1, nodeID = 1, seqNum = 1, globalTime = 100, msg_localTime = 0\<rparr>, 0xFFFFFFF0),
       (2, \<lparr>rootID = 1, nodeID = 3, seqNum = 2, globalTime = 1116, msg_localTime = 0\<rparr>, 1000)] (ftsp_boot 5 7) = Some s \<and>
    (\<forall>t. getGlobalTime id 5 t s = Some (is_synced 5 s, t + 116))"
  using ftsp_follows_constant_offset [where fl = id and me = 5 and d = 116 and ?T0.0 = "0xFFFFFFF0" and ?rand16.0 = 7 and
      ms = "[(1, \<lparr>rootID = 1, nodeID = 1, seqNum = 1, globalTime = 100, msg_localTime = 0\<rparr>, 0xFFFFFFF0),
        (2, \<lparr>rootID = 1, nodeID = 3, seqNum = 2, globalTime = 1116, msg_localTime = 0\<rparr>, 1000)]"]
  by auto

text \<open>C16: The root a node follows changes in two ways only: to the root of the message being processed,
  which is smaller, and never while the node is its own root and its \<open>heartBeats\<close> counter is below
  \<open>IGNORE_ROOT_MSG\<close>; or to the node itself, when the counter reaches \<open>ROOT_TIMEOUT\<close>. It is the counter
  that is tested, not the messages sent as root: a node that elects itself from the undefined root
  0xFFFF keeps its counter at \<open>ROOT_TIMEOUT\<close> and follows a smaller root at once
  (\<open>elected_root_follows_at_once\<close>).\<close>

theorem ftsp_root_changes:
  assumes "ftsp_do fl me c s = Some s'" and "getRootID s' \<noteq> getRootID s"
  shows "(c = HProcess \<and> getRootID s' = rootID (payloads s (processedMsg s)) \<and> getRootID s' < getRootID s \<and>
      \<not> (getRootID s = me \<and> getHeartBeats s < IGNORE_ROOT_MSG)) \<or>
    (getRootID s' = me \<and> ((getRootID s = 0xFFFF \<and> ROOT_TIMEOUT \<le> getHeartBeats s + 1) \<or> ROOT_TIMEOUT \<le> getHeartBeats s))"
  by (rule root_changes [OF assms])

theorem ftsp_root_changes_witness:
  "getRootID (snd (TimeSyncMode_send 5 ((ftsp_boot 5 7)\<lparr>heartBeats := 4\<rparr>))) = 5 \<and> ROOT_TIMEOUT \<le> 4 + 1"
proof -
  define s where "s = (ftsp_boot 5 7)\<lparr>heartBeats := 4\<rparr>"
  have ne: "getRootID (snd (TimeSyncMode_send 5 s)) \<noteq> getRootID s" unfolding s_def by code_simp
  have "c = HProcess \<or> getRootID (snd (TimeSyncMode_send 5 s)) = 5" if "c = HSend" for c
    using ftsp_root_changes [where fl = id and me = 5 and c = HSend and s = s, OF _ ne] that by auto
  then show ?thesis unfolding s_def by (simp add: ROOT_TIMEOUT_def)
qed

text \<open>C17: A node in user mode that hears nothing and whose sends succeed makes itself the root after at
  most six rounds of \<open>TimeSyncMode.send\<close>.\<close>

theorem ftsp_takes_over:
  assumes "ts_mode s = TS_USER_MODE" and "\<not> has_flag STATE_SENDING s" and "\<forall>t. local2Global fl me t s \<noteq> None" and "6 \<le> length ts"
  shows "\<exists>k s'. k \<le> 6 \<and> silent_rounds fl me (take k ts) s = Some s' \<and> getRootID s' = me"
proof -
  have "silent fl me s" using assms(1-3) by (simp add: silent_def)
  then obtain k s' where "k \<le> rounds_left me s" "silent_rounds fl me (take k ts) s = Some s'" "rootID (outgoingMsg s') = me"
    using silent_takes_over [of fl me s ts] rounds_left_le [of me s] assms(4) by auto
  then show ?thesis using rounds_left_le [of me s] by (intro exI [of _ k] exI [of _ s']) (simp add: getRootID_def)
qed

theorem ftsp_takes_over_witness:
  "\<exists>k s'. k \<le> 6 \<and> silent_rounds id 5 (take k [10, 20, 30, 40, 50, 60]) (ftsp_boot 5 7) = Some s' \<and> getRootID s' = 5"
proof (rule ftsp_takes_over)
  show "ts_mode (ftsp_boot 5 7) = TS_USER_MODE" "\<not> has_flag STATE_SENDING (ftsp_boot 5 7)" by code_simp+
  have "skew (ftsp_boot 5 7) = 0" using boot_inv [of 5 0 0 7] by (simp add: sync_inv_def)
  from no_skew(1) [where fl = id, OF this] show "\<forall>t. local2Global id 5 t (ftsp_boot 5 7) \<noteq> None" by simp
qed simp

text \<open>C18: In every state the module reaches, the table has its eight entries, the counters are at most
  eight, and \<open>tableEntries\<close> counts the full entries whenever there is one; so after a message has been
  added the regression, which divides by \<open>tableEntries\<close>, never divides by zero.\<close>

theorem ftsp_well_formed:
  assumes "ftsp_dos fl me cs (ftsp_boot me rand16) = Some s"
  shows "ftsp_wf s \<and>
    (\<forall>msg s'. addNewEntry fl me msg s = Some s' \<longrightarrow> from_first_full (ts_table s') \<noteq> [] \<longrightarrow> tableEntries s' \<noteq> 0)"
proof -
  have wf: "ftsp_wf s" using wf_dos [OF assms wf_boot] .
  have "tableEntries s' \<noteq> 0" if "addNewEntry fl me msg s = Some s'" "from_first_full (ts_table s') \<noteq> []" for msg s'
    using wf_addNewEntry [OF that(1) wf] from_first_full_empty [of "ts_table s'"] that(2) by (auto simp: ftsp_wf_def)
  with wf show ?thesis by blast
qed

theorem ftsp_well_formed_witness:
  "\<exists>s. ftsp_dos id 5 [HReceive 1 \<lparr>rootID = 1, nodeID = 1, seqNum = 1, globalTime = 1100, msg_localTime = 0\<rparr> True 1000, HProcess]
      (ftsp_boot 5 7) = Some s \<and> ftsp_wf s"
proof -
  define msg where "msg = \<lparr>rootID = 1, nodeID = 1, seqNum = 1, globalTime = 1100, msg_localTime = (0 :: u32)\<rparr>"
  have "\<exists>s. hear id 5 (1, msg, 1000) (ftsp_boot 5 7) = Some s \<and> sync_inv 100 1000 5 s \<and> full (ts_table s) \<noteq> []"
    by (rule hear_inv) (simp_all add: boot_inv msg_def)
  then obtain s where "ftsp_dos id 5 [HReceive 1 msg True 1000, HProcess] (ftsp_boot 5 7) = Some s" by (auto simp: hear_def)
  with ftsp_well_formed [OF this] show ?thesis unfolding msg_def by blast
qed

end
