(* ===== verification/TMessage.thy ===== *)
theory TMessage
  imports Prelude
begin

text \<open>
  Bit fields of message buffers, \<open>tools/tinyos/c/sf/message.c\<close>, which the code generated for message
  formats reads and writes its fields with: unsigned and signed integers of a number of bits at a bit
  offset, in little and big endian. The host has a 64-bit \<open>size_t\<close>. None is undefined behaviour: an
  access outside the array or a shift by the width of its type or more.
\<close>

section \<open>Buffers\<close>

record tmsg =
  tm_data :: bytes
  tm_len :: u64

text \<open>The user's failure function, if one is set, and the calls of it.\<close>

record tmsg_failures =
  failfn :: "nat option"
  fail_calls :: "nat list"

definition new_tmsg :: "bool \<Rightarrow> bytes \<Rightarrow> u64 \<Rightarrow> tmsg option" where
  "new_tmsg malloc_ok packet len = (if malloc_ok then Some \<lparr>tm_data = packet, tm_len = len\<rparr> else None)"

definition reset_tmsg :: "tmsg option \<Rightarrow> bytes \<Rightarrow> u64 \<Rightarrow> tmsg option" where
  "reset_tmsg msg packet len = map_option (\<lambda>msg. msg\<lparr>tm_data := packet, tm_len := len\<rparr>) msg"

definition tmsg_data :: "tmsg \<Rightarrow> bytes" where "tmsg_data msg = tm_data msg"
definition tmsg_length :: "tmsg \<Rightarrow> u64" where "tmsg_length msg = tm_len msg"

definition tmsg_fail :: "tmsg_failures \<Rightarrow> tmsg_failures" where
  "tmsg_fail st = (case failfn st of None \<Rightarrow> st | Some f \<Rightarrow> st\<lparr>fail_calls := fail_calls st @ [f]\<rparr>)"

definition tmsg_set_fail :: "nat option \<Rightarrow> tmsg_failures \<Rightarrow> nat option \<times> tmsg_failures" where
  "tmsg_set_fail fn st = (failfn st, st\<lparr>failfn := fn\<rparr>)"

definition boundsp :: "tmsg \<Rightarrow> u64 \<Rightarrow> u64 \<Rightarrow> tmsg_failures \<Rightarrow> bool \<times> tmsg_failures" where
  "boundsp msg offset len st =
     (if offset + len \<le> tm_len msg * 8 then (True, st) else (False, tmsg_fail st))"

section \<open>Shifts\<close>

definition shl64 :: "u64 \<Rightarrow> nat \<Rightarrow> u64 option" where
  "shl64 x n = (if n < 64 then Some (push_bit n x) else None)"

definition shr64 :: "u64 \<Rightarrow> nat \<Rightarrow> u64 option" where
  "shr64 x n = (if n < 64 then Some (drop_bit n x) else None)"

text \<open>\<open>(1 << n) - 1\<close> in an int.\<close>

definition low_mask :: "nat \<Rightarrow> u8 option" where
  "low_mask n = (if n < 31 then Some (mask n) else None)"

definition u2s :: "u64 \<Rightarrow> u64 \<Rightarrow> int option" where
  "u2s x len =
     (if unat (len - 1) \<ge> 64 then None
      else if bit x (unat (len - 1)) then
        (if unat len \<ge> 63 then None else Some (sint x - 2 ^ unat len))
      else Some (sint x))"

section \<open>Little endian\<close>

text \<open>From a byte boundary on: whole bytes while there are eight bits left, then the rest.\<close>

fun read_le_rest :: "bytes \<Rightarrow> nat \<Rightarrow> nat \<Rightarrow> nat \<Rightarrow> u64 \<Rightarrow> u64 option" where
  "read_le_rest d b shift len x =
     (if len \<ge> 8 then do {
        v \<leftarrow> rd8 d b;
        y \<leftarrow> shl64 (ucast v) shift;
        read_le_rest d (b + 1) (shift + 8) (len - 8) (x OR y)
      }
      else if len > 0 then do {
        v \<leftarrow> rd8 d b;
        y \<leftarrow> shl64 (ucast (v AND mask len)) shift;
        Some (x OR y)
      }
      else Some x)"

definition tmsg_read_ule :: "tmsg \<Rightarrow> u64 \<Rightarrow> u64 \<Rightarrow> tmsg_failures \<Rightarrow> (u64 \<times> tmsg_failures) option" where
  "tmsg_read_ule msg offset len st =
     (let (ok, st) = boundsp msg offset len st; d = tm_data msg
      in if \<not> ok then Some (0, st)
         else let b = unat (drop_bit 3 offset); bit_offset = unat (offset AND 7)
           in if len + of_nat bit_offset \<le> 8 then do {
                v \<leftarrow> rd8 d b;
                m \<leftarrow> low_mask (unat len);
                Some (ucast (drop_bit bit_offset v AND m), st)
              }
              else if offset > 0 then do {
                v \<leftarrow> rd8 d b;
                x \<leftarrow> read_le_rest d (b + 1) (8 - bit_offset) (unat len - (8 - bit_offset)) (ucast (drop_bit bit_offset v));
                Some (x, st)
              }
              else map_option (\<lambda>x. (x, st)) (read_le_rest d b 0 (unat len) 0))"

definition tmsg_read_le :: "tmsg \<Rightarrow> u64 \<Rightarrow> u64 \<Rightarrow> tmsg_failures \<Rightarrow> (int \<times> tmsg_failures) option" where
  "tmsg_read_le msg offset len st = do {
     (x, st) \<leftarrow> tmsg_read_ule msg offset len st;
     v \<leftarrow> u2s x len;
     Some (v, st)
   }"

fun write_le_rest :: "bytes \<Rightarrow> nat \<Rightarrow> nat \<Rightarrow> nat \<Rightarrow> u64 \<Rightarrow> bytes option" where
  "write_le_rest d b shift len x =
     (if len \<ge> 8 then do {
        y \<leftarrow> shr64 x shift;
        d \<leftarrow> wr8 d b (ucast y);
        write_le_rest d (b + 1) (shift + 8) (len - 8) x
      }
      else if len > 0 then do {
        v \<leftarrow> rd8 d b;
        y \<leftarrow> shr64 x shift;
        wr8 d b (v AND NOT (mask len) OR ucast y)
      }
      else Some d)"

definition tmsg_write_ule :: "tmsg \<Rightarrow> u64 \<Rightarrow> u64 \<Rightarrow> u64 \<Rightarrow> tmsg_failures \<Rightarrow> (tmsg \<times> tmsg_failures) option" where
  "tmsg_write_ule msg offset len x st =
     (let (ok, st) = boundsp msg offset len st; d = tm_data msg
      in if \<not> ok then Some (msg, st)
         else let b = unat (drop_bit 3 offset); bit_offset = unat (offset AND 7)
           in if len + of_nat bit_offset \<le> 8 then do {
                v \<leftarrow> rd8 d b;
                m \<leftarrow> low_mask (unat len);
                d \<leftarrow> wr8 d b (v AND NOT (push_bit bit_offset m) OR ucast (push_bit bit_offset x));
                Some (msg\<lparr>tm_data := d\<rparr>, st)
              }
              else if bit_offset > 0 then do {
                v \<leftarrow> rd8 d b;
                d \<leftarrow> wr8 d b (v AND mask bit_offset OR ucast (push_bit bit_offset x));
                d \<leftarrow> write_le_rest d (b + 1) (8 - bit_offset) (unat len - (8 - bit_offset)) x;
                Some (msg\<lparr>tm_data := d\<rparr>, st)
              }
              else map_option (\<lambda>d. (msg\<lparr>tm_data := d\<rparr>, st)) (write_le_rest d b 0 (unat len) x))"

definition tmsg_write_le :: "tmsg \<Rightarrow> u64 \<Rightarrow> u64 \<Rightarrow> int \<Rightarrow> tmsg_failures \<Rightarrow> (tmsg \<times> tmsg_failures) option" where
  "tmsg_write_le msg offset len v st = tmsg_write_ule msg offset len (word_of_int v) st"

section \<open>Big endian\<close>

fun read_be_rest :: "bytes \<Rightarrow> nat \<Rightarrow> nat \<Rightarrow> u64 \<Rightarrow> u64 option" where
  "read_be_rest d b len x =
     (if len \<ge> 8 then do {
        v \<leftarrow> rd8 d b;
        y \<leftarrow> shl64 (ucast v) (len - 8);
        read_be_rest d (b + 1) (len - 8) (x OR y)
      }
      else if len > 0 then do {
        v \<leftarrow> rd8 d b;
        Some (x OR ucast (drop_bit (8 - len) v))
      }
      else Some x)"

definition tmsg_read_ube :: "tmsg \<Rightarrow> u64 \<Rightarrow> u64 \<Rightarrow> tmsg_failures \<Rightarrow> (u64 \<times> tmsg_failures) option" where
  "tmsg_read_ube msg offset len st =
     (let (ok, st) = boundsp msg offset len st; d = tm_data msg
      in if \<not> ok then Some (0, st)
         else let b = unat (drop_bit 3 offset); bit_offset = unat (offset AND 7)
           in if len + of_nat bit_offset \<le> 8 then do {
                v \<leftarrow> rd8 d b;
                m \<leftarrow> low_mask (unat len);
                Some (ucast (drop_bit (8 - bit_offset - unat len) v AND m), st)
              }
              else if bit_offset > 0 then do {
                let n = unat len - (8 - bit_offset);
                v \<leftarrow> rd8 d b;
                y \<leftarrow> shl64 (ucast (v AND mask (8 - bit_offset))) n;
                x \<leftarrow> read_be_rest d (b + 1) n y;
                Some (x, st)
              }
              else map_option (\<lambda>x. (x, st)) (read_be_rest d b (unat len) 0))"

definition tmsg_read_be :: "tmsg \<Rightarrow> u64 \<Rightarrow> u64 \<Rightarrow> tmsg_failures \<Rightarrow> (int \<times> tmsg_failures) option" where
  "tmsg_read_be msg offset len st = do {
     (x, st) \<leftarrow> tmsg_read_ube msg offset len st;
     v \<leftarrow> u2s x len;
     Some (v, st)
   }"

fun write_be_rest :: "bytes \<Rightarrow> nat \<Rightarrow> nat \<Rightarrow> u64 \<Rightarrow> bytes option" where
  "write_be_rest d b len x =
     (if len \<ge> 8 then do {
        y \<leftarrow> shr64 x (len - 8);
        d \<leftarrow> wr8 d b (ucast y);
        write_be_rest d (b + 1) (len - 8) x
      }
      else if len > 0 then do {
        v \<leftarrow> rd8 d b;
        wr8 d b (v AND mask (8 - len) OR ucast (push_bit (8 - len) x))
      }
      else Some d)"

definition tmsg_write_ube :: "tmsg \<Rightarrow> u64 \<Rightarrow> u64 \<Rightarrow> u64 \<Rightarrow> tmsg_failures \<Rightarrow> (tmsg \<times> tmsg_failures) option" where
  "tmsg_write_ube msg offset len x st =
     (let (ok, st) = boundsp msg offset len st; d = tm_data msg
      in if \<not> ok then Some (msg, st)
         else let b = unat (drop_bit 3 offset); bit_offset = unat (offset AND 7)
           in if len + of_nat bit_offset \<le> 8 then do {
                m \<leftarrow> low_mask (unat len);
                let k = 8 - bit_offset - unat len;
                v \<leftarrow> rd8 d b;
                d \<leftarrow> wr8 d b (v AND NOT (push_bit k m) OR ucast (push_bit k x));
                Some (msg\<lparr>tm_data := d\<rparr>, st)
              }
              else if bit_offset > 0 then do {
                let n = unat len - (8 - bit_offset);
                v \<leftarrow> rd8 d b;
                y \<leftarrow> shr64 x n;
                d \<leftarrow> wr8 d b (v AND NOT (mask (8 - bit_offset)) OR ucast y);
                d \<leftarrow> write_be_rest d (b + 1) n x;
                Some (msg\<lparr>tm_data := d\<rparr>, st)
              }
              else map_option (\<lambda>d. (msg\<lparr>tm_data := d\<rparr>, st)) (write_be_rest d b (unat len) x))"

definition tmsg_write_be :: "tmsg \<Rightarrow> u64 \<Rightarrow> u64 \<Rightarrow> int \<Rightarrow> tmsg_failures \<Rightarrow> (tmsg \<times> tmsg_failures) option" where
  "tmsg_write_be msg offset len v st = tmsg_write_ube msg offset len (word_of_int v) st"

section \<open>Floats\<close>

text \<open>\<open>u2f\<close> and \<open>f2u\<close> are the memory representation of a float: parameters.\<close>

definition tmsg_read_float_le :: "(u32 \<Rightarrow> 'f) \<Rightarrow> tmsg \<Rightarrow> u64 \<Rightarrow> tmsg_failures \<Rightarrow> ('f \<times> tmsg_failures) option" where
  "tmsg_read_float_le u2f msg offset st = map_option (apfst (u2f \<circ> ucast)) (tmsg_read_ule msg offset 32 st)"

definition tmsg_write_float_le :: "('f \<Rightarrow> u32) \<Rightarrow> tmsg \<Rightarrow> u64 \<Rightarrow> 'f \<Rightarrow> tmsg_failures \<Rightarrow> (tmsg \<times> tmsg_failures) option" where
  "tmsg_write_float_le f2u msg offset x st = tmsg_write_ule msg offset 32 (ucast (f2u x)) st"

definition tmsg_read_float_be :: "(u32 \<Rightarrow> 'f) \<Rightarrow> tmsg \<Rightarrow> u64 \<Rightarrow> tmsg_failures \<Rightarrow> ('f \<times> tmsg_failures) option" where
  "tmsg_read_float_be u2f msg offset st = map_option (apfst (u2f \<circ> ucast)) (tmsg_read_ube msg offset 32 st)"

definition tmsg_write_float_be :: "('f \<Rightarrow> u32) \<Rightarrow> tmsg \<Rightarrow> u64 \<Rightarrow> 'f \<Rightarrow> tmsg_failures \<Rightarrow> (tmsg \<times> tmsg_failures) option" where
  "tmsg_write_float_be f2u msg offset x st = tmsg_write_ube msg offset 32 (ucast (f2u x)) st"

end
