(* ===== verification/TMessageProps.thy ===== *)
theory TMessageProps
  imports TMessage
begin

text \<open>
  Bit fields read and write exactly the bits of their field: in little endian the bits of the buffer
  from the lowest of each byte on, in big endian from the highest. Fields that do not overlap are
  independent, so a message of any fields reads back as it was written.
\<close>

declare read_le_rest.simps [simp del] write_le_rest.simps [simp del]
  read_be_rest.simps [simp del] write_be_rest.simps [simp del]

section \<open>Bits of a buffer\<close>

definition le_bit :: "bytes \<Rightarrow> nat \<Rightarrow> bool" where
  "le_bit d i = bit (d ! (i div 8)) (i mod 8)"

definition be_bit :: "bytes \<Rightarrow> nat \<Rightarrow> bool" where
  "be_bit d i = bit (d ! (i div 8)) (7 - i mod 8)"

lemma le_bit_byte: "j < 8 \<Longrightarrow> le_bit d (8 * b + j) = bit (d ! b) j"
  by (simp add: le_bit_def)

lemma be_bit_byte: "j < 8 \<Longrightarrow> be_bit d (8 * b + j) = bit (d ! b) (7 - j)"
  by (simp add: be_bit_def)

lemma le_bit_update: "b < length d \<Longrightarrow> le_bit (d[b := v]) i = (if i div 8 = b then bit v (i mod 8) else le_bit d i)"
  by (simp add: le_bit_def)

lemma be_bit_update: "b < length d \<Longrightarrow> be_bit (d[b := v]) i = (if i div 8 = b then bit v (7 - i mod 8) else be_bit d i)"
  by (simp add: be_bit_def)

lemma byte_mod: "i div 8 = b \<Longrightarrow> i mod 8 = i - 8 * b" for i b :: nat
  by (metis minus_mult_div_eq_mod)

lemma byte_index: "i div 8 = b \<longleftrightarrow> 8 * b \<le> i \<and> i < 8 * b + 8" for i b :: nat
  by auto

lemma byte_bit: "bit (v :: u8) n \<Longrightarrow> n < 8"
  using bit_imp_le_length [of v n] by simp

lemma u64_bit: "bit (x :: u64) n \<Longrightarrow> n < 64"
  using bit_imp_le_length [of x n] by simp

lemma last_byte: "0 < n \<Longrightarrow> n \<le> i \<Longrightarrow> i < 8 * ((n + 7) div 8) \<longleftrightarrow> i div 8 = (n - 1) div 8" for n i :: nat
proof -
  assume n: "0 < n" "n \<le> i"
  have "n + 7 = n - 1 + 8" using n(1) by simp
  then have "(n + 7) div 8 = (n - 1) div 8 + 1" by (metis div_add_self2 zero_neq_numeral)
  moreover have "(n - 1) div 8 \<le> i div 8" using n(2) by (intro div_le_mono) simp
  moreover have "i < 8 * ((n + 7) div 8) \<longleftrightarrow> i div 8 < (n + 7) div 8" by (simp add: div_less_iff_less_mult mult.commute)
  ultimately show ?thesis by linarith
qed

lemmas field_bits = bit_or_iff bit_and_iff bit_not_iff bit_push_bit_iff bit_drop_bit_eq bit_mask_iff bit_unsigned_iff

section \<open>Little endian\<close>

lemma read_le_rest_spec:
  "8 * b + len \<le> 8 * length d \<Longrightarrow> shift + len \<le> 64 \<Longrightarrow> \<forall>k \<ge> shift. \<not> bit x k \<Longrightarrow>
   \<exists>y. read_le_rest d b shift len x = Some y \<and>
     (\<forall>k. bit y k \<longleftrightarrow> bit x k \<or> shift \<le> k \<and> k < shift + len \<and> le_bit d (8 * b + (k - shift)))"
proof (induction d b shift len x rule: read_le_rest.induct)
  case (1 d b shift len x)
  show ?case
  proof (cases "len \<ge> 8")
    case True
    define x1 where "x1 = (x OR push_bit shift (ucast (d ! b)) :: u64)"
    have x1: "bit x1 k \<longleftrightarrow> bit x k \<or> shift \<le> k \<and> bit (d ! b) (k - shift)" for k
      using 1(3) True byte_bit [of "d ! b" "k - shift"] by (auto simp: x1_def field_bits)
    have reads: "rd8 d b = Some (d ! b)" "shl64 (ucast (d ! b)) shift = Some (push_bit shift (ucast (d ! b)))"
      using 1(2,3) True by (simp_all add: rd8_def shl64_def)
    have "\<exists>y. read_le_rest d (b + 1) (shift + 8) (len - 8) x1 = Some y \<and>
        (\<forall>k. bit y k \<longleftrightarrow> bit x1 k \<or> shift + 8 \<le> k \<and> k < shift + 8 + (len - 8) \<and> le_bit d (8 * (b + 1) + (k - (shift + 8))))"
      unfolding x1_def
    proof (rule 1(1) [OF True reads])
      show "\<forall>k \<ge> shift + 8. \<not> bit (x OR push_bit shift (ucast (d ! b)) :: u64) k"
        using x1 1(4) byte_bit [of "d ! b"] by (fastforce simp: x1_def)
    qed (use 1(2,3) True in simp_all)
    then obtain y where y: "read_le_rest d (b + 1) (shift + 8) (len - 8) x1 = Some y"
      "\<And>k. bit y k \<longleftrightarrow> bit x1 k \<or> shift + 8 \<le> k \<and> k < shift + 8 + (len - 8) \<and> le_bit d (8 * (b + 1) + (k - (shift + 8)))"
      by blast
    have "bit y k \<longleftrightarrow> bit x k \<or> shift \<le> k \<and> k < shift + len \<and> le_bit d (8 * b + (k - shift))" for k
    proof (cases "shift + 8 \<le> k")
      case later: True
      then have "8 * (b + 1) + (k - (shift + 8)) = 8 * b + (k - shift)" by simp
      then show ?thesis using later True byte_bit [of "d ! b" "k - shift"] by (auto simp: y(2) x1)
    next
      case False
      then show ?thesis using True le_bit_byte [of "k - shift" d b] by (auto simp: y(2) x1)
    qed
    then show ?thesis
      using y(1) True 1(2,3) by (simp add: read_le_rest.simps [of d b shift len] rd8_def shl64_def x1_def)
  next
    case False
    show ?thesis
    proof (cases "len = 0")
      case True
      then show ?thesis by (auto simp: read_le_rest.simps)
    next
      case pos: False
      then have "b < length d" using 1(2) by simp
      moreover have "bit (x OR push_bit shift (ucast (d ! b AND mask len)) :: u64) k \<longleftrightarrow>
          bit x k \<or> shift \<le> k \<and> k < shift + len \<and> le_bit d (8 * b + (k - shift))" for k
        using 1(3) False le_bit_byte [of "k - shift" d b] byte_bit [of "d ! b" "k - shift"] by (auto simp: field_bits)
      ultimately show ?thesis
        using False pos 1(3) by (simp add: read_le_rest.simps [of d b shift len] rd8_def shl64_def)
    qed
  qed
qed

text \<open>Past the field, in its last byte, the bits of \<open>x\<close> beyond the field are or-ed in.\<close>

lemma write_le_rest_spec:
  "8 * b + len \<le> 8 * length d \<Longrightarrow> shift + len \<le> 64 \<Longrightarrow>
   \<exists>d'. write_le_rest d b shift len x = Some d' \<and> length d' = length d \<and>
     (\<forall>i. le_bit d' i \<longleftrightarrow>
        (if i < 8 * b then le_bit d i else if i < 8 * b + len then bit x (shift + (i - 8 * b))
         else le_bit d i \<or> i < 8 * (b + (len + 7) div 8) \<and> bit x (shift + (i - 8 * b))))"
proof (induction d b shift len x rule: write_le_rest.induct)
  case (1 d b shift len x)
  show ?case
  proof (cases "len \<ge> 8")
    case True
    define d1 where "d1 = d[b := ucast (drop_bit shift x)]"
    have b: "b < length d" using 1(2) True by simp
    have d1: "le_bit d1 i \<longleftrightarrow> (if 8 * b \<le> i \<and> i < 8 * b + 8 then bit x (shift + (i - 8 * b)) else le_bit d i)" for i
    proof (cases "i div 8 = b")
      case True
      then have "i mod 8 = i - 8 * b" "8 * b \<le> i" "i < 8 * b + 8" using byte_mod byte_index by blast+
      moreover from this have "i - 8 * b < 8" by linarith
      ultimately show ?thesis using b True by (simp add: d1_def le_bit_update field_bits)
    next
      case False
      then have "\<not> (8 * b \<le> i \<and> i < 8 * b + 8)" using byte_index by blast
      then show ?thesis using b False by (auto simp: d1_def le_bit_update)
    qed
    have "shr64 x shift = Some (drop_bit shift x)" "wr8 d b (ucast (drop_bit shift x)) = Some d1"
      using 1(3) True b by (simp_all add: shr64_def wr8_def d1_def)
    note step = 1(1) [OF True this] this
    obtain d' where d': "write_le_rest d1 (b + 1) (shift + 8) (len - 8) x = Some d'" "length d' = length d1"
      "\<And>i. le_bit d' i \<longleftrightarrow> (if i < 8 * (b + 1) then le_bit d1 i
         else if i < 8 * (b + 1) + (len - 8) then bit x (shift + 8 + (i - 8 * (b + 1)))
         else le_bit d1 i \<or> i < 8 * (b + 1 + (len - 8 + 7) div 8) \<and> bit x (shift + 8 + (i - 8 * (b + 1))))"
      using step(1) 1(2,3) True by (auto simp: d1_def)
    have n: "b + 1 + (len - 8 + 7) div 8 = b + (len + 7) div 8" "8 * (b + 1) + (len - 8) = 8 * b + len" using True by simp_all
    have "le_bit d' i \<longleftrightarrow>
        (if i < 8 * b then le_bit d i else if i < 8 * b + len then bit x (shift + (i - 8 * b))
         else le_bit d i \<or> i < 8 * (b + (len + 7) div 8) \<and> bit x (shift + (i - 8 * b)))" for i
    proof (cases "i < 8 * (b + 1)")
      case lt: True
      then show ?thesis using True by (simp add: d'(3) d1)
    next
      case False
      then have "shift + 8 + (i - 8 * (b + 1)) = shift + (i - 8 * b)" by simp
      then show ?thesis using False unfolding d'(3) n by (simp add: d1)
    qed
    then show ?thesis
      using d'(1,2) True step(2,3) by (simp add: write_le_rest.simps [of d b shift len] d1_def)
  next
    case False
    show ?thesis
    proof (cases "len = 0")
      case True
      then show ?thesis by (simp add: write_le_rest.simps)
    next
      case pos: False
      then have b: "b < length d" using 1(2) by simp
      define v where "v = (d ! b AND NOT (mask len) OR ucast (drop_bit shift x))"
      have one: "(len + 7) div 8 = 1" using False pos by simp
      have "le_bit (d[b := v]) i \<longleftrightarrow>
          (if i < 8 * b then le_bit d i else if i < 8 * b + len then bit x (shift + (i - 8 * b))
           else le_bit d i \<or> i < 8 * (b + (len + 7) div 8) \<and> bit x (shift + (i - 8 * b)))" for i
      proof (cases "i div 8 = b")
        case True
        then have i: "i mod 8 = i - 8 * b" "8 * b \<le> i" "i < 8 * b + 8" using byte_mod byte_index by blast+
        have "i - 8 * b < 8" using i by linarith
        then show ?thesis using b True False one i by (auto simp: le_bit_update v_def field_bits le_bit_def [of d])
      next
        case other: False
        then show ?thesis using b byte_index [of i b] False one by (auto simp: le_bit_update)
      qed
      then show ?thesis
        using False pos b 1(3) by (intro exI [of _ "d[b := v]"])
          (simp add: write_le_rest.simps [of d b shift len] rd8_def wr8_def shr64_def v_def)
    qed
  qed
qed

section \<open>Fields in the buffer\<close>

text \<open>A buffer whose length is that of its array, and a field of at most 64 bits inside it.\<close>

definition field_in :: "tmsg \<Rightarrow> nat \<Rightarrow> nat \<Rightarrow> bool" where
  "field_in msg off len \<longleftrightarrow> 0 < len \<and> len \<le> 64 \<and> off + len \<le> 8 * length (tm_data msg) \<and>
     8 * length (tm_data msg) < 2 ^ 64 \<and> tm_len msg = of_nat (length (tm_data msg))"

lemma unat_64: "n < 2 ^ 64 \<Longrightarrow> unat (of_nat n :: u64) = n"
  by (simp add: unat_of_nat take_bit_nat_eq_self)

lemma field_in_facts:
  assumes "field_in msg off len"
  shows "unat (of_nat len :: u64) = len" "unat (drop_bit 3 (of_nat off :: u64)) = off div 8"
    "unat ((of_nat off :: u64) AND 7) = off mod 8" "boundsp msg (of_nat off) (of_nat len) st = (True, st)"
    "(of_nat len :: u64) + of_nat (off mod 8) \<le> 8 \<longleftrightarrow> len + off mod 8 \<le> 8"
    "(0 :: u64) < of_nat off \<longleftrightarrow> 0 < off" "off div 8 < length (tm_data msg)" "low_mask len = (if len < 31 then Some (mask len) else None)"
proof -
  have "off mod 8 < 8" by simp
  then have b: "off < 2 ^ 64" "len < 2 ^ 64" "off + len < 2 ^ 64" "length (tm_data msg) < 2 ^ 64" "length (tm_data msg) * 8 < 2 ^ 64"
    "len + off mod 8 < 2 ^ 64"
    using assms unfolding field_in_def by linarith+
  note u = unat_64 [OF b(1)] unat_64 [OF b(2)]
  show "unat (of_nat len :: u64) = len" by (rule u)
  have "drop_bit 3 (of_nat off :: u64) = of_nat off div 8" by (simp add: drop_bit_eq_div)
  then show "unat (drop_bit 3 (of_nat off :: u64)) = off div 8" using u by (simp add: unat_div)
  have "(of_nat off :: u64) AND 7 = take_bit 3 (of_nat off)" by (simp add: take_bit_eq_mask mask_eq_exp_minus_1)
  also have "\<dots> = of_nat off mod 8" by (simp add: take_bit_eq_mod)
  finally show "unat ((of_nat off :: u64) AND 7) = off mod 8" using u by (simp add: unat_mod)
  have "of_nat off + of_nat len \<le> (tm_len msg * 8 :: u64)"
  proof -
    have "(of_nat off + of_nat len :: u64) = of_nat (off + len)" "tm_len msg * 8 = of_nat (length (tm_data msg) * 8)"
      using assms by (simp_all add: field_in_def)
    then show ?thesis using unat_64 [OF b(3)] unat_64 [OF b(5)] assms by (simp add: word_le_nat_alt field_in_def del: of_nat_add of_nat_mult)
  qed
  then show "boundsp msg (of_nat off) (of_nat len) st = (True, st)" by (simp add: boundsp_def)
  have "(of_nat len + of_nat (off mod 8) :: u64) = of_nat (len + off mod 8)" by simp
  then show "(of_nat len :: u64) + of_nat (off mod 8) \<le> 8 \<longleftrightarrow> len + off mod 8 \<le> 8"
    using unat_64 [OF b(6)] by (simp add: word_le_nat_alt del: of_nat_add)
  show "(0 :: u64) < of_nat off \<longleftrightarrow> 0 < off" using u by (simp add: word_less_nat_alt)
  show "off div 8 < length (tm_data msg)" using assms unfolding field_in_def by (intro less_mult_imp_div_less) linarith
  show "low_mask len = (if len < 31 then Some (mask len) else None)" by (simp add: low_mask_def)
qed

lemma read_ule_spec:
  assumes "field_in msg off len"
  shows "\<exists>y. tmsg_read_ule msg (of_nat off) (of_nat len) st = Some (y, st) \<and>
    (\<forall>k. bit y k \<longleftrightarrow> k < len \<and> le_bit (tm_data msg) (off + k))"
proof -
  define b bo where bo: "b = off div 8" "bo = off mod 8"
  have off: "off = 8 * b + bo" "bo < 8" by (simp_all add: bo)
  let ?d = "tm_data msg"
  note f = field_in_facts [OF assms, folded bo]
  have len: "0 < len" "len \<le> 64" "off + len \<le> 8 * length ?d" using assms by (simp_all add: field_in_def)
  show ?thesis
  proof (cases "len + bo \<le> 8")
    case True
    have "bit (ucast (drop_bit bo (?d ! b) AND mask len) :: u64) k \<longleftrightarrow> k < len \<and> le_bit ?d (off + k)" for k
      using True len off le_bit_byte [of "bo + k" ?d b] by (auto simp: field_bits add.assoc)
    then show ?thesis using True f by (simp add: tmsg_read_ule_def rd8_def)
  next
    case False
    show ?thesis
    proof (cases "off = 0")
      case True
      have "\<exists>y. read_le_rest ?d 0 0 len 0 = Some y \<and> (\<forall>k. bit y k \<longleftrightarrow> bit (0 :: u64) k \<or> 0 \<le> k \<and> k < 0 + len \<and> le_bit ?d (8 * 0 + (k - 0)))"
        by (rule read_le_rest_spec) (use len True in simp_all)
      then show ?thesis using True False f bo by (auto simp: tmsg_read_ule_def)
    next
      case pos: False
      have "\<exists>y. read_le_rest ?d (b + 1) (8 - bo) (len - (8 - bo)) (ucast (drop_bit bo (?d ! b))) = Some y \<and>
          (\<forall>k. bit y k \<longleftrightarrow> bit (ucast (drop_bit bo (?d ! b)) :: u64) k \<or>
            8 - bo \<le> k \<and> k < 8 - bo + (len - (8 - bo)) \<and> le_bit ?d (8 * (b + 1) + (k - (8 - bo))))"
        by (rule read_le_rest_spec) (use len off False in \<open>auto simp: field_bits dest!: byte_bit\<close>)
      then obtain y where y: "read_le_rest ?d (b + 1) (8 - bo) (len - (8 - bo)) (ucast (drop_bit bo (?d ! b))) = Some y"
        "\<And>k. bit y k \<longleftrightarrow> bit (ucast (drop_bit bo (?d ! b)) :: u64) k \<or>
            8 - bo \<le> k \<and> k < 8 - bo + (len - (8 - bo)) \<and> le_bit ?d (8 * (b + 1) + (k - (8 - bo)))"
        by blast
      have "bit y k \<longleftrightarrow> k < len \<and> le_bit ?d (off + k)" for k
      proof (cases "k < 8 - bo")
        case True
        then show ?thesis using False off le_bit_byte [of "bo + k" ?d b] by (auto simp: y(2) field_bits add.assoc)
      next
        case later: False
        then have "8 * (b + 1) + (k - (8 - bo)) = off + k" using off by simp
        moreover have "\<not> bit (ucast (drop_bit bo (?d ! b)) :: u64) k" using later byte_bit [of "?d ! b" "bo + k"] by (auto simp: field_bits)
        ultimately show ?thesis using later False unfolding y(2) by auto
      qed
      then show ?thesis using pos False f y(1) by (simp add: tmsg_read_ule_def rd8_def)
    qed
  qed
qed

text \<open>A written buffer: the field holds the low bits of \<open>x\<close>; what is left of \<open>x\<close> is or-ed into the rest
  of the field's last byte.\<close>

lemma write_ule_spec:
  assumes "field_in msg off len"
  shows "\<exists>d'. tmsg_write_ule msg (of_nat off) (of_nat len) x st = Some (msg\<lparr>tm_data := d'\<rparr>, st) \<and>
    length d' = length (tm_data msg) \<and>
    (\<forall>i. le_bit d' i \<longleftrightarrow>
       (if off \<le> i \<and> i < off + len then bit x (i - off)
        else le_bit (tm_data msg) i \<or> off + len \<le> i \<and> i div 8 = (off + len - 1) div 8 \<and> bit x (i - off)))"
proof -
  define b bo where bo: "b = off div 8" "bo = off mod 8"
  have off: "off = 8 * b + bo" "bo < 8" by (simp_all add: bo)
  let ?d = "tm_data msg"
  note f = field_in_facts [OF assms, folded bo]
  have len: "0 < len" "len \<le> 64" "off + len \<le> 8 * length ?d" using assms by (simp_all add: field_in_def)
  show ?thesis
  proof (cases "len + bo \<le> 8")
    case True
    define v where "v = (?d ! b AND NOT (push_bit bo (mask len)) OR ucast (push_bit bo x))"
    have last: "(off + len - 1) div 8 = b" unfolding byte_index using True off len by linarith
    have "le_bit (?d[b := v]) i \<longleftrightarrow> (if off \<le> i \<and> i < off + len then bit x (i - off)
        else le_bit ?d i \<or> off + len \<le> i \<and> i div 8 = (off + len - 1) div 8 \<and> bit x (i - off))" for i
    proof (cases "i div 8 = b")
      case same: True
      then have i: "i mod 8 = i - 8 * b" "8 * b \<le> i" "i < 8 * b + 8" using byte_mod byte_index by blast+
      have "bit v (i - 8 * b) \<longleftrightarrow> (if off \<le> i \<and> i < off + len then bit x (i - off)
          else bit (?d ! b) (i - 8 * b) \<or> off + len \<le> i \<and> bit x (i - off))"
      proof -
        have "i - 8 * b - bo = i - off" "i - 8 * b < 8" "bo \<le> i - 8 * b \<longleftrightarrow> off \<le> i" "i - 8 * b - bo < len \<longleftrightarrow> i < off + len"
          using off i True len by auto
        then show ?thesis by (auto simp: v_def field_bits)
      qed
      then show ?thesis using f(7) same i(1) last by (simp add: le_bit_update le_bit_def [of ?d])
    next
      case other: False
      then have "\<not> (8 * b \<le> i \<and> i < 8 * b + 8)" using byte_index by blast
      then have "\<not> (off \<le> i \<and> i < off + len)" using off True by linarith
      then show ?thesis using f(7) other last by (auto simp: le_bit_update)
    qed
    then show ?thesis
      using True f len by (intro exI [of _ "?d[b := v]"]) (simp add: tmsg_write_ule_def rd8_def wr8_def v_def Let_def)
  next
    case False
    show ?thesis
    proof (cases "bo = 0")
      case True
      obtain d' where d': "write_le_rest ?d b 0 len x = Some d'" "length d' = length ?d"
        "\<And>i. le_bit d' i \<longleftrightarrow> (if i < 8 * b then le_bit ?d i else if i < 8 * b + len then bit x (0 + (i - 8 * b))
           else le_bit ?d i \<or> i < 8 * (b + (len + 7) div 8) \<and> bit x (0 + (i - 8 * b)))"
        using write_le_rest_spec [of b len ?d 0 x] len off True by auto
      have "i < 8 * (b + (len + 7) div 8) \<longleftrightarrow> i div 8 = (off + len - 1) div 8" if "off + len \<le> i" for i
        using last_byte [of "off + len" i] that off True len by (simp add: add.assoc)
      then have "le_bit d' i \<longleftrightarrow> (if off \<le> i \<and> i < off + len then bit x (i - off)
          else le_bit ?d i \<or> off + len \<le> i \<and> i div 8 = (off + len - 1) div 8 \<and> bit x (i - off))" for i
        using off True by (auto simp: d'(3))
      then show ?thesis using True False f d'(1,2) by (intro exI [of _ d']) (simp add: tmsg_write_ule_def)
    next
      case pos: False
      define v where "v = (?d ! b AND mask bo OR ucast (push_bit bo x))"
      obtain d' where d': "write_le_rest (?d[b := v]) (b + 1) (8 - bo) (len - (8 - bo)) x = Some d'" "length d' = length ?d"
        "\<And>i. le_bit d' i \<longleftrightarrow> (if i < 8 * (b + 1) then le_bit (?d[b := v]) i
           else if i < 8 * (b + 1) + (len - (8 - bo)) then bit x (8 - bo + (i - 8 * (b + 1)))
           else le_bit (?d[b := v]) i \<or> i < 8 * (b + 1 + (len - (8 - bo) + 7) div 8) \<and> bit x (8 - bo + (i - 8 * (b + 1))))"
        using write_le_rest_spec [of "b + 1" "len - (8 - bo)" "?d[b := v]" "8 - bo" x] len off False by auto
      have v: "le_bit (?d[b := v]) i \<longleftrightarrow> (if 8 * b + bo \<le> i \<and> i < 8 * b + 8 then bit x (i - off) else le_bit ?d i)" for i
      proof (cases "i div 8 = b")
        case True
        then have i: "i mod 8 = i - 8 * b" "8 * b \<le> i" "i < 8 * b + 8" using byte_mod byte_index by blast+
        have "i - 8 * b - bo = i - off" "i - 8 * b < 8" "bo \<le> i - 8 * b \<longleftrightarrow> 8 * b + bo \<le> i" using off i by auto
        then show ?thesis using f(7) True i by (auto simp: le_bit_update v_def field_bits le_bit_def [of ?d])
      next
        case other: False
        then have "\<not> (8 * b \<le> i \<and> i < 8 * b + 8)" using byte_index by blast
        then show ?thesis using f(7) other by (auto simp: le_bit_update)
      qed
      have e: "8 * (b + 1) + (len - (8 - bo)) = off + len" using off False by simp
      have "i < 8 * (b + 1 + (len - (8 - bo) + 7) div 8) \<longleftrightarrow> i div 8 = (off + len - 1) div 8" if "off + len \<le> i" for i
      proof -
        have "(len - (8 - bo) + 7 + (b + 1) * 8) div 8 = b + 1 + (len - (8 - bo) + 7) div 8" by (simp only: div_mult_self1)
        moreover have "len - (8 - bo) + 7 + (b + 1) * 8 = off + len + 7" using e by simp
        ultimately have "(off + len + 7) div 8 = b + 1 + (len - (8 - bo) + 7) div 8" by (simp only:)
        then show ?thesis using last_byte [of "off + len" i] that len by simp
      qed
      then have "le_bit d' i \<longleftrightarrow> (if off \<le> i \<and> i < off + len then bit x (i - off)
          else le_bit ?d i \<or> off + len \<le> i \<and> i div 8 = (off + len - 1) div 8 \<and> bit x (i - off))" for i
      proof (cases "i < 8 * (b + 1)")
        case True
        then have "i < off + len" "i < 8 * b + 8" using e by simp_all
        then show ?thesis using True off by (auto simp: d'(3) v)
      next
        case later: False
        then have "8 - bo + (i - 8 * (b + 1)) = i - off" "off \<le> i" using off by simp_all
        then show ?thesis using later \<open>\<And>i. off + len \<le> i \<Longrightarrow> _\<close> unfolding d'(3) e by (auto simp: v)
      qed
      then show ?thesis using pos False f d'(1,2)
        by (intro exI [of _ d']) (simp add: tmsg_write_ule_def rd8_def wr8_def v_def)
    qed
  qed
qed

section \<open>Big endian\<close>

lemma read_be_rest_spec:
  "8 * b + len \<le> 8 * length d \<Longrightarrow> len \<le> 64 \<Longrightarrow> \<forall>k < len. \<not> bit x k \<Longrightarrow>
   \<exists>y. read_be_rest d b len x = Some y \<and>
     (\<forall>k. bit y k \<longleftrightarrow> bit x k \<or> k < len \<and> be_bit d (8 * b + (len - 1 - k)))"
proof (induction d b len x rule: read_be_rest.induct)
  case (1 d b len x)
  show ?case
  proof (cases "len \<ge> 8")
    case True
    define x1 where "x1 = (x OR push_bit (len - 8) (ucast (d ! b)) :: u64)"
    have x1: "bit x1 k \<longleftrightarrow> bit x k \<or> len - 8 \<le> k \<and> bit (d ! b) (k - (len - 8))" for k
      using 1(3) True byte_bit [of "d ! b" "k - (len - 8)"] by (auto simp: x1_def field_bits)
    have reads: "rd8 d b = Some (d ! b)" "shl64 (ucast (d ! b)) (len - 8) = Some (push_bit (len - 8) (ucast (d ! b)))"
      using 1(2,3) True by (simp_all add: rd8_def shl64_def)
    have "\<forall>k < len - 8. \<not> bit x1 k" using 1(4) x1 by auto
    then have "\<exists>y. read_be_rest d (b + 1) (len - 8) x1 = Some y \<and>
        (\<forall>k. bit y k \<longleftrightarrow> bit x1 k \<or> k < len - 8 \<and> be_bit d (8 * (b + 1) + (len - 8 - 1 - k)))"
      unfolding x1_def by (intro 1(1) [OF True reads]) (use 1(2,3) True in simp_all)
    then obtain y where y: "read_be_rest d (b + 1) (len - 8) x1 = Some y"
      "\<And>k. bit y k \<longleftrightarrow> bit x1 k \<or> k < len - 8 \<and> be_bit d (8 * (b + 1) + (len - 8 - 1 - k))"
      by blast
    have "bit y k \<longleftrightarrow> bit x k \<or> k < len \<and> be_bit d (8 * b + (len - 1 - k))" for k
    proof (cases "k < len - 8")
      case low: True
      then have "8 * (b + 1) + (len - 8 - 1 - k) = 8 * b + (len - 1 - k)" by simp
      then show ?thesis using low by (auto simp: y(2) x1)
    next
      case False
      then have "len - 1 - k < 8" "k < len \<Longrightarrow> 7 - (len - 1 - k) = k - (len - 8)" using True by linarith+
      moreover have "bit (d ! b) (k - (len - 8)) \<Longrightarrow> k < len" using byte_bit [of "d ! b" "k - (len - 8)"] True by linarith
      ultimately show ?thesis using False be_bit_byte [of "len - 1 - k" d b] by (auto simp: y(2) x1)
    qed
    then show ?thesis using y(1) True reads by (simp add: read_be_rest.simps [of d b len] x1_def)
  next
    case False
    show ?thesis
    proof (cases "len = 0")
      case True
      then show ?thesis by (auto simp: read_be_rest.simps)
    next
      case pos: False
      then have b: "b < length d" using 1(2) by simp
      have "bit (x OR ucast (drop_bit (8 - len) (d ! b)) :: u64) k \<longleftrightarrow> bit x k \<or> k < len \<and> be_bit d (8 * b + (len - 1 - k))" for k
      proof -
        have "k < len \<Longrightarrow> 7 - (len - 1 - k) = 8 - len + k" "len - 1 - k < 8" using False by linarith+
        moreover have "bit (d ! b) (8 - len + k) \<Longrightarrow> k < len" using byte_bit [of "d ! b" "8 - len + k"] False by linarith
        ultimately show ?thesis using False be_bit_byte [of "len - 1 - k" d b] by (auto simp: field_bits)
      qed
      then show ?thesis using False pos b by (simp add: read_be_rest.simps [of d b len] rd8_def)
    qed
  qed
qed

lemma write_be_rest_spec:
  "8 * b + len \<le> 8 * length d \<Longrightarrow> len \<le> 64 \<Longrightarrow>
   \<exists>d'. write_be_rest d b len x = Some d' \<and> length d' = length d \<and>
     (\<forall>i. be_bit d' i \<longleftrightarrow> (if 8 * b \<le> i \<and> i < 8 * b + len then bit x (len - 1 - (i - 8 * b)) else be_bit d i))"
proof (induction d b len x rule: write_be_rest.induct)
  case (1 d b len x)
  show ?case
  proof (cases "len \<ge> 8")
    case True
    define d1 where "d1 = d[b := ucast (drop_bit (len - 8) x)]"
    have b: "b < length d" using 1(2) True by simp
    have d1: "be_bit d1 i \<longleftrightarrow> (if 8 * b \<le> i \<and> i < 8 * b + 8 then bit x (len - 1 - (i - 8 * b)) else be_bit d i)" for i
    proof (cases "i div 8 = b")
      case same: True
      then have i: "i mod 8 = i - 8 * b" "8 * b \<le> i" "i < 8 * b + 8" using byte_mod byte_index by blast+
      then have "len - 8 + (7 - (i - 8 * b)) = len - 1 - (i - 8 * b)" "7 - (i - 8 * b) < 8" using True by linarith+
      then show ?thesis using b same i by (simp add: d1_def be_bit_update field_bits)
    next
      case False
      then have "\<not> (8 * b \<le> i \<and> i < 8 * b + 8)" using byte_index by blast
      then show ?thesis using b False by (auto simp: d1_def be_bit_update)
    qed
    have step: "shr64 x (len - 8) = Some (drop_bit (len - 8) x)" "wr8 d b (ucast (drop_bit (len - 8) x)) = Some d1"
      using 1(3) True b by (simp_all add: shr64_def wr8_def d1_def)
    have "\<exists>d'. write_be_rest d1 (b + 1) (len - 8) x = Some d' \<and> length d' = length d1 \<and>
      (\<forall>i. be_bit d' i \<longleftrightarrow> (if 8 * (b + 1) \<le> i \<and> i < 8 * (b + 1) + (len - 8) then bit x (len - 8 - 1 - (i - 8 * (b + 1)))
         else be_bit d1 i))"
      by (rule 1(1) [OF True step]) (use 1(2,3) True in \<open>simp_all add: d1_def\<close>)
    then obtain d' where d': "write_be_rest d1 (b + 1) (len - 8) x = Some d'" "length d' = length d1"
      "\<And>i. be_bit d' i \<longleftrightarrow> (if 8 * (b + 1) \<le> i \<and> i < 8 * (b + 1) + (len - 8) then bit x (len - 8 - 1 - (i - 8 * (b + 1)))
         else be_bit d1 i)"
      by blast
    have "be_bit d' i \<longleftrightarrow> (if 8 * b \<le> i \<and> i < 8 * b + len then bit x (len - 1 - (i - 8 * b)) else be_bit d i)" for i
    proof (cases "i < 8 * (b + 1)")
      case lt: True
      then show ?thesis using True by (simp add: d'(3) d1)
    next
      case False
      obtain m where m: "len = 8 + m" using True le_Suc_ex by blast
      obtain j where j: "i = 8 * b + 8 + j" using False le_Suc_ex [of "8 * (b + 1)" i] by (auto simp: algebra_simps)
      have e: "len - 8 - 1 - (i - 8 * (b + 1)) = len - 1 - (i - 8 * b)" "8 * (b + 1) + (len - 8) = 8 * b + len"
        unfolding m j by simp_all
      show ?thesis using False unfolding d'(3) e by (auto simp: d1)
    qed
    then show ?thesis
      using d'(1,2) True step by (simp add: write_be_rest.simps [of d b len] d1_def)
  next
    case False
    show ?thesis
    proof (cases "len = 0")
      case True
      then show ?thesis by (auto simp: write_be_rest.simps)
    next
      case pos: False
      then have b: "b < length d" using 1(2) by simp
      define v where "v = (d ! b AND mask (8 - len) OR ucast (push_bit (8 - len) x))"
      have "be_bit (d[b := v]) i \<longleftrightarrow> (if 8 * b \<le> i \<and> i < 8 * b + len then bit x (len - 1 - (i - 8 * b)) else be_bit d i)" for i
      proof (cases "i div 8 = b")
        case True
        then have i: "i mod 8 = i - 8 * b" "8 * b \<le> i" "i < 8 * b + 8" using byte_mod byte_index by blast+
        define t where "t = i - 8 * b"
        have t: "i < 8 * b + len \<longleftrightarrow> t < len" "t < 8" using i by (auto simp: t_def)
        have "t < len \<Longrightarrow> 7 - t - (8 - len) = len - 1 - t" "8 - len \<le> 7 - t \<longleftrightarrow> t < len" "7 - t < 8" "7 - t < 8 - len \<longleftrightarrow> \<not> t < len"
          using False pos t(2) by linarith+
        then have "bit v (7 - t) \<longleftrightarrow> (if t < len then bit x (len - 1 - t) else bit (d ! b) (7 - t))"
          by (auto simp: v_def field_bits)
        then show ?thesis using b True i(1,2) t by (simp add: be_bit_update be_bit_def [of d] t_def)
      next
        case other: False
        then have "\<not> (8 * b \<le> i \<and> i < 8 * b + 8)" using byte_index by blast
        then show ?thesis using b other False by (auto simp: be_bit_update)
      qed
      then show ?thesis
        using False pos b by (intro exI [of _ "d[b := v]"])
          (simp add: write_be_rest.simps [of d b len] rd8_def wr8_def v_def)
    qed
  qed
qed

lemma read_ube_spec:
  assumes "field_in msg off len"
  shows "\<exists>y. tmsg_read_ube msg (of_nat off) (of_nat len) st = Some (y, st) \<and>
    (\<forall>k. bit y k \<longleftrightarrow> k < len \<and> be_bit (tm_data msg) (off + (len - 1 - k)))"
proof -
  define b bo where bo: "b = off div 8" "bo = off mod 8"
  have off: "off = 8 * b + bo" "bo < 8" by (simp_all add: bo)
  let ?d = "tm_data msg"
  note f = field_in_facts [OF assms, folded bo]
  have len: "0 < len" "len \<le> 64" "off + len \<le> 8 * length ?d" using assms by (simp_all add: field_in_def)
  show ?thesis
  proof (cases "len + bo \<le> 8")
    case True
    have "bit (ucast (drop_bit (8 - bo - len) (?d ! b) AND mask len) :: u64) k \<longleftrightarrow> k < len \<and> be_bit ?d (off + (len - 1 - k))" for k
    proof (cases "k < len")
      case k: True
      then have "7 - (bo + (len - 1 - k)) = 8 - bo - len + k" "bo + (len - 1 - k) < 8" "k < 64" "k < 8" using True len by linarith+
      then have "be_bit ?d (off + (len - 1 - k)) = bit (?d ! b) (8 - bo - len + k)"
        using be_bit_byte [of "bo + (len - 1 - k)" ?d b] off(1) by (simp only: add.assoc)
      then show ?thesis using k \<open>k < 64\<close> \<open>k < 8\<close> by (simp add: field_bits)
    qed (simp add: field_bits)
    then show ?thesis using True f len by (simp add: tmsg_read_ube_def rd8_def)
  next
    case False
    show ?thesis
    proof (cases "bo = 0")
      case True
      have "\<exists>y. read_be_rest ?d b len 0 = Some y \<and> (\<forall>k. bit y k \<longleftrightarrow> bit (0 :: u64) k \<or> k < len \<and> be_bit ?d (8 * b + (len - 1 - k)))"
        by (rule read_be_rest_spec) (use len off True in simp_all)
      then show ?thesis using True False f off by (auto simp: tmsg_read_ube_def)
    next
      case pos: False
      define n where "n = len - (8 - bo)"
      have n: "len = n + (8 - bo)" "n < 64" using False len off pos by (auto simp: n_def)
      define y0 where "y0 = (push_bit n (ucast (?d ! b AND mask (8 - bo))) :: u64)"
      have y0: "bit y0 k \<longleftrightarrow> n \<le> k \<and> k < len \<and> bit (?d ! b) (k - n)" for k
        using n len by (auto simp: y0_def field_bits)
      have "\<exists>y. read_be_rest ?d (b + 1) n y0 = Some y \<and>
          (\<forall>k. bit y k \<longleftrightarrow> bit y0 k \<or> k < n \<and> be_bit ?d (8 * (b + 1) + (n - 1 - k)))"
        by (rule read_be_rest_spec) (use len off n y0 in auto)
      then obtain y where y: "read_be_rest ?d (b + 1) n y0 = Some y"
        "\<And>k. bit y k \<longleftrightarrow> bit y0 k \<or> k < n \<and> be_bit ?d (8 * (b + 1) + (n - 1 - k))"
        by blast
      have "bit y k \<longleftrightarrow> k < len \<and> be_bit ?d (off + (len - 1 - k))" for k
      proof (cases "k < n")
        case True
        then have "8 * (b + 1) + (n - 1 - k) = off + (len - 1 - k)" using off n by simp
        then show ?thesis using True n y0 [of k] unfolding y(2) by auto
      next
        case False
        then have "k < len \<Longrightarrow> 7 - (bo + (len - 1 - k)) = k - n" "bo + (len - 1 - k) < 8" using n off by linarith+
        then show ?thesis using False off be_bit_byte [of "bo + (len - 1 - k)" ?d b] by (auto simp: y(2) y0 add.assoc)
      qed
      moreover have "shl64 (ucast (?d ! b AND mask (8 - bo))) n = Some y0" using n by (simp add: shl64_def y0_def)
      ultimately show ?thesis using pos False f y(1) by (simp add: tmsg_read_ube_def rd8_def n_def [symmetric])
    qed
  qed
qed

text \<open>In big endian the rest of \<open>x\<close> is or-ed into the bits before the field, in its first byte.\<close>

lemma write_ube_spec:
  assumes "field_in msg off len"
  shows "\<exists>d'. tmsg_write_ube msg (of_nat off) (of_nat len) x st = Some (msg\<lparr>tm_data := d'\<rparr>, st) \<and>
    length d' = length (tm_data msg) \<and>
    (\<forall>i. be_bit d' i \<longleftrightarrow>
       (if off \<le> i \<and> i < off + len then bit x (off + len - 1 - i)
        else be_bit (tm_data msg) i \<or> i < off \<and> i div 8 = off div 8 \<and> bit x (off + len - 1 - i)))"
proof -
  define b bo where bo: "b = off div 8" "bo = off mod 8"
  have off: "off = 8 * b + bo" "bo < 8" and bdiv: "off div 8 = b" by (simp_all add: bo)
  let ?d = "tm_data msg"
  note f = field_in_facts [OF assms, folded bo]
  have len: "0 < len" "len \<le> 64" "off + len \<le> 8 * length ?d" using assms by (simp_all add: field_in_def)
  show ?thesis
  proof (cases "len + bo \<le> 8")
    case True
    define k where "k = 8 - bo - len"
    define v where "v = (?d ! b AND NOT (push_bit k (mask len)) OR ucast (push_bit k x))"
    have "be_bit (?d[b := v]) i \<longleftrightarrow> (if off \<le> i \<and> i < off + len then bit x (off + len - 1 - i)
        else be_bit ?d i \<or> i < off \<and> i div 8 = off div 8 \<and> bit x (off + len - 1 - i))" for i
    proof (cases "i div 8 = b")
      case same: True
      then have i: "i mod 8 = i - 8 * b" "8 * b \<le> i" "i < 8 * b + 8" using byte_mod byte_index by blast+
      define t where "t = i - 8 * b"
      have it: "i = 8 * b + t" "t < 8" using i by (simp_all add: t_def)
      have idx: "7 - t < 8" "k \<le> 7 - t \<longleftrightarrow> t < bo + len" "t < bo + len \<Longrightarrow> 7 - t - k = bo + len - 1 - t"
        "t < bo + len \<Longrightarrow> 7 - t - k < len \<longleftrightarrow> bo \<le> t"
        using True it(2) by (auto simp: k_def)
      have "bit v (7 - t) \<longleftrightarrow> (if bo \<le> t \<and> t < bo + len then bit x (bo + len - 1 - t)
          else bit (?d ! b) (7 - t) \<or> t < bo \<and> bit x (bo + len - 1 - t))"
        using idx by (cases "t < bo + len") (auto simp: v_def field_bits)
      moreover have "off + len - 1 - i = bo + len - 1 - t" using off it by simp
      moreover have "be_bit (?d[b := v]) i = bit v (7 - t)" "be_bit ?d i = bit (?d ! b) (7 - t)"
        using f(7) same i(1) by (simp_all add: be_bit_def t_def)
      moreover have "off \<le> i \<longleftrightarrow> bo \<le> t" "i < off + len \<longleftrightarrow> t < bo + len" "i < off \<longleftrightarrow> t < bo" using off it by simp_all
      ultimately show ?thesis using same bdiv by simp
    next
      case other: False
      then have "\<not> (8 * b \<le> i \<and> i < 8 * b + 8)" using byte_index by blast
      then have "\<not> (off \<le> i \<and> i < off + len)" using off True by linarith
      then show ?thesis using f(7) other bdiv by (auto simp: be_bit_update)
    qed
    then show ?thesis
      using True f len by (intro exI [of _ "?d[b := v]"]) (simp add: tmsg_write_ube_def rd8_def wr8_def v_def k_def Let_def)
  next
    case False
    show ?thesis
    proof (cases "bo = 0")
      case True
      obtain d' where d': "write_be_rest ?d b len x = Some d'" "length d' = length ?d"
        "\<And>i. be_bit d' i \<longleftrightarrow> (if 8 * b \<le> i \<and> i < 8 * b + len then bit x (len - 1 - (i - 8 * b)) else be_bit ?d i)"
        using write_be_rest_spec [of b len ?d x] len off True by auto
      have "i < off \<Longrightarrow> i div 8 \<noteq> off div 8" for i using off True by auto
      moreover have "8 * b \<le> i \<Longrightarrow> off + len - 1 - i = len - 1 - (i - 8 * b)" for i using off True by simp
      ultimately have "be_bit d' i \<longleftrightarrow> (if off \<le> i \<and> i < off + len then bit x (off + len - 1 - i)
          else be_bit ?d i \<or> i < off \<and> i div 8 = off div 8 \<and> bit x (off + len - 1 - i))" for i
        using off True by (auto simp: d'(3))
      then show ?thesis using True False f d'(1,2) by (intro exI [of _ d']) (simp add: tmsg_write_ube_def)
    next
      case pos: False
      define n where "n = len - (8 - bo)"
      have n: "len = n + (8 - bo)" "n < 64" using False len off pos by (auto simp: n_def)
      define v where "v = (?d ! b AND NOT (mask (8 - bo)) OR ucast (drop_bit n x))"
      obtain d' where d': "write_be_rest (?d[b := v]) (b + 1) n x = Some d'" "length d' = length ?d"
        "\<And>i. be_bit d' i \<longleftrightarrow> (if 8 * (b + 1) \<le> i \<and> i < 8 * (b + 1) + n then bit x (n - 1 - (i - 8 * (b + 1)))
           else be_bit (?d[b := v]) i)"
        using write_be_rest_spec [of "b + 1" n "?d[b := v]" x] len off n by auto
      have v: "be_bit (?d[b := v]) i \<longleftrightarrow> (if i div 8 = b \<and> off \<le> i then bit x (off + len - 1 - i)
          else be_bit ?d i \<or> i div 8 = b \<and> bit x (off + len - 1 - i))" for i
      proof (cases "i div 8 = b")
        case True
        then have i: "i mod 8 = i - 8 * b" "8 * b \<le> i" "i < 8 * b + 8" using byte_mod byte_index by blast+
        define t where "t = i - 8 * b"
        have it: "i = 8 * b + t" "t < 8" using i by (simp_all add: t_def)
        have "7 - t < 8 - bo \<longleftrightarrow> off \<le> i" "7 - t < 8" "n + (7 - t) = off + len - 1 - i" using off it n by auto
        then have "bit v (7 - t) \<longleftrightarrow> (if off \<le> i then bit x (off + len - 1 - i) else bit (?d ! b) (7 - t) \<or> bit x (off + len - 1 - i))"
          by (auto simp: v_def field_bits)
        moreover have "be_bit (?d[b := v]) i = bit v (7 - t)" "be_bit ?d i = bit (?d ! b) (7 - t)"
          using f(7) True i(1) by (simp_all add: be_bit_def t_def)
        ultimately show ?thesis using True by simp
      qed (use f(7) in \<open>simp add: be_bit_update\<close>)
      have "be_bit d' i \<longleftrightarrow> (if off \<le> i \<and> i < off + len then bit x (off + len - 1 - i)
          else be_bit ?d i \<or> i < off \<and> i div 8 = off div 8 \<and> bit x (off + len - 1 - i))" for i
      proof (cases "8 * (b + 1) \<le> i")
        case True
        then obtain j where j: "i = 8 * (b + 1) + j" using le_Suc_ex by blast
        have "off \<le> i" "i < off + len \<longleftrightarrow> i < 8 * (b + 1) + n" "n - 1 - (i - 8 * (b + 1)) = off + len - 1 - i" "i div 8 \<noteq> b"
          using off n j by auto
        then show ?thesis using True bdiv by (simp add: d'(3) v)
      next
        case low: False
        have "off \<le> i \<Longrightarrow> i div 8 = b \<and> i < off + len" using low off n unfolding byte_index by auto
        moreover have "\<not> off \<le> i \<Longrightarrow> i < off" by simp
        ultimately show ?thesis using low bdiv by (auto simp: d'(3) v)
      qed
      moreover have "shr64 x n = Some (drop_bit n x)" using n by (simp add: shr64_def)
      ultimately show ?thesis using pos False f d'(1,2)
        by (intro exI [of _ d']) (simp add: tmsg_write_ube_def rd8_def wr8_def v_def n_def [symmetric])
    qed
  qed
qed

section \<open>Independent fields\<close>

definition apart :: "nat \<Rightarrow> nat \<Rightarrow> nat \<Rightarrow> nat \<Rightarrow> bool" where
  "apart off len off' len' \<longleftrightarrow> off + len \<le> off' \<or> off' + len' \<le> off"

fun separate :: "(nat \<times> nat \<times> u64) list \<Rightarrow> bool" where
  "separate [] \<longleftrightarrow> True"
| "separate ((off, len, x) # fs) \<longleftrightarrow> (\<forall>(off', len', x') \<in> set fs. apart off len off' len') \<and> separate fs"

fun write_fields :: "('m \<Rightarrow> nat \<Rightarrow> nat \<Rightarrow> u64 \<Rightarrow> 'm option) \<Rightarrow> (nat \<times> nat \<times> u64) list \<Rightarrow> 'm \<Rightarrow> 'm option" where
  "write_fields wr [] m = Some m"
| "write_fields wr ((off, len, x) # fs) m = Option.bind (wr m off len x) (write_fields wr fs)"

text \<open>What the code generated for a message format relies on.\<close>

locale bit_fields =
  fixes fits :: "'m \<Rightarrow> nat \<Rightarrow> nat \<Rightarrow> bool"
    and rd :: "'m \<Rightarrow> nat \<Rightarrow> nat \<Rightarrow> u64 option"
    and wr :: "'m \<Rightarrow> nat \<Rightarrow> nat \<Rightarrow> u64 \<Rightarrow> 'm option"
  assumes wr_rd: "fits m off len \<Longrightarrow> \<exists>m'. wr m off len x = Some m' \<and> rd m' off len = Some (take_bit len x)"
    and wr_fits: "fits m off len \<Longrightarrow> wr m off len x = Some m' \<Longrightarrow> fits m' off' len' = fits m off' len'"
    and rd_other: "fits m off len \<Longrightarrow> fits m off' len' \<Longrightarrow> take_bit len x = x \<Longrightarrow> apart off len off' len' \<Longrightarrow>
      wr m off len x = Some m' \<Longrightarrow> rd m' off' len' = rd m off' len'"
begin

definition ready :: "'m \<Rightarrow> (nat \<times> nat \<times> u64) list \<Rightarrow> bool" where
  "ready m fs \<longleftrightarrow> (\<forall>(off, len, x) \<in> set fs. fits m off len \<and> take_bit len x = x)"

lemma write_fields_other:
  "ready m fs \<Longrightarrow> fits m off' len' \<Longrightarrow> \<forall>(off, len, x) \<in> set fs. apart off' len' off len \<Longrightarrow> write_fields wr fs m = Some m' \<Longrightarrow>
   rd m' off' len' = rd m off' len'"
proof (induction fs arbitrary: m)
  case (Cons f fs)
  obtain off len x where f: "f = (off, len, x)" by (cases f)
  obtain m1 where m1: "wr m off len x = Some m1" "write_fields wr fs m1 = Some m'"
    using Cons.prems(4) f by (auto simp: bind_eq_Some_conv)
  have "fits m off len" "take_bit len x = x" using Cons.prems(1) f by (simp_all add: ready_def)
  note k = wr_fits [OF this(1) m1(1)] rd_other [OF this(1) Cons.prems(2) this(2) _ m1(1)]
  have "rd m' off' len' = rd m1 off' len'"
    using Cons.IH [of m1] Cons.prems(1-3) m1(2) k(1) f by (fastforce simp: ready_def)
  then show ?case using k(2) Cons.prems(3) f by (auto simp: apart_def)
qed simp

lemma fields_read_back:
  "ready m fs \<Longrightarrow> separate fs \<Longrightarrow>
   \<exists>m'. write_fields wr fs m = Some m' \<and> (\<forall>(off, len, x) \<in> set fs. rd m' off len = Some x)"
proof (induction fs arbitrary: m)
  case (Cons f fs)
  obtain off len x where f: "f = (off, len, x)" by (cases f)
  have fit: "fits m off len" "take_bit len x = x" using Cons.prems(1) f by (simp_all add: ready_def)
  obtain m1 where m1: "wr m off len x = Some m1" "rd m1 off len = Some x" using wr_rd [OF fit(1), of x] fit(2) by auto
  have r1: "ready m1 fs" "fits m1 off len" using Cons.prems(1) f fit(1) wr_fits [OF fit(1) m1(1)] by (auto simp: ready_def)
  obtain m' where m': "write_fields wr fs m1 = Some m'" "\<forall>(off, len, x) \<in> set fs. rd m' off len = Some x"
    using Cons.IH [OF r1(1)] Cons.prems(2) f by auto
  have "rd m' off len = Some x" using write_fields_other [OF r1 _ m'(1)] Cons.prems(2) f m1(2) by simp
  then show ?case using m' m1(1) f by simp
qed simp

end

text \<open>The reads and writes of the code, as functions of the message alone.\<close>

definition get_field :: "bool \<Rightarrow> tmsg_failures \<Rightarrow> tmsg \<Rightarrow> nat \<Rightarrow> nat \<Rightarrow> u64 option" where
  "get_field be st msg off len =
     map_option fst ((if be then tmsg_read_ube else tmsg_read_ule) msg (of_nat off) (of_nat len) st)"

definition put_field :: "bool \<Rightarrow> tmsg_failures \<Rightarrow> tmsg \<Rightarrow> nat \<Rightarrow> nat \<Rightarrow> u64 \<Rightarrow> tmsg option" where
  "put_field be st msg off len x =
     map_option fst ((if be then tmsg_write_ube else tmsg_write_ule) msg (of_nat off) (of_nat len) x st)"

lemma field_in_data: "length d = length (tm_data msg) \<Longrightarrow> field_in (msg\<lparr>tm_data := d\<rparr>) off len = field_in msg off len"
  by (simp add: field_in_def)

lemma high_bits: "take_bit len x = (x :: u64) \<Longrightarrow> bit x k \<Longrightarrow> k < len"
  by (metis bit_take_bit_iff)

interpretation le: bit_fields field_in "get_field False st" "put_field False st" for st
proof unfold_locales
  fix m off len x
  assume a: "field_in m off len"
  obtain d' where d': "tmsg_write_ule m (of_nat off) (of_nat len) x st = Some (m\<lparr>tm_data := d'\<rparr>, st)"
    "length d' = length (tm_data m)" "\<And>i. off \<le> i \<Longrightarrow> i < off + len \<Longrightarrow> le_bit d' i = bit x (i - off)"
    using write_ule_spec [OF a, of x st] by auto
  obtain y where y: "tmsg_read_ule (m\<lparr>tm_data := d'\<rparr>) (of_nat off) (of_nat len) st = Some (y, st)"
    "\<And>k. bit y k \<longleftrightarrow> k < len \<and> le_bit d' (off + k)"
    using read_ule_spec [of "m\<lparr>tm_data := d'\<rparr>" off len st] a d'(2) by (auto simp: field_in_data)
  have "y = take_bit len x" by (rule bit_eqI) (use d'(3) in \<open>auto simp: y(2) bit_take_bit_iff\<close>)
  then show "\<exists>m'. put_field False st m off len x = Some m' \<and> get_field False st m' off len = Some (take_bit len x)"
    using d'(1) y(1) by (simp add: put_field_def get_field_def)
  show "field_in m' off' len' = field_in m off' len'" if "put_field False st m off len x = Some m'" for m' off' len'
    using that d' field_in_data [OF d'(2)] by (simp add: put_field_def)
next
  fix m off len off' len' x m'
  assume a: "field_in m off len" "field_in m off' len'" "take_bit len x = x" "apart off len off' len'"
    "put_field False st m off len x = Some m'"
  obtain d' where d': "m' = m\<lparr>tm_data := d'\<rparr>" "length d' = length (tm_data m)"
    "\<And>i. le_bit d' i \<longleftrightarrow> (if off \<le> i \<and> i < off + len then bit x (i - off)
       else le_bit (tm_data m) i \<or> off + len \<le> i \<and> i div 8 = (off + len - 1) div 8 \<and> bit x (i - off))"
    using write_ule_spec [OF a(1), of x st] a(5) by (auto simp: put_field_def)
  have same: "le_bit d' (off' + k) = le_bit (tm_data m) (off' + k)" if "k < len'" for k
    using that a(4) high_bits [OF a(3), of "off' + k - off"] unfolding d'(3) apart_def by auto
  obtain y y' where y: "tmsg_read_ule m (of_nat off') (of_nat len') st = Some (y, st)"
    "\<And>k. bit y k \<longleftrightarrow> k < len' \<and> le_bit (tm_data m) (off' + k)"
    "tmsg_read_ule m' (of_nat off') (of_nat len') st = Some (y', st)" "\<And>k. bit y' k \<longleftrightarrow> k < len' \<and> le_bit d' (off' + k)"
    using read_ule_spec [OF a(2), of st] read_ule_spec [of m' off' len' st] a(2) field_in_data [OF d'(2)] d'(1) by auto
  have "y' = y" by (rule bit_eqI) (auto simp: y(2,4) same)
  then show "get_field False st m' off' len' = get_field False st m off' len'" using y(1,3) by (simp add: get_field_def)
qed

interpretation be: bit_fields field_in "get_field True st" "put_field True st" for st
proof unfold_locales
  fix m off len x
  assume a: "field_in m off len"
  obtain d' where d': "tmsg_write_ube m (of_nat off) (of_nat len) x st = Some (m\<lparr>tm_data := d'\<rparr>, st)"
    "length d' = length (tm_data m)" "\<And>i. off \<le> i \<Longrightarrow> i < off + len \<Longrightarrow> be_bit d' i = bit x (off + len - 1 - i)"
    using write_ube_spec [OF a, of x st] by auto
  obtain y where y: "tmsg_read_ube (m\<lparr>tm_data := d'\<rparr>) (of_nat off) (of_nat len) st = Some (y, st)"
    "\<And>k. bit y k \<longleftrightarrow> k < len \<and> be_bit d' (off + (len - 1 - k))"
    using read_ube_spec [of "m\<lparr>tm_data := d'\<rparr>" off len st] a d'(2) by (auto simp: field_in_data)
  have "y = take_bit len x" by (rule bit_eqI) (use d'(3) in \<open>auto simp: y(2) bit_take_bit_iff\<close>)
  then show "\<exists>m'. put_field True st m off len x = Some m' \<and> get_field True st m' off len = Some (take_bit len x)"
    using d'(1) y(1) by (simp add: put_field_def get_field_def)
  show "field_in m' off' len' = field_in m off' len'" if "put_field True st m off len x = Some m'" for m' off' len'
    using that d' field_in_data [OF d'(2)] by (simp add: put_field_def)
next
  fix m off len off' len' x m'
  assume a: "field_in m off len" "field_in m off' len'" "take_bit len x = x" "apart off len off' len'"
    "put_field True st m off len x = Some m'"
  obtain d' where d': "m' = m\<lparr>tm_data := d'\<rparr>" "length d' = length (tm_data m)"
    "\<And>i. be_bit d' i \<longleftrightarrow> (if off \<le> i \<and> i < off + len then bit x (off + len - 1 - i)
       else be_bit (tm_data m) i \<or> i < off \<and> i div 8 = off div 8 \<and> bit x (off + len - 1 - i))"
    using write_ube_spec [OF a(1), of x st] a(5) by (auto simp: put_field_def)
  have same: "be_bit d' (off' + (len' - 1 - k)) = be_bit (tm_data m) (off' + (len' - 1 - k))" if "k < len'" for k
    using that a(4) high_bits [OF a(3), of "off + len - 1 - (off' + (len' - 1 - k))"] unfolding d'(3) apart_def by auto
  obtain y y' where y: "tmsg_read_ube m (of_nat off') (of_nat len') st = Some (y, st)"
    "\<And>k. bit y k \<longleftrightarrow> k < len' \<and> be_bit (tm_data m) (off' + (len' - 1 - k))"
    "tmsg_read_ube m' (of_nat off') (of_nat len') st = Some (y', st)" "\<And>k. bit y' k \<longleftrightarrow> k < len' \<and> be_bit d' (off' + (len' - 1 - k))"
    using read_ube_spec [OF a(2), of st] read_ube_spec [of m' off' len' st] a(2) field_in_data [OF d'(2)] d'(1) by auto
  have "y' = y" by (rule bit_eqI) (use same in \<open>simp only: y(2,4) cong: conj_cong\<close>)
  then show "get_field True st m' off' len' = get_field True st m off' len'" using y(1,3) by (simp add: get_field_def)
qed

section \<open>Signed fields\<close>

lemma u2s_take_bit:
  assumes "0 < len" "len < 63" "- (2 ^ (len - 1)) \<le> v" "v < 2 ^ (len - 1)"
  shows "u2s (take_bit len (word_of_int v)) (of_nat len) = Some v"
proof -
  define y where "y = (take_bit len (word_of_int v) :: u64)"
  define p where "p = (2 :: int) ^ (len - 1)"
  have p: "0 < p" "2 ^ len = 2 * p" using assms(1) by (simp_all add: p_def flip: power_Suc)
  have idx: "unat (of_nat len :: u64) = len" using assms(2) by (intro unat_64) simp
  then have i1: "unat (of_nat len - 1 :: u64) = len - 1" using assms(1) by (simp add: unat_sub word_le_nat_alt)
  have "uint y = take_bit len v"
    using assms(2) by (simp add: y_def unsigned_take_bit_eq uint_word_of_int_eq min_def)
  then have "uint y = v mod 2 ^ len" by (simp only: take_bit_eq_mod)
  then have uy: "uint y = v mod (2 * p)" by (simp only: p(2))
  have small: "2 * p \<le> 2 ^ 62" unfolding p(2) [symmetric] using assms(2) by (intro power_increasing) simp_all
  have "v mod (2 * p) < 2 * p" using p(1) by simp
  with small have "uint y < 2 ^ 63" using uy by simp
  moreover have "- (2 ^ 63) \<le> uint y" by (rule order_trans [of _ 0]) simp_all
  ultimately have "signed_take_bit 63 (uint y) = uint y" by (intro signed_take_bit_int_eq_self)
  then have sy: "sint y = uint y" by (simp add: sint_uint)
  have sgn: "bit y (len - 1) \<longleftrightarrow> odd (v div p)"
    using assms(1,2) by (simp add: y_def bit_take_bit_iff bit_word_of_int_iff p_def) (auto simp: bit_iff_odd)
  have range: "- p \<le> v" "v < p" using assms(3,4) by (simp_all add: p_def)
  have "v mod (2 * p) = (if v < 0 then v + 2 * p else v)"
    using mod_pos_pos_trivial [of "v + 2 * p" "2 * p"] mod_pos_pos_trivial [of v "2 * p"] range p(1) by auto
  moreover have "v div p = (if v < 0 then - 1 else 0)"
    using div_pos_pos_trivial [of "v + p" p] div_pos_pos_trivial [of v p] div_add_self2 [of p v] range p(1) by auto
  ultimately show ?thesis using assms(2) uy idx i1 sy sgn p(2) by (auto simp: u2s_def y_def [symmetric])
qed

section \<open>What the message library promises\<close>

text \<open>C26: Any fields of at most 64 bits that lie inside the message and do not overlap, written one after
  the other with values of their width, read back as written, in little and in big endian; so do the
  fields of a message format through the code generated for it.\<close>

theorem tmsg_message_roundtrip:
  assumes "\<forall>(off, len, x) \<in> set fs. field_in msg off len \<and> take_bit len x = x" and "separate fs"
  shows "\<exists>msg'. write_fields (put_field be st) fs msg = Some msg' \<and>
    (\<forall>(off, len, x) \<in> set fs. get_field be st msg' off len = Some x)"
proof (cases be)
  case True
  then show ?thesis using be.fields_read_back [of msg fs st] assms by (simp add: be.ready_def)
next
  case False
  then show ?thesis using le.fields_read_back [of msg fs st] assms by (simp add: le.ready_def)
qed

definition sample_msg :: tmsg where
  "sample_msg = \<lparr>tm_data = [0xFF, 0xFF, 0xFF, 0xFF], tm_len = 4\<rparr>"

theorem tmsg_message_roundtrip_witness:
  "\<exists>msg'. write_fields (put_field True \<lparr>failfn = None, fail_calls = []\<rparr>) [(0, 3, 5), (5, 16, 0xABC), (3, 2, 1)] sample_msg = Some msg' \<and>
    get_field True \<lparr>failfn = None, fail_calls = []\<rparr> msg' 5 16 = Some 0xABC"
  using tmsg_message_roundtrip [of "[(0, 3, 5), (5, 16, 0xABC), (3, 2, 1)]" sample_msg True "\<lparr>failfn = None, fail_calls = []\<rparr>"]
  by (auto simp: field_in_def sample_msg_def apart_def take_bit_eq_mask mask_eq_exp_minus_1)

text \<open>C27: A signed value in the range of its field, of up to 62 bits, reads back with its sign, in
  little and in big endian.\<close>

theorem tmsg_signed_roundtrip:
  assumes "field_in msg off len" and "len < 63" and "- (2 ^ (len - 1)) \<le> v" and "v < 2 ^ (len - 1)"
  shows "\<exists>a b. tmsg_write_le msg (of_nat off) (of_nat len) v st = Some (a, st) \<and>
      tmsg_read_le a (of_nat off) (of_nat len) st = Some (v, st) \<and>
      tmsg_write_be msg (of_nat off) (of_nat len) v st = Some (b, st) \<and>
      tmsg_read_be b (of_nat off) (of_nat len) st = Some (v, st)"
proof -
  have u: "u2s (take_bit len (word_of_int v)) (of_nat len) = Some v"
    using assms by (intro u2s_take_bit) (simp_all add: field_in_def)
  obtain a b where w: "tmsg_write_ule msg (of_nat off) (of_nat len) (word_of_int v) st = Some (a, st)"
    "tmsg_write_ube msg (of_nat off) (of_nat len) (word_of_int v) st = Some (b, st)"
    using write_ule_spec [OF assms(1), of "word_of_int v" st] write_ube_spec [OF assms(1), of "word_of_int v" st] by blast
  have f: "field_in a off len" "field_in b off len"
    using le.wr_fits [OF assms(1), of st "word_of_int v"] be.wr_fits [OF assms(1), of st "word_of_int v"] w assms(1)
    by (simp_all add: put_field_def)
  obtain y z where r: "tmsg_read_ule a (of_nat off) (of_nat len) st = Some (y, st)" "tmsg_read_ube b (of_nat off) (of_nat len) st = Some (z, st)"
    using read_ule_spec [OF f(1), of st] read_ube_spec [OF f(2), of st] by blast
  have "y = take_bit len (word_of_int v)" "z = take_bit len (word_of_int v)"
    using le.wr_rd [OF assms(1), of st "word_of_int v"] be.wr_rd [OF assms(1), of st "word_of_int v"] w r
    by (simp_all add: put_field_def get_field_def)
  then show ?thesis using w r u by (simp add: tmsg_write_le_def tmsg_read_le_def tmsg_write_be_def tmsg_read_be_def)
qed

theorem tmsg_signed_roundtrip_witness:
  "\<exists>a. tmsg_write_le sample_msg (of_nat 5) (of_nat 11) (- 700) \<lparr>failfn = None, fail_calls = []\<rparr> = Some (a, \<lparr>failfn = None, fail_calls = []\<rparr>) \<and>
    tmsg_read_le a (of_nat 5) (of_nat 11) \<lparr>failfn = None, fail_calls = []\<rparr> = Some (- 700, \<lparr>failfn = None, fail_calls = []\<rparr>)"
  using tmsg_signed_roundtrip [of sample_msg 5 11 "- 700" "\<lparr>failfn = None, fail_calls = []\<rparr>"]
  by (auto simp: field_in_def sample_msg_def)

lemma boundsp_word:
  assumes "8 * length (tm_data msg) < 2 ^ 63" and "tm_len msg = of_nat (length (tm_data msg))" and "unat len \<le> 64"
  shows "boundsp msg off len st =
    (if unat off + unat len \<le> 8 * length (tm_data msg) \<or>
        2 ^ 64 \<le> unat off + unat len \<and> unat off + unat len - 2 ^ 64 \<le> 8 * length (tm_data msg)
     then (True, st) else (False, tmsg_fail st))"
proof -
  have "unat (tm_len msg * 8) = 8 * length (tm_data msg)"
    using assms(1,2) by (simp add: unat_word_ariths unat_of_nat)
  moreover have "unat off < 2 ^ 64" using unsigned_less [where w = off and 'a = nat] by simp
  then have "unat (off + len) = (if unat off + unat len < 2 ^ 64 then unat off + unat len else unat off + unat len - 2 ^ 64)"
    using assms(3) by (simp add: unat_word_ariths le_mod_geq)
  ultimately show ?thesis by (auto simp: boundsp_def word_le_nat_alt)
qed

lemma rest_outside:
  "length d \<le> b \<Longrightarrow> 8 < n \<Longrightarrow> read_le_rest d b 0 n 0 = None" "length d \<le> b \<Longrightarrow> 8 < n \<Longrightarrow> write_le_rest d b 0 n x = None"
  "length d \<le> b \<Longrightarrow> 8 < n \<Longrightarrow> read_be_rest d b n 0 = None" "length d \<le> b \<Longrightarrow> 8 < n \<Longrightarrow> write_be_rest d b n x = None"
  by (simp_all add: read_le_rest.simps [of d b 0] write_le_rest.simps [of d b 0] read_be_rest.simps [of d b n]
      write_be_rest.simps [of d b n] rd8_def wr8_def shr64_def bind_eq_None_conv)

text \<open>A field that starts past the end of the array and passes the test.\<close>

lemma access_outside:
  assumes "length (tm_data msg) \<le> unat (drop_bit 3 off)" and "fst (boundsp msg off len st)" and "unat len \<le> 64"
  shows "tmsg_read_ule msg off len st = None" "tmsg_read_ube msg off len st = None"
    "tmsg_write_ule msg off len x st = None" "tmsg_write_ube msg off len x st = None"
proof -
  have ok: "boundsp msg off len st = (True, st)" using assms(2) by (simp add: boundsp_def split: if_splits)
  have out: "rd8 (tm_data msg) (unat (drop_bit 3 off)) = None" using assms(1) by (simp add: rd8_def)
  have low: "off AND 7 = 0" if "unat (off AND 7) = 0 \<or> \<not> 0 < off"
    using that by (auto simp: word_gt_0 unat_0_iff)
  have "8 < unat len" if "\<not> len + (off AND 7) \<le> 8" "unat (off AND 7) = 0 \<or> \<not> 0 < off"
    using that(1) unfolding low [OF that(2)] by (simp add: word_le_nat_alt)
  note rest = rest_outside [OF assms(1) this]
  show "tmsg_read_ule msg off len st = None" "tmsg_write_ule msg off len x st = None"
    "tmsg_read_ube msg off len st = None" "tmsg_write_ube msg off len x st = None"
    by (simp_all add: tmsg_read_ule_def tmsg_read_ube_def tmsg_write_ule_def tmsg_write_ube_def ok out rest low Let_def
        bind_eq_None_conv)
qed

text \<open>C28: Every unsigned access of 1 to 64 bits to a message of less than 2^60 bytes: a field inside it is
  read or written, no failure is reported and the length does not change. A field outside makes the
  reads 0 and the writes without effect, and calls the failure function once, unless its offset is so
  near to 2^64 that offset plus length wraps to a number inside the message: then the test passes and the
  access leaves the array.\<close>

theorem tmsg_access_total:
  fixes off len :: u64
  assumes "8 * length (tm_data msg) < 2 ^ 63" and "tm_len msg = of_nat (length (tm_data msg))"
    and "0 < len" and "len \<le> 64" and "e = unat off + unat len"
  shows "if e \<le> 8 * length (tm_data msg)
    then \<exists>y z a b. tmsg_read_ule msg off len st = Some (y, st) \<and> tmsg_read_ube msg off len st = Some (z, st) \<and>
      tmsg_write_ule msg off len x st = Some (msg\<lparr>tm_data := a\<rparr>, st) \<and>
      tmsg_write_ube msg off len x st = Some (msg\<lparr>tm_data := b\<rparr>, st) \<and>
      length a = length (tm_data msg) \<and> length b = length (tm_data msg)
    else if 2 ^ 64 \<le> e \<and> e - 2 ^ 64 \<le> 8 * length (tm_data msg)
    then tmsg_read_ule msg off len st = None \<and> tmsg_read_ube msg off len st = None \<and>
      tmsg_write_ule msg off len x st = None \<and> tmsg_write_ube msg off len x st = None
    else tmsg_read_ule msg off len st = Some (0, tmsg_fail st) \<and> tmsg_read_ube msg off len st = Some (0, tmsg_fail st) \<and>
      tmsg_write_ule msg off len x st = Some (msg, tmsg_fail st) \<and>
      tmsg_write_ube msg off len x st = Some (msg, tmsg_fail st)"
proof -
  have len: "0 < unat len" "unat len \<le> 64" using assms(3,4) by (simp_all add: word_gt_0 unat_gt_0 word_le_nat_alt)
  note bound = boundsp_word [OF assms(1,2) len(2), of off, folded assms(5)]
  consider (inside) "e \<le> 8 * length (tm_data msg)"
    | (wraps) "\<not> e \<le> 8 * length (tm_data msg)" "2 ^ 64 \<le> e" "e - 2 ^ 64 \<le> 8 * length (tm_data msg)"
    | (outside) "\<not> e \<le> 8 * length (tm_data msg)" "\<not> (2 ^ 64 \<le> e \<and> e - 2 ^ 64 \<le> 8 * length (tm_data msg))" by blast
  then show ?thesis
  proof cases
    case inside
    then have f: "field_in msg (unat off) (unat len)" using assms len by (simp add: field_in_def)
    obtain y z where "tmsg_read_ule msg off len st = Some (y, st)" "tmsg_read_ube msg off len st = Some (z, st)"
      using read_ule_spec [OF f, of st] read_ube_spec [OF f, of st] by auto
    moreover obtain a b where "tmsg_write_ule msg off len x st = Some (msg\<lparr>tm_data := a\<rparr>, st)"
      "tmsg_write_ube msg off len x st = Some (msg\<lparr>tm_data := b\<rparr>, st)"
      "length a = length (tm_data msg)" "length b = length (tm_data msg)"
      using write_ule_spec [OF f, of x st] write_ube_spec [OF f, of x st] by auto
    ultimately show ?thesis using inside by (simp, blast)
  next
    case wraps
    then have "length (tm_data msg) \<le> unat (drop_bit 3 off)"
      using assms(1,5) len(2) by (simp add: drop_bit_eq_div unat_div)
    note out = access_outside [OF this _ len(2)]
    have "fst (boundsp msg off len st)" using wraps by (simp add: bound)
    then show ?thesis using wraps out by simp
  next
    case outside
    then have "boundsp msg off len st = (False, tmsg_fail st)" by (simp only: bound if_False simp_thms)
    then show ?thesis
      using outside by (simp only: if_False tmsg_read_ule_def tmsg_read_ube_def tmsg_write_ule_def tmsg_write_ube_def) simp
  qed
qed

theorem tmsg_access_total_witness:
  "tmsg_read_ule sample_msg 30 7 \<lparr>failfn = Some 1, fail_calls = []\<rparr> = Some (0, \<lparr>failfn = Some 1, fail_calls = [1]\<rparr>) \<and>
   tmsg_write_ule sample_msg (- 8) 16 0 \<lparr>failfn = Some 1, fail_calls = []\<rparr> = None"
proof -
  let ?st = "\<lparr>failfn = Some 1, fail_calls = []\<rparr>"
  have m: "8 * length (tm_data sample_msg) < 2 ^ 63" "tm_len sample_msg = of_nat (length (tm_data sample_msg))"
    "8 * length (tm_data sample_msg) = 32"
    by (simp_all add: sample_msg_def)
  have "uint (- 8 :: u64) = 18446744073709551608" by simp
  then have "unat (- 8 :: u64) = 18446744073709551608" by (simp only: unat_eq_nat_uint)
  then have "2 ^ 64 + 8 = unat (- 8 :: u64) + unat (16 :: u64)" by simp
  from tmsg_access_total [OF m(1,2) _ _ this, of ?st 0] have "tmsg_write_ule sample_msg (- 8) 16 0 ?st = None"
    unfolding m(3) by simp
  moreover have "37 = unat (30 :: u64) + unat (7 :: u64)" by simp
  from tmsg_access_total [OF m(1,2) _ _ this, of ?st 0] have "tmsg_read_ule sample_msg 30 7 ?st = Some (0, tmsg_fail ?st)"
    unfolding m(3) by simp
  ultimately show ?thesis by (simp add: tmsg_fail_def)
qed

text \<open>The value of a write is not cut to its field: -1 written to three bits sets the other five of the
  byte as well.\<close>

lemma tmsg_negative_spills:
  "tmsg_write_le \<lparr>tm_data = [0], tm_len = 1\<rparr> 0 3 (- 1) st = Some (\<lparr>tm_data = [0xFF], tm_len = 1\<rparr>, st)"
proof -
  have "(ucast (- 1 :: u64) :: u8) = 255" by code_simp
  then show ?thesis
    by (simp add: tmsg_write_le_def tmsg_write_ule_def boundsp_def rd8_def wr8_def low_mask_def Let_def mask_eq_exp_minus_1)
qed

end
