(* ===== verification/SerialForwarder.thy ===== *)
theory SerialForwarder
  imports SerialSource
begin

text \<open>
  The serial forwarder: packets over a socket (\<open>tools/tinyos/c/sf/sfsource.c\<close>), a length byte in front
  of each after a two byte handshake, and the server (\<open>sf.c\<close>) that relays packets between the mote's
  serial line and any number of clients. What the operating system answers to the calls on a socket is
  the list of answers still to come; None is an access outside an array or an operation that has not
  returned when the answers run out.
\<close>

section \<open>Sockets\<close>

record sock =
  so_reads :: "read_answer list"
  so_writes :: "write_answer list"
  so_mallocs :: "bool list"
  so_out :: bytes

text \<open>The loops of \<open>saferead\<close>, which answers with the bytes it has stored, and \<open>safewrite\<close>.\<close>

fun saferead_loop :: "read_answer list \<Rightarrow> int \<Rightarrow> bytes \<Rightarrow> (int \<times> bytes \<times> read_answer list) option" where
  "saferead_loop [] count acc = (if count > 0 then None else Some (int (length acc), acc, []))"
| "saferead_loop (a # as) count acc =
     (if count > 0 then
        (case a of
           Rd_error e \<Rightarrow> if e = EINTR then saferead_loop as count acc else Some (-1, acc, as)
         | Rd bs \<Rightarrow>
             if int (length bs) > count then None
             else if bs = [] then Some (int (length acc), acc, as)
             else saferead_loop as (count - int (length bs)) (acc @ bs))
      else Some (int (length acc), acc, a # as))"

definition saferead :: "int \<Rightarrow> sock \<Rightarrow> (int \<times> bytes \<times> sock) option" where
  "saferead count s = do {
     (n, bs, as) \<leftarrow> saferead_loop (so_reads s) count [];
     Some (n, bs, s\<lparr>so_reads := as\<rparr>)
   }"

fun safewrite_loop :: "write_answer list \<Rightarrow> bytes \<Rightarrow> int \<Rightarrow> bytes \<Rightarrow> (int \<times> bytes \<times> write_answer list) option" where
  "safewrite_loop [] bs actual out = (if bs \<noteq> [] then None else Some (actual, out, []))"
| "safewrite_loop (a # as) bs actual out =
     (if bs \<noteq> [] then
        (case a of
           Wr_error e \<Rightarrow> if e = EINTR then safewrite_loop as bs actual out else Some (-1, out, as)
         | Wr n \<Rightarrow>
             if n > length bs then None
             else safewrite_loop as (drop n bs) (actual + int n) (out @ take n bs))
      else Some (actual, out, a # as))"

definition safewrite :: "bytes \<Rightarrow> sock \<Rightarrow> (int \<times> sock) option" where
  "safewrite buffer s = do {
     (n, out, as) \<leftarrow> safewrite_loop (so_writes s) buffer 0 (so_out s);
     Some (n, s\<lparr>so_writes := as, so_out := out\<rparr>)
   }"

definition so_malloc :: "sock \<Rightarrow> (bool \<times> sock) option" where
  "so_malloc s = (case so_mallocs s of [] \<Rightarrow> None | b # bs \<Rightarrow> Some (b, s\<lparr>so_mallocs := bs\<rparr>))"

section \<open>Packets over a socket\<close>

text \<open>'U' and the version, ' '; characters are signed.\<close>

definition init_sf_source :: "sock \<Rightarrow> (int \<times> sock) option" where
  "init_sf_source s = do {
     (n, s) \<leftarrow> safewrite [85, 32] s;
     if n \<noteq> 2 then Some (-1, s)
     else do {
       (n, check, s) \<leftarrow> saferead 2 s;
       if n \<noteq> 2 \<or> check ! 0 \<noteq> 85 then Some (-1, s)
       else
         let version = sint (check ! 1);
             version = (if 32 < version then 32 else version)
         in Some (if version = 32 then 0 else -1, s)
     }
   }"

text \<open>\<open>fd\<close>, \<open>found\<close> and \<open>connected\<close>: what socket, gethostbyname and connect answer. The second component
  says whether the socket is closed again.\<close>

definition open_sf_source :: "int \<Rightarrow> bool \<Rightarrow> bool \<Rightarrow> sock \<Rightarrow> (int \<times> bool \<times> sock) option" where
  "open_sf_source fd found connected s =
     (if fd < 0 then Some (fd, False, s)
      else if \<not> found then Some (-1, True, s)
      else if \<not> connected then Some (-1, True, s)
      else do {
        (r, s) \<leftarrow> init_sf_source s;
        if r < 0 then Some (-1, True, s) else Some (fd, False, s)
      })"

definition read_sf_packet :: "sock \<Rightarrow> ((bytes \<times> int) option \<times> sock) option" where
  "read_sf_packet s = do {
     (n, l, s) \<leftarrow> saferead 1 s;
     if n \<noteq> 1 then Some (None, s)
     else do {
       let l = uint (l ! 0);
       (ok, s) \<leftarrow> so_malloc s;
       if \<not> ok then Some (None, s)
       else do {
         (n, packet, s) \<leftarrow> saferead l s;
         if n \<noteq> l then Some (None, s) else Some (Some (packet, l), s)
       }
     }
   }"

definition write_sf_packet :: "bytes \<Rightarrow> int \<Rightarrow> sock \<Rightarrow> (int \<times> sock) option" where
  "write_sf_packet packet len s = do {
     let l = (word_of_int len :: u8);
     (n, s) \<leftarrow> safewrite [l] s;
     if n \<noteq> 1 then Some (-1, s)
     else do {
       bs \<leftarrow> array_prefix packet (uint l);
       (n, s) \<leftarrow> safewrite bs s;
       Some (if n \<noteq> uint l then -1 else 0, s)
     }
   }"

section \<open>The server\<close>

text \<open>The clients are the file descriptors of the list; \<open>socks\<close> is the socket behind each descriptor,
  \<open>closed_fds\<close> the descriptors closed so far. A server that exits is \<open>Inl\<close> of its exit code.\<close>

record sf_server =
  sf_src :: serial_source
  clients :: "nat list"
  socks :: "nat \<Rightarrow> sock"
  packets_read :: int
  packets_written :: int
  num_clients :: int
  closed_fds :: "nat list"

type_synonym sf_run = "(int + sf_server) option"

definition unix_check :: "int \<Rightarrow> int + int" where
  "unix_check result = (if result < 0 then Inl 2 else Inr result)"

definition fd_wait :: "nat list \<Rightarrow> int \<Rightarrow> nat \<Rightarrow> nat list \<times> int" where
  "fd_wait fds maxfd fd = (fd # fds, if int fd > maxfd then int fd else maxfd)"

definition add_client :: "bool \<Rightarrow> nat \<Rightarrow> sf_server \<Rightarrow> int + sf_server" where
  "add_client malloc_ok fd s =
     (if \<not> malloc_ok then Inl 2
      else Inr (s\<lparr>clients := fd # clients s, num_clients := num_clients s + 1\<rparr>))"

text \<open>The client leaves the list; the callers walk the list and leave it out.\<close>

definition rem_client :: "nat \<Rightarrow> sf_server \<Rightarrow> sf_server" where
  "rem_client fd s = s\<lparr>num_clients := num_clients s - 1, closed_fds := closed_fds s @ [fd]\<rparr>"

definition new_client :: "bool \<Rightarrow> nat \<Rightarrow> sf_server \<Rightarrow> sf_run" where
  "new_client malloc_ok fd s = do {
     (r, so) \<leftarrow> init_sf_source (socks s fd);
     let s = s\<lparr>socks := (socks s)(fd := so)\<rparr>;
     Some (if r < 0 then Inr (s\<lparr>closed_fds := closed_fds s @ [fd]\<rparr>) else add_client malloc_ok fd s)
   }"

definition forward_packet :: "bytes \<Rightarrow> int \<Rightarrow> sf_server \<Rightarrow> sf_run" where
  "forward_packet packet len s = do {
     (ok, src) \<leftarrow> write_serial_packet packet len (sf_src s);
     Some (if ok < 0 then Inl 2 else Inr (s\<lparr>sf_src := src, packets_written := packets_written s + 1\<rparr>))
   }"

text \<open>The clients from the current one on; those that stay are returned.\<close>

fun check_clients_loop :: "nat list \<Rightarrow> nat list \<Rightarrow> sf_server \<Rightarrow> (int + nat list \<times> sf_server) option" where
  "check_clients_loop fds [] s = Some (Inr ([], s))"
| "check_clients_loop fds (c # cs) s =
     (if c \<in> set fds then do {
        (packet, so) \<leftarrow> read_sf_packet (socks s c);
        let s = s\<lparr>socks := (socks s)(c := so)\<rparr>;
        case packet of
          None \<Rightarrow> check_clients_loop fds cs (rem_client c s)
        | Some (p, len) \<Rightarrow> do {
            r \<leftarrow> forward_packet p len s;
            case r of
              Inl code \<Rightarrow> Some (Inl code)
            | Inr s \<Rightarrow> map_option (map_sum id (apfst ((#) c))) (check_clients_loop fds cs s)
          }
      }
      else map_option (map_sum id (apfst ((#) c))) (check_clients_loop fds cs s))"

definition check_clients :: "nat list \<Rightarrow> sf_server \<Rightarrow> sf_run" where
  "check_clients fds s =
     map_option (map_sum id (\<lambda>(cs, s). s\<lparr>clients := cs\<rparr>)) (check_clients_loop fds (clients s) s)"

fun wait_clients :: "nat list \<Rightarrow> nat list \<times> int \<Rightarrow> nat list \<times> int" where
  "wait_clients [] w = w"
| "wait_clients (c # cs) w = wait_clients cs (fd_wait (fst w) (snd w) c)"

fun dispatch_loop :: "bytes \<Rightarrow> int \<Rightarrow> nat list \<Rightarrow> sf_server \<Rightarrow> (nat list \<times> sf_server) option" where
  "dispatch_loop packet len [] s = Some ([], s)"
| "dispatch_loop packet len (c # cs) s = do {
     (r, so) \<leftarrow> write_sf_packet packet len (socks s c);
     let s = s\<lparr>socks := (socks s)(c := so)\<rparr>;
     if r \<ge> 0 then map_option (apfst ((#) c)) (dispatch_loop packet len cs s)
     else dispatch_loop packet len cs (rem_client c s)
   }"

definition dispatch_packet :: "bytes \<Rightarrow> int \<Rightarrow> sf_server \<Rightarrow> sf_server option" where
  "dispatch_packet packet len s =
     map_option (\<lambda>(cs, s). s\<lparr>clients := cs\<rparr>) (dispatch_loop packet len (clients s) s)"

text \<open>The answers of socket, fcntl, setsockopt, bind and listen.\<close>

definition open_server_socket :: "int list \<Rightarrow> int + int" where
  "open_server_socket answers =
     (case filter (\<lambda>r. r < 0) answers of [] \<Rightarrow> Inr (hd answers) | _ \<Rightarrow> Inl 2)"

definition check_new_client :: "int \<Rightarrow> bool \<Rightarrow> sf_server \<Rightarrow> sf_run" where
  "check_new_client accepted malloc_ok s =
     (if accepted \<ge> 0 then new_client malloc_ok (nat accepted) s else Some (Inr s))"

definition check_serial :: "sf_server \<Rightarrow> sf_server option" where
  "check_serial s = do {
     (packet, src) \<leftarrow> read_serial_packet (sf_src s);
     let s = s\<lparr>sf_src := src\<rparr>;
     case packet of
       None \<Rightarrow> Some s
     | Some (p, len) \<Rightarrow> dispatch_packet p len (s\<lparr>packets_read := packets_read s + 1\<rparr>)
   }"

text \<open>One round of the loop in \<open>main\<close>: \<open>ret\<close> and \<open>rfds\<close> are what select answers, \<open>accepted\<close> what accept
  does.\<close>

definition sf_wait :: "nat \<Rightarrow> nat \<Rightarrow> sf_server \<Rightarrow> nat list \<times> int" where
  "sf_wait serfd server_socket s =
     wait_clients (clients s) (case fd_wait [] (-1) serfd of (fds, maxfd) \<Rightarrow> fd_wait fds maxfd server_socket)"

definition sf_round :: "nat \<Rightarrow> nat \<Rightarrow> int \<Rightarrow> nat list \<Rightarrow> int \<Rightarrow> bool \<Rightarrow> sf_server \<Rightarrow> sf_run" where
  "sf_round serfd server_socket ret rfds accepted malloc_ok s = do {
     s \<leftarrow> (if serial_source_empty (sf_src s) then Some s else check_serial s);
     if ret < 0 then Some (Inr s)
     else do {
       s \<leftarrow> (if serfd \<in> set rfds then check_serial s else Some s);
       r \<leftarrow> (if server_socket \<in> set rfds then check_new_client accepted malloc_ok s else Some (Inr s));
       case r of Inl code \<Rightarrow> Some (Inl code) | Inr s \<Rightarrow> check_clients rfds s
     }
   }"

end
