(* ===== verification/SerialForwarderProps.thy ===== *)
theory SerialForwarderProps
  imports SerialForwarder SerialSourceProps
begin

text \<open>
  What the serial forwarder promises: a packet the mote sends is acknowledged and reaches every client
  whose connection takes it, whole and in the order of the clients; a client whose connection fails is
  dropped and the others do not notice; and the other end of a connection reads back the packet that
  was written, however the network cuts it.
\<close>

section \<open>Whole transfers\<close>

text \<open>What becomes of writing \<open>n\<close> bytes: whether all go out, and the answers left.\<close>

fun written :: "nat \<Rightarrow> write_answer list \<Rightarrow> (bool \<times> write_answer list) option" where
  "written n [] = (if n = 0 then Some (True, []) else None)"
| "written n (a # as) =
     (if n = 0 then Some (True, a # as)
      else case a of
        Wr_error e \<Rightarrow> if e = EINTR then written n as else Some (False, as)
      | Wr k \<Rightarrow> if k \<le> n then written (n - k) as else None)"

lemma safewrite_loop_written:
  "written (length bs) as = Some (ok, rest) \<Longrightarrow>
   \<exists>out'. safewrite_loop as bs n out = Some (if ok then n + int (length bs) else - 1, out @ out', rest) \<and> (ok \<longrightarrow> out' = bs)"
proof (induction as arbitrary: bs n out)
  case (Cons a as)
  show ?case
  proof (cases "bs = []")
    case True
    then show ?thesis using Cons.prems by auto
  next
    case ne: False
    show ?thesis
    proof (cases a)
      case (Wr k)
      then have k: "k \<le> length bs" "written (length (drop k bs)) as = Some (ok, rest)"
        using Cons.prems ne by (auto split: if_splits)
      obtain out' where "safewrite_loop as (drop k bs) (n + int k) (out @ take k bs) =
          Some (if ok then n + int k + int (length (drop k bs)) else - 1, (out @ take k bs) @ out', rest)" "ok \<longrightarrow> out' = drop k bs"
        using Cons.IH [OF k(2)] by blast
      then show ?thesis using Wr ne k(1) by (intro exI [of _ "take k bs @ out'"]) auto
    next
      case (Wr_error e)
      then show ?thesis using Cons ne by (auto split: if_splits)
    qed
  qed
qed (auto split: if_splits)

text \<open>A packet: its length byte, then the bytes.\<close>

definition packet_written :: "nat \<Rightarrow> write_answer list \<Rightarrow> (bool \<times> write_answer list) option" where
  "packet_written n as = do {
     (ok, as) \<leftarrow> written 1 as;
     if ok then written n as else Some (False, as)
   }"

definition sf_frame :: "bytes \<Rightarrow> bytes" where
  "sf_frame p = of_nat (length p) # p"

lemma length_byte: "n < 256 \<Longrightarrow> uint (of_nat n :: u8) = int n"
  by (simp add: uint_nat unat_of_nat)

lemma write_sf_packet_spec:
  assumes "packet_written (length p) (so_writes s) = Some (ok, rest)" and "length p < 256" and "take (length p) mem = p"
  shows "\<exists>out. write_sf_packet mem (int (length p)) s = Some (if ok then 0 else - 1, s\<lparr>so_writes := rest, so_out := so_out s @ out\<rparr>) \<and>
    (ok \<longrightarrow> out = sf_frame p)"
proof -
  define l where "l = (of_nat (length p) :: u8)"
  obtain ok1 as1 where w: "written 1 (so_writes s) = Some (ok1, as1)"
    "(if ok1 then written (length p) as1 else Some (False, as1)) = Some (ok, rest)"
    using assms(1) by (auto simp: packet_written_def bind_eq_Some_conv)
  obtain o1 where o1: "safewrite_loop (so_writes s) [l] 0 (so_out s) = Some (if ok1 then 1 else - 1, so_out s @ o1, as1)"
    "ok1 \<longrightarrow> o1 = [l]"
    using safewrite_loop_written [of "[l]" "so_writes s" ok1 as1 0 "so_out s"] w(1) by auto
  have pre: "array_prefix mem (uint l) = Some p"
  proof -
    have "length p \<le> length mem" using assms(3) by (metis length_take min.cobounded1)
    then show ?thesis using length_byte [OF assms(2)] assms(3) by (auto simp: l_def array_prefix_def rdz_def rdn_def)
  qed
  show ?thesis
  proof (cases ok1)
    case False
    then show ?thesis using o1 w(2) by (auto simp: write_sf_packet_def safewrite_def l_def)
  next
    case True
    then have "written (length p) as1 = Some (ok, rest)" using w(2) by simp
    from safewrite_loop_written [OF this, of 0 "so_out s @ [l]"] obtain o2 where
      o2: "safewrite_loop as1 p 0 (so_out s @ [l]) = Some (if ok then int (length p) else - 1, (so_out s @ [l]) @ o2, rest)"
      "ok \<longrightarrow> o2 = p" by auto
    have "write_sf_packet mem (int (length p)) s =
        Some (if ok then 0 else - 1, s\<lparr>so_writes := rest, so_out := so_out s @ l # o2\<rparr>)"
      using True o1 o2 pre length_byte [OF assms(2)] by (simp add: write_sf_packet_def safewrite_def l_def)
    then show ?thesis using o2(2) by (intro exI [of _ "l # o2"]) (simp add: sf_frame_def l_def)
  qed
qed

section \<open>Reading back\<close>

text \<open>The bytes arrive, cut by the network and interrupted as it may be; the answers left.\<close>

fun arrived :: "bytes \<Rightarrow> read_answer list \<Rightarrow> read_answer list option" where
  "arrived bs [] = (if bs = [] then Some [] else None)"
| "arrived bs (a # as) =
     (if bs = [] then Some (a # as)
      else case a of
        Rd_error e \<Rightarrow> if e = EINTR then arrived bs as else None
      | Rd c \<Rightarrow> if c \<noteq> [] \<and> take (length c) bs = c then arrived (drop (length c) bs) as else None)"

lemma saferead_loop_arrived:
  "arrived bs as = Some rest \<Longrightarrow>
   saferead_loop as (int (length bs)) acc = Some (int (length acc) + int (length bs), acc @ bs, rest)"
proof (induction as arbitrary: bs acc)
  case (Cons a as)
  show ?case
  proof (cases "bs = []")
    case False
    show ?thesis
    proof (cases a)
      case (Rd c)
      then have c: "c \<noteq> []" "take (length c) bs = c" "arrived (drop (length c) bs) as = Some rest"
        using Cons.prems False by (auto split: if_splits)
      have len: "length c \<le> length bs" using c(2) by (metis length_take min.cobounded1)
      have "saferead_loop as (int (length (drop (length c) bs))) (acc @ c) =
          Some (int (length (acc @ c)) + int (length (drop (length c) bs)), (acc @ c) @ drop (length c) bs, rest)"
        by (rule Cons.IH [OF c(3)])
      moreover have "c @ drop (length c) bs = bs" using c(2) by (metis append_take_drop_id)
      ultimately show ?thesis using Rd False c(1) len by (simp add: of_nat_diff)
    next
      case (Rd_error e)
      then show ?thesis using Cons False by (auto split: if_splits)
    qed
  qed (use Cons.prems in auto)
qed (auto split: if_splits)

definition frame_arrived :: "bytes \<Rightarrow> read_answer list \<Rightarrow> read_answer list option" where
  "frame_arrived bs as = Option.bind (arrived (take 1 bs) as) (arrived (drop 1 bs))"

lemma read_sf_packet_spec:
  assumes "frame_arrived (sf_frame p) (so_reads s) = Some rest" and "length p < 256" and "so_mallocs s = True # ms"
  shows "read_sf_packet s = Some (Some (p, int (length p)), s\<lparr>so_reads := rest, so_mallocs := ms\<rparr>)"
proof -
  define l where "l = (of_nat (length p) :: u8)"
  have l: "uint l = int (length p)" unfolding l_def by (rule length_byte [OF assms(2)])
  obtain as1 where a: "arrived [l] (so_reads s) = Some as1" "arrived p as1 = Some rest"
    using assms(1) by (auto simp: frame_arrived_def sf_frame_def l_def bind_eq_Some_conv)
  show ?thesis
    using saferead_loop_arrived [OF a(1), of "[]"] saferead_loop_arrived [OF a(2), of "[]"] assms(3) l
    by (simp add: read_sf_packet_def saferead_def so_malloc_def)
qed

section \<open>Dispatch\<close>

definition takes_packet :: "nat \<Rightarrow> sock \<Rightarrow> bool" where
  "takes_packet n s \<longleftrightarrow> (case packet_written n (so_writes s) of Some (ok, _) \<Rightarrow> ok | None \<Rightarrow> False)"

lemma dispatch_loop_spec:
  assumes "length p < 256" and "take (length p) mem = p"
    and "distinct cs" and "\<forall>c \<in> set cs. packet_written (length p) (so_writes (socks s c)) \<noteq> None"
  shows "\<exists>s'. dispatch_loop mem (int (length p)) cs s = Some (filter (\<lambda>c. takes_packet (length p) (socks s c)) cs, s') \<and>
    (\<forall>c \<in> set cs. takes_packet (length p) (socks s c) \<longrightarrow> so_out (socks s' c) = so_out (socks s c) @ sf_frame p) \<and>
    (\<forall>c. c \<notin> set cs \<longrightarrow> socks s' c = socks s c) \<and>
    num_clients s' = num_clients s - int (length (filter (\<lambda>c. \<not> takes_packet (length p) (socks s c)) cs)) \<and>
    closed_fds s' = closed_fds s @ filter (\<lambda>c. \<not> takes_packet (length p) (socks s c)) cs \<and>
    sf_src s' = sf_src s \<and> packets_read s' = packets_read s"
  using assms(3,4)
proof (induction cs arbitrary: s)
  case (Cons c cs)
  obtain ok rest where w: "packet_written (length p) (so_writes (socks s c)) = Some (ok, rest)" using Cons.prems(2) by auto
  obtain out where out: "write_sf_packet mem (int (length p)) (socks s c) =
      Some (if ok then 0 else - 1, (socks s c)\<lparr>so_writes := rest, so_out := so_out (socks s c) @ out\<rparr>)" "ok \<longrightarrow> out = sf_frame p"
    using write_sf_packet_spec [OF w assms(1,2)] by blast
  have ok: "takes_packet (length p) (socks s c) = ok" using w by (simp add: takes_packet_def)
  define s1 where "s1 = s\<lparr>socks := (socks s)(c := (socks s c)\<lparr>so_writes := rest, so_out := so_out (socks s c) @ out\<rparr>)\<rparr>"
  define s2 where "s2 = (if ok then s1 else rem_client c s1)"
  have other: "socks s2 d = socks s d" if "d \<noteq> c" for d using that by (simp add: s2_def s1_def rem_client_def)
  have "c \<notin> set cs" "distinct cs" using Cons.prems(1) by simp_all
  then have same: "filter (\<lambda>c. takes_packet (length p) (socks s2 c)) cs = filter (\<lambda>c. takes_packet (length p) (socks s c)) cs"
    "filter (\<lambda>c. \<not> takes_packet (length p) (socks s2 c)) cs = filter (\<lambda>c. \<not> takes_packet (length p) (socks s c)) cs"
    using other by (intro filter_cong; metis)+
  have "\<forall>d \<in> set cs. packet_written (length p) (so_writes (socks s2 d)) \<noteq> None"
    using Cons.prems(2) other \<open>c \<notin> set cs\<close> by (metis list.set_intros(2))
  from Cons.IH [OF \<open>distinct cs\<close> this, unfolded same] obtain s' where
    s': "dispatch_loop mem (int (length p)) cs s2 = Some (filter (\<lambda>c. takes_packet (length p) (socks s c)) cs, s')"
    "\<forall>c \<in> set cs. takes_packet (length p) (socks s2 c) \<longrightarrow> so_out (socks s' c) = so_out (socks s2 c) @ sf_frame p"
    "\<forall>c. c \<notin> set cs \<longrightarrow> socks s' c = socks s2 c"
    "num_clients s' = num_clients s2 - int (length (filter (\<lambda>c. \<not> takes_packet (length p) (socks s c)) cs))"
    "closed_fds s' = closed_fds s2 @ filter (\<lambda>c. \<not> takes_packet (length p) (socks s c)) cs"
    "sf_src s' = sf_src s2" "packets_read s' = packets_read s2"
    by blast
  have "dispatch_loop mem (int (length p)) (c # cs) s =
      Some (filter (\<lambda>c. takes_packet (length p) (socks s c)) (c # cs), s')"
    using out(1) s'(1) ok by (cases ok) (simp_all add: s2_def flip: s1_def)
  moreover have "so_out (socks s' c) = so_out (socks s c) @ out" using s'(3) \<open>c \<notin> set cs\<close> by (simp add: s2_def s1_def rem_client_def)
  moreover have "so_out (socks s' d) = so_out (socks s d) @ sf_frame p" if "d \<in> set cs" "takes_packet (length p) (socks s d)" for d
    using s'(2) that other [of d] \<open>c \<notin> set cs\<close> by (metis)
  moreover have "socks s' d = socks s d" if "d \<notin> set (c # cs)" for d
    using s'(3) that other [of d] by simp
  moreover have "num_clients s2 = num_clients s - (if ok then 0 else 1)" "closed_fds s2 = closed_fds s @ (if ok then [] else [c])"
    "sf_src s2 = sf_src s" "packets_read s2 = packets_read s" by (simp_all add: s2_def s1_def rem_client_def)
  ultimately show ?case using s'(4-7) ok out(2) by (intro exI [of _ s']) auto
qed simp

section \<open>The relay\<close>

text \<open>C25: A packet that arrives whole on the mote's line is acknowledged, and every client whose
  connection takes it gets one frame with exactly that packet; clients whose connection fails, and only
  they, leave the list and are closed. The other end of a connection, however the network cuts what
  it is sent, reads the packet the mote sent.\<close>

theorem sf_relays_packet:
  assumes line: "line_ok (sf_src s)" "idle (sf_src s)" "pending (sf_src s) = framed (P_PACKET_ACK # seq # p) @ rb"
      "queue (sf_src s) P_PACKET_NO_ACK = []" "os_mallocs (sf_src s) = True # True # True # mb"
      "os_fcntls (sf_src s) = True # fb # fsb" "takes_all (length (framed [P_ACK, seq])) (os_writes (sf_src s))"
      "length p \<le> 251"
    and conns: "distinct (clients s)" "\<forall>c \<in> set (clients s). packet_written (length p) (so_writes (socks s c)) \<noteq> None"
  shows "\<exists>s'. check_serial s = Some s' \<and> os_out (sf_src s') = os_out (sf_src s) @ framed [P_ACK, seq] \<and>
    packets_read s' = packets_read s + 1 \<and>
    clients s' = filter (\<lambda>c. takes_packet (length p) (socks s c)) (clients s) \<and>
    num_clients s' - int (length (clients s')) = num_clients s - int (length (clients s)) \<and>
    closed_fds s' = closed_fds s @ filter (\<lambda>c. \<not> takes_packet (length p) (socks s c)) (clients s) \<and>
    (\<forall>c \<in> set (clients s'). \<exists>frame. so_out (socks s' c) = so_out (socks s c) @ frame \<and>
       (\<forall>peer rest ms. frame_arrived frame (so_reads peer) = Some rest \<longrightarrow> so_mallocs peer = True # ms \<longrightarrow>
          read_sf_packet peer = Some (Some (p, int (length p)), peer\<lparr>so_reads := rest, so_mallocs := ms\<rparr>)))"
proof -
  obtain b mem where b: "read_serial_packet (sf_src s) = Some (Some (mem, int (length p)), b)" "take (length p) mem = p"
    "os_out b = os_out (sf_src s) @ framed [P_ACK, seq]"
    using serial_packet_received [OF line] by blast
  define s1 where "s1 = s\<lparr>sf_src := b, packets_read := packets_read s + 1\<rparr>"
  have p: "length p < 256" using line(8) by simp
  obtain s2 where s2: "dispatch_loop mem (int (length p)) (clients s) s1 =
      Some (filter (\<lambda>c. takes_packet (length p) (socks s c)) (clients s), s2)"
    "\<forall>c \<in> set (clients s). takes_packet (length p) (socks s c) \<longrightarrow> so_out (socks s2 c) = so_out (socks s c) @ sf_frame p"
    "num_clients s2 = num_clients s - int (length (filter (\<lambda>c. \<not> takes_packet (length p) (socks s c)) (clients s)))"
    "closed_fds s2 = closed_fds s @ filter (\<lambda>c. \<not> takes_packet (length p) (socks s c)) (clients s)"
    "sf_src s2 = b" "packets_read s2 = packets_read s + 1"
    using dispatch_loop_spec [OF p b(2) conns(1), of s1] conns(2) by (auto simp: s1_def)
  have "check_serial s = Some (s2\<lparr>clients := filter (\<lambda>c. takes_packet (length p) (socks s c)) (clients s)\<rparr>)"
    using b(1) s2(1) by (simp add: check_serial_def dispatch_packet_def s1_def)
  moreover have "int (length (filter (\<lambda>c. takes_packet (length p) (socks s c)) (clients s))) +
      int (length (filter (\<lambda>c. \<not> takes_packet (length p) (socks s c)) (clients s))) = int (length (clients s))"
    using sum_length_filter_compl [of "\<lambda>c. takes_packet (length p) (socks s c)" "clients s"] by simp
  ultimately show ?thesis
    using s2(2-6) b(3) read_sf_packet_spec [of p] p by (intro exI [of _ "s2\<lparr>clients := _\<rparr>"] conjI) auto
qed

definition sample_server :: sf_server where
  "sample_server =
     \<lparr>sf_src = fresh_source (framed [P_PACKET_ACK, 9, 1, 2, 3]) (length (framed [P_ACK, 9])), clients = [7, 5],
      socks = (\<lambda>c. \<lparr>so_reads = [], so_writes = (if c = 5 then [Wr_error EOTHER] else [Wr 1, Wr_error EINTR, Wr 2, Wr 1]),
        so_mallocs = [], so_out = []\<rparr>),
      packets_read = 0, packets_written = 0, num_clients = 2, closed_fds = []\<rparr>"

lemma length_three: "length [1, 2, 3 :: u8] = 3"
  by simp

theorem sf_relays_packet_witness:
  "\<exists>s'. check_serial sample_server = Some s' \<and> clients s' = [7] \<and> closed_fds s' = [5] \<and>
    os_out (sf_src s') = framed [P_ACK, 9]"
proof -
  have l: "3 < length (framed [P_PACKET_ACK, 9, 1, 2, 3])" "length (framed [P_PACKET_ACK, 9, 1, 2, 3]) \<le> 256"
    using framed_length [of "[P_PACKET_ACK, 9, 1, 2, 3]"] by simp_all
  have f: "line_ok (sf_src sample_server)" "idle (sf_src sample_server)"
    "pending (sf_src sample_server) = framed (P_PACKET_ACK # 9 # [1, 2, 3]) @ []" "queue (sf_src sample_server) P_PACKET_NO_ACK = []"
    "os_mallocs (sf_src sample_server) = True # True # True # []" "os_fcntls (sf_src sample_server) = True # True # []"
    "takes_all (length (framed [P_ACK, 9])) (os_writes (sf_src sample_server))" "length [1, 2, 3 :: u8] \<le> 251"
    using fresh_source_ok [OF l] by (simp_all add: sample_server_def)
  have c: "distinct (clients sample_server)" "\<forall>c \<in> set (clients sample_server). packet_written 3 (so_writes (socks sample_server c)) \<noteq> None"
    by (simp_all add: sample_server_def packet_written_def numeral_3_eq_3 ex_bool_eq)
  have t: "filter (\<lambda>c. takes_packet 3 (socks sample_server c)) (clients sample_server) = [7]"
    "filter (\<lambda>c. \<not> takes_packet 3 (socks sample_server c)) (clients sample_server) = [5]"
    by (simp_all add: sample_server_def takes_packet_def packet_written_def numeral_3_eq_3)
  show ?thesis
    using sf_relays_packet [OF f c [folded length_three]] t by (auto simp: length_three [symmetric] sample_server_def)
qed

end
