(* ===== verification/Spec2Isabelle.thy ===== *)
theory Spec2Isabelle
  imports AirtightProperties AirtightNodeProps CircBuf InCksum Ieee154 LowmsgProps LowpanSafety LowpanFragProps
    TcpOutput SimGainProps SerialSourceProps SimNoiseProps TimeSyncProps TMessageProps SerialForwarderProps
begin

text \<open>
  Verification of the AirTight repository: TinyOS with the AirTight mixed-criticality MAC, the blip
  IPv6 library, the TOSSIM simulator and the host's end of the mote's serial line.

  \<^bold>\<open>The program and its parts.\<close> The repository is a TinyOS tree. What is its own core is the
  wireless protocol AirTight (\<open>apps/MCCTable\<close>): each mote runs an application with periodic traffic
  flows (\<open>MCCP\<close>, \<open>TXFlowP\<close>) over a TDMA MAC (\<open>TdmaMacP\<close>). The MAC keeps the packets it forwards in a
  queue of three priority levels split by criticality (\<open>PrioCritQueueP\<close>, over three bounded queues
  \<open>QueueC\<close>); a slot clock (\<open>GenericSlotterP\<close>) signals the slots of a frame, a table says what the mote
  does in each, and missing acknowledgements switch the mote to the high criticality mode. The sink
  synchronises the others by notifications; the flooding time synchronisation FTSP (\<open>TimeSyncP\<close>) is
  wired in next to it. Around it stand the C libraries of the tree: blip (\<open>tools/tinyos/c/blip\<close>) with
  header compression, fragmentation, an allocator and TCP; TOSSIM (\<open>tos/lib/tossim\<close>), the
  discrete event simulator; and the tools that talk to a mote (\<open>tools/tinyos/c/sf\<close>).

  \<^bold>\<open>Which theory models what.\<close>
    \<^item> \<open>Prelude\<close>: machine types and byte memories; an access outside an object is None.
    \<^item> \<open>QueueC\<close>: \<open>tos/system/QueueC.nc\<close>. \<open>PrioCritQueue\<close>: \<open>PrioCritQueueP.nc\<close>. \<open>TdmaMac\<close>: \<open>TdmaMacP.nc\<close>,
      one definition per command and event, on the record \<open>mac\<close> of the module's variables. \<open>TdmaMacProps\<close>:
      the MAC's invariant and its steps. \<open>AirtightProperties\<close>: the properties of queue and MAC.
    \<^item> \<open>GenericSlotter\<close>: \<open>tos/system/GenericSlotterP.nc\<close>. \<open>AirtightApp\<close>: \<open>MCCP.nc\<close> and \<open>TXFlowP.nc\<close>.
      \<open>AirtightNode\<close>: the mote, composed as \<open>MCCC.nc\<close> and \<open>TdmaMacC.nc\<close> wire it (the MAC's \<open>Init\<close> and \<open>Boot\<close>,
      which they leave unwired, are modelled and not run); its events and runs.
      \<open>AirtightNodeProps\<close>: the properties of a mote and of several motes together.
    \<^item> \<open>TimeSync\<close>, \<open>TimeSyncProps\<close>: \<open>tos/lib/ftsp/TimeSyncP.nc\<close>.
    \<^item> \<open>Iovec\<close>, \<open>InCksum\<close>, \<open>NwByte\<close>, \<open>Ieee154\<close>: \<open>lib6lowpan/iovec.c\<close>, \<open>in_cksum.c\<close>, \<open>nwbyte.h\<close>,
      \<open>ieee154_header.c\<close>. \<open>LowpanTypes\<close>, \<open>LowpanPack\<close>, \<open>LowpanUnpack\<close>, \<open>LowpanSafety\<close>: \<open>lib6lowpan.c\<close>.
      \<open>Lowmsg\<close>, \<open>LowmsgProps\<close>: \<open>lib6lowpan_4944.c\<close>. \<open>IpMalloc\<close>, \<open>IpMallocProps\<close>: \<open>ip_malloc.c\<close>.
      \<open>LowpanFrag\<close>, \<open>LowpanFragProps\<close>: \<open>lib6lowpan_frag.c\<close>. \<open>CircBuf\<close>: \<open>libtcp/circ.c\<close>. \<open>Tcp\<close>, \<open>TcpProps\<close>,
      \<open>TcpOutput\<close>: \<open>libtcp/tcplib.c\<close>. \<open>TcpUser\<close>: \<open>tos/lib/net/blip/TcpP.nc\<close>, the user of that library on a mote.
    \<^item> \<open>SimHeap\<close>, \<open>SimQueue\<close>: \<open>tossim/heap.c\<close>. \<open>SimTossim\<close>, \<open>SimTossimProps\<close>: \<open>sim_event_queue.c\<close>,
      \<open>sim_tossim.c\<close>. \<open>SimGain\<close>, \<open>SimGainProps\<close>: \<open>sim_gain.c\<close>. \<open>SimHashtable\<close>, \<open>SimDictionary\<close>: \<open>hashtable.c\<close>.
      \<open>SimRandomlib\<close>, \<open>SimRandomProps\<close>: \<open>randomlib.c\<close>. \<open>SimNoise\<close>, \<open>SimNoiseProps\<close>: \<open>sim_noise.c\<close>.
    \<^item> \<open>SerialSource\<close>, \<open>SerialSourceProps\<close>: \<open>sf/serialsource.c\<close>. \<open>SerialForwarder\<close>,
      \<open>SerialForwarderProps\<close>: \<open>sf/sfsource.c\<close>, \<open>sf/sf.c\<close>. \<open>TMessage\<close>, \<open>TMessageProps\<close>: \<open>sf/message.c\<close>.

  \<^bold>\<open>How the code is rendered.\<close> A module's variables or a struct are a record, a command, event or
  function is a definition over it with the code's guards and early returns in their order, integers
  are words of their width, and a pointer is an index into the object it points into, or the position
  of a buffer. Undefined behaviour, an access outside an object, a shift or a conversion out of range,
  a signed overflow, a division by zero, and the \<open>while(1)\<close> of an error branch are None, so that a
  theorem that a function returns a Some is also one that it does nothing of the kind. What the
  environment answers, the radio, the clock, the operating system, malloc, is an argument, or a list of
  answers in the state where a function asks often; answers that run out are None, that is an operation
  that has not returned. Where an upcall leaves the code, the handler is a parameter; calls whose effect is outside
  are logged in the state. Floats and doubles are reals and every operation on them is followed by a
  rounding, a parameter of the definitions; the properties that mention it say what they need of it.
  There is no fuel: loops are structural, have a measure, or are least fixed points.

  \<^bold>\<open>Interfaces.\<close> Each contract one component offers another is a locale with an interpretation on the
  code's definitions: \<open>bounded_fifo\<close> (\<open>QueueC\<close>), \<open>slot_handler\<close> (the MAC under the slotter),
  \<open>stream_window\<close> (the circular buffer under TCP), \<open>object_allocator\<close> (\<open>ip_malloc\<close>),
  \<open>bounded_priority_queue\<close> (the heap under the event queue), \<open>link_table\<close> (the links of the
  simulated radio), \<open>dictionary\<close> (the hash table under the noise model), \<open>bit_fields\<close> (the fields of a
  message, in both byte orders).

  \<^bold>\<open>What is shown.\<close> Of AirTight: an invariant of the MAC's reachable states; that every slot event
  returns and which packet it sends; admission, acknowledgement, failure and criticality handling on
  every branch; the refinement of a bounded queue, and the service order; for a mote, that the slots
  advance whatever happens between the alarms, that a notification puts it into the sink's slot and
  that its flows number their messages; for several motes, that no two send in a slot. Of FTSP: that a
  root at a constant offset is followed exactly, how the root may change and that a silent one is
  replaced, and that the regression never divides by zero. Of blip: that decompression is safe on all
  input, that fragments reassemble to the datagram, the round trip of the frame header, the checksum
  of RFC 1071, the allocator's independent objects, that the circular buffer
  reads back what was written out of order, the transitions of the TCP state machine under any user
  code that keeps to its rules, as \<open>TcpP\<close> does, and that output sends all data. Of TOSSIM: that the heap sorts,
  that time does not go back, that links are a map, that the hash table is a dictionary whatever malloc
  answers, that the generator and its seeding are Marsaglia's but for a 0 that may come out as 1, that the noise model learns the trace and draws from it.
  Of the serial tools: that a packet crosses the line, is forwarded to every client and is read back,
  that damaged frames are dropped and that the receiver stays in its buffers on any input, and that
  message fields are independent and read back in both byte orders.

  \<^bold>\<open>Bounds.\<close> The heap of \<open>ip_malloc\<close> has its 1500 bytes, the noise table \<open>NOISE_HASHTABLE_SIZE\<close>
  buckets; the deployed node has the six slots of \<open>SlotTiming.h\<close> and the queue depth of \<open>TdmaMacC.nc\<close>.
  The FTSP theorem on a constant offset asks that the local times lie within \<open>2 ^ 28\<close> ticks, where no
  32-bit difference of the regression can overflow. Serial packets have at most 251 bytes, what the
  256 bytes of the frame buffer leave them; message fields have at most 64 bits, of messages of
  less than \<open>2 ^ 60\<close> bytes. The checksum theorem asks for at most 65537 words, up to which no carry of the 32-bit
  sum is lost, and for elements of even length but the last; TCP output for segments of at most 1390
  bytes, the most that the heap of \<open>ip_malloc\<close> holds next to the headers.

  \<^bold>\<open>Not modelled.\<close> TOSSIM's C++ and Python wrappers, its log and its tables of binary probabilities
  (formatted output and data), the getters and setters of \<open>mac.c\<close>, \<open>csma.c\<close> and \<open>packet.c\<close>; the
  generated images \<open>build/iris/app.c\<close>, which the nesC compiler makes from the components; the border router
  driver and the TUN device (I/O on the host's devices); the third-party code in the tree (libcoap, the MSP432
  driver library, the SAM USB stack, FatFs, the BSD qsort); chip drivers, platforms and the
  protocols AirTight does not use, and TOSThreads. Of the modelled files, printing, \<open>hashtable_destroy\<close>, which only frees memory, and
  the table behind \<open>platform_baud_rate\<close> are left out; of printing, the MAC's \<open>printfflush\<close> alone is logged. Concurrency is that of TinyOS: handlers run to
  their end, so a run is a sequence of events.
\<close>

end
